(* ===== verification/Prelude.thy ===== *)
theory Prelude
  imports Complex_Main "HOL-Library.AList" "HOL-Library.Char_ord" "HOL-Library.List_Lexorder"
begin

text \<open>
  The JavaScript values, containers and result types every component of the library works on,
  and the generic lemmas the component theories share.

  A value of static type \<open>unknown\<close> is a \<open>jsval\<close>: what \<open>JSON.parse\<close> can build, plus
  \<open>undefined\<close>, which is what an absent property reads as. A finite JavaScript number is a
  rational (a double is one, and \<open>===\<close> on finite doubles is equality of rationals); a string is
  the list of its characters, compared by code unit. A plain object, a \<open>Map\<close> and a \<open>Record\<close> are
  association lists in insertion order, written by \<open>AList.update\<close> (an existing key keeps its
  place, a new one goes last) and \<open>AList.delete\<close>. Objects have their own properties only: the
  names a plain object inherits from \<open>Object.prototype\<close> (\<open>constructor\<close>, \<open>toString\<close>,
  \<open>__proto__\<close>, ...) are outside the model.
\<close>

section \<open>JavaScript values\<close>

named_theorems js_simps \<open>unfolding of the small accessors of the model\<close>

type_synonym number = rat
type_synonym 'v dict = "(string \<times> 'v) list"

datatype jsval =
    JUndef
  | JNull
  | JBool bool
  | JNum number
  | JStr string
  | JArr "jsval list"
  | JObj "jsval dict"

text \<open>Property access on a record: an absent key reads as \<open>undefined\<close>.\<close>

definition pget :: "jsval dict \<Rightarrow> string \<Rightarrow> jsval" where
  "pget o' k = (case map_of o' k of Some v \<Rightarrow> v | None \<Rightarrow> JUndef)"

text \<open>Property access on any value. On the values the sources read members of, a non-object has
  none of the names they ask for.\<close>

fun mget :: "jsval \<Rightarrow> string \<Rightarrow> jsval" where
  "mget (JObj kvs) k = pget kvs k"
| "mget _ _ = JUndef"

fun is_arr :: "jsval \<Rightarrow> bool" where
  "is_arr (JArr _) = True" | "is_arr _ = False"

fun is_str :: "jsval \<Rightarrow> bool" where
  "is_str (JStr _) = True" | "is_str _ = False"

fun is_num :: "jsval \<Rightarrow> bool" where
  "is_num (JNum _) = True" | "is_num _ = False"

fun is_bool :: "jsval \<Rightarrow> bool" where
  "is_bool (JBool _) = True" | "is_bool _ = False"

fun is_obj :: "jsval \<Rightarrow> bool" where
  "is_obj (JObj _) = True" | "is_obj _ = False"

text \<open>The elements of an array, \<open>[]\<close> for any other value.\<close>

fun items :: "jsval \<Rightarrow> jsval list" where
  "items (JArr xs) = xs" | "items _ = []"

text \<open>\<open>!!v\<close>: \<open>undefined\<close>, \<open>null\<close>, \<open>false\<close>, \<open>0\<close> and the empty string are falsy.\<close>

fun truthy :: "jsval \<Rightarrow> bool" where
  "truthy JUndef = False"
| "truthy JNull = False"
| "truthy (JBool b) = b"
| "truthy (JNum n) = (n \<noteq> 0)"
| "truthy (JStr s) = (s \<noteq> [])"
| "truthy (JArr _) = True"
| "truthy (JObj _) = True"

fun typeof :: "jsval \<Rightarrow> string" where
  "typeof JUndef = ''undefined''"
| "typeof JNull = ''object''"
| "typeof (JBool _) = ''boolean''"
| "typeof (JNum _) = ''number''"
| "typeof (JStr _) = ''string''"
| "typeof (JArr _) = ''object''"
| "typeof (JObj _) = ''object''"

text \<open>\<open>===\<close> on primitives. Two compound values are identical only when they are the same heap
  object, which a value does not show: the sources use \<open>===\<close> on compounds as a shortcut only.\<close>

fun strict_eq :: "jsval \<Rightarrow> jsval \<Rightarrow> bool" where
  "strict_eq JUndef JUndef = True"
| "strict_eq JNull JNull = True"
| "strict_eq (JBool a) (JBool b) = (a = b)"
| "strict_eq (JNum a) (JNum b) = (a = b)"
| "strict_eq (JStr a) (JStr b) = (a = b)"
| "strict_eq _ _ = False"

definition is_integer :: "number \<Rightarrow> bool" where
  "is_integer x \<longleftrightarrow> of_int \<lfloor>x\<rfloor> = x"

text \<open>\<open>Number.isSafeInteger\<close> on a number.\<close>

definition is_safe_integer :: "number \<Rightarrow> bool" where
  "is_safe_integer x \<longleftrightarrow> is_integer x \<and> \<bar>x\<bar> \<le> 9007199254740991"

text \<open>The values \<open>JSON.parse\<close> produces: no \<open>undefined\<close>, and each object has each key once.\<close>

fun plain :: "jsval \<Rightarrow> bool" where
  "plain JUndef = False"
| "plain JNull = True"
| "plain (JBool _) = True"
| "plain (JNum _) = True"
| "plain (JStr _) = True"
| "plain (JArr xs) = list_all plain xs"
| "plain (JObj kvs) = (distinct (map fst kvs) \<and> list_all (\<lambda>kv. plain (snd kv)) kvs)"

lemma size_arr_elem: "x \<in> set xs \<Longrightarrow> size x < size (JArr xs)"
  by (induction xs) auto

lemma size_obj_elem: "(k, v) \<in> set kvs \<Longrightarrow> size v < size (JObj kvs)"
  by (induction kvs) auto

section \<open>Results\<close>

text \<open>\<open>Result<T, E>\<close> of errors.ts as a sum: \<open>Inl\<close> is \<open>err\<close>, \<open>Inr\<close> is \<open>ok\<close>.\<close>

type_synonym ('e, 'a) result = "'e + 'a"

record fed_error =
  code :: string
  description :: string

definition mk_err :: "string \<Rightarrow> string \<Rightarrow> fed_error" where
  "mk_err c d = \<lparr>code = c, description = d\<rparr>"

lemma mk_err_sel [simp]: "code (mk_err c d) = c" "description (mk_err c d) = d"
  by (simp_all add: mk_err_def)

text \<open>A \<open>for ... of\<close> loop over a list that threads a state and stops at the first early return.\<close>

fun for_each :: "('a \<Rightarrow> 's \<Rightarrow> ('e, 's) result) \<Rightarrow> 'a list \<Rightarrow> 's \<Rightarrow> ('e, 's) result" where
  "for_each f [] s = Inr s"
| "for_each f (x # xs) s = (case f x s of Inl e \<Rightarrow> Inl e | Inr s' \<Rightarrow> for_each f xs s')"

lemma for_each_append:
  "for_each f (xs @ ys) s =
     (case for_each f xs s of Inl e \<Rightarrow> Inl e | Inr s' \<Rightarrow> for_each f ys s')"
  by (induction xs arbitrary: s) (auto split: sum.splits)

text \<open>What every iteration keeps, the loop keeps.\<close>

lemma for_each_invariant:
  assumes "for_each f xs s = Inr s'" and "P s"
    and "\<And>x t t'. x \<in> set xs \<Longrightarrow> P t \<Longrightarrow> f x t = Inr t' \<Longrightarrow> P t'"
  shows "P s'"
  using assms
proof (induction xs arbitrary: s)
  case (Cons a xs)
  then obtain u where u: "f a s = Inr u" "for_each f xs u = Inr s'" by (auto split: sum.splits)
  with Cons.prems have "P u" by (meson list.set_intros(1))
  with u Cons show ?case by (meson list.set_intros(2))
qed simp

text \<open>What one iteration establishes and every iteration keeps holds after the loop; \<open>P\<close> is an
  invariant the argument may use.\<close>

lemma for_each_establishes:
  assumes run: "for_each f xs s = Inr s'" and x: "x \<in> set xs" and P: "P s"
    and keep: "\<And>y t t'. y \<in> set xs \<Longrightarrow> P t \<Longrightarrow> f y t = Inr t' \<Longrightarrow> P t'"
    and est: "\<And>t t'. P t \<Longrightarrow> f x t = Inr t' \<Longrightarrow> Q t'"
    and keepQ: "\<And>y t t'. y \<in> set xs \<Longrightarrow> P t \<Longrightarrow> Q t \<Longrightarrow> f y t = Inr t' \<Longrightarrow> Q t'"
  shows "Q s'"
proof -
  from x obtain us vs where xs: "xs = us @ x # vs" by (meson split_list)
  with run obtain t u where t: "for_each f us s = Inr t" and u: "f x t = Inr u"
    and r: "for_each f vs u = Inr s'" by (auto simp: for_each_append split: sum.splits)
  have sub: "set us \<subseteq> set xs" "set vs \<subseteq> set xs" using xs by auto
  have "P t" using t P by (rule for_each_invariant) (use keep sub in blast)
  then have "P u \<and> Q u" using u est keep [OF x] by blast
  with r have "P s' \<and> Q s'" by (rule for_each_invariant) (use keep keepQ sub in blast)
  then show ?thesis ..
qed

section \<open>Strings\<close>

definition quoted :: "string \<Rightarrow> string" where
  "quoted s = CHR 0x27 # s @ [CHR 0x27]"

text \<open>\<open>s.split(c)\<close> for a one-character separator, and \<open>ws.join(sep)\<close>.\<close>

fun split_on :: "char \<Rightarrow> string \<Rightarrow> string list" where
  "split_on c [] = [[]]"
| "split_on c (x # xs) =
     (if x = c then [] # split_on c xs
      else (case split_on c xs of [] \<Rightarrow> [[x]] | w # ws \<Rightarrow> (x # w) # ws))"

fun join_with :: "string \<Rightarrow> string list \<Rightarrow> string" where
  "join_with sep [] = []"
| "join_with sep [w] = w"
| "join_with sep (w # v # ws) = w @ sep @ join_with sep (v # ws)"

definition starts_with :: "string \<Rightarrow> string \<Rightarrow> bool" where
  "starts_with s p \<longleftrightarrow> take (length p) s = p"

definition ends_with :: "string \<Rightarrow> string \<Rightarrow> bool" where
  "ends_with s p \<longleftrightarrow> length p \<le> length s \<and> drop (length s - length p) s = p"

text \<open>A natural number in decimal, as a template literal or an array index prints it.\<close>

fun show_nat :: "nat \<Rightarrow> string" where
  "show_nat n = (if n < 10 then [char_of (48 + n)] else show_nat (n div 10) @ [char_of (48 + n mod 10)])"

declare show_nat.simps [simp del]

lemma split_on_neq_Nil [simp]: "split_on c s \<noteq> []"
  by (induction s) (auto split: list.splits)

lemma split_on_no_sep: "c \<notin> set s \<Longrightarrow> split_on c s = [s]"
  by (induction s) auto

lemma split_on_append:
  "c \<notin> set w \<Longrightarrow> split_on c (w @ c # s) = w # split_on c s"
  by (induction w) auto

lemma split_on_join:
  "ws \<noteq> [] \<Longrightarrow> \<forall>w \<in> set ws. c \<notin> set w \<Longrightarrow> split_on c (join_with [c] ws) = ws"
  by (induction "[c]" ws rule: join_with.induct) (auto simp: split_on_no_sep split_on_append)

lemma split_on_pieces: "w \<in> set (split_on c s) \<Longrightarrow> c \<notin> set w"
  by (induction s arbitrary: w) (auto split: if_splits list.splits)

lemma ends_with_iff: "ends_with s p \<longleftrightarrow> (\<exists>q. s = q @ p)"
proof
  assume "ends_with s p"
  then have "s = take (length s - length p) s @ p"
    by (metis append_take_drop_id ends_with_def)
  then show "\<exists>q. s = q @ p" ..
qed (auto simp: ends_with_def)

lemma char_of_digit_inject:
  assumes "a < 10" and "b < 10" and "(char_of (48 + a) :: char) = char_of (48 + b)"
  shows "a = (b :: nat)"
proof -
  have "of_char (char_of (48 + a) :: char) = (of_char (char_of (48 + b) :: char) :: nat)"
    using assms(3) by simp
  then have "(48 + a) mod 256 = (48 + b) mod 256" by (simp only: of_char_of)
  with assms(1,2) show ?thesis by simp
qed

lemma show_nat_neq_Nil [simp]: "show_nat n \<noteq> []" "[] \<noteq> show_nat n"
  by (simp_all add: show_nat.simps [of n])

lemma show_nat_inject: "show_nat m = show_nat n \<Longrightarrow> m = n"
proof (induction m arbitrary: n rule: show_nat.induct)
  case (1 m)
  show ?case
  proof (cases "m < 10")
    case True
    with 1(2) show ?thesis
      by (auto simp: show_nat.simps [of m] show_nat.simps [of n]
          dest: char_of_digit_inject split: if_splits)
  next
    case False
    with 1(2) have n: "\<not> n < 10" by (auto simp: show_nat.simps [of m] show_nat.simps [of n])
    with False 1(2) have eq: "show_nat (m div 10) = show_nat (n div 10)"
      and d: "(char_of (48 + m mod 10) :: char) = char_of (48 + n mod 10)"
      by (simp_all add: show_nat.simps [of m] show_nat.simps [of n])
    have "m div 10 = n div 10" using 1(1) [OF False eq] .
    moreover have "m mod 10 = n mod 10" using d by (rule char_of_digit_inject [rotated 2]) simp_all
    ultimately show ?thesis by (metis div_mult_mod_eq)
  qed
qed

lemma show_nat_eq_iff [simp]: "show_nat m = show_nat n \<longleftrightarrow> m = n"
  by (auto dest: show_nat_inject)

lemma inj_show_nat: "inj show_nat"
  by (rule injI) (rule show_nat_inject)

section \<open>Association lists as JavaScript maps\<close>

lemma map_of_AList_update [simp]:
  "map_of (AList.update k v m) = (map_of m)(k \<mapsto> v)"
  by (rule update_conv')

lemma map_of_AList_delete [simp]:
  "map_of (AList.delete k m) = (map_of m)(k := None)"
  by (rule delete_conv')

lemma distinct_fst_update [simp, intro]:
  "distinct (map fst m) \<Longrightarrow> distinct (map fst (AList.update k v m))"
  by (rule distinct_update)

lemma distinct_fst_delete [simp, intro]:
  "distinct (map fst m) \<Longrightarrow> distinct (map fst (AList.delete k m))"
  by (rule distinct_delete)

lemma fst_set_update [simp]:
  "fst ` set (AList.update k v m) = insert k (fst ` set m)"
  by (induction m) auto

lemma fst_set_delete [simp]: "fst ` set (AList.delete k m) = fst ` set m - {k}"
  by (auto simp: AList.delete_eq image_iff)

lemma length_update:
  "length (AList.update k v m) = (if k \<in> fst ` set m then length m else Suc (length m))"
  by (induction m) auto

lemma length_delete_le: "length (AList.delete k m) \<le> length m"
  by (simp add: AList.delete_eq)

lemma update_absent: "k \<notin> fst ` set m \<Longrightarrow> AList.update k v m = m @ [(k, v)]"
  by (induction m) auto

lemma delete_absent: "k \<notin> fst ` set m \<Longrightarrow> AList.delete k m = m"
  by (induction m) (auto simp: AList.delete_eq)

lemma length_delete:
  "distinct (map fst m) \<Longrightarrow> k \<in> fst ` set m \<Longrightarrow> Suc (length (AList.delete k m)) = length m"
  by (induction m) (auto simp: delete_absent)

lemma distinct_fst_filter: "distinct (map fst m) \<Longrightarrow> distinct (map fst (filter P m))"
  by (induction m) auto

lemma map_of_filter_key:
  "distinct (map fst m) \<Longrightarrow>
   map_of (filter P m) k = (case map_of m k of Some v \<Rightarrow> if P (k, v) then Some v else None | None \<Rightarrow> None)"
  by (induction m) (auto simp: map_of_eq_None_iff image_iff split: option.splits)

lemma pget_update [simp]: "pget (AList.update k v m) j = (if j = k then v else pget m j)"
  by (simp add: pget_def)

lemma pget_delete [simp]: "pget (AList.delete k m) j = (if j = k then JUndef else pget m j)"
  by (simp add: pget_def)

lemma pget_in:
  "distinct (map fst kvs) \<Longrightarrow> (k, v) \<in> set kvs \<Longrightarrow> pget kvs k = v"
  by (simp add: pget_def)

lemma pget_not_undef: "pget kvs k \<noteq> JUndef \<Longrightarrow> (k, pget kvs k) \<in> set kvs"
  by (auto simp: pget_def dest: map_of_SomeD split: option.splits)

lemma plain_obj_pget:
  "plain (JObj kvs) \<Longrightarrow> pget kvs k = JUndef \<longleftrightarrow> k \<notin> fst ` set kvs"
  by (force simp: pget_def list_all_iff map_of_eq_None_iff dest: map_of_SomeD split: option.splits)

end
