(* ===== verification/Fetch_Addresses.thy ===== *)
theory Fetch_Addresses
  imports Prelude "HOL-Library.Word"
begin

text \<open>
  The address part of packages/core/src/trust-chain/fetch.ts: the check that keeps a federation fetch away from
  special-use addresses. IPv4 addresses are 32-bit words and the table of the source is matched with the bitwise
  operations it uses; IPv6 addresses are handled as the source does, as text expanded to 32 hexadecimal digits.
  The reference definitions are the address blocks as base and prefix length, over the value of an address.
\<close>

unbundle bit_operations_syntax

section \<open>Text operations of the language\<close>

definition code_unit :: "char \<Rightarrow> nat" where
  "code_unit c = of_char c"

text \<open>\<open>toLowerCase\<close> on characters of one byte: the ASCII capitals and the Latin-1 ones.\<close>

definition lower_char :: "char \<Rightarrow> char" where
  "lower_char c =
     (let n = code_unit c in
      if 65 \<le> n \<and> n \<le> 90 \<or> 192 \<le> n \<and> n \<le> 222 \<and> n \<noteq> 215 then char_of (n + 32) else c)"

definition toLowerCase :: "string \<Rightarrow> string" where
  "toLowerCase s = map lower_char s"

definition padStart4 :: "string \<Rightarrow> string" where
  "padStart4 s = replicate (4 - length s) (CHR ''0'') @ s"

text \<open>White space as \<open>trim\<close>, \<open>Number\<close> and \<open>parseInt\<close> skip it.\<close>

definition js_space :: "char \<Rightarrow> bool" where
  "js_space c \<longleftrightarrow> code_unit c \<in> {9, 10, 11, 12, 13, 32, 160}"

definition trim :: "string \<Rightarrow> string" where
  "trim s = rev (dropWhile js_space (rev (dropWhile js_space s)))"

text \<open>The value of a digit in bases up to 36; other characters are worth more than any base.\<close>

definition digit_value :: "char \<Rightarrow> nat" where
  "digit_value c =
     (let n = code_unit c in
      if 48 \<le> n \<and> n \<le> 57 then n - 48 else if 97 \<le> n \<and> n \<le> 122 then n - 87
      else if 65 \<le> n \<and> n \<le> 90 then n - 55 else 99)"

definition numeral_value :: "nat \<Rightarrow> string \<Rightarrow> nat" where
  "numeral_value radix ds = foldl (\<lambda>v c. v * radix + digit_value c) 0 ds"

text \<open>\<open>Number.parseInt(s, radix)\<close>, \<open>None\<close> for \<open>NaN\<close>.\<close>

definition parseInt :: "nat \<Rightarrow> string \<Rightarrow> int option" where
  "parseInt radix s =
     (let s1 = dropWhile js_space s;
          neg = (s1 \<noteq> [] \<and> hd s1 = CHR ''-'');
          s2 = (if s1 \<noteq> [] \<and> (hd s1 = CHR ''-'' \<or> hd s1 = CHR ''+'') then tl s1 else s1);
          s3 = (if radix = 16 \<and> (starts_with s2 ''0x'' \<or> starts_with s2 ''0X'') then drop 2 s2 else s2);
          ds = takeWhile (\<lambda>c. digit_value c < radix) s3
      in if ds = [] then None
         else Some (if neg then - int (numeral_value radix ds) else int (numeral_value radix ds)))"

text \<open>\<open>n.toString(16)\<close> of a natural number.\<close>

definition hex_digit_char :: "nat \<Rightarrow> char" where
  "hex_digit_char n = (if n < 10 then char_of (48 + n) else char_of (87 + n))"

fun show_hex :: "nat \<Rightarrow> string" where
  "show_hex n = (if n < 16 then [hex_digit_char n] else show_hex (n div 16) @ [hex_digit_char (n mod 16)])"

declare show_hex.simps [simp del]

text \<open>\<open>s.split("::")\<close>: separators are found from the left and do not overlap.\<close>

fun split_double_colon :: "string \<Rightarrow> string list" where
  "split_double_colon [] = [[]]"
| "split_double_colon [a] = [[a]]"
| "split_double_colon (a # b # r) =
     (if a = CHR '':'' \<and> b = CHR '':'' then [] # split_double_colon r
      else (case split_double_colon (b # r) of [] \<Rightarrow> [[a]] | w # ws \<Rightarrow> (a # w) # ws))"

section \<open>IPv4\<close>

text \<open>Prefix and mask of each special-use block.\<close>

definition SPECIAL_USE_IPV4_TABLE :: "(32 word \<times> 32 word) list" where
  "SPECIAL_USE_IPV4_TABLE =
    [(0x00000000, 0xff000000), (0x0a000000, 0xff000000), (0x64400000, 0xffc00000), (0x7f000000, 0xff000000),
     (0xa9fe0000, 0xffff0000), (0xac100000, 0xfff00000), (0xc0000000, 0xffffff00), (0xc0000200, 0xffffff00),
     (0xc0586300, 0xffffff00), (0xc0a80000, 0xffff0000), (0xc6120000, 0xfffe0000), (0xc6336400, 0xffffff00),
     (0xcb007100, 0xffffff00), (0xe0000000, 0xf0000000), (0xf0000000, 0xf0000000), (0xffffffff, 0xffffffff)]"

text \<open>The walk over the characters: the end of the text ends an octet as a dot does. \<open>None\<close> is \<open>-1\<close>.\<close>

fun ipv4_walk :: "string \<Rightarrow> 32 word \<Rightarrow> nat \<Rightarrow> nat \<Rightarrow> 32 word option" where
  "ipv4_walk [] result octet dots =
     (if 3 < dots \<or> 255 < octet then None
      else if Suc dots \<noteq> 4 then None else Some (result * 256 + of_nat octet))"
| "ipv4_walk (c # cs) result octet dots =
     (if code_unit c = 46 then
        if 3 < dots \<or> 255 < octet then None else ipv4_walk cs (result * 256 + of_nat octet) 0 (Suc dots)
      else if 48 \<le> code_unit c \<and> code_unit c \<le> 57
        then ipv4_walk cs result (octet * 10 + (code_unit c - 48)) dots
      else None)"

definition ipv4ToInt :: "string \<Rightarrow> 32 word option" where
  "ipv4ToInt ip = ipv4_walk ip 0 0 0"

definition isSpecialUseIPv4 :: "string \<Rightarrow> bool" where
  "isSpecialUseIPv4 address =
     (case ipv4ToInt address of None \<Rightarrow> False
      | Some ip \<Rightarrow> list_ex (\<lambda>(prefix, mask). ip AND mask = prefix) SPECIAL_USE_IPV4_TABLE)"

section \<open>IPv6\<close>

text \<open>The match of \<open>/^(.*:)(\d{1,3}\.\d{1,3}\.\d{1,3}\.\d{1,3})$/\<close>: the second group has no colon, so
  the first one ends at the last colon of the text; a dot of the pattern matches no line terminator.\<close>

definition is_digit_char :: "char \<Rightarrow> bool" where
  "is_digit_char c \<longleftrightarrow> 48 \<le> code_unit c \<and> code_unit c \<le> 57"

definition dotted_quad :: "string \<Rightarrow> bool" where
  "dotted_quad s \<longleftrightarrow>
     (let ws = split_on (CHR ''.'') s in
      length ws = 4 \<and> list_all (\<lambda>w. 1 \<le> length w \<and> length w \<le> 3 \<and> list_all is_digit_char w) ws)"

definition dottedMatch :: "string \<Rightarrow> (string \<times> string) option" where
  "dottedMatch addr =
     (let last = rev (takeWhile (\<lambda>c. c \<noteq> CHR '':'') (rev addr));
          front = take (length addr - length last) addr
      in if front \<noteq> [] \<and> list_all (\<lambda>c. code_unit c \<notin> {10, 13}) front \<and> dotted_quad last
         then Some (front, last) else None)"

text \<open>The text after the dotted part has been replaced by two groups; \<open>None\<close> is the early return.\<close>

definition replace_dotted :: "string \<Rightarrow> string option" where
  "replace_dotted address =
     (case dottedMatch address of None \<Rightarrow> Some address
      | Some (front, quad) \<Rightarrow>
          (case ipv4ToInt quad of None \<Rightarrow> None
           | Some ipv4Int \<Rightarrow>
               Some (front @ padStart4 (show_hex (unat (drop_bit 16 ipv4Int AND 0xffff))) @ '':'' @
                     padStart4 (show_hex (unat (ipv4Int AND 0xffff))))))"

text \<open>\<open>halves[i] ? halves[i].split(":") : []\<close>.\<close>

definition half_groups :: "string \<Rightarrow> string list" where
  "half_groups h = (if h = [] then [] else split_on (CHR '':'') h)"

definition ipv6_groups :: "string \<Rightarrow> string list" where
  "ipv6_groups addr =
     (case split_double_colon addr of
        [l, r] \<Rightarrow>
          (let left = half_groups l; right = half_groups r in
           if 8 < length left + length right then []
           else left @ replicate (8 - length left - length right) ''0'' @ right)
      | [_] \<Rightarrow> split_on (CHR '':'') addr
      | _ \<Rightarrow> [])"

definition expandIPv6 :: "string \<Rightarrow> string" where
  "expandIPv6 address =
     (case replace_dotted address of None \<Rightarrow> []
      | Some addr \<Rightarrow>
          (let groups = ipv6_groups addr in
           if length groups \<noteq> 8 then [] else toLowerCase (concat (map padStart4 groups))))"

definition masked_prefix :: "nat \<Rightarrow> string \<Rightarrow> int \<Rightarrow> int" where
  "masked_prefix n hex m = (case parseInt 16 (take n hex) of None \<Rightarrow> 0 | Some v \<Rightarrow> v AND m)"

definition isSpecialUseIPv6 :: "string \<Rightarrow> bool" where
  "isSpecialUseIPv6 address =
     (let hex = expandIPv6 address in
      if hex = [] then False
      else if hex = ''00000000000000000000000000000000'' then True
      else if hex = ''00000000000000000000000000000001'' then True
      else if starts_with hex ''00000000000000000000ffff'' then True
      else if starts_with hex ''0064ff9b0000000000000000'' then True
      else if starts_with hex ''0064ff9b0001'' then True
      else if starts_with hex ''0100000000000000'' then True
      else if starts_with hex ''200100'' \<or> starts_with hex ''200101'' then True
      else if starts_with hex ''20010db8'' then True
      else if starts_with hex ''2002'' then True
      else if starts_with hex ''2620004f8000'' then True
      else if masked_prefix 2 hex 0xfe = 0xfc then True
      else if masked_prefix 4 hex 0xffc0 = 0xfe80 then True
      else if starts_with hex ''ff'' then True
      else False)"

definition isSpecialUseIP :: "string \<Rightarrow> bool" where
  "isSpecialUseIP address =
     (if starts_with address ''['' \<and> ends_with address '']'' then isSpecialUseIPv6 (butlast (tl address))
      else if CHR '':'' \<in> set address then isSpecialUseIPv6 address
      else isSpecialUseIPv4 address)"

section \<open>Blocked ranges of the caller\<close>

text \<open>\<open>Number(s)\<close> for a string that is a number: the empty string is zero, a prefix selects base 16, 8 or 2,
  otherwise a decimal literal with optional sign, fraction and exponent. \<open>None\<close> stands for \<open>NaN\<close> and the
  infinities, which the only caller treats alike; rounding to a double is not modelled.\<close>

definition all_digits :: "nat \<Rightarrow> string \<Rightarrow> bool" where
  "all_digits radix s \<longleftrightarrow> list_all (\<lambda>c. digit_value c < radix) s"

definition exponent_value :: "string \<Rightarrow> int option" where
  "exponent_value s =
     (let ds = (if s \<noteq> [] \<and> (hd s = CHR ''-'' \<or> hd s = CHR ''+'') then tl s else s) in
      if ds = [] \<or> \<not> all_digits 10 ds then None
      else Some (if hd s = CHR ''-'' then - int (numeral_value 10 ds) else int (numeral_value 10 ds)))"

definition decimal_value :: "string \<Rightarrow> number option" where
  "decimal_value s =
     (let mantissa = takeWhile (\<lambda>c. c \<noteq> CHR ''e'' \<and> c \<noteq> CHR ''E'') s;
          rest = drop (length mantissa) s;
          whole = takeWhile (\<lambda>c. c \<noteq> CHR ''.'') mantissa;
          fraction = drop (Suc (length whole)) mantissa
      in if whole @ fraction = [] \<or> \<not> all_digits 10 (whole @ fraction) then None
         else (case (if rest = [] then Some 0 else exponent_value (tl rest)) of
                 None \<Rightarrow> None
               | Some e \<Rightarrow> Some (of_nat (numeral_value 10 (whole @ fraction)) * 10 powi (e - int (length fraction)))))"

definition Number :: "string \<Rightarrow> number option" where
  "Number str =
     (let s = trim str; p = take 2 s; radix = (if p = ''0x'' \<or> p = ''0X'' then 16
            else if p = ''0o'' \<or> p = ''0O'' then 8 else if p = ''0b'' \<or> p = ''0B'' then 2 else (0::nat))
      in if s = [] then Some 0
         else if radix \<noteq> 0 then
           (if drop 2 s = [] \<or> \<not> all_digits radix (drop 2 s) then None
            else Some (of_nat (numeral_value radix (drop 2 s))))
         else if hd s = CHR ''-'' then map_option uminus (decimal_value (tl s))
         else if hd s = CHR ''+'' then decimal_value (tl s)
         else decimal_value s)"

text \<open>\<open>const [ip, prefix] = cidr.split("/")\<close>; a shift takes its count modulo 32, after truncation.\<close>

record cidr_range =
  network :: "32 word"
  cidr_mask :: "32 word"

definition bits_mask :: "number \<Rightarrow> 32 word" where
  "bits_mask bits = (if bits = 0 then 0 else push_bit (nat \<lfloor>32 - bits\<rfloor> mod 32) (- 1))"

definition parseCIDR :: "string \<Rightarrow> cidr_range option" where
  "parseCIDR cidr =
     (case split_on (CHR ''/'') cidr of
        ip # prefix # _ \<Rightarrow>
          if ip = [] then None
          else (case ipv4ToInt ip of None \<Rightarrow> None
                | Some net \<Rightarrow>
                    (case Number prefix of None \<Rightarrow> None
                     | Some bits \<Rightarrow>
                         if bits < 0 \<or> 32 < bits then None
                         else Some \<lparr>network = net AND bits_mask bits, cidr_mask = bits_mask bits\<rparr>))
      | _ \<Rightarrow> None)"

definition isBlockedCIDR :: "string \<Rightarrow> string list \<Rightarrow> bool" where
  "isBlockedCIDR hostname cidrs =
     (case ipv4ToInt hostname of None \<Rightarrow> False
      | Some ip \<Rightarrow>
          list_ex (\<lambda>cidr. case parseCIDR cidr of None \<Rightarrow> False
                          | Some parsed \<Rightarrow> ip AND cidr_mask parsed = network parsed) cidrs)"

section \<open>Reference definitions\<close>

text \<open>The value of a sequence of digits in a base, most significant first.\<close>

definition base_value :: "nat \<Rightarrow> nat list \<Rightarrow> nat" where
  "base_value b vs = foldl (\<lambda>r v. r * b + v) 0 vs"

text \<open>A dotted text denotes an address when it has four decimal octets.\<close>

definition denotes_ipv4 :: "string \<Rightarrow> nat \<Rightarrow> bool" where
  "denotes_ipv4 s a \<longleftrightarrow>
     (let ws = split_on (CHR ''.'') s in
      length ws = 4 \<and> list_all (list_all is_digit_char) ws \<and> list_all (\<lambda>w. numeral_value 10 w \<le> 255) ws \<and>
      a = base_value 256 (map (numeral_value 10) ws))"

text \<open>An address is in a block when it agrees with the base of the block on the leading bits.\<close>

definition in_block :: "nat \<Rightarrow> nat \<Rightarrow> nat \<times> nat \<Rightarrow> bool" where
  "in_block width a block = (case block of (base, len) \<Rightarrow> a div 2 ^ (width - len) = base div 2 ^ (width - len))"

definition iana_ipv4_blocks :: "(nat \<times> nat) list" where
  "iana_ipv4_blocks =
     map (\<lambda>(octets, len). (base_value 256 octets, len))
       [([0, 0, 0, 0], 8), ([10, 0, 0, 0], 8), ([100, 64, 0, 0], 10), ([127, 0, 0, 0], 8), ([169, 254, 0, 0], 16),
        ([172, 16, 0, 0], 12), ([192, 0, 0, 0], 24), ([192, 0, 2, 0], 24), ([192, 88, 99, 0], 24),
        ([192, 168, 0, 0], 16), ([198, 18, 0, 0], 15), ([198, 51, 100, 0], 24), ([203, 0, 113, 0], 24),
        ([224, 0, 0, 0], 4), ([240, 0, 0, 0], 4), ([255, 255, 255, 255], 32)]"

section \<open>IPv4 lemmas\<close>

lemma digit_value_decimal: "is_digit_char c \<Longrightarrow> digit_value c = code_unit c - 48"
  by (simp add: is_digit_char_def digit_value_def)

lemma is_digit_char_iff: "is_digit_char c \<longleftrightarrow> digit_value c < 10"
  by (auto simp: is_digit_char_def digit_value_def Let_def split: if_splits)

lemma code_unit_dot: "code_unit c = 46 \<longleftrightarrow> c = CHR ''.''"
proof -
  have "(of_char (CHR ''.'') :: nat) = 46" by simp
  then show ?thesis unfolding code_unit_def by (metis of_char_eq_iff)
qed

lemma ipv4_walk_iff:
  "ipv4_walk s r oct d = Some n \<longleftrightarrow>
     (case split_on (CHR ''.'') s of [] \<Rightarrow> False | w # ws \<Rightarrow>
        (let vs = foldl (\<lambda>v c. v * 10 + digit_value c) oct w # map (numeral_value 10) ws in
         list_all (list_all is_digit_char) (w # ws) \<and> d + length (w # ws) = 4 \<and> list_all (\<lambda>v. v \<le> 255) vs \<and>
         n = foldl (\<lambda>r v. r * 256 + of_nat v) r vs))"
proof (induction s arbitrary: r oct d)
  case Nil
  show ?case by auto
next
  case (Cons c s)
  obtain w ws where sp: "split_on (CHR ''.'') s = w # ws"
    using split_on_neq_Nil by (meson neq_Nil_conv)
  show ?case
  proof (cases "c = CHR ''.''")
    case True
    then have "code_unit c = 46" by (simp add: code_unit_def)
    then show ?thesis using True sp Cons.IH [of "r * 256 + of_nat oct" 0 "Suc d"]
      by (auto simp: Let_def numeral_value_def)
  next
    case False
    then have nd: "code_unit c \<noteq> 46" by (simp add: code_unit_dot)
    show ?thesis
    proof (cases "is_digit_char c")
      case True
      then have "digit_value c = code_unit c - 48" by (rule digit_value_decimal)
      with True nd False sp Cons.IH [of r "oct * 10 + digit_value c" d] show ?thesis
        by (simp add: Let_def is_digit_char_def)
    next
      case nodigit: False
      then have "ipv4_walk (c # s) r oct d = None" using nd by (auto simp: is_digit_char_def)
      with nodigit False sp show ?thesis by (simp add: Let_def)
    qed
  qed
qed

lemma length_4_cases: "length ws = 4 \<longleftrightarrow> (\<exists>a b c d. ws = [a, b, c, d])"
  by (auto simp: numeral_eq_Suc length_Suc_conv)

lemma unat_quad:
  assumes "length vs = 4" and "list_all (\<lambda>v. v \<le> 255) vs"
  shows "unat (foldl (\<lambda>r v. r * 256 + of_nat v) (0 :: 32 word) vs) = base_value 256 vs"
proof -
  obtain a b c d where vs: "vs = [a, b, c, d]" using assms(1) by (auto simp: length_4_cases)
  have "foldl (\<lambda>r v. r * 256 + of_nat v) (0 :: 32 word) vs = of_nat (((a * 256 + b) * 256 + c) * 256 + d)"
    by (simp add: vs)
  moreover have "((a * 256 + b) * 256 + c) * 256 + d < 2 ^ 32" using assms(2) by (simp add: vs)
  ultimately have "unat (foldl (\<lambda>r v. r * 256 + of_nat v) (0 :: 32 word) vs) = ((a * 256 + b) * 256 + c) * 256 + d"
    by (simp only: unat_of_nat) (simp add: take_bit_nat_eq_self)
  then show ?thesis by (simp add: vs base_value_def)
qed

lemma ipv4ToInt_iff: "ipv4ToInt s = Some n \<longleftrightarrow> denotes_ipv4 s (unat n)"
proof -
  obtain w ws where sp: "split_on (CHR ''.'') s = w # ws" using split_on_neq_Nil by (meson neq_Nil_conv)
  let ?vs = "map (numeral_value 10) (w # ws)"
  have "ipv4ToInt s = Some n \<longleftrightarrow>
      list_all (list_all is_digit_char) (w # ws) \<and> length (w # ws) = 4 \<and> list_all (\<lambda>v. v \<le> 255) ?vs \<and>
      n = foldl (\<lambda>r v. r * 256 + of_nat v) 0 ?vs"
    unfolding ipv4ToInt_def ipv4_walk_iff sp list.case Let_def
    by (simp only: numeral_value_def [symmetric] list.map add_0)
  also have "\<dots> \<longleftrightarrow> list_all (list_all is_digit_char) (w # ws) \<and> length (w # ws) = 4 \<and>
      list_all (\<lambda>v. v \<le> 255) ?vs \<and> unat n = base_value 256 ?vs"
    using unat_quad [of ?vs] by (metis length_map word_unat_eq_iff)
  also have "\<dots> \<longleftrightarrow> denotes_ipv4 s (unat n)"
    unfolding denotes_ipv4_def sp Let_def list_all_length by (auto simp: nth_Cons')
  finally show ?thesis .
qed

lemma denotes_ipv4_unique: "denotes_ipv4 s a \<Longrightarrow> denotes_ipv4 s b \<Longrightarrow> a = b"
  by (simp add: denotes_ipv4_def Let_def)

lemma denotes_ipv4_bound: "denotes_ipv4 s a \<Longrightarrow> a < 2 ^ 32"
  by (auto simp: denotes_ipv4_def Let_def length_4_cases base_value_def)

lemma ipv4ToInt_denotes: "denotes_ipv4 s a \<Longrightarrow> ipv4ToInt s = Some (of_nat a)"
  using denotes_ipv4_bound [of s a] by (simp add: ipv4ToInt_iff unat_of_nat take_bit_nat_eq_self)

lemma ipv4ToInt_None_iff: "ipv4ToInt s = None \<longleftrightarrow> \<not> (\<exists>a. denotes_ipv4 s a)"
  using ipv4ToInt_iff ipv4ToInt_denotes by (metis not_None_eq)

text \<open>Masking with leading ones keeps the address up to its block.\<close>

lemma and_leading_ones: "w AND NOT (mask k) = push_bit k (drop_bit k (w :: 'a::len word))"
  by (rule bit_word_eqI) (auto simp: bit_simps)

lemma masked_eq_iff:
  "(w :: 'a::len word) AND NOT (mask k) = p \<longleftrightarrow> unat w div 2 ^ k = unat p div 2 ^ k \<and> 2 ^ k dvd unat p"
proof -
  have u: "unat (push_bit k (drop_bit k w)) = unat w div 2 ^ k * 2 ^ k"
  proof -
    have "unat w div 2 ^ k * 2 ^ k \<le> unat w" by (rule div_times_less_eq_dividend)
    then have "unat w div 2 ^ k * 2 ^ k < 2 ^ LENGTH('a)" using unsigned_less [of w] by (rule le_less_trans)
    then show ?thesis
      by (simp only: unsigned_push_bit_eq unsigned_drop_bit_eq)
        (simp add: push_bit_eq_mult drop_bit_eq_div take_bit_nat_eq_self)
  qed
  have "(w AND NOT (mask k) = p) \<longleftrightarrow> unat w div 2 ^ k * 2 ^ k = unat p"
    unfolding and_leading_ones by (metis u word_unat_eq_iff)
  also have "\<dots> \<longleftrightarrow> unat w div 2 ^ k = unat p div 2 ^ k \<and> 2 ^ k dvd unat p"
    by (metis dvd_div_mult_self dvd_triv_right nonzero_mult_div_cancel_right power_not_zero zero_neq_numeral)
  finally show ?thesis .
qed

lemma table_is_iana:
  "list_ex (\<lambda>(prefix, mask). n AND mask = prefix) SPECIAL_USE_IPV4_TABLE =
     list_ex (in_block 32 (unat n)) iana_ipv4_blocks"
proof -
  have conv: "list_ex (\<lambda>(prefix, mask). n AND mask = prefix) ps = list_ex (in_block 32 (unat n)) bs"
    if "list_all2 (\<lambda>(prefix, mask) (base, len). len \<le> 32 \<and> 0 < len \<and> mask = push_bit (32 - len) (- 1 :: 32 word) \<and>
          unat prefix = base \<and> 2 ^ (32 - len) dvd base) ps bs" for ps bs
    using that
    by (induction ps bs rule: list_all2_induct)
      (auto simp: masked_eq_iff in_block_def masked_eq_iff [THEN iffD1, OF refl, THEN conjunct1, symmetric])
  show ?thesis
    by (rule conv) (simp add: SPECIAL_USE_IPV4_TABLE_def iana_ipv4_blocks_def base_value_def mask_eq_exp_minus_1)
qed

text \<open>A text is refused exactly when it is a dotted text of an address of one of the blocks.\<close>

lemma isSpecialUseIPv4_iff:
  "isSpecialUseIPv4 address \<longleftrightarrow> (\<exists>a. denotes_ipv4 address a \<and> list_ex (in_block 32 a) iana_ipv4_blocks)"
proof (cases "ipv4ToInt address")
  case None
  then show ?thesis using ipv4ToInt_denotes by (fastforce simp: isSpecialUseIPv4_def)
next
  case (Some n)
  then have "denotes_ipv4 address (unat n)" by (simp add: ipv4ToInt_iff)
  then show ?thesis
    using Some denotes_ipv4_unique [of address] by (auto simp: isSpecialUseIPv4_def table_is_iana)
qed

section \<open>Decimal addresses and blocked ranges\<close>

definition show_ipv4 :: "nat \<Rightarrow> string" where
  "show_ipv4 a = join_with ''.'' (map show_nat [a div 2 ^ 24, a div 2 ^ 16 mod 256, a div 2 ^ 8 mod 256, a mod 256])"

lemma numeral_value_append: "numeral_value b (xs @ [c]) = numeral_value b xs * b + digit_value c"
  by (simp add: numeral_value_def)

lemma digit_value_char_of: "n < 10 \<Longrightarrow> digit_value (char_of (48 + n)) = n"
  by (simp add: digit_value_def code_unit_def)

lemma numeral_value_show_nat: "numeral_value 10 (show_nat n) = n"
proof (induction n rule: show_nat.induct)
  case (1 n)
  then show ?case
    by (cases "n < 10") (simp_all add: show_nat.simps [of n] numeral_value_append digit_value_char_of
        numeral_value_def [of _ "[_]"] div_mult_mod_eq)
qed

lemma show_nat_digits: "list_all is_digit_char (show_nat n)"
proof (induction n rule: show_nat.induct)
  case (1 n)
  then show ?case
    by (cases "n < 10") (simp_all add: show_nat.simps [of n] is_digit_char_iff digit_value_char_of)
qed

lemma digits_exclude: "list_all is_digit_char s \<Longrightarrow> \<not> is_digit_char c \<Longrightarrow> c \<notin> set s"
  by (auto simp: list_all_iff)

lemma not_digit_sep: "\<not> is_digit_char (CHR ''.'')" "\<not> is_digit_char (CHR ''/'')" "\<not> is_digit_char (CHR '':'')"
  by (simp_all add: is_digit_char_def code_unit_def)

lemma split_show_ipv4:
  "split_on (CHR ''.'') (show_ipv4 a) = map show_nat [a div 2 ^ 24, a div 2 ^ 16 mod 256, a div 2 ^ 8 mod 256, a mod 256]"
  unfolding show_ipv4_def
  by (rule split_on_join) (auto dest: digits_exclude [OF show_nat_digits not_digit_sep(1), THEN notE])

lemma denotes_show_ipv4:
  assumes "a < 2 ^ 32"
  shows "denotes_ipv4 (show_ipv4 a) a"
proof -
  have "a div 2 ^ 24 \<le> 255" using assms by simp
  moreover have "a = ((a div 2 ^ 24 * 256 + a div 2 ^ 16 mod 256) * 256 + a div 2 ^ 8 mod 256) * 256 + a mod 256"
  proof -
    have "a div 2 ^ 16 = a div 2 ^ 8 div 256" "a div 2 ^ 24 = a div 2 ^ 16 div 256"
      by (simp_all add: div_mult2_eq [symmetric])
    then have "a div 2 ^ 24 * 256 + a div 2 ^ 16 mod 256 = a div 2 ^ 16"
      "a div 2 ^ 16 * 256 + a div 2 ^ 8 mod 256 = a div 2 ^ 8" by (metis div_mult_mod_eq)+
    moreover have "a div 2 ^ 8 * 256 + a mod 256 = a" by (simp add: div_mult_mod_eq)
    ultimately show ?thesis by (simp only:)
  qed
  moreover have "x mod 256 \<le> 255" for x :: nat
    using mod_less_divisor [of 256 x] by (simp only: less_Suc_eq_le [symmetric])
  ultimately show ?thesis
    by (simp only: denotes_ipv4_def split_show_ipv4 Let_def)
      (simp add: numeral_value_show_nat show_nat_digits base_value_def)
qed

lemma ipv4ToInt_show_ipv4: "ipv4ToInt (show_ipv4 (unat n)) = Some n"
  using denotes_show_ipv4 [of "unat n"] unsigned_less [of n] by (simp add: ipv4ToInt_iff)

lemma dropWhile_none: "(\<And>x. x \<in> set xs \<Longrightarrow> \<not> P x) \<Longrightarrow> dropWhile P xs = xs"
  by (cases xs) auto

lemma sign_codes: "code_unit (CHR ''-'') < 48" "code_unit (CHR ''+'') < 48"
  by (simp_all add: code_unit_def)

lemma Number_show_nat: "Number (show_nat n) = Some (of_nat n)"
proof -
  have digits: "c \<in> set (show_nat n) \<Longrightarrow> 48 \<le> code_unit c \<and> code_unit c \<le> 57" for c
    using show_nat_digits [of n] by (auto simp: list_all_iff is_digit_char_def)
  have no: "c \<notin> set (show_nat n)" if "code_unit c < 48 \<or> 57 < code_unit c" for c
    using that digits by force
  have sp: "\<not> js_space c" if "c \<in> set (show_nat n)" for c
    using digits [OF that] by (auto simp: js_space_def)
  have trim: "trim (show_nat n) = show_nat n"
    unfolding trim_def using dropWhile_none [of "show_nat n" js_space] dropWhile_none [of "rev (show_nat n)" js_space]
    by (simp add: sp)
  have whole: "takeWhile P (show_nat n) = show_nat n" if "\<And>c. c \<in> set (show_nat n) \<Longrightarrow> P c" for P
    using that by (simp add: takeWhile_eq_all_conv)
  have tw: "takeWhile (\<lambda>c. c \<noteq> CHR ''e'' \<and> c \<noteq> CHR ''E'') (show_nat n) = show_nat n"
    "takeWhile (\<lambda>c. c \<noteq> CHR ''.'') (show_nat n) = show_nat n"
    by (rule whole, use no in \<open>force simp: code_unit_def\<close>)+
  have dec: "decimal_value (show_nat n) = Some (of_nat n)"
    using show_nat_digits [of n]
    by (simp add: decimal_value_def Let_def tw all_digits_def is_digit_char_iff list_all_iff numeral_value_show_nat)
  have "take 2 (show_nat n) \<noteq> [CHR ''0'', c]" if "57 < code_unit c" for c
  proof
    assume "take 2 (show_nat n) = [CHR ''0'', c]"
    then have "c \<in> set (show_nat n)" by (metis in_set_takeD list.set_intros(1,2))
    with that no show False by blast
  qed
  moreover have "hd (show_nat n) \<noteq> CHR ''-''" "hd (show_nat n) \<noteq> CHR ''+''"
    using hd_in_set [OF show_nat_neq_Nil(1), of n] no [of "CHR ''-''"] no [of "CHR ''+''"]
    by (metis sign_codes)+
  ultimately show ?thesis
    by (simp add: Number_def Let_def trim dec code_unit_def)
qed

lemma bits_mask_of_nat: "n \<le> 32 \<Longrightarrow> bits_mask (of_nat n) = NOT (mask (32 - n))"
proof -
  assume n: "n \<le> 32"
  have "\<lfloor>32 - (of_nat n :: rat)\<rfloor> = 32 - int n" by (metis floor_diff_of_int floor_numeral of_int_of_nat_eq)
  then have "nat \<lfloor>32 - (of_nat n :: rat)\<rfloor> = 32 - n" using n by simp
  then show ?thesis using n
    by (cases "n = 0") (auto simp: bits_mask_def mask_eq_exp_minus_1)
qed

definition show_cidr :: "nat \<times> nat \<Rightarrow> string" where
  "show_cidr block = (case block of (base, len) \<Rightarrow> show_ipv4 base @ ''/'' @ show_nat len)"

lemma show_ipv4_no_slash: "CHR ''/'' \<notin> set (show_ipv4 a)"
  using digits_exclude [OF show_nat_digits not_digit_sep(2)] by (simp add: show_ipv4_def)

lemma parseCIDR_show:
  assumes "base < 2 ^ 32" and "len \<le> 32"
  shows "parseCIDR (show_cidr (base, len)) =
    Some \<lparr>network = of_nat base AND NOT (mask (32 - len)), cidr_mask = NOT (mask (32 - len))\<rparr>"
proof -
  have "split_on (CHR ''/'') (show_cidr (base, len)) = [show_ipv4 base, show_nat len]"
    using split_on_append [OF show_ipv4_no_slash, of base "show_nat len"]
      split_on_no_sep [OF digits_exclude [OF show_nat_digits not_digit_sep(2)], of len]
    by (simp add: show_cidr_def)
  moreover have "show_ipv4 base \<noteq> []" by (simp add: show_ipv4_def)
  ultimately show ?thesis
    using assms by (simp add: parseCIDR_def ipv4ToInt_denotes [OF denotes_show_ipv4] Number_show_nat bits_mask_of_nat)
qed

lemma and_not_mask_eq_iff:
  "(v :: 'a::len word) AND NOT (mask k) = w AND NOT (mask k) \<longleftrightarrow> unat v div 2 ^ k = unat w div 2 ^ k"
  by (metis masked_eq_iff)

lemma blocked_by_show:
  assumes "base < 2 ^ 32" and "len \<le> 32"
  shows "(case parseCIDR (show_cidr (base, len)) of None \<Rightarrow> False
          | Some parsed \<Rightarrow> ip AND cidr_mask parsed = network parsed) \<longleftrightarrow> in_block 32 (unat ip) (base, len)"
  using assms by (simp add: parseCIDR_show and_not_mask_eq_iff in_block_def unat_of_nat take_bit_nat_eq_self)

text \<open>The ranges a caller blocks, written \<open>a.b.c.d/n\<close> with \<open>n\<close> from 0 to 32, are enforced exactly. The mask comes from a
  32-bit shift whose count is taken modulo 32, so 0 and 32 are the cases at risk; both are included.\<close>

lemma isBlockedCIDR_iff:
  assumes "list_all (\<lambda>(base, len). base < 2 ^ 32 \<and> len \<le> 32) blocks"
  shows "isBlockedCIDR hostname (map show_cidr blocks) \<longleftrightarrow>
    (\<exists>a. denotes_ipv4 hostname a \<and> list_ex (in_block 32 a) blocks)"
proof (cases "ipv4ToInt hostname")
  case None
  then show ?thesis using ipv4ToInt_denotes by (fastforce simp: isBlockedCIDR_def)
next
  case (Some n)
  then have d: "denotes_ipv4 hostname (unat n)" by (simp add: ipv4ToInt_iff)
  have "isBlockedCIDR hostname (map show_cidr blocks) \<longleftrightarrow> list_ex (in_block 32 (unat n)) blocks"
    using assms Some unfolding isBlockedCIDR_def option.case
    by (induction blocks) (auto simp: blocked_by_show)
  with d denotes_ipv4_unique [of hostname] show ?thesis by blast
qed

text \<open>Each well-formed entry blocks its range, whatever the other entries are.\<close>

lemma isBlockedCIDR_entry:
  assumes "show_cidr (base, len) \<in> set cidrs" and "base < 2 ^ 32" and "len \<le> 32"
    and "denotes_ipv4 hostname a" and "in_block 32 a (base, len)"
  shows "isBlockedCIDR hostname cidrs"
proof -
  obtain ip where ip: "ipv4ToInt hostname = Some ip" using ipv4ToInt_denotes [OF assms(4)] by blast
  then have "denotes_ipv4 hostname (unat ip)" by (simp add: ipv4ToInt_iff)
  then have "in_block 32 (unat ip) (base, len)" using denotes_ipv4_unique assms(4,5) by metis
  then have "case parseCIDR (show_cidr (base, len)) of None \<Rightarrow> False | Some parsed \<Rightarrow> ip AND cidr_mask parsed = network parsed"
    using blocked_by_show [OF assms(2,3)] by blast
  then show ?thesis using assms(1) ip by (auto simp: isBlockedCIDR_def list_ex_iff)
qed

section \<open>IPv6 texts\<close>

text \<open>A group is one to four hexadecimal digits. A sequence of groups separated by colons may end in a dotted
  quad, which stands for two groups; one \<open>::\<close> stands for the groups that are missing.\<close>

definition hex_group :: "string \<Rightarrow> bool" where
  "hex_group w \<longleftrightarrow> 1 \<le> length w \<and> length w \<le> 4 \<and> all_digits 16 w"

inductive group_seq :: "string \<Rightarrow> nat list \<Rightarrow> bool" where
  group_one: "hex_group w \<Longrightarrow> group_seq w [numeral_value 16 w]"
| group_quad: "dotted_quad w \<Longrightarrow> denotes_ipv4 w b \<Longrightarrow> group_seq w [b div 65536, b mod 65536]"
| group_more: "hex_group w \<Longrightarrow> group_seq s vs \<Longrightarrow> group_seq (w @ '':'' @ s) (numeral_value 16 w # vs)"

definition hex_seq :: "string list \<Rightarrow> string \<Rightarrow> nat list \<Rightarrow> bool" where
  "hex_seq ws s vs \<longleftrightarrow> list_all hex_group ws \<and> s = join_with '':'' ws \<and> vs = map (numeral_value 16) ws"

inductive denotes_ipv6 :: "string \<Rightarrow> nat list \<Rightarrow> bool" where
  full: "group_seq s vs \<Longrightarrow> length vs = 8 \<Longrightarrow> denotes_ipv6 s vs"
| short: "hex_seq ls l us \<Longrightarrow> group_seq r vs \<or> r = [] \<and> vs = [] \<Longrightarrow> length us + length vs \<le> 8 \<Longrightarrow>
    denotes_ipv6 (l @ ''::'' @ r) (us @ replicate (8 - length us - length vs) 0 @ vs)"

definition iana_ipv6_blocks :: "(nat \<times> nat) list" where
  "iana_ipv6_blocks =
     map (\<lambda>(groups, len). (base_value 65536 groups, len))
       [([0, 0, 0, 0, 0, 0, 0, 0], 128), ([0, 0, 0, 0, 0, 0, 0, 1], 128), ([0, 0, 0, 0, 0, 0xffff, 0, 0], 96),
        ([0x64, 0xff9b, 0, 0, 0, 0, 0, 0], 96), ([0x64, 0xff9b, 1, 0, 0, 0, 0, 0], 48),
        ([0x100, 0, 0, 0, 0, 0, 0, 0], 64), ([0x2001, 0, 0, 0, 0, 0, 0, 0], 23),
        ([0x2001, 0xdb8, 0, 0, 0, 0, 0, 0], 32), ([0x2002, 0, 0, 0, 0, 0, 0, 0], 16),
        ([0x2620, 0x4f, 0x8000, 0, 0, 0, 0, 0], 48), ([0xfc00, 0, 0, 0, 0, 0, 0, 0], 7),
        ([0xfe80, 0, 0, 0, 0, 0, 0, 0], 10), ([0xff00, 0, 0, 0, 0, 0, 0, 0], 8)]"

subsection \<open>Hexadecimal digits\<close>

definition lower_hex :: "char \<Rightarrow> bool" where
  "lower_hex c \<longleftrightarrow> (let n = code_unit c in 48 \<le> n \<and> n \<le> 57 \<or> 97 \<le> n \<and> n \<le> 102)"

lemma hex_digit_cases:
  assumes "digit_value c < 16"
  obtains "48 \<le> code_unit c \<and> code_unit c \<le> 57" "lower_char c = c"
    | "97 \<le> code_unit c \<and> code_unit c \<le> 102" "lower_char c = c"
    | "65 \<le> code_unit c \<and> code_unit c \<le> 70" "code_unit (lower_char c) = code_unit c + 32"
proof -
  have up: "code_unit (char_of (code_unit c + 32)) = code_unit c + 32" if "code_unit c \<le> 70"
    using that by (simp add: code_unit_def)
  have "48 \<le> code_unit c \<and> code_unit c \<le> 57 \<or> 97 \<le> code_unit c \<and> code_unit c \<le> 102 \<or>
      65 \<le> code_unit c \<and> code_unit c \<le> 70"
    using assms by (simp add: digit_value_def Let_def split: if_splits)
  then consider "48 \<le> code_unit c \<and> code_unit c \<le> 57" | "97 \<le> code_unit c \<and> code_unit c \<le> 102"
    | "65 \<le> code_unit c \<and> code_unit c \<le> 70" by blast
  then show thesis
  proof cases
    case 3
    moreover from 3 have "lower_char c = char_of (code_unit c + 32)" by (simp add: lower_char_def)
    ultimately show thesis using up that(3) by simp
  qed (use that in \<open>simp_all add: lower_char_def\<close>)
qed

lemma digit_value_lower: "digit_value c < 16 \<Longrightarrow> digit_value (lower_char c) = digit_value c"
  by (erule hex_digit_cases) (simp_all add: digit_value_def)

lemma lower_hex_lower: "digit_value c < 16 \<Longrightarrow> lower_hex (lower_char c)"
  by (erule hex_digit_cases) (simp_all add: lower_hex_def)

lemma lower_hex_digit: "lower_hex c \<Longrightarrow> digit_value c < 16"
  by (auto simp: digit_value_def lower_hex_def code_unit_def Let_def split: if_splits)

lemma lower_hex_inject:
  assumes "lower_hex c" and "lower_hex d" and "digit_value c = digit_value d"
  shows "c = d"
proof -
  have "code_unit c = code_unit d"
    using assms by (auto simp: digit_value_def lower_hex_def Let_def split: if_splits)
  then show ?thesis by (simp add: code_unit_def)
qed

lemma numeral_value_concat:
  "numeral_value b (xs @ ys) = numeral_value b xs * b ^ length ys + numeral_value b ys"
proof (induction ys rule: rev_induct)
  case (snoc y ys)
  have "numeral_value b (xs @ ys @ [y]) = numeral_value b (xs @ ys) * b + digit_value y"
    using numeral_value_append [of b "xs @ ys" y] by simp
  then show ?case unfolding snoc by (simp add: numeral_value_append algebra_simps)
qed (simp add: numeral_value_def)

lemma numeral_value_bound: "all_digits b s \<Longrightarrow> numeral_value b s < b ^ length s"
proof (induction s rule: rev_induct)
  case (snoc c s)
  then have "numeral_value b s + 1 \<le> b ^ length s" "digit_value c < b" by (simp_all add: all_digits_def)
  then have "(numeral_value b s + 1) * b \<le> b ^ length s * b" by (intro mult_le_mono1)
  with \<open>digit_value c < b\<close> show ?case by (simp add: numeral_value_append algebra_simps)
qed (simp add: numeral_value_def)

lemma numeral_value_zeros: "numeral_value b (replicate k (CHR ''0'')) = 0"
  by (induction k) (simp_all add: numeral_value_def digit_value_def code_unit_def)

lemma numeral_value_padStart4: "numeral_value b (padStart4 s) = numeral_value b s"
  by (simp add: padStart4_def numeral_value_concat numeral_value_zeros)

lemma hex_group_padStart4: "hex_group w \<Longrightarrow> length (padStart4 w) = 4 \<and> all_digits 16 (padStart4 w)"
  by (auto simp: hex_group_def padStart4_def all_digits_def list_all_iff digit_value_def code_unit_def)

lemma numeral_value_take:
  assumes "all_digits b s" and "0 < b" and "m \<le> length s"
  shows "numeral_value b (take m s) = numeral_value b s div b ^ (length s - m)"
proof -
  have "numeral_value b s = numeral_value b (take m s) * b ^ (length s - m) + numeral_value b (drop m s)"
    using numeral_value_concat [of b "take m s" "drop m s"] by simp
  moreover have "numeral_value b (drop m s) < b ^ (length s - m)"
    using numeral_value_bound [of b "drop m s"] assms(1) by (auto simp: all_digits_def list_all_iff dest: in_set_dropD)
  ultimately show ?thesis using assms(2) by simp
qed

lemma numeral_value_inject:
  assumes "length s = length t" and "list_all lower_hex s" and "list_all lower_hex t"
    and "numeral_value 16 s = numeral_value 16 t"
  shows "s = t"
  using assms
proof (induction s t rule: rev_induct2)
  case (4 x xs y ys)
  then have "numeral_value 16 xs * 16 + digit_value x = numeral_value 16 ys * 16 + digit_value y"
    by (simp add: numeral_value_append)
  moreover have "digit_value x < 16" "digit_value y < 16" using 4 by (simp_all add: lower_hex_digit)
  ultimately have "numeral_value 16 xs = numeral_value 16 ys \<and> digit_value x = digit_value y" by presburger
  with 4 show ?case by (simp add: lower_hex_inject)
qed simp_all

text \<open>The expanded text of eight groups.\<close>

lemma expanded_groups:
  assumes "list_all hex_group ws"
  defines "h \<equiv> toLowerCase (concat (map padStart4 ws))"
  shows "length h = 4 * length ws" and "list_all lower_hex h"
    and "numeral_value 16 h = base_value 65536 (map (numeral_value 16) ws)"
proof -
  have low: "numeral_value 16 (toLowerCase s) = numeral_value 16 s" if "all_digits 16 s" for s
    using that by (induction s rule: rev_induct)
      (simp_all add: toLowerCase_def numeral_value_append all_digits_def digit_value_lower)
  have "length h = 4 * length ws \<and> all_digits 16 (concat (map padStart4 ws)) \<and>
      numeral_value 16 (concat (map padStart4 ws)) = base_value 65536 (map (numeral_value 16) ws)"
    using assms(1) unfolding h_def
  proof (induction ws rule: rev_induct)
    case Nil
    show ?case by (simp add: toLowerCase_def all_digits_def numeral_value_def base_value_def)
  next
    case (snoc w ws)
    then show ?case
      using hex_group_padStart4 [of w]
      by (simp add: toLowerCase_def all_digits_def numeral_value_concat numeral_value_padStart4 base_value_def)
  qed
  then show "length h = 4 * length ws" "numeral_value 16 h = base_value 65536 (map (numeral_value 16) ws)"
    "list_all lower_hex h"
    using low [of "concat (map padStart4 ws)"]
    by (auto simp: h_def toLowerCase_def all_digits_def list_all_iff lower_hex_lower)
qed

subsection \<open>From texts to groups\<close>

definition colon_free :: "string \<Rightarrow> bool" where
  "colon_free w \<longleftrightarrow> w \<noteq> [] \<and> CHR '':'' \<notin> set w"

lemma hex_group_colon_free: "hex_group w \<Longrightarrow> colon_free w"
  by (auto simp: hex_group_def colon_free_def all_digits_def list_all_iff digit_value_def code_unit_def)

lemma hex_group_no_dot: "hex_group w \<Longrightarrow> CHR ''.'' \<notin> set w"
  by (auto simp: hex_group_def all_digits_def list_all_iff digit_value_def code_unit_def)

definition prepend :: "string \<Rightarrow> string list \<Rightarrow> string list" where
  "prepend w vs = (case vs of [] \<Rightarrow> [w] | v # vs' \<Rightarrow> (w @ v) # vs')"

lemma split_double_colon_neq_Nil [simp]: "split_double_colon s \<noteq> []"
  by (induction s rule: split_double_colon.induct) (auto split: list.splits)

lemma split_double_colon_Cons:
  "c \<noteq> CHR '':'' \<Longrightarrow> split_double_colon (c # s) = prepend [c] (split_double_colon s)"
  by (cases s) (auto simp: prepend_def split: list.splits)

lemma prepend_prepend: "prepend v (prepend w vs) = prepend (v @ w) vs"
  by (simp add: prepend_def split: list.splits)

lemma split_double_colon_free:
  "CHR '':'' \<notin> set w \<Longrightarrow> split_double_colon (w @ s) = prepend w (split_double_colon s)"
  by (induction w)
    (auto simp: split_double_colon_Cons prepend_prepend, auto simp: prepend_def split: list.splits)

lemma split_double_colon_single:
  assumes "colon_free w"
  shows "split_double_colon (CHR '':'' # w @ s) = prepend '':'' (split_double_colon (w @ s))"
  using assms by (cases w) (auto simp: colon_free_def prepend_def split: list.splits)

lemma split_double_colon_join:
  "ws \<noteq> [] \<Longrightarrow> list_all colon_free ws \<Longrightarrow>
   split_double_colon (join_with '':'' ws @ t) = prepend (join_with '':'' ws) (split_double_colon t)"
proof (induction "'':''" ws rule: join_with.induct)
  case (3 w v ws)
  have "\<exists>v' s'. join_with '':'' (v # ws) = v' @ s' \<and> colon_free v'"
    using 3(3) by (cases ws) auto
  then obtain v' s' where j: "join_with '':'' (v # ws) = v' @ s'" "colon_free v'" by blast
  have "split_double_colon (join_with '':'' (w # v # ws) @ t)
      = prepend w (split_double_colon (CHR '':'' # join_with '':'' (v # ws) @ t))"
    using 3(3) split_double_colon_free [of w "CHR '':'' # join_with '':'' (v # ws) @ t"]
    by (simp add: colon_free_def)
  also have "\<dots> = prepend w (prepend '':'' (split_double_colon (join_with '':'' (v # ws) @ t)))"
    using split_double_colon_single [OF j(2), of "s' @ t"] j(1) by simp
  also have "\<dots> = prepend (w @ '':'' @ join_with '':'' (v # ws)) (split_double_colon t)"
    using 3 by (simp add: prepend_prepend)
  finally show ?case by simp
qed (auto simp: colon_free_def split_double_colon_free)

lemma group_seq_hex_seq_aux: "hex_group w \<Longrightarrow> hex_seq ws s vs \<Longrightarrow> ws \<noteq> [] \<Longrightarrow>
    hex_seq (w # ws) (w @ '':'' @ s) (numeral_value 16 w # vs)"
  by (cases ws) (auto simp: hex_seq_def)

lemma ipv6_groups_full:
  assumes "hex_seq ws s vs" and "length ws = 8"
  shows "ipv6_groups s = ws"
proof -
  have ne: "ws \<noteq> []" using assms(2) by auto
  have cf: "list_all colon_free ws" using assms(1) by (auto simp: hex_seq_def list_all_iff hex_group_colon_free)
  have "split_double_colon s = [s]"
    using split_double_colon_join [OF ne cf, of "[]"] assms(1) by (simp add: hex_seq_def prepend_def)
  moreover have "split_on (CHR '':'') s = ws"
    using split_on_join [OF ne, of "CHR '':''"] cf assms(1) by (simp add: hex_seq_def list_all_iff colon_free_def)
  ultimately show ?thesis by (simp add: ipv6_groups_def)
qed

lemma half_groups_hex_seq:
  assumes "hex_seq ws s vs"
  shows "half_groups s = ws"
proof (cases "ws = []")
  case False
  have cf: "\<forall>w \<in> set ws. colon_free w" using assms by (auto simp: hex_seq_def list_all_iff hex_group_colon_free)
  have "s \<noteq> []" using False cf assms by (cases ws rule: list.exhaust; cases "tl ws") (auto simp: hex_seq_def colon_free_def)
  then show ?thesis
    using split_on_join [OF False, of "CHR '':''"] cf assms
    by (simp add: half_groups_def hex_seq_def colon_free_def)
qed (use assms in \<open>simp add: half_groups_def hex_seq_def\<close>)

lemma split_double_colon_hex_seq:
  assumes "hex_seq ws s vs"
  shows "split_double_colon s = [s]"
proof (cases "ws = []")
  case False
  have cf: "list_all colon_free ws" using assms by (auto simp: hex_seq_def list_all_iff hex_group_colon_free)
  show ?thesis
    using split_double_colon_join [OF False cf, of "[]"] assms by (simp add: hex_seq_def prepend_def)
qed (use assms in \<open>simp add: hex_seq_def\<close>)

lemma split_double_colon_two:
  assumes "hex_seq ls l us" and "hex_seq rs r vs"
  shows "split_double_colon (l @ ''::'' @ r) = [l, r]"
proof -
  have tail: "split_double_colon (''::'' @ r) = [[], r]" by (simp add: split_double_colon_hex_seq [OF assms(2)])
  show ?thesis
  proof (cases "ls = []")
    case True
    with assms(1) tail show ?thesis by (simp add: hex_seq_def)
  next
    case False
    have cf: "list_all colon_free ls" using assms(1) by (auto simp: hex_seq_def list_all_iff hex_group_colon_free)
    show ?thesis
      using split_double_colon_join [OF False cf, of "''::'' @ r"] assms(1) tail by (simp add: hex_seq_def prepend_def)
  qed
qed

lemma ipv6_groups_short:
  assumes "hex_seq ls l us" and "hex_seq rs r vs" and "length ls + length rs \<le> 8"
  shows "ipv6_groups (l @ ''::'' @ r) = ls @ replicate (8 - length ls - length rs) ''0'' @ rs"
  using assms(3) unfolding ipv6_groups_def split_double_colon_two [OF assms(1,2)]
  by (simp add: half_groups_hex_seq [OF assms(1)] half_groups_hex_seq [OF assms(2)])

subsection \<open>The dotted tail\<close>

definition colon_end :: "string \<Rightarrow> bool" where
  "colon_end s \<longleftrightarrow> s \<noteq> [] \<and> last s = CHR '':'' \<and> list_all (\<lambda>c. code_unit c \<notin> {10, 13}) s"

lemma dottedMatch_append:
  assumes "colon_end front" and "CHR '':'' \<notin> set q"
  shows "dottedMatch (front @ q) = (if dotted_quad q then Some (front, q) else None)"
proof -
  have "front = butlast front @ [CHR '':'']" using assms(1) by (metis append_butlast_last_id colon_end_def)
  then have "rev front = CHR '':'' # rev (butlast front)" by (metis rev_eq_Cons_iff rev_rev_ident)
  then have "rev (front @ q) = rev q @ CHR '':'' # rev (butlast front)" by simp
  then have "takeWhile (\<lambda>c. c \<noteq> CHR '':'') (rev (front @ q)) = rev q"
    using assms(2) takeWhile_append2 [of "rev q" "\<lambda>c. c \<noteq> CHR '':''" "CHR '':'' # rev (butlast front)"]
    by (metis (mono_tags, lifting) append_Nil2 set_rev takeWhile.simps(2))
  with assms(1) show ?thesis by (simp add: dottedMatch_def Let_def colon_end_def)
qed

lemma digit_value_hex_digit_char: "n < 16 \<Longrightarrow> digit_value (hex_digit_char n) = n"
  by (simp add: digit_value_def hex_digit_char_def code_unit_def)

lemma show_hex_value: "numeral_value 16 (show_hex n) = n \<and> all_digits 16 (show_hex n) \<and> show_hex n \<noteq> []"
proof (induction n rule: show_hex.induct)
  case (1 n)
  then show ?case
    by (cases "n < 16") (simp_all add: show_hex.simps [of n] numeral_value_append digit_value_hex_digit_char
        numeral_value_def [of _ "[_]"] all_digits_def div_mult_mod_eq)
qed

lemma show_hex_length: "n < 16 ^ Suc k \<Longrightarrow> length (show_hex n) \<le> Suc k"
proof (induction k arbitrary: n)
  case (Suc k)
  have "n div 16 < 16 ^ Suc k" using Suc.prems by (simp add: div_less_iff_less_mult mult.commute)
  then show ?case using Suc.IH [of "n div 16"] by (simp add: show_hex.simps [of n])
qed (simp add: show_hex.simps)

lemma hex_group_show: "n < 65536 \<Longrightarrow> hex_group (padStart4 (show_hex n)) \<and> numeral_value 16 (padStart4 (show_hex n)) = n"
  using show_hex_length [of n 3] show_hex_value [of n]
  by (auto simp: hex_group_def padStart4_def all_digits_def list_all_iff numeral_value_concat numeral_value_zeros
      digit_value_def code_unit_def)

lemma unat_halves:
  assumes "b < 2 ^ 32"
  shows "unat (drop_bit 16 (of_nat b :: 32 word) AND 0xffff) = b div 65536"
    and "unat ((of_nat b :: 32 word) AND 0xffff) = b mod 65536"
proof -
  have m: "(0xffff :: 32 word) = mask 16" by (simp add: mask_eq_exp_minus_1)
  have b: "unat (of_nat b :: 32 word) = b" using assms by (simp add: unat_of_nat take_bit_nat_eq_self)
  show "unat ((of_nat b :: 32 word) AND 0xffff) = b mod 65536"
    unfolding m take_bit_eq_mask [symmetric] unsigned_take_bit_eq b by (simp add: take_bit_eq_mod)
  have "b div 65536 < 65536" using assms by simp
  then show "unat (drop_bit 16 (of_nat b :: 32 word) AND 0xffff) = b div 65536"
    unfolding m take_bit_eq_mask [symmetric] unsigned_take_bit_eq unsigned_drop_bit_eq b
    by (simp add: drop_bit_eq_div take_bit_eq_mod)
qed

lemma dotted_quad_no_colon: "dotted_quad w \<Longrightarrow> CHR '':'' \<notin> set w"
proof -
  assume q: "dotted_quad w"
  have "set w \<subseteq> insert (CHR ''.'') (\<Union> (set ` set (split_on (CHR ''.'') w)))"
    by (induction w) (auto split: list.splits, blast)
  moreover have "CHR '':'' \<notin> set u" if "u \<in> set (split_on (CHR ''.'') w)" for u
    using q that not_digit_sep(3) by (auto simp: dotted_quad_def Let_def list_all_iff)
  ultimately show ?thesis by auto
qed

lemma hex_group_not_quad: "hex_group w \<Longrightarrow> \<not> dotted_quad w"
  using hex_group_no_dot [of w] by (simp add: dotted_quad_def split_on_no_sep)

lemma colon_end_group: "hex_group w \<Longrightarrow> colon_end (w @ '':'')"
  by (auto simp: colon_end_def hex_group_def all_digits_def list_all_iff digit_value_def code_unit_def)

lemma colon_end_append: "list_all (\<lambda>c. code_unit c \<notin> {10, 13}) s \<Longrightarrow> colon_end t \<Longrightarrow> colon_end (s @ t)"
  by (auto simp: colon_end_def)

lemma replace_dotted_group_seq:
  assumes "group_seq s vs" and "colon_end front"
  shows "\<exists>ws s'. replace_dotted (front @ s) = Some (front @ s') \<and> hex_seq ws s' vs \<and> ws \<noteq> []"
  using assms
proof (induction arbitrary: front rule: group_seq.induct)
  case (group_one w)
  then have "replace_dotted (front @ w) = Some (front @ w)"
    using hex_group_colon_free [of w]
    by (simp add: replace_dotted_def dottedMatch_append colon_free_def hex_group_not_quad)
  moreover have "hex_seq [w] w [numeral_value 16 w]" using group_one by (simp add: hex_seq_def)
  ultimately show ?case by blast
next
  case (group_quad w b)
  let ?u = "padStart4 (show_hex (b div 65536))" and ?v = "padStart4 (show_hex (b mod 65536))"
  have b: "b < 2 ^ 32" using group_quad(2) by (rule denotes_ipv4_bound)
  have r: "replace_dotted (front @ w) = Some (front @ ?u @ '':'' @ ?v)"
    using group_quad dotted_quad_no_colon [OF group_quad(1)]
    by (simp add: replace_dotted_def dottedMatch_append ipv4ToInt_denotes unat_halves [OF b])
  have "b div 65536 < 65536" "b mod 65536 < 65536" using b by simp_all
  then have h: "hex_seq [?u, ?v] (?u @ '':'' @ ?v) [b div 65536, b mod 65536]"
    by (simp add: hex_seq_def hex_group_show)
  show ?case by (intro exI conjI) (rule r, rule h, simp)
next
  case (group_more w s vs)
  have "colon_end (front @ w @ '':'')"
    using group_more by (intro colon_end_append colon_end_group) (simp_all add: colon_end_def)
  from group_more.IH [OF this] obtain ws s' where
    "replace_dotted (front @ w @ '':'' @ s) = Some (front @ w @ '':'' @ s')" "hex_seq ws s' vs" "ws \<noteq> []" by auto
  with group_more(1) show ?case using group_seq_hex_seq_aux by (metis append.assoc list.distinct(1))
qed

lemma hex_seq_no_newline: "hex_seq ws s vs \<Longrightarrow> list_all (\<lambda>c. code_unit c \<notin> {10, 13}) s"
proof -
  have "list_all (\<lambda>c. code_unit c \<notin> {10, 13}) (join_with '':'' ws)" if "list_all hex_group ws"
    using that by (induction "'':''" ws rule: join_with.induct)
      (auto simp: hex_group_def all_digits_def list_all_iff digit_value_def code_unit_def)
  then show "hex_seq ws s vs \<Longrightarrow> ?thesis" by (simp add: hex_seq_def)
qed

text \<open>The groups the source computes have the values the text denotes.\<close>

lemma expandIPv6_groups:
  assumes "denotes_ipv6 s vs"
  shows "\<exists>ws. length ws = 8 \<and> list_all hex_group ws \<and> map (numeral_value 16) ws = vs \<and>
    expandIPv6 s = toLowerCase (concat (map padStart4 ws))"
  using assms
proof cases
  case full
  then obtain w s1 vs1 where s: "s = w @ '':'' @ s1" "hex_group w" "group_seq s1 vs1" "vs = numeral_value 16 w # vs1"
    by (auto elim: group_seq.cases)
  obtain ws s' where "replace_dotted ((w @ '':'') @ s1) = Some ((w @ '':'') @ s')" "hex_seq ws s' vs1" "ws \<noteq> []"
    using replace_dotted_group_seq [OF s(3) colon_end_group [OF s(2)]] by blast
  with s have r: "replace_dotted s = Some (w @ '':'' @ s')" and h: "hex_seq (w # ws) (w @ '':'' @ s') vs"
    using group_seq_hex_seq_aux by auto
  have l: "length (w # ws) = 8" using h full(2) by (simp add: hex_seq_def)
  show ?thesis
    unfolding expandIPv6_def r option.case Let_def ipv6_groups_full [OF h l]
    by (rule exI [of _ "w # ws"]) (use l h in \<open>simp add: hex_seq_def\<close>)
next
  case (short ls l us r rs)
  have ce: "colon_end (l @ ''::'')"
    using hex_seq_no_newline [OF short(3)] by (simp add: colon_end_def code_unit_def)
  obtain ws s' where r: "replace_dotted ((l @ ''::'') @ r) = Some ((l @ ''::'') @ s')" and h: "hex_seq ws s' rs"
  proof (cases "r = [] \<and> rs = []")
    case True
    then have "replace_dotted ((l @ ''::'') @ r) = Some ((l @ ''::'') @ [])"
      using dottedMatch_append [OF ce, of "[]"] by (simp add: replace_dotted_def dotted_quad_def)
    moreover have "hex_seq [] [] rs" using True by (simp add: hex_seq_def)
    ultimately show ?thesis by (rule that)
  next
    case False
    with short(4) replace_dotted_group_seq [OF _ ce] that show ?thesis by blast
  qed
  have len: "length ls + length ws \<le> 8" "length us = length ls" "length rs = length ws"
    using short(3,5) h by (auto simp: hex_seq_def)
  have z: "hex_group ''0'' \<and> numeral_value 16 ''0'' = 0"
    by (simp add: hex_group_def all_digits_def digit_value_def code_unit_def numeral_value_def)
  let ?gs = "ls @ replicate (8 - length ls - length ws) ''0'' @ ws"
  have "expandIPv6 s = toLowerCase (concat (map padStart4 ?gs))"
    using r len(1) unfolding expandIPv6_def short(1) append.assoc
    by (simp only: option.case Let_def ipv6_groups_short [OF short(3) h len(1)]) simp
  moreover have "map (numeral_value 16) ?gs = vs" "list_all hex_group ?gs" "length ?gs = 8"
    using short(2,3) h len z by (auto simp: hex_seq_def list_all_iff)
  ultimately show ?thesis by blast
qed

subsection \<open>Prefixes of the expanded text\<close>

lemma lower_hex_all_digits: "list_all lower_hex h \<Longrightarrow> all_digits 16 h"
  by (auto simp: all_digits_def list_all_iff lower_hex_digit)

lemma starts_with_hex:
  assumes "length h = 32" and "list_all lower_hex h" and "list_all lower_hex p" and "length p \<le> 32"
  shows "starts_with h p \<longleftrightarrow> numeral_value 16 h div 2 ^ (128 - 4 * length p) = numeral_value 16 p"
proof -
  have t: "list_all lower_hex (take (length p) h)" using assms(2) by (auto simp: list_all_iff dest: in_set_takeD)
  have "(16 :: nat) ^ (32 - length p) = 2 ^ (4 * (32 - length p))" by (simp add: power_mult)
  also have "4 * (32 - length p) = 128 - 4 * length p" by simp
  finally have pow: "(16 :: nat) ^ (32 - length p) = 2 ^ (128 - 4 * length p)" .
  have "numeral_value 16 (take (length p) h) = numeral_value 16 h div 2 ^ (128 - 4 * length p)"
    using numeral_value_take [OF lower_hex_all_digits [OF assms(2)], of "length p"] assms(1,4) pow by simp
  with numeral_value_inject [OF _ t assms(3)] assms(1,4) show ?thesis by (auto simp: starts_with_def)
qed

lemma parseInt_hex:
  assumes "list_all lower_hex s" and "s \<noteq> []"
  shows "parseInt 16 s = Some (int (numeral_value 16 s))"
proof -
  have hex: "lower_hex c" if "c \<in> set s" for c using assms(1) that by (simp add: list_all_iff)
  have hd: "lower_hex (hd s)" using hex assms(2) by simp
  have "dropWhile js_space s = s"
    by (rule dropWhile_none) (use hex in \<open>fastforce simp: lower_hex_def js_space_def Let_def\<close>)
  moreover have "hd s \<noteq> CHR ''-''" "hd s \<noteq> CHR ''+''" using hd by (auto simp: lower_hex_def code_unit_def)
  moreover have "\<not> starts_with s ''0x''" "\<not> starts_with s ''0X''"
  proof -
    have "\<not> starts_with s [CHR ''0'', c]" if "\<not> lower_hex c" for c
      using that hex by (metis in_set_takeD list.set_intros(1,2) starts_with_def)
    then show "\<not> starts_with s ''0x''" "\<not> starts_with s ''0X''" by (simp_all add: lower_hex_def code_unit_def)
  qed
  moreover have "takeWhile (\<lambda>c. digit_value c < 16) s = s"
    using hex by (simp add: takeWhile_eq_all_conv lower_hex_digit)
  ultimately show ?thesis using assms(2) unfolding parseInt_def Let_def by presburger
qed

lemma masked_high_bits:
  fixes v :: nat
  assumes "v < 2 ^ (j + k)"
  shows "int v AND int (push_bit k (mask j)) = int (push_bit k c) \<longleftrightarrow> v div 2 ^ k = c"
proof -
  have "v AND push_bit k (mask j) = push_bit k (drop_bit k v)"
  proof (rule bit_eqI)
    fix n
    have "bit v n \<Longrightarrow> n < j + k" using assms by (metis bit_take_bit_iff take_bit_nat_eq_self)
    then show "bit (v AND push_bit k (mask j)) n = bit (push_bit k (drop_bit k v)) n"
      by (auto simp: bit_simps)
  qed
  then have "int v AND int (push_bit k (mask j)) = int (push_bit k (drop_bit k v))"
    by (metis of_nat_and_eq)
  then show ?thesis by (simp add: push_bit_eq_mult drop_bit_eq_div)
qed

lemma masked_prefix_hex:
  assumes "length h = 32" and "list_all lower_hex h" and "0 < n" and "n \<le> 32" and "j + k = 4 * n"
  shows "masked_prefix n h (int (push_bit k (mask j))) = int (push_bit k c) \<longleftrightarrow>
    numeral_value 16 h div 2 ^ (128 - j) = c"
proof -
  have t: "list_all lower_hex (take n h)" using assms(2) by (auto simp: list_all_iff dest: in_set_takeD)
  have ne: "take n h \<noteq> []" using assms(1,3) by auto
  have "numeral_value 16 (take n h) < 16 ^ length (take n h)"
    by (rule numeral_value_bound) (rule lower_hex_all_digits [OF t])
  also have "(16 :: nat) ^ length (take n h) = 2 ^ (j + k)" using assms(1,4,5) by (simp add: power_mult)
  finally have b: "numeral_value 16 (take n h) < 2 ^ (j + k)" .
  have "numeral_value 16 (take n h) = numeral_value 16 h div 16 ^ (32 - n)"
    using numeral_value_take [OF lower_hex_all_digits [OF assms(2)], of n] assms(1,4) by simp
  also have "(16 :: nat) ^ (32 - n) = 2 ^ (4 * (32 - n))" by (simp add: power_mult)
  finally have "numeral_value 16 (take n h) div 2 ^ k = numeral_value 16 h div 2 ^ (4 * (32 - n) + k)"
    by (simp add: div_mult2_eq power_add)
  also have "4 * (32 - n) + k = 128 - j" using assms(4,5) by simp
  finally show ?thesis
    using masked_high_bits [OF b, of c] by (simp add: masked_prefix_def parseInt_hex [OF t ne])
qed

lemma expanded_checks:
  assumes "length h = 32" and "list_all lower_hex h"
  defines "a \<equiv> numeral_value 16 h"
  shows "h = ''00000000000000000000000000000000'' \<longleftrightarrow> a = 0"
    and "h = ''00000000000000000000000000000001'' \<longleftrightarrow> a = 1"
    and "starts_with h ''00000000000000000000ffff'' \<longleftrightarrow> a div 2 ^ 32 = 0xffff"
    and "starts_with h ''0064ff9b0000000000000000'' \<longleftrightarrow> a div 2 ^ 32 = 0x64ff9b0000000000000000"
    and "starts_with h ''0064ff9b0001'' \<longleftrightarrow> a div 2 ^ 80 = 0x64ff9b0001"
    and "starts_with h ''0100000000000000'' \<longleftrightarrow> a div 2 ^ 64 = 0x100000000000000"
    and "starts_with h ''200100'' \<longleftrightarrow> a div 2 ^ 104 = 0x200100"
    and "starts_with h ''200101'' \<longleftrightarrow> a div 2 ^ 104 = 0x200101"
    and "starts_with h ''20010db8'' \<longleftrightarrow> a div 2 ^ 96 = 0x20010db8"
    and "starts_with h ''2002'' \<longleftrightarrow> a div 2 ^ 112 = 0x2002"
    and "starts_with h ''2620004f8000'' \<longleftrightarrow> a div 2 ^ 80 = 0x2620004f8000"
    and "starts_with h ''ff'' \<longleftrightarrow> a div 2 ^ 120 = 0xff"
    and "masked_prefix 2 h 0xfe = 0xfc \<longleftrightarrow> a div 2 ^ 121 = 126"
    and "masked_prefix 4 h 0xffc0 = 0xfe80 \<longleftrightarrow> a div 2 ^ 118 = 0x3fa"
proof -
  note hex = lower_hex_def code_unit_def numeral_value_def digit_value_def
  have eq: "h = p \<longleftrightarrow> starts_with h p" if "length p = 32" for p
    using assms(1) that by (auto simp: starts_with_def)
  note sw = starts_with_hex [OF assms(1,2), folded a_def]
  show "h = ''00000000000000000000000000000000'' \<longleftrightarrow> a = 0" using eq sw by (simp add: hex)
  show "h = ''00000000000000000000000000000001'' \<longleftrightarrow> a = 1" using eq sw by (simp add: hex)
  show "starts_with h ''00000000000000000000ffff'' \<longleftrightarrow> a div 2 ^ 32 = 0xffff"
    "starts_with h ''0064ff9b0000000000000000'' \<longleftrightarrow> a div 2 ^ 32 = 0x64ff9b0000000000000000"
    "starts_with h ''0064ff9b0001'' \<longleftrightarrow> a div 2 ^ 80 = 0x64ff9b0001"
    "starts_with h ''0100000000000000'' \<longleftrightarrow> a div 2 ^ 64 = 0x100000000000000"
    "starts_with h ''200100'' \<longleftrightarrow> a div 2 ^ 104 = 0x200100"
    "starts_with h ''200101'' \<longleftrightarrow> a div 2 ^ 104 = 0x200101"
    "starts_with h ''20010db8'' \<longleftrightarrow> a div 2 ^ 96 = 0x20010db8"
    "starts_with h ''2002'' \<longleftrightarrow> a div 2 ^ 112 = 0x2002"
    "starts_with h ''2620004f8000'' \<longleftrightarrow> a div 2 ^ 80 = 0x2620004f8000"
    "starts_with h ''ff'' \<longleftrightarrow> a div 2 ^ 120 = 0xff"
    by (subst sw; simp add: hex)+
  note mp = masked_prefix_hex [OF assms(1,2), folded a_def]
  show "masked_prefix 2 h 0xfe = 0xfc \<longleftrightarrow> a div 2 ^ 121 = 126"
    using mp [of 2 7 1 126] by (simp add: mask_eq_exp_minus_1 push_bit_eq_mult)
  show "masked_prefix 4 h 0xffc0 = 0xfe80 \<longleftrightarrow> a div 2 ^ 118 = 0x3fa"
    using mp [of 4 10 6 "0x3fa"] by (simp add: mask_eq_exp_minus_1 push_bit_eq_mult)
qed

lemma iana_ipv6_iff:
  "list_ex (in_block 128 a) iana_ipv6_blocks \<longleftrightarrow>
     a = 0 \<or> a = 1 \<or> a div 2 ^ 32 = 0xffff \<or> a div 2 ^ 32 = 0x64ff9b0000000000000000 \<or>
     a div 2 ^ 80 = 0x64ff9b0001 \<or> a div 2 ^ 64 = 0x100000000000000 \<or>
     a div 2 ^ 104 = 0x200100 \<or> a div 2 ^ 104 = 0x200101 \<or> a div 2 ^ 96 = 0x20010db8 \<or> a div 2 ^ 112 = 0x2002 \<or>
     a div 2 ^ 80 = 0x2620004f8000 \<or> a div 2 ^ 121 = 126 \<or> a div 2 ^ 118 = 0x3fa \<or> a div 2 ^ 120 = 0xff"
proof -
  have "a div 2 ^ 105 = a div 2 ^ 104 div 2" by (simp flip: div_mult2_eq)
  moreover have "b div 2 = 0x100080 \<longleftrightarrow> b = 0x200100 \<or> b = 0x200101" for b :: nat by linarith
  ultimately have p: "a div 2 ^ 105 = 0x100080 \<longleftrightarrow> a div 2 ^ 104 = 0x200100 \<or> a div 2 ^ 104 = 0x200101" by simp
  show ?thesis
    unfolding disj_assoc [symmetric] p [symmetric]
    by (simp add: iana_ipv6_blocks_def in_block_def base_value_def disj_ac)
qed

lemma isSpecialUseIPv6_iff:
  assumes "denotes_ipv6 address groups"
  shows "isSpecialUseIPv6 address \<longleftrightarrow> list_ex (in_block 128 (base_value 65536 groups)) iana_ipv6_blocks"
proof -
  obtain ws where ws: "length ws = 8" "list_all hex_group ws" "map (numeral_value 16) ws = groups"
    and e: "expandIPv6 address = toLowerCase (concat (map padStart4 ws))"
    using expandIPv6_groups [OF assms] by blast
  note h = expanded_groups [OF ws(2), folded e, unfolded ws(3)]
  have l: "length (expandIPv6 address) = 32" using h(1) ws(1) by simp
  have ne: "expandIPv6 address \<noteq> []" using l by auto
  note chk = expanded_checks [OF l h(2), unfolded h(3)]
  show ?thesis
    unfolding isSpecialUseIPv6_def Let_def chk iana_ipv6_iff using ne by (simp only: if_True if_False simp_thms) argo
qed

text \<open>
  C28: The IPv6 check of fetch.ts refuses exactly the addresses of the special-use registry, however they are
  written: for every text form of an address (eight groups of one to four hexadecimal digits in either case,
  one \<open>::\<close> for any number of zero groups, a dotted quad for the last two groups), the text is refused if and
  only if the 128-bit value lies in one of the thirteen blocks, given as base address and prefix length. The
  check works on an expanded text, by string prefixes and two masks; \<open>2001::/23\<close> is two string prefixes.
\<close>

theorem ipv6_special_use_exact:
  assumes "denotes_ipv6 address groups"
  shows "isSpecialUseIPv6 address \<longleftrightarrow> list_ex (in_block 128 (base_value 65536 groups)) iana_ipv6_blocks"
  using assms by (rule isSpecialUseIPv6_iff)

theorem ipv6_special_use_exact_witness:
  "isSpecialUseIPv6 ''::FFFF:10.0.0.1'' \<and> \<not> isSpecialUseIPv6 ''2a00:1450::200e''"
proof -
  have q: "dotted_quad ''10.0.0.1''" "denotes_ipv4 ''10.0.0.1'' 0x0a000001"
    by (simp_all add: dotted_quad_def denotes_ipv4_def Let_def base_value_def numeral_value_def digit_value_def
        code_unit_def is_digit_char_def)
  have g: "hex_group ''FFFF''" "hex_group ''2a00''" "hex_group ''1450''" "hex_group ''200e''"
    by (simp_all add: hex_group_def all_digits_def digit_value_def code_unit_def)
  have v: "numeral_value 16 ''FFFF'' = 0xffff" "numeral_value 16 ''2a00'' = 0x2a00" "numeral_value 16 ''1450'' = 0x1450"
    "numeral_value 16 ''200e'' = 0x200e"
    by (simp_all add: numeral_value_def digit_value_def code_unit_def)
  have r5: "replicate 5 (0 :: nat) = [0, 0, 0, 0, 0]" by (simp add: numeral_eq_Suc)
  have "group_seq (''FFFF'' @ '':'' @ ''10.0.0.1'') [0xffff, 0x0a00, 1]"
    using group_more [OF g(1) group_quad [OF q]] v by simp
  then have a: "denotes_ipv6 ''::FFFF:10.0.0.1'' [0, 0, 0, 0, 0, 0xffff, 0x0a00, 1]"
    using denotes_ipv6.short [of "[]" "[]" "[]" "''FFFF:10.0.0.1''" "[0xffff, 0x0a00, 1]"]
    by (simp add: hex_seq_def r5)
  have b: "denotes_ipv6 ''2a00:1450::200e'' [0x2a00, 0x1450, 0, 0, 0, 0, 0, 0x200e]"
    using denotes_ipv6.short [of "[''2a00'', ''1450'']" "''2a00:1450''" "[0x2a00, 0x1450]" "''200e''" "[0x200e]"]
      group_one [OF g(4)] g v by (simp add: hex_seq_def r5)
  show ?thesis
    unfolding ipv6_special_use_exact [OF a] ipv6_special_use_exact [OF b]
    by (simp add: iana_ipv6_iff base_value_def)
qed

end
