(* ===== verification/Http_Fetch.thy ===== *)
theory Http_Fetch
  imports Fetch_Addresses
begin

text \<open>
  packages/core/src/trust-chain/fetch.ts, http-response.ts and http.ts: the HTTP client of the library and the
  helpers its endpoints answer with. \<open>new URL\<close>, \<open>TextDecoder\<close> and \<open>JSON.parse\<close> are parameters of the
  environment, as is what the HTTP client does with a request: throw, or reply with a status, headers and a stream.
  The abort signal is read at the points where the source reads it, so its value there is part of the script
  of a run. \<open>performFetch\<close> returns the requests it sent beside its result.
\<close>

section \<open>URLs\<close>

record url =
  url_protocol :: string
  url_username :: string
  url_password :: string
  url_hostname :: string
  url_search :: string
  url_hash :: string

record fetch_options =
  fo_blockedCIDRs :: "string list option"
  fo_allowedHosts :: "string list option"
  fo_accept :: "string option"
  fo_expectedContentType :: "string option option" \<comment> \<open>\<open>Some None\<close> is \<open>null\<close>\<close>
  fo_mediaTypePolicy :: bool \<comment> \<open>\<open>contentTypePolicy === "media-type"\<close>\<close>
  fo_method :: "string option"
  fo_redirect :: "string option"
  fo_body :: "string option"
  fo_expectedStatus :: "nat option"
  fo_federationErrors :: bool
  fo_maxResponseBytes :: "int option"

definition no_fetch_options :: fetch_options where
  "no_fetch_options = \<lparr>fo_blockedCIDRs = None, fo_allowedHosts = None, fo_accept = None, fo_expectedContentType = None,
     fo_mediaTypePolicy = False, fo_method = None, fo_redirect = None, fo_body = None, fo_expectedStatus = None,
     fo_federationErrors = False, fo_maxResponseBytes = None\<rparr>"

definition network_error :: "string \<Rightarrow> fed_error" where
  "network_error d = mk_err ''ERR_NETWORK'' d"

definition validateFetchUrl ::
  "(string \<Rightarrow> url option) \<Rightarrow> string \<Rightarrow> fetch_options \<Rightarrow> (fed_error, url) result" where
  "validateFetchUrl parse_url url opts =
     (if 2048 < length url then Inl (network_error ''URL exceeds maximum length of 2048 characters'')
      else (case parse_url url of
        None \<Rightarrow> Inl (network_error (''Invalid URL: '' @ url))
      | Some parsed \<Rightarrow>
          if url_protocol parsed \<noteq> ''https:'' then Inl (network_error (''URL must use HTTPS: '' @ url))
          else if url_username parsed \<noteq> [] \<or> url_password parsed \<noteq> [] then
            Inl (network_error (''URL must not contain credentials: '' @ url))
          else if (case fo_allowedHosts opts of None \<Rightarrow> False | Some hosts \<Rightarrow> url_hostname parsed \<notin> set hosts) then
            Inl (network_error (''Host '' @ quoted (url_hostname parsed) @ '' is not in allowed hosts list''))
          else if isSpecialUseIP (url_hostname parsed) then
            Inl (network_error (''Host '' @ quoted (url_hostname parsed) @ '' is a special-use address''))
          else if (case fo_blockedCIDRs opts of None \<Rightarrow> False | Some cs \<Rightarrow> isBlockedCIDR (url_hostname parsed) cs) then
            Inl (network_error (''Host '' @ quoted (url_hostname parsed) @ '' is in blocked CIDR range''))
          else Inr parsed))"

text \<open>types.ts: \<open>entityId\<close> throws where \<open>isValidEntityId\<close> is false; \<open>Inl\<close> is the thrown error.\<close>

definition isValidEntityId :: "(string \<Rightarrow> url option) \<Rightarrow> string \<Rightarrow> bool" where
  "isValidEntityId parse_url value =
     (if 2048 < length value then False
      else (case parse_url value of None \<Rightarrow> False
            | Some u \<Rightarrow> url_protocol u = ''https:'' \<and> url_username u = [] \<and> url_password u = [] \<and>
                        url_search u = [] \<and> url_hash u = []))"

definition entityId :: "(string \<Rightarrow> url option) \<Rightarrow> string \<Rightarrow> (string, string) result" where
  "entityId parse_url value =
     (if 2048 < length value then Inl ''Entity ID must not exceed 2048 characters''
      else (case parse_url value of None \<Rightarrow> Inl ''Invalid URL''
            | Some u \<Rightarrow>
                if url_protocol u \<noteq> ''https:'' then Inl ''Entity ID must be HTTPS''
                else if url_username u \<noteq> [] \<or> url_password u \<noteq> [] then Inl ''Entity ID must not contain credentials''
                else if url_search u \<noteq> [] \<or> url_hash u \<noteq> [] then
                  Inl ''Entity ID must not contain query parameters or fragments''
                else Inr value))"

definition validateEntityId :: "(string \<Rightarrow> url option) \<Rightarrow> string \<Rightarrow> (fed_error, string) result" where
  "validateEntityId parse_url value =
     (if isValidEntityId parse_url value then
        (case entityId parse_url value of Inr v \<Rightarrow> Inr v | Inl m \<Rightarrow> Inl (network_error m))
      else Inl (network_error (''Invalid entity ID: '' @ value)))"

section \<open>Media types\<close>

record parsed_content_type =
  ct_raw :: string
  ct_mediaType :: string
  ct_parameters :: "string list"

text \<open>A missing header is \<open>None\<close>.\<close>

definition parseContentTypeHeader :: "string option \<Rightarrow> parsed_content_type option" where
  "parseContentTypeHeader value =
     (case map_option trim value of
        None \<Rightarrow> None
      | Some raw \<Rightarrow>
          if raw = [] then None
          else (case split_on (CHR '';'') raw of
                  [] \<Rightarrow> None
                | mediaType # parameters \<Rightarrow>
                    if trim mediaType = [] then None
                    else Some \<lparr>ct_raw = raw, ct_mediaType = trim mediaType, ct_parameters = map trim parameters\<rparr>))"

definition isExactContentType :: "string option \<Rightarrow> string \<Rightarrow> bool" where
  "isExactContentType value expectedMediaType =
     (case parseContentTypeHeader value of None \<Rightarrow> False
      | Some parsed \<Rightarrow> ct_parameters parsed = [] \<and> ct_mediaType parsed = expectedMediaType)"

definition matchesContentType :: "fetch_options \<Rightarrow> string option \<Rightarrow> string \<Rightarrow> bool" where
  "matchesContentType opts actual expected =
     (if fo_mediaTypePolicy opts then
        map_option (\<lambda>p. toLowerCase (ct_mediaType p)) (parseContentTypeHeader actual) = Some (toLowerCase expected)
      else isExactContentType actual expected)"

section \<open>Reading a response\<close>

type_synonym byte = "8 word"

datatype exn =
    AbortError
  | RangeError string
  | OtherError string \<comment> \<open>an \<open>Error\<close> with its message\<close>
  | NotAnError

text \<open>What the stream of a body yields: chunks, each with the value of \<open>signal.aborted\<close> before and after the
  read that delivers it, then the end of the stream or a failing read.\<close>

record body_stream =
  bs_chunks :: "(bool \<times> byte list \<times> bool) list"
  bs_end :: "bool \<times> exn option \<times> bool"

record response =
  resp_status :: nat
  resp_contentType :: "string option"
  resp_contentLength :: "string option"
  resp_body :: "body_stream option"

definition resp_ok :: "response \<Rightarrow> bool" where
  "resp_ok r \<longleftrightarrow> 200 \<le> resp_status r \<and> resp_status r \<le> 299"

definition show_int :: "int \<Rightarrow> string" where
  "show_int n = (if n < 0 then CHR ''-'' # show_nat (nat (- n)) else show_nat (nat n))"

definition too_large :: "int \<Rightarrow> exn" where
  "too_large maxBytes = RangeError (''Response exceeds maximum size of '' @ show_int maxBytes @ '' bytes'')"

text \<open>The loop; a decoder fed with the chunks of a stream and then flushed has decoded their concatenation.\<close>

fun read_loop ::
  "int \<Rightarrow> (bool \<times> byte list \<times> bool) list \<Rightarrow> bool \<times> exn option \<times> bool \<Rightarrow> int \<Rightarrow> byte list \<Rightarrow> (exn, byte list) result" where
  "read_loop maxBytes [] (before, failure, after) received acc =
     (if before then Inl AbortError
      else (case failure of Some e \<Rightarrow> Inl e
            | None \<Rightarrow> if after then Inl AbortError else Inr acc))"
| "read_loop maxBytes ((before, bytes, after) # chunks) fin received acc =
     (if before then Inl AbortError
      else if after then Inl AbortError
      else if maxBytes < received + int (length bytes) then Inl (too_large maxBytes)
      else read_loop maxBytes chunks fin (received + int (length bytes)) (acc @ bytes))"

text \<open>\<open>contentLength && Number.parseInt(contentLength, 10) > maxBytes\<close>.\<close>

definition declared_too_large :: "string option \<Rightarrow> int \<Rightarrow> bool" where
  "declared_too_large contentLength maxBytes =
     (case contentLength of None \<Rightarrow> False
      | Some l \<Rightarrow> l \<noteq> [] \<and> (case parseInt 10 l of None \<Rightarrow> False | Some n \<Rightarrow> maxBytes < n))"

definition readResponseBody ::
  "(byte list \<Rightarrow> string) \<Rightarrow> response \<Rightarrow> int \<Rightarrow> (exn, string) result" where
  "readResponseBody decode r maxBytes =
     (case resp_body r of None \<Rightarrow> Inr []
      | Some body \<Rightarrow>
          if declared_too_large (resp_contentLength r) maxBytes then Inl (too_large maxBytes)
          else (case read_loop maxBytes (bs_chunks body) (bs_end body) 0 [] of
                  Inl e \<Rightarrow> Inl e
                | Inr bytes \<Rightarrow> Inr (decode bytes)))"

section \<open>performFetch\<close>

record http_request =
  rq_url :: string
  rq_method :: string
  rq_redirect :: "string option"
  rq_body :: "string option"
  rq_headers :: "string dict"

datatype fetch_outcome = FetchThrows exn | FetchReplies response

record http_env =
  he_parse_url :: "string \<Rightarrow> url option"
  he_parse_json :: "string \<Rightarrow> jsval option"
  he_decode :: "byte list \<Rightarrow> string"
  he_aborted :: bool \<comment> \<open>the signal of the options, when the request is about to be sent\<close>
  he_client :: "http_request \<Rightarrow> fetch_outcome"
  he_aborted_later :: bool \<comment> \<open>the signal when an exception is handled\<close>

definition FederationErrorCodes :: "string list" where
  "FederationErrorCodes =
     [''invalid_request'', ''invalid_client'', ''invalid_issuer'', ''invalid_subject'', ''invalid_trust_anchor'',
      ''invalid_trust_chain'', ''invalid_metadata'', ''not_found'', ''server_error'', ''temporarily_unavailable'',
      ''unsupported_parameter'', ''unsupported_claim'', ''entity_id_not_found'', ''page_not_found'']"

definition DEFAULT_MAX_RESPONSE_BYTES :: int where
  "DEFAULT_MAX_RESPONSE_BYTES = 512 * 1024"

definition max_bytes :: "fetch_options \<Rightarrow> int" where
  "max_bytes opts = (case fo_maxResponseBytes opts of Some n \<Rightarrow> n | None \<Rightarrow> DEFAULT_MAX_RESPONSE_BYTES)"

definition accept_of :: "fetch_options \<Rightarrow> string" where
  "accept_of opts = (case fo_accept opts of Some a \<Rightarrow> a | None \<Rightarrow> ''application/entity-statement+jwt'')"

definition expected_type :: "fetch_options \<Rightarrow> string option" where
  "expected_type opts = (case fo_expectedContentType opts of Some e \<Rightarrow> e | None \<Rightarrow> Some (accept_of opts))"

definition request_for :: "string \<Rightarrow> fetch_options \<Rightarrow> http_request" where
  "request_for url opts =
     \<lparr>rq_url = url, rq_method = (case fo_method opts of Some m \<Rightarrow> m | None \<Rightarrow> ''GET''), rq_redirect = fo_redirect opts,
      rq_body = fo_body opts,
      rq_headers = (''Accept'', accept_of opts) #
        (if fo_body opts = None then [] else [(''Content-Type'', ''application/x-www-form-urlencoded'')])\<rparr>"

definition http_failure :: "string \<Rightarrow> response \<Rightarrow> fed_error" where
  "http_failure url r = network_error (''HTTP '' @ show_nat (resp_status r) @ '' from '' @ url)"

text \<open>The error member of a JSON error body, when it is a federation error code.\<close>

definition federation_error_of :: "(string \<Rightarrow> jsval option) \<Rightarrow> string \<Rightarrow> string \<Rightarrow> response \<Rightarrow> fed_error" where
  "federation_error_of parse_json body url r =
     (case parse_json body of
        None \<Rightarrow> http_failure url r
      | Some parsed \<Rightarrow>
          (case mget parsed ''error'' of
             JStr c \<Rightarrow>
               if c \<in> set FederationErrorCodes then
                 mk_err c (case mget parsed ''error_description'' of
                             JStr d \<Rightarrow> d | _ \<Rightarrow> ''HTTP '' @ show_nat (resp_status r) @ '' from '' @ url)
               else http_failure url r
           | _ \<Rightarrow> http_failure url r))"

text \<open>The body of the \<open>try\<close> after the client replied: \<open>Inl\<close> is an exception, otherwise the returned result.\<close>

definition handle_response ::
  "http_env \<Rightarrow> string \<Rightarrow> fetch_options \<Rightarrow> response \<Rightarrow> (exn, (fed_error, string) result) result" where
  "handle_response E url opts r =
     (if \<not> resp_ok r \<or> (case fo_expectedStatus opts of None \<Rightarrow> False | Some s \<Rightarrow> resp_status r \<noteq> s) then
        if fo_federationErrors opts \<and> \<not> resp_ok r \<and> matchesContentType opts (resp_contentType r) ''application/json'' then
          (case readResponseBody (he_decode E) r (max_bytes opts) of
             Inl e \<Rightarrow> Inl e
           | Inr body \<Rightarrow> Inr (Inl (federation_error_of (he_parse_json E) body url r)))
        else Inr (Inl (http_failure url r))
      else if (case expected_type opts of None \<Rightarrow> False | Some t \<Rightarrow> \<not> matchesContentType opts (resp_contentType r) t) then
        Inr (Inl (network_error
          (''Unexpected Content-Type '' @
           quoted (case map_option trim (resp_contentType r) of
                     None \<Rightarrow> ''<missing>'' | Some t \<Rightarrow> if t = [] then ''<missing>'' else t) @
           '' from '' @ url @ '', expected '' @ quoted (the (expected_type opts)))))
      else if resp_body r = None then Inr (Inl (network_error (''Empty response body from '' @ url)))
      else (case readResponseBody (he_decode E) r (max_bytes opts) of
              Inl e \<Rightarrow> Inl e
            | Inr body \<Rightarrow> Inr (Inr body)))"

definition caught :: "http_env \<Rightarrow> string \<Rightarrow> exn \<Rightarrow> fed_error" where
  "caught E url cause =
     (if he_aborted_later E \<or> cause = AbortError then
        mk_err ''ERR_TIMEOUT'' (''Request aborted or timed out: '' @ url)
      else network_error
        (case cause of RangeError _ \<Rightarrow> ''Response too large from '' @ url
         | OtherError m \<Rightarrow> m
         | _ \<Rightarrow> ''Network error fetching '' @ url))"

definition performFetch ::
  "http_env \<Rightarrow> string \<Rightarrow> fetch_options \<Rightarrow> http_request list \<times> (fed_error, string) result" where
  "performFetch E url opts =
     (case validateFetchUrl (he_parse_url E) url opts of
        Inl e \<Rightarrow> ([], Inl e)
      | Inr _ \<Rightarrow>
          if he_aborted E then ([], Inl (caught E url AbortError))
          else (let request = request_for url opts in
                ([request],
                 case he_client E request of
                   FetchThrows e \<Rightarrow> Inl (caught E url e)
                 | FetchReplies r \<Rightarrow>
                     (case handle_response E url opts r of
                        Inl e \<Rightarrow> Inl (caught E url e)
                      | Inr result \<Rightarrow> result))))"

section \<open>Properties of a fetch\<close>

lemma validateFetchUrl_ok_iff:
  "validateFetchUrl parse_url url opts = Inr u \<longleftrightarrow>
     length url \<le> 2048 \<and> parse_url url = Some u \<and> url_protocol u = ''https:'' \<and>
     url_username u = [] \<and> url_password u = [] \<and>
     (\<forall>hosts. fo_allowedHosts opts = Some hosts \<longrightarrow> url_hostname u \<in> set hosts) \<and>
     \<not> isSpecialUseIP (url_hostname u) \<and>
     (\<forall>cidrs. fo_blockedCIDRs opts = Some cidrs \<longrightarrow> \<not> isBlockedCIDR (url_hostname u) cidrs)"
  by (auto simp: validateFetchUrl_def split: option.splits if_splits)

lemma entityId_iff: "(\<exists>v. entityId parse_url value = Inr v) \<longleftrightarrow> isValidEntityId parse_url value"
  by (auto simp: entityId_def isValidEntityId_def split: option.splits)

text \<open>The characters of the address texts.\<close>

lemma set_split_on: "set s \<subseteq> insert c (\<Union> (set ` set (split_on c s)))"
  by (induction s) (auto split: list.splits, blast)

lemma denotes_ipv4_chars: "denotes_ipv4 s a \<Longrightarrow> x \<in> set s \<Longrightarrow> is_digit_char x \<or> x = CHR ''.''"
  using set_split_on [of s "CHR ''.''"] by (fastforce simp: denotes_ipv4_def Let_def list_all_iff)

lemma denotes_ipv4_plain:
  assumes "denotes_ipv4 s a"
  shows "CHR '':'' \<notin> set s" and "\<not> starts_with s ''[''"
proof -
  have "\<not> is_digit_char (CHR ''['')" by (simp add: is_digit_char_def code_unit_def)
  then have n: "CHR ''['' \<notin> set s" using denotes_ipv4_chars [OF assms, of "CHR ''[''"] by auto
  show "CHR '':'' \<notin> set s" using denotes_ipv4_chars [OF assms, of "CHR '':''"] not_digit_sep(3) by auto
  show "\<not> starts_with s ''[''"
    using n by (cases s) (auto simp: starts_with_def)
qed

lemma isSpecialUseIP_ipv4: "denotes_ipv4 s a \<Longrightarrow> isSpecialUseIP s \<longleftrightarrow> list_ex (in_block 32 a) iana_ipv4_blocks"
proof -
  assume d: "denotes_ipv4 s a"
  then have "isSpecialUseIP s = isSpecialUseIPv4 s" using denotes_ipv4_plain [of s a] by (simp add: isSpecialUseIP_def)
  also have "\<dots> \<longleftrightarrow> list_ex (in_block 32 a) iana_ipv4_blocks"
    using isSpecialUseIPv4_iff [of s] denotes_ipv4_unique [OF d] d by metis
  finally show ?thesis .
qed

lemma isSpecialUseIP_bracketed: "isSpecialUseIP (''['' @ s @ '']'') = isSpecialUseIPv6 s"
  by (auto simp: isSpecialUseIP_def starts_with_def ends_with_iff butlast_append)

lemma read_loop_Inr_iff:
  "read_loop maxBytes chunks fin received acc = Inr bytes \<longleftrightarrow>
     list_all (\<lambda>(before, _, after). \<not> before \<and> \<not> after) chunks \<and> fin = (False, None, False) \<and>
     bytes = acc @ concat (map (\<lambda>(_, b, _). b) chunks) \<and>
     (chunks = [] \<or> received + int (length (concat (map (\<lambda>(_, b, _). b) chunks))) \<le> maxBytes)"
proof (induction maxBytes chunks fin received acc rule: read_loop.induct)
  case (2 maxBytes before b after chunks fin received acc)
  show ?case
  proof (cases "before \<or> after \<or> maxBytes < received + int (length b)")
    case True
    then show ?thesis by auto
  next
    case False
    then show ?thesis using 2 by (cases chunks) (auto simp: algebra_simps)
  qed
qed (auto split: option.splits)

text \<open>The whole content of a stream, and that no read of it failed or was aborted.\<close>

definition stream_content :: "body_stream \<Rightarrow> byte list" where
  "stream_content s = concat (map (\<lambda>(_, b, _). b) (bs_chunks s))"

definition uninterrupted :: "body_stream \<Rightarrow> bool" where
  "uninterrupted s \<longleftrightarrow>
     list_all (\<lambda>(before, _, after). \<not> before \<and> \<not> after) (bs_chunks s) \<and> bs_end s = (False, None, False)"

text \<open>
  Reading a response never delivers more than the limit and never a part of the body. A response that has a
  body is read successfully if and only if its declared length does not exceed the limit, the stream is neither
  aborted nor broken off, and the bytes that arrive, however they are cut into chunks, are within the limit (a
  stream without any chunk is read as empty); the result is then the decoding of all of them.
\<close>

lemma response_body_complete_and_bounded:
  assumes "resp_body r = Some s"
  shows "readResponseBody decode r maxBytes = Inr text \<longleftrightarrow>
    \<not> declared_too_large (resp_contentLength r) maxBytes \<and> uninterrupted s \<and>
    (bs_chunks s = [] \<or> int (length (stream_content s)) \<le> maxBytes) \<and> text = decode (stream_content s)"
proof -
  have "readResponseBody decode r maxBytes = Inr text \<longleftrightarrow>
      \<not> declared_too_large (resp_contentLength r) maxBytes \<and>
      (\<exists>bytes. read_loop maxBytes (bs_chunks s) (bs_end s) 0 [] = Inr bytes \<and> text = decode bytes)"
    using assms by (auto simp: readResponseBody_def split: sum.splits)
  then show ?thesis
    unfolding read_loop_Inr_iff uninterrupted_def stream_content_def append_Nil add_0 by blast
qed

definition example_stream :: body_stream where
  "example_stream = \<lparr>bs_chunks = [(False, [1, 2], False), (False, [3], False)], bs_end = (False, None, False)\<rparr>"

definition example_response :: response where
  "example_response = \<lparr>resp_status = 200, resp_contentType = Some '' application/entity-statement+jwt'',
     resp_contentLength = Some ''3'', resp_body = Some example_stream\<rparr>"

lemma response_body_complete_and_bounded_witness:
  "readResponseBody (map (\<lambda>b. if b = 1 then CHR ''x'' else CHR ''y'')) example_response 3 = Inr ''xyy'' \<and>
   readResponseBody (map (\<lambda>b. if b = 1 then CHR ''x'' else CHR ''y'')) example_response 2 \<noteq> Inr ''xyy''"
proof -
  have b: "resp_body example_response = Some example_stream" by (simp add: example_response_def)
  have p: "parseInt 10 ''3'' = Some 3"
    by (simp add: parseInt_def Let_def js_space_def code_unit_def starts_with_def digit_value_def numeral_value_def)
  have d: "\<not> declared_too_large (resp_contentLength example_response) 3"
    "declared_too_large (resp_contentLength example_response) 2"
    by (simp_all add: declared_too_large_def example_response_def p)
  have s: "uninterrupted example_stream" "stream_content example_stream = [1, 2, 3]"
    by (simp_all add: uninterrupted_def stream_content_def example_stream_def)
  show ?thesis
    unfolding response_body_complete_and_bounded [OF b] using d s by simp
qed

text \<open>A host text as a URL carries it: a dotted quad, or an IPv6 text in brackets. \<open>special_host\<close> says that it
  is the address of a special-use block, \<open>host_in\<close> that it is an IPv4 address of one of the given blocks.\<close>

definition special_host :: "string \<Rightarrow> bool" where
  "special_host h \<longleftrightarrow>
     (\<exists>a. denotes_ipv4 h a \<and> list_ex (in_block 32 a) iana_ipv4_blocks) \<or>
     (\<exists>t gs. h = ''['' @ t @ '']'' \<and> denotes_ipv6 t gs \<and> list_ex (in_block 128 (base_value 65536 gs)) iana_ipv6_blocks)"

definition host_in :: "(nat \<times> nat) list \<Rightarrow> string \<Rightarrow> bool" where
  "host_in blocks h \<longleftrightarrow> (\<exists>a. denotes_ipv4 h a \<and> list_ex (in_block 32 a) blocks)"

lemma special_host_refused: "special_host h \<Longrightarrow> isSpecialUseIP h"
  unfolding special_host_def using isSpecialUseIP_ipv4 isSpecialUseIP_bracketed isSpecialUseIPv6_iff by metis

text \<open>A target a request may go to.\<close>

definition safe_target :: "(string \<Rightarrow> url option) \<Rightarrow> fetch_options \<Rightarrow> string \<Rightarrow> bool" where
  "safe_target parse_url opts url \<longleftrightarrow>
     (\<exists>u. parse_url url = Some u \<and> url_protocol u = ''https:'' \<and> url_username u = [] \<and> url_password u = [] \<and>
          \<not> special_host (url_hostname u) \<and>
          (case fo_allowedHosts opts of None \<Rightarrow> True | Some hosts \<Rightarrow> url_hostname u \<in> set hosts) \<and>
          (\<forall>cidrs base len. fo_blockedCIDRs opts = Some cidrs \<and> show_cidr (base, len) \<in> set cidrs \<and>
              base < 2 ^ 32 \<and> len \<le> 32 \<longrightarrow> \<not> host_in [(base, len)] (url_hostname u)))"

lemma validated_is_safe:
  assumes "validateFetchUrl parse_url url opts = Inr u"
  shows "safe_target parse_url opts url"
proof -
  note v = assms [unfolded validateFetchUrl_ok_iff]
  have "\<not> host_in [(base, len)] (url_hostname u)"
    if "fo_blockedCIDRs opts = Some cidrs" "show_cidr (base, len) \<in> set cidrs" "base < 2 ^ 32" "len \<le> 32"
    for cidrs base len
    using v that(1) isBlockedCIDR_entry [OF that(2-4), of "url_hostname u"] by (auto simp: host_in_def)
  moreover have "\<not> special_host (url_hostname u)" using v special_host_refused by blast
  ultimately show ?thesis
    unfolding safe_target_def using v by (intro exI [of _ u]) (simp split: option.split)
qed

lemma performFetch_requests:
  assumes "performFetch E url opts = (requests, result)"
  shows "length requests \<le> 1" and "q \<in> set requests \<Longrightarrow> q = request_for url opts \<and> safe_target (he_parse_url E) opts url"
  using assms validated_is_safe [of "he_parse_url E" url opts]
  by (auto simp: performFetch_def Let_def split: sum.splits if_splits)

lemma performFetch_ok_iff:
  "(\<exists>requests. performFetch E url opts = (requests, Inr body)) \<longleftrightarrow>
     (\<exists>u r. validateFetchUrl (he_parse_url E) url opts = Inr u \<and> \<not> he_aborted E \<and>
          he_client E (request_for url opts) = FetchReplies r \<and> handle_response E url opts r = Inr (Inr body))"
  by (auto simp: performFetch_def Let_def split: sum.splits fetch_outcome.splits)

lemma handle_response_ok_iff:
  "handle_response E url opts r = Inr (Inr body) \<longleftrightarrow>
     resp_ok r \<and> (case fo_expectedStatus opts of None \<Rightarrow> True | Some s \<Rightarrow> resp_status r = s) \<and>
     (case expected_type opts of None \<Rightarrow> True | Some t \<Rightarrow> matchesContentType opts (resp_contentType r) t) \<and>
     resp_body r \<noteq> None \<and> readResponseBody (he_decode E) r (max_bytes opts) = Inr body"
  by (auto simp: handle_response_def split: sum.splits option.splits if_splits)

lemma fetch_guarded_parts:
  assumes "performFetch E url opts = (requests, result)"
  shows "requests = [] \<or> requests = [request_for url opts] \<and> safe_target (he_parse_url E) opts url"
    and "result = Inr body \<Longrightarrow>
      \<exists>r. requests = [request_for url opts] \<and> he_client E (request_for url opts) = FetchReplies r \<and> resp_ok r \<and>
          (case expected_type opts of None \<Rightarrow> True | Some t \<Rightarrow> matchesContentType opts (resp_contentType r) t) \<and>
          readResponseBody (he_decode E) r (max_bytes opts) = Inr body"
proof -
  show "requests = [] \<or> requests = [request_for url opts] \<and> safe_target (he_parse_url E) opts url"
    using performFetch_requests [OF assms] by (cases requests) auto
  assume "result = Inr body"
  with assms have p: "performFetch E url opts = (requests, Inr body)" by simp
  then obtain u r where v: "validateFetchUrl (he_parse_url E) url opts = Inr u" "\<not> he_aborted E"
      "he_client E (request_for url opts) = FetchReplies r" and h: "handle_response E url opts r = Inr (Inr body)"
    using performFetch_ok_iff by metis
  have "requests = [request_for url opts]" using p v by (simp add: performFetch_def Let_def)
  with v h show "\<exists>r. requests = [request_for url opts] \<and> he_client E (request_for url opts) = FetchReplies r \<and>
      resp_ok r \<and> (case expected_type opts of None \<Rightarrow> True | Some t \<Rightarrow> matchesContentType opts (resp_contentType r) t) \<and>
      readResponseBody (he_decode E) r (max_bytes opts) = Inr body"
    unfolding handle_response_ok_iff by blast
qed

text \<open>
  C9: \<open>performFetch\<close> hands the transport no URL of a special-use or blocked address. It makes at most one request,
  the one for its URL and options, and only when the URL parses as \<open>https\<close> without credentials, its host is on
  the list of allowed hosts if there is one, is not a special-use address in any of its text forms (a dotted quad,
  or an IPv6 text in brackets, with or without \<open>::\<close> and a dotted tail), and is an IPv4 address in none of the ranges
  \<open>a.b.c.d/n\<close> among the caller's blocked entries, whatever the other entries are. A body is returned only from a
  reply to such a request with a success status, the expected media type and a complete body within the limit.
  What the transport does with the request is outside: it resolves names, and it follows redirects unless the
  caller chose a redirect policy, which the request carries (\<open>rq_redirect\<close>); the URLs it is redirected to are not
  checked.
\<close>

theorem fetch_guarded:
  assumes "performFetch E url opts = (requests, result)"
  shows "(requests = [] \<or> requests = [request_for url opts] \<and> safe_target (he_parse_url E) opts url) \<and>
    (\<forall>body. result = Inr body \<longrightarrow>
      (\<exists>r. requests = [request_for url opts] \<and> he_client E (request_for url opts) = FetchReplies r \<and> resp_ok r \<and>
          (case expected_type opts of None \<Rightarrow> True | Some t \<Rightarrow> matchesContentType opts (resp_contentType r) t) \<and>
          readResponseBody (he_decode E) r (max_bytes opts) = Inr body))"
  using fetch_guarded_parts [OF assms] by blast

definition example_url :: "string \<Rightarrow> url" where
  "example_url host = \<lparr>url_protocol = ''https:'', url_username = [], url_password = [], url_hostname = host,
     url_search = [], url_hash = []\<rparr>"

definition example_http :: http_env where
  "example_http = \<lparr>he_parse_url = (\<lambda>u. Some (example_url (if u = ''https://b'' then ''[::1]'' else ''a''))),
     he_parse_json = (\<lambda>_. None), he_decode = map (\<lambda>b. if b = 1 then CHR ''x'' else CHR ''y''), he_aborted = False,
     he_client = (\<lambda>_. FetchReplies example_response), he_aborted_later = False\<rparr>"

lemma example_read: "readResponseBody (he_decode example_http) example_response (max_bytes no_fetch_options) = Inr ''xyy''"
proof -
  have "parseInt 10 ''3'' = Some 3"
    by (simp add: parseInt_def Let_def js_space_def code_unit_def starts_with_def digit_value_def numeral_value_def)
  then show ?thesis
    by (simp add: readResponseBody_def example_response_def declared_too_large_def example_stream_def example_http_def
        max_bytes_def no_fetch_options_def DEFAULT_MAX_RESPONSE_BYTES_def)
qed

lemma example_validate:
  assumes "length u \<le> 2048" and "u \<noteq> ''https://b''"
  shows "validateFetchUrl (he_parse_url example_http) u no_fetch_options = Inr (example_url ''a'')"
proof -
  have "\<not> isSpecialUseIP ''a''"
    by (simp add: isSpecialUseIP_def starts_with_def isSpecialUseIPv4_def ipv4ToInt_def code_unit_def)
  then show ?thesis
    unfolding validateFetchUrl_ok_iff using assms by (simp add: example_http_def no_fetch_options_def example_url_def)
qed

lemma example_fetch:
  assumes "length u \<le> 2048" and "u \<noteq> ''https://b''"
  shows "performFetch example_http u no_fetch_options = ([request_for u no_fetch_options], Inr ''xyy'')"
proof -
  have "validateFetchUrl (he_parse_url example_http) u no_fetch_options = Inr (example_url ''a'')"
    using assms by (rule example_validate)
  moreover have "handle_response example_http u no_fetch_options example_response = Inr (Inr ''xyy'')"
  proof -
    have "trim ''application/entity-statement+jwt'' = ''application/entity-statement+jwt''"
      "trim '' application/entity-statement+jwt'' = ''application/entity-statement+jwt''"
      by (simp_all add: trim_def js_space_def code_unit_def)
    then have "matchesContentType no_fetch_options (resp_contentType example_response) ''application/entity-statement+jwt''"
      by (simp add: matchesContentType_def no_fetch_options_def isExactContentType_def parseContentTypeHeader_def
          example_response_def)
    then show ?thesis
      unfolding handle_response_ok_iff using example_read
      by (simp add: expected_type_def accept_of_def no_fetch_options_def resp_ok_def example_response_def)
  qed
  ultimately show ?thesis by (simp add: performFetch_def Let_def example_http_def)
qed

theorem fetch_guarded_witness:
  "safe_target (he_parse_url example_http) no_fetch_options ''https://a'' \<and>
   (\<exists>r. he_client example_http (request_for ''https://a'' no_fetch_options) = FetchReplies r \<and> resp_ok r \<and>
        readResponseBody (he_decode example_http) r (max_bytes no_fetch_options) = Inr ''xyy'')"
proof -
  have p: "performFetch example_http ''https://a'' no_fetch_options = ([request_for ''https://a'' no_fetch_options], Inr ''xyy'')"
    by (rule example_fetch) simp_all
  show ?thesis using fetch_guarded [OF p] by blast
qed

text \<open>The bodies that are read: of a reply that passed the status and media type checks, and of a JSON error reply
  when federation errors are asked for. \<open>raised\<close> is an exception thrown inside the \<open>try\<close>, \<open>sent_code\<close> the error
  code a federation error reply carries.\<close>

definition body_read :: "fetch_options \<Rightarrow> response \<Rightarrow> bool" where
  "body_read opts r \<longleftrightarrow>
     (if resp_ok r \<and> (case fo_expectedStatus opts of None \<Rightarrow> True | Some s \<Rightarrow> resp_status r = s)
      then (case expected_type opts of None \<Rightarrow> True | Some t \<Rightarrow> matchesContentType opts (resp_contentType r) t) \<and>
           resp_body r \<noteq> None
      else fo_federationErrors opts \<and> \<not> resp_ok r \<and> matchesContentType opts (resp_contentType r) ''application/json'')"

definition raised :: "http_env \<Rightarrow> string \<Rightarrow> fetch_options \<Rightarrow> exn \<Rightarrow> bool" where
  "raised E url opts x \<longleftrightarrow>
     (if he_aborted E then x = AbortError
      else (case he_client E (request_for url opts) of
              FetchThrows y \<Rightarrow> x = y
            | FetchReplies r \<Rightarrow> body_read opts r \<and> readResponseBody (he_decode E) r (max_bytes opts) = Inl x))"

definition sent_code :: "http_env \<Rightarrow> string \<Rightarrow> fetch_options \<Rightarrow> string \<Rightarrow> bool" where
  "sent_code E url opts c \<longleftrightarrow> \<not> he_aborted E \<and> fo_federationErrors opts \<and> c \<in> set FederationErrorCodes \<and>
     (\<exists>r body parsed. he_client E (request_for url opts) = FetchReplies r \<and> \<not> resp_ok r \<and>
        matchesContentType opts (resp_contentType r) ''application/json'' \<and>
        readResponseBody (he_decode E) r (max_bytes opts) = Inr body \<and>
        he_parse_json E body = Some parsed \<and> mget parsed ''error'' = JStr c)"

lemma code_http: "code (network_error d) = ''ERR_NETWORK''" "code (http_failure url r) = ''ERR_NETWORK''"
  by (simp_all add: network_error_def http_failure_def)

lemma code_caught: "code (caught E url x) = (if he_aborted_later E \<or> x = AbortError then ''ERR_TIMEOUT'' else ''ERR_NETWORK'')"
  by (simp add: caught_def code_http)

lemma code_federation_error:
  "code (federation_error_of parse_json body url r) =
     (case parse_json body of
        None \<Rightarrow> ''ERR_NETWORK''
      | Some parsed \<Rightarrow>
          (case mget parsed ''error'' of
             JStr c \<Rightarrow> if c \<in> set FederationErrorCodes then c else ''ERR_NETWORK'' | _ \<Rightarrow> ''ERR_NETWORK''))"
  by (simp add: federation_error_of_def code_http split: option.split jsval.split)

lemma handle_response_raises:
  "handle_response E url opts r = Inl x \<longleftrightarrow> body_read opts r \<and> readResponseBody (he_decode E) r (max_bytes opts) = Inl x"
  by (auto simp: handle_response_def body_read_def split: sum.splits option.splits if_splits)

lemma handle_response_code:
  assumes "handle_response E url opts r = Inr (Inl e)"
  shows "code e = ''ERR_NETWORK'' \<and>
      \<not> (\<exists>c. c \<in> set FederationErrorCodes \<and> fo_federationErrors opts \<and> \<not> resp_ok r \<and>
        matchesContentType opts (resp_contentType r) ''application/json'' \<and>
        (\<exists>body parsed. readResponseBody (he_decode E) r (max_bytes opts) = Inr body \<and>
          he_parse_json E body = Some parsed \<and> mget parsed ''error'' = JStr c)) \<or>
    code e \<in> set FederationErrorCodes \<and> fo_federationErrors opts \<and> \<not> resp_ok r \<and>
      matchesContentType opts (resp_contentType r) ''application/json'' \<and>
      (\<exists>body parsed. readResponseBody (he_decode E) r (max_bytes opts) = Inr body \<and>
        he_parse_json E body = Some parsed \<and> mget parsed ''error'' = JStr (code e))"
proof (cases "fo_federationErrors opts \<and> \<not> resp_ok r \<and> matchesContentType opts (resp_contentType r) ''application/json''")
  case True
  with assms obtain body where b: "readResponseBody (he_decode E) r (max_bytes opts) = Inr body"
    and e: "e = federation_error_of (he_parse_json E) body url r"
    by (auto simp: handle_response_def split: sum.splits)
  show ?thesis
    using True b code_federation_error [of "he_parse_json E" body url r, folded e]
    by (cases "he_parse_json E body") (auto split: jsval.splits if_splits)
next
  case False
  with assms have "code e = ''ERR_NETWORK''"
    by (auto simp: handle_response_def code_http split: sum.splits if_splits)
  with False show ?thesis by blast
qed

lemma code_names: "''ERR_NETWORK'' \<notin> set FederationErrorCodes" "''ERR_TIMEOUT'' \<notin> set FederationErrorCodes"
  by code_simp+

text \<open>
  C40: The code of a failed fetch tells what happened. For a URL that is refused it is the network code, and
  nothing is sent. Otherwise it is the timeout code exactly when an exception was thrown (the signal was aborted
  before sending, the client threw, or reading the body failed) and it was an abort or the signal was aborted by
  then; it is a federation error code exactly when the caller asked for federation errors and the server replied
  with an error status, the JSON media type and a JSON body whose \<open>error\<close> is one of these codes, and then it is the
  one sent; and it is the network code in all other cases.
\<close>

theorem fetch_error_codes:
  assumes "performFetch E url opts = (requests, Inl e)"
  shows "(if \<exists>u. validateFetchUrl (he_parse_url E) url opts = Inr u then
       (code e = ''ERR_TIMEOUT'' \<longleftrightarrow> (\<exists>x. raised E url opts x \<and> (x = AbortError \<or> he_aborted_later E))) \<and>
       (\<forall>c. sent_code E url opts c \<longleftrightarrow> c \<in> set FederationErrorCodes \<and> code e = c) \<and>
       code e \<in> {''ERR_TIMEOUT'', ''ERR_NETWORK''} \<union> set FederationErrorCodes
     else requests = [] \<and> code e = ''ERR_NETWORK'')"
proof (cases "validateFetchUrl (he_parse_url E) url opts")
  case (Inl e')
  then have "code e' = ''ERR_NETWORK''"
    by (auto simp: validateFetchUrl_def network_error_def split: option.splits if_splits)
  with Inl assms show ?thesis by (simp add: performFetch_def)
next
  case (Inr u)
  note names = code_names
  have thrown: ?thesis if "raised E url opts x" "\<And>y. raised E url opts y \<Longrightarrow> y = x" "e = caught E url x"
      "\<And>c. \<not> sent_code E url opts c" for x
  proof -
    have valid: "\<exists>u. validateFetchUrl (he_parse_url E) url opts = Inr u" using Inr by blast
    have c: "code e = (if he_aborted_later E \<or> x = AbortError then ''ERR_TIMEOUT'' else ''ERR_NETWORK'')"
      unfolding that(3) by (rule code_caught)
    have t: "code e = ''ERR_TIMEOUT'' \<longleftrightarrow> (\<exists>y. raised E url opts y \<and> (y = AbortError \<or> he_aborted_later E))"
    proof -
      have r: "raised E url opts y \<longleftrightarrow> y = x" for y using that(1,2) by blast
      show ?thesis unfolding r c by auto
    qed
    have "code e \<notin> set FederationErrorCodes" unfolding c using names by (cases "he_aborted_later E \<or> x = AbortError") simp_all
    then have "\<forall>k. sent_code E url opts k \<longleftrightarrow> k \<in> set FederationErrorCodes \<and> code e = k" using that(4) by blast
    moreover have "code e \<in> {''ERR_TIMEOUT'', ''ERR_NETWORK''} \<union> set FederationErrorCodes" unfolding c by simp
    ultimately show ?thesis using valid t by simp
  qed
  show ?thesis
  proof (cases "he_aborted E")
    case True
    with Inr assms show ?thesis
      by (intro thrown [of AbortError]) (auto simp: raised_def sent_code_def performFetch_def)
  next
    case False
    show ?thesis
    proof (cases "he_client E (request_for url opts)")
      case (FetchThrows x)
      with Inr False assms show ?thesis
        by (intro thrown [of x]) (auto simp: raised_def sent_code_def performFetch_def Let_def)
    next
      case (FetchReplies r)
      show ?thesis
      proof (cases "handle_response E url opts r")
        case (Inl x)
        with Inr False FetchReplies assms show ?thesis
          by (intro thrown [of x]) (auto simp: raised_def sent_code_def performFetch_def Let_def handle_response_raises)
      next
        case (Inr res)
        then have h: "handle_response E url opts r = Inr (Inl e)"
          using assms False FetchReplies \<open>validateFetchUrl _ _ _ = _\<close> by (simp add: performFetch_def Let_def)
        have no: "\<not> raised E url opts x" for x
          using h False FetchReplies handle_response_raises [of E url opts r x] by (simp add: raised_def)
        have sent: "sent_code E url opts c \<longleftrightarrow> c \<in> set FederationErrorCodes \<and> fo_federationErrors opts \<and> \<not> resp_ok r \<and>
            matchesContentType opts (resp_contentType r) ''application/json'' \<and>
            (\<exists>body parsed. readResponseBody (he_decode E) r (max_bytes opts) = Inr body \<and>
              he_parse_json E body = Some parsed \<and> mget parsed ''error'' = JStr c)" for c
          using False FetchReplies by (auto simp: sent_code_def)
        have valid: "\<exists>u. validateFetchUrl (he_parse_url E) url opts = Inr u" using \<open>validateFetchUrl _ _ _ = _\<close> by blast
        consider "code e = ''ERR_NETWORK''" "\<And>c. \<not> sent_code E url opts c"
          | "code e \<in> set FederationErrorCodes" "sent_code E url opts (code e)" "\<And>c. sent_code E url opts c \<Longrightarrow> c = code e"
          using handle_response_code [OF h] unfolding sent by fastforce
        then show ?thesis
        proof cases
          case 1
          then have "\<forall>c. sent_code E url opts c \<longleftrightarrow> c \<in> set FederationErrorCodes \<and> code e = c"
            using names(1) by metis
          with 1(1) no valid show ?thesis by simp
        next
          case 2
          then have "code e \<noteq> ''ERR_TIMEOUT''" using names by metis
          moreover have "\<forall>c. sent_code E url opts c \<longleftrightarrow> c \<in> set FederationErrorCodes \<and> code e = c"
            using 2 by metis
          ultimately show ?thesis using 2(1) no valid by simp
        qed
      qed
    qed
  qed
qed

theorem fetch_error_codes_witness:
  "\<exists>e. performFetch (example_http\<lparr>he_client := (\<lambda>_. FetchThrows AbortError)\<rparr>) ''https://a'' no_fetch_options =
       ([request_for ''https://a'' no_fetch_options], Inl e) \<and> code e = ''ERR_TIMEOUT''"
proof -
  let ?E = "example_http\<lparr>he_client := (\<lambda>_. FetchThrows AbortError)\<rparr>"
  have v: "validateFetchUrl (he_parse_url ?E) ''https://a'' no_fetch_options = Inr (example_url ''a'')"
    using example_validate [of "''https://a''"] by simp
  have p: "performFetch ?E ''https://a'' no_fetch_options =
      ([request_for ''https://a'' no_fetch_options], Inl (caught ?E ''https://a'' AbortError))"
    using v by (simp add: performFetch_def Let_def) (simp add: example_http_def)
  have "raised ?E ''https://a'' no_fetch_options AbortError"
    by (simp add: raised_def example_http_def)
  with fetch_error_codes [OF p] v have "code (caught ?E ''https://a'' AbortError) = ''ERR_TIMEOUT''" by auto
  with p show ?thesis by blast
qed

end
