(* ===== verification/Memory_Cache.thy ===== *)
theory Memory_Cache
  imports Prelude
begin

text \<open>
  packages/core/src/cache/index.ts: the cache of fetched statements. \<open>cache_provider\<close> is the interface
  \<open>CacheProvider\<close> of types.ts as a locale, with what a client may rely on; the in-memory cache, a \<open>Map\<close> in
  insertion order whose first entry is the next one to be evicted, interprets it. An operation runs at the time
  its clock gives. The hash function of the keys is a parameter.
\<close>

section \<open>The in-memory cache\<close>

record 'v cache_entry =
  ce_value :: 'v
  ce_expiresAt :: number

record 'v memory_cache =
  mc_store :: "'v cache_entry dict"
  mc_maxEntries :: int

definition MemoryCache :: "int option \<Rightarrow> 'v memory_cache" where
  "MemoryCache maxEntries = \<lparr>mc_store = [], mc_maxEntries = (case maxEntries of Some n \<Rightarrow> n | None \<Rightarrow> 1000)\<rparr>"

definition cache_get :: "number \<Rightarrow> string \<Rightarrow> 'v memory_cache \<Rightarrow> 'v option \<times> 'v memory_cache" where
  "cache_get now key c =
     (case map_of (mc_store c) key of
        None \<Rightarrow> (None, c)
      | Some entry \<Rightarrow>
          if ce_expiresAt entry \<le> now then (None, c\<lparr>mc_store := AList.delete key (mc_store c)\<rparr>)
          else (Some (ce_value entry),
                c\<lparr>mc_store := AList.update key entry (AList.delete key (mc_store c))\<rparr>))"

text \<open>The eviction of \<open>set\<close>: the first key of the map, when there is one.\<close>

definition evict :: "string \<Rightarrow> 'v memory_cache \<Rightarrow> 'v cache_entry dict" where
  "evict key c =
     (if mc_maxEntries c \<le> int (length (mc_store c)) \<and> key \<notin> fst ` set (mc_store c) then
        (case mc_store c of [] \<Rightarrow> [] | (firstKey, _) # _ \<Rightarrow> AList.delete firstKey (mc_store c))
      else mc_store c)"

definition cache_set :: "number \<Rightarrow> string \<Rightarrow> 'v \<Rightarrow> number \<Rightarrow> 'v memory_cache \<Rightarrow> 'v memory_cache" where
  "cache_set now key v ttlSeconds c =
     c\<lparr>mc_store := AList.update key \<lparr>ce_value = v, ce_expiresAt = now + ttlSeconds\<rparr> (evict key c)\<rparr>"

definition cache_delete :: "string \<Rightarrow> 'v memory_cache \<Rightarrow> 'v memory_cache" where
  "cache_delete key c = c\<lparr>mc_store := AList.delete key (mc_store c)\<rparr>"

definition cache_clear :: "'v memory_cache \<Rightarrow> 'v memory_cache" where
  "cache_clear c = c\<lparr>mc_store := []\<rparr>"

definition asyncDispose :: "'v memory_cache \<Rightarrow> 'v memory_cache" where
  "asyncDispose c = cache_clear c"

section \<open>Keys\<close>

text \<open>\<open>digest\<close> is SHA-256 over the encoded text, as bytes; a byte prints as two hexadecimal digits.\<close>

definition nibble_char :: "nat \<Rightarrow> char" where
  "nibble_char n = (if n < 10 then char_of (48 + n) else char_of (87 + n))"

definition byte_hex :: "nat \<Rightarrow> string" where
  "byte_hex b = [nibble_char (b div 16), nibble_char (b mod 16)]"

definition sha256Hex :: "(string \<Rightarrow> nat list) \<Rightarrow> string \<Rightarrow> string" where
  "sha256Hex digest input = concat (map byte_hex (digest input))"

definition ecCacheKey :: "(string \<Rightarrow> nat list) \<Rightarrow> string \<Rightarrow> string" where
  "ecCacheKey digest entityId = ''ec:'' @ take 32 (sha256Hex digest entityId)"

definition esCacheKey :: "(string \<Rightarrow> nat list) \<Rightarrow> string \<Rightarrow> string \<Rightarrow> string" where
  "esCacheKey digest issuer subject = ''es:'' @ take 32 (sha256Hex digest (issuer @ '':'' @ subject))"

definition chainCacheKey :: "(string \<Rightarrow> nat list) \<Rightarrow> string \<Rightarrow> string \<Rightarrow> string" where
  "chainCacheKey digest entityId trustAnchorId =
     ''chain:'' @ take 32 (sha256Hex digest (entityId @ '':'' @ trustAnchorId))"

section \<open>The interface\<close>

text \<open>A provider may forget entries at any time, but what it returns for a key was stored under that key, has not
  been overwritten or deleted since, and has not expired. \<open>stored s k v t\<close> says that state \<open>s\<close> may
  return \<open>v\<close> for \<open>k\<close> before time \<open>t\<close>.\<close>

locale cache_provider =
  fixes get :: "number \<Rightarrow> string \<Rightarrow> 's \<Rightarrow> 'v option \<times> 's"
    and set :: "number \<Rightarrow> string \<Rightarrow> 'v \<Rightarrow> number \<Rightarrow> 's \<Rightarrow> 's"
    and del :: "string \<Rightarrow> 's \<Rightarrow> 's"
    and stored :: "'s \<Rightarrow> string \<Rightarrow> 'v \<Rightarrow> number \<Rightarrow> bool"
  assumes get_stored: "get now k s = (Some v, s') \<Longrightarrow> \<exists>t. stored s k v t \<and> now < t"
    and get_keeps: "get now k s = (r, s') \<Longrightarrow> stored s' k' v t \<Longrightarrow> stored s k' v t"
    and set_keeps: "stored (set now k w ttl s) k' v t \<Longrightarrow> if k' = k then v = w \<and> t = now + ttl else stored s k' v t"
    and del_keeps: "stored (del k s) k' v t \<Longrightarrow> k' \<noteq> k \<and> stored s k' v t"
begin

text \<open>Every entry satisfies \<open>P\<close>.\<close>

definition all_stored :: "(string \<Rightarrow> 'v \<Rightarrow> number \<Rightarrow> bool) \<Rightarrow> 's \<Rightarrow> bool" where
  "all_stored P s \<longleftrightarrow> (\<forall>k v t. stored s k v t \<longrightarrow> P k v t)"

lemma all_stored_get: "all_stored P s \<Longrightarrow> get now k s = (r, s') \<Longrightarrow> all_stored P s'"
  unfolding all_stored_def using get_keeps by metis

lemma all_stored_hit: "all_stored P s \<Longrightarrow> get now k s = (Some v, s') \<Longrightarrow> \<exists>t. P k v t \<and> now < t"
  unfolding all_stored_def using get_stored by metis

lemma all_stored_set: "all_stored P s \<Longrightarrow> P k v (now + ttl) \<Longrightarrow> all_stored P (set now k v ttl s)"
  unfolding all_stored_def using set_keeps by metis

lemma all_stored_del: "all_stored P s \<Longrightarrow> all_stored P (del k s)"
  unfolding all_stored_def using del_keeps by metis

lemma all_stored_mono: "all_stored P s \<Longrightarrow> (\<And>k v t. P k v t \<Longrightarrow> Q k v t) \<Longrightarrow> all_stored Q s"
  unfolding all_stored_def by blast

text \<open>Nothing is returned beyond the lifetime the last writer asked for, nor for a deleted key.\<close>

lemma lifetime:
  assumes "get now' k (set now k w ttl s) = (Some v, s')"
  shows "v = w" and "now' < now + ttl"
  using get_stored [OF assms] set_keeps [of now k w ttl s k v] by auto

lemma deleted_misses: "get now k (del k s) \<noteq> (Some v, s')"
  using get_stored [of now k "del k s" v s'] del_keeps [of k s k v] by blast

end

definition memory_stored :: "'v memory_cache \<Rightarrow> string \<Rightarrow> 'v \<Rightarrow> number \<Rightarrow> bool" where
  "memory_stored c k v t \<longleftrightarrow> map_of (mc_store c) k = Some \<lparr>ce_value = v, ce_expiresAt = t\<rparr>"

lemma map_of_evict: "map_of (evict key c) k = Some e \<Longrightarrow> map_of (mc_store c) k = Some e"
  by (auto simp: evict_def split: if_splits list.splits)

interpretation memory: cache_provider cache_get cache_set cache_delete memory_stored
proof unfold_locales
  fix now k and s s' :: "'v memory_cache" and v
  assume "cache_get now k s = (Some v, s')"
  then show "\<exists>t. memory_stored s k v t \<and> now < t"
    by (auto simp: cache_get_def memory_stored_def not_le split: option.splits if_splits intro!: cache_entry.equality)
next
  fix now k and s s' :: "'v memory_cache" and r k' v t
  assume "cache_get now k s = (r, s')" and "memory_stored s' k' v t"
  then show "memory_stored s k' v t"
    by (auto simp: cache_get_def memory_stored_def split: option.splits if_splits)
next
  fix now k and w v :: 'v and ttl s k' t
  assume "memory_stored (cache_set now k w ttl s) k' v t"
  then show "if k' = k then v = w \<and> t = now + ttl else memory_stored s k' v t"
    by (auto simp: cache_set_def memory_stored_def dest: map_of_evict)
next
  fix k and s :: "'v memory_cache" and k' v t
  assume "memory_stored (cache_delete k s) k' v t"
  then show "k' \<noteq> k \<and> memory_stored s k' v t"
    by (auto simp: cache_delete_def memory_stored_def split: if_splits)
qed

section \<open>Sequences of operations\<close>

datatype 'v cache_op =
    Get number string
  | Put number string 'v number
  | Delete string
  | Clear

fun cache_step :: "'v cache_op \<Rightarrow> 'v memory_cache \<Rightarrow> 'v memory_cache" where
  "cache_step (Get now k) c = snd (cache_get now k c)"
| "cache_step (Put now k v ttl) c = cache_set now k v ttl c"
| "cache_step (Delete k) c = cache_delete k c"
| "cache_step Clear c = cache_clear c"

definition cache_run :: "'v cache_op list \<Rightarrow> 'v memory_cache \<Rightarrow> 'v memory_cache" where
  "cache_run ops c = fold cache_step ops c"

definition cache_inv :: "'v memory_cache \<Rightarrow> bool" where
  "cache_inv c \<longleftrightarrow> distinct (map fst (mc_store c)) \<and> int (length (mc_store c)) \<le> max 1 (mc_maxEntries c)"

lemma evict_cases:
  assumes "distinct (map fst (mc_store c))"
  obtains "evict key c = mc_store c" "int (length (mc_store c)) < mc_maxEntries c \<or> mc_store c = [] \<or> key \<in> fst ` set (mc_store c)"
    | kv rest where "mc_store c = kv # rest" "evict key c = rest" "mc_maxEntries c \<le> int (length (mc_store c))"
        "key \<notin> fst ` set (mc_store c)"
proof (cases "mc_maxEntries c \<le> int (length (mc_store c)) \<and> key \<notin> fst ` set (mc_store c)")
  case False
  then have "evict key c = mc_store c" unfolding evict_def by (simp only: if_False)
  with False show thesis using that(1) by linarith
next
  case True
  show thesis
  proof (cases "mc_store c")
    case Nil
    then show thesis using that(1) by (simp add: evict_def)
  next
    case (Cons kv rest)
    have "evict key c = rest" using True Cons assms by (cases kv) (auto simp: evict_def delete_absent)
    then show thesis using that(2) [OF Cons] True by blast
  qed
qed

lemma cache_step_maxEntries [simp]: "mc_maxEntries (cache_step op c) = mc_maxEntries c"
  by (cases op) (auto simp: cache_get_def cache_set_def cache_delete_def cache_clear_def split: option.splits)

lemma cache_run_maxEntries [simp]: "mc_maxEntries (cache_run ops c) = mc_maxEntries c"
  unfolding cache_run_def by (induction ops arbitrary: c) auto

lemma cache_step_inv:
  assumes "cache_inv c"
  shows "cache_inv (cache_step op c)"
proof (cases op)
  case (Get now k)
  have "length (AList.delete k (mc_store c)) \<le> length (mc_store c)" by (rule length_delete_le)
  moreover have "length (AList.update k e (AList.delete k (mc_store c))) = length (mc_store c)"
    if "map_of (mc_store c) k = Some e" for e
  proof -
    have "k \<in> fst ` set (mc_store c)" using map_of_SomeD [OF that] by force
    then show ?thesis using assms length_delete [of "mc_store c" k] by (simp add: length_update cache_inv_def)
  qed
  ultimately show ?thesis
    using assms Get by (auto simp: cache_inv_def cache_get_def split: option.split)
next
  case (Put now k v ttl)
  have d: "distinct (map fst (mc_store c))" and l: "int (length (mc_store c)) \<le> max 1 (mc_maxEntries c)"
    using assms by (simp_all add: cache_inv_def)
  show ?thesis
  proof (rule evict_cases [OF d, of k])
    assume "evict k c = mc_store c" and "int (length (mc_store c)) < mc_maxEntries c \<or> mc_store c = [] \<or> k \<in> fst ` set (mc_store c)"
    then show ?thesis using Put d l by (auto simp: cache_inv_def cache_set_def length_update)
  next
    fix kv rest
    assume "mc_store c = kv # rest" and "evict k c = rest"
    then show ?thesis using Put d l by (auto simp: cache_inv_def cache_set_def length_update)
  qed
next
  case (Delete k)
  then show ?thesis using assms length_delete_le [of k "mc_store c"]
    by (auto simp: cache_inv_def cache_delete_def)
qed (use assms in \<open>simp_all add: cache_inv_def cache_clear_def\<close>)

lemma cache_run_inv: "cache_inv c \<Longrightarrow> cache_inv (cache_run ops c)"
  unfolding cache_run_def by (induction ops arbitrary: c) (auto simp: cache_step_inv)

lemma cache_inv_new: "cache_inv (MemoryCache m)"
  by (simp add: cache_inv_def MemoryCache_def)

section \<open>Recency\<close>

text \<open>An operation spares an entry for \<open>k\<close> that expires at \<open>t\<close> when it does not overwrite or delete it, nor
  look it up after it has expired; its other key, if it has one, is touched.\<close>

fun spares :: "string \<Rightarrow> number \<Rightarrow> 'v cache_op \<Rightarrow> bool" where
  "spares k t (Get now j) \<longleftrightarrow> (j = k \<longrightarrow> now < t)"
| "spares k t (Put now j v ttl) \<longleftrightarrow> j \<noteq> k"
| "spares k t (Delete j) \<longleftrightarrow> j \<noteq> k"
| "spares k t Clear \<longleftrightarrow> False"

fun touched :: "'v cache_op \<Rightarrow> string set" where
  "touched (Get now j) = {j}"
| "touched (Put now j v ttl) = {j}"
| "touched _ = {}"

definition other_keys :: "string \<Rightarrow> 'v cache_op list \<Rightarrow> string set" where
  "other_keys k ops = (\<Union> (touched ` set ops)) - {k}"

text \<open>The entry is in the map, and only keys of \<open>T\<close> come after it.\<close>

definition recent :: "string \<Rightarrow> 'v cache_entry \<Rightarrow> string set \<Rightarrow> 'v memory_cache \<Rightarrow> bool" where
  "recent k e T c \<longleftrightarrow> (\<exists>us vs. mc_store c = us @ (k, e) # vs \<and> fst ` set vs \<subseteq> T)"

lemma delete_append: "AList.delete j (xs @ ys) = AList.delete j xs @ AList.delete j ys"
  by (simp add: AList.delete_eq)

lemma delete_Cons_other: "j \<noteq> k \<Longrightarrow> AList.delete j ((k, e) # xs) = (k, e) # AList.delete j xs"
  by (simp add: AList.delete_eq)

lemma update_middle:
  assumes "j \<noteq> k"
  shows "\<exists>us' vs'. AList.update j w (us @ (k, e) # vs) = us' @ (k, e) # vs' \<and> fst ` set vs' \<subseteq> insert j (fst ` set vs)"
proof (cases "j \<in> fst ` set us")
  case True
  have "AList.update j w (us @ (k, e) # vs) = AList.update j w us @ (k, e) # vs"
    using True by (induction us) auto
  then show ?thesis by blast
next
  case False
  have "AList.update j w (us @ (k, e) # vs) = us @ (k, e) # AList.update j w vs"
    using False assms by (induction us) auto
  then show ?thesis by (intro exI conjI) (assumption, auto)
qed

lemma recent_delete: "recent k e T c \<Longrightarrow> j \<noteq> k \<Longrightarrow> recent k e T (c\<lparr>mc_store := AList.delete j (mc_store c)\<rparr>)"
  unfolding recent_def by (auto simp: delete_append delete_Cons_other)
    (metis Diff_subset fst_set_delete order_trans)

lemma recent_update:
  assumes "recent k e T c" and "j \<noteq> k" and "insert j T \<subseteq> T'"
  shows "recent k e T' (c\<lparr>mc_store := AList.update j w (mc_store c)\<rparr>)"
proof -
  obtain us vs where s: "mc_store c = us @ (k, e) # vs" "fst ` set vs \<subseteq> T" using assms(1) by (auto simp: recent_def)
  obtain us' vs' where "AList.update j w (mc_store c) = us' @ (k, e) # vs'" "fst ` set vs' \<subseteq> insert j (fst ` set vs)"
    using update_middle [OF assms(2)] s(1) by metis
  then show ?thesis unfolding recent_def using s(2) assms(3) by (simp, blast)
qed

lemma recent_get:
  assumes "recent k e T c" and "distinct (map fst (mc_store c))" and "j = k \<longrightarrow> now < ce_expiresAt e"
    and "insert j T - {k} \<subseteq> T'"
  shows "recent k e T' (snd (cache_get now j c))"
proof (cases "j = k")
  case True
  have m: "map_of (mc_store c) k = Some e" using assms(1,2) by (auto simp: recent_def)
  have "AList.update k e (AList.delete k (mc_store c)) = AList.delete k (mc_store c) @ [(k, e)]"
    by (rule update_absent) simp
  then have "snd (cache_get now j c) = c\<lparr>mc_store := AList.delete k (mc_store c) @ [(k, e)]\<rparr>"
    using True m assms(3) by (simp add: cache_get_def)
  then show ?thesis unfolding recent_def
    by (intro exI [of _ "AList.delete k (mc_store c)"] exI [of _ "[]"]) simp
next
  case False
  have k: "recent k e (T - {k}) c" using assms(1,2) by (auto simp: recent_def) blast
  have w: "recent k e T' c" using k assms(4) unfolding recent_def by blast
  have "recent k e (insert j (T - {k})) (c\<lparr>mc_store := AList.delete j (mc_store c)\<rparr>)"
    using recent_delete [OF k False] by (auto simp: recent_def)
  then have "recent k e T' (c\<lparr>mc_store := AList.update j w (AList.delete j (mc_store c))\<rparr>)" for w
    using recent_update [of k e "insert j (T - {k})" "c\<lparr>mc_store := AList.delete j (mc_store c)\<rparr>" j T' w] False assms(4)
    by auto
  with w recent_delete [OF w False] show ?thesis by (simp add: cache_get_def split: option.split)
qed

lemma recent_put:
  assumes r: "recent k e T c" and d: "distinct (map fst (mc_store c))" and "j \<noteq> k" and "k \<notin> T"
    and T': "insert j T \<subseteq> T'" and fin: "finite T'" and few: "int (card T') < mc_maxEntries c"
  shows "recent k e T' (cache_set now j v ttl c)"
proof -
  let ?c = "c\<lparr>mc_store := evict j c\<rparr>"
  have "recent k e T ?c"
  proof (rule evict_cases [OF d, of j])
    assume "evict j c = mc_store c"
    with r show ?thesis by (simp add: recent_def)
  next
    fix kv rest
    assume s: "mc_store c = kv # rest" "evict j c = rest" "mc_maxEntries c \<le> int (length (mc_store c))"
      "j \<notin> fst ` set (mc_store c)"
    obtain us vs where u: "mc_store c = us @ (k, e) # vs" "fst ` set vs \<subseteq> T" using r by (auto simp: recent_def)
    have "us \<noteq> []"
    proof
      assume "us = []"
      then have rest: "rest = vs" using s(1) u(1) by simp
      have "insert j (fst ` set vs) \<subseteq> T'" using u(2) T' by blast
      then have "card (insert j (fst ` set vs)) \<le> card T'" using fin by (rule card_mono [rotated])
      moreover have "card (fst ` set vs) = length vs" using d s(1) rest distinct_card [of "map fst vs"] by simp
      moreover have "j \<notin> fst ` set vs" using s(1,4) rest by auto
      ultimately have "Suc (length vs) \<le> card T'" by simp
      with few s(1,3) rest show False by simp
    qed
    then obtain us' where "us = kv # us'" using s(1) u(1) by (cases us) auto
    then have "rest = us' @ (k, e) # vs" using s(1) u(1) by simp
    with s(2) u(2) show ?thesis by (auto simp: recent_def)
  qed
  from recent_update [OF this assms(3) T'] show ?thesis by (simp add: cache_set_def)
qed

lemma recent_step:
  assumes "recent k e T c" and "cache_inv c" and "spares k (ce_expiresAt e) op" and "k \<notin> T" and "finite T"
    and "int (card (T \<union> (touched op - {k}))) < mc_maxEntries c"
  shows "recent k e (T \<union> (touched op - {k})) (cache_step op c)"
proof -
  have d: "distinct (map fst (mc_store c))" using assms(2) by (simp add: cache_inv_def)
  show ?thesis
  proof (cases op)
    case (Get now j)
    then show ?thesis using recent_get [OF assms(1) d, of j now "T \<union> (touched op - {k})"] assms(3,4) by auto
  next
    case (Put now j v ttl)
    then show ?thesis
      using recent_put [OF assms(1) d _ assms(4), of j "T \<union> (touched op - {k})"] assms(3,5,6) by auto
  next
    case (Delete j)
    then show ?thesis using recent_delete [OF assms(1), of j] assms(3) by (simp add: cache_delete_def)
  qed (use assms(3) in simp)
qed

lemma finite_touched [simp]: "finite (touched op)"
  by (cases op) auto

lemma recent_run:
  assumes "recent k e T c" and "cache_inv c" and "list_all (spares k (ce_expiresAt e)) ops" and "k \<notin> T" and "finite T"
    and "int (card (T \<union> other_keys k ops)) < mc_maxEntries c"
  shows "recent k e (T \<union> other_keys k ops) (cache_run ops c)"
  using assms
proof (induction ops arbitrary: T c)
  case Nil
  then show ?case by (simp add: other_keys_def cache_run_def)
next
  case (Cons op ops)
  let ?T = "T \<union> (touched op - {k})"
  have eq: "T \<union> other_keys k (op # ops) = ?T \<union> other_keys k ops" by (auto simp: other_keys_def)
  have fin: "finite (?T \<union> other_keys k ops)" using Cons.prems(5) by (simp add: other_keys_def)
  have "card ?T \<le> card (?T \<union> other_keys k ops)" by (rule card_mono [OF fin]) blast
  then have "recent k e ?T (cache_step op c)"
    using Cons.prems eq by (intro recent_step) auto
  then have "recent k e (?T \<union> other_keys k ops) (cache_run ops (cache_step op c))"
    using Cons.prems eq by (intro Cons.IH) (auto simp: cache_step_inv)
  then show ?case unfolding eq by (simp add: cache_run_def)
qed

section \<open>Properties\<close>

lemma cache_bound_and_retention_parts:
  assumes c: "c = cache_run ops0 (MemoryCache m)"
  shows "distinct (map fst (mc_store c)) \<and> int (length (mc_store c)) \<le> max 1 (case m of Some n \<Rightarrow> n | None \<Rightarrow> 1000)"
    and "cache_get now k c = (Some v, c') \<Longrightarrow> memory_stored c k v t \<Longrightarrow> list_all (spares k t) ops \<Longrightarrow>
      int (card (other_keys k ops)) < (case m of Some n \<Rightarrow> n | None \<Rightarrow> 1000) \<Longrightarrow> now' < t \<Longrightarrow>
      fst (cache_get now' k (cache_run ops c')) = Some v"
proof -
  have inv: "cache_inv c" unfolding c by (rule cache_run_inv [OF cache_inv_new])
  have mx: "mc_maxEntries c = (case m of Some n \<Rightarrow> n | None \<Rightarrow> 1000)" by (simp add: c MemoryCache_def)
  show "distinct (map fst (mc_store c)) \<and> int (length (mc_store c)) \<le> max 1 (case m of Some n \<Rightarrow> n | None \<Rightarrow> 1000)"
    using inv mx by (simp add: cache_inv_def)
  assume g: "cache_get now k c = (Some v, c')" and st: "memory_stored c k v t" and sp: "list_all (spares k t) ops"
    and few: "int (card (other_keys k ops)) < (case m of Some n \<Rightarrow> n | None \<Rightarrow> 1000)" and live: "now' < t"
  let ?e = "\<lparr>ce_value = v, ce_expiresAt = t\<rparr>"
  have at: "map_of (mc_store c) k = Some ?e" using st by (simp add: memory_stored_def)
  then have "now < t" using g by (auto simp: cache_get_def split: if_splits)
  have c': "c' = cache_step (Get now k) c" using g by simp
  obtain us vs where "mc_store c = us @ (k, ?e) # vs" using map_of_SomeD [OF at] by (meson split_list)
  then have "recent k ?e (fst ` set vs) c" by (auto simp: recent_def)
  then have "recent k ?e {} c'"
    using inv \<open>now < t\<close> at g
    by (auto simp: recent_def cache_get_def update_absent [of k "AList.delete k (mc_store c)"] intro: exI [of _ "[]"])
  moreover have "cache_inv c'" unfolding c' by (rule cache_step_inv [OF inv])
  moreover have "mc_maxEntries c' = mc_maxEntries c" unfolding c' by (rule cache_step_maxEntries)
  ultimately have "recent k ?e (other_keys k ops) (cache_run ops c')" and "cache_inv (cache_run ops c')"
    using recent_run [of k ?e "{}" c' ops] sp few mx by (simp_all add: cache_run_inv)
  then have "map_of (mc_store (cache_run ops c')) k = Some ?e" by (auto simp: recent_def cache_inv_def)
  with live show "fst (cache_get now' k (cache_run ops c')) = Some v" by (simp add: cache_get_def)
qed

text \<open>
  C29: The cache keeps its bound and its recency order. After any sequence of operations on a fresh cache each key
  occurs once and there are at most \<open>maxEntries\<close> entries (one, if \<open>maxEntries\<close> is less than one). An entry that
  was just read is not evicted while operations touch fewer than \<open>maxEntries\<close> other keys: as long as nothing
  overwrites or deletes it, it is still returned up to its expiry.
\<close>

theorem cache_bound_and_retention:
  assumes c: "c = cache_run ops0 (MemoryCache m)"
  shows "distinct (map fst (mc_store c)) \<and> int (length (mc_store c)) \<le> max 1 (case m of Some n \<Rightarrow> n | None \<Rightarrow> 1000) \<and>
    (\<forall>now k v c' t ops now'. cache_get now k c = (Some v, c') \<and> memory_stored c k v t \<and> list_all (spares k t) ops \<and>
      int (card (other_keys k ops)) < (case m of Some n \<Rightarrow> n | None \<Rightarrow> 1000) \<and> now' < t \<longrightarrow>
      fst (cache_get now' k (cache_run ops c')) = Some v)"
  using cache_bound_and_retention_parts [OF assms] by blast

definition example_ops :: "string cache_op list" where
  "example_ops = [Put 0 ''a'' ''1'' 10, Put 1 ''b'' ''2'' 10, Put 2 ''c'' ''3'' 10]"

theorem cache_bound_and_retention_witness:
  "fst (cache_get 5 ''b'' (cache_run [Put 4 ''d'' ''4'' 10]
     (snd (cache_get 3 ''b'' (cache_run example_ops (MemoryCache (Some 2))))))) = Some ''2''"
proof -
  let ?c = "cache_run example_ops (MemoryCache (Some 2))"
  have s: "mc_store ?c = [(''b'', \<lparr>ce_value = ''2'', ce_expiresAt = 11\<rparr>), (''c'', \<lparr>ce_value = ''3'', ce_expiresAt = 12\<rparr>)]"
    by (simp add: example_ops_def cache_run_def MemoryCache_def cache_set_def evict_def)
  have g: "cache_get 3 ''b'' ?c = (Some ''2'', snd (cache_get 3 ''b'' ?c))" by (simp add: cache_get_def s)
  have st: "memory_stored ?c ''b'' ''2'' 11" by (simp add: memory_stored_def s)
  have ops: "list_all (spares ''b'' 11) [Put 4 ''d'' ''4'' 10]" "int (card (other_keys ''b'' [Put 4 ''d'' ''4'' 10])) < 2" "(5 :: number) < 11"
    by (simp_all add: other_keys_def)
  show ?thesis
    using cache_bound_and_retention [OF refl, of example_ops "Some 2", simplified option.case] g st ops by blast
qed

end
