(* ===== verification/Cached_Fetch.thy ===== *)
theory Cached_Fetch
  imports Http_Fetch Memory_Cache
begin

text \<open>
  packages/core/src/trust-chain/fetch.ts, \<open>fetchEntityConfiguration\<close> and \<open>fetchSubordinateStatement\<close>: the two
  fetches of trust chain resolution, through the cache of the options. The cache is any provider, given by its
  operations; the theorems hold for every provider that keeps the contract of \<open>cache_provider\<close> and are
  instantiated for the in-memory cache. A call reads the clock when it looks the key up and again when
  it stores what it fetched. Logging is left out.
\<close>

section \<open>The two fetches\<close>

record 's cache_ops =
  co_get :: "number \<Rightarrow> string \<Rightarrow> 's \<Rightarrow> string option \<times> 's"
  co_set :: "number \<Rightarrow> string \<Rightarrow> string \<Rightarrow> number \<Rightarrow> 's \<Rightarrow> 's"

text \<open>The circumstances of a call: the HTTP environment, the options, the two clock readings, and what the
  \<open>URL\<close> class makes of an endpoint: its text with the query parameter \<open>sub\<close> set, and its origin.\<close>

record call_env =
  ca_http :: http_env
  ca_options :: fetch_options
  ca_maxTtl :: "number option" \<comment> \<open>\<open>cacheMaxTtlSeconds\<close>\<close>
  ca_now :: number
  ca_later :: number
  ca_with_sub :: "string \<Rightarrow> string \<Rightarrow> string"
  ca_origin :: "string \<Rightarrow> string"
  ca_digest :: "string \<Rightarrow> nat list"

definition DEFAULT_CACHE_TTL_SECONDS :: number where
  "DEFAULT_CACHE_TTL_SECONDS = 3600"

definition call_ttl :: "call_env \<Rightarrow> number" where
  "call_ttl E = (case ca_maxTtl E of Some t \<Rightarrow> t | None \<Rightarrow> DEFAULT_CACHE_TTL_SECONDS)"

text \<open>Look up, fetch on a miss, store on success; without a cache there is only the fetch.\<close>

definition cached_fetch ::
  "'s cache_ops option \<Rightarrow> call_env \<Rightarrow> string \<Rightarrow> string \<Rightarrow> 's \<Rightarrow> http_request list \<times> (fed_error, string) result \<times> 's" where
  "cached_fetch cache E key url s =
     (case cache of
        None \<Rightarrow> (let (requests, result) = performFetch (ca_http E) url (ca_options E) in (requests, result, s))
      | Some ops \<Rightarrow>
          (case co_get ops (ca_now E) key s of
             (Some v, s') \<Rightarrow> ([], Inr v, s')
           | (None, s') \<Rightarrow>
               (let (requests, result) = performFetch (ca_http E) url (ca_options E) in
                (requests, result,
                 case result of Inl _ \<Rightarrow> s' | Inr v \<Rightarrow> co_set ops (ca_later E) key v (call_ttl E) s'))))"

definition configuration_url :: "string \<Rightarrow> string" where
  "configuration_url eid =
     (if ends_with eid ''/'' then butlast eid else eid) @ ''/.well-known/openid-federation''"

definition fetchEntityConfiguration ::
  "'s cache_ops option \<Rightarrow> call_env \<Rightarrow> string \<Rightarrow> 's \<Rightarrow> http_request list \<times> (fed_error, string) result \<times> 's" where
  "fetchEntityConfiguration cache E eid s =
     cached_fetch cache E (ecCacheKey (ca_digest E) eid) (configuration_url eid) s"

text \<open>\<open>new URL(fetchEndpoint)\<close> throws for a text that is not a URL: the call is rejected.\<close>

definition statement_issuer :: "call_env \<Rightarrow> string \<Rightarrow> string option \<Rightarrow> string" where
  "statement_issuer E fetchEndpoint issuer = (case issuer of Some i \<Rightarrow> i | None \<Rightarrow> ca_origin E fetchEndpoint)"

definition fetchSubordinateStatement ::
  "'s cache_ops option \<Rightarrow> call_env \<Rightarrow> string \<Rightarrow> string \<Rightarrow> string option \<Rightarrow> 's \<Rightarrow>
   (string, http_request list \<times> (fed_error, string) result \<times> 's) result" where
  "fetchSubordinateStatement cache E fetchEndpoint subject issuer s =
     (case he_parse_url (ca_http E) fetchEndpoint of
        None \<Rightarrow> Inl ''Invalid URL''
      | Some _ \<Rightarrow>
          Inr (cached_fetch cache E
            (esCacheKey (ca_digest E) (statement_issuer E fetchEndpoint issuer) subject)
            (ca_with_sub E fetchEndpoint subject) s))"

section \<open>Sequences of calls\<close>

datatype fetch_call =
    ConfigurationOf string
  | StatementAbout string string "string option" \<comment> \<open>endpoint, subject, issuer\<close>

fun call_key :: "call_env \<Rightarrow> fetch_call \<Rightarrow> string" where
  "call_key E (ConfigurationOf eid) = ecCacheKey (ca_digest E) eid"
| "call_key E (StatementAbout ep subject issuer) = esCacheKey (ca_digest E) (statement_issuer E ep issuer) subject"

fun call_url :: "call_env \<Rightarrow> fetch_call \<Rightarrow> string" where
  "call_url E (ConfigurationOf eid) = configuration_url eid"
| "call_url E (StatementAbout ep subject issuer) = ca_with_sub E ep subject"

text \<open>One call, its answer (\<open>None\<close> when it throws) and the cache after it.\<close>

fun fetch_step :: "'s cache_ops \<Rightarrow> call_env \<times> fetch_call \<Rightarrow> 's \<Rightarrow> (fed_error, string) result option \<times> 's" where
  "fetch_step ops (E, ConfigurationOf eid) s =
     (case fetchEntityConfiguration (Some ops) E eid s of (_, r, s') \<Rightarrow> (Some r, s'))"
| "fetch_step ops (E, StatementAbout ep subject issuer) s =
     (case fetchSubordinateStatement (Some ops) E ep subject issuer s of
        Inl _ \<Rightarrow> (None, s) | Inr (_, r, s') \<Rightarrow> (Some r, s'))"

fun fetch_steps ::
  "'s cache_ops \<Rightarrow> (call_env \<times> fetch_call) list \<Rightarrow> 's \<Rightarrow> (fed_error, string) result option list \<times> 's" where
  "fetch_steps ops [] s = ([], s)"
| "fetch_steps ops (c # cs) s =
     (case fetch_step ops c s of (r, s') \<Rightarrow> (case fetch_steps ops cs s' of (rs, s'') \<Rightarrow> (r # rs, s'')))"

text \<open>A call that would fetch \<open>v\<close> itself.\<close>

definition fetches :: "call_env \<times> fetch_call \<Rightarrow> string \<Rightarrow> bool" where
  "fetches c v \<longleftrightarrow>
     (\<exists>requests. performFetch (ca_http (fst c)) (call_url (fst c) (snd c)) (ca_options (fst c)) = (requests, Inr v))"

abbreviation step_key :: "call_env \<times> fetch_call \<Rightarrow> string" where
  "step_key c \<equiv> call_key (fst c) (snd c)"

text \<open>Where a stored value comes from: an earlier call with the same key that fetched it.\<close>

definition from_calls :: "(call_env \<times> fetch_call) list \<Rightarrow> string \<Rightarrow> string \<Rightarrow> number \<Rightarrow> bool" where
  "from_calls cs k v t \<longleftrightarrow>
     (\<exists>c \<in> set cs. step_key c = k \<and> fetches c v \<and> t = ca_later (fst c) + call_ttl (fst c))"

lemma from_calls_append: "from_calls cs k v t \<Longrightarrow> from_calls (cs @ ds) k v t"
  by (auto simp: from_calls_def)

lemma fetch_step_cases:
  "fetch_step ops c s = (None, s) \<or>
   (\<exists>requests r s'. cached_fetch (Some ops) (fst c) (step_key c) (call_url (fst c) (snd c)) s = (requests, r, s') \<and>
      fetch_step ops c s = (Some r, s'))"
proof (cases c)
  case (Pair E call)
  then show ?thesis
    by (cases call)
      (auto simp: fetchEntityConfiguration_def fetchSubordinateStatement_def split: prod.splits option.splits)
qed

text \<open>The client's theorem, for every provider that keeps the contract.\<close>

locale cached_client = cache_provider get set del stored
  for get :: "number \<Rightarrow> string \<Rightarrow> 's \<Rightarrow> string option \<times> 's"
    and set :: "number \<Rightarrow> string \<Rightarrow> string \<Rightarrow> number \<Rightarrow> 's \<Rightarrow> 's"
    and del :: "string \<Rightarrow> 's \<Rightarrow> 's"
    and stored :: "'s \<Rightarrow> string \<Rightarrow> string \<Rightarrow> number \<Rightarrow> bool" +
  fixes ops :: "'s cache_ops"
  assumes ops: "co_get ops = get" "co_set ops = set"
begin

lemma cached_fetch_authentic:
  assumes "cached_fetch (Some ops) (fst c) (step_key c) (call_url (fst c) (snd c)) s = (requests, r, s')"
    and "all_stored (from_calls cs) s"
  shows "all_stored (from_calls (cs @ [c])) s'"
    and "r = Inr v \<Longrightarrow> fetches c v \<or> (\<exists>t. from_calls cs (step_key c) v t \<and> ca_now (fst c) < t)"
proof -
  obtain g s1 where g: "get (ca_now (fst c)) (step_key c) s = (g, s1)" by fastforce
  have mono: "all_stored (from_calls (cs @ [c])) s2" if "all_stored (from_calls cs) s2" for s2
    using that by (rule all_stored_mono) (rule from_calls_append)
  have s1: "all_stored (from_calls cs) s1" using assms(2) g by (rule all_stored_get)
  show "all_stored (from_calls (cs @ [c])) s'"
  proof (cases g)
    case (Some w)
    then have "s' = s1" using assms(1) g by (simp add: cached_fetch_def ops)
    then show ?thesis using mono [OF s1] by simp
  next
    case None
    obtain q res where f: "performFetch (ca_http (fst c)) (call_url (fst c) (snd c)) (ca_options (fst c)) = (q, res)"
      by fastforce
    with None assms(1) g have s': "s' = (case res of Inl _ \<Rightarrow> s1 | Inr v \<Rightarrow>
        set (ca_later (fst c)) (step_key c) v (call_ttl (fst c)) s1)"
      by (auto simp: cached_fetch_def ops split: sum.splits)
    show ?thesis
    proof (cases res)
      case (Inr v)
      then have "from_calls (cs @ [c]) (step_key c) v (ca_later (fst c) + call_ttl (fst c))"
        using f by (auto simp: from_calls_def fetches_def)
      with all_stored_set [OF mono [OF s1]] s' Inr show ?thesis by simp
    qed (use s' mono [OF s1] in simp)
  qed
  assume r: "r = Inr v"
  show "fetches c v \<or> (\<exists>t. from_calls cs (step_key c) v t \<and> ca_now (fst c) < t)"
  proof (cases g)
    case (Some w)
    then have "w = v" using assms(1) g r by (simp add: cached_fetch_def ops)
    with Some g all_stored_hit [OF assms(2)] show ?thesis by blast
  next
    case None
    then show ?thesis using assms(1) g r
      by (auto simp: cached_fetch_def ops fetches_def split: prod.splits)
  qed
qed

lemma fetch_steps_authentic:
  assumes "fetch_steps ops ds s = (rs, s')" and "all_stored (from_calls cs) s"
    and "i < length ds" and "rs ! i = Some (Inr v)"
  shows "fetches (ds ! i) v \<or> (\<exists>t. from_calls (cs @ take i ds) (step_key (ds ! i)) v t \<and> ca_now (fst (ds ! i)) < t)"
  using assms
proof (induction ds arbitrary: cs s rs i)
  case (Cons d ds)
  obtain r s1 rs1 where st: "fetch_step ops d s = (r, s1)" "fetch_steps ops ds s1 = (rs1, s')" "rs = r # rs1"
    using Cons.prems(1) by (auto split: prod.splits)
  have step: "all_stored (from_calls (cs @ [d])) s1 \<and>
      (r = Some (Inr w) \<longrightarrow> fetches d w \<or> (\<exists>t. from_calls cs (step_key d) w t \<and> ca_now (fst d) < t))" for w
    using fetch_step_cases [of ops d s]
  proof
    assume "fetch_step ops d s = (None, s)"
    with st(1) all_stored_mono [OF Cons.prems(2) from_calls_append] show ?thesis by simp
  next
    assume "\<exists>requests q s2. cached_fetch (Some ops) (fst d) (step_key d) (call_url (fst d) (snd d)) s = (requests, q, s2) \<and>
      fetch_step ops d s = (Some q, s2)"
    then obtain requests q where "cached_fetch (Some ops) (fst d) (step_key d) (call_url (fst d) (snd d)) s = (requests, q, s1)"
      and "r = Some q" using st(1) by auto
    with cached_fetch_authentic [OF _ Cons.prems(2)] show ?thesis by blast
  qed
  show ?case
  proof (cases i)
    case 0
    with step [of v] st(3) Cons.prems(4) show ?thesis by simp
  next
    case (Suc j)
    have "fetches (ds ! j) v \<or> (\<exists>t. from_calls ((cs @ [d]) @ take j ds) (step_key (ds ! j)) v t \<and> ca_now (fst (ds ! j)) < t)"
      using Cons.prems(3,4) Suc st step by (intro Cons.IH [OF st(2)]) auto
    with Suc show ?thesis by simp
  qed
qed simp

end

definition memory_ops :: "string memory_cache cache_ops" where
  "memory_ops = \<lparr>co_get = cache_get, co_set = cache_set\<rparr>"

interpretation memory_client: cached_client cache_get cache_set cache_delete memory_stored memory_ops
  by unfold_locales (simp_all add: memory_ops_def)

lemma new_cache_empty: "memory.all_stored P (MemoryCache m)"
  by (simp add: memory.all_stored_def memory_stored_def MemoryCache_def)

section \<open>Properties\<close>

lemma cached_answers_authentic_parts:
  assumes "fetch_steps memory_ops cs (MemoryCache m) = (answers, c)" and "i < length cs" and "answers ! i = Some (Inr v)"
  shows "\<exists>j \<le> i. step_key (cs ! j) = step_key (cs ! i) \<and> fetches (cs ! j) v \<and>
      (j = i \<or> ca_now (fst (cs ! i)) < ca_later (fst (cs ! j)) + call_ttl (fst (cs ! j)))"
    and "snd (cs ! i) = ConfigurationOf eid \<Longrightarrow> list_all (\<lambda>c. ca_digest (fst c) = digest) cs \<Longrightarrow>
      inj_on (\<lambda>e. take 32 (sha256Hex digest e)) {e. ConfigurationOf e \<in> snd ` set cs} \<Longrightarrow>
      \<exists>j \<le> i. snd (cs ! j) = ConfigurationOf eid \<and>
        (\<exists>requests. performFetch (ca_http (fst (cs ! j))) (configuration_url eid) (ca_options (fst (cs ! j))) = (requests, Inr v))"
proof -
  have "fetches (cs ! i) v \<or> (\<exists>t. from_calls (take i cs) (step_key (cs ! i)) v t \<and> ca_now (fst (cs ! i)) < t)"
    using memory_client.fetch_steps_authentic [OF assms(1) new_cache_empty [of "from_calls []"] assms(2,3)] by simp
  then consider "fetches (cs ! i) v"
    | j where "j < i" "step_key (cs ! j) = step_key (cs ! i)" "fetches (cs ! j) v"
        "ca_now (fst (cs ! i)) < ca_later (fst (cs ! j)) + call_ttl (fst (cs ! j))"
    using assms(2) by (auto simp: from_calls_def in_set_conv_nth)
  then show one: "\<exists>j \<le> i. step_key (cs ! j) = step_key (cs ! i) \<and> fetches (cs ! j) v \<and>
      (j = i \<or> ca_now (fst (cs ! i)) < ca_later (fst (cs ! j)) + call_ttl (fst (cs ! j)))"
    by cases (blast, meson less_imp_le_nat)
  assume call: "snd (cs ! i) = ConfigurationOf eid" and dig: "list_all (\<lambda>c. ca_digest (fst c) = digest) cs"
    and inj: "inj_on (\<lambda>e. take 32 (sha256Hex digest e)) {e. ConfigurationOf e \<in> snd ` set cs}"
  from one obtain j where j: "j \<le> i" "step_key (cs ! j) = step_key (cs ! i)" "fetches (cs ! j) v" by blast
  have mem: "cs ! i \<in> set cs" "cs ! j \<in> set cs" using j(1) assms(2) by auto
  have d: "ca_digest (fst (cs ! i)) = digest" "ca_digest (fst (cs ! j)) = digest"
    using dig mem by (auto simp: list_all_iff)
  obtain e where e: "snd (cs ! j) = ConfigurationOf e" "take 32 (sha256Hex digest e) = take 32 (sha256Hex digest eid)"
    using j(2) call d by (cases "snd (cs ! j)") (auto simp: ecCacheKey_def esCacheKey_def)
  have "e = eid" using inj_onD [OF inj e(2)] e(1) call mem by (metis (mono_tags) image_eqI mem_Collect_eq)
  with e(1) j show "\<exists>j \<le> i. snd (cs ! j) = ConfigurationOf eid \<and>
      (\<exists>requests. performFetch (ca_http (fst (cs ! j))) (configuration_url eid) (ca_options (fst (cs ! j))) = (requests, Inr v))"
    by (auto simp: fetches_def)
qed

text \<open>
  C10: What the fetches answer through a cache is authentic and fresh. For any sequence of configuration and
  statement fetches through a memory cache that starts empty, with any behaviour of the network and the clock: an
  answer was fetched by this call itself, or by an earlier call under the same cache key whose entry had not
  reached the lifetime it was stored with. When the digest has no collision on the entity identifiers asked for, a
  configuration answered for an entity was fetched from that entity's own well-known URL.
\<close>

theorem cached_answers_authentic:
  assumes "fetch_steps memory_ops cs (MemoryCache m) = (answers, c)" and "i < length cs" and "answers ! i = Some (Inr v)"
  shows "(\<exists>j \<le> i. step_key (cs ! j) = step_key (cs ! i) \<and> fetches (cs ! j) v \<and>
      (j = i \<or> ca_now (fst (cs ! i)) < ca_later (fst (cs ! j)) + call_ttl (fst (cs ! j)))) \<and>
    (\<forall>eid digest. snd (cs ! i) = ConfigurationOf eid \<and> list_all (\<lambda>c. ca_digest (fst c) = digest) cs \<and>
      inj_on (\<lambda>e. take 32 (sha256Hex digest e)) {e. ConfigurationOf e \<in> snd ` set cs} \<longrightarrow>
      (\<exists>j \<le> i. snd (cs ! j) = ConfigurationOf eid \<and>
        (\<exists>requests. performFetch (ca_http (fst (cs ! j))) (configuration_url eid) (ca_options (fst (cs ! j))) = (requests, Inr v))))"
  using cached_answers_authentic_parts [OF assms] by blast

definition example_call :: "number \<Rightarrow> call_env \<times> fetch_call" where
  "example_call t = (\<lparr>ca_http = example_http, ca_options = no_fetch_options,
     ca_maxTtl = Some 10, ca_now = t, ca_later = t + 1, ca_with_sub = (\<lambda>e s. e @ s), ca_origin = (\<lambda>e. e),
     ca_digest = (\<lambda>s. [length s])\<rparr>, ConfigurationOf ''https://a'')"

lemma example_call_fetch:
  "performFetch example_http (configuration_url ''https://a'') no_fetch_options
     = ([request_for (configuration_url ''https://a'') no_fetch_options], Inr ''xyy'')"
  by (rule example_fetch) (simp_all add: configuration_url_def ends_with_def)

theorem cached_answers_authentic_witness:
  "fst (fetch_steps memory_ops [example_call 0, example_call 5] (MemoryCache None)) = [Some (Inr ''xyy''), Some (Inr ''xyy'')] \<and>
   (\<exists>j \<le> 1. step_key ([example_call 0, example_call 5] ! j) = step_key (example_call 5) \<and>
      fetches ([example_call 0, example_call 5] ! j) ''xyy'') \<and>
   (\<exists>j \<le> 1. snd ([example_call 0, example_call 5] ! j) = ConfigurationOf ''https://a'')"
proof -
  let ?cs = "[example_call 0, example_call 5]"
  have run: "fetch_steps memory_ops ?cs (MemoryCache None) =
      ([Some (Inr ''xyy''), Some (Inr ''xyy'')], snd (fetch_steps memory_ops ?cs (MemoryCache None)))"
    by (simp add: example_call_def fetchEntityConfiguration_def cached_fetch_def memory_ops_def MemoryCache_def
        cache_get_def cache_set_def evict_def example_call_fetch call_ttl_def)
  have one: "1 < length ?cs" "[Some (Inr ''xyy''), Some (Inr ''xyy'')] ! 1 = Some (Inr ''xyy'')" by simp_all
  have call: "snd (?cs ! 1) = ConfigurationOf ''https://a''" "list_all (\<lambda>c. ca_digest (fst c) = (\<lambda>s. [length s])) ?cs"
    "inj_on (\<lambda>e. take 32 (sha256Hex (\<lambda>s. [length s]) e)) {e. ConfigurationOf e \<in> snd ` set ?cs}"
    by (simp_all add: example_call_def)
  note th = cached_answers_authentic [OF run one]
  have five: "?cs ! 1 = example_call 5" by simp
  have "\<exists>j \<le> 1. step_key (?cs ! j) = step_key (example_call 5) \<and> fetches (?cs ! j) ''xyy''"
    using conjunct1 [OF th] unfolding five by blast
  moreover have "\<exists>j \<le> 1. snd (?cs ! j) = ConfigurationOf ''https://a''"
    using conjunct2 [OF th, rule_format, OF conjI [OF call(1) conjI [OF call(2,3)]]] by blast
  ultimately show ?thesis using arg_cong [OF run, of fst] by simp
qed

text \<open>The text hashed for a statement does not separate its issuer from its subject: two different pairs of entity
  identifiers share a key, whatever the digest.\<close>

lemma esCacheKey_ambiguous:
  "esCacheKey digest ''https://a/p'' ''https://b/x:https://c'' = esCacheKey digest ''https://a/p:https://b/x'' ''https://c''"
  by (simp add: esCacheKey_def)

end
