(* ===== verification/Policy_Operators.thy ===== *)
theory Policy_Operators
  imports Prelude
begin

text \<open>
  packages/core/src/metadata-policy/operators.ts: the comparison helpers, the configuration check
  and the seven standard metadata policy operators, each with its \<open>apply\<close>, \<open>merge\<close> and
  \<open>canCombineWith\<close>, as records of the interface \<open>PolicyOperatorDefinition\<close>.

  The lemmas show that \<open>deepEqual\<close> decides equality of a normal form on JSON values, what
  union and intersection contain, that every \<open>merge\<close> is the sequential composition of the two
  operators it merges (the interface \<open>policy_operator_contract\<close>), and that the compatibility
  check of two operators does not depend on which of them is asked.
\<close>

section \<open>Deep equality\<close>

text \<open>The own enumerable entries of a value: \<open>Object.keys\<close> of an array are its indices.\<close>

fun entries :: "jsval \<Rightarrow> jsval dict" where
  "entries (JArr xs) = zip (map show_nat [0..<length xs]) xs"
| "entries (JObj kvs) = kvs"
| "entries _ = []"

lemma size_entries: "(k, v) \<in> set (entries a) \<Longrightarrow> size v < size a"
  by (cases a) (auto dest!: set_zip_rightD dest: size_arr_elem [simplified] size_obj_elem [simplified])

text \<open>\<open>value[key]\<close> for a string key: an own member; for an array also its \<open>length\<close>, which is no
  enumerable member; and \<open>__proto__\<close>, for an object or array that has no member of that name, is a
  prototype, an object without enumerable members of its own. The other inherited members are
  functions, which equal no JSON value, as \<open>undefined\<close> does.\<close>

definition read_member :: "jsval \<Rightarrow> string \<Rightarrow> jsval" where
  "read_member b k =
     (case map_of (entries b) k of
        Some v \<Rightarrow> v
      | None \<Rightarrow>
          if is_arr b \<and> k = ''length'' then JNum (of_nat (length (items b)))
          else if k = ''__proto__'' then JObj []
          else JUndef)"

function deepEqual :: "jsval \<Rightarrow> jsval \<Rightarrow> bool" where
  "deepEqual a b =
     (if strict_eq a b then True
      else if a = JNull \<or> b = JNull then False
      else if typeof a \<noteq> typeof b then False
      else if is_arr a \<and> is_arr b then
        (if length (items a) \<noteq> length (items b) then False
         else list_all (\<lambda>(x, y). deepEqual x y) (zip (items a) (items b)))
      else if typeof a = ''object'' \<and> typeof b = ''object'' then
        (if length (entries a) \<noteq> length (entries b) then False
         else list_all (\<lambda>(k, v). deepEqual v (read_member b k)) (entries a))
      else False)"
  by pat_completeness auto
termination
proof (relation "measure (\<lambda>(a, b). size a)", goal_cases)
  case (2 a b z x y)
  then have "is_arr a" and "x \<in> set (items a)" by (auto dest: set_zip_leftD)
  then show ?case by (cases a) (auto dest: size_arr_elem [simplified])
next
  case (3 a b z k v)
  then show ?case by (auto dest: size_entries)
qed simp

declare deepEqual.simps [simp del]

definition isSubset :: "jsval list \<Rightarrow> jsval list \<Rightarrow> bool" where
  "isSubset sub super = list_all (\<lambda>item. list_ex (\<lambda>s. deepEqual item s) super) sub"

definition arrayUnion :: "jsval list \<Rightarrow> jsval list \<Rightarrow> jsval list" where
  "arrayUnion a b =
     foldl (\<lambda>result item. if list_ex (\<lambda>r. deepEqual r item) result then result
                          else result @ [item]) a b"

definition arrayIntersection :: "jsval list \<Rightarrow> jsval list \<Rightarrow> jsval list" where
  "arrayIntersection a b = filter (\<lambda>item. list_ex (\<lambda>bi. deepEqual item bi) b) a"

definition containsElement :: "jsval list \<Rightarrow> jsval \<Rightarrow> bool" where
  "containsElement arr element = list_ex (\<lambda>item. deepEqual item element) arr"

section \<open>Value classes and the configuration check\<close>

definition isJsonObject :: "jsval \<Rightarrow> bool" where
  "isJsonObject value \<longleftrightarrow> truthy value \<and> typeof value = ''object'' \<and> \<not> is_arr value"

definition valueType :: "jsval \<Rightarrow> string" where
  "valueType value =
     (if value = JNull then ''null'' else if is_arr value then ''array'' else typeof value)"

definition isScalar :: "jsval \<Rightarrow> bool" where
  "isScalar value \<longleftrightarrow>
     typeof value = ''string'' \<or> typeof value = ''number'' \<or> typeof value = ''boolean''"

definition isValueOrDefaultMetadataValue :: "jsval \<Rightarrow> bool" where
  "isValueOrDefaultMetadataValue value \<longleftrightarrow> isScalar value \<or> is_arr value"

definition isComparableElement :: "jsval \<Rightarrow> bool" where
  "isComparableElement value \<longleftrightarrow>
     typeof value = ''string'' \<or> typeof value = ''number'' \<or> isJsonObject value"

definition isComparableArray :: "jsval \<Rightarrow> bool" where
  "isComparableArray value \<longleftrightarrow> is_arr value \<and> list_all isComparableElement (items value)"

definition isOneOfMetadataValue :: "jsval \<Rightarrow> bool" where
  "isOneOfMetadataValue value \<longleftrightarrow>
     typeof value = ''string'' \<or> typeof value = ''number'' \<or> isJsonObject value"

definition isEssentialMetadataValue :: "jsval \<Rightarrow> bool" where
  "isEssentialMetadataValue value \<longleftrightarrow> value \<noteq> JNull \<and> value \<noteq> JUndef"

definition invalidOperatorValue :: "string \<Rightarrow> string \<Rightarrow> jsval \<Rightarrow> string" where
  "invalidOperatorValue name expected value =
     quoted name @ '' operator value must be '' @ expected @ ''; got '' @ valueType value"

definition invalidMetadataValue :: "string \<Rightarrow> string \<Rightarrow> jsval \<Rightarrow> string" where
  "invalidMetadataValue name expected value =
     quoted name @ '' operator does not support metadata value type '' @ valueType value @
     ''; expected '' @ expected"

text \<open>\<open>undefined\<close> (no error) is \<open>None\<close>. A name that is no standard operator has no error.\<close>

definition validateStandardPolicyOperatorConfiguration :: "string \<Rightarrow> jsval \<Rightarrow> string option" where
  "validateStandardPolicyOperatorConfiguration operatorName operatorValue =
     (if operatorName = ''value'' then
        (if operatorValue = JNull \<or> isValueOrDefaultMetadataValue operatorValue then None
         else Some (invalidOperatorValue operatorName
                ''a string, number, boolean, array, or null'' operatorValue))
      else if operatorName = ''default'' then
        (if isValueOrDefaultMetadataValue operatorValue then None
         else Some (invalidOperatorValue operatorName
                ''a string, number, boolean, or array'' operatorValue))
      else if operatorName = ''add'' \<or> operatorName = ''subset_of''
              \<or> operatorName = ''superset_of'' \<or> operatorName = ''one_of'' then
        (if isComparableArray operatorValue then None
         else Some (invalidOperatorValue operatorName
                ''an array of strings, numbers, or objects'' operatorValue))
      else if operatorName = ''essential'' then
        (if typeof operatorValue = ''boolean'' then None
         else Some (invalidOperatorValue operatorName ''a boolean'' operatorValue))
      else None)"

abbreviation valid_config :: "string \<Rightarrow> jsval \<Rightarrow> bool" where
  "valid_config n v \<equiv> validateStandardPolicyOperatorConfiguration n v = None"

section \<open>The operator interface\<close>

datatype policy_action = Check | Modify | Both

datatype apply_result = ApplyOk jsval bool \<comment> \<open>value, removed\<close> | ApplyErr string

record policy_operator =
  op_name :: string
  op_order :: number
  op_action :: policy_action
  op_apply :: "jsval \<Rightarrow> jsval \<Rightarrow> apply_result"
  op_merge :: "jsval \<Rightarrow> jsval \<Rightarrow> (string, jsval) result"
  op_canCombineWith :: "string \<Rightarrow> jsval \<Rightarrow> jsval \<Rightarrow> bool"

definition NEVER_ALLOWED :: "string list" where
  "NEVER_ALLOWED =
     [''add:one_of'', ''one_of:add'', ''one_of:subset_of'', ''subset_of:one_of'',
      ''one_of:superset_of'', ''superset_of:one_of'']"

definition checkValueCombination :: "string \<Rightarrow> jsval \<Rightarrow> jsval \<Rightarrow> bool" where
  "checkValueCombination otherOp valueVal otherVal =
     (if otherOp = ''add'' then
        (if \<not> is_arr valueVal then False else isSubset (items otherVal) (items valueVal))
      else if otherOp = ''default'' then
        (if valueVal = JNull then False else deepEqual valueVal otherVal)
      else if otherOp = ''one_of'' then
        (if is_arr valueVal then False else containsElement (items otherVal) valueVal)
      else if otherOp = ''subset_of'' then
        (if \<not> is_arr valueVal then False else isSubset (items valueVal) (items otherVal))
      else if otherOp = ''superset_of'' then
        (if \<not> is_arr valueVal then False else isSubset (items otherVal) (items valueVal))
      else if otherOp = ''essential'' then
        (if valueVal = JNull \<and> otherVal = JBool True then False else True)
      else False)"

text \<open>Every standard \<open>merge\<close> checks both configurations first.\<close>

definition merge_checked ::
  "string \<Rightarrow> (jsval \<Rightarrow> jsval \<Rightarrow> (string, jsval) result) \<Rightarrow> jsval \<Rightarrow> jsval \<Rightarrow> (string, jsval) result"
where
  "merge_checked name f existingValue newValue =
     (case validateStandardPolicyOperatorConfiguration name existingValue of
        Some e \<Rightarrow> Inl e
      | None \<Rightarrow>
        (case validateStandardPolicyOperatorConfiguration name newValue of
           Some e \<Rightarrow> Inl e
         | None \<Rightarrow> f existingValue newValue))"

text \<open>Every standard \<open>apply\<close> checks the operator's configuration first.\<close>

definition apply_checked :: "string \<Rightarrow> (jsval \<Rightarrow> jsval \<Rightarrow> apply_result) \<Rightarrow> jsval \<Rightarrow> jsval \<Rightarrow> apply_result"
where
  "apply_checked name f parameterValue operatorValue =
     (case validateStandardPolicyOperatorConfiguration name operatorValue of
        Some e \<Rightarrow> ApplyErr e
      | None \<Rightarrow> f parameterValue operatorValue)"

section \<open>The seven standard operators\<close>

definition valueOperator :: policy_operator where
  "valueOperator = \<lparr>
     op_name = ''value'', op_order = 1, op_action = Modify,
     op_apply = apply_checked ''value'' (\<lambda>parameterValue operatorValue.
       if parameterValue \<noteq> JUndef \<and> \<not> isValueOrDefaultMetadataValue parameterValue then
         ApplyErr (invalidMetadataValue ''value'' ''a string, number, boolean, or array'' parameterValue)
       else if operatorValue = JNull then ApplyOk JNull True
       else ApplyOk operatorValue False),
     op_merge = merge_checked ''value'' (\<lambda>existingValue newValue.
       if deepEqual existingValue newValue then Inr existingValue
       else Inl (''Conflicting '' @ quoted ''value'' @ '' operators: cannot merge different values'')),
     op_canCombineWith = (\<lambda>otherOperator thisValue otherValue.
       if otherOperator = ''value'' then False
       else if ''value:'' @ otherOperator \<in> set NEVER_ALLOWED then False
       else checkValueCombination otherOperator thisValue otherValue)\<rparr>"

definition addOperator :: policy_operator where
  "addOperator = \<lparr>
     op_name = ''add'', op_order = 2, op_action = Modify,
     op_apply = apply_checked ''add'' (\<lambda>parameterValue operatorValue.
       if parameterValue = JUndef then ApplyOk operatorValue False
       else if \<not> isComparableArray parameterValue then
         ApplyErr (invalidMetadataValue ''add'' ''an array of strings, numbers, or objects'' parameterValue)
       else ApplyOk (JArr (arrayUnion (items parameterValue) (items operatorValue))) False),
     op_merge = merge_checked ''add'' (\<lambda>existingValue newValue.
       Inr (JArr (arrayUnion (items existingValue) (items newValue)))),
     op_canCombineWith = (\<lambda>otherOperator thisValue otherValue.
       if otherOperator = ''add'' then False
       else if ''add:'' @ otherOperator \<in> set NEVER_ALLOWED then False
       else if otherOperator = ''value'' then checkValueCombination ''add'' otherValue thisValue
       else if otherOperator = ''subset_of'' then
         (if \<not> isComparableArray thisValue \<or> \<not> isComparableArray otherValue then False
          else isSubset (items thisValue) (items otherValue))
       else True)\<rparr>"

definition defaultOperator :: policy_operator where
  "defaultOperator = \<lparr>
     op_name = ''default'', op_order = 3, op_action = Modify,
     op_apply = apply_checked ''default'' (\<lambda>parameterValue operatorValue.
       if parameterValue = JUndef then ApplyOk operatorValue False
       else if \<not> isValueOrDefaultMetadataValue parameterValue then
         ApplyErr (invalidMetadataValue ''default'' ''a string, number, boolean, or array'' parameterValue)
       else ApplyOk parameterValue False),
     op_merge = merge_checked ''default'' (\<lambda>existingValue newValue.
       if deepEqual existingValue newValue then Inr existingValue
       else Inl (''Conflicting '' @ quoted ''default'' @ '' operators: cannot merge different values'')),
     op_canCombineWith = (\<lambda>otherOperator thisValue otherValue.
       if otherOperator = ''default'' then False
       else if otherOperator = ''value'' then checkValueCombination ''default'' otherValue thisValue
       else True)\<rparr>"

definition oneOfOperator :: policy_operator where
  "oneOfOperator = \<lparr>
     op_name = ''one_of'', op_order = 4, op_action = Check,
     op_apply = apply_checked ''one_of'' (\<lambda>parameterValue operatorValue.
       if parameterValue = JUndef then ApplyOk JUndef False
       else if \<not> isOneOfMetadataValue parameterValue then
         ApplyErr (invalidMetadataValue ''one_of'' ''a string, number, or object'' parameterValue)
       else if containsElement (items operatorValue) parameterValue then ApplyOk parameterValue False
       else ApplyErr ''Value not in one_of set''),
     op_merge = merge_checked ''one_of'' (\<lambda>existingValue newValue.
       let intersection = arrayIntersection (items existingValue) (items newValue) in
       if length intersection = 0 then Inl ''one_of merge resulted in empty intersection''
       else Inr (JArr intersection)),
     op_canCombineWith = (\<lambda>otherOperator thisValue otherValue.
       if otherOperator = ''one_of'' then False
       else if ''one_of:'' @ otherOperator \<in> set NEVER_ALLOWED then False
       else if otherOperator = ''value'' then checkValueCombination ''one_of'' otherValue thisValue
       else True)\<rparr>"

definition subsetOfOperator :: policy_operator where
  "subsetOfOperator = \<lparr>
     op_name = ''subset_of'', op_order = 5, op_action = Both,
     op_apply = apply_checked ''subset_of'' (\<lambda>parameterValue operatorValue.
       if parameterValue = JUndef then ApplyOk JUndef False
       else if \<not> isComparableArray parameterValue then
         ApplyErr (invalidMetadataValue ''subset_of'' ''an array of strings, numbers, or objects'' parameterValue)
       else ApplyOk (JArr (arrayIntersection (items parameterValue) (items operatorValue))) False),
     op_merge = merge_checked ''subset_of'' (\<lambda>existingValue newValue.
       Inr (JArr (arrayIntersection (items existingValue) (items newValue)))),
     op_canCombineWith = (\<lambda>otherOperator thisValue otherValue.
       if otherOperator = ''subset_of'' then False
       else if ''subset_of:'' @ otherOperator \<in> set NEVER_ALLOWED then False
       else if otherOperator = ''value'' then checkValueCombination ''subset_of'' otherValue thisValue
       else if otherOperator = ''add'' then
         (if \<not> isComparableArray thisValue \<or> \<not> isComparableArray otherValue then False
          else isSubset (items otherValue) (items thisValue))
       else if otherOperator = ''superset_of'' then
         (if \<not> isComparableArray thisValue \<or> \<not> isComparableArray otherValue then False
          else isSubset (items otherValue) (items thisValue))
       else True)\<rparr>"

definition supersetOfOperator :: policy_operator where
  "supersetOfOperator = \<lparr>
     op_name = ''superset_of'', op_order = 6, op_action = Check,
     op_apply = apply_checked ''superset_of'' (\<lambda>parameterValue operatorValue.
       if parameterValue = JUndef then ApplyOk JUndef False
       else if \<not> isComparableArray parameterValue then
         ApplyErr (invalidMetadataValue ''superset_of'' ''an array of strings, numbers, or objects'' parameterValue)
       else if isSubset (items operatorValue) (items parameterValue) then ApplyOk parameterValue False
       else ApplyErr ''Value does not contain all required elements from superset_of''),
     op_merge = merge_checked ''superset_of'' (\<lambda>existingValue newValue.
       Inr (JArr (arrayUnion (items existingValue) (items newValue)))),
     op_canCombineWith = (\<lambda>otherOperator thisValue otherValue.
       if otherOperator = ''superset_of'' then False
       else if ''superset_of:'' @ otherOperator \<in> set NEVER_ALLOWED then False
       else if otherOperator = ''value'' then checkValueCombination ''superset_of'' otherValue thisValue
       else if otherOperator = ''subset_of'' then
         (if \<not> isComparableArray thisValue \<or> \<not> isComparableArray otherValue then False
          else isSubset (items thisValue) (items otherValue))
       else True)\<rparr>"

definition essentialOperator :: policy_operator where
  "essentialOperator = \<lparr>
     op_name = ''essential'', op_order = 7, op_action = Check,
     op_apply = apply_checked ''essential'' (\<lambda>parameterValue operatorValue.
       if operatorValue = JBool True \<and> parameterValue = JUndef then
         ApplyErr ''Essential parameter is missing''
       else if parameterValue \<noteq> JUndef \<and> \<not> isEssentialMetadataValue parameterValue then
         ApplyErr (invalidMetadataValue ''essential'' ''a string, number, boolean, object, or array'' parameterValue)
       else ApplyOk parameterValue False),
     op_merge = merge_checked ''essential'' (\<lambda>existingValue newValue.
       Inr (if truthy existingValue then existingValue else newValue)),
     op_canCombineWith = (\<lambda>otherOperator thisValue otherValue.
       if otherOperator = ''essential'' then False
       else if otherOperator = ''value'' then
         (if otherValue = JNull \<and> thisValue = JBool True then False else True)
       else True)\<rparr>"

text \<open>The registry \<open>operators\<close>, in the source's order.\<close>

definition operators :: "policy_operator dict" where
  "operators =
     [(''value'', valueOperator), (''add'', addOperator), (''default'', defaultOperator),
      (''one_of'', oneOfOperator), (''subset_of'', subsetOfOperator),
      (''superset_of'', supersetOfOperator), (''essential'', essentialOperator)]"

lemmas operator_defs =
  valueOperator_def addOperator_def defaultOperator_def oneOfOperator_def subsetOfOperator_def
  supersetOfOperator_def essentialOperator_def

section \<open>Deep equality is equality of a normal form\<close>

text \<open>The normal form: an array is the object of its indices, and the members of an object are
  in key order.\<close>

fun canon :: "jsval \<Rightarrow> jsval" where
  "canon (JArr xs) = JObj (sort_key fst (zip (map show_nat [0..<length xs]) (map canon xs)))"
| "canon (JObj kvs) = JObj (sort_key fst (map (\<lambda>kv. (fst kv, canon (snd kv))) kvs))"
| "canon v = v"

definition compound :: "jsval \<Rightarrow> bool" where
  "compound a \<longleftrightarrow> is_arr a \<or> is_obj a"

lemma canon_compound:
  "compound a \<Longrightarrow> canon a = JObj (sort_key fst (map (\<lambda>kv. (fst kv, canon (snd kv))) (entries a)))"
  by (cases a) (auto simp: compound_def zip_map2 intro!: arg_cong [where f = "sort_key fst"])

lemma canon_primitive: "\<not> compound a \<Longrightarrow> canon a = a"
  by (cases a) (auto simp: compound_def)

text \<open>The members whose names a property access takes for something else. A value is ordinary when
  it is JSON and none of its objects, however deep, has one.\<close>

definition special_names :: "string list" where
  "special_names = [''length'', ''__proto__'']"

fun ordinary :: "jsval \<Rightarrow> bool" where
  "ordinary JUndef = False"
| "ordinary JNull = True"
| "ordinary (JBool _) = True"
| "ordinary (JNum _) = True"
| "ordinary (JStr _) = True"
| "ordinary (JArr xs) = list_all ordinary xs"
| "ordinary (JObj kvs) =
     (distinct (map fst kvs) \<and> list_all (\<lambda>kv. fst kv \<notin> set special_names \<and> ordinary (snd kv)) kvs)"

lemma ordinary_plain: "ordinary v \<Longrightarrow> plain v"
  by (induction v rule: ordinary.induct) (auto simp: list_all_iff)

lemma distinct_entries: "ordinary a \<Longrightarrow> distinct (map fst (entries a))"
  by (cases a) (auto simp: distinct_map intro: inj_on_subset [OF inj_show_nat])

lemma ordinary_entries: "ordinary a \<Longrightarrow> (k, v) \<in> set (entries a) \<Longrightarrow> ordinary v"
  by (cases a) (auto simp: list_all_iff dest: set_zip_rightD)

lemma length_entries_arr [simp]: "length (entries (JArr xs)) = length xs"
  by simp

lemma nth_entries_arr: "i < length xs \<Longrightarrow> entries (JArr xs) ! i = (show_nat i, xs ! i)"
  by simp

lemma pget_entries_arr:
  assumes "i < length xs"
  shows "pget (entries (JArr xs)) (show_nat i) = xs ! i"
proof (rule pget_in)
  show "distinct (map fst (entries (JArr xs)))"
    by (auto simp: distinct_map intro: inj_on_subset [OF inj_show_nat])
  show "(show_nat i, xs ! i) \<in> set (entries (JArr xs))"
    using assms nth_entries_arr [OF assms] nth_mem [of i "entries (JArr xs)"] by simp
qed

lemma deepEqual_arr:
  "deepEqual (JArr xs) (JArr ys) \<longleftrightarrow>
     length xs = length ys \<and> (\<forall>i < length xs. deepEqual (xs ! i) (ys ! i))"
  by (subst deepEqual.simps) (auto simp: list_all_length)

lemma show_nat_no_special: "show_nat n \<notin> set special_names"
proof -
  have "last (show_nat n) = char_of (48 + n mod 10)" by (simp add: show_nat.simps [of n])
  moreover have "of_char (char_of (48 + n mod 10) :: char) = (48 + n mod 10 :: nat)" by simp
  ultimately have "of_char (last (show_nat n)) < (58 :: nat)" by simp
  then show ?thesis by (auto simp: special_names_def)
qed

lemma ordinary_names:
  assumes "ordinary a" and "(k, v) \<in> set (entries a)"
  shows "k \<notin> set special_names"
  using assms show_nat_no_special by (cases a) (force simp: list_all_iff dest: set_zip_leftD)+

lemma read_ordinary: "k \<notin> set special_names \<Longrightarrow> read_member b k = pget (entries b) k"
  by (simp add: read_member_def pget_def special_names_def split: option.splits)

lemma deepEqual_compound:
  assumes "compound a" and "compound b" and "ordinary a"
  shows "deepEqual a b \<longleftrightarrow>
    length (entries a) = length (entries b) \<and>
    (\<forall>(k, v) \<in> set (entries a). deepEqual v (pget (entries b) k))"
proof (cases "is_arr a \<and> is_arr b")
  case True
  then obtain xs ys where ab: "a = JArr xs" "b = JArr ys"
    by (metis is_arr.elims(2))
  show ?thesis
    unfolding ab deepEqual_arr all_set_conv_all_nth length_entries_arr
    by (auto simp: nth_entries_arr pget_entries_arr simp del: entries.simps)
next
  case False
  have "(\<lambda>(k, v). deepEqual v (read_member b k)) e = (\<lambda>(k, v). deepEqual v (pget (entries b) k)) e"
    if "e \<in> set (entries a)" for e
  proof -
    obtain k v where e: "e = (k, v)" by fastforce
    then have "k \<notin> set special_names" using that ordinary_names [OF assms(3)] by blast
    then show ?thesis by (simp add: e read_ordinary)
  qed
  then have "list_all (\<lambda>(k, v). deepEqual v (read_member b k)) (entries a) =
      list_all (\<lambda>(k, v). deepEqual v (pget (entries b) k)) (entries a)"
    by (simp add: list_all_iff)
  moreover have "deepEqual a b = (length (entries a) = length (entries b) \<and>
      list_all (\<lambda>(k, v). deepEqual v (read_member b k)) (entries a))"
    using False assms(1,2) by (subst deepEqual.simps, cases a; cases b) (auto simp: compound_def)
  ultimately show ?thesis by (auto simp: list_all_iff)
qed

lemma deepEqual_primitive:
  assumes "\<not> compound a \<or> \<not> compound b"
  shows "deepEqual a b \<longleftrightarrow> a = b"
  using assms by (subst deepEqual.simps, cases a; cases b) (auto simp: compound_def)

lemma deepEqual_simps [simp]:
  "deepEqual (JStr s) b \<longleftrightarrow> JStr s = b" "deepEqual a (JStr s) \<longleftrightarrow> a = JStr s"
  "deepEqual (JNum n) b \<longleftrightarrow> JNum n = b" "deepEqual a (JNum n) \<longleftrightarrow> a = JNum n"
  "deepEqual (JBool t) b \<longleftrightarrow> JBool t = b" "deepEqual a (JBool t) \<longleftrightarrow> a = JBool t"
  "deepEqual JNull b \<longleftrightarrow> JNull = b" "deepEqual a JNull \<longleftrightarrow> a = JNull"
  "deepEqual JUndef b \<longleftrightarrow> JUndef = b" "deepEqual a JUndef \<longleftrightarrow> a = JUndef"
  by (simp_all add: deepEqual_primitive compound_def)

lemma sort_key_fst_eq_iff:
  assumes "distinct (map fst xs)" and "distinct (map fst ys)"
  shows "sort_key fst xs = sort_key fst ys \<longleftrightarrow> set xs = set ys"
proof
  assume "sort_key fst xs = sort_key fst ys"
  then show "set xs = set ys" by (metis set_sort)
next
  assume eq: "set xs = set ys"
  have "inj_on fst (set xs \<union> set ys)" using assms(1) eq by (simp add: distinct_map)
  moreover have "distinct (map fst (sort_key fst xs))" "distinct (map fst (sort_key fst ys))"
    using assms by (simp_all add: distinct_map)
  ultimately show "sort_key fst xs = sort_key fst ys"
    using map_sorted_distinct_set_unique [of fst "sort_key fst xs" "sort_key fst ys"] eq
    by (simp add: distinct_map)
qed

lemma canon_compound_eq_iff:
  assumes "compound a" "compound b" "ordinary a" "ordinary b"
  shows "canon a = canon b \<longleftrightarrow>
    (\<lambda>(k, v). (k, canon v)) ` set (entries a) = (\<lambda>(k, v). (k, canon v)) ` set (entries b)"
proof -
  have d: "distinct (map fst (map (\<lambda>kv. (fst kv, canon (snd kv))) (entries x)))" if "ordinary x" for x
    using distinct_entries [OF that] by (simp add: comp_def)
  have "canon a = canon b \<longleftrightarrow>
      set (map (\<lambda>kv. (fst kv, canon (snd kv))) (entries a)) =
      set (map (\<lambda>kv. (fst kv, canon (snd kv))) (entries b))"
    unfolding canon_compound [OF assms(1)] canon_compound [OF assms(2)] jsval.inject
    by (rule sort_key_fst_eq_iff [OF d [OF assms(3)] d [OF assms(4)]])
  then show ?thesis by (simp add: case_prod_beta)
qed

lemma ordinary_pget:
  assumes "ordinary b" and "pget (entries b) k \<noteq> JUndef"
  shows "ordinary (pget (entries b) k)" and "(k, pget (entries b) k) \<in> set (entries b)"
  using assms pget_not_undef ordinary_entries by blast+

lemma deepEqual_undef: "ordinary a \<Longrightarrow> \<not> deepEqual a JUndef"
  by (cases a) auto

lemma keyed_image_eq_iff:
  assumes da: "distinct (map fst xs)" and db: "distinct (map fst ys)"
  shows "(\<lambda>(k, v). (k, f v)) ` set xs = (\<lambda>(k, v). (k, f v)) ` set ys \<longleftrightarrow>
    length xs = length ys \<and> (\<forall>(k, v) \<in> set xs. \<exists>w. (k, w) \<in> set ys \<and> f v = f w)"
    (is "?g ` _ = _ \<longleftrightarrow> _")
proof -
  have card: "card (?g ` set zs) = length zs" if "distinct (map fst zs)" for zs
  proof -
    have "map fst (map ?g zs) = map fst zs" by (simp add: case_prod_beta comp_def)
    with that have "distinct (map ?g zs)" by (metis distinct_map)
    then show ?thesis by (metis distinct_card length_map set_map)
  qed
  have sub: "?g ` set xs \<subseteq> ?g ` set ys \<longleftrightarrow> (\<forall>(k, v) \<in> set xs. \<exists>w. (k, w) \<in> set ys \<and> f v = f w)"
    by (force simp: image_iff)
  have "?g ` set xs = ?g ` set ys \<longleftrightarrow> ?g ` set xs \<subseteq> ?g ` set ys \<and> length xs = length ys"
    using card [OF da] card [OF db] card_subset_eq [of "?g ` set ys" "?g ` set xs"]
    by (metis List.finite_set finite_imageI order_refl)
  then show ?thesis by (simp add: sub conj_commute)
qed

lemma deepEqual_canon: "ordinary a \<Longrightarrow> ordinary b \<Longrightarrow> deepEqual a b \<longleftrightarrow> canon a = canon b"
proof (induction a arbitrary: b rule: measure_induct_rule [where f = size])
  case (less a)
  show ?case
  proof (cases "compound a \<and> compound b")
    case True
    have step: "deepEqual v (pget (entries b) k) \<longleftrightarrow> (\<exists>w. (k, w) \<in> set (entries b) \<and> canon v = canon w)"
      if "(k, v) \<in> set (entries a)" for k v
    proof -
      have pv: "ordinary v" and sz: "size v < size a"
        using that less.prems(1) ordinary_entries size_entries by blast+
      show ?thesis
      proof
        assume eq: "deepEqual v (pget (entries b) k)"
        then have "pget (entries b) k \<noteq> JUndef" using deepEqual_undef [OF pv] by metis
        note in_b = ordinary_pget [OF less.prems(2) this]
        with eq less.IH [OF sz pv] show "\<exists>w. (k, w) \<in> set (entries b) \<and> canon v = canon w" by blast
      next
        assume "\<exists>w. (k, w) \<in> set (entries b) \<and> canon v = canon w"
        then obtain w where w: "(k, w) \<in> set (entries b)" "canon v = canon w" by blast
        then have "pget (entries b) k = w" using pget_in distinct_entries [OF less.prems(2)] by blast
        with w less.IH [OF sz pv] ordinary_entries [OF less.prems(2)] show "deepEqual v (pget (entries b) k)"
          by blast
      qed
    qed
    have "deepEqual a b \<longleftrightarrow> length (entries a) = length (entries b) \<and>
        (\<forall>(k, v) \<in> set (entries a). \<exists>w. (k, w) \<in> set (entries b) \<and> canon v = canon w)"
      using True step less.prems(1) by (auto simp: deepEqual_compound)
    then show ?thesis
      using True less.prems
      by (simp add: canon_compound_eq_iff keyed_image_eq_iff distinct_entries)
  next
    case False
    then have "deepEqual a b \<longleftrightarrow> a = b" by (intro deepEqual_primitive) simp
    moreover have "canon a = canon b \<longleftrightarrow> a = b"
    proof (cases "compound a \<or> compound b")
      case True
      with False show ?thesis by (cases a; cases b) (auto simp: compound_def)
    next
      case False
      then show ?thesis by (simp add: canon_primitive)
    qed
    ultimately show ?thesis by simp
  qed
qed

lemma deepEqual_refl: "ordinary a \<Longrightarrow> deepEqual a a"
  by (simp add: deepEqual_canon)

lemma deepEqual_sym: "ordinary a \<Longrightarrow> ordinary b \<Longrightarrow> deepEqual a b \<Longrightarrow> deepEqual b a"
  by (simp add: deepEqual_canon)

lemma deepEqual_trans:
  "ordinary a \<Longrightarrow> ordinary b \<Longrightarrow> ordinary c \<Longrightarrow> deepEqual a b \<Longrightarrow> deepEqual b c \<Longrightarrow> deepEqual a c"
  by (simp add: deepEqual_canon)

section \<open>The list operations, over normal forms\<close>

lemma ex_deepEqual:
  "ordinary x \<Longrightarrow> list_all ordinary ys \<Longrightarrow> list_ex (\<lambda>y. deepEqual x y) ys \<longleftrightarrow> canon x \<in> canon ` set ys"
  by (auto simp: list_ex_iff list_all_iff deepEqual_canon)

lemma ex_deepEqual_flip:
  "ordinary x \<Longrightarrow> list_all ordinary ys \<Longrightarrow> list_ex (\<lambda>y. deepEqual y x) ys \<longleftrightarrow> canon x \<in> canon ` set ys"
  by (simp add: list_ex_iff list_all_iff image_iff) (metis deepEqual_canon)

lemma isSubset_canon:
  "list_all ordinary xs \<Longrightarrow> list_all ordinary ys \<Longrightarrow>
   isSubset xs ys \<longleftrightarrow> canon ` set xs \<subseteq> canon ` set ys"
  unfolding isSubset_def list_all_iff by (auto simp: ex_deepEqual list_all_iff)

lemma containsElement_canon:
  "ordinary x \<Longrightarrow> list_all ordinary xs \<Longrightarrow> containsElement xs x \<longleftrightarrow> canon x \<in> canon ` set xs"
  by (simp add: containsElement_def ex_deepEqual_flip)

lemma arrayIntersection_canon:
  "list_all ordinary xs \<Longrightarrow> list_all ordinary ys \<Longrightarrow>
   arrayIntersection xs ys = filter (\<lambda>x. canon x \<in> canon ` set ys) xs"
  unfolding arrayIntersection_def by (rule filter_cong) (auto simp: list_all_iff ex_deepEqual)

lemma ordinary_arrayIntersection: "list_all ordinary xs \<Longrightarrow> list_all ordinary (arrayIntersection xs ys)"
  by (auto simp: arrayIntersection_def list_all_iff)

lemma set_arrayIntersection:
  "list_all ordinary xs \<Longrightarrow> list_all ordinary ys \<Longrightarrow>
   canon ` set (arrayIntersection xs ys) = canon ` set xs \<inter> canon ` set ys"
  by (auto simp: arrayIntersection_canon)

lemma arrayUnion_Nil [simp]: "arrayUnion a [] = a"
  by (simp add: arrayUnion_def)

lemma arrayUnion_snoc:
  "arrayUnion a (b @ [x]) =
     (if list_ex (\<lambda>r. deepEqual r x) (arrayUnion a b) then arrayUnion a b
      else arrayUnion a b @ [x])"
  by (simp add: arrayUnion_def)

lemma ordinary_arrayUnion:
  "list_all ordinary a \<Longrightarrow> list_all ordinary b \<Longrightarrow> list_all ordinary (arrayUnion a b)"
  by (induction b rule: rev_induct) (auto simp: arrayUnion_snoc)

lemma elements_arrayUnion: "set (arrayUnion a b) \<subseteq> set a \<union> set b"
  by (induction b rule: rev_induct) (auto simp: arrayUnion_snoc)

lemma set_arrayUnion:
  "list_all ordinary a \<Longrightarrow> list_all ordinary b \<Longrightarrow>
   canon ` set (arrayUnion a b) = canon ` set a \<union> canon ` set b"
  by (induction b rule: rev_induct)
     (auto simp: arrayUnion_snoc ex_deepEqual_flip ordinary_arrayUnion)

lemma arrayUnion_assoc:
  assumes "list_all ordinary p" and "list_all ordinary a" and "list_all ordinary b"
  shows "arrayUnion (arrayUnion p a) b = arrayUnion p (arrayUnion a b)"
  using assms(3)
proof (induction b rule: rev_induct)
  case (snoc x b)
  then have x: "ordinary x" and b: "list_all ordinary b"
    and IH: "arrayUnion (arrayUnion p a) b = arrayUnion p (arrayUnion a b)" by auto
  show ?case
    using assms(1,2) x b
    by (auto simp: arrayUnion_snoc IH [symmetric] ex_deepEqual_flip ordinary_arrayUnion set_arrayUnion)
qed simp

section \<open>The operator contract\<close>

text \<open>What one operator makes of a parameter value, as \<open>applyMetadataPolicy\<close> stores it.\<close>

definition run_operator :: "policy_operator \<Rightarrow> jsval \<Rightarrow> jsval \<Rightarrow> jsval option" where
  "run_operator opr v p =
     (case op_apply opr p v of
        ApplyErr _ \<Rightarrow> None
      | ApplyOk x removed \<Rightarrow> Some (if removed then JUndef else x))"

definition opt_ordinary :: "jsval \<Rightarrow> bool" where
  "opt_ordinary p \<longleftrightarrow> p = JUndef \<or> ordinary p"

fun run_each :: "policy_operator \<Rightarrow> jsval list \<Rightarrow> jsval \<Rightarrow> jsval option" where
  "run_each opr [] p = Some p"
| "run_each opr (v # vs) p = Option.bind (run_operator opr v p) (run_each opr vs)"

fun merge_each :: "policy_operator \<Rightarrow> jsval \<Rightarrow> jsval list \<Rightarrow> (string, jsval) result" where
  "merge_each opr v [] = Inr v"
| "merge_each opr v (w # ws) =
     (case op_merge opr v w of Inl e \<Rightarrow> Inl e | Inr c \<Rightarrow> merge_each opr c ws)"

locale policy_operator_contract =
  fixes opr :: policy_operator and range_ok :: "jsval \<Rightarrow> bool"
  assumes merge_ordinary:
      "ordinary a \<Longrightarrow> ordinary b \<Longrightarrow> op_merge opr a b = Inr c \<Longrightarrow> ordinary c"
    and merge_seq:
      "ordinary a \<Longrightarrow> ordinary b \<Longrightarrow> opt_ordinary p \<Longrightarrow> op_merge opr a b = Inr c \<Longrightarrow>
       map_option canon (Option.bind (run_operator opr a p) (run_operator opr b)) =
       map_option canon (run_operator opr c p)"
    and run_output: "run_operator opr v p = Some q \<Longrightarrow> range_ok q"
    and run_ordinary: "ordinary v \<Longrightarrow> opt_ordinary p \<Longrightarrow> run_operator opr v p = Some q \<Longrightarrow> opt_ordinary q"
    and run_cong:
      "ordinary v \<Longrightarrow> opt_ordinary p \<Longrightarrow> opt_ordinary q \<Longrightarrow> range_ok p \<Longrightarrow> range_ok q \<Longrightarrow> canon p = canon q \<Longrightarrow>
       map_option canon (run_operator opr v p) = map_option canon (run_operator opr v q)"
begin

lemma run_each_cong:
  "list_all ordinary vs \<Longrightarrow> opt_ordinary p \<Longrightarrow> opt_ordinary q \<Longrightarrow> range_ok p \<Longrightarrow> range_ok q \<Longrightarrow> canon p = canon q \<Longrightarrow>
   map_option canon (run_each opr vs p) = map_option canon (run_each opr vs q)"
proof (induction vs arbitrary: p q)
  case (Cons v vs)
  then have eq: "map_option canon (run_operator opr v p) = map_option canon (run_operator opr v q)"
    by (intro run_cong) auto
  show ?case
  proof (cases "run_operator opr v p")
    case None
    with eq show ?thesis by simp
  next
    case (Some p')
    with eq obtain q' where q': "run_operator opr v q = Some q'" and "canon p' = canon q'"
      by (cases "run_operator opr v q") auto
    moreover have "range_ok p'" "range_ok q'" using Some q' by (auto intro: run_output)
    moreover have "opt_ordinary p'" "opt_ordinary q'"
      using Some q' Cons.prems by (auto intro: run_ordinary)
    ultimately show ?thesis using Some Cons.IH [of p' q'] Cons.prems(1) by simp
  qed
qed simp

text \<open>Merging a whole chain of operators is applying them one after the other.\<close>

lemma merge_each_seq:
  "ordinary v \<Longrightarrow> list_all ordinary vs \<Longrightarrow> opt_ordinary p \<Longrightarrow> merge_each opr v vs = Inr c \<Longrightarrow>
   map_option canon (run_each opr (v # vs) p) = map_option canon (run_operator opr c p)"
proof (induction vs arbitrary: v)
  case Nil
  then show ?case by (cases "run_operator opr c p") auto
next
  case (Cons w ws)
  then obtain d where d: "op_merge opr v w = Inr d" and c: "merge_each opr d ws = Inr c"
    by (auto split: sum.splits)
  from Cons.prems d have pd: "ordinary d" by (auto intro: merge_ordinary)
  have seq: "map_option canon (Option.bind (run_operator opr v p) (run_operator opr w)) =
      map_option canon (run_operator opr d p)"
    using Cons.prems d by (intro merge_seq) auto
  have "map_option canon (run_each opr (v # w # ws) p) =
      map_option canon (run_each opr (d # ws) p)"
  proof (cases "Option.bind (run_operator opr v p) (run_operator opr w)")
    case None
    with seq have "run_operator opr d p = None" by simp
    with None show ?thesis by (cases "run_operator opr v p") auto
  next
    case (Some q)
    then obtain p' where p': "run_operator opr v p = Some p'" "run_operator opr w p' = Some q"
      by (auto simp: bind_eq_Some_conv)
    from seq Some obtain q' where q': "run_operator opr d p = Some q'" "canon q = canon q'"
      by (cases "run_operator opr d p") auto
    have "opt_ordinary p'" using Cons.prems p'(1) by (auto intro: run_ordinary)
    then have "opt_ordinary q" using Cons.prems p'(2) by (auto intro: run_ordinary)
    moreover have "opt_ordinary q'" using Cons.prems pd q'(1) by (auto intro: run_ordinary)
    moreover have "range_ok q" "range_ok q'" using p'(2) q'(1) by (auto intro: run_output)
    ultimately show ?thesis
      using Cons.prems p' q' run_each_cong [of ws q q'] by simp
  qed
  with Cons.IH [OF pd] Cons.prems c show ?case by simp
qed

end

section \<open>The standard operators satisfy the contract\<close>

lemma valid_config_simps [simp]:
  "valid_config ''value'' v \<longleftrightarrow> v = JNull \<or> isValueOrDefaultMetadataValue v"
  "valid_config ''default'' v \<longleftrightarrow> isValueOrDefaultMetadataValue v"
  "valid_config ''add'' v \<longleftrightarrow> isComparableArray v"
  "valid_config ''one_of'' v \<longleftrightarrow> isComparableArray v"
  "valid_config ''subset_of'' v \<longleftrightarrow> isComparableArray v"
  "valid_config ''superset_of'' v \<longleftrightarrow> isComparableArray v"
  "valid_config ''essential'' v \<longleftrightarrow> is_bool v"
  by (simp_all add: validateStandardPolicyOperatorConfiguration_def)
     (cases v; simp)

lemma merge_checked_Inr:
  "merge_checked n f a b = Inr c \<longleftrightarrow> valid_config n a \<and> valid_config n b \<and> f a b = Inr c"
  by (auto simp: merge_checked_def split: option.splits)

lemma apply_checked_Ok:
  "apply_checked n f p v = ApplyOk x r \<longleftrightarrow> valid_config n v \<and> f p v = ApplyOk x r"
  by (auto simp: apply_checked_def split: option.splits)

lemma run_checked:
  "run_operator \<lparr>op_name = m, op_order = r, op_action = t, op_apply = apply_checked n f,
      op_merge = g, op_canCombineWith = h\<rparr> v p =
     (if valid_config n v
      then (case f p v of ApplyErr _ \<Rightarrow> None | ApplyOk x rem \<Rightarrow> Some (if rem then JUndef else x))
      else None)"
  by (auto simp: run_operator_def apply_checked_def split: option.splits)

lemma isValueOrDefault_iff [simp]:
  "isValueOrDefaultMetadataValue JUndef = False" "isValueOrDefaultMetadataValue JNull = False"
  "isValueOrDefaultMetadataValue (JObj kvs) = False" "isValueOrDefaultMetadataValue (JArr xs)"
  "isValueOrDefaultMetadataValue (JStr s)" "isValueOrDefaultMetadataValue (JNum n)"
  "isValueOrDefaultMetadataValue (JBool b)"
  by (simp_all add: isValueOrDefaultMetadataValue_def isScalar_def)

lemma isOneOf_iff [simp]:
  "isOneOfMetadataValue JUndef = False" "isOneOfMetadataValue JNull = False"
  "isOneOfMetadataValue (JObj kvs)" "isOneOfMetadataValue (JArr xs) = False"
  "isOneOfMetadataValue (JStr s)" "isOneOfMetadataValue (JNum n)"
  "isOneOfMetadataValue (JBool b) = False"
  by (simp_all add: isOneOfMetadataValue_def isJsonObject_def)

lemma isComparableArray_iff:
  "isComparableArray v \<longleftrightarrow> (\<exists>xs. v = JArr xs \<and> list_all isComparableElement xs)"
  by (cases v) (auto simp: isComparableArray_def)

lemma comparable_arrayUnion:
  "list_all isComparableElement a \<Longrightarrow> list_all isComparableElement b \<Longrightarrow>
   list_all isComparableElement (arrayUnion a b)"
  using elements_arrayUnion [of a b] by (auto simp: list_all_iff)

lemma comparable_arrayIntersection:
  "list_all isComparableElement a \<Longrightarrow> list_all isComparableElement (arrayIntersection a b)"
  by (auto simp: list_all_iff arrayIntersection_def)

lemma canon_eq_undef [simp]: "canon p = JUndef \<longleftrightarrow> p = JUndef" "JUndef = canon p \<longleftrightarrow> p = JUndef"
  by (cases p; simp)+

lemma canon_eq_null [simp]: "canon p = JNull \<longleftrightarrow> p = JNull" "JNull = canon p \<longleftrightarrow> p = JNull"
  by (cases p; simp)+

lemma canon_arr_eq:
  "canon (JArr xs) = canon (JArr ys) \<longleftrightarrow> map canon xs = map canon ys"
  if "list_all ordinary xs" "list_all ordinary ys"
proof -
  have "canon (JArr xs) = canon (JArr ys) \<longleftrightarrow> deepEqual (JArr xs) (JArr ys)"
    using that by (simp add: deepEqual_canon)
  also have "\<dots> \<longleftrightarrow> length xs = length ys \<and> (\<forall>i < length xs. canon (xs ! i) = canon (ys ! i))"
    using that by (auto simp: deepEqual_arr deepEqual_canon list_all_length)
  also have "\<dots> \<longleftrightarrow> map canon xs = map canon ys"
    by (auto simp: list_eq_iff_nth_eq)
  finally show ?thesis .
qed

lemma canon_arr_set:
  assumes "canon (JArr xs) = canon (JArr ys)" "list_all ordinary xs" "list_all ordinary ys"
  shows "canon ` set xs = canon ` set ys"
proof -
  have "map canon xs = map canon ys" using assms canon_arr_eq by blast
  then show ?thesis by (metis set_map)
qed

lemma map_canon_arrayUnion:
  assumes "map canon xs = map canon ys" "list_all ordinary xs" "list_all ordinary ys" "list_all ordinary vs"
  shows "map canon (arrayUnion xs vs) = map canon (arrayUnion ys vs)"
  using assms(4)
proof (induction vs rule: rev_induct)
  case (snoc v vs)
  have "canon ` set xs = canon ` set ys" using assms(1) by (metis set_map)
  with snoc assms(1-3) show ?case
    by (simp add: arrayUnion_snoc ex_deepEqual_flip ordinary_arrayUnion set_arrayUnion)
qed (use assms in simp)

lemma map_canon_arrayIntersection:
  assumes "map canon xs = map canon ys" "list_all ordinary xs" "list_all ordinary ys" "list_all ordinary vs"
  shows "map canon (arrayIntersection xs vs) = map canon (arrayIntersection ys vs)"
proof -
  have "map canon (filter (\<lambda>x. canon x \<in> canon ` set vs) zs) =
      filter (\<lambda>c. c \<in> canon ` set vs) (map canon zs)" for zs
    by (simp add: filter_map comp_def)
  then show ?thesis using assms by (simp add: arrayIntersection_canon)
qed

lemma arrayIntersection_seq:
  assumes "list_all ordinary p" "list_all ordinary a" "list_all ordinary b"
  shows "arrayIntersection (arrayIntersection p a) b = arrayIntersection p (arrayIntersection a b)"
  using assms set_arrayIntersection [OF assms(2,3)]
  by (auto simp: arrayIntersection_canon ordinary_arrayIntersection list_all_iff intro!: filter_cong)

interpretation value_op: policy_operator_contract valueOperator
  "\<lambda>q. q = JUndef \<or> isValueOrDefaultMetadataValue q"
  by unfold_locales
    (auto simp: valueOperator_def run_checked merge_checked_Inr opt_ordinary_def deepEqual_canon
      split: if_splits)

interpretation default_op: policy_operator_contract defaultOperator isValueOrDefaultMetadataValue
  by unfold_locales
    (auto simp: defaultOperator_def run_checked merge_checked_Inr opt_ordinary_def deepEqual_canon
      split: if_splits)

interpretation essential_op: policy_operator_contract essentialOperator
  "\<lambda>q. q = JUndef \<or> isEssentialMetadataValue q"
  by unfold_locales
    (auto simp: essentialOperator_def run_checked merge_checked_Inr opt_ordinary_def
        isEssentialMetadataValue_def split: if_splits elim!: is_bool.elims)

interpretation one_of_op: policy_operator_contract oneOfOperator
  "\<lambda>q. q = JUndef \<or> isOneOfMetadataValue q"
  by unfold_locales
    (auto simp: oneOfOperator_def run_checked merge_checked_Inr opt_ordinary_def Let_def
        isComparableArray_iff ordinary_arrayIntersection comparable_arrayIntersection
        containsElement_canon set_arrayIntersection split: if_splits)

interpretation superset_of_op: policy_operator_contract supersetOfOperator
  "\<lambda>q. q = JUndef \<or> isComparableArray q"
  by unfold_locales
    (auto simp: supersetOfOperator_def run_checked merge_checked_Inr opt_ordinary_def
        isComparableArray_iff ordinary_arrayUnion comparable_arrayUnion
        isSubset_canon set_arrayUnion dest: canon_arr_set split: if_splits)


interpretation add_op: policy_operator_contract addOperator isComparableArray
proof unfold_locales
  fix v p q
  assume "ordinary v" "opt_ordinary p" "opt_ordinary q" "isComparableArray p" "isComparableArray q" "canon p = canon q"
  then obtain xs ys where "p = JArr xs" "q = JArr ys" "list_all ordinary xs" "list_all ordinary ys"
      "list_all isComparableElement xs" "list_all isComparableElement ys" "map canon xs = map canon ys"
    by (auto simp: opt_ordinary_def isComparableArray_iff canon_arr_eq simp del: canon.simps)
  with \<open>ordinary v\<close> map_canon_arrayUnion [of xs ys "items v"]
  show "map_option canon (run_operator addOperator v p) = map_option canon (run_operator addOperator v q)"
    by (cases v) (simp_all add: addOperator_def run_checked isComparableArray_def canon_arr_eq
        ordinary_arrayUnion del: canon.simps)
qed (auto simp: addOperator_def run_checked merge_checked_Inr opt_ordinary_def isComparableArray_iff
        ordinary_arrayUnion comparable_arrayUnion arrayUnion_assoc simp del: canon.simps split: if_splits)

interpretation subset_of_op: policy_operator_contract subsetOfOperator
  "\<lambda>q. q = JUndef \<or> isComparableArray q"
proof unfold_locales
  fix v p q
  assume "ordinary v" "opt_ordinary p" "opt_ordinary q" "p = JUndef \<or> isComparableArray p"
    "q = JUndef \<or> isComparableArray q" "canon p = canon q"
  then consider "p = JUndef" "q = JUndef"
    | xs ys where "p = JArr xs" "q = JArr ys" "list_all ordinary xs" "list_all ordinary ys"
      "list_all isComparableElement xs" "list_all isComparableElement ys" "map canon xs = map canon ys"
    by (auto simp: opt_ordinary_def isComparableArray_iff canon_arr_eq simp del: canon.simps(1))
  then show "map_option canon (run_operator subsetOfOperator v p) =
      map_option canon (run_operator subsetOfOperator v q)"
  proof cases
    case 2
    with \<open>ordinary v\<close> map_canon_arrayIntersection [of xs ys "items v"] show ?thesis
      by (cases v) (simp_all add: subsetOfOperator_def run_checked isComparableArray_def canon_arr_eq
          ordinary_arrayIntersection del: canon.simps)
  qed simp
qed (auto simp: subsetOfOperator_def run_checked merge_checked_Inr opt_ordinary_def isComparableArray_iff
        ordinary_arrayIntersection comparable_arrayIntersection arrayIntersection_seq
        simp del: canon.simps split: if_splits)

lemma operators_cases:
  assumes "map_of operators n = Some opr"
  obtains "n = ''value''" "opr = valueOperator" | "n = ''add''" "opr = addOperator"
    | "n = ''default''" "opr = defaultOperator" | "n = ''one_of''" "opr = oneOfOperator"
    | "n = ''subset_of''" "opr = subsetOfOperator" | "n = ''superset_of''" "opr = supersetOfOperator"
    | "n = ''essential''" "opr = essentialOperator"
  using assms unfolding operators_def by (simp split: if_splits)

lemma operators_name: "map_of operators n = Some opr \<Longrightarrow> op_name opr = n"
  by (erule operators_cases) (simp_all add: operator_defs)

section \<open>Properties\<close>

text \<open>
  C31: Merging the values a chain of superiors gives to one standard operator is applying them one
  after the other: whenever the fold of \<open>merge\<close> over the values succeeds, applying its result to a
  parameter fails exactly when the step-by-step application fails, and otherwise gives the same
  value, up to the order of the members of objects (and an array counts as the object of its
  indices, as \<open>deepEqual\<close> has it). The operator values are ordinary and the parameter is absent or
  ordinary: JSON in which no object has a member named \<open>length\<close> or \<open>__proto__\<close>, without which the
  statement fails (\<open>special_names_break_merge\<close>).
\<close>
theorem merge_is_sequential_application:
  assumes "map_of operators n = Some opr"
    and "ordinary v" and "list_all ordinary vs" and "opt_ordinary p"
    and "merge_each opr v vs = Inr c"
  shows "map_option canon (run_each opr (v # vs) p) = map_option canon (run_operator opr c p)"
  using assms(1)
proof (cases rule: operators_cases)
  case 1 then show ?thesis using value_op.merge_each_seq assms by simp
next
  case 2 then show ?thesis using add_op.merge_each_seq assms by simp
next
  case 3 then show ?thesis using default_op.merge_each_seq assms by simp
next
  case 4 then show ?thesis using one_of_op.merge_each_seq assms by simp
next
  case 5 then show ?thesis using subset_of_op.merge_each_seq assms by simp
next
  case 6 then show ?thesis using superset_of_op.merge_each_seq assms by simp
next
  case 7 then show ?thesis using essential_op.merge_each_seq assms by simp
qed

theorem merge_is_sequential_application_witness:
  "map_option canon (run_each subsetOfOperator
       [JArr [JStr ''a'', JStr ''b''], JArr [JStr ''b'', JStr ''c'']] (JArr [JStr ''b'', JStr ''a''])) =
   map_option canon (run_operator subsetOfOperator (JArr [JStr ''b'']) (JArr [JStr ''b'', JStr ''a'']))"
proof (rule merge_is_sequential_application)
  show "map_of operators ''subset_of'' = Some subsetOfOperator" by (simp add: operators_def)
  show "merge_each subsetOfOperator (JArr [JStr ''a'', JStr ''b'']) [JArr [JStr ''b'', JStr ''c'']] =
      Inr (JArr [JStr ''b''])"
    by (simp add: subsetOfOperator_def merge_checked_def validateStandardPolicyOperatorConfiguration_def
        isComparableArray_def isComparableElement_def arrayIntersection_def)
qed (simp_all add: opt_ordinary_def)

text \<open>
  The compatibility check of two standard operators is symmetric: asking the first about the
  second gives the answer the second gives about the first, for all operator values.
\<close>
lemma canCombineWith_symmetric:
  assumes "map_of operators m = Some f" and "map_of operators n = Some g"
  shows "op_canCombineWith f n a b = op_canCombineWith g m b a"
  using assms(1)
proof (cases rule: operators_cases)
  case 1
  show ?thesis using assms(2)
    by (cases rule: operators_cases) (simp_all add: 1 operator_defs NEVER_ALLOWED_def checkValueCombination_def)
next
  case 2
  show ?thesis using assms(2)
    by (cases rule: operators_cases) (simp_all add: 2 operator_defs NEVER_ALLOWED_def checkValueCombination_def conj_commute)
next
  case 3
  show ?thesis using assms(2)
    by (cases rule: operators_cases) (simp_all add: 3 operator_defs NEVER_ALLOWED_def checkValueCombination_def)
next
  case 4
  show ?thesis using assms(2)
    by (cases rule: operators_cases) (simp_all add: 4 operator_defs NEVER_ALLOWED_def checkValueCombination_def)
next
  case 5
  show ?thesis using assms(2)
    by (cases rule: operators_cases) (auto simp add: 5 operator_defs NEVER_ALLOWED_def checkValueCombination_def)
next
  case 6
  show ?thesis using assms(2)
    by (cases rule: operators_cases) (auto simp add: 6 operator_defs NEVER_ALLOWED_def checkValueCombination_def)
next
  case 7
  show ?thesis using assms(2)
    by (cases rule: operators_cases) (simp_all add: 7 operator_defs NEVER_ALLOWED_def checkValueCombination_def)
qed

lemma canCombineWith_symmetric_witness:
  "op_canCombineWith addOperator ''subset_of'' (JArr [JStr ''a'']) (JArr [JStr ''b'']) =
   op_canCombineWith subsetOfOperator ''add'' (JArr [JStr ''b'']) (JArr [JStr ''a''])"
  by (rule canCombineWith_symmetric) (simp_all add: operators_def)

text \<open>
  On ordinary values \<open>deepEqual\<close> decides equality of a normal form in which the members of an
  object are in key order and an array is the object of its indices; so it is an equivalence, blind
  to member order, and it does not tell an array from an object with the same index members.
\<close>
lemma deepEqual_decides_normal_form:
  "ordinary a \<Longrightarrow> ordinary b \<Longrightarrow>
     (deepEqual a b \<longleftrightarrow> canon a = canon b) \<and> deepEqual (JArr []) (JObj [])"
  by (simp add: deepEqual_canon deepEqual_compound compound_def)

text \<open>
  The two member names are excluded for a reason: an array answers \<open>length\<close> with its own length and
  \<open>__proto__\<close> with its prototype, so the comparison takes these objects for any one-element array, in
  one direction only; and then merging two values of one operator is not applying both.
\<close>
lemma special_names_confuse_deepEqual:
  "deepEqual (JObj [(''length'', JNum 1)]) (JArr [JStr ''x''])"
  "\<not> deepEqual (JArr [JStr ''x'']) (JObj [(''length'', JNum 1)])"
  "deepEqual (JObj [(''__proto__'', JObj [])]) (JObj [(''a'', JNum 1)])"
  by code_simp+

lemma special_names_break_merge:
  "op_merge subsetOfOperator (JArr [JObj [(''a'', JArr [JStr ''x''])]]) (JArr [JObj [(''a'', JObj [(''length'', JNum 1)])]]) =
     Inr (JArr [])"
  "op_merge supersetOfOperator (JArr [JObj [(''a'', JObj [(''length'', JNum 1)])]]) (JArr [JObj [(''a'', JArr [JStr ''x''])]]) =
     Inr (JArr [JObj [(''a'', JObj [(''length'', JNum 1)])]])"
  by code_simp+

lemma deepEqual_decides_normal_form_witness:
  "(deepEqual (JObj [(''x'', JNum 1), (''y'', JNull)]) (JObj [(''y'', JNull), (''x'', JNum 1)]) \<longleftrightarrow>
    canon (JObj [(''x'', JNum 1), (''y'', JNull)]) = canon (JObj [(''y'', JNull), (''x'', JNum 1)])) \<and>
   deepEqual (JArr []) (JObj [])"
  by (rule deepEqual_decides_normal_form) (simp_all add: special_names_def)

end
