(* ===== verification/Policy_Merge.thy ===== *)
theory Policy_Merge
  imports Policy_Operators
begin

text \<open>
  packages/core/src/metadata-policy/custom-operators.ts and merge.ts: validation of
  federation-defined operators, the per-call operator registry, and
  \<open>resolveMetadataPolicy\<close>, which merges the policies of the subordinate statements of a chain in
  order from the Trust Anchor down to the leaf.

  The merged policy is one association list per level: entity type, parameter, operator. The
  source mutates it in place through references; here every step returns the whole structure.
  The lemmas show that the operators left on each parameter are pairwise compatible and validly
  configured, and that no subordinate loosens what a superior's operator demands.
\<close>

record parsed_statement =
  header :: "jsval dict"
  payload :: "jsval dict"

type_synonym merged_policy = "jsval dict dict dict"

section \<open>Custom operators\<close>

definition STANDARD_OPERATOR_NAMES :: "string list" where
  "STANDARD_OPERATOR_NAMES =
     [''value'', ''add'', ''default'', ''one_of'', ''subset_of'', ''superset_of'', ''essential'']"

definition metadataPolicyError :: "string \<Rightarrow> fed_error" where
  "metadataPolicyError d = mk_err ''ERR_METADATA_POLICY_ERROR'' d"

text \<open>\<open>None\<close> is an absent \<open>customOperators\<close> option.\<close>

definition buildOperatorLookup :: "policy_operator list option \<Rightarrow> policy_operator dict" where
  "buildOperatorLookup customOperators =
     (case customOperators of
        None \<Rightarrow> operators
      | Some ops \<Rightarrow>
          if ops = [] then operators
          else foldl (\<lambda>merged opr. AList.update (op_name opr) opr merged) operators ops)"

definition check_custom_operator ::
  "policy_operator \<Rightarrow> string list \<Rightarrow> (fed_error, string list) result" where
  "check_custom_operator opr seen =
     (if op_name opr \<in> set STANDARD_OPERATOR_NAMES then
        Inl (metadataPolicyError (''Custom policy operator name '' @ quoted (op_name opr) @
               '' conflicts with a standard operator''))
      else if op_name opr \<in> set seen then
        Inl (metadataPolicyError (''Duplicate custom policy operator name: '' @ quoted (op_name opr)))
      else if op_action opr = Modify \<and> op_order opr \<le> 1 then
        Inl (metadataPolicyError (''Custom modify-action operator '' @ quoted (op_name opr) @
               '' must declare order > 1 (apply after standard '' @ quoted ''value'' @ '')''))
      else if op_action opr = Check \<and> op_order opr \<ge> 7 then
        Inl (metadataPolicyError (''Custom check-action operator '' @ quoted (op_name opr) @
               '' must declare order < 7 (apply before standard '' @ quoted ''essential'' @ '')''))
      else if op_action opr = Both \<and> (op_order opr \<le> 1 \<or> op_order opr \<ge> 7) then
        Inl (metadataPolicyError (''Custom '' @ quoted ''both'' @ ''-action operator '' @
               quoted (op_name opr) @ '' must declare 1 < order < 7''))
      else Inr (op_name opr # seen))"

definition validateCustomOperators :: "policy_operator list \<Rightarrow> (fed_error, unit) result" where
  "validateCustomOperators ops =
     (case for_each check_custom_operator ops [] of Inl e \<Rightarrow> Inl e | Inr _ \<Rightarrow> Inr ())"

text \<open>The check both \<open>resolveMetadataPolicy\<close> and \<open>applyMetadataPolicy\<close> start with.\<close>

definition check_options :: "policy_operator list option \<Rightarrow> (fed_error, unit) result" where
  "check_options customOperators =
     (case customOperators of
        None \<Rightarrow> Inr ()
      | Some ops \<Rightarrow> if length ops > 0 then validateCustomOperators ops else Inr ())"

section \<open>The merged policy\<close>

definition ops_of :: "merged_policy \<Rightarrow> string \<Rightarrow> string \<Rightarrow> jsval dict" where
  "ops_of m et pn =
     (case map_of m et of None \<Rightarrow> []
      | Some ps \<Rightarrow> (case map_of ps pn of None \<Rightarrow> [] | Some d \<Rightarrow> d))"

definition put_ops :: "string \<Rightarrow> string \<Rightarrow> jsval dict \<Rightarrow> merged_policy \<Rightarrow> merged_policy" where
  "put_ops et pn d m =
     AList.update et (AList.update pn d (case map_of m et of None \<Rightarrow> [] | Some ps \<Rightarrow> ps)) m"

definition ensure_type :: "string \<Rightarrow> merged_policy \<Rightarrow> merged_policy" where
  "ensure_type et m = (case map_of m et of None \<Rightarrow> AList.update et [] m | Some _ \<Rightarrow> m)"

lemma ops_of_put_ops [simp]:
  "ops_of (put_ops et pn d m) et' pn' = (if et' = et \<and> pn' = pn then d else ops_of m et' pn')"
  by (auto simp: ops_of_def put_ops_def split: option.splits)

lemma ops_of_ensure_type [simp]: "ops_of (ensure_type et m) = ops_of m"
  by (auto simp: ops_of_def ensure_type_def fun_eq_iff split: option.splits)

section \<open>resolveMetadataPolicy\<close>

text \<open>One operator entry of one parameter policy.\<close>

definition merge_operator_entry ::
  "policy_operator dict \<Rightarrow> string \<Rightarrow> string \<Rightarrow> string \<times> jsval \<Rightarrow> merged_policy \<Rightarrow>
   (fed_error, merged_policy) result"
where
  "merge_operator_entry lookup et pn = (\<lambda>(opName, opValue) merged.
     (case map_of lookup opName of
        None \<Rightarrow> Inr merged
      | Some opDef \<Rightarrow>
        (case validateStandardPolicyOperatorConfiguration opName opValue of
           Some configError \<Rightarrow>
             Inl (metadataPolicyError (''Invalid '' @ quoted opName @ '' operator for '' @ et @ ''.'' @ pn @
                    '': '' @ configError))
         | None \<Rightarrow>
             (let mergedParam = ops_of merged et pn in
              if pget mergedParam opName \<noteq> JUndef then
                (case op_merge opDef (pget mergedParam opName) opValue of
                   Inl e \<Rightarrow> Inl (metadataPolicyError (''Failed to merge '' @ quoted opName @
                             '' operator for '' @ et @ ''.'' @ pn @ '': '' @ e))
                 | Inr v \<Rightarrow> Inr (put_ops et pn (AList.update opName v mergedParam) merged))
              else Inr (put_ops et pn (AList.update opName opValue mergedParam) merged)))))"

text \<open>The pairwise compatibility check of the known operators of one parameter: the pairs
  \<open>a < b\<close> of the list of their names.\<close>

definition compatible_pair :: "policy_operator dict \<Rightarrow> jsval dict \<Rightarrow> string \<Rightarrow> string \<Rightarrow> bool" where
  "compatible_pair lookup mergedParam opA opB =
     (case (map_of lookup opA, map_of lookup opB) of
        (Some defA, Some defB) \<Rightarrow>
          op_canCombineWith defA opB (pget mergedParam opA) (pget mergedParam opB) \<and>
          op_canCombineWith defB opA (pget mergedParam opB) (pget mergedParam opA)
      | _ \<Rightarrow> True)"

fun check_pairs ::
  "policy_operator dict \<Rightarrow> string \<Rightarrow> string \<Rightarrow> jsval dict \<Rightarrow> string list \<Rightarrow> (fed_error, unit) result"
where
  "check_pairs lookup et pn mergedParam [] = Inr ()"
| "check_pairs lookup et pn mergedParam (opA # opNames) =
     (case find (\<lambda>opB. \<not> compatible_pair lookup mergedParam opA opB) opNames of
        Some opB \<Rightarrow> Inl (metadataPolicyError (''Incompatible operators '' @ quoted opA @ '' and '' @
                     quoted opB @ '' for '' @ et @ ''.'' @ pn))
      | None \<Rightarrow> check_pairs lookup et pn mergedParam opNames)"

definition known_ops :: "policy_operator dict \<Rightarrow> jsval dict \<Rightarrow> string list" where
  "known_ops lookup mergedParam = filter (\<lambda>k. map_of lookup k \<noteq> None) (map fst mergedParam)"

definition merge_parameter ::
  "policy_operator dict \<Rightarrow> string \<Rightarrow> string \<times> jsval \<Rightarrow> merged_policy \<Rightarrow> (fed_error, merged_policy) result"
where
  "merge_parameter lookup et = (\<lambda>(pn, opEntries) merged.
     (case for_each (merge_operator_entry lookup et pn) (entries opEntries)
             (put_ops et pn (ops_of merged et pn) merged) of
        Inl e \<Rightarrow> Inl e
      | Inr merged' \<Rightarrow>
          (let mergedParam = ops_of merged' et pn in
           case check_pairs lookup et pn mergedParam (known_ops lookup mergedParam) of
             Inl e \<Rightarrow> Inl e | Inr _ \<Rightarrow> Inr merged')))"

definition merge_entity_type ::
  "policy_operator dict \<Rightarrow> string \<times> jsval \<Rightarrow> merged_policy \<Rightarrow> (fed_error, merged_policy) result"
where
  "merge_entity_type lookup = (\<lambda>(et, paramPolicies) merged.
     for_each (merge_parameter lookup et) (entries paramPolicies) (ensure_type et merged))"

definition merge_statement ::
  "policy_operator dict \<Rightarrow> parsed_statement \<Rightarrow> merged_policy \<Rightarrow> (fed_error, merged_policy) result"
where
  "merge_statement lookup stmt merged =
     (let policy = pget (payload stmt) ''metadata_policy'' in
      if \<not> truthy policy then Inr merged
      else for_each (merge_entity_type lookup) (entries policy) merged)"

text \<open>\<open>criticalOps\<close>: the names of every \<open>metadata_policy_crit\<close>, in order of first occurrence.
  The claim has type \<open>string[]\<close>; an element that is no string names no operator.\<close>

definition criticalOps :: "parsed_statement list \<Rightarrow> jsval list" where
  "criticalOps stmts =
     rev (remdups (rev (concat (map (\<lambda>s. items (pget (payload s) ''metadata_policy_crit'')) stmts))))"

definition check_critical ::
  "policy_operator dict \<Rightarrow> jsval \<Rightarrow> unit \<Rightarrow> (fed_error, unit) result" where
  "check_critical lookup critOp _ =
     (case critOp of
        JStr n \<Rightarrow>
          if n \<in> set STANDARD_OPERATOR_NAMES then
            Inl (metadataPolicyError
                  (''metadata_policy_crit must not list standard metadata policy operator '' @ quoted n))
          else if map_of lookup n = None then
            Inl (metadataPolicyError (''Unknown critical metadata policy operator: '' @ quoted n))
          else Inr ()
      | _ \<Rightarrow> Inl (metadataPolicyError ''Unknown critical metadata policy operator''))"

definition resolveMetadataPolicy ::
  "parsed_statement list \<Rightarrow> policy_operator list option \<Rightarrow> (fed_error, merged_policy) result"
where
  "resolveMetadataPolicy subordinateStatements customOperators =
     (case check_options customOperators of
        Inl e \<Rightarrow> Inl e
      | Inr _ \<Rightarrow>
        (let lookup = buildOperatorLookup customOperators in
         case for_each (check_critical lookup) (criticalOps subordinateStatements) () of
           Inl e \<Rightarrow> Inl e
         | Inr _ \<Rightarrow> for_each (merge_statement lookup) (rev subordinateStatements) []))"

section \<open>The operator registry\<close>

lemma dom_operators: "map_of operators n \<noteq> None \<longleftrightarrow> n \<in> set STANDARD_OPERATOR_NAMES"
  by (auto simp: operators_def STANDARD_OPERATOR_NAMES_def)

lemma check_custom_operator_Inr:
  "check_custom_operator opr seen = Inr seen' \<Longrightarrow>
     op_name opr \<notin> set STANDARD_OPERATOR_NAMES \<and> op_name opr \<notin> set seen \<and> seen' = op_name opr # seen \<and>
     (op_action opr = Modify \<longrightarrow> op_order opr > 1) \<and> (op_action opr = Check \<longrightarrow> op_order opr < 7) \<and>
     (op_action opr = Both \<longrightarrow> 1 < op_order opr \<and> op_order opr < 7)"
  by (auto simp: check_custom_operator_def split: if_splits)

lemma for_each_custom:
  "for_each check_custom_operator ops seen = Inr seen' \<Longrightarrow> distinct seen \<Longrightarrow>
     distinct (map op_name ops) \<and>
     (\<forall>opr \<in> set ops. op_name opr \<notin> set seen \<and> op_name opr \<notin> set STANDARD_OPERATOR_NAMES \<and>
       (op_action opr = Modify \<longrightarrow> op_order opr > 1) \<and> (op_action opr = Check \<longrightarrow> op_order opr < 7) \<and>
       (op_action opr = Both \<longrightarrow> 1 < op_order opr \<and> op_order opr < 7))"
proof (induction ops arbitrary: seen)
  case (Cons opr ops)
  then obtain u where "check_custom_operator opr seen = Inr u" "for_each check_custom_operator ops u = Inr seen'"
    by (auto split: sum.splits)
  with Cons.IH [of u] Cons.prems(2) show ?case by (auto dest!: check_custom_operator_Inr)
qed simp

lemma map_of_foldl_update:
  "n \<notin> set (map op_name ops) \<Longrightarrow>
     map_of (foldl (\<lambda>m opr. AList.update (op_name opr) opr m) m ops) n = map_of m n"
  by (induction ops arbitrary: m) auto

lemma lookup_standard:
  assumes "check_options custom = Inr u" and "n \<in> set STANDARD_OPERATOR_NAMES"
  shows "map_of (buildOperatorLookup custom) n = map_of operators n"
proof (cases custom)
  case (Some ops)
  have "n \<notin> set (map op_name ops)"
    if "ops \<noteq> []"
    using assms Some that for_each_custom [of ops "[]"]
    by (auto simp: check_options_def validateCustomOperators_def split: sum.splits)
  then show ?thesis
    by (cases "ops = []") (simp_all add: Some buildOperatorLookup_def map_of_foldl_update)
qed (simp add: buildOperatorLookup_def)

section \<open>Lifting per-entry facts to the whole merge\<close>

lemma merge_parameter_keeps:
  assumes "merge_parameter lookup et (pn, oe) m = Inr m'" and "R (ops_of m)"
    and "\<And>e t t'. e \<in> set (entries oe) \<Longrightarrow> R (ops_of t) \<Longrightarrow>
           merge_operator_entry lookup et pn e t = Inr t' \<Longrightarrow> R (ops_of t')"
  shows "R (ops_of m')"
proof -
  have same: "ops_of (put_ops et pn (ops_of m et pn) m) = ops_of m" by (auto simp: fun_eq_iff)
  from assms(1) have "for_each (merge_operator_entry lookup et pn) (entries oe)
      (put_ops et pn (ops_of m et pn) m) = Inr m'"
    by (auto simp: merge_parameter_def Let_def split: sum.splits)
  then show ?thesis
    by (rule for_each_invariant) (use assms(2,3) same in auto)
qed

lemma merge_entity_type_keeps:
  assumes "merge_entity_type lookup (et, pp) m = Inr m'" and "R (ops_of m)"
    and "\<And>pn oe e t t'. (pn, oe) \<in> set (entries pp) \<Longrightarrow> e \<in> set (entries oe) \<Longrightarrow> R (ops_of t) \<Longrightarrow>
           merge_operator_entry lookup et pn e t = Inr t' \<Longrightarrow> R (ops_of t')"
  shows "R (ops_of m')"
proof -
  from assms(1) have "for_each (merge_parameter lookup et) (entries pp) (ensure_type et m) = Inr m'"
    by (simp add: merge_entity_type_def)
  then show ?thesis
  proof (rule for_each_invariant)
    fix x t t' assume x: "x \<in> set (entries pp)" "R (ops_of t)" "merge_parameter lookup et x t = Inr t'"
    obtain pn oe where "x = (pn, oe)" by (cases x)
    with x show "R (ops_of t')" by (auto intro: merge_parameter_keeps assms(3))
  qed (use assms(2) in simp)
qed

lemma merge_statement_keeps:
  assumes "merge_statement lookup stmt m = Inr m'" and "R (ops_of m)"
    and "\<And>et pp pn oe e t t'. (et, pp) \<in> set (entries (pget (payload stmt) ''metadata_policy'')) \<Longrightarrow>
           (pn, oe) \<in> set (entries pp) \<Longrightarrow> e \<in> set (entries oe) \<Longrightarrow> R (ops_of t) \<Longrightarrow>
           merge_operator_entry lookup et pn e t = Inr t' \<Longrightarrow> R (ops_of t')"
  shows "R (ops_of m')"
proof (cases "truthy (pget (payload stmt) ''metadata_policy'')")
  case True
  with assms(1) have "for_each (merge_entity_type lookup)
      (entries (pget (payload stmt) ''metadata_policy'')) m = Inr m'"
    by (simp add: merge_statement_def)
  then show ?thesis
  proof (rule for_each_invariant)
    fix x t t' assume x: "x \<in> set (entries (pget (payload stmt) ''metadata_policy''))"
      "R (ops_of t)" "merge_entity_type lookup x t = Inr t'"
    obtain et pp where "x = (et, pp)" by (cases x)
    with x show "R (ops_of t')" by (auto intro: merge_entity_type_keeps assms(3))
  qed (use assms(2) in simp)
qed (use assms in \<open>simp add: merge_statement_def\<close>)

section \<open>Compatibility of the merged operators\<close>

lemma check_pairs_Inr:
  "check_pairs lookup et pn d ns = Inr u \<longleftrightarrow> sorted_wrt (compatible_pair lookup d) ns"
proof (induction ns)
  case (Cons a ns)
  have "check_pairs lookup et pn d (a # ns) = Inr u \<longleftrightarrow>
      find (\<lambda>b. \<not> compatible_pair lookup d a b) ns = None \<and> check_pairs lookup et pn d ns = Inr u"
    by (auto split: option.split)
  with Cons show ?case by (auto simp: find_None_iff)
qed simp

lemma compatible_pair_sym: "compatible_pair lookup d a b = compatible_pair lookup d b a"
  by (auto simp: compatible_pair_def split: option.splits)

definition all_compatible :: "policy_operator dict \<Rightarrow> merged_policy \<Rightarrow> bool" where
  "all_compatible lookup m \<longleftrightarrow>
     (\<forall>et pn. sorted_wrt (compatible_pair lookup (ops_of m et pn)) (known_ops lookup (ops_of m et pn)))"

lemma merge_operator_entry_other:
  assumes "merge_operator_entry lookup et pn e m = Inr m'" and "\<not> (et' = et \<and> pn' = pn)"
  shows "ops_of m' et' pn' = ops_of m et' pn'"
  using assms by (cases e) (auto simp: merge_operator_entry_def Let_def split: option.splits if_splits sum.splits)

lemma merge_parameter_other:
  assumes "merge_parameter lookup et (pn, oe) m = Inr m'" and "\<not> (et' = et \<and> pn' = pn)"
  shows "ops_of m' et' pn' = ops_of m et' pn'"
  using assms(1)
  by (rule merge_parameter_keeps [where R = "\<lambda>f. f et' pn' = ops_of m et' pn'"])
     (use merge_operator_entry_other assms(2) in auto)

lemma merge_parameter_compatible:
  assumes "merge_parameter lookup et (pn, oe) m = Inr m'" and "all_compatible lookup m"
  shows "all_compatible lookup m'"
  unfolding all_compatible_def
proof (intro allI)
  fix et' pn'
  show "sorted_wrt (compatible_pair lookup (ops_of m' et' pn')) (known_ops lookup (ops_of m' et' pn'))"
  proof (cases "et' = et \<and> pn' = pn")
    case True
    with assms(1) show ?thesis
      by (auto simp: merge_parameter_def Let_def check_pairs_Inr split: sum.splits)
  next
    case False
    with assms merge_parameter_other [OF assms(1) False] show ?thesis by (simp add: all_compatible_def)
  qed
qed

lemma merge_entity_type_compatible:
  assumes "merge_entity_type lookup x m = Inr m'" and "all_compatible lookup m"
  shows "all_compatible lookup m'"
proof -
  obtain et pp where x: "x = (et, pp)" by (cases x)
  with assms(1) have "for_each (merge_parameter lookup et) (entries pp) (ensure_type et m) = Inr m'"
    by (simp add: merge_entity_type_def)
  then show ?thesis
    by (rule for_each_invariant) (use assms(2) merge_parameter_compatible in \<open>auto simp: all_compatible_def\<close>)
qed

lemma merge_statement_compatible:
  assumes "merge_statement lookup s m = Inr m'" and "all_compatible lookup m"
  shows "all_compatible lookup m'"
proof (cases "truthy (pget (payload s) ''metadata_policy'')")
  case True
  with assms(1) have "for_each (merge_entity_type lookup)
      (entries (pget (payload s) ''metadata_policy'')) m = Inr m'"
    by (simp add: merge_statement_def)
  then show ?thesis by (rule for_each_invariant) (use assms(2) merge_entity_type_compatible in auto)
qed (use assms in \<open>simp add: merge_statement_def\<close>)

lemma resolve_run:
  assumes "resolveMetadataPolicy stmts custom = Inr merged"
  shows "for_each (merge_statement (buildOperatorLookup custom)) (rev stmts) [] = Inr merged"
    and "\<exists>u. check_options custom = Inr u"
    and "for_each (check_critical (buildOperatorLookup custom)) (criticalOps stmts) () = Inr ()"
  using assms by (auto simp: resolveMetadataPolicy_def Let_def split: sum.splits)

lemma ops_of_Nil [simp]: "ops_of [] et pn = []"
  by (simp add: ops_of_def)

lemma resolve_compatible:
  assumes "resolveMetadataPolicy stmts custom = Inr merged"
  shows "all_compatible (buildOperatorLookup custom) merged"
  using resolve_run(1) [OF assms]
proof (rule for_each_invariant)
  show "all_compatible (buildOperatorLookup custom) []" by (simp add: all_compatible_def known_ops_def)
qed (rule merge_statement_compatible)

section \<open>No subordinate loosens a superior's policy\<close>

text \<open>\<open>tightens n dem c\<close>: operator \<open>n\<close> with value \<open>c\<close> demands at least what it demands with
  value \<open>dem\<close>.\<close>

definition tightens :: "string \<Rightarrow> jsval \<Rightarrow> jsval \<Rightarrow> bool" where
  "tightens n dem c =
     (if n = ''value'' \<or> n = ''default'' then deepEqual dem c
      else if n = ''one_of'' \<or> n = ''subset_of'' then isSubset (items c) (items dem)
      else if n = ''add'' \<or> n = ''superset_of'' then isSubset (items dem) (items c)
      else if n = ''essential'' then dem = JBool True \<longrightarrow> c = JBool True
      else False)"

lemma ordinary_items: "ordinary v \<Longrightarrow> list_all ordinary (items v)"
  by (cases v) auto

lemma tightens_refl:
  "n \<in> set STANDARD_OPERATOR_NAMES \<Longrightarrow> ordinary v \<Longrightarrow> tightens n v v"
  by (auto simp: STANDARD_OPERATOR_NAMES_def tightens_def deepEqual_refl isSubset_canon ordinary_items)

lemma isSubset_trans:
  "ordinary a \<Longrightarrow> ordinary b \<Longrightarrow> ordinary c \<Longrightarrow> isSubset (items a) (items b) \<Longrightarrow> isSubset (items b) (items c) \<Longrightarrow>
   isSubset (items a) (items c)"
  by (auto simp: isSubset_canon ordinary_items)

lemma tightens_trans:
  assumes "ordinary a" "ordinary b" "ordinary c" and "tightens n a b" and "tightens n b c"
  shows "tightens n a c"
proof -
  consider "n = ''value'' \<or> n = ''default''" | "n = ''one_of'' \<or> n = ''subset_of''"
    | "n = ''add'' \<or> n = ''superset_of''" | "n = ''essential''"
    using assms(4) by (auto simp: tightens_def split: if_splits)
  then show ?thesis
  proof cases
    case 1
    then show ?thesis using assms deepEqual_trans [of a b c] by (simp add: tightens_def)
  next
    case 2
    then have "n \<noteq> ''value''" "n \<noteq> ''default''" by auto
    with 2 show ?thesis using assms isSubset_trans [of c b a] by (simp add: tightens_def)
  next
    case 3
    then have "n \<noteq> ''value''" "n \<noteq> ''default''" "n \<noteq> ''one_of''" "n \<noteq> ''subset_of''" by auto
    with 3 show ?thesis using assms isSubset_trans [of a b c] by (simp add: tightens_def)
  next
    case 4
    then show ?thesis using assms(4,5) by (simp add: tightens_def)
  qed
qed

lemma merge_tightens:
  assumes "map_of operators n = Some opr" and "ordinary a" and "ordinary b" and "op_merge opr a b = Inr c"
  shows "ordinary c \<and> valid_config n c \<and> tightens n a c \<and> tightens n b c"
  using assms(1)
proof (cases rule: operators_cases)
  case 1
  with assms show ?thesis
    by (auto simp: valueOperator_def merge_checked_Inr tightens_def deepEqual_canon split: if_splits)
next
  case 2
  with assms show ?thesis
    by (auto simp: addOperator_def merge_checked_Inr tightens_def isComparableArray_iff
        ordinary_arrayUnion comparable_arrayUnion isSubset_canon set_arrayUnion)
next
  case 3
  with assms show ?thesis
    by (auto simp: defaultOperator_def merge_checked_Inr tightens_def deepEqual_canon split: if_splits)
next
  case 4
  with assms show ?thesis
    by (auto simp: oneOfOperator_def merge_checked_Inr tightens_def isComparableArray_iff Let_def
        ordinary_arrayIntersection comparable_arrayIntersection isSubset_canon set_arrayIntersection
        split: if_splits)
next
  case 5
  with assms show ?thesis
    by (auto simp: subsetOfOperator_def merge_checked_Inr tightens_def isComparableArray_iff
        ordinary_arrayIntersection comparable_arrayIntersection isSubset_canon set_arrayIntersection)
next
  case 6
  with assms show ?thesis
    by (auto simp: supersetOfOperator_def merge_checked_Inr tightens_def isComparableArray_iff
        ordinary_arrayUnion comparable_arrayUnion isSubset_canon set_arrayUnion)
next
  case 7
  with assms show ?thesis
    by (auto simp: essentialOperator_def merge_checked_Inr tightens_def elim!: is_bool.elims split: if_splits)
qed

text \<open>The values of the standard operators in the merged policy are JSON and validly configured.\<close>

definition standard_ok :: "(string \<Rightarrow> string \<Rightarrow> jsval dict) \<Rightarrow> bool" where
  "standard_ok f \<longleftrightarrow>
     (\<forall>et pn n. n \<in> set STANDARD_OPERATOR_NAMES \<longrightarrow> pget (f et pn) n \<noteq> JUndef \<longrightarrow>
        ordinary (pget (f et pn) n) \<and> valid_config n (pget (f et pn) n))"

text \<open>Once a parameter's operator is at least as strict as \<open>v\<close>, it stays so.\<close>

definition strict_for :: "string \<Rightarrow> string \<Rightarrow> string \<Rightarrow> jsval \<Rightarrow> (string \<Rightarrow> string \<Rightarrow> jsval dict) \<Rightarrow> bool" where
  "strict_for et pn n v f \<longleftrightarrow> pget (f et pn) n \<noteq> JUndef \<and> tightens n v (pget (f et pn) n)"

text \<open>The policy of a statement is absent or an ordinary value.\<close>

definition ordinary_policy :: "parsed_statement \<Rightarrow> bool" where
  "ordinary_policy s \<longleftrightarrow> opt_ordinary (pget (payload s) ''metadata_policy'')"

locale standard_registry =
  fixes lookup :: "policy_operator dict"
  assumes lookup_standard: "n \<in> set STANDARD_OPERATOR_NAMES \<Longrightarrow> map_of lookup n = map_of operators n"
begin

lemma standard_entry:
  assumes "n \<in> set STANDARD_OPERATOR_NAMES"
  obtains opr where "map_of lookup n = Some opr" "map_of operators n = Some opr"
proof -
  from assms obtain opr where "map_of operators n = Some opr" using dom_operators [of n] by auto
  with lookup_standard [OF assms] that show ?thesis by simp
qed

lemma entry_standard_ok:
  assumes "merge_operator_entry lookup et pn (k, v) m = Inr m'" and "ordinary v" and "standard_ok (ops_of m)"
  shows "standard_ok (ops_of m')"
proof (cases "k \<in> set STANDARD_OPERATOR_NAMES")
  case True
  then obtain opr where opr: "map_of lookup k = Some opr" "map_of operators k = Some opr"
    by (rule standard_entry)
  have old: "ordinary (pget (ops_of m et pn) k)" if "pget (ops_of m et pn) k \<noteq> JUndef"
    using assms(3) True that by (simp add: standard_ok_def)
  from assms opr show ?thesis
    by (auto simp: merge_operator_entry_def Let_def standard_ok_def
        dest: merge_tightens [OF opr(2) old \<open>ordinary v\<close>] split: option.splits if_splits sum.splits)
next
  case False
  with assms show ?thesis
    by (auto simp: merge_operator_entry_def Let_def standard_ok_def split: option.splits if_splits sum.splits)
qed

lemma entry_strict_keeps:
  assumes e: "merge_operator_entry lookup et' pn' (k, w) m = Inr m'" and "ordinary w"
    and ok: "standard_ok (ops_of m)" and n: "n \<in> set STANDARD_OPERATOR_NAMES" and "ordinary v"
    and s: "strict_for et pn n v (ops_of m)"
  shows "strict_for et pn n v (ops_of m')"
proof (cases "et' = et \<and> pn' = pn \<and> k = n")
  case True
  obtain opr where opr: "map_of lookup n = Some opr" "map_of operators n = Some opr"
    using n by (rule standard_entry)
  define c where "c = pget (ops_of m et pn) n"
  have c: "c \<noteq> JUndef" "tightens n v c" "ordinary c"
    using s ok n by (auto simp: c_def strict_for_def standard_ok_def)
  from e True opr c(1) obtain d where d: "op_merge opr c w = Inr d"
    and m': "m' = put_ops et pn (AList.update n d (ops_of m et pn)) m"
    by (auto simp: merge_operator_entry_def Let_def c_def split: option.splits if_splits sum.splits)
  have "ordinary d" "tightens n c d" using merge_tightens [OF opr(2) c(3) \<open>ordinary w\<close> d] by auto
  then have "tightens n v d" using tightens_trans c \<open>ordinary v\<close> by blast
  with \<open>ordinary d\<close> m' show ?thesis by (auto simp: strict_for_def)
next
  case False
  with e s show ?thesis
    by (auto simp: merge_operator_entry_def Let_def strict_for_def split: option.splits if_splits sum.splits)
qed

lemma entry_strict_establishes:
  assumes e: "merge_operator_entry lookup et pn (n, v) m = Inr m'" and "ordinary v"
    and ok: "standard_ok (ops_of m)" and n: "n \<in> set STANDARD_OPERATOR_NAMES"
  shows "strict_for et pn n v (ops_of m')"
proof -
  obtain opr where opr: "map_of lookup n = Some opr" "map_of operators n = Some opr"
    using n by (rule standard_entry)
  show ?thesis
  proof (cases "pget (ops_of m et pn) n = JUndef")
    case True
    with e opr \<open>ordinary v\<close> n show ?thesis
      by (auto simp: merge_operator_entry_def Let_def strict_for_def tightens_refl split: option.splits)
  next
    case False
    with ok n have "ordinary (pget (ops_of m et pn) n)" by (simp add: standard_ok_def)
    with e opr False \<open>ordinary v\<close> show ?thesis
      by (auto simp: merge_operator_entry_def Let_def strict_for_def
          dest: merge_tightens [OF opr(2)] split: option.splits sum.splits)
  qed
qed

lemma ordinary_policy_entry:
  assumes "ordinary_policy stmt"
    and "(et, pp) \<in> set (entries (pget (payload stmt) ''metadata_policy''))"
    and "(pn, oe) \<in> set (entries pp)" and "(k, v) \<in> set (entries oe)"
  shows "ordinary v"
proof -
  have "pget (payload stmt) ''metadata_policy'' \<noteq> JUndef" using assms(2) by auto
  then have "ordinary (pget (payload stmt) ''metadata_policy'')"
    using assms(1) by (simp add: ordinary_policy_def opt_ordinary_def)
  then show ?thesis using assms(2-4) ordinary_entries by blast
qed

lemma statement_standard_ok:
  assumes "merge_statement lookup stmt m = Inr m'" and "ordinary_policy stmt"
    and "standard_ok (ops_of m)"
  shows "standard_ok (ops_of m')"
  using assms(1,3)
proof (rule merge_statement_keeps)
  fix et pp pn oe e t t'
  assume "(et, pp) \<in> set (entries (pget (payload stmt) ''metadata_policy''))"
    "(pn, oe) \<in> set (entries pp)" "e \<in> set (entries oe)" "standard_ok (ops_of t)"
    "merge_operator_entry lookup et pn e t = Inr t'"
  then show "standard_ok (ops_of t')"
    by (cases e) (auto intro: entry_standard_ok ordinary_policy_entry [OF assms(2)])
qed

lemma strict_keeps:
  assumes "n \<in> set STANDARD_OPERATOR_NAMES" and "ordinary v" and "ordinary w"
    and "merge_operator_entry lookup et' pn' (k, w) m = Inr m'"
    and "standard_ok (ops_of m) \<and> strict_for et pn n v (ops_of m)"
  shows "standard_ok (ops_of m') \<and> strict_for et pn n v (ops_of m')"
  using assms entry_standard_ok [of et' pn' k w m m'] entry_strict_keeps [of et' pn' k w m m' n v et pn]
  by blast

lemma statement_strict_keeps:
  assumes "merge_statement lookup stmt m = Inr m'" and "ordinary_policy stmt"
    and "n \<in> set STANDARD_OPERATOR_NAMES" and "ordinary v"
    and "standard_ok (ops_of m) \<and> strict_for et pn n v (ops_of m)"
  shows "standard_ok (ops_of m') \<and> strict_for et pn n v (ops_of m')"
  using assms(1,5)
proof (rule merge_statement_keeps)
  fix et' pp pn' oe e t t'
  assume e: "(et', pp) \<in> set (entries (pget (payload stmt) ''metadata_policy''))"
    "(pn', oe) \<in> set (entries pp)" "e \<in> set (entries oe)"
    "standard_ok (ops_of t) \<and> strict_for et pn n v (ops_of t)"
    "merge_operator_entry lookup et' pn' e t = Inr t'"
  obtain k w where kw: "e = (k, w)" by (cases e)
  with e have "ordinary w" using ordinary_policy_entry [OF assms(2)] by blast
  with e kw show "standard_ok (ops_of t') \<and> strict_for et pn n v (ops_of t')"
    using strict_keeps [OF assms(3,4)] by blast
qed

lemma parameter_establishes:
  assumes run: "merge_parameter lookup et (pn, oe) m = Inr m'" and nv: "(n, v) \<in> set (entries oe)"
    and pl: "\<And>k w. (k, w) \<in> set (entries oe) \<Longrightarrow> ordinary w" and n: "n \<in> set STANDARD_OPERATOR_NAMES"
    and ok: "standard_ok (ops_of m)"
  shows "standard_ok (ops_of m') \<and> strict_for et pn n v (ops_of m')"
proof -
  let ?m0 = "put_ops et pn (ops_of m et pn) m"
  have ok0: "standard_ok (ops_of ?m0)" using ok by (simp add: standard_ok_def)
  from run have loop: "for_each (merge_operator_entry lookup et pn) (entries oe) ?m0 = Inr m'"
    by (auto simp: merge_parameter_def Let_def split: sum.splits)
  have keep: "standard_ok (ops_of t')"
    if "x \<in> set (entries oe)" "standard_ok (ops_of t)" "merge_operator_entry lookup et pn x t = Inr t'" for x t t'
    using that pl entry_standard_ok by (metis surj_pair)
  from loop nv ok0 keep show ?thesis
  proof (rule for_each_establishes [where P = "\<lambda>m. standard_ok (ops_of m)"
        and Q = "\<lambda>m. standard_ok (ops_of m) \<and> strict_for et pn n v (ops_of m)"])
    fix t t' assume "standard_ok (ops_of t)" "merge_operator_entry lookup et pn (n, v) t = Inr t'"
    then show "standard_ok (ops_of t') \<and> strict_for et pn n v (ops_of t')"
      using pl [OF nv] n by (auto intro: entry_standard_ok entry_strict_establishes)
  next
    fix y t t' assume y: "y \<in> set (entries oe)" "standard_ok (ops_of t) \<and> strict_for et pn n v (ops_of t)"
      "merge_operator_entry lookup et pn y t = Inr t'"
    obtain k w where "y = (k, w)" by (cases y)
    with y show "standard_ok (ops_of t') \<and> strict_for et pn n v (ops_of t')"
      using strict_keeps [OF n pl [OF nv]] pl by blast
  qed
qed

lemma entity_type_establishes:
  assumes run: "merge_entity_type lookup (et, pp) m = Inr m'"
    and oe: "(pn, oe) \<in> set (entries pp)" and nv: "(n, v) \<in> set (entries oe)"
    and pl: "\<And>q o' k w. (q, o') \<in> set (entries pp) \<Longrightarrow> (k, w) \<in> set (entries o') \<Longrightarrow> ordinary w"
    and n: "n \<in> set STANDARD_OPERATOR_NAMES" and ok: "standard_ok (ops_of m)"
  shows "standard_ok (ops_of m') \<and> strict_for et pn n v (ops_of m')"
proof -
  have loop: "for_each (merge_parameter lookup et) (entries pp) (ensure_type et m) = Inr m'"
    using run by (simp add: merge_entity_type_def)
  have ok0: "standard_ok (ops_of (ensure_type et m))" using ok by simp
  have keep: "standard_ok (ops_of t')"
    if x: "x \<in> set (entries pp)" "standard_ok (ops_of t)" "merge_parameter lookup et x t = Inr t'" for x t t'
  proof -
    obtain q o' where q: "x = (q, o')" by (cases x)
    show ?thesis
      using x(3) x(2) unfolding q
      by (rule merge_parameter_keeps) (metis entry_standard_ok pl x(1) q surj_pair)
  qed
  from loop oe ok0 keep show ?thesis
  proof (rule for_each_establishes [where P = "\<lambda>m. standard_ok (ops_of m)"
        and Q = "\<lambda>m. standard_ok (ops_of m) \<and> strict_for et pn n v (ops_of m)"])
    fix t t' assume "standard_ok (ops_of t)" "merge_parameter lookup et (pn, oe) t = Inr t'"
    then show "standard_ok (ops_of t') \<and> strict_for et pn n v (ops_of t')"
      using parameter_establishes [of et pn oe t t' n v] nv n pl oe by blast
  next
    fix y t t' assume y: "y \<in> set (entries pp)" "standard_ok (ops_of t) \<and> strict_for et pn n v (ops_of t)"
      "merge_parameter lookup et y t = Inr t'"
    obtain q o' where q: "y = (q, o')" by (cases y)
    show "standard_ok (ops_of t') \<and> strict_for et pn n v (ops_of t')"
      using y(3) y(2) unfolding q
      by (rule merge_parameter_keeps) (metis strict_keeps [OF n pl [OF oe nv]] pl y(1) q surj_pair)
  qed
qed

lemma statement_establishes:
  assumes run: "merge_statement lookup stmt m = Inr m'" and pl: "ordinary_policy stmt"
    and pp: "(et, pp) \<in> set (entries (pget (payload stmt) ''metadata_policy''))"
    and oe: "(pn, oe) \<in> set (entries pp)" and nv: "(n, v) \<in> set (entries oe)"
    and n: "n \<in> set STANDARD_OPERATOR_NAMES" and ok: "standard_ok (ops_of m)"
  shows "standard_ok (ops_of m') \<and> strict_for et pn n v (ops_of m')"
proof -
  let ?es = "entries (pget (payload stmt) ''metadata_policy'')"
  have "truthy (pget (payload stmt) ''metadata_policy'')"
    using pp by (cases "pget (payload stmt) ''metadata_policy''") auto
  with run have loop: "for_each (merge_entity_type lookup) ?es m = Inr m'"
    by (simp add: merge_statement_def)
  note plv = ordinary_policy_entry [OF pl]
  have keep: "standard_ok (ops_of t')"
    if x: "x \<in> set ?es" "standard_ok (ops_of t)" "merge_entity_type lookup x t = Inr t'" for x t t'
  proof -
    obtain q o' where q: "x = (q, o')" by (cases x)
    show ?thesis
      using x(3) x(2) unfolding q
      by (rule merge_entity_type_keeps) (metis entry_standard_ok plv x(1) q surj_pair)
  qed
  from loop pp ok keep show ?thesis
  proof (rule for_each_establishes [where P = "\<lambda>m. standard_ok (ops_of m)"
        and Q = "\<lambda>m. standard_ok (ops_of m) \<and> strict_for et pn n v (ops_of m)"])
    fix t t' assume "standard_ok (ops_of t)" "merge_entity_type lookup (et, pp) t = Inr t'"
    then show "standard_ok (ops_of t') \<and> strict_for et pn n v (ops_of t')"
      using entity_type_establishes [of et pp t t' pn oe n v] oe nv n plv pp by blast
  next
    fix y t t' assume y: "y \<in> set ?es" "standard_ok (ops_of t) \<and> strict_for et pn n v (ops_of t)"
      "merge_entity_type lookup y t = Inr t'"
    obtain q o' where q: "y = (q, o')" by (cases y)
    show "standard_ok (ops_of t') \<and> strict_for et pn n v (ops_of t')"
      using y(3) y(2) unfolding q
      by (rule merge_entity_type_keeps) (metis strict_keeps [OF n plv [OF pp oe nv]] plv y(1) q surj_pair)
  qed
qed

lemma statements_establish:
  assumes run: "for_each (merge_statement lookup) stmts m = Inr m'"
    and stmt: "stmt \<in> set stmts" and pl: "\<And>s. s \<in> set stmts \<Longrightarrow> ordinary_policy s"
    and pp: "(et, pp) \<in> set (entries (pget (payload stmt) ''metadata_policy''))"
    and oe: "(pn, oe) \<in> set (entries pp)" and nv: "(n, v) \<in> set (entries oe)"
    and n: "n \<in> set STANDARD_OPERATOR_NAMES" and ok: "standard_ok (ops_of m)"
  shows "standard_ok (ops_of m') \<and> strict_for et pn n v (ops_of m')"
  using run stmt ok
proof (rule for_each_establishes [where P = "\<lambda>m. standard_ok (ops_of m)"
      and Q = "\<lambda>m. standard_ok (ops_of m) \<and> strict_for et pn n v (ops_of m)"])
  show "standard_ok (ops_of t')"
    if "x \<in> set stmts" "standard_ok (ops_of t)" "merge_statement lookup x t = Inr t'" for x t t'
    using that pl statement_standard_ok by blast
  show "standard_ok (ops_of t') \<and> strict_for et pn n v (ops_of t')"
    if "standard_ok (ops_of t)" "merge_statement lookup stmt t = Inr t'" for t t'
    using statement_establishes [OF that(2) pl [OF stmt] pp oe nv n that(1)] .
  show "standard_ok (ops_of t') \<and> strict_for et pn n v (ops_of t')"
    if "y \<in> set stmts" "standard_ok (ops_of t) \<and> strict_for et pn n v (ops_of t)"
      "merge_statement lookup y t = Inr t'" for y t t'
    using statement_strict_keeps [OF that(3) pl [OF that(1)] n ordinary_policy_entry [OF pl [OF stmt] pp oe nv] that(2)] .
qed

end

interpretation std_reg: standard_registry operators
  by unfold_locales simp

lemma validated_registry:
  "check_options custom = Inr u \<Longrightarrow> standard_registry (buildOperatorLookup custom)"
  by unfold_locales (rule lookup_standard)

section \<open>Properties\<close>

text \<open>
  C30: No subordinate loosens the policy of a superior. Whenever the policies of a chain's
  subordinate statements resolve, then for every statement, entity type, parameter and standard
  operator that statement sets, the resolved policy has that operator there with a value at least as
  demanding: equal for \<open>value\<close> and \<open>default\<close>, a subset for \<open>one_of\<close> and \<open>subset_of\<close>, a superset
  for \<open>add\<close> and \<open>superset_of\<close>, still true for a true \<open>essential\<close>. Values are compared as the code
  compares them. Custom operators may be configured too. The policies are ordinary: JSON in which
  no object has a member named \<open>length\<close> or \<open>__proto__\<close>; with such members the merged value need not
  cover a statement's (\<open>special_names_break_merge\<close>).
\<close>
theorem resolved_policy_tightens_every_statement:
  assumes "resolveMetadataPolicy stmts custom = Inr merged"
    and "\<forall>s \<in> set stmts. ordinary_policy s"
    and "stmt \<in> set stmts"
    and "(et, pp) \<in> set (entries (pget (payload stmt) ''metadata_policy''))"
    and "(pn, oe) \<in> set (entries pp)" and "(n, v) \<in> set (entries oe)"
    and "n \<in> set STANDARD_OPERATOR_NAMES"
  shows "pget (ops_of merged et pn) n \<noteq> JUndef \<and> tightens n v (pget (ops_of merged et pn) n)"
proof -
  obtain u where "check_options custom = Inr u" using resolve_run(2) [OF assms(1)] by blast
  then have "standard_registry (buildOperatorLookup custom)" by (rule validated_registry)
  from this resolve_run(1) [OF assms(1)]
  have "standard_ok (ops_of merged) \<and> strict_for et pn n v (ops_of merged)"
    by (rule standard_registry.statements_establish)
       (use assms in \<open>auto simp: standard_ok_def pget_def\<close>)
  then show ?thesis by (simp add: strict_for_def)
qed

definition example_statement :: "string \<Rightarrow> jsval \<Rightarrow> parsed_statement" where
  "example_statement n v = \<lparr>header = [], payload = [(''metadata_policy'',
     JObj [(''openid_provider'', JObj [(''scopes_supported'', JObj [(n, v)])])])]\<rparr>"

lemma example_resolve:
  "resolveMetadataPolicy
     [example_statement ''subset_of'' (JArr [JStr ''b'', JStr ''c'']),
      example_statement ''subset_of'' (JArr [JStr ''a'', JStr ''b''])] None =
   Inr [(''openid_provider'', [(''scopes_supported'', [(''subset_of'', JArr [JStr ''b''])])])]"
  by code_simp

theorem resolved_policy_tightens_every_statement_witness:
  "tightens ''subset_of'' (JArr [JStr ''a'', JStr ''b''])
     (pget (ops_of [(''openid_provider'', [(''scopes_supported'', [(''subset_of'', JArr [JStr ''b''])])])]
        ''openid_provider'' ''scopes_supported'') ''subset_of'')"
  using resolved_policy_tightens_every_statement
    [OF example_resolve, where stmt = "example_statement ''subset_of'' (JArr [JStr ''a'', JStr ''b''])"
      and et = "''openid_provider''" and pn = "''scopes_supported''" and n = "''subset_of''"]
  by (simp add: example_statement_def pget_def STANDARD_OPERATOR_NAMES_def ordinary_policy_def opt_ordinary_def
      special_names_def)

text \<open>
  The operators the resolved policy holds for one parameter are pairwise compatible: any two
  different ones accept each other, in both directions, with the values they have there.
\<close>
lemma resolved_policy_pairwise_compatible:
  assumes "resolveMetadataPolicy stmts custom = Inr merged"
    and "(a, va) \<in> set (ops_of merged et pn)" and "(b, vb) \<in> set (ops_of merged et pn)" and "a \<noteq> b"
    and "map_of (buildOperatorLookup custom) a = Some f" and "map_of (buildOperatorLookup custom) b = Some g"
  shows "op_canCombineWith f b (pget (ops_of merged et pn) a) (pget (ops_of merged et pn) b) \<and>
         op_canCombineWith g a (pget (ops_of merged et pn) b) (pget (ops_of merged et pn) a)"
proof -
  let ?l = "buildOperatorLookup custom" and ?d = "ops_of merged et pn"
  have s: "sorted_wrt (compatible_pair ?l ?d) (known_ops ?l ?d)"
    using resolve_compatible [OF assms(1)] by (simp add: all_compatible_def)
  have mem: "a \<in> set (known_ops ?l ?d)" "b \<in> set (known_ops ?l ?d)"
    using assms by (force simp: known_ops_def)+
  have "compatible_pair ?l ?d a b"
    using s mem assms(4) compatible_pair_sym
    by (metis (no_types, lifting) in_set_conv_nth linorder_neqE_nat sorted_wrt_iff_nth_less)
  then show ?thesis using assms(5,6) by (simp add: compatible_pair_def)
qed

lemma example_resolve_two:
  "resolveMetadataPolicy
     [example_statement ''add'' (JArr [JStr ''a'']),
      example_statement ''subset_of'' (JArr [JStr ''a'', JStr ''b''])] None =
   Inr [(''openid_provider'', [(''scopes_supported'',
     [(''subset_of'', JArr [JStr ''a'', JStr ''b'']), (''add'', JArr [JStr ''a''])])])]"
  by code_simp

lemma resolved_policy_pairwise_compatible_witness:
  "op_canCombineWith addOperator ''subset_of'' (JArr [JStr ''a'']) (JArr [JStr ''a'', JStr ''b'']) \<and>
   op_canCombineWith subsetOfOperator ''add'' (JArr [JStr ''a'', JStr ''b'']) (JArr [JStr ''a''])"
  using resolved_policy_pairwise_compatible
    [OF example_resolve_two, where et = "''openid_provider''" and pn = "''scopes_supported''"
      and a = "''add''" and b = "''subset_of''" and f = addOperator and g = subsetOfOperator]
  by (simp add: ops_of_def pget_def buildOperatorLookup_def operators_def)

lemma for_each_unit:
  "for_each f xs () = Inr () \<Longrightarrow> x \<in> set xs \<Longrightarrow> f x () = Inr ()"
  by (induction xs) (auto split: sum.splits)

text \<open>
  A chain whose policies resolve has no critical operator that is not understood: every name in
  a \<open>metadata_policy_crit\<close> is a registered operator and is not one of the standard seven.
\<close>
lemma critical_operators_are_understood:
  assumes "resolveMetadataPolicy stmts custom = Inr merged"
    and "stmt \<in> set stmts" and "x \<in> set (items (pget (payload stmt) ''metadata_policy_crit''))"
  shows "\<exists>n f. x = JStr n \<and> n \<notin> set STANDARD_OPERATOR_NAMES \<and>
           map_of (buildOperatorLookup custom) n = Some f"
proof -
  have "x \<in> set (criticalOps stmts)" using assms(2,3) by (auto simp: criticalOps_def)
  with resolve_run(3) [OF assms(1)] have "check_critical (buildOperatorLookup custom) x () = Inr ()"
    by (rule for_each_unit)
  then show ?thesis by (auto simp: check_critical_def split: jsval.splits if_splits)
qed

definition example_operator :: policy_operator where
  "example_operator = essentialOperator\<lparr>op_name := ''regexp'', op_order := 2, op_action := Check\<rparr>"

definition example_critical :: parsed_statement where
  "example_critical = \<lparr>header = [], payload = [(''metadata_policy_crit'', JArr [JStr ''regexp''])]\<rparr>"

lemma example_critical_resolve:
  "resolveMetadataPolicy [example_critical] (Some [example_operator]) = Inr []"
  by code_simp

lemma critical_operators_are_understood_witness:
  "\<exists>n f. JStr ''regexp'' = JStr n \<and> n \<notin> set STANDARD_OPERATOR_NAMES \<and>
     map_of (buildOperatorLookup (Some [example_operator])) n = Some f"
  using critical_operators_are_understood
    [OF example_critical_resolve, where stmt = example_critical and x = "JStr ''regexp''"]
  by (simp add: example_critical_def pget_def)

text \<open>
  A set of custom operators that passes validation shadows no standard operator and contains no
  name twice, and each of its operators runs after \<open>value\<close> if it modifies and before \<open>essential\<close>
  if it checks; so the registry built from it still maps the seven standard names to the standard
  definitions.
\<close>
lemma validated_custom_operators_are_safe:
  assumes "validateCustomOperators ops = Inr u"
  shows "distinct (map op_name ops) \<and>
         (\<forall>opr \<in> set ops. op_name opr \<notin> set STANDARD_OPERATOR_NAMES \<and>
            (op_action opr \<noteq> Check \<longrightarrow> 1 < op_order opr) \<and> (op_action opr \<noteq> Modify \<longrightarrow> op_order opr < 7)) \<and>
         (\<forall>n \<in> set STANDARD_OPERATOR_NAMES.
            map_of (buildOperatorLookup (Some ops)) n = map_of operators n)"
proof (intro conjI ballI)
  obtain seen where run: "for_each check_custom_operator ops [] = Inr seen"
    using assms by (auto simp: validateCustomOperators_def split: sum.splits)
  note facts = for_each_custom [OF run]
  show "distinct (map op_name ops)" using facts by simp
  fix opr assume opr: "opr \<in> set ops"
  show "op_name opr \<notin> set STANDARD_OPERATOR_NAMES" using facts opr by simp
  show "op_action opr \<noteq> Check \<longrightarrow> 1 < op_order opr" using facts opr by (cases "op_action opr") auto
  show "op_action opr \<noteq> Modify \<longrightarrow> op_order opr < 7" using facts opr by (cases "op_action opr") auto
next
  fix n assume "n \<in> set STANDARD_OPERATOR_NAMES"
  moreover have "check_options (Some ops) = Inr ()" using assms by (simp add: check_options_def)
  ultimately show "map_of (buildOperatorLookup (Some ops)) n = map_of operators n"
    using lookup_standard by blast
qed

lemma validated_custom_operators_are_safe_witness:
  "distinct (map op_name [example_operator]) \<and>
   map_of (buildOperatorLookup (Some [example_operator])) ''value'' = map_of operators ''value''"
proof -
  have v: "validateCustomOperators [example_operator] = Inr ()" by code_simp
  show ?thesis
    using validated_custom_operators_are_safe [OF v] by (simp add: STANDARD_OPERATOR_NAMES_def)
qed

end
