(* ===== verification/Policy_Apply.thy ===== *)
theory Policy_Apply
  imports Policy_Merge
begin

text \<open>
  packages/core/src/metadata-policy/apply.ts: applying a resolved policy to an entity's metadata.
  Metadata is one record per entity type. The source clones the metadata and then mutates the
  clone; the model returns the changed records.

  The lemmas show that the result checks every check the policy holds, that nothing outside the
  policy changes, and that the space-delimited form of \<open>scope\<close> survives the conversion to an array
  and back.
\<close>

type_synonym metadata = "jsval dict dict"

section \<open>Scope\<close>

definition normalizeScope :: "string \<Rightarrow> string list" where
  "normalizeScope scope = filter (\<lambda>w. w \<noteq> []) (split_on (CHR '' '') scope)"

definition denormalizeScope :: "string list \<Rightarrow> string" where
  "denormalizeScope values = join_with '' '' values"

text \<open>An element of the array \<open>Array.prototype.join\<close> prints; the source casts the array to
  \<open>string[]\<close>. A number that is no integer has no text in the model.\<close>

fun join_element :: "jsval \<Rightarrow> string" where
  "join_element (JStr s) = s"
| "join_element (JBool b) = (if b then ''true'' else ''false'')"
| "join_element (JNum n) =
     (if is_integer n then (if n < 0 then ''-'' else []) @ show_nat (nat \<bar>\<lfloor>n\<rfloor>\<bar>) else [])"
| "join_element (JArr xs) = join_with '','' (map join_element xs)"
| "join_element (JObj _) = ''[object Object]''"
| "join_element JNull = []"
| "join_element JUndef = []"

section \<open>applyMetadataPolicy\<close>

definition policyViolation :: "string \<Rightarrow> string \<Rightarrow> string \<Rightarrow> string \<Rightarrow> fed_error" where
  "policyViolation et pn opName reason =
     mk_err ''ERR_METADATA_POLICY_VIOLATION''
       (''Policy violation for '' @ et @ ''.'' @ pn @ '' (operator '' @ quoted opName @ ''): '' @ reason)"

definition op_order_of :: "policy_operator dict \<Rightarrow> string \<Rightarrow> number" where
  "op_order_of lookup n = (case map_of lookup n of None \<Rightarrow> 0 | Some d \<Rightarrow> op_order d)"

text \<open>The known operators of a parameter in application order; the sort is stable.\<close>

definition sorted_ops :: "policy_operator dict \<Rightarrow> jsval dict \<Rightarrow> jsval dict" where
  "sorted_ops lookup opEntries =
     sort_key (\<lambda>e. op_order_of lookup (fst e)) (filter (\<lambda>e. map_of lookup (fst e) \<noteq> None) opEntries)"

definition apply_operator_entry ::
  "policy_operator dict \<Rightarrow> string \<Rightarrow> string \<Rightarrow> string \<times> jsval \<Rightarrow> jsval dict \<Rightarrow>
   (fed_error, jsval dict) result"
where
  "apply_operator_entry lookup et pn = (\<lambda>(opName, opValue) em.
     (case map_of lookup opName of
        None \<Rightarrow> Inr em
      | Some opDef \<Rightarrow>
        (case op_apply opDef (pget em pn) opValue of
           ApplyErr e \<Rightarrow> Inl (policyViolation et pn opName e)
         | ApplyOk v removed \<Rightarrow>
             if removed then Inr (AList.delete pn em)
             else if v = JNull then
               Inl (policyViolation et pn opName ''operator output must not be null'')
             else Inr (AList.update pn v em))))"

definition apply_parameter ::
  "policy_operator dict \<Rightarrow> string \<Rightarrow> string \<times> jsval dict \<Rightarrow> jsval dict \<Rightarrow>
   (fed_error, jsval dict) result"
where
  "apply_parameter lookup et = (\<lambda>(pn, opEntries) em.
     (let scopeWasNormalized = (pn = ''scope'' \<and> typeof (pget em pn) = ''string'');
          em' = (if scopeWasNormalized
                 then AList.update pn
                        (JArr (map JStr (normalizeScope (case pget em pn of JStr s \<Rightarrow> s | _ \<Rightarrow> [])))) em
                 else em)
      in case for_each (apply_operator_entry lookup et pn) (sorted_ops lookup opEntries) em' of
           Inl e \<Rightarrow> Inl e
         | Inr em'' \<Rightarrow>
             if scopeWasNormalized \<and> is_arr (pget em'' pn)
             then Inr (AList.update pn
                    (JStr (denormalizeScope (map join_element (items (pget em'' pn))))) em'')
             else Inr em''))"

definition type_block :: "metadata \<Rightarrow> string \<Rightarrow> jsval dict" where
  "type_block md et = (case map_of md et of None \<Rightarrow> [] | Some em \<Rightarrow> em)"

definition apply_entity_type ::
  "policy_operator dict \<Rightarrow> string \<times> jsval dict dict \<Rightarrow> metadata \<Rightarrow> (fed_error, metadata) result"
where
  "apply_entity_type lookup = (\<lambda>(et, paramPolicies) result.
     (case for_each (apply_parameter lookup et) paramPolicies (type_block result et) of
        Inl e \<Rightarrow> Inl e
      | Inr em \<Rightarrow> Inr (AList.update et em result)))"

text \<open>The override loop: the members of each block of the superior's metadata replace the
  entity's own.\<close>

definition override_metadata :: "metadata \<Rightarrow> metadata \<Rightarrow> metadata" where
  "override_metadata over result =
     foldl (\<lambda>r (et, params).
              AList.update et (foldl (\<lambda>em (p, v). AList.update p v em) (type_block r et) params) r)
       result over"

definition applyMetadataPolicy ::
  "metadata \<Rightarrow> merged_policy \<Rightarrow> metadata option \<Rightarrow> policy_operator list option \<Rightarrow>
   (fed_error, metadata) result"
where
  "applyMetadataPolicy metadata policy superiorMetadataOverride customOperators =
     (case check_options customOperators of
        Inl e \<Rightarrow> Inl e
      | Inr _ \<Rightarrow>
        (let lookup = buildOperatorLookup customOperators;
             result = (case superiorMetadataOverride of
                         None \<Rightarrow> metadata | Some over \<Rightarrow> override_metadata over metadata)
         in for_each (apply_entity_type lookup) policy result))"

section \<open>The loop over one parameter, on values\<close>

text \<open>What the operators of one parameter make of its value; \<open>None\<close> is a violation.\<close>

fun run_ops :: "policy_operator dict \<Rightarrow> jsval dict \<Rightarrow> jsval \<Rightarrow> jsval option" where
  "run_ops lookup [] p = Some p"
| "run_ops lookup ((n, v) # ops) p =
     (case map_of lookup n of
        None \<Rightarrow> run_ops lookup ops p
      | Some opr \<Rightarrow>
          (case run_operator opr v p of
             None \<Rightarrow> None
           | Some q \<Rightarrow> if q = JNull then None else run_ops lookup ops q))"

lemma apply_entries_run:
  assumes "for_each (apply_operator_entry lookup et pn) ops em = Inr em'"
  shows "run_ops lookup ops (pget em pn) = Some (pget em' pn) \<and> (\<forall>k. k \<noteq> pn \<longrightarrow> pget em' k = pget em k)"
  using assms
proof (induction ops arbitrary: em)
  case (Cons e ops)
  obtain n v where e: "e = (n, v)" by (cases e)
  from Cons.prems obtain em1 where step: "apply_operator_entry lookup et pn e em = Inr em1"
    and rest: "for_each (apply_operator_entry lookup et pn) ops em1 = Inr em'"
    by (auto split: sum.splits)
  show ?case
    using step Cons.IH [OF rest]
    by (auto simp: e apply_operator_entry_def run_operator_def
        split: option.splits apply_result.splits if_splits)
qed simp

lemma run_ops_append:
  "run_ops lookup (xs @ ys) p = Option.bind (run_ops lookup xs p) (run_ops lookup ys)"
  by (induction lookup xs p rule: run_ops.induct) (auto split: option.splits)

text \<open>The value the operators of a parameter work on, and what their result becomes: a \<open>scope\<close> given
  as a string is split into its words first, and an array that results is joined to a string again.\<close>

definition policy_input :: "string \<Rightarrow> jsval \<Rightarrow> jsval" where
  "policy_input pn p =
     (if pn = ''scope'' \<and> typeof p = ''string''
      then JArr (map JStr (normalizeScope (case p of JStr s \<Rightarrow> s | _ \<Rightarrow> []))) else p)"

definition policy_output :: "string \<Rightarrow> jsval \<Rightarrow> jsval \<Rightarrow> jsval" where
  "policy_output pn p u =
     (if pn = ''scope'' \<and> typeof p = ''string'' \<and> is_arr u
      then JStr (denormalizeScope (map join_element (items u))) else u)"

lemma policy_other [simp]: "pn \<noteq> ''scope'' \<Longrightarrow> policy_input pn p = p" "pn \<noteq> ''scope'' \<Longrightarrow> policy_output pn p u = u"
  by (simp_all add: policy_input_def policy_output_def)

lemma apply_parameter_run:
  assumes "apply_parameter lookup et (pn, ops) em = Inr em'"
  shows "\<exists>u. run_ops lookup (sorted_ops lookup ops) (policy_input pn (pget em pn)) = Some u \<and>
    pget em' pn = policy_output pn (pget em pn) u"
  using assms
  by (auto simp: apply_parameter_def policy_input_def policy_output_def Let_def split: sum.splits if_splits
      dest!: apply_entries_run)

lemma apply_parameter_other:
  assumes "apply_parameter lookup et (pn, ops) em = Inr em'" and "k \<noteq> pn"
  shows "pget em' k = pget em k"
  using assms apply_entries_run [of lookup et pn "sorted_ops lookup ops"]
  by (fastforce simp: apply_parameter_def Let_def split: sum.splits if_splits)

section \<open>Every check holds of the result\<close>

text \<open>What an operator asks of the value alone. \<open>value\<close> and \<open>add\<close> ask more of it, which other
  operators could undo if the resolver let them stand together (Policy_Chain).\<close>

definition checks :: "string \<Rightarrow> jsval \<Rightarrow> jsval \<Rightarrow> bool" where
  "checks n v q =
     (if n = ''one_of'' then q = JUndef \<or> isOneOfMetadataValue q \<and> containsElement (items v) q
      else if n = ''subset_of'' then q = JUndef \<or> is_arr q \<and> isSubset (items q) (items v)
      else if n = ''superset_of'' then q = JUndef \<or> is_arr q \<and> isSubset (items v) (items q)
      else if n = ''essential'' then v = JBool True \<longrightarrow> q \<noteq> JUndef
      else if n = ''default'' then q \<noteq> JUndef
      else True)"

lemma arrayIntersection_subset: "isSubset (arrayIntersection xs ys) ys"
  by (auto simp: isSubset_def arrayIntersection_def list_all_iff)

lemma op_orders:
  "op_order valueOperator = 1" "op_order addOperator = 2" "op_order defaultOperator = 3"
  "op_order oneOfOperator = 4" "op_order subsetOfOperator = 5" "op_order supersetOfOperator = 6"
  "op_order essentialOperator = 7"
  by (simp_all add: operator_defs)

text \<open>The checking operators on a parameter value; a failure is \<open>None\<close>.\<close>

lemma run_default:
  "run_operator defaultOperator v p = Some q \<Longrightarrow> q \<noteq> JUndef"
  by (auto simp: defaultOperator_def run_checked split: if_splits)

lemma run_one_of:
  "run_operator oneOfOperator v p = Some q \<Longrightarrow>
     q = p \<and> (p = JUndef \<or> isOneOfMetadataValue p \<and> containsElement (items v) p)"
  by (auto simp: oneOfOperator_def run_checked split: if_splits)

lemma run_subset_of:
  "run_operator subsetOfOperator v p = Some q \<Longrightarrow>
     p = JUndef \<and> q = JUndef \<or>
     isComparableArray p \<and> q = JArr (arrayIntersection (items p) (items v))"
  by (auto simp: subsetOfOperator_def run_checked split: if_splits)

lemma run_superset_of:
  "run_operator supersetOfOperator v p = Some q \<Longrightarrow>
     q = p \<and> (p = JUndef \<or> isComparableArray p \<and> isSubset (items v) (items p))"
  by (auto simp: supersetOfOperator_def run_checked split: if_splits)

lemma run_essential:
  "run_operator essentialOperator v p = Some q \<Longrightarrow> q = p \<and> (v = JBool True \<longrightarrow> p \<noteq> JUndef)"
  by (auto simp: essentialOperator_def run_checked split: if_splits)

lemma one_of_not_arr: "is_arr q \<Longrightarrow> \<not> isOneOfMetadataValue q"
  by (cases q) simp_all

lemma run_checks:
  assumes "map_of operators n = Some opr" and "run_operator opr v p = Some q"
  shows "checks n v q"
  using assms(1)
proof (cases rule: operators_cases)
  case 3 with assms(2) show ?thesis by (simp add: run_default checks_def)
next
  case 4 with assms(2) show ?thesis by (auto simp: checks_def dest: run_one_of)
next
  case 5 with assms(2) show ?thesis
    by (auto simp: checks_def arrayIntersection_subset dest: run_subset_of)
next
  case 6 with assms(2) show ?thesis
    by (auto simp: checks_def isComparableArray_def dest!: run_superset_of)
next
  case 7 with assms(2) show ?thesis by (auto simp: checks_def dest: run_essential)
qed (simp_all add: checks_def)

text \<open>An operator of higher order keeps the check of one of lower order.\<close>

lemma later_keeps_checks:
  assumes m: "map_of operators m = Some f" and n: "map_of operators n = Some g"
    and less: "op_order f < op_order g" and run: "run_operator g w q = Some q'" and q: "checks m v q"
  shows "checks m v q'"
proof -
  consider "checks m v = (\<lambda>_. True)" | "q' = q"
    | "g = subsetOfOperator" "m = ''default''" | "g = subsetOfOperator" "m = ''one_of''"
    using m
  proof (cases rule: operators_cases)
    case 3
    show ?thesis using n
      by (cases rule: operators_cases)
         (use less run 3 that in \<open>auto simp: op_orders dest: run_one_of run_superset_of run_essential\<close>)
  next
    case 4
    show ?thesis using n
      by (cases rule: operators_cases)
         (use less run 4 that in \<open>auto simp: op_orders dest: run_superset_of run_essential\<close>)
  next
    case 5
    show ?thesis using n
      by (cases rule: operators_cases)
         (use less run 5 that in \<open>auto simp: op_orders dest: run_superset_of run_essential\<close>)
  next
    case 6
    show ?thesis using n
      by (cases rule: operators_cases)
         (use less run 6 that in \<open>auto simp: op_orders dest: run_essential\<close>)
  next
    case 7
    show ?thesis using n
      by (cases rule: operators_cases) (use less 7 in \<open>auto simp: op_orders\<close>)
  qed (use that(1) in \<open>simp_all add: checks_def fun_eq_iff\<close>)
  then show ?thesis
    by cases (use q run in \<open>auto simp: checks_def isComparableArray_def one_of_not_arr
        dest!: run_subset_of\<close>)
qed

lemma run_ops_keep:
  assumes "run_ops operators ops q = Some q'" and "checks m v q" and m: "map_of operators m = Some f"
    and "\<forall>(n, w) \<in> set ops. op_order_of operators m < op_order_of operators n"
  shows "checks m v q'"
  using assms(1,2,4)
proof (induction operators ops q rule: run_ops.induct)
  case (2 n w ops p)
  show ?case
  proof (cases "map_of operators n")
    case None
    with 2 show ?thesis by auto
  next
    case (Some g)
    with 2(3) obtain r where r: "run_operator g w p = Some r" "run_ops operators ops r = Some q'" "r \<noteq> JNull"
      by (auto split: option.splits if_splits)
    moreover have "op_order f < op_order g" using 2(5) Some m by (simp add: op_order_of_def)
    ultimately have "checks m v r" using later_keeps_checks [OF m Some] 2(4) by blast
    with 2(2) [OF Some r(1,3,2)] 2(5) show ?thesis by simp
  qed
qed simp

lemma op_order_inj:
  "map_of operators m = Some f \<Longrightarrow> map_of operators n = Some g \<Longrightarrow> op_order f = op_order g \<Longrightarrow> m = n"
  by (erule operators_cases; erule operators_cases; simp add: op_orders)

lemma sorted_ops_after:
  assumes "sorted_ops operators ops = us @ (m, v) # vs" and "distinct (map fst ops)"
  shows "\<forall>(n, w) \<in> set vs. op_order_of operators m < op_order_of operators n"
proof (intro ballI, clarify)
  fix n w assume nw: "(n, w) \<in> set vs"
  have mem: "set (us @ (m, v) # vs) \<subseteq> {e \<in> set ops. map_of operators (fst e) \<noteq> None}"
    unfolding assms(1) [symmetric] by (auto simp: sorted_ops_def)
  then obtain f g where fg: "map_of operators m = Some f" "map_of operators n = Some g"
    using nw by fastforce
  have "sorted (map (\<lambda>e. op_order_of operators (fst e)) (us @ (m, v) # vs))"
    unfolding assms(1) [symmetric] by (simp add: sorted_ops_def)
  then have le: "op_order_of operators m \<le> op_order_of operators n"
    using nw by (auto simp: sorted_append)
  have "distinct (us @ (m, v) # vs)"
    using assms(2) unfolding assms(1) [symmetric] by (simp add: sorted_ops_def distinct_map)
  moreover have "(m, v) \<in> set ops" "(n, w) \<in> set ops" using mem nw by auto
  ultimately have "m \<noteq> n" using nw assms(2) by (auto dest: eq_key_imp_eq_value)
  with le fg show "op_order_of operators m < op_order_of operators n"
    using op_order_inj by (fastforce simp: op_order_of_def order.strict_iff_order)
qed

text \<open>The operators of one parameter, run in order, leave a value every one of them accepts.\<close>

lemma run_sorted_checks:
  assumes run: "run_ops operators (sorted_ops operators ops) p = Some q"
    and dist: "distinct (map fst ops)" and "(n, v) \<in> set ops" and n: "map_of operators n = Some opr"
  shows "checks n v q"
proof -
  have "(n, v) \<in> set (sorted_ops operators ops)" using assms by (simp add: sorted_ops_def)
  then obtain us vs where split: "sorted_ops operators ops = us @ (n, v) # vs" by (meson split_list)
  with run obtain r s where "run_operator opr v r = Some s" and rest: "run_ops operators vs s = Some q"
    by (auto simp: run_ops_append n bind_eq_Some_conv split: option.splits if_splits)
  then have "checks n v s" using n by (blast intro: run_checks)
  with rest show ?thesis using n sorted_ops_after [OF split dist] by (rule run_ops_keep)
qed

section \<open>From the loops to the whole function\<close>

abbreviation block_value :: "metadata \<Rightarrow> string \<Rightarrow> string \<Rightarrow> jsval" where
  "block_value md et pn \<equiv> pget (type_block md et) pn"

lemma type_block_update [simp]:
  "type_block (AList.update et em md) et' = (if et' = et then em else type_block md et')"
  by (simp add: type_block_def)

lemma apply_entity_type_run:
  assumes "apply_entity_type lookup (et, params) md = Inr md'"
  shows "for_each (apply_parameter lookup et) params (type_block md et) = Inr (type_block md' et)"
    and "et' \<noteq> et \<Longrightarrow> type_block md' et' = type_block md et'"
  using assms by (auto simp: apply_entity_type_def split: sum.splits)

lemma apply_parameters_other:
  assumes "for_each (apply_parameter lookup et) params em = Inr em'" and "pn \<notin> fst ` set params"
  shows "pget em' pn = pget em pn"
  using assms(1) refl
proof (rule for_each_invariant)
  fix x t t' assume x: "x \<in> set params" "pget t pn = pget em pn" "apply_parameter lookup et x t = Inr t'"
  obtain a b where "x = (a, b)" by (cases x)
  with x assms(2) show "pget t' pn = pget em pn" using apply_parameter_other by (metis fst_conv image_eqI)
qed

text \<open>The parameter's own iteration decides its final value.\<close>

lemma apply_parameters_run:
  assumes run: "for_each (apply_parameter lookup et) params em = Inr em'"
    and dist: "distinct (map fst params)" and mem: "(pn, ops) \<in> set params"
  shows "\<exists>u. run_ops lookup (sorted_ops lookup ops) (policy_input pn (pget em pn)) = Some u \<and>
    pget em' pn = policy_output pn (pget em pn) u"
proof -
  from mem obtain us vs where params: "params = us @ (pn, ops) # vs" by (meson split_list)
  with run obtain e1 e2 where e1: "for_each (apply_parameter lookup et) us em = Inr e1"
    and e2: "apply_parameter lookup et (pn, ops) e1 = Inr e2"
    and e3: "for_each (apply_parameter lookup et) vs e2 = Inr em'"
    by (auto simp: for_each_append split: sum.splits)
  have "pn \<notin> fst ` set us" "pn \<notin> fst ` set vs" using dist params by auto
  then have "pget e1 pn = pget em pn" "pget em' pn = pget e2 pn"
    using e1 e3 by (auto dest: apply_parameters_other)
  with apply_parameter_run [OF e2] show ?thesis by simp
qed

lemma apply_types_other:
  assumes "for_each (apply_entity_type lookup) policy md = Inr md'" and "et \<notin> fst ` set policy"
  shows "type_block md' et = type_block md et"
  using assms(1) refl
proof (rule for_each_invariant)
  fix x t t' assume x: "x \<in> set policy" "type_block t et = type_block md et"
    "apply_entity_type lookup x t = Inr t'"
  obtain a b where "x = (a, b)" by (cases x)
  with x assms(2) show "type_block t' et = type_block md et"
    using apply_entity_type_run(2) by (metis fst_conv image_eqI)
qed

lemma apply_types_run:
  assumes run: "for_each (apply_entity_type lookup) policy md = Inr md'"
    and dist: "distinct (map fst policy)" and mem: "(et, params) \<in> set policy"
  shows "for_each (apply_parameter lookup et) params (type_block md et) = Inr (type_block md' et)"
proof -
  from mem obtain us vs where policy: "policy = us @ (et, params) # vs" by (meson split_list)
  with run obtain m1 m2 where m1: "for_each (apply_entity_type lookup) us md = Inr m1"
    and m2: "apply_entity_type lookup (et, params) m1 = Inr m2"
    and m3: "for_each (apply_entity_type lookup) vs m2 = Inr md'"
    by (auto simp: for_each_append split: sum.splits)
  have "et \<notin> fst ` set us" "et \<notin> fst ` set vs" using dist policy by auto
  then have "type_block m1 et = type_block md et" "type_block md' et = type_block m2 et"
    using m1 m3 by (auto dest: apply_types_other)
  with apply_entity_type_run(1) [OF m2] show ?thesis by simp
qed

text \<open>A policy as \<open>resolveMetadataPolicy\<close> builds it: each key once at every level.\<close>

definition keys_once :: "merged_policy \<Rightarrow> bool" where
  "keys_once policy \<longleftrightarrow>
     distinct (map fst policy) \<and>
     (\<forall>(et, ps) \<in> set policy. distinct (map fst ps) \<and> (\<forall>(pn, ops) \<in> set ps. distinct (map fst ops)))"

lemma keys_onceD:
  assumes "keys_once policy" and "(n, v) \<in> set (ops_of policy et pn)"
  obtains ps where "(et, ps) \<in> set policy" and "(pn, ops_of policy et pn) \<in> set ps"
    and "distinct (map fst policy)" and "distinct (map fst ps)" and "distinct (map fst (ops_of policy et pn))"
proof -
  from assms(2) obtain ps where ps: "map_of policy et = Some ps"
    by (cases "map_of policy et") (simp_all add: ops_of_def)
  with assms(2) have ops: "map_of ps pn = Some (ops_of policy et pn)"
    by (cases "map_of ps pn") (simp_all add: ops_of_def)
  from ps ops have "(et, ps) \<in> set policy" "(pn, ops_of policy et pn) \<in> set ps"
    by (auto dest: map_of_SomeD)
  with assms(1) that show ?thesis by (fastforce simp: keys_once_def)
qed

abbreviation overridden :: "metadata \<Rightarrow> metadata option \<Rightarrow> metadata" where
  "overridden md over \<equiv> (case over of None \<Rightarrow> md | Some ov \<Rightarrow> override_metadata ov md)"

lemma apply_policy_run:
  assumes "applyMetadataPolicy md policy over None = Inr r" and "keys_once policy"
    and "(n, v) \<in> set (ops_of policy et pn)"
  shows "\<exists>u. run_ops operators (sorted_ops operators (ops_of policy et pn))
             (policy_input pn (block_value (overridden md over) et pn)) = Some u \<and>
           block_value r et pn = policy_output pn (block_value (overridden md over) et pn) u"
proof -
  obtain ps where ps: "(et, ps) \<in> set policy" "(pn, ops_of policy et pn) \<in> set ps"
    "distinct (map fst policy)" "distinct (map fst ps)"
    using keys_onceD [OF assms(2,3)] .
  have "for_each (apply_entity_type operators) policy (overridden md over) = Inr r"
    using assms(1) by (simp add: applyMetadataPolicy_def check_options_def buildOperatorLookup_def Let_def)
  from apply_types_run [OF this ps(3,1)] show ?thesis using ps(4,2)
    by (rule apply_parameters_run)
qed

lemma apply_policy_checks:
  assumes "applyMetadataPolicy md policy over None = Inr r" and "keys_once policy"
    and "(n, v) \<in> set (ops_of policy et pn)" and "n \<in> set STANDARD_OPERATOR_NAMES" and "pn \<noteq> ''scope''"
  shows "checks n v (block_value r et pn)"
proof -
  obtain opr where "map_of operators n = Some opr" using assms(4) dom_operators by blast
  with apply_policy_run [OF assms(1,2,3)] assms(5) keys_onceD [OF assms(2,3)] assms(3) show ?thesis
    using run_sorted_checks policy_other by metis
qed

section \<open>Properties\<close>

text \<open>
  Metadata that comes out of \<open>applyMetadataPolicy\<close> checks the whole policy: whatever order
  the operators of a parameter are listed in, and whatever value the entity or its superior gave,
  the final value is in the \<open>one_of\<close> set, within \<open>subset_of\<close>, above \<open>superset_of\<close>, present when
  \<open>essential\<close> or \<open>default\<close> is set; a later operator never undoes an earlier check. (\<open>scope\<close> is
  converted to an array for the checks and back.)
\<close>
lemma applied_policy_is_satisfied:
  assumes "applyMetadataPolicy md policy over None = Inr r" and "keys_once policy"
    and "(n, v) \<in> set (ops_of policy et pn)" and "n \<in> set STANDARD_OPERATOR_NAMES" and "pn \<noteq> ''scope''"
  shows "checks n v (pget (type_block r et) pn)"
  using assms by (rule apply_policy_checks)

definition example_policy :: merged_policy where
  "example_policy = [(''rp'', [(''grants'', [(''essential'', JBool True),
     (''subset_of'', JArr [JStr ''a'', JStr ''b'']), (''add'', JArr [JStr ''b''])])])]"

lemma example_apply:
  "applyMetadataPolicy [(''rp'', [(''grants'', JArr [JStr ''a'', JStr ''c''])])] example_policy None None =
     Inr [(''rp'', [(''grants'', JArr [JStr ''a'', JStr ''b''])])]"
  by code_simp

lemma applied_policy_is_satisfied_witness:
  "checks ''subset_of'' (JArr [JStr ''a'', JStr ''b'']) (JArr [JStr ''a'', JStr ''b''])"
  using applied_policy_is_satisfied [OF example_apply, of "''subset_of''"
      "JArr [JStr ''a'', JStr ''b'']" "''rp''" "''grants''"]
  by (simp add: example_policy_def keys_once_def ops_of_def STANDARD_OPERATOR_NAMES_def type_block_def pget_def)

lemma apply_parameters_scope_other:
  assumes "for_each (apply_entity_type lookup) policy md = Inr r" and "keys_once policy"
    and "\<forall>ps. (et, ps) \<in> set policy \<longrightarrow> pn \<notin> fst ` set ps"
  shows "block_value r et pn = block_value md et pn"
proof (cases "et \<in> fst ` set policy")
  case True
  then obtain ps where ps: "(et, ps) \<in> set policy" by auto
  with assms(1,2) have "for_each (apply_parameter lookup et) ps (type_block md et) = Inr (type_block r et)"
    by (auto simp: keys_once_def intro: apply_types_run)
  then show ?thesis by (rule apply_parameters_other) (use ps assms(3) in blast)
qed (use assms(1) apply_types_other in force)

text \<open>
  Applying a policy changes nothing the policy does not name: a parameter no operator entry of
  its entity type mentions keeps the value it had once the superior's metadata was put in, whatever
  the custom operators are.
\<close>
lemma apply_policy_frame:
  assumes "applyMetadataPolicy md policy over custom = Inr r" and "keys_once policy"
    and "\<forall>ps. (et, ps) \<in> set policy \<longrightarrow> pn \<notin> fst ` set ps"
  shows "pget (type_block r et) pn =
         pget (type_block (case over of None \<Rightarrow> md | Some ov \<Rightarrow> override_metadata ov md) et) pn"
proof -
  have "for_each (apply_entity_type (buildOperatorLookup custom)) policy (overridden md over) = Inr r"
    using assms(1) by (auto simp: applyMetadataPolicy_def Let_def split: sum.splits)
  then show ?thesis using assms(2,3) by (rule apply_parameters_scope_other)
qed

lemma apply_policy_frame_witness:
  "pget (type_block [(''rp'', [(''name'', JStr ''x''), (''grants'', JArr [JStr ''a'', JStr ''b''])])] ''rp'') ''name'' =
   JStr ''x''"
proof -
  have "applyMetadataPolicy [(''rp'', [(''name'', JStr ''x''), (''grants'', JArr [JStr ''a'', JStr ''c''])])]
          example_policy None None =
        Inr [(''rp'', [(''name'', JStr ''x''), (''grants'', JArr [JStr ''a'', JStr ''b''])])]"
    by code_simp
  from apply_policy_frame [OF this, of "''rp''" "''name''"] show ?thesis
    by (simp add: example_policy_def keys_once_def type_block_def pget_def)
qed

text \<open>
  The conversion of a space-delimited \<open>scope\<close> loses nothing: splitting the joined text of any
  list of non-empty, space-free words gives the list back, and splitting any text and joining it
  again only normalises the spaces (a second round trip changes nothing).
\<close>
lemma scope_round_trip:
  "(list_all (\<lambda>w. w \<noteq> [] \<and> CHR '' '' \<notin> set w) ws \<longrightarrow> normalizeScope (denormalizeScope ws) = ws) \<and>
   normalizeScope (denormalizeScope (normalizeScope s)) = normalizeScope s"
proof -
  have rt: "normalizeScope (denormalizeScope ws) = ws"
    if "list_all (\<lambda>w. w \<noteq> [] \<and> CHR '' '' \<notin> set w) ws" for ws
  proof (cases "ws = []")
    case False
    then have "split_on (CHR '' '') (join_with '' '' ws) = ws"
      using that by (intro split_on_join) (auto simp: list_all_iff)
    then show ?thesis using that
      by (simp add: normalizeScope_def denormalizeScope_def filter_id_conv list_all_iff)
  qed (simp add: normalizeScope_def denormalizeScope_def)
  moreover have "list_all (\<lambda>w. w \<noteq> [] \<and> CHR '' '' \<notin> set w) (normalizeScope s)"
    by (auto simp: normalizeScope_def list_all_iff dest: split_on_pieces)
  ultimately show ?thesis by blast
qed

lemma scope_round_trip_witness:
  "normalizeScope (denormalizeScope [''openid'', ''email'']) = [''openid'', ''email'']"
  using scope_round_trip [of "[''openid'', ''email'']"] by simp
end
