(* ===== verification/Policy_Chain.thy ===== *)
theory Policy_Chain
  imports Policy_Apply
begin

text \<open>
  The two halves of metadata policy put together, as the chain validator runs them:
  \<open>resolveMetadataPolicy\<close> over the subordinate statements, then \<open>applyMetadataPolicy\<close> of the result
  to the leaf's metadata. What one superior demands holds of the final metadata, whatever the other
  superiors and the entity say.
\<close>

section \<open>The resolved policy is well formed\<close>

lemma keys_once_ops: "keys_once m \<Longrightarrow> distinct (map fst (ops_of m et pn))"
  by (auto simp: keys_once_def ops_of_def dest!: map_of_SomeD split: option.splits)

lemma set_AList_update: "(k', w) \<in> set (AList.update k v m) \<Longrightarrow> (k', w) = (k, v) \<or> (k', w) \<in> set m"
  by (induction m) (auto split: if_splits)

lemma keys_once_put_ops:
  assumes "keys_once m" and "distinct (map fst d)"
  shows "keys_once (put_ops et pn d m)"
proof -
  let ?ps = "case map_of m et of None \<Rightarrow> [] | Some ps \<Rightarrow> ps"
  have "distinct (map fst ?ps) \<and> (\<forall>(pn, ops) \<in> set ?ps. distinct (map fst ops))"
    using assms(1) by (auto simp: keys_once_def dest!: map_of_SomeD split: option.splits)
  then have "distinct (map fst (AList.update pn d ?ps)) \<and>
      (\<forall>(pn, ops) \<in> set (AList.update pn d ?ps). distinct (map fst ops))"
    using assms(2) by (auto dest!: set_AList_update)
  with assms(1) show ?thesis
    by (auto simp: keys_once_def put_ops_def dest!: set_AList_update)
qed

lemma keys_once_ensure_type: "keys_once m \<Longrightarrow> keys_once (ensure_type et m)"
  by (auto simp: keys_once_def ensure_type_def dest!: set_AList_update split: option.splits)

lemma merge_operator_entry_keys_once:
  "merge_operator_entry lookup et pn e m = Inr m' \<Longrightarrow> keys_once m \<Longrightarrow> keys_once m'"
  by (cases e) (auto simp: merge_operator_entry_def Let_def keys_once_put_ops keys_once_ops
      split: option.splits if_splits sum.splits)

lemma merge_parameter_keys_once:
  assumes "merge_parameter lookup et x m = Inr m'" and "keys_once m"
  shows "keys_once m'"
proof -
  obtain pn oe where x: "x = (pn, oe)" by (cases x)
  have "for_each (merge_operator_entry lookup et pn) (entries oe)
          (put_ops et pn (ops_of m et pn) m) = Inr m'"
    using assms(1) by (auto simp: x merge_parameter_def Let_def split: sum.splits)
  then show ?thesis
    by (rule for_each_invariant)
       (use assms(2) keys_once_put_ops keys_once_ops merge_operator_entry_keys_once in blast)+
qed

lemma merge_entity_type_keys_once:
  assumes "merge_entity_type lookup x m = Inr m'" and "keys_once m"
  shows "keys_once m'"
proof -
  obtain et pp where x: "x = (et, pp)" by (cases x)
  have "for_each (merge_parameter lookup et) (entries pp) (ensure_type et m) = Inr m'"
    using assms(1) by (simp add: x merge_entity_type_def)
  then show ?thesis
    by (rule for_each_invariant)
       (use assms(2) keys_once_ensure_type merge_parameter_keys_once in blast)+
qed

lemma merge_statement_keys_once:
  assumes "merge_statement lookup s m = Inr m'" and "keys_once m"
  shows "keys_once m'"
proof (cases "truthy (pget (payload s) ''metadata_policy'')")
  case True
  then have "for_each (merge_entity_type lookup) (entries (pget (payload s) ''metadata_policy'')) m = Inr m'"
    using assms(1) by (simp add: merge_statement_def)
  then show ?thesis
    by (rule for_each_invariant) (use assms(2) merge_entity_type_keys_once in blast)+
qed (use assms in \<open>simp add: merge_statement_def\<close>)

lemma resolve_keys_once:
  assumes "resolveMetadataPolicy stmts custom = Inr policy"
  shows "keys_once policy"
  using resolve_run(1) [OF assms]
  by (rule for_each_invariant) (use merge_statement_keys_once in \<open>auto simp: keys_once_def\<close>)

lemma resolve_standard_ok:
  assumes "resolveMetadataPolicy stmts custom = Inr policy"
    and "\<forall>s \<in> set stmts. ordinary_policy s"
  shows "standard_ok (ops_of policy)"
proof -
  obtain u where "check_options custom = Inr u" using resolve_run(2) [OF assms(1)] by blast
  then have reg: "standard_registry (buildOperatorLookup custom)" by (rule validated_registry)
  show ?thesis
    using resolve_run(1) [OF assms(1)]
  proof (rule for_each_invariant)
    show "standard_ok (ops_of [])" by (simp add: standard_ok_def pget_def)
  qed (use assms(2) standard_registry.statement_standard_ok [OF reg] in auto)
qed

lemma standard_ok_entry:
  assumes "standard_ok (ops_of policy)" and "keys_once policy" and "(n, w) \<in> set (ops_of policy et pn)"
    and "map_of operators n \<noteq> None"
  shows "opt_ordinary w"
  using assms(1,4) pget_in [OF keys_once_ops [OF assms(2)] assms(3)] dom_operators [of n]
  unfolding standard_ok_def opt_ordinary_def by metis

lemma resolve_strict_for:
  assumes "resolveMetadataPolicy stmts custom = Inr policy"
    and "\<forall>s \<in> set stmts. ordinary_policy s" and "stmt \<in> set stmts"
    and "(et, pp) \<in> set (entries (pget (payload stmt) ''metadata_policy''))"
    and "(pn, oe) \<in> set (entries pp)" and "(n, v) \<in> set (entries oe)"
    and "n \<in> set STANDARD_OPERATOR_NAMES"
  shows "strict_for et pn n v (ops_of policy)"
proof -
  obtain u where "check_options custom = Inr u" using resolve_run(2) [OF assms(1)] by blast
  then have "standard_registry (buildOperatorLookup custom)" by (rule validated_registry)
  from this resolve_run(1) [OF assms(1)]
  have "standard_ok (ops_of policy) \<and> strict_for et pn n v (ops_of policy)"
    by (rule standard_registry.statements_establish)
       (use assms in \<open>auto simp: standard_ok_def pget_def\<close>)
  then show ?thesis ..
qed

text \<open>The entity types and parameters the statements' policies name; a resolved policy holds no others.\<close>

definition names_type :: "parsed_statement list \<Rightarrow> string \<Rightarrow> bool" where
  "names_type stmts et \<longleftrightarrow> (\<exists>s \<in> set stmts. et \<in> fst ` set (entries (pget (payload s) ''metadata_policy'')))"

definition names_parameter :: "parsed_statement list \<Rightarrow> string \<Rightarrow> string \<Rightarrow> bool" where
  "names_parameter stmts et pn \<longleftrightarrow>
     (\<exists>s \<in> set stmts. \<exists>pp. (et, pp) \<in> set (entries (pget (payload s) ''metadata_policy'')) \<and> pn \<in> fst ` set (entries pp))"

definition named_only :: "parsed_statement list \<Rightarrow> merged_policy \<Rightarrow> bool" where
  "named_only stmts m \<longleftrightarrow>
     (\<forall>(et, ps) \<in> set m. names_type stmts et \<and> (\<forall>pn \<in> fst ` set ps. names_parameter stmts et pn))"

lemma keys_update: "fst ` set (AList.update k v m) = insert k (fst ` set m)"
  by (induction m) auto

lemma named_only_put_ops:
  assumes "named_only stmts m" and "names_type stmts et" and "names_parameter stmts et pn"
  shows "named_only stmts (put_ops et pn d m)"
proof -
  have "\<forall>k \<in> fst ` set (AList.update pn d (case map_of m et of None \<Rightarrow> [] | Some ps \<Rightarrow> ps)). names_parameter stmts et k"
    unfolding keys_update using assms(1,3)
    by (cases "map_of m et") (fastforce simp: named_only_def dest: map_of_SomeD)+
  with assms(1,2) show ?thesis
    unfolding named_only_def put_ops_def by (blast dest: set_AList_update)
qed

lemma named_only_ensure_type: "named_only stmts m \<Longrightarrow> names_type stmts et \<Longrightarrow> named_only stmts (ensure_type et m)"
  by (auto simp: named_only_def ensure_type_def dest!: set_AList_update split: option.splits)

lemma merge_operator_entry_named_only:
  "merge_operator_entry lookup et pn e m = Inr m' \<Longrightarrow> named_only stmts m \<Longrightarrow> names_type stmts et \<Longrightarrow>
   names_parameter stmts et pn \<Longrightarrow> named_only stmts m'"
  by (cases e) (auto simp: merge_operator_entry_def Let_def named_only_put_ops split: option.splits if_splits sum.splits)

lemma merge_parameter_named_only:
  assumes "merge_parameter lookup et (pn, oe) m = Inr m'" and "named_only stmts m"
    and "names_type stmts et" and "names_parameter stmts et pn"
  shows "named_only stmts m'"
proof -
  have "for_each (merge_operator_entry lookup et pn) (entries oe) (put_ops et pn (ops_of m et pn) m) = Inr m'"
    using assms(1) by (auto simp: merge_parameter_def Let_def split: sum.splits)
  then show ?thesis
    by (rule for_each_invariant) (use assms(2-4) named_only_put_ops merge_operator_entry_named_only in blast)+
qed

lemma merge_entity_type_named_only:
  assumes "merge_entity_type lookup (et, pp) m = Inr m'" and "named_only stmts m"
    and "names_type stmts et" and "\<forall>pn \<in> fst ` set (entries pp). names_parameter stmts et pn"
  shows "named_only stmts m'"
proof -
  have "for_each (merge_parameter lookup et) (entries pp) (ensure_type et m) = Inr m'"
    using assms(1) by (simp add: merge_entity_type_def)
  then show ?thesis
  proof (rule for_each_invariant)
    fix x t t' assume x: "x \<in> set (entries pp)" "named_only stmts t" "merge_parameter lookup et x t = Inr t'"
    obtain pn oe where "x = (pn, oe)" by (cases x)
    with x assms(3,4) merge_parameter_named_only show "named_only stmts t'" by (metis fst_conv image_eqI)
  qed (use assms(2,3) named_only_ensure_type in blast)
qed

lemma merge_statement_named_only:
  assumes "merge_statement lookup s m = Inr m'" and "named_only stmts m" and "s \<in> set stmts"
  shows "named_only stmts m'"
proof (cases "truthy (pget (payload s) ''metadata_policy'')")
  case True
  then have "for_each (merge_entity_type lookup) (entries (pget (payload s) ''metadata_policy'')) m = Inr m'"
    using assms(1) by (simp add: merge_statement_def)
  then show ?thesis
  proof (rule for_each_invariant)
    fix x t t' assume x: "x \<in> set (entries (pget (payload s) ''metadata_policy''))" "named_only stmts t"
      "merge_entity_type lookup x t = Inr t'"
    obtain et pp where xe: "x = (et, pp)" by (cases x)
    with x(1) assms(3) have "names_type stmts et" "\<forall>pn \<in> fst ` set (entries pp). names_parameter stmts et pn"
      by (force simp: names_type_def names_parameter_def)+
    with x(2,3) xe merge_entity_type_named_only show "named_only stmts t'" by blast
  qed (use assms(2) in simp)
qed (use assms in \<open>simp add: merge_statement_def\<close>)

lemma resolve_named_only:
  assumes "resolveMetadataPolicy stmts custom = Inr policy"
  shows "named_only stmts policy"
  using resolve_run(1) [OF assms]
  by (rule for_each_invariant) (use merge_statement_named_only in \<open>auto simp: named_only_def\<close>)

text \<open>What a policy can add to metadata that has nothing of a type.\<close>

lemma apply_types_keys:
  assumes "for_each (apply_entity_type lookup) policy md = Inr md'"
  shows "fst ` set md' = fst ` set md \<union> fst ` set policy"
  using assms
proof (induction policy arbitrary: md)
  case (Cons x policy)
  then obtain m where m: "apply_entity_type lookup x md = Inr m" "for_each (apply_entity_type lookup) policy m = Inr md'"
    by (auto split: sum.splits)
  obtain et ps where x: "x = (et, ps)" by (cases x)
  with m(1) obtain em where "m = AList.update et em md" by (auto simp: apply_entity_type_def split: sum.splits)
  then have "fst ` set m = insert et (fst ` set md)" using keys_update by simp
  with Cons.IH [OF m(2)] x show ?case by auto
qed simp

lemma applied_keys:
  assumes "applyMetadataPolicy md policy None custom = Inr r"
  shows "fst ` set r = fst ` set md \<union> fst ` set policy"
  using assms apply_types_keys by (auto simp: applyMetadataPolicy_def Let_def split: sum.splits)

section \<open>The value a parameter ends with\<close>

lemma run_operator_undef: "map_of operators n = Some opr \<Longrightarrow> run_operator opr JUndef p = None"
  by (erule operators_cases)
     (simp_all add: operator_defs run_checked validateStandardPolicyOperatorConfiguration_def
        isComparableArray_def)

lemma run_operator_ordinary:
  assumes "map_of operators n = Some opr" and "opt_ordinary v" and "opt_ordinary p" and "run_operator opr v p = Some q"
  shows "opt_ordinary q"
proof -
  have v: "ordinary v" using assms(2,4) run_operator_undef [OF assms(1)] by (auto simp: opt_ordinary_def)
  show ?thesis using assms(1)
  proof (cases rule: operators_cases)
    case 1 with v assms(3,4) show ?thesis by (auto intro: value_op.run_ordinary)
  next
    case 2 with v assms(3,4) show ?thesis by (auto intro: add_op.run_ordinary)
  next
    case 3 with v assms(3,4) show ?thesis by (auto intro: default_op.run_ordinary)
  next
    case 4 with v assms(3,4) show ?thesis by (auto intro: one_of_op.run_ordinary)
  next
    case 5 with v assms(3,4) show ?thesis by (auto intro: subset_of_op.run_ordinary)
  next
    case 6 with v assms(3,4) show ?thesis by (auto intro: superset_of_op.run_ordinary)
  next
    case 7 with v assms(3,4) show ?thesis by (auto intro: essential_op.run_ordinary)
  qed
qed

lemma run_ops_ordinary:
  assumes "run_ops operators ops p = Some q" and "opt_ordinary p"
    and "\<forall>(n, v) \<in> set ops. map_of operators n \<noteq> None \<longrightarrow> opt_ordinary v"
  shows "opt_ordinary q"
  using assms
proof (induction operators ops p rule: run_ops.induct)
  case (2 n v ops p)
  show ?case
  proof (cases "map_of operators n")
    case None
    with 2 show ?thesis by auto
  next
    case (Some g)
    with 2(3) obtain r where r: "run_operator g v p = Some r" "run_ops operators ops r = Some q" "r \<noteq> JNull"
      by (auto split: option.splits if_splits)
    have "opt_ordinary r" using run_operator_ordinary [OF Some _ 2(4) r(1)] 2(5) Some by simp
    with 2(2) [OF Some r(1,3,2)] 2(5) show ?thesis by simp
  qed
qed simp

text \<open>What each standard operator with value \<open>v\<close> demands of a parameter's value \<open>q\<close>.\<close>

definition satisfies :: "string \<Rightarrow> jsval \<Rightarrow> jsval \<Rightarrow> bool" where
  "satisfies n v q =
     (if n = ''value'' then (if v = JNull then q = JUndef else deepEqual v q)
      else if n = ''add'' then is_arr q \<and> isSubset (items v) (items q)
      else checks n v q)"

lemma satisfies_named:
  "satisfies ''value'' v q \<longleftrightarrow> (if v = JNull then q = JUndef else deepEqual v q)"
  "satisfies ''add'' v q \<longleftrightarrow> is_arr q \<and> isSubset (items v) (items q)"
  "satisfies ''one_of'' v q \<longleftrightarrow> q = JUndef \<or> isOneOfMetadataValue q \<and> containsElement (items v) q"
  "satisfies ''subset_of'' v q \<longleftrightarrow> q = JUndef \<or> is_arr q \<and> isSubset (items q) (items v)"
  "satisfies ''superset_of'' v q \<longleftrightarrow> q = JUndef \<or> is_arr q \<and> isSubset (items v) (items q)"
  "satisfies ''essential'' v q \<longleftrightarrow> (v = JBool True \<longrightarrow> q \<noteq> JUndef)"
  "satisfies ''default'' v q \<longleftrightarrow> q \<noteq> JUndef"
  by (simp_all add: satisfies_def checks_def)

lemma tightens_named:
  "tightens ''value'' v c \<longleftrightarrow> deepEqual v c"
  "tightens ''add'' v c \<longleftrightarrow> isSubset (items v) (items c)"
  "tightens ''one_of'' v c \<longleftrightarrow> isSubset (items c) (items v)"
  "tightens ''subset_of'' v c \<longleftrightarrow> isSubset (items c) (items v)"
  "tightens ''superset_of'' v c \<longleftrightarrow> isSubset (items v) (items c)"
  "tightens ''essential'' v c \<longleftrightarrow> (v = JBool True \<longrightarrow> c = JBool True)"
  by (simp_all add: tightens_def)

text \<open>What a stricter operator accepts, the looser one accepts.\<close>

lemma tightens_satisfies:
  assumes t: "tightens n v c" and sat: "satisfies n c q" and pl: "ordinary v" "ordinary c" "opt_ordinary q"
  shows "satisfies n v q"
proof -
  consider "n = ''one_of''" | "n = ''subset_of''" | "n = ''superset_of''" | "n = ''add''" | "n = ''essential''"
    | "n = ''value''" | "n = ''default''"
    using t unfolding tightens_def by (metis (full_types))
  then show ?thesis
  proof cases
    case 1
    with t have "isSubset (items c) (items v)" by (simp add: tightens_named)
    then have "canon ` set (items c) \<subseteq> canon ` set (items v)"
      using pl by (simp add: isSubset_canon ordinary_items)
    then have "containsElement (items v) q" if "q \<noteq> JUndef" "containsElement (items c) q"
      using that pl by (simp add: opt_ordinary_def containsElement_canon ordinary_items subsetD)
    with 1 sat show ?thesis by (auto simp: satisfies_named)
  next
    case 2
    with t have c: "isSubset (items c) (items v)" by (simp add: tightens_named)
    have "isSubset (items q) (items v)" if "q \<noteq> JUndef" "isSubset (items q) (items c)"
      using isSubset_trans [OF _ pl(2,1) that(2) c] that(1) pl(3) by (simp add: opt_ordinary_def)
    with 2 sat show ?thesis by (auto simp: satisfies_named)
  next
    case 3
    with t have c: "isSubset (items v) (items c)" by (simp add: tightens_named)
    have "isSubset (items v) (items q)" if "q \<noteq> JUndef" "isSubset (items c) (items q)"
      using isSubset_trans [OF pl(1,2) _ c that(2)] that(1) pl(3) by (simp add: opt_ordinary_def)
    with 3 sat show ?thesis by (auto simp: satisfies_named)
  next
    case 4
    with t have c: "isSubset (items v) (items c)" by (simp add: tightens_named)
    from 4 sat have q: "is_arr q" "isSubset (items c) (items q)" by (simp_all add: satisfies_named)
    from q(1) pl(3) have "ordinary q" by (auto simp: opt_ordinary_def)
    from isSubset_trans [OF pl(1,2) this c q(2)] q(1) 4 show ?thesis by (simp add: satisfies_named)
  next
    case 5
    with t sat show ?thesis by (simp add: satisfies_named tightens_named)
  next
    case 6
    then have d: "deepEqual v c" using t by (simp add: tightens_named)
    then have n: "v = JNull \<longleftrightarrow> c = JNull" by auto
    have "deepEqual v q" if "deepEqual c q"
    proof -
      have "q \<noteq> JUndef" using that pl(2) by auto
      then show ?thesis using deepEqual_trans [OF pl(1,2) _ d that] pl(3) by (simp add: opt_ordinary_def)
    qed
    with 6 sat n show ?thesis by (simp add: satisfies_named split: if_splits)
  next
    case 7
    with sat show ?thesis by (simp add: satisfies_named)
  qed
qed

lemma run_value:
  "run_operator valueOperator v p = Some q \<Longrightarrow> q = (if v = JNull then JUndef else v)"
  by (auto simp: valueOperator_def run_checked split: if_splits)

lemma run_add:
  "run_operator addOperator v p = Some q \<Longrightarrow>
     p = JUndef \<and> q = v \<or> isComparableArray p \<and> q = JArr (arrayUnion (items p) (items v))"
  by (auto simp: addOperator_def run_checked split: if_splits)

lemma run_default_present:
  "run_operator defaultOperator v p = Some q \<Longrightarrow> p \<noteq> JUndef \<Longrightarrow> q = p"
  by (auto simp: defaultOperator_def run_checked split: if_splits)

lemma arrayUnion_absorb:
  assumes "isSubset ys xs" and "list_all ordinary xs" and "list_all ordinary ys"
  shows "arrayUnion xs ys = xs"
  using assms(1,3)
proof (induction ys)
  case (Cons y ys)
  then have "list_ex (\<lambda>r. deepEqual r y) xs"
    using assms(2) by (auto simp: isSubset_def list_ex_iff list_all_iff dest: deepEqual_sym)
  with Cons show ?case by (simp add: arrayUnion_def isSubset_def)
qed (simp add: arrayUnion_def)

lemma arrayIntersection_absorb: "isSubset xs ys \<Longrightarrow> arrayIntersection xs ys = xs"
  by (simp add: isSubset_def arrayIntersection_def list_all_iff filter_id_conv)

text \<open>An operator that may be combined with \<open>value\<close> leaves the value it set alone.\<close>

lemma combinable_keeps_value:
  assumes n: "map_of operators n = Some g" and comb: "op_canCombineWith valueOperator n v w"
    and run: "run_operator g w (if v = JNull then JUndef else v) = Some q" and pl: "ordinary v" "opt_ordinary w"
  shows "q = (if v = JNull then JUndef else v)"
proof -
  have items_w: "list_all ordinary (items w)" using pl(2) by (auto simp: opt_ordinary_def ordinary_items)
  have cv: "n \<noteq> ''value'' \<and> checkValueCombination n v w"
    using comb by (simp add: valueOperator_def split: if_splits)
  show ?thesis using n
  proof (cases rule: operators_cases)
    case 2
    with cv have v: "is_arr v" "isSubset (items w) (items v)"
      by (auto simp: checkValueCombination_def split: if_splits)
    then obtain xs where "v = JArr xs" by (cases v) auto
    with run 2 v pl show ?thesis
      by (auto dest!: run_add simp: arrayUnion_absorb items_w)
  next
    case 3
    with cv have "v \<noteq> JNull" by (auto simp: checkValueCombination_def)
    with run 3 pl show ?thesis using run_default_present by (cases v) auto
  next
    case 5
    with cv have v: "is_arr v" "isSubset (items v) (items w)"
      by (auto simp: checkValueCombination_def split: if_splits)
    then obtain xs where "v = JArr xs" by (cases v) auto
    with run 5 v show ?thesis by (auto dest!: run_subset_of simp: arrayIntersection_absorb)
  qed (use run cv in \<open>auto dest: run_one_of run_superset_of run_essential\<close>)
qed

lemma run_ops_keep_value:
  assumes "run_ops operators ops (if v = JNull then JUndef else v) = Some q" and "ordinary v"
    and "\<forall>(n, w) \<in> set ops. map_of operators n \<noteq> None \<longrightarrow> opt_ordinary w \<and> op_canCombineWith valueOperator n v w"
  shows "q = (if v = JNull then JUndef else v)"
  using assms(1,3)
proof (induction ops)
  case (Cons e ops)
  obtain n w where e: "e = (n, w)" by (cases e)
  show ?case
  proof (cases "map_of operators n")
    case None
    with Cons e show ?thesis by auto
  next
    case (Some g)
    let ?p = "if v = JNull then JUndef else v"
    from Cons.prems(1) Some obtain r where r: "run_operator g w ?p = Some r" "run_ops operators ops r = Some q"
      unfolding e by (auto split: option.splits if_splits)
    have "r = ?p" using combinable_keeps_value [OF Some _ r(1) assms(2)] Cons.prems(2) Some e by simp
    with r(2) Cons.IH Cons.prems(2) show ?thesis by simp
  qed
qed simp

lemma order_ge_value: "map_of operators n = Some g \<Longrightarrow> op_order g \<ge> 1"
  by (erule operators_cases) (simp_all add: op_orders)

text \<open>\<open>value\<close> is the first operator of a parameter.\<close>

lemma sorted_ops_value_first:
  assumes "(''value'', v) \<in> set ops" and "distinct (map fst ops)"
  obtains vs where "sorted_ops operators ops = (''value'', v) # vs"
proof -
  have val: "map_of operators ''value'' = Some valueOperator" by (simp add: operators_def)
  with assms(1) have "(''value'', v) \<in> set (sorted_ops operators ops)" by (simp add: sorted_ops_def)
  then obtain us vs where split: "sorted_ops operators ops = us @ (''value'', v) # vs" by (meson split_list)
  have "us = []"
  proof (rule ccontr)
    assume "us \<noteq> []"
    then obtain m w us' where "us = (m, w) # us'" by (metis list.exhaust surj_pair)
    with split have s: "sorted_ops operators ops = [] @ (m, w) # (us' @ (''value'', v) # vs)" by simp
    have "(m, w) \<in> set (sorted_ops operators ops)" using s by simp
    then obtain g where g: "map_of operators m = Some g" by (auto simp: sorted_ops_def)
    have "op_order_of operators m < op_order_of operators ''value''"
      using sorted_ops_after [OF s assms(2)] by simp
    then show False using order_ge_value [OF g] g val by (simp add: op_order_of_def op_orders)
  qed
  with split that show ?thesis by simp
qed

text \<open>An operator that may be combined with \<open>add\<close> keeps the values it added.\<close>

lemma combinable_keeps_add:
  assumes n: "map_of operators n = Some g" and comb: "op_canCombineWith addOperator n v w"
    and late: "op_order addOperator < op_order g" and run: "run_operator g w p = Some q"
    and p: "is_arr p" "isSubset (items v) (items p)" and pl: "ordinary v" "opt_ordinary w" "ordinary p"
  shows "is_arr q \<and> isSubset (items v) (items q)"
  using n
proof (cases rule: operators_cases)
  case 3
  have "p \<noteq> JUndef" using p(1) by auto
  then have "q = p" using run 3 run_default_present by blast
  then show ?thesis using p by simp
next
  case 4
  with comb show ?thesis by (simp add: addOperator_def NEVER_ALLOWED_def)
next
  case 5
  with comb have w: "isComparableArray w" "isSubset (items v) (items w)"
    by (auto simp: addOperator_def NEVER_ALLOWED_def split: if_splits)
  have "ordinary w" using w(1) pl(2) by (auto simp: opt_ordinary_def isComparableArray_def)
  then have "isSubset (items v) (arrayIntersection (items p) (items w))"
    using w(2) p(2) pl by (simp add: isSubset_canon ordinary_items ordinary_arrayIntersection set_arrayIntersection)
  with run 5 p(1) show ?thesis by (auto dest!: run_subset_of)
qed (use run late p in \<open>auto simp: op_orders dest: run_superset_of run_essential\<close>)

lemma run_ops_keep_add:
  assumes "run_ops operators ops p = Some q" and "is_arr p" "isSubset (items v) (items p)"
    and "ordinary v" and "ordinary p"
    and "\<forall>(n, w) \<in> set ops. \<forall>g. map_of operators n = Some g \<longrightarrow>
      opt_ordinary w \<and> op_canCombineWith addOperator n v w \<and> op_order addOperator < op_order g"
  shows "is_arr q \<and> isSubset (items v) (items q)"
  using assms(1-3,5,6)
proof (induction ops arbitrary: p)
  case (Cons e ops)
  obtain n w where e: "e = (n, w)" by (cases e)
  show ?case
  proof (cases "map_of operators n")
    case None
    with Cons e show ?thesis by auto
  next
    case (Some g)
    from Cons.prems(1) Some obtain r where r: "run_operator g w p = Some r" "run_ops operators ops r = Some q"
      unfolding e by (auto split: option.splits if_splits)
    have w: "opt_ordinary w" "op_canCombineWith addOperator n v w" "op_order addOperator < op_order g"
      using Cons.prems(5) Some e by auto
    have keep: "is_arr r" "isSubset (items v) (items r)"
      using combinable_keeps_add [OF Some w(2,3) r(1) Cons.prems(2,3) assms(4) w(1) Cons.prems(4)] by simp_all
    have "opt_ordinary r"
      using run_operator_ordinary [OF Some w(1) _ r(1)] Cons.prems(4) by (simp add: opt_ordinary_def)
    then have "ordinary r" using keep(1) by (auto simp: opt_ordinary_def)
    with Cons.IH [OF r(2) keep] Cons.prems(5) show ?thesis by simp
  qed
qed simp

section \<open>Every operator of a resolved policy holds of the result\<close>

lemma resolved_entry_ordinary:
  assumes res: "resolveMetadataPolicy stmts None = Inr policy" and ord: "\<forall>s \<in> set stmts. ordinary_policy s"
    and "(n, w) \<in> set (ops_of policy et pn)" and "map_of operators n \<noteq> None"
  shows "opt_ordinary w"
  using standard_ok_entry [OF resolve_standard_ok [OF res ord] resolve_keys_once [OF res]] assms(3,4) by blast

lemma resolved_combinable:
  assumes res: "resolveMetadataPolicy stmts None = Inr policy" and ord: "\<forall>s \<in> set stmts. ordinary_policy s"
    and "(m, v) \<in> set (ops_of policy et pn)" and "(n, w) \<in> set (ops_of policy et pn)" and "m \<noteq> n"
    and "map_of operators m = Some f" and "map_of operators n = Some g"
  shows "op_canCombineWith f n v w"
proof -
  note get = pget_in [OF keys_once_ops [OF resolve_keys_once [OF res]]]
  show ?thesis
    using resolved_policy_pairwise_compatible [OF res assms(3-5)] assms(6,7) get [OF assms(3)] get [OF assms(4)]
    by (simp add: buildOperatorLookup_def)
qed

lemma resolved_sorted_entries:
  assumes res: "resolveMetadataPolicy stmts None = Inr policy" and ord: "\<forall>s \<in> set stmts. ordinary_policy s"
    and "sorted_ops operators (ops_of policy et pn) = us @ (m, v) # vs" and "(n, w) \<in> set vs"
    and "map_of operators m = Some f" and "map_of operators n = Some g"
  shows "opt_ordinary w" and "op_canCombineWith f n v w" and "op_order f < op_order g"
proof -
  have dist: "distinct (map fst (ops_of policy et pn))" using resolve_keys_once [OF res] by (rule keys_once_ops)
  have "set (us @ (m, v) # vs) \<subseteq> set (ops_of policy et pn)"
    unfolding assms(3) [symmetric] by (auto simp: sorted_ops_def)
  then have mem: "(m, v) \<in> set (ops_of policy et pn)" "(n, w) \<in> set (ops_of policy et pn)" using assms(4) by auto
  have "op_order_of operators m < op_order_of operators n"
    using sorted_ops_after [OF assms(3) dist] assms(4) by auto
  then show order: "op_order f < op_order g" using assms(5,6) by (simp add: op_order_of_def)
  then have "m \<noteq> n" using assms(5,6) by auto
  then show "op_canCombineWith f n v w" using resolved_combinable [OF res ord] mem assms(5,6) by blast
  show "opt_ordinary w" using resolved_entry_ordinary [OF res ord] mem(2) assms(6) by blast
qed

lemma resolved_value_run:
  assumes res: "resolveMetadataPolicy stmts None = Inr policy" and ord: "\<forall>s \<in> set stmts. ordinary_policy s"
    and "(''value'', v) \<in> set (ops_of policy et pn)"
    and "run_ops operators (sorted_ops operators (ops_of policy et pn)) p = Some u"
  shows "u = (if v = JNull then JUndef else v)"
proof -
  let ?ops = "ops_of policy et pn"
  have dist: "distinct (map fst ?ops)" using resolve_keys_once [OF res] by (rule keys_once_ops)
  have val: "map_of operators ''value'' = Some valueOperator" by (simp add: operators_def)
  obtain vs where vs: "sorted_ops operators ?ops = (''value'', v) # vs"
    using sorted_ops_value_first [OF assms(3) dist] .
  then have s: "sorted_ops operators ?ops = [] @ (''value'', v) # vs" by simp
  from assms(4) obtain q where q: "run_operator valueOperator v p = Some q"
    and rest: "run_ops operators vs q = Some u"
    by (auto simp: vs val split: option.splits if_splits)
  have "valid_config ''value'' v" using q by (auto simp: valueOperator_def run_checked split: if_splits)
  then have "ordinary v" using resolved_entry_ordinary [OF res ord assms(3)] val by (auto simp: opt_ordinary_def)
  from rest [unfolded run_value [OF q]] this show ?thesis
    by (rule run_ops_keep_value) (use resolved_sorted_entries [OF res ord s _ val] in fastforce)
qed

lemma resolved_add_run:
  assumes res: "resolveMetadataPolicy stmts None = Inr policy" and ord: "\<forall>s \<in> set stmts. ordinary_policy s"
    and "(''add'', v) \<in> set (ops_of policy et pn)" and "opt_ordinary p"
    and "run_ops operators (sorted_ops operators (ops_of policy et pn)) p = Some u"
  shows "is_arr u \<and> isSubset (items v) (items u)"
proof -
  let ?ops = "ops_of policy et pn"
  have add: "map_of operators ''add'' = Some addOperator" by (simp add: operators_def)
  have "(''add'', v) \<in> set (sorted_ops operators ?ops)" using assms(3) add by (simp add: sorted_ops_def)
  then obtain us vs where s: "sorted_ops operators ?ops = us @ (''add'', v) # vs" by (meson split_list)
  with assms(5) obtain r q where r: "run_ops operators us p = Some r" and q: "run_operator addOperator v r = Some q"
    and rest: "run_ops operators vs q = Some u"
    by (auto simp: run_ops_append add bind_eq_Some_conv split: option.splits if_splits)
  have us: "(k, w) \<in> set ?ops" if "(k, w) \<in> set us" for k w
  proof -
    have "(k, w) \<in> set (sorted_ops operators ?ops)" using that by (simp add: s)
    then show ?thesis by (simp add: sorted_ops_def)
  qed
  have "opt_ordinary r"
    using r assms(4) by (rule run_ops_ordinary) (use us resolved_entry_ordinary [OF res ord] in blast)
  moreover have cv: "isComparableArray v" using q by (auto simp: addOperator_def run_checked split: if_splits)
  moreover have v: "ordinary v"
    using resolved_entry_ordinary [OF res ord assms(3)] add cv by (auto simp: opt_ordinary_def isComparableArray_def)
  ultimately have "ordinary q \<and> is_arr q \<and> isSubset (items v) (items q)"
    using run_add [OF q]
    by (auto simp: opt_ordinary_def isComparableArray_def isSubset_canon ordinary_items set_arrayUnion
        ordinary_arrayUnion)
  then show ?thesis
    using run_ops_keep_add [OF rest _ _ v] resolved_sorted_entries [OF res ord s _ add] by blast
qed

lemma resolved_run_satisfies:
  assumes res: "resolveMetadataPolicy stmts None = Inr policy" and ord: "\<forall>s \<in> set stmts. ordinary_policy s"
    and "(n, v) \<in> set (ops_of policy et pn)" and "n \<in> set STANDARD_OPERATOR_NAMES" and "opt_ordinary p"
    and "run_ops operators (sorted_ops operators (ops_of policy et pn)) p = Some u"
  shows "satisfies n v u"
proof -
  obtain opr where opr: "map_of operators n = Some opr" using assms(4) dom_operators by blast
  consider "n = ''value''" | "n = ''add''" | "n \<noteq> ''value''" "n \<noteq> ''add''" by blast
  then show ?thesis
  proof cases
    case 1
    then have u: "u = (if v = JNull then JUndef else v)" using resolved_value_run [OF res ord] assms(3,6) by blast
    have "ordinary v" if "v \<noteq> JUndef" using that resolved_entry_ordinary [OF res ord assms(3)] opr by (auto simp: opt_ordinary_def)
    then show ?thesis using u 1 by (cases "v = JUndef") (auto simp: satisfies_named deepEqual_refl)
  next
    case 2
    then show ?thesis using resolved_add_run [OF res ord] assms by (simp add: satisfies_named)
  next
    case 3
    have "checks n v u"
      using assms(6) keys_once_ops [OF resolve_keys_once [OF res]] assms(3) opr by (rule run_sorted_checks)
    with 3 show ?thesis by (simp add: satisfies_def)
  qed
qed

section \<open>Properties\<close>

lemma ordinary_policy_input: "opt_ordinary p \<Longrightarrow> opt_ordinary (policy_input pn p)"
  by (auto simp: policy_input_def opt_ordinary_def list_all_iff)

text \<open>What one statement demands holds of the final value.\<close>

lemma policy_enforced:
  assumes "resolveMetadataPolicy stmts None = Inr policy"
    and "\<forall>s \<in> set stmts. ordinary_policy s"
    and "applyMetadataPolicy md policy over None = Inr r"
    and p: "p = pget (type_block (case over of None \<Rightarrow> md | Some ov \<Rightarrow> override_metadata ov md) et) pn" "opt_ordinary p"
    and "stmt \<in> set stmts" and "(et, pp) \<in> set (entries (pget (payload stmt) ''metadata_policy''))"
    and "(pn, oe) \<in> set (entries pp)" and "(n, v) \<in> set (entries oe)"
    and "n \<in> set STANDARD_OPERATOR_NAMES"
  shows "\<exists>u. pget (type_block r et) pn = policy_output pn p u \<and> satisfies n v u"
proof -
  let ?ops = "ops_of policy et pn" and ?c = "pget (ops_of policy et pn) n"
  have strict: "?c \<noteq> JUndef" "tightens n v ?c"
    using resolve_strict_for [OF assms(1,2,6-10)] by (simp_all add: strict_for_def)
  have mem: "(n, ?c) \<in> set ?ops" using strict(1) by (rule pget_not_undef)
  note once = resolve_keys_once [OF assms(1)]
  obtain u where run: "run_ops operators (sorted_ops operators ?ops) (policy_input pn p) = Some u"
    and out: "pget (type_block r et) pn = policy_output pn p u"
    using apply_policy_run [OF assms(3) once mem] p(1) by blast
  note inp = ordinary_policy_input [OF p(2), of pn]
  have "satisfies n ?c u" using resolved_run_satisfies [OF assms(1,2) mem assms(10) inp run] .
  moreover have ok: "standard_ok (ops_of policy)" using assms(1,2) by (rule resolve_standard_ok)
  moreover have "ordinary ?c" using ok strict(1) assms(10) by (simp add: standard_ok_def)
  moreover have "ordinary v" using std_reg.ordinary_policy_entry [OF _ assms(7-9)] assms(2,6) by blast
  moreover have "opt_ordinary u"
    using run inp
  proof (rule run_ops_ordinary)
    show "\<forall>(k, w) \<in> set (sorted_ops operators ?ops). map_of operators k \<noteq> None \<longrightarrow> opt_ordinary w"
      using standard_ok_entry [OF ok once] by (auto simp: sorted_ops_def)
  qed
  ultimately show ?thesis using strict(2) tightens_satisfies out by blast
qed

text \<open>
  C25: A superior's policy reaches the final metadata. If the policies of a chain resolve and the
  result applies, then each standard operator any single statement of the chain sets on a parameter
  holds of the parameter's final value \<open>u\<close>: it equals a \<open>value\<close> (and is absent for the value null),
  contains what is to be added, is present for \<open>default\<close> and a true \<open>essential\<close>, is absent or one of
  the \<open>one_of\<close> values, absent or an array within \<open>subset_of\<close>, absent or an array that contains
  \<open>superset_of\<close>. No policy of another superior, no metadata of the entity and no override can lift
  it. A \<open>scope\<close> given as a string is split at the spaces first; the demands hold of the array of
  words, and the metadata has the words joined again (\<open>policy_output\<close>). No custom operator is
  configured (one could change the value after a check), and the policies and the parameter are
  ordinary: no object in them has a member named \<open>length\<close> or \<open>__proto__\<close>.
\<close>
theorem chain_policy_enforced:
  assumes "resolveMetadataPolicy stmts None = Inr policy"
    and "\<forall>s \<in> set stmts. ordinary_policy s"
    and "applyMetadataPolicy md policy over None = Inr r"
    and "p = pget (type_block (case over of None \<Rightarrow> md | Some ov \<Rightarrow> override_metadata ov md) et) pn"
    and "opt_ordinary p"
    and "stmt \<in> set stmts" and "(et, pp) \<in> set (entries (pget (payload stmt) ''metadata_policy''))"
    and "(pn, oe) \<in> set (entries pp)" and "(n, v) \<in> set (entries oe)"
    and "n \<in> set STANDARD_OPERATOR_NAMES"
  shows "\<exists>u. pget (type_block r et) pn = policy_output pn p u \<and> satisfies n v u"
  using assms by (rule policy_enforced)

lemma example_chain_apply:
  "applyMetadataPolicy [(''openid_provider'', [(''scopes_supported'', JArr [JStr ''b'', JStr ''z''])])]
     [(''openid_provider'', [(''scopes_supported'', [(''subset_of'', JArr [JStr ''b''])])])] None None =
   Inr [(''openid_provider'', [(''scopes_supported'', JArr [JStr ''b''])])]"
  by code_simp

theorem chain_policy_enforced_witness:
  "satisfies ''subset_of'' (JArr [JStr ''a'', JStr ''b'']) (JArr [JStr ''b''])"
  using chain_policy_enforced
    [OF example_resolve _ example_chain_apply refl,
      where stmt = "example_statement ''subset_of'' (JArr [JStr ''a'', JStr ''b''])"
      and et = "''openid_provider''" and pn = "''scopes_supported''" and n = "''subset_of''"]
  by (simp add: example_statement_def pget_def STANDARD_OPERATOR_NAMES_def type_block_def opt_ordinary_def
      ordinary_policy_def special_names_def)

text \<open>
  A \<open>value\<close> any superior sets is final. If the resolved policy holds \<open>value\<close> for a parameter,
  then after a successful application the parameter has exactly that value, or is absent when the
  value is null: the operators the resolver lets stand beside it leave it alone.
\<close>
lemma resolved_value_is_final:
  assumes "resolveMetadataPolicy stmts None = Inr policy"
    and "\<forall>s \<in> set stmts. ordinary_policy s"
    and "applyMetadataPolicy md policy over None = Inr r"
    and "(''value'', v) \<in> set (ops_of policy et pn)" and "pn \<noteq> ''scope''"
  shows "pget (type_block r et) pn = (if v = JNull then JUndef else v)"
proof -
  note once = resolve_keys_once [OF assms(1)]
  show ?thesis
    using apply_policy_run [OF assms(3) once assms(4)] resolved_value_run [OF assms(1,2,4)] assms(5) by auto
qed

lemma example_value_resolve:
  "resolveMetadataPolicy
     [example_statement ''value'' (JArr [JStr ''a'']),
      example_statement ''add'' (JArr [JStr ''a''])] None =
   Inr [(''openid_provider'', [(''scopes_supported'', [(''add'', JArr [JStr ''a'']), (''value'', JArr [JStr ''a''])])])]"
  by code_simp

lemma example_value_apply:
  "applyMetadataPolicy [(''openid_provider'', [(''scopes_supported'', JArr [JStr ''z''])])]
     [(''openid_provider'', [(''scopes_supported'', [(''add'', JArr [JStr ''a'']), (''value'', JArr [JStr ''a''])])])] None None =
   Inr [(''openid_provider'', [(''scopes_supported'', JArr [JStr ''a''])])]"
  by code_simp

lemma resolved_value_is_final_witness:
  "pget (type_block [(''openid_provider'', [(''scopes_supported'', JArr [JStr ''a''])])] ''openid_provider'')
     ''scopes_supported'' = JArr [JStr ''a'']"
  using resolved_value_is_final [OF example_value_resolve _ example_value_apply,
      of "JArr [JStr ''a'']" "''openid_provider''" "''scopes_supported''"]
  by (simp add: example_statement_def ops_of_def ordinary_policy_def opt_ordinary_def special_names_def pget_def)
end
