(* ===== verification/Json_Duplicates.thy ===== *)
theory Json_Duplicates
  imports Policy_Merge
begin

text \<open>
  The part of packages/core/src/trust-chain/validate.ts that reads the raw text of a statement:
  decoding the payload of a compact JWT and scanning it for members of \<open>metadata_policy\<close> that occur
  twice, which \<open>JSON.parse\<close> would silently drop.

  The scanner's \<open>index\<close> is the suffix of the text still to be read; a thrown error is \<open>None\<close>. Text is
  its UTF-8 bytes. \<open>\s\<close> is its ASCII characters: the text has been parsed as JSON before it is scanned,
  and JSON has no other space outside strings. The mutually recursive functions take fuel; more than twice the length of the text
  never runs out, which is proved. The stack is unbounded.
\<close>

section \<open>The payload text of a compact JWT\<close>

definition base64_alphabet :: string where
  "base64_alphabet = ''ABCDEFGHIJKLMNOPQRSTUVWXYZabcdefghijklmnopqrstuvwxyz0123456789+/''"

fun index_in :: "'a \<Rightarrow> 'a list \<Rightarrow> nat option" where
  "index_in x [] = None"
| "index_in x (y # ys) = (if x = y then Some 0 else map_option Suc (index_in x ys))"

text \<open>The bytes of a sequence of six-bit groups; the bits left over at the end are dropped.\<close>

fun sextets :: "nat list \<Rightarrow> string" where
  "sextets (a # b # c # d # xs) =
     char_of (a * 4 + b div 16) # char_of ((b mod 16) * 16 + c div 4) # char_of ((c mod 4) * 64 + d) # sextets xs"
| "sextets [a, b, c] = [char_of (a * 4 + b div 16), char_of ((b mod 16) * 16 + c div 4)]"
| "sextets [a, b] = [char_of (a * 4 + b div 16)]"
| "sextets _ = []"

text \<open>\<open>atob\<close> (forgiving base64): up to two padding characters at the end of a text whose length is
  a multiple of four are dropped; a length of one modulo four or a foreign character throws.\<close>

definition atob :: "string \<Rightarrow> string option" where
  "atob s0 =
     (let s1 = filter (\<lambda>c. c \<notin> set [CHR '' '', CHR 9, CHR 10, CHR 12, CHR 13]) s0;
          s = (if length s1 mod 4 = 0
               then (if ends_with s1 ''=='' then take (length s1 - 2) s1
                     else if ends_with s1 ''='' then take (length s1 - 1) s1 else s1)
               else s1);
          is = map (\<lambda>c. index_in c base64_alphabet) s
      in if length s mod 4 = 1 \<or> None \<in> set is then None else Some (sextets (map the is)))"

text \<open>\<open>new TextDecoder().decode\<close> with its defaults, as the Encoding Standard has it: a byte order mark in
  front is dropped, and each maximal ill-formed sequence becomes U+FFFD. The text is the UTF-8 of the
  code points decoded, so what is well formed stays as it is. \<open>continuation n lo hi\<close> reads \<open>n\<close>
  continuation bytes, the first between \<open>lo\<close> and \<open>hi\<close>, and tells whether they were all there.\<close>

fun continuation :: "nat \<Rightarrow> nat \<Rightarrow> nat \<Rightarrow> string \<Rightarrow> bool \<times> string \<times> string" where
  "continuation 0 lo hi s = (True, [], s)"
| "continuation (Suc n) lo hi [] = (False, [], [])"
| "continuation (Suc n) lo hi (c # s) =
     (if lo \<le> of_char c \<and> of_char c \<le> hi
      then (case continuation n 128 191 s of (ok, t, r) \<Rightarrow> (ok, c # t, r))
      else (False, [], c # s))"

text \<open>The number of continuation bytes after a lead byte and the bounds of the first.\<close>

definition lead_byte :: "nat \<Rightarrow> (nat \<times> nat \<times> nat) option" where
  "lead_byte b =
     (if 0xC2 \<le> b \<and> b \<le> 0xDF then Some (1, 0x80, 0xBF)
      else if 0xE0 \<le> b \<and> b \<le> 0xEF then
        Some (2, if b = 0xE0 then 0xA0 else 0x80, if b = 0xED then 0x9F else 0xBF)
      else if 0xF0 \<le> b \<and> b \<le> 0xF4 then
        Some (3, if b = 0xF0 then 0x90 else 0x80, if b = 0xF4 then 0x8F else 0xBF)
      else None)"

definition replacement_char :: string where
  "replacement_char = [CHR 0xEF, CHR 0xBF, CHR 0xBD]"

lemma continuation_length: "continuation n lo hi s = (ok, t, r) \<Longrightarrow> length r \<le> length s"
proof (induction n lo hi s arbitrary: ok t r rule: continuation.induct)
  case (3 n lo hi c s)
  then show ?case by (cases "continuation n 128 191 s") (auto split: if_splits intro: le_SucI)
qed simp_all

function decode_utf8 :: "string \<Rightarrow> string" where
  "decode_utf8 [] = []"
| "decode_utf8 (c # s) =
     (if of_char c < (128 :: nat) then c # decode_utf8 s
      else
        (case lead_byte (of_char c) of
           None \<Rightarrow> replacement_char @ decode_utf8 s
         | Some (n, lo, hi) \<Rightarrow>
             (case continuation n lo hi s of
                (ok, t, r) \<Rightarrow> (if ok then c # t else replacement_char) @ decode_utf8 r)))"
  by pat_completeness auto
termination
  by (relation "measure length") (auto dest: continuation_length [OF sym])

definition text_decoder :: "string \<Rightarrow> string" where
  "text_decoder bytes =
     decode_utf8 (if starts_with bytes [CHR 0xEF, CHR 0xBB, CHR 0xBF] then drop 3 bytes else bytes)"

lemma text_decoder_examples:
  "text_decoder [CHR 0xEF, CHR 0xBB, CHR 0xBF, CHR 0x7B, CHR 0xC3, CHR 0xA9] = [CHR 0x7B, CHR 0xC3, CHR 0xA9]"
  "text_decoder [CHR ''a'', CHR 0xE2, CHR 0x82, CHR ''b'', CHR 0xFF] =
     CHR ''a'' # replacement_char @ CHR ''b'' # replacement_char"
  "text_decoder [CHR 0xED, CHR 0xA0, CHR 0x80] = replacement_char @ replacement_char @ replacement_char"
  by code_simp+

definition decodeJwtPayloadJson :: "string \<Rightarrow> string option" where
  "decodeJwtPayloadJson jwt =
     (case split_on (CHR ''.'') jwt of
        _ # p # _ \<Rightarrow>
          if p = [] then None
          else
            (let base64 = map (\<lambda>c. if c = CHR ''-'' then CHR ''+'' else if c = CHR ''_'' then CHR ''/'' else c) p;
                 padded = base64 @ replicate (((length base64 + 3) div 4) * 4 - length base64) (CHR ''='')
             in map_option text_decoder (atob padded))
      | _ \<Rightarrow> None)"

section \<open>JSON.parse on a string token\<close>

definition hex_digit :: "char \<Rightarrow> nat option" where
  "hex_digit c =
     (case index_in c ''0123456789abcdef'' of
        Some n \<Rightarrow> Some n
      | None \<Rightarrow> index_in c ''0123456789ABCDEF'')"

fun hex4 :: "string \<Rightarrow> (nat \<times> string) option" where
  "hex4 (a # b # c # d # s) =
     (case (hex_digit a, hex_digit b, hex_digit c, hex_digit d) of
        (Some w, Some x, Some y, Some z) \<Rightarrow> Some (((w * 16 + x) * 16 + y) * 16 + z, s)
      | _ \<Rightarrow> None)"
| "hex4 _ = None"

text \<open>UTF-8 of a code point; a lone surrogate gets the three-byte form.\<close>

definition utf8 :: "nat \<Rightarrow> string" where
  "utf8 n =
     (if n < 128 then [char_of n]
      else if n < 2048 then [char_of (192 + n div 64), char_of (128 + n mod 64)]
      else if n < 65536 then
        [char_of (224 + n div 4096), char_of (128 + n div 64 mod 64), char_of (128 + n mod 64)]
      else [char_of (240 + n div 262144), char_of (128 + n div 4096 mod 64),
            char_of (128 + n div 64 mod 64), char_of (128 + n mod 64)])"

definition simple_escape :: "char \<Rightarrow> char option" where
  "simple_escape c = map_of
     [(CHR 0x22, CHR 0x22), (CHR 0x5C, CHR 0x5C), (CHR ''/'', CHR ''/''), (CHR ''b'', CHR 8),
      (CHR ''f'', CHR 12), (CHR ''n'', CHR 10), (CHR ''r'', CHR 13), (CHR ''t'', CHR 9)] c"

text \<open>The value of the text between the quotes of a JSON string; the number is fuel.\<close>

fun unescape :: "nat \<Rightarrow> string \<Rightarrow> string option" where
  "unescape _ [] = Some []"
| "unescape 0 (c # s) = None"
| "unescape (Suc k) (c # s) =
     (if c = CHR 0x5C then
        (case s of
           [] \<Rightarrow> None
         | e # s' \<Rightarrow>
             (case simple_escape e of
                Some x \<Rightarrow> map_option (Cons x) (unescape k s')
              | None \<Rightarrow>
                  if e = CHR ''u'' then
                    (case hex4 s' of
                       None \<Rightarrow> None
                     | Some (u, s'') \<Rightarrow>
                         (case (if 0xD800 \<le> u \<and> u < 0xDC00 \<and> starts_with s'' [CHR 0x5C, CHR ''u'']
                                then hex4 (drop 2 s'') else None) of
                            Some (l, s3) \<Rightarrow>
                              if 0xDC00 \<le> l \<and> l < 0xE000
                              then map_option ((@) (utf8 (0x10000 + (u - 0xD800) * 1024 + (l - 0xDC00)))) (unescape k s3)
                              else map_option ((@) (utf8 u)) (unescape k s'')
                          | None \<Rightarrow> map_option ((@) (utf8 u)) (unescape k s'')))
                  else None))
      else if of_char c < (32 :: nat) then None
      else map_option (Cons c) (unescape k s))"

section \<open>The scanner\<close>

definition is_space :: "char \<Rightarrow> bool" where
  "is_space c \<longleftrightarrow> c \<in> set [CHR '' '', CHR 9, CHR 10, CHR 11, CHR 12, CHR 13]"

definition skipWhitespace :: "string \<Rightarrow> string" where
  "skipWhitespace s = dropWhile is_space s"

text \<open>The loop of \<open>parseString\<close> after the opening quote: the raw text up to the closing quote and
  what follows it.\<close>

fun scan_string :: "string \<Rightarrow> (string \<times> string) option" where
  "scan_string [] = None"
| "scan_string (c # s) =
     (if c = CHR 0x5C then
        (case s of [] \<Rightarrow> None | d # s' \<Rightarrow> map_option (\<lambda>(t, r). (c # d # t, r)) (scan_string s'))
      else if c = CHR 0x22 then Some ([], s)
      else map_option (\<lambda>(t, r). (c # t, r)) (scan_string s))"

definition parseString :: "string \<Rightarrow> (string \<times> string) option" where
  "parseString s =
     (case scan_string s of
        None \<Rightarrow> None
      | Some (t, r) \<Rightarrow> map_option (\<lambda>v. (v, r)) (unescape (length t) t))"

definition parsePrimitive :: "string \<Rightarrow> string" where
  "parsePrimitive s = dropWhile (\<lambda>c. \<not> (is_space c \<or> c = CHR '','' \<or> c = CHR 0x5D \<or> c = CHR 0x7D)) s"

definition shouldCheckObject :: "string list \<Rightarrow> bool" where
  "shouldCheckObject path \<longleftrightarrow>
     path \<noteq> [] \<and> hd path = ''metadata_policy'' \<and> 1 \<le> length path \<and> length path \<le> 3"

definition duplicatePath :: "string list \<Rightarrow> string \<Rightarrow> string" where
  "duplicatePath path key = join_with ''.'' (path @ [key])"

text \<open>\<open>parseValue\<close> with the bodies of \<open>parseObject\<close> and \<open>parseArray\<close> up to their loops, and the two
  loops. The result is the duplicates found and the rest of the text.\<close>

fun parseValue :: "nat \<Rightarrow> string list \<Rightarrow> string \<Rightarrow> (string list \<times> string) option"
  and array_loop :: "nat \<Rightarrow> string list \<Rightarrow> string \<Rightarrow> (string list \<times> string) option"
  and object_loop :: "nat \<Rightarrow> string list \<Rightarrow> string list \<Rightarrow> string \<Rightarrow> (string list \<times> string) option"
where
  "parseValue 0 path s = None"
| "parseValue (Suc n) path s0 =
     (let s = skipWhitespace s0 in
      if starts_with s [CHR 0x7B] then
        (let r = skipWhitespace (tl s) in
         if starts_with r [CHR 0x7D] then Some ([], tl r) else object_loop n path [] r)
      else if starts_with s [CHR 0x5B] then
        (let r = skipWhitespace (tl s) in
         if starts_with r [CHR 0x5D] then Some ([], tl r) else array_loop n path r)
      else if starts_with s [CHR 0x22] then map_option (\<lambda>(_, r). ([], r)) (parseString (tl s))
      else Some ([], parsePrimitive s))"
| "array_loop 0 path s = None"
| "array_loop (Suc n) path s =
     (if s = [] then Some ([], [])
      else
        (case parseValue n path s of
           None \<Rightarrow> None
         | Some (d, r0) \<Rightarrow>
             (let r = skipWhitespace r0 in
              if starts_with r [CHR 0x5D] then Some (d, tl r)
              else if \<not> starts_with r '','' then None
              else map_option (\<lambda>(d', r'). (d @ d', r')) (array_loop n path (skipWhitespace (tl r))))))"
| "object_loop 0 path seen s = None"
| "object_loop (Suc n) path seen s =
     (if s = [] then Some ([], [])
      else if \<not> starts_with s [CHR 0x22] then None
      else
        (case parseString (tl s) of
           None \<Rightarrow> None
         | Some (key, r0) \<Rightarrow>
             (let dup = (if shouldCheckObject path \<and> key \<in> set seen then [duplicatePath path key] else []);
                  r = skipWhitespace r0
              in if \<not> starts_with r '':'' then None
                 else
                   (case parseValue n (path @ [key]) (skipWhitespace (tl r)) of
                      None \<Rightarrow> None
                    | Some (d, r1) \<Rightarrow>
                        (let r2 = skipWhitespace r1 in
                         if starts_with r2 [CHR 0x7D] then Some (dup @ d, tl r2)
                         else if \<not> starts_with r2 '','' then None
                         else map_option (\<lambda>(d', r'). (dup @ d @ d', r'))
                                (object_loop n path (key # seen) (skipWhitespace (tl r2))))))))"

definition findDuplicateMetadataPolicyMembers :: "string \<Rightarrow> string list" where
  "findDuplicateMetadataPolicyMembers json =
     (case parseValue (2 * length json + 1) [] json of None \<Rightarrow> [] | Some (duplicates, _) \<Rightarrow> duplicates)"

section \<open>The fuel is enough\<close>

lemma length_skip [simp]: "length (skipWhitespace s) \<le> length s"
  by (simp add: skipWhitespace_def length_dropWhile_le)

lemma length_primitive [simp]: "length (parsePrimitive s) \<le> length s"
  by (simp add: parsePrimitive_def length_dropWhile_le)

lemma scan_string_length: "scan_string s = Some (t, r) \<Longrightarrow> length r < length s"
proof (induction s arbitrary: t r rule: scan_string.induct)
  case (2 c s)
  show ?case
  proof (cases "c = CHR 0x5C")
    case True
    with 2(3) obtain d s' where s: "s = d # s'" by (cases s) auto
    with 2(3) True obtain t' where "scan_string s' = Some (t', r)" by auto
    with 2(1) [OF True s] s show ?thesis by fastforce
  next
    case False
    with 2(2,3) show ?thesis by (cases "c = CHR 0x22") (auto simp: less_Suc_eq)
  qed
qed simp

lemma parseString_length: "parseString s = Some (v, r) \<Longrightarrow> length r < length s"
  by (auto simp: parseString_def split: option.splits dest: scan_string_length)

lemma starts_with_char: "starts_with s [c] \<longleftrightarrow> (\<exists>t. s = c # t)"
  by (cases s) (auto simp: starts_with_def)

lemma skip_tl_length: "starts_with (skipWhitespace s) [c] \<Longrightarrow> length (skipWhitespace (tl (skipWhitespace s))) < length s"
  by (metis starts_with_char length_skip le_less_trans less_le_trans list.sel(3) length_Cons lessI)

lemma rest_length:
  "(\<forall>path s d r. parseValue n path s = Some (d, r) \<longrightarrow> length r \<le> length s) \<and>
   (\<forall>path s d r. array_loop n path s = Some (d, r) \<longrightarrow> length r \<le> length s) \<and>
   (\<forall>path seen s d r. object_loop n path seen s = Some (d, r) \<longrightarrow> length r \<le> length s)"
proof (induction n)
  case (Suc n)
  have tl_le: "length (tl (skipWhitespace s)) \<le> length s" for s
    by (metis length_skip length_tl diff_le_self le_trans)
  have "length r \<le> length s" if "parseValue (Suc n) path s = Some (d, r)" for path s d r
  proof -
    have a: "length (skipWhitespace (tl (skipWhitespace s))) \<le> length s" for s
      using tl_le length_skip le_trans by blast
    have b: "length (tl (skipWhitespace (tl (skipWhitespace s)))) \<le> length s" for s
      using tl_le [of "tl (skipWhitespace s)"] tl_le [of s] by linarith
    show ?thesis
      using that Suc.IH a [of s] b [of s] tl_le [of s] parseString_length [of "tl (skipWhitespace s)"]
        length_primitive [of "skipWhitespace s"] length_skip [of s]
      by (auto simp: Let_def simp del: length_primitive length_skip split: if_splits) (meson le_trans less_imp_le)+
  qed
  moreover have "length r \<le> length s" if "array_loop (Suc n) path s = Some (d, r)" for path s d r
  proof -
    have a: "length (skipWhitespace (tl (skipWhitespace s))) \<le> length s" for s
      using tl_le length_skip le_trans by blast
    show ?thesis
      using that Suc.IH a tl_le
      by (auto simp: Let_def split: if_splits option.splits) (meson le_trans)+
  qed
  moreover have "length r \<le> length s" if "object_loop (Suc n) path seen s = Some (d, r)" for path seen s d r
  proof -
    have a: "length (skipWhitespace (tl (skipWhitespace s))) \<le> length s" for s
      using tl_le length_skip le_trans by blast
    have b: "length r' \<le> length s" if "parseString (tl s) = Some (v, r')" for v r' s
      using parseString_length [OF that] by simp
    show ?thesis
      using that Suc.IH a tl_le b
      by (auto simp: Let_def split: if_splits option.splits) (meson le_trans)+
  qed
  ultimately show ?case by blast
qed simp

text \<open>With more than twice the length of the text as fuel, the amount no longer matters.\<close>

lemma fuel_irrelevant:
  "(2 * length s + 1 \<le> n \<longrightarrow> 2 * length s + 1 \<le> m \<longrightarrow> parseValue n path s = parseValue m path s) \<and>
   (2 * length s + 2 \<le> n \<longrightarrow> 2 * length s + 2 \<le> m \<longrightarrow> array_loop n path s = array_loop m path s) \<and>
   (2 * length s + 2 \<le> n \<longrightarrow> 2 * length s + 2 \<le> m \<longrightarrow> object_loop n path seen s = object_loop m path seen s)"
proof (induction n arbitrary: m path seen s)
  case (Suc n)
  show ?case
  proof (cases m)
    case (Suc k)
    let ?s = "skipWhitespace s"
    have shorter: "length (skipWhitespace (tl ?s)) < length s" if "starts_with ?s [c]" for c
      using skip_tl_length [OF that] .
    have v: "parseValue (Suc n) path s = parseValue (Suc k) path s"
      if "2 * length s + 1 \<le> Suc n" "2 * length s + 1 \<le> Suc k"
    proof -
      have "array_loop n path (skipWhitespace (tl ?s)) = array_loop k path (skipWhitespace (tl ?s))"
        if "starts_with ?s [CHR 0x5B]"
        using Suc.IH [of "skipWhitespace (tl ?s)" k path] shorter [OF that] \<open>2 * length s + 1 \<le> Suc n\<close> \<open>2 * length s + 1 \<le> Suc k\<close>
        by simp
      moreover have "object_loop n path [] (skipWhitespace (tl ?s)) = object_loop k path [] (skipWhitespace (tl ?s))"
        if "starts_with ?s [CHR 0x7B]"
        using Suc.IH [of "skipWhitespace (tl ?s)" k path "[]"] shorter [OF that] \<open>2 * length s + 1 \<le> Suc n\<close> \<open>2 * length s + 1 \<le> Suc k\<close>
        by simp
      ultimately show ?thesis by (simp add: Let_def)
    qed
    have a: "array_loop (Suc n) path s = array_loop (Suc k) path s"
      if b: "2 * length s + 2 \<le> Suc n" "2 * length s + 2 \<le> Suc k"
    proof (cases "parseValue n path s")
      case None
      with b Suc.IH [of s k path] show ?thesis by simp
    next
      case (Some p)
      obtain d r where p: "p = (d, r)" by (cases p)
      have eq: "parseValue k path s = Some (d, r)" using b Suc.IH [of s k path] Some p by simp
      have "length r \<le> length s" using Some p rest_length by blast
      then have "array_loop n path (skipWhitespace (tl (skipWhitespace r))) =
          array_loop k path (skipWhitespace (tl (skipWhitespace r)))"
        if "starts_with (skipWhitespace r) '',''"
        using Suc.IH [of "skipWhitespace (tl (skipWhitespace r))" k path] skip_tl_length [OF that] b by simp
      with Some p eq show ?thesis by (simp add: Let_def)
    qed
    have o: "object_loop (Suc n) path seen s = object_loop (Suc k) path seen s"
      if b: "2 * length s + 2 \<le> Suc n" "2 * length s + 2 \<le> Suc k"
    proof (cases "parseString (tl s)")
      case (Some q)
      obtain key r0 where q: "q = (key, r0)" by (cases q)
      let ?t = "skipWhitespace (tl (skipWhitespace r0))"
      have r0: "length r0 < length s" using parseString_length [of "tl s"] Some q by fastforce
      have len: "length ?t < length s" if "starts_with (skipWhitespace r0) '':''"
        using skip_tl_length [OF that] r0 by simp
      have eq: "parseValue n (path @ [key]) ?t = parseValue k (path @ [key]) ?t" if "starts_with (skipWhitespace r0) '':''"
        using Suc.IH [of ?t k "path @ [key]"] len [OF that] b by simp
      have "object_loop n path (key # seen) (skipWhitespace (tl (skipWhitespace r))) =
          object_loop k path (key # seen) (skipWhitespace (tl (skipWhitespace r)))"
        if "starts_with (skipWhitespace r0) '':''" "parseValue n (path @ [key]) ?t = Some (d, r)"
          "starts_with (skipWhitespace r) '',''" for d r
      proof -
        have "length r \<le> length ?t" using that(2) rest_length by blast
        then have "length (skipWhitespace (tl (skipWhitespace r))) < length s"
          using skip_tl_length [OF that(3)] len [OF that(1)] by simp
        then show ?thesis using Suc.IH [of "skipWhitespace (tl (skipWhitespace r))" k path "key # seen"] b by simp
      qed
      with Some q eq show ?thesis by (auto simp: Let_def split: option.splits)
    qed simp
    show ?thesis using v a o Suc by blast
  qed simp
qed simp

text \<open>The three functions without fuel.\<close>

definition scan_value :: "string list \<Rightarrow> string \<Rightarrow> (string list \<times> string) option" where
  "scan_value path s = parseValue (2 * length s + 1) path s"

definition scan_array :: "string list \<Rightarrow> string \<Rightarrow> (string list \<times> string) option" where
  "scan_array path s = array_loop (2 * length s + 2) path s"

definition scan_object :: "string list \<Rightarrow> string list \<Rightarrow> string \<Rightarrow> (string list \<times> string) option" where
  "scan_object path seen s = object_loop (2 * length s + 2) path seen s"

lemmas scan_defs = scan_value_def scan_array_def scan_object_def

lemma scan_value_brace:
  "scan_value path (CHR 0x7B # t) =
     (let r = skipWhitespace t in if starts_with r [CHR 0x7D] then Some ([], tl r) else scan_object path [] r)"
proof -
  have "skipWhitespace (CHR 0x7B # t) = CHR 0x7B # t" by (simp add: skipWhitespace_def is_space_def)
  moreover have "object_loop (2 * length t + 2) path [] (skipWhitespace t) = scan_object path [] (skipWhitespace t)"
    unfolding scan_defs using fuel_irrelevant [of "skipWhitespace t" "2 * length t + 2" "2 * length (skipWhitespace t) + 2" path "[]"]
    by simp
  ultimately show ?thesis by (simp add: Let_def starts_with_def scan_value_def)
qed

lemma scan_value_bracket:
  "scan_value path (CHR 0x5B # t) =
     (let r = skipWhitespace t in if starts_with r [CHR 0x5D] then Some ([], tl r) else scan_array path r)"
proof -
  have "skipWhitespace (CHR 0x5B # t) = CHR 0x5B # t" by (simp add: skipWhitespace_def is_space_def)
  moreover have "array_loop (2 * length t + 2) path (skipWhitespace t) = scan_array path (skipWhitespace t)"
    unfolding scan_defs using fuel_irrelevant [of "skipWhitespace t" "2 * length t + 2" "2 * length (skipWhitespace t) + 2" path "[]"]
    by simp
  ultimately show ?thesis by (simp add: Let_def starts_with_def scan_value_def)
qed

lemma scan_array_step:
  assumes "s \<noteq> []" and "scan_value path s = Some (d, r0)" and r: "skipWhitespace r0 = r"
  shows "scan_array path s =
    (if starts_with r [CHR 0x5D] then Some (d, tl r)
     else if starts_with r '','' then map_option (\<lambda>(d', r'). (d @ d', r')) (scan_array path (skipWhitespace (tl r)))
     else None)"
proof -
  have "length r0 \<le> length s" using assms(2) rest_length unfolding scan_defs by blast
  then have "array_loop (2 * length s + 1) path (skipWhitespace (tl r)) = scan_array path (skipWhitespace (tl r))"
    if "starts_with r '',''"
    unfolding scan_defs using fuel_irrelevant [of "skipWhitespace (tl r)" "2 * length s + 1" "2 * length (skipWhitespace (tl r)) + 2" path "[]"]
      skip_tl_length [of r0 "CHR '',''"] that r by simp
  with assms show ?thesis by (simp add: Let_def scan_array_def [of path s] scan_value_def [of path s])
qed

lemma skip_idem [simp]: "skipWhitespace (skipWhitespace s) = skipWhitespace s"
  by (induction s) (auto simp: skipWhitespace_def)

lemma scan_object_step:
  assumes "s = CHR 0x22 # s'" and key: "parseString s' = Some (key, k0)"
    and colon: "skipWhitespace k0 = CHR '':'' # t"
    and val: "scan_value (path @ [key]) (skipWhitespace t) = Some (d, r0)" and r: "skipWhitespace r0 = r"
  shows "scan_object path seen s =
    (let dup = (if shouldCheckObject path \<and> key \<in> set seen then [duplicatePath path key] else []) in
     if starts_with r [CHR 0x7D] then Some (dup @ d, tl r)
     else if starts_with r '','' then
       map_option (\<lambda>(d', r'). (dup @ d @ d', r')) (scan_object path (key # seen) (skipWhitespace (tl r)))
     else None)"
proof -
  let ?t = "skipWhitespace t"
  have "length (skipWhitespace k0) < length s" using parseString_length [OF key] le_less_trans [OF length_skip [of k0]] assms(1) by simp
  then have lt: "length ?t < length s" using le_less_trans [OF length_skip [of t], of "length s"] colon by simp
  have v: "parseValue (2 * length s + 1) (path @ [key]) ?t = Some (d, r0)"
    using fuel_irrelevant [of ?t "2 * length s + 1" "2 * length ?t + 1" "path @ [key]" "[]"] lt val by (simp add: scan_value_def)
  have "length r0 \<le> length ?t" using val rest_length unfolding scan_defs by blast
  then have o: "object_loop (2 * length s + 1) path (key # seen) (skipWhitespace (tl r)) =
      scan_object path (key # seen) (skipWhitespace (tl r))"
    if "starts_with r '',''"
    unfolding scan_defs using fuel_irrelevant [of "skipWhitespace (tl r)" "2 * length s + 1" "2 * length (skipWhitespace (tl r)) + 2" path "key # seen"]
      skip_tl_length [of r0 "CHR '',''"] that r lt by simp
  have "s \<noteq> []" "starts_with s [CHR 0x22]" "tl s = s'" using assms(1) by (simp_all add: starts_with_def)
  moreover have "scan_object path seen s = object_loop (Suc (2 * length s + 1)) path seen s"
    by (simp add: scan_object_def)
  ultimately show ?thesis using key colon v r o
    by (simp add: Let_def starts_with_char [of _ "CHR '':''"] del: parseValue.simps object_loop.simps
        add: object_loop.simps(2) [of "Suc (2 * length s)"])
qed

section \<open>JSON texts\<close>

text \<open>The grammar of JSON text (RFC 8259): \<open>json_text v t\<close> when \<open>t\<close> is a text of the document \<open>v\<close>, with
  any white space and any spelling of the strings, \<open>string_token\<close> being the text between the quotes.
  A document may have a member twice, unlike a value \<open>JSON.parse\<close> returns. The scan does not read
  numbers, so the grammar relates a number to every number token. A string with a lone surrogate
  (only an escape can spell one) has no UTF-8 and is no document.\<close>

definition white :: "string \<Rightarrow> bool" where
  "white w = list_all (\<lambda>c. c \<in> set [CHR '' '', CHR 9, CHR 10, CHR 13]) w"

definition number_token :: "string \<Rightarrow> bool" where
  "number_token t \<longleftrightarrow> t \<noteq> [] \<and> list_all (\<lambda>c. c \<in> set ''0123456789+-.eE'') t"

inductive string_token :: "string \<Rightarrow> string \<Rightarrow> bool" where
  token_end: "string_token [] []"
| token_char: "c \<noteq> CHR 0x22 \<Longrightarrow> c \<noteq> CHR 0x5C \<Longrightarrow> (32 :: nat) \<le> of_char c \<Longrightarrow> string_token v t \<Longrightarrow>
    string_token (c # v) (c # t)"
| token_escape: "simple_escape e = Some c \<Longrightarrow> string_token v t \<Longrightarrow> string_token (c # v) (CHR 0x5C # e # t)"
| token_unicode: "hex4 h = Some (u, []) \<Longrightarrow> \<not> (0xD800 \<le> u \<and> u < 0xE000) \<Longrightarrow> string_token v t \<Longrightarrow>
    string_token (utf8 u @ v) (CHR 0x5C # CHR ''u'' # h @ t)"
| token_surrogates: "hex4 h = Some (u, []) \<Longrightarrow> 0xD800 \<le> u \<Longrightarrow> u < 0xDC00 \<Longrightarrow> hex4 l = Some (x, []) \<Longrightarrow>
    0xDC00 \<le> x \<Longrightarrow> x < 0xE000 \<Longrightarrow> string_token v t \<Longrightarrow>
    string_token (utf8 (0x10000 + (u - 0xD800) * 1024 + (x - 0xDC00)) @ v)
      (CHR 0x5C # CHR ''u'' # h @ CHR 0x5C # CHR ''u'' # l @ t)"

inductive json_text :: "jsval \<Rightarrow> string \<Rightarrow> bool"
  and elements_text :: "jsval list \<Rightarrow> string \<Rightarrow> bool"
  and members_text :: "jsval dict \<Rightarrow> string \<Rightarrow> bool"
where
  text_null: "json_text JNull ''null''"
| text_true: "json_text (JBool True) ''true''"
| text_false: "json_text (JBool False) ''false''"
| text_number: "number_token t \<Longrightarrow> json_text (JNum n) t"
| text_string: "string_token v t \<Longrightarrow> json_text (JStr v) (CHR 0x22 # t @ [CHR 0x22])"
| text_array_empty: "white w \<Longrightarrow> json_text (JArr []) (CHR 0x5B # w @ [CHR 0x5D])"
| text_array: "elements_text xs t \<Longrightarrow> json_text (JArr xs) (CHR 0x5B # t @ [CHR 0x5D])"
| text_object_empty: "white w \<Longrightarrow> json_text (JObj []) (CHR 0x7B # w @ [CHR 0x7D])"
| text_object: "members_text kvs t \<Longrightarrow> json_text (JObj kvs) (CHR 0x7B # t @ [CHR 0x7D])"
| last_element: "json_text x t \<Longrightarrow> white w \<Longrightarrow> white w' \<Longrightarrow> elements_text [x] (w @ t @ w')"
| more_elements: "json_text x t \<Longrightarrow> white w \<Longrightarrow> white w' \<Longrightarrow> elements_text xs u \<Longrightarrow>
    elements_text (x # xs) (w @ t @ w' @ CHR '','' # u)"
| last_member: "string_token k s \<Longrightarrow> json_text x t \<Longrightarrow> white w1 \<Longrightarrow> white w2 \<Longrightarrow> white w3 \<Longrightarrow> white w4 \<Longrightarrow>
    members_text [(k, x)] (w1 @ CHR 0x22 # s @ CHR 0x22 # w2 @ CHR '':'' # w3 @ t @ w4)"
| more_members: "string_token k s \<Longrightarrow> json_text x t \<Longrightarrow> white w1 \<Longrightarrow> white w2 \<Longrightarrow> white w3 \<Longrightarrow> white w4 \<Longrightarrow>
    members_text kvs u \<Longrightarrow>
    members_text ((k, x) # kvs) (w1 @ CHR 0x22 # s @ CHR 0x22 # w2 @ CHR '':'' # w3 @ t @ w4 @ CHR '','' # u)"

text \<open>The objects of a document with the member path that leads to them (array elements share the
  path of the array) and their member names in order.\<close>

fun objects_at :: "string list \<Rightarrow> jsval \<Rightarrow> (string list \<times> string list) list" where
  "objects_at path (JObj kvs) =
     (path, map fst kvs) # concat (map (\<lambda>(k, v). objects_at (path @ [k]) v) kvs)"
| "objects_at path (JArr xs) = concat (map (objects_at path) xs)"
| "objects_at path _ = []"

text \<open>What the scanner should report, in its order.\<close>

function dups :: "string list \<Rightarrow> jsval \<Rightarrow> string list"
  and dup_members :: "string list \<Rightarrow> string list \<Rightarrow> jsval dict \<Rightarrow> string list" where
  "dups path (JObj kvs) = dup_members path [] kvs"
| "dups path (JArr xs) = concat (map (dups path) xs)"
| "dups path (JStr s) = []" | "dups path (JNum n) = []" | "dups path (JBool b) = []"
| "dups path JNull = []" | "dups path JUndef = []"
| "dup_members path seen [] = []"
| "dup_members path seen (kv # kvs) =
     (if shouldCheckObject path \<and> fst kv \<in> set seen then [duplicatePath path (fst kv)] else []) @
     dups (path @ [fst kv]) (snd kv) @ dup_members path (fst kv # seen) kvs"
  by pat_completeness auto
termination
  by (relation "measure (\<lambda>x. case x of Inl (p, v) \<Rightarrow> 2 * size v | Inr (p, s, kvs) \<Rightarrow> 2 * size_list (size_prod (\<lambda>x. 0) size) kvs + 1)")
     (auto dest: size_arr_elem)

lemma show_nat_digit: "c \<in> set (show_nat n) \<Longrightarrow> (48 :: nat) \<le> of_char c \<and> of_char c \<le> (57 :: nat)"
  by (induction n rule: show_nat.induct) (subst (asm) show_nat.simps, auto split: if_splits)

section \<open>The scan of a JSON text\<close>

lemma skip_white [simp]: "white w \<Longrightarrow> skipWhitespace (w @ s) = skipWhitespace s"
  by (induction w) (auto simp: white_def skipWhitespace_def is_space_def)

lemma skip_other [simp]: "\<not> is_space c \<Longrightarrow> skipWhitespace (c # s) = c # s"
  by (simp add: skipWhitespace_def)

text \<open>A text after which a value ends.\<close>

definition delim :: "string \<Rightarrow> bool" where
  "delim r \<longleftrightarrow> r = [] \<or> is_space (hd r) \<or> hd r \<in> set [CHR '','', CHR 0x5D, CHR 0x7D]"

lemma delim_simps [simp]:
  "delim []" "delim (CHR '','' # r)" "delim (CHR 0x5D # r)" "delim (CHR 0x7D # r)"
  by (simp_all add: delim_def)

lemma delim_white: "white w \<Longrightarrow> delim r \<Longrightarrow> delim (w @ r)"
  by (cases w) (auto simp: white_def delim_def is_space_def)

lemma delim_primitive:
  assumes "delim r" and "\<forall>c \<in> set w. \<not> (is_space c \<or> c = CHR '','' \<or> c = CHR 0x5D \<or> c = CHR 0x7D)"
  shows "parsePrimitive (w @ r) = r"
proof -
  have "dropWhile (\<lambda>c. \<not> (is_space c \<or> c = CHR '','' \<or> c = CHR 0x5D \<or> c = CHR 0x7D)) r = r"
    using assms(1) by (cases r) (auto simp: delim_def)
  with assms(2) show ?thesis by (simp add: parsePrimitive_def dropWhile_append1 dropWhile_append2)
qed

lemma hex_digit_other: "hex_digit CHR 0x22 = None" "hex_digit CHR 0x5C = None"
  by code_simp+

lemma hex4_append:
  assumes "hex4 h = Some (u, [])"
  shows "hex4 (h @ t) = Some (u, t)" and "CHR 0x22 \<notin> set h \<and> CHR 0x5C \<notin> set h"
proof -
  obtain a b c d where h: "h = [a, b, c, d]" and some: "hex_digit a \<noteq> None" "hex_digit b \<noteq> None"
      "hex_digit c \<noteq> None" "hex_digit d \<noteq> None"
    using assms by (cases h rule: hex4.cases) (auto split: option.splits)
  show "hex4 (h @ t) = Some (u, t)" using assms by (auto simp: h split: option.splits)
  show "CHR 0x22 \<notin> set h \<and> CHR 0x5C \<notin> set h" using some hex_digit_other by (auto simp: h)
qed

lemma scan_string_plain:
  assumes "CHR 0x22 \<notin> set h \<and> CHR 0x5C \<notin> set h" and "scan_string s = Some (t, r)"
  shows "scan_string (h @ s) = Some (h @ t, r)"
  using assms(1) by (induction h) (auto simp: assms(2))

lemma scan_string_token: "string_token v t \<Longrightarrow> scan_string (t @ CHR 0x22 # r) = Some (t, r)"
proof (induction rule: string_token.induct)
  case (token_unicode h u v t)
  then show ?case using scan_string_plain [OF hex4_append(2) [OF token_unicode(1)]] by simp
next
  case (token_surrogates h u l x v t)
  then have "scan_string (l @ t @ CHR 0x22 # r) = Some (l @ t, r)"
    using scan_string_plain [OF hex4_append(2) [OF token_surrogates(4)]] by simp
  then have "scan_string (CHR 0x5C # CHR ''u'' # l @ t @ CHR 0x22 # r) = Some (CHR 0x5C # CHR ''u'' # l @ t, r)" by simp
  then show ?case using scan_string_plain [OF hex4_append(2) [OF token_surrogates(1)]] by simp
qed auto

lemma unescape_token: "string_token v t \<Longrightarrow> length t \<le> k \<Longrightarrow> unescape k t = Some v"
proof (induction arbitrary: k rule: string_token.induct)
  case (token_char c v t)
  then show ?case by (cases k) auto
next
  case (token_escape e c v t)
  then show ?case by (cases k) auto
next
  case (token_unicode h u v t)
  have "simple_escape CHR ''u'' = None" by (simp add: simple_escape_def)
  with token_unicode hex4_append(1) [OF token_unicode(1), of t] show ?case by (cases k) auto
next
  case (token_surrogates h u l x v t)
  have "simple_escape CHR ''u'' = None" by (simp add: simple_escape_def)
  with token_surrogates hex4_append(1) [OF token_surrogates(1), of "CHR 0x5C # CHR ''u'' # l @ t"]
    hex4_append(1) [OF token_surrogates(4), of t]
  show ?case by (cases k) (auto simp: starts_with_def)
qed auto

lemma parseString_token: "string_token v t \<Longrightarrow> parseString (t @ CHR 0x22 # r) = Some (v, r)"
  by (simp add: parseString_def scan_string_token unescape_token)

lemma scan_primitive:
  assumes "delim r" and "w \<noteq> []"
    and "\<forall>c \<in> set w. \<not> (is_space c \<or> c = CHR '','' \<or> c = CHR 0x5D \<or> c = CHR 0x7D)"
    and "hd w \<notin> set [CHR 0x7B, CHR 0x5B, CHR 0x22]"
  shows "scan_value path (w @ r) = Some ([], r)"
proof -
  obtain c w' where w: "w = c # w'" using assms(2) by (cases w) auto
  have "skipWhitespace (w @ r) = w @ r" using assms(3) by (simp add: w)
  then show ?thesis
    using assms delim_primitive [OF assms(1,3)] by (simp add: w Let_def starts_with_def scan_value_def)
qed

lemma scan_number:
  assumes "delim r" and "number_token t"
  shows "scan_value path (t @ r) = Some ([], r)"
proof -
  have chars: "c \<in> set ''0123456789+-.eE''" if "c \<in> set t" for c
    using assms(2) that by (simp add: number_token_def list_all_iff)
  have "\<not> (is_space c \<or> c = CHR '','' \<or> c = CHR 0x5D \<or> c = CHR 0x7D)" if "c \<in> set t" for c
    using chars [OF that] by (auto simp: is_space_def)
  moreover have "hd t \<notin> set [CHR 0x7B, CHR 0x5B, CHR 0x22]"
    using chars [of "hd t"] assms(2) by (auto simp: number_token_def)
  ultimately show ?thesis using assms by (intro scan_primitive) (auto simp: number_token_def)
qed

text \<open>How a text begins.\<close>

lemma text_heads:
  shows "json_text v t \<Longrightarrow> t \<noteq> [] \<and> \<not> is_space (hd t) \<and> hd t \<notin> set [CHR 0x5D, CHR 0x7D]"
    and "elements_text xs t1 \<Longrightarrow> \<exists>c u. c \<noteq> CHR 0x5D \<and> (\<forall>s. skipWhitespace (t1 @ s) = c # u @ s)"
    and "members_text kvs t2 \<Longrightarrow> \<exists>u. \<forall>s. skipWhitespace (t2 @ s) = CHR 0x22 # u @ s"
proof (induction rule: json_text_elements_text_members_text.inducts)
  case (text_number t n)
  then have "hd t \<in> set ''0123456789+-.eE''" by (cases t) (auto simp: number_token_def)
  with text_number show ?case by (auto simp: is_space_def number_token_def)
next
  case (last_element x t w w')
  then show ?case by (cases t) auto
next
  case (more_elements x t w w' xs u)
  then show ?case by (cases t) auto
qed (simp_all add: is_space_def)

lemma skip_text: "json_text x t \<Longrightarrow> skipWhitespace (t @ s) = t @ s"
  using text_heads(1) [of x t] by (cases t) auto

lemma not_space [simp]: "\<not> is_space CHR 0x5D" "\<not> is_space CHR 0x7D" "\<not> is_space CHR 0x22" "\<not> is_space (CHR '','')"
  "\<not> is_space (CHR '':'')"
  by (simp_all add: is_space_def)

lemma scan_text:
  shows "json_text v t \<Longrightarrow> delim r \<Longrightarrow> scan_value path (t @ r) = Some (dups path v, r)"
    and "elements_text xs t1 \<Longrightarrow>
      scan_array path (skipWhitespace (t1 @ CHR 0x5D # r)) = Some (concat (map (dups path) xs), r)"
    and "members_text kvs t2 \<Longrightarrow>
      scan_object path seen (skipWhitespace (t2 @ CHR 0x7D # r)) = Some (dup_members path seen kvs, r)"
proof (induction arbitrary: path r and path r and path seen r rule: json_text_elements_text_members_text.inducts)
  case text_null
  show ?case by (rule trans [OF scan_primitive]) (use text_null in \<open>simp_all add: is_space_def\<close>)
next
  case text_true
  show ?case by (rule trans [OF scan_primitive]) (use text_true in \<open>simp_all add: is_space_def\<close>)
next
  case text_false
  show ?case by (rule trans [OF scan_primitive]) (use text_false in \<open>simp_all add: is_space_def\<close>)
next
  case (text_number t n)
  then show ?case using scan_number by simp
next
  case (text_string v t)
  then show ?case
    using parseString_token [of v t r]
    by (simp add: scan_value_def Let_def starts_with_def)
next
  case (text_array_empty w)
  then show ?case by (simp add: scan_value_bracket starts_with_def)
next
  case (text_array xs t)
  obtain c u where "c \<noteq> CHR 0x5D" "skipWhitespace (t @ CHR 0x5D # r) = c # u @ CHR 0x5D # r"
    using text_heads(2) [OF text_array(1)] by blast
  with text_array.IH [of path r] show ?case by (simp add: scan_value_bracket starts_with_def)
next
  case (text_object_empty w)
  then show ?case by (simp add: scan_value_brace starts_with_def)
next
  case (text_object kvs t)
  obtain u where "skipWhitespace (t @ CHR 0x7D # r) = CHR 0x22 # u @ CHR 0x7D # r"
    using text_heads(3) [OF text_object(1)] by blast
  with text_object.IH [of path "[]" r] show ?case by (simp add: scan_value_brace starts_with_def)
next
  case (last_element x t w w')
  let ?r = "w' @ CHR 0x5D # r"
  have "scan_value path (t @ ?r) = Some (dups path x, ?r)" using last_element by (simp add: delim_white)
  with last_element show ?case
    using text_heads(1) [of x t] scan_array_step [of "t @ ?r" path "dups path x" ?r]
    by (simp add: skip_text starts_with_def)
next
  case (more_elements x t w w' xs u)
  let ?r = "w' @ CHR '','' # u @ CHR 0x5D # r"
  have "scan_value path (t @ ?r) = Some (dups path x, ?r)" using more_elements by (simp add: delim_white)
  with more_elements show ?case
    using text_heads(1) [of x t] scan_array_step [of "t @ ?r" path "dups path x" ?r]
    by (simp add: skip_text starts_with_def)
next
  case (last_member k s x t w1 w2 w3 w4)
  let ?r = "w4 @ CHR 0x7D # r"
  have v: "scan_value (path @ [k]) (t @ ?r) = Some (dups (path @ [k]) x, ?r)"
    using last_member by (simp add: delim_white)
  show ?case
    using last_member
    by (simp add: scan_object_step [OF refl parseString_token _ _ refl] v skip_text starts_with_def)
next
  case (more_members k s x t w1 w2 w3 w4 kvs u)
  let ?r = "w4 @ CHR '','' # u @ CHR 0x7D # r"
  have v: "scan_value (path @ [k]) (t @ ?r) = Some (dups (path @ [k]) x, ?r)"
    using more_members by (simp add: delim_white)
  show ?case
    using more_members
    by (simp add: scan_object_step [OF refl parseString_token _ _ refl] v skip_text starts_with_def)
qed

lemma dups_set:
  "set (dups path v) = {duplicatePath p k | p k. \<exists>ks. (p, ks) \<in> set (objects_at path v) \<and>
      shouldCheckObject p \<and> 2 \<le> count_list ks k}"
  "set (dup_members path seen kvs) =
     {duplicatePath path k | k. shouldCheckObject path \<and>
        (k \<in> set seen \<and> k \<in> fst ` set kvs \<or> 2 \<le> count_list (map fst kvs) k)} \<union>
     {duplicatePath p k | p k. \<exists>ks x. x \<in> set kvs \<and> (p, ks) \<in> set (objects_at (path @ [fst x]) (snd x)) \<and>
        shouldCheckObject p \<and> 2 \<le> count_list ks k}"
proof (induction path v and path seen kvs rule: dups_dup_members.induct)
  case (1 path kvs)
  have "(p, ks) \<in> set (objects_at path (JObj kvs)) \<longleftrightarrow> p = path \<and> ks = map fst kvs \<or>
      (\<exists>x. x \<in> set kvs \<and> (p, ks) \<in> set (objects_at (path @ [fst x]) (snd x)))" for p ks
    by (force simp: case_prod_beta)
  then show ?case unfolding dups.simps 1 by auto blast+
next
  case (9 path seen kv kvs)
  have cnt: "1 \<le> count_list (map fst kvs) k \<longleftrightarrow> k \<in> fst ` set kvs" for k
    using count_list_0_iff [of "map fst kvs" k] by (auto simp: Suc_le_eq)
  let ?kids = "\<lambda>xs. {duplicatePath p k | p k. \<exists>ks x. x \<in> set xs \<and> (p, ks) \<in> set (objects_at (path @ [fst x]) (snd x)) \<and>
        shouldCheckObject p \<and> 2 \<le> count_list ks k}"
  have kids: "?kids (kv # kvs) = {duplicatePath p k | p k. \<exists>ks. (p, ks) \<in> set (objects_at (path @ [fst kv]) (snd kv)) \<and>
      shouldCheckObject p \<and> 2 \<le> count_list ks k} \<union> ?kids kvs"
  proof -
    have un: "?kids xs = (\<Union>x \<in> set xs. {duplicatePath p k | p k. \<exists>ks. (p, ks) \<in> set (objects_at (path @ [fst x]) (snd x)) \<and>
        shouldCheckObject p \<and> 2 \<le> count_list ks k})" for xs by blast
    show ?thesis unfolding un by (simp only: list.set(2) UN_insert)
  qed
  have own: "k \<in> set seen \<and> k \<in> fst ` set (kv # kvs) \<or> 2 \<le> count_list (map fst (kv # kvs)) k \<longleftrightarrow>
      k = fst kv \<and> k \<in> set seen \<or>
      (k \<in> set (fst kv # seen) \<and> k \<in> fst ` set kvs \<or> 2 \<le> count_list (map fst kvs) k)" for k
    using cnt [of k] by auto
  show ?case unfolding dup_members.simps set_append 9 kids own by auto
qed auto

lemma parseValue_skip: "skipWhitespace s = skipWhitespace s' \<Longrightarrow> parseValue n path s = parseValue n path s'"
  by (cases n) simp_all

section \<open>Properties\<close>

text \<open>
  C35: The duplicate scan of a statement's text is exact. On every JSON text of a document (any white
  space, any spelling of the strings by escapes, any nesting, any number tokens; strings without lone
  surrogates) it reports a member name exactly when the name occurs at least twice in one object that
  lies at \<open>metadata_policy\<close>, at an entity type or at a parameter of it, and it reports nothing else. Names
  are compared as what they denote, so a duplicate spelled with escapes is found; a policy whose
  meaning \<open>JSON.parse\<close> would decide by dropping a member never passes unnoticed.
\<close>
theorem duplicate_scan_exact:
  assumes "json_text doc t" and "white w" and "white w'"
  shows "set (findDuplicateMetadataPolicyMembers (w @ t @ w')) =
    {duplicatePath path key | path key. \<exists>keys. (path, keys) \<in> set (objects_at [] doc) \<and>
       shouldCheckObject path \<and> 2 \<le> count_list keys key}"
proof -
  let ?s = "t @ w'"
  have "delim w'" using delim_white [OF assms(3) delim_simps(1)] by simp
  then have scan: "scan_value [] ?s = Some (dups [] doc, w')" using scan_text(1) [OF assms(1)] by blast
  have "parseValue (2 * length (w @ ?s) + 1) [] (w @ ?s) = parseValue (2 * length (w @ ?s) + 1) [] ?s"
    using assms(2) by (intro parseValue_skip) simp
  also have "\<dots> = scan_value [] ?s"
    unfolding scan_value_def using fuel_irrelevant [of ?s "2 * length (w @ ?s) + 1" "2 * length ?s + 1" "[]" "[]"] by simp
  finally show ?thesis
    using scan dups_set(1) [of "[]" doc] by (simp add: findDuplicateMetadataPolicyMembers_def)
qed

lemma token_plain:
  "list_all (\<lambda>c. c \<noteq> CHR 0x22 \<and> c \<noteq> CHR 0x5C \<and> (32 :: nat) \<le> of_char c) s \<Longrightarrow> string_token s s"
  by (induction s) (simp_all add: token_end token_char)

definition example_duplicate :: jsval where
  "example_duplicate = JObj [(''metadata_policy'', JObj [(''rp'', JObj []), (''rp'', JObj [])])]"

text \<open>The second name is spelled \<open>\u0072p\<close>.\<close>

definition example_duplicate_text :: string where
  "example_duplicate_text = ''{ '' @ [CHR 0x22] @ ''metadata_policy'' @ [CHR 0x22] @ '': {'' @
     [CHR 0x22] @ ''rp'' @ [CHR 0x22] @ '':{}, '' @ [CHR 0x22, CHR 0x5C] @ ''u0072p'' @ [CHR 0x22] @ '':{}}}''"

lemma example_duplicate_text: "json_text example_duplicate example_duplicate_text"
proof -
  have w: "white []" "white '' ''" by (simp_all add: white_def)
  have rp: "string_token ''rp'' ''rp''" by (rule token_plain) simp
  have "string_token (utf8 0x72 @ ''p'') (CHR 0x5C # CHR ''u'' # ''0072'' @ ''p'')"
  proof (rule token_unicode)
    show "hex4 ''0072'' = Some (0x72, [])" by code_simp
    show "string_token ''p'' ''p''" by (rule token_plain) simp
  qed simp
  moreover have "utf8 0x72 = ''r''" by code_simp
  ultimately have esc: "string_token ''rp'' (CHR 0x5C # ''u0072p'')" by simp
  have obj: "json_text (JObj []) ''{}''" using text_object_empty [OF w(1)] by simp
  have "members_text [(''rp'', JObj []), (''rp'', JObj [])]
      ([] @ CHR 0x22 # ''rp'' @ CHR 0x22 # [] @ CHR '':'' # [] @ ''{}'' @ [] @ CHR '','' #
       ('' '' @ CHR 0x22 # (CHR 0x5C # ''u0072p'') @ CHR 0x22 # [] @ CHR '':'' # [] @ ''{}'' @ []))"
    using rp esc obj w by (intro more_members last_member)
  from text_object [OF this]
  have "json_text (JObj [(''rp'', JObj []), (''rp'', JObj [])])
      (CHR 0x7B # CHR 0x22 # ''rp'' @ CHR 0x22 # '':{}, '' @ CHR 0x22 # CHR 0x5C # ''u0072p'' @ CHR 0x22 # '':{}}'')"
    by simp
  moreover have "string_token ''metadata_policy'' ''metadata_policy''" by (rule token_plain) simp
  ultimately have "members_text [(''metadata_policy'', JObj [(''rp'', JObj []), (''rp'', JObj [])])]
      ('' '' @ CHR 0x22 # ''metadata_policy'' @ CHR 0x22 # [] @ CHR '':'' # '' '' @
       (CHR 0x7B # CHR 0x22 # ''rp'' @ CHR 0x22 # '':{}, '' @ CHR 0x22 # CHR 0x5C # ''u0072p'' @ CHR 0x22 # '':{}}'') @ [])"
    using w by (intro last_member)
  from text_object [OF this] show ?thesis by (simp add: example_duplicate_def example_duplicate_text_def)
qed

theorem duplicate_scan_exact_witness:
  "set (findDuplicateMetadataPolicyMembers (CHR 10 # example_duplicate_text @ '' '')) = {''metadata_policy.rp''}"
proof -
  have "{duplicatePath path key | path key. \<exists>keys. (path, keys) \<in> set (objects_at [] example_duplicate) \<and>
       shouldCheckObject path \<and> 2 \<le> count_list keys key} = {''metadata_policy.rp''}"
    (is "?L = _")
  proof
    show "?L \<subseteq> {''metadata_policy.rp''}"
      by (auto simp: example_duplicate_def shouldCheckObject_def duplicatePath_def split: if_splits)
    have "duplicatePath [''metadata_policy''] ''rp'' \<in> ?L"
      by (rule CollectI, rule exI [of _ "[''metadata_policy'']"], rule exI [of _ "''rp''"])
         (auto simp: shouldCheckObject_def example_duplicate_def)
    then show "{''metadata_policy.rp''} \<subseteq> ?L" by (simp add: duplicatePath_def)
  qed
  moreover have "white [CHR 10]" "white '' ''" by (simp_all add: white_def)
  ultimately show ?thesis
    using duplicate_scan_exact [OF example_duplicate_text, of "[CHR 10]" "'' ''"] by simp
qed

text \<open>
  The scan always has an answer: the fuel its model starts with is never used up, for any text
  whatever, since any larger amount gives the same result.
\<close>
lemma duplicate_scan_total:
  assumes "2 * length json + 1 \<le> n"
  shows "findDuplicateMetadataPolicyMembers json =
    (case parseValue n [] json of None \<Rightarrow> [] | Some (duplicates, _) \<Rightarrow> duplicates)"
  using fuel_irrelevant [of json "2 * length json + 1" n "[]" "[]"] assms
  by (simp add: findDuplicateMetadataPolicyMembers_def)

lemma duplicate_scan_total_witness:
  "findDuplicateMetadataPolicyMembers ''[7]'' = (case parseValue 100 [] ''[7]'' of None \<Rightarrow> [] | Some (d, _) \<Rightarrow> d)"
  by (rule duplicate_scan_total) simp

end
