(* ===== verification/Jose_Keys.thy ===== *)
theory Jose_Keys
  imports Policy_Apply "HOL-Library.Word"
begin

unbundle bit_operations_syntax

text \<open>
  packages/core/src/jose: key selection, constant-time comparison and removal of private key
  members (keys.ts) and the verification of entity statements (verify.ts); the rules on JWK Sets of
  packages/core/src/jwks (use-requirement.ts, spec-hygiene.ts).

  The jose package is the parameter \<open>jose\<close>: decoding a header or payload, and importing a key and
  verifying a signature with it, each either a value or the message of what it throws. A JWK and a
  JWK Set are JavaScript values that have passed JWKSetSchema; on another value the sources would
  throw where the model reads an absent member. Descriptions built from such a message carry it;
  the \<open>cause\<close> member of an error is not modelled.
\<close>

section \<open>Keys\<close>

definition SUPPORTED_ALGORITHMS :: "string list" where
  "SUPPORTED_ALGORITHMS = [''ES256'', ''ES384'', ''ES512'', ''PS256'', ''PS384'', ''PS512'', ''RS256'']"

definition isValidAlgorithm :: "jsval \<Rightarrow> bool" where
  "isValidAlgorithm alg =
     (case alg of JStr a \<Rightarrow> a \<noteq> ''none'' \<and> a \<in> set SUPPORTED_ALGORITHMS | _ \<Rightarrow> False)"

definition ALG_TO_KTY :: "string dict" where
  "ALG_TO_KTY = [(''ES256'', ''EC''), (''ES384'', ''EC''), (''ES512'', ''EC''), (''PS256'', ''RSA''),
     (''PS384'', ''RSA''), (''PS512'', ''RSA''), (''RS256'', ''RSA'')]"

text \<open>\<open>!k.use || k.use === "sig"\<close>\<close>

definition may_sign :: "jsval \<Rightarrow> bool" where
  "may_sign k \<longleftrightarrow> \<not> truthy (mget k ''use'') \<or> strict_eq (mget k ''use'') (JStr ''sig'')"

definition jwks_keys :: "jsval \<Rightarrow> jsval list" where
  "jwks_keys jwks = items (mget jwks ''keys'')"

definition selectVerificationKey :: "jsval dict \<Rightarrow> jsval \<Rightarrow> jsval option" where
  "selectVerificationKey header' jwks =
     (let keys = jwks_keys jwks; kid = pget header' ''kid''; alg = pget header' ''alg'' in
      if truthy kid then
        (case find (\<lambda>k. strict_eq (mget k ''kid'') kid \<and> may_sign k) keys of
           None \<Rightarrow> None
         | Some byKid \<Rightarrow>
             if truthy (mget byKid ''alg'') \<and> truthy alg \<and> \<not> strict_eq (mget byKid ''alg'') alg
             then None else Some byKid)
      else if truthy alg then
        (case (case alg of JStr a \<Rightarrow> map_of ALG_TO_KTY a | _ \<Rightarrow> None) of
           None \<Rightarrow> None
         | Some expectedKty \<Rightarrow>
             find (\<lambda>k. strict_eq (mget k ''kty'') (JStr expectedKty) \<and> may_sign k \<and>
                      (\<not> truthy (mget k ''alg'') \<or> strict_eq (mget k ''alg'') alg)) keys)
      else None)"

text \<open>The bytes of a string, and the accumulator of the comparison loop as the 32-bit integer
  \<open>|=\<close> and \<open>^\<close> work on.\<close>

definition encode :: "string \<Rightarrow> 32 word list" where
  "encode s = map (\<lambda>c. of_nat (of_char c)) s"

fun diff_loop :: "32 word \<Rightarrow> 32 word list \<Rightarrow> 32 word list \<Rightarrow> 32 word" where
  "diff_loop diff (x # xs) (y # ys) = diff_loop (diff OR (x XOR y)) xs ys"
| "diff_loop diff _ _ = diff"

definition timingSafeEqual :: "string \<Rightarrow> string \<Rightarrow> bool" where
  "timingSafeEqual a b =
     (let bufA = encode a; bufB = encode b in
      if length bufA \<noteq> length bufB then False else diff_loop 0 bufA bufB = 0)"

definition JWK_PUBLIC_FIELDS :: "string list" where
  "JWK_PUBLIC_FIELDS = [''kty'', ''use'', ''key_ops'', ''alg'', ''kid'', ''x5u'', ''x5c'', ''x5t'',
     ''x5t#S256'', ''crv'', ''x'', ''y'', ''n'', ''e'']"

definition PRIVATE_KEY_FIELDS :: "string list" where
  "PRIVATE_KEY_FIELDS = [''d'', ''p'', ''q'', ''dp'', ''dq'', ''qi'', ''oth'', ''k'']"

text \<open>A thrown \<open>TypeError\<close> is \<open>Inl\<close>.\<close>

definition stripPrivateFields :: "jsval dict \<Rightarrow> (string, jsval dict) result" where
  "stripPrivateFields key =
     (if strict_eq (pget key ''kty'') (JStr ''oct'') then
        Inl ''Cannot extract public fields from a symmetric key (kty oct): the entire key value is private''
      else Inr (filter (\<lambda>(k, v). k \<in> set JWK_PUBLIC_FIELDS) key))"

section \<open>Rules on JWK Sets\<close>

definition JWS_ALGS :: "string list" where
  "JWS_ALGS = [''HS256'', ''HS384'', ''HS512'', ''RS256'', ''RS384'', ''RS512'', ''ES256'', ''ES384'',
     ''ES512'', ''ES256K'', ''PS256'', ''PS384'', ''PS512'', ''EdDSA'']"

definition JWE_ALGS :: "string list" where
  "JWE_ALGS = [''RSA1_5'', ''RSA-OAEP'', ''RSA-OAEP-256'', ''A128KW'', ''A192KW'', ''A256KW'', ''dir'',
     ''ECDH-ES'', ''ECDH-ES+A128KW'', ''ECDH-ES+A192KW'', ''ECDH-ES+A256KW'', ''A128GCMKW'',
     ''A192GCMKW'', ''A256GCMKW'', ''PBES2-HS256+A128KW'', ''PBES2-HS384+A192KW'', ''PBES2-HS512+A256KW'']"

definition ENC_KEY_OPS :: "string list" where
  "ENC_KEY_OPS = [''encrypt'', ''decrypt'', ''wrapKey'', ''unwrapKey'', ''deriveKey'', ''deriveBits'']"

definition in_strings :: "string list \<Rightarrow> jsval \<Rightarrow> bool" where
  "in_strings xs v = (case v of JStr s \<Rightarrow> s \<in> set xs | _ \<Rightarrow> False)"

definition isLikelySigning :: "jsval \<Rightarrow> bool" where
  "isLikelySigning jwk =
     (if strict_eq (mget jwk ''use'') (JStr ''sig'') then True
      else if strict_eq (mget jwk ''use'') (JStr ''enc'') then False
      else if list_ex (in_strings [''sign'', ''verify'']) (items (mget jwk ''key_ops'')) then True
      else if truthy (mget jwk ''alg'') \<and> in_strings JWS_ALGS (mget jwk ''alg'') then True
      else False)"

definition isLikelyEncryption :: "jsval \<Rightarrow> bool" where
  "isLikelyEncryption jwk =
     (if strict_eq (mget jwk ''use'') (JStr ''enc'') then True
      else if strict_eq (mget jwk ''use'') (JStr ''sig'') then False
      else if list_ex (in_strings ENC_KEY_OPS) (items (mget jwk ''key_ops'')) then True
      else if truthy (mget jwk ''alg'') \<and> in_strings JWE_ALGS (mget jwk ''alg'') then True
      else False)"

text \<open>\<open>String(v)\<close>.\<close>

fun js_string :: "jsval \<Rightarrow> string" where
  "js_string JUndef = ''undefined''"
| "js_string JNull = ''null''"
| "js_string v = join_element v"

definition has_use :: "jsval \<Rightarrow> bool" where
  "has_use jwk \<longleftrightarrow> in_strings [''sig'', ''enc''] (mget jwk ''use'')"

definition validateJwkSetUseRequirement :: "jsval list \<Rightarrow> (fed_error, unit) result" where
  "validateJwkSetUseRequirement jwks =
     (if length jwks = 0 then Inr ()
      else
        let hasSigning = list_ex isLikelySigning jwks; hasEncryption = list_ex isLikelyEncryption jwks in
        if \<not> hasSigning \<or> \<not> hasEncryption then Inr ()
        else
          (case find (\<lambda>jwk. \<not> has_use jwk) jwks of
             Some jwk \<Rightarrow>
               Inl (mk_err ''invalid_metadata''
                 (''JWK Set contains both signing and encryption keys; every key MUST carry the '' @
                  quoted ''use'' @ '' parameter (key '' @
                  quoted (let kid = mget jwk ''kid'' in
                          if kid = JUndef \<or> kid = JNull then ''<no kid>'' else js_string kid) @
                  '' is missing '' @ quoted ''use'' @ '')''))
           | None \<Rightarrow> Inr ()))"

definition validateSignedJwkSetSpecHygiene :: "jsval dict \<Rightarrow> (fed_error, unit) result" where
  "validateSignedJwkSetSpecHygiene p =
     (if \<not> strict_eq (pget p ''sub'') (pget p ''iss'') then
        Inl (mk_err ''invalid_metadata''
          (''Signed JWK Set '' @ quoted ''sub'' @ '' ('' @ quoted (js_string (pget p ''sub'')) @
           '') should equal '' @ quoted ''iss'' @ '' ('' @ quoted (js_string (pget p ''iss'')) @ '')''))
      else if pget p ''aud'' \<noteq> JUndef then
        Inl (mk_err ''invalid_metadata'' (''Signed JWK Set should not include '' @ quoted ''aud''))
      else if pget p ''nbf'' \<noteq> JUndef then
        Inl (mk_err ''invalid_metadata'' (''Signed JWK Set should omit '' @ quoted ''nbf''))
      else if pget p ''jti'' \<noteq> JUndef then
        Inl (mk_err ''invalid_metadata'' (''Signed JWK Set should omit '' @ quoted ''jti''))
      else Inr ())"

section \<open>Verification\<close>

record jose =
  jose_header :: "string \<Rightarrow> (string, jsval dict) result"
  jose_payload :: "string \<Rightarrow> (string, jsval dict) result"
  jose_verify :: "string \<Rightarrow> jsval \<Rightarrow> jsval \<Rightarrow> number \<Rightarrow> number option \<Rightarrow> (string, jsval dict) result"

record verify_options =
  clockSkewSeconds :: "number option"
  clock :: "number option"
  expectedTyp :: "string option"

definition DEFAULT_CLOCK_SKEW_SECONDS :: number where
  "DEFAULT_CLOCK_SKEW_SECONDS = 60"

definition skew_of :: "number option \<Rightarrow> number" where
  "skew_of o' = (case o' of None \<Rightarrow> DEFAULT_CLOCK_SKEW_SECONDS | Some s \<Rightarrow> s)"

definition ENTITY_STATEMENT_TYP :: string where
  "ENTITY_STATEMENT_TYP = ''entity-statement+jwt''"

definition signatureInvalid :: "string \<Rightarrow> fed_error" where
  "signatureInvalid d = mk_err ''ERR_SIGNATURE_INVALID'' d"

definition decodeProtectedHeader :: "jose \<Rightarrow> string \<Rightarrow> (fed_error, jsval dict) result" where
  "decodeProtectedHeader J jwt = (case jose_header J jwt of Inl e \<Rightarrow> Inl (signatureInvalid e) | Inr h \<Rightarrow> Inr h)"

definition verifyEntityStatement ::
  "jose \<Rightarrow> string \<Rightarrow> jsval \<Rightarrow> verify_options \<Rightarrow> (fed_error, parsed_statement) result"
where
  "verifyEntityStatement J jwt jwks options =
     (case decodeProtectedHeader J jwt of
        Inl e \<Rightarrow> Inl e
      | Inr h \<Rightarrow>
        (let typ = (case expectedTyp options of None \<Rightarrow> ENTITY_STATEMENT_TYP | Some t \<Rightarrow> t) in
         if \<not> strict_eq (pget h ''typ'') (JStr typ) then
           Inl (signatureInvalid (''Invalid typ header: expected '' @ quoted typ @ '', got '' @
                  quoted (js_string (pget h ''typ''))))
         else if \<not> isValidAlgorithm (pget h ''alg'') then
           Inl (mk_err ''ERR_UNSUPPORTED_ALG''
                 (''Unsupported algorithm: '' @ quoted (js_string (pget h ''alg''))))
         else if \<not> truthy (pget h ''kid'') \<or> \<not> is_str (pget h ''kid'') then
           Inl (signatureInvalid ''Missing or invalid kid header'')
         else
           (case selectVerificationKey h jwks of
              None \<Rightarrow> Inl (signatureInvalid ''No matching key found in JWKS for verification'')
            | Some key \<Rightarrow>
                (case jose_verify J jwt key (pget h ''alg'') (skew_of (clockSkewSeconds options)) (clock options) of
                   Inl e \<Rightarrow> Inl (signatureInvalid e)
                 | Inr p \<Rightarrow> Inr \<lparr>header = h, payload = p\<rparr>))))"

definition decodeEntityStatement :: "jose \<Rightarrow> string \<Rightarrow> (fed_error, parsed_statement) result" where
  "decodeEntityStatement J jwt =
     (case jose_header J jwt of
        Inl e \<Rightarrow> Inl (signatureInvalid e)
      | Inr h \<Rightarrow>
        (case jose_payload J jwt of
           Inl e \<Rightarrow> Inl (signatureInvalid e)
         | Inr p \<Rightarrow> Inr \<lparr>header = h, payload = p\<rparr>))"

definition requireEntityStatementTyp :: "jsval dict \<Rightarrow> (fed_error, unit) result" where
  "requireEntityStatementTyp h =
     (if \<not> strict_eq (pget h ''typ'') (JStr ENTITY_STATEMENT_TYP) then
        Inl (signatureInvalid (''Invalid typ header: expected '' @ quoted ENTITY_STATEMENT_TYP @ '', got '' @
               quoted (js_string (pget h ''typ''))))
      else Inr ())"

text \<open>Decoding with a schema: \<open>schema\<close> stands for \<open>safeParse\<close>, a message or the parsed payload;
  the two exported functions differ in the schema and in the name they report.\<close>

definition decode_with_schema ::
  "string \<Rightarrow> jose \<Rightarrow> (jsval dict \<Rightarrow> (string, jsval dict) result) \<Rightarrow> string \<Rightarrow> (fed_error, parsed_statement) result"
where
  "decode_with_schema name J schema jwt =
     (case decodeEntityStatement J jwt of
        Inl e \<Rightarrow> Inl e
      | Inr d \<Rightarrow>
        (case requireEntityStatementTyp (header d) of
           Inl e \<Rightarrow> Inl e
         | Inr _ \<Rightarrow>
           (case schema (payload d) of
              Inl msg \<Rightarrow> Inl (mk_err ''ERR_TRUST_CHAIN_INVALID'' (''Invalid '' @ name @ '' payload: '' @ msg))
            | Inr p \<Rightarrow> Inr \<lparr>header = header d, payload = p\<rparr>)))"

definition decodeEntityConfiguration ::
  "jose \<Rightarrow> (jsval dict \<Rightarrow> (string, jsval dict) result) \<Rightarrow> string \<Rightarrow> (fed_error, parsed_statement) result" where
  "decodeEntityConfiguration = decode_with_schema ''Entity Configuration''"

definition decodeSubordinateStatement ::
  "jose \<Rightarrow> (jsval dict \<Rightarrow> (string, jsval dict) result) \<Rightarrow> string \<Rightarrow> (fed_error, parsed_statement) result" where
  "decodeSubordinateStatement = decode_with_schema ''Subordinate Statement''"

text \<open>A thrown \<open>TypeError\<close> is \<open>Inl\<close>.\<close>

definition assertTypHeader :: "jsval dict \<Rightarrow> string \<Rightarrow> (string, unit) result" where
  "assertTypHeader h t =
     (if \<not> strict_eq (pget h ''typ'') (JStr t) then
        Inl (''Expected typ '' @ quoted t @ '', got '' @ quoted (js_string (pget h ''typ'')))
      else Inr ())"

section \<open>Key selection\<close>

text \<open>A key that may verify a token with this header: a signing key, with the header's key id if
  the header has one, of the right type if not, and not bound to another algorithm.\<close>

definition suits :: "jsval dict \<Rightarrow> jsval \<Rightarrow> bool" where
  "suits h k \<longleftrightarrow> may_sign k \<and>
     (if truthy (pget h ''kid'') then strict_eq (mget k ''kid'') (pget h ''kid'')
      else \<exists>a t. pget h ''alg'' = JStr a \<and> map_of ALG_TO_KTY a = Some t \<and> mget k ''kty'' = JStr t) \<and>
     (truthy (mget k ''alg'') \<longrightarrow> truthy (pget h ''alg'') \<longrightarrow> strict_eq (mget k ''alg'') (pget h ''alg''))"

lemma find_Some_set: "find P xs = Some x \<Longrightarrow> x \<in> set xs \<and> P x"
  by (induction xs) (auto split: if_splits)

lemma strict_eq_str [simp]: "strict_eq v (JStr s) \<longleftrightarrow> v = JStr s" "strict_eq (JStr s) v \<longleftrightarrow> v = JStr s"
  by (cases v; simp; blast)+

lemma select_suits:
  "selectVerificationKey h jwks = Some k \<Longrightarrow> k \<in> set (jwks_keys jwks) \<and> suits h k"
  by (auto simp: selectVerificationKey_def Let_def suits_def dest!: find_Some_set
      split: if_splits option.splits jsval.splits)

text \<open>With distinct key ids the selection by key id finds the suitable key.\<close>

lemma select_finds:
  assumes kid: "truthy (pget h ''kid'')" and k: "k \<in> set (jwks_keys jwks)" "suits h k"
    and dist: "distinct (map (\<lambda>k. mget k ''kid'') (filter may_sign (jwks_keys jwks)))"
  shows "selectVerificationKey h jwks = Some k"
proof -
  let ?P = "\<lambda>k. strict_eq (mget k ''kid'') (pget h ''kid'') \<and> may_sign k"
  have Pk: "?P k" using k(2) kid by (simp add: suits_def)
  then obtain j where j: "find ?P (jwks_keys jwks) = Some j"
    using k(1) by (cases "find ?P (jwks_keys jwks)") (auto simp: find_None_iff)
  have jP: "j \<in> set (jwks_keys jwks)" "?P j" using find_Some_set [OF j] by auto
  have "strict_eq a c \<Longrightarrow> strict_eq b c \<Longrightarrow> a = b" for a b c
    by (cases a; cases b; cases c) auto
  then have "mget j ''kid'' = mget k ''kid''" using jP Pk by blast
  then have "j = k" using dist jP Pk k(1) by (auto simp: distinct_map inj_on_def)
  with j k(2) kid show ?thesis
    by (auto simp: selectVerificationKey_def Let_def suits_def)
qed

lemma encode_inj: "encode a = encode b \<longleftrightarrow> a = b"
proof -
  have inj: "inj (\<lambda>c :: char. (of_nat (of_char c) :: 32 word))"
  proof (rule injI)
    fix c d :: char
    assume "(of_nat (of_char c) :: 32 word) = of_nat (of_char d)"
    then have "unat (of_nat (of_char c) :: 32 word) = unat (of_nat (of_char d) :: 32 word)" by simp
    moreover have "(of_char c :: nat) < 256" "(of_char d :: nat) < 256" by simp_all
    ultimately have "(of_char c :: nat) = of_char d" by (simp add: unat_of_nat)
    then show "c = d" by simp
  qed
  then show ?thesis unfolding encode_def by (rule inj_map_eq_map)
qed

lemma diff_loop_zero:
  "length xs = length ys \<Longrightarrow> diff_loop d xs ys = 0 \<longleftrightarrow> d = 0 \<and> xs = ys"
proof (induction xs ys arbitrary: d rule: list_induct2)
  case (Cons x xs y ys)
  have "x XOR y = 0 \<longleftrightarrow> x = y" by (auto simp: bit_eq_iff bit_xor_iff)
  then have "d OR (x XOR y) = 0 \<longleftrightarrow> d = 0 \<and> x = y" by (simp add: or_eq_0_iff)
  with Cons show ?case by simp
qed simp

lemma timingSafeEqual_eq: "timingSafeEqual a b \<longleftrightarrow> a = b"
  by (auto simp: timingSafeEqual_def Let_def diff_loop_zero encode_inj)

section \<open>Properties\<close>

lemma verify_accepts:
  assumes "verifyEntityStatement J jwt jwks options = Inr st"
  shows "pget (header st) ''typ'' = JStr (case expectedTyp options of None \<Rightarrow> ENTITY_STATEMENT_TYP | Some t \<Rightarrow> t)"
    and "\<exists>a. pget (header st) ''alg'' = JStr a \<and> a \<in> set SUPPORTED_ALGORITHMS"
    and "\<exists>kid. pget (header st) ''kid'' = JStr kid \<and> kid \<noteq> []"
    and "jose_header J jwt = Inr (header st)"
    and "\<exists>k \<in> set (jwks_keys jwks). suits (header st) k \<and>
           jose_verify J jwt k (pget (header st) ''alg'') (skew_of (clockSkewSeconds options)) (clock options) =
             Inr (payload st)"
  using assms
  by (auto simp: verifyEntityStatement_def decodeProtectedHeader_def Let_def isValidAlgorithm_def
      elim!: is_str.elims dest!: select_suits split: sum.splits if_splits option.splits jsval.splits)

text \<open>
  C33: An entity statement is accepted only with the expected \<open>typ\<close>, an algorithm of the supported
  list and a non-empty key id, and only if some signing key of the given JWK Set with exactly that
  key id, not bound to another algorithm, verifies the token; the payload returned is the verified
  one.
\<close>
theorem verifyEntityStatement_sound:
  assumes "verifyEntityStatement J jwt jwks options = Inr st"
  shows "pget (header st) ''typ'' = JStr (case expectedTyp options of None \<Rightarrow> ENTITY_STATEMENT_TYP | Some t \<Rightarrow> t) \<and>
    (\<exists>a kid. pget (header st) ''alg'' = JStr a \<and> a \<in> set SUPPORTED_ALGORITHMS \<and>
       pget (header st) ''kid'' = JStr kid \<and> kid \<noteq> [] \<and>
       (\<exists>k \<in> set (jwks_keys jwks). mget k ''kid'' = JStr kid \<and>
          (truthy (mget k ''use'') \<longrightarrow> mget k ''use'' = JStr ''sig'') \<and>
          (truthy (mget k ''alg'') \<longrightarrow> mget k ''alg'' = JStr a) \<and>
          jose_verify J jwt k (JStr a) (skew_of (clockSkewSeconds options)) (clock options) = Inr (payload st)))"
proof -
  obtain a where a: "pget (header st) ''alg'' = JStr a" "a \<in> set SUPPORTED_ALGORITHMS"
    using verify_accepts(2) [OF assms] by blast
  obtain kid where kid: "pget (header st) ''kid'' = JStr kid" "kid \<noteq> []"
    using verify_accepts(3) [OF assms] by blast
  obtain k where k: "k \<in> set (jwks_keys jwks)" "suits (header st) k"
    "jose_verify J jwt k (JStr a) (skew_of (clockSkewSeconds options)) (clock options) = Inr (payload st)"
    using verify_accepts(5) [OF assms] a(1) by auto
  have "a \<noteq> []" using a(2) by (auto simp: SUPPORTED_ALGORITHMS_def)
  then have "mget k ''kid'' = JStr kid \<and> (truthy (mget k ''use'') \<longrightarrow> mget k ''use'' = JStr ''sig'') \<and>
      (truthy (mget k ''alg'') \<longrightarrow> mget k ''alg'' = JStr a)"
    using k(2) a(1) kid by (simp add: suits_def may_sign_def)
  with a kid k verify_accepts(1) [OF assms] show ?thesis by blast
qed

definition example_key :: jsval where
  "example_key = JObj [(''kty'', JStr ''EC''), (''kid'', JStr ''k1'')]"

definition example_jwks :: jsval where
  "example_jwks = JObj [(''keys'', JArr [example_key])]"

definition example_header :: "jsval dict" where
  "example_header = [(''typ'', JStr ENTITY_STATEMENT_TYP), (''alg'', JStr ''ES256''), (''kid'', JStr ''k1'')]"

definition example_jose :: "string \<Rightarrow> jsval dict \<Rightarrow> jose" where
  "example_jose jwt p = \<lparr>
     jose_header = (\<lambda>t. if t = jwt then Inr example_header else Inl ''Invalid JWT''),
     jose_payload = (\<lambda>t. if t = jwt then Inr p else Inl ''Invalid JWT''),
     jose_verify = (\<lambda>t k a s c. if t = jwt \<and> k = example_key then Inr p else Inl ''bad signature'')\<rparr>"

definition default_options :: verify_options where
  "default_options = \<lparr>clockSkewSeconds = None, clock = None, expectedTyp = None\<rparr>"

lemma example_verify:
  "verifyEntityStatement (example_jose ''t'' [(''iss'', JStr ''x'')]) ''t'' example_jwks default_options =
     Inr \<lparr>header = example_header, payload = [(''iss'', JStr ''x'')]\<rparr>"
  by code_simp

theorem verifyEntityStatement_sound_witness:
  "\<exists>k \<in> set (jwks_keys example_jwks). mget k ''kid'' = JStr ''k1''"
  using verifyEntityStatement_sound [OF example_verify] by (auto simp: example_header_def pget_def)

text \<open>
  \<open>selectVerificationKey\<close> never picks a key outside the set, an encryption key, or a key bound
  to another algorithm; with a key id it returns the first signing key with that id whenever that key
  is not bound to another algorithm, so with distinct key ids it finds the key exactly when there is
  a suitable one.
\<close>
lemma selectVerificationKey_correct:
  "(\<forall>k. selectVerificationKey h jwks = Some k \<longrightarrow> k \<in> set (jwks_keys jwks) \<and> suits h k) \<and>
   (truthy (pget h ''kid'') \<longrightarrow>
      distinct (map (\<lambda>k. mget k ''kid'') (filter may_sign (jwks_keys jwks))) \<longrightarrow>
      (\<forall>k \<in> set (jwks_keys jwks). suits h k \<longrightarrow> selectVerificationKey h jwks = Some k))"
  using select_suits select_finds by blast

lemma selectVerificationKey_correct_witness:
  "selectVerificationKey example_header example_jwks = Some example_key"
  using selectVerificationKey_correct [of example_header example_jwks]
  by (simp add: example_header_def example_jwks_def example_key_def jwks_keys_def suits_def may_sign_def pget_def)

text \<open>
  The constant-time comparison is equality of strings: the bitwise accumulator is zero exactly
  when all bytes agree.
\<close>
lemma timingSafeEqual_iff: "timingSafeEqual a b \<longleftrightarrow> a = b"
  by (rule timingSafeEqual_eq)

text \<open>
  \<open>stripPrivateFields\<close> leaks nothing and loses nothing public: a symmetric key is refused, any
  other key keeps exactly its members with a public name and their values, none of the private
  members the schema knows survives, and stripping twice is stripping once.
\<close>
lemma stripPrivateFields_public:
  assumes "stripPrivateFields key = Inr pub"
  shows "pget key ''kty'' \<noteq> JStr ''oct'' \<and>
    (\<forall>k v. (k, v) \<in> set pub \<longleftrightarrow> (k, v) \<in> set key \<and> k \<in> set JWK_PUBLIC_FIELDS) \<and>
    (\<forall>f \<in> set PRIVATE_KEY_FIELDS. pget pub f = JUndef) \<and> stripPrivateFields pub = Inr pub"
proof -
  have pub: "pub = filter (\<lambda>(k, v). k \<in> set JWK_PUBLIC_FIELDS) key" and kty: "pget key ''kty'' \<noteq> JStr ''oct''"
    using assms by (auto simp: stripPrivateFields_def split: if_splits)
  have "map_of pub f = None" if "f \<in> set PRIVATE_KEY_FIELDS" for f
  proof -
    have "f \<notin> set JWK_PUBLIC_FIELDS" using that by (auto simp: PRIVATE_KEY_FIELDS_def JWK_PUBLIC_FIELDS_def)
    then show ?thesis unfolding pub by (auto simp: map_of_eq_None_iff)
  qed
  then have priv: "\<forall>f \<in> set PRIVATE_KEY_FIELDS. pget pub f = JUndef" by (simp add: pget_def)
  have "map_of (filter (\<lambda>(k, v). k \<in> set JWK_PUBLIC_FIELDS) m) ''kty'' = map_of m ''kty''"
    for m :: "jsval dict"
    by (induction m) (auto simp: JWK_PUBLIC_FIELDS_def)
  then have "pget pub ''kty'' = pget key ''kty''" by (simp add: pub pget_def)
  then have "stripPrivateFields pub = Inr pub" using kty by (simp add: stripPrivateFields_def pub)
  with kty priv show ?thesis by (auto simp: pub)
qed

lemma stripPrivateFields_public_witness:
  "stripPrivateFields [(''kty'', JStr ''EC''), (''d'', JStr ''s''), (''x'', JStr ''a'')] =
     Inr [(''kty'', JStr ''EC''), (''x'', JStr ''a'')] \<and>
   pget [(''kty'', JStr ''EC''), (''x'', JStr ''a'')] ''d'' = JUndef"
proof -
  have strip: "stripPrivateFields [(''kty'', JStr ''EC''), (''d'', JStr ''s''), (''x'', JStr ''a'')] =
     Inr [(''kty'', JStr ''EC''), (''x'', JStr ''a'')]" by code_simp
  with stripPrivateFields_public [OF strip] show ?thesis by (simp add: PRIVATE_KEY_FIELDS_def)
qed

text \<open>
  The \<open>use\<close> rule is what its comment says: a set is refused exactly when it has a key for
  signing and a key for encryption and some key without \<open>use\<close>; and in an accepted set no key counts
  for both.
\<close>
lemma validateJwkSetUseRequirement_iff:
  "(validateJwkSetUseRequirement jwks = Inr () \<longleftrightarrow>
      ((\<exists>k \<in> set jwks. isLikelySigning k) \<and> (\<exists>k \<in> set jwks. isLikelyEncryption k) \<longrightarrow>
       (\<forall>k \<in> set jwks. mget k ''use'' = JStr ''sig'' \<or> mget k ''use'' = JStr ''enc''))) \<and>
   (validateJwkSetUseRequirement jwks = Inr () \<longrightarrow>
      (\<forall>k \<in> set jwks. \<not> (isLikelySigning k \<and> isLikelyEncryption k)))"
proof -
  have use: "has_use k \<longleftrightarrow> mget k ''use'' = JStr ''sig'' \<or> mget k ''use'' = JStr ''enc''" for k
    by (auto simp: has_use_def in_strings_def split: jsval.splits)
  have iff: "validateJwkSetUseRequirement jwks = Inr () \<longleftrightarrow>
      ((\<exists>k \<in> set jwks. isLikelySigning k) \<and> (\<exists>k \<in> set jwks. isLikelyEncryption k) \<longrightarrow>
       (\<forall>k \<in> set jwks. has_use k))"
    by (auto simp: validateJwkSetUseRequirement_def Let_def list_ex_iff find_None_iff
        dest!: find_Some_set split: option.splits)
  moreover have "has_use k \<Longrightarrow> \<not> (isLikelySigning k \<and> isLikelyEncryption k)" for k
    by (auto simp: use isLikelySigning_def isLikelyEncryption_def)
  ultimately show ?thesis unfolding use by blast
qed

lemma validateJwkSetUseRequirement_iff_witness:
  "validateJwkSetUseRequirement [JObj [(''use'', JStr ''sig'')], JObj [(''use'', JStr ''enc'')]] = Inr ()"
  using validateJwkSetUseRequirement_iff [of "[JObj [(''use'', JStr ''sig'')], JObj [(''use'', JStr ''enc'')]]"]
  by (simp add: pget_def)
end
