(* ===== verification/Trust_Marks.thy ===== *)
theory Trust_Marks
  imports Jose_Keys
begin

text \<open>
  packages/core/src/trust-marks/index.ts with the signing side it uses, packages/core/src/jose/sign.ts
  and signer.ts: issuing a trust mark delegation, and validating a trust mark and its delegation.

  A signer is a key id, an algorithm and the signing function, which is a parameter (it takes the
  payload object the source serialises with \<open>JSON.stringify\<close>). The zod schemas are parameters that
  give the issues or the parsed payload. A clock is read once per call.
\<close>

section \<open>Signing\<close>

record jwt_signer =
  signer_kid :: string
  signer_alg :: string
  sign_jwt :: "jsval dict \<Rightarrow> jsval dict \<Rightarrow> string"

definition unsupportedSigning :: "string \<Rightarrow> string" where
  "unsupportedSigning alg = ''Unsupported signing algorithm: '' @ alg @ ''. Supported: '' @
     join_with '', '' SUPPORTED_ALGORITHMS"

text \<open>Thrown errors are \<open>Inl\<close>.\<close>

definition validateSigner :: "jwt_signer \<Rightarrow> (string, unit) result" where
  "validateSigner signer =
     (if signer_kid signer = [] then Inl ''JwtSigner kid MUST NOT be empty''
      else if signer_alg signer \<notin> set SUPPORTED_ALGORITHMS then Inl (unsupportedSigning (signer_alg signer))
      else Inr ())"

definition validateSignerKey :: "jsval dict \<Rightarrow> jsval \<Rightarrow> (string, string \<times> string) result" where
  "validateSignerKey key alg =
     (if truthy (pget key ''use'') \<and> pget key ''use'' \<noteq> JStr ''sig'' then
        Inl (''Key use must be sig for signing, got '' @ js_string (pget key ''use''))
      else if pget key ''kty'' = JStr ''oct'' then
        Inl ''Symmetric keys are unsupported; JwkSigner requires an asymmetric signing key''
      else if is_arr (pget key ''key_ops'') \<and> JStr ''sign'' \<notin> set (items (pget key ''key_ops'')) then
        Inl ''JWK key_ops must include sign for signing''
      else if \<not> in_strings SUPPORTED_ALGORITHMS alg then Inl (unsupportedSigning (js_string alg))
      else if \<not> truthy (pget key ''kid'') then Inl ''JwtSigner kid MUST NOT be empty''
      else if \<not> is_str (pget key ''d'') \<or> pget key ''d'' = JStr [] then
        Inl ''JwkSigner requires private key material''
      else Inr (js_string alg, js_string (pget key ''kid'')))"

text \<open>The constructor of \<open>JwkSigner\<close>; the signing function over the key is a parameter.\<close>

definition JwkSigner ::
  "(jsval dict \<Rightarrow> jsval dict \<Rightarrow> jsval dict \<Rightarrow> string) \<Rightarrow> jsval dict \<Rightarrow> string option \<Rightarrow> (string, jwt_signer) result"
where
  "JwkSigner sign_with key algOpt =
     (case validateSignerKey key (case algOpt of Some a \<Rightarrow> JStr a | None \<Rightarrow> pget key ''alg'') of
        Inl e \<Rightarrow> Inl e
      | Inr (alg, kid) \<Rightarrow> Inr \<lparr>signer_kid = kid, signer_alg = alg, sign_jwt = sign_with key\<rparr>)"

record sign_options =
  so_alg :: "string option"
  so_typ :: "string option"
  so_extraHeaders :: "jsval dict"

definition signing_header :: "jwt_signer \<Rightarrow> string \<Rightarrow> jsval dict" where
  "signing_header signer typ =
     [(''alg'', JStr (signer_alg signer)), (''typ'', JStr typ), (''kid'', JStr (signer_kid signer))]"

definition signEntityStatement ::
  "jsval dict \<Rightarrow> jwt_signer \<Rightarrow> sign_options \<Rightarrow> (string, string) result" where
  "signEntityStatement payload' signer options =
     (case validateSigner signer of
        Inl e \<Rightarrow> Inl e
      | Inr _ \<Rightarrow>
        (let alg = (case so_alg options of Some a \<Rightarrow> a | None \<Rightarrow> signer_alg signer) in
         if alg \<notin> set SUPPORTED_ALGORITHMS then Inl (unsupportedSigning alg)
         else if alg \<noteq> signer_alg signer then
           Inl (''Signing algorithm mismatch: signer uses '' @ signer_alg signer @ '', requested '' @ alg)
         else
           (let typ = (case so_typ options of Some t \<Rightarrow> t | None \<Rightarrow> ENTITY_STATEMENT_TYP);
                h = foldl (\<lambda>h (k, v). AList.update k v h) (signing_header signer typ)
                      (so_extraHeaders options)
            in Inr (sign_jwt signer payload' h))))"

section \<open>Trust marks\<close>

type_synonym schema_issue = "string list \<times> string" \<comment> \<open>path, message\<close>

record tm_payload =
  tp_iss :: string
  tp_sub :: string
  tp_type :: string
  tp_iat :: number
  tp_exp :: "number option"
  tp_delegation :: "string option"

record tm_owner =
  owner_sub :: string
  owner_jwks :: jsval

record validated_delegation =
  vd_issuer :: string
  vd_subject :: string
  vd_type :: string
  vd_issuedAt :: number
  vd_expiresAt :: "number option"

record validated_trust_mark =
  vm_type :: string
  vm_issuer :: string
  vm_subject :: string
  vm_issuedAt :: number
  vm_expiresAt :: "number option"
  vm_delegation :: "validated_delegation option"

record tm_options =
  tmo_skew :: "number option"
  tmo_clock :: "number option"
  trustMarkOwners :: "tm_owner dict"
  expectedSubject :: string \<comment> \<open>empty when absent: the source tests it for truth\<close>

record tm_schemas =
  trustMarkPayloadSchema :: "jsval dict \<Rightarrow> (schema_issue list, tm_payload) result"
  trustMarkDelegationPayloadSchema :: "jsval dict \<Rightarrow> (schema_issue list, tm_payload) result"

definition TRUST_MARK_TYP :: string where
  "TRUST_MARK_TYP = ''trust-mark+jwt''"

definition TRUST_MARK_DELEGATION_TYP :: string where
  "TRUST_MARK_DELEGATION_TYP = ''trust-mark-delegation+jwt''"

definition nowSeconds :: "number \<Rightarrow> number option \<Rightarrow> number" where
  "nowSeconds sysnow clk = (case clk of Some t \<Rightarrow> t | None \<Rightarrow> sysnow)"

definition DEFAULT_DELEGATION_TTL_SECONDS :: number where
  "DEFAULT_DELEGATION_TTL_SECONDS = 86400"

definition delegation_payload :: "string \<Rightarrow> string \<Rightarrow> string \<Rightarrow> number \<Rightarrow> number \<Rightarrow> jsval dict" where
  "delegation_payload issuer subject trustMarkType now ttl =
     [(''iss'', JStr issuer), (''sub'', JStr subject), (''trust_mark_type'', JStr trustMarkType),
      (''iat'', JNum now), (''exp'', JNum (now + ttl))]"

definition signTrustMarkDelegation ::
  "number \<Rightarrow> string \<Rightarrow> string \<Rightarrow> string \<Rightarrow> jwt_signer \<Rightarrow> number option \<Rightarrow> number option \<Rightarrow> (string, string) result"
where
  "signTrustMarkDelegation sysnow issuer subject trustMarkType signer ttlSeconds clk =
     (let now = nowSeconds sysnow clk;
          ttl = (case ttlSeconds of Some t \<Rightarrow> t | None \<Rightarrow> DEFAULT_DELEGATION_TTL_SECONDS)
      in signEntityStatement (delegation_payload issuer subject trustMarkType now ttl) signer
           \<lparr>so_alg = None, so_typ = Some TRUST_MARK_DELEGATION_TYP, so_extraHeaders = []\<rparr>)"

definition tmError :: "string \<Rightarrow> fed_error" where
  "tmError d = mk_err ''ERR_TRUST_MARK_INVALID'' d"

definition describeSchemaIssues :: "schema_issue list \<Rightarrow> string" where
  "describeSchemaIssues issues =
     join_with ''; '' (map (\<lambda>(path, message).
       (if length path > 0 then join_with ''.'' path else ''payload'') @ '': '' @ message) issues)"

definition verify_opts :: "number \<Rightarrow> string \<Rightarrow> number option \<Rightarrow> verify_options" where
  "verify_opts skew typ clk = \<lparr>clockSkewSeconds = Some skew, clock = clk, expectedTyp = Some typ\<rparr>"

text \<open>The claim checks on a delegation once it is decoded and parsed.\<close>

definition check_delegation_claims ::
  "jose \<Rightarrow> string \<Rightarrow> tm_payload \<Rightarrow> string \<Rightarrow> string \<Rightarrow> tm_options \<Rightarrow> number \<Rightarrow> number \<Rightarrow>
   (fed_error, validated_delegation) result"
where
  "check_delegation_claims J delegationJwt dp trustMarkIssuer trustMarkType options now clockSkew =
     (if tp_sub dp \<noteq> trustMarkIssuer then
        Inl (tmError (''Delegation sub '' @ quoted (tp_sub dp) @ '' does not match trust mark issuer '' @
               quoted trustMarkIssuer))
      else if tp_type dp \<noteq> trustMarkType then
        Inl (tmError (''Delegation trust_mark_type '' @ quoted (tp_type dp) @ '' does not match '' @
               quoted trustMarkType))
      else
        (case map_of (trustMarkOwners options) trustMarkType of
           None \<Rightarrow> Inl (tmError (''No trust_mark_owners configured for type '' @ quoted trustMarkType))
         | Some owner \<Rightarrow>
             if tp_iss dp \<noteq> owner_sub owner then
               Inl (tmError (''Delegation iss '' @ quoted (tp_iss dp) @
                      '' does not match trust_mark_owners sub '' @ quoted (owner_sub owner)))
             else if tp_iat dp > now + clockSkew then
               Inl (tmError (''Delegation iat is in the future: '' @ join_element (JNum (tp_iat dp))))
             else
               (case verifyEntityStatement J delegationJwt (owner_jwks owner)
                       (verify_opts clockSkew TRUST_MARK_DELEGATION_TYP (tmo_clock options)) of
                  Inl e \<Rightarrow> Inl (tmError (''Delegation signature verification failed: '' @ description e))
                | Inr _ \<Rightarrow>
                    if (case tp_exp dp of None \<Rightarrow> False | Some dExp \<Rightarrow> dExp < now - clockSkew) then
                      Inl (tmError (''Delegation has expired: exp='' @
                             join_element (case tp_exp dp of None \<Rightarrow> JUndef | Some e \<Rightarrow> JNum e)))
                    else Inr \<lparr>vd_issuer = tp_iss dp, vd_subject = tp_sub dp, vd_type = tp_type dp,
                              vd_issuedAt = tp_iat dp, vd_expiresAt = tp_exp dp\<rparr>)))"

definition validateDelegation ::
  "jose \<Rightarrow> tm_schemas \<Rightarrow> string \<Rightarrow> string \<Rightarrow> string \<Rightarrow> tm_options \<Rightarrow> number \<Rightarrow> number \<Rightarrow>
   (fed_error, validated_delegation) result"
where
  "validateDelegation J S delegationJwt trustMarkIssuer trustMarkType options now clockSkew =
     (case decodeEntityStatement J delegationJwt of
        Inl e \<Rightarrow> Inl (tmError (''Failed to decode delegation JWT: '' @ description e))
      | Inr decoded \<Rightarrow>
        (let h = header decoded in
         if pget h ''typ'' \<noteq> JStr TRUST_MARK_DELEGATION_TYP then
           Inl (tmError (''Invalid delegation typ: expected '' @ quoted TRUST_MARK_DELEGATION_TYP @ '', got '' @
                  quoted (js_string (pget h ''typ''))))
         else if \<not> truthy (pget h ''kid'') then
           Inl (tmError ''Trust Mark delegation JWT must include kid header parameter'')
         else if \<not> isValidAlgorithm (pget h ''alg'') then
           Inl (tmError (''Unsupported delegation algorithm: '' @ quoted (js_string (pget h ''alg''))))
         else
           (case trustMarkDelegationPayloadSchema S (payload decoded) of
              Inl issues \<Rightarrow>
                Inl (tmError (''Invalid Trust Mark delegation payload: '' @ describeSchemaIssues issues))
            | Inr dp \<Rightarrow>
                check_delegation_claims J delegationJwt dp trustMarkIssuer trustMarkType options now clockSkew)))"

text \<open>The checks of a trust mark after its signature: times, then the delegation.\<close>

definition finish_trust_mark ::
  "jose \<Rightarrow> tm_schemas \<Rightarrow> tm_payload \<Rightarrow> tm_options \<Rightarrow> number \<Rightarrow> number \<Rightarrow> (fed_error, validated_trust_mark) result"
where
  "finish_trust_mark J S p options now clockSkew =
     (if tp_iat p > now + clockSkew then
        Inl (tmError (''iat is in the future: '' @ join_element (JNum (tp_iat p))))
      else if (case tp_exp p of None \<Rightarrow> False | Some e \<Rightarrow> e < now - clockSkew) then
        Inl (tmError (''Trust mark has expired: exp='' @
               join_element (case tp_exp p of None \<Rightarrow> JUndef | Some e \<Rightarrow> JNum e)))
      else if map_of (trustMarkOwners options) (tp_type p) \<noteq> None \<and>
              (tp_delegation p = None \<or> tp_delegation p = Some []) then
        Inl (tmError (''Trust mark type '' @ quoted (tp_type p) @
               '' requires delegation (in trust_mark_owners) but none provided''))
      else
        (case (case tp_delegation p of
                 None \<Rightarrow> Inr None
               | Some d \<Rightarrow>
                   if d = [] then Inr None
                   else (case validateDelegation J S d (tp_iss p) (tp_type p) options now clockSkew of
                           Inl e \<Rightarrow> Inl e | Inr v \<Rightarrow> Inr (Some v))) of
           Inl e \<Rightarrow> Inl e
         | Inr delegation \<Rightarrow>
             Inr \<lparr>vm_type = tp_type p, vm_issuer = tp_iss p, vm_subject = tp_sub p, vm_issuedAt = tp_iat p,
                  vm_expiresAt = tp_exp p, vm_delegation = delegation\<rparr>))"

definition validateTrustMark ::
  "jose \<Rightarrow> tm_schemas \<Rightarrow> number \<Rightarrow> string \<Rightarrow> string list dict \<Rightarrow> jsval \<Rightarrow> tm_options \<Rightarrow>
   (fed_error, validated_trust_mark) result"
where
  "validateTrustMark J S sysnow trustMarkJwt trustMarkIssuers issuerJwks options =
     (let clockSkew = skew_of (tmo_skew options); now = nowSeconds sysnow (tmo_clock options) in
      case decodeEntityStatement J trustMarkJwt of
        Inl e \<Rightarrow> Inl (tmError (''Failed to decode trust mark JWT: '' @ description e))
      | Inr decoded \<Rightarrow>
        (let h = header decoded in
         if pget h ''typ'' \<noteq> JStr TRUST_MARK_TYP then
           Inl (tmError (''Invalid typ header: expected '' @ quoted TRUST_MARK_TYP @ '', got '' @
                  quoted (js_string (pget h ''typ''))))
         else if \<not> isValidAlgorithm (pget h ''alg'') then
           Inl (tmError (''Unsupported algorithm: '' @ quoted (js_string (pget h ''alg''))))
         else if \<not> truthy (pget h ''kid'') then
           Inl (tmError ''Trust Mark JWT must include kid header parameter'')
         else
           (case trustMarkPayloadSchema S (payload decoded) of
              Inl issues \<Rightarrow> Inl (tmError (''Invalid Trust Mark payload: '' @ describeSchemaIssues issues))
            | Inr p \<Rightarrow>
                if expectedSubject options \<noteq> [] \<and> tp_sub p \<noteq> expectedSubject options then
                  Inl (tmError ''Trust mark sub does not match expected entity'')
                else
                  (case map_of trustMarkIssuers (tp_type p) of
                     None \<Rightarrow> Inl (tmError ''Trust mark type not recognized'')
                   | Some allowedIssuers \<Rightarrow>
                       if length allowedIssuers > 0 \<and> tp_iss p \<notin> set allowedIssuers then
                         Inl (tmError ''Issuer is not authorized for this trust mark type'')
                       else
                         (case verifyEntityStatement J trustMarkJwt issuerJwks
                                 (verify_opts clockSkew TRUST_MARK_TYP (tmo_clock options)) of
                            Inl e \<Rightarrow> Inl (tmError (''Signature verification failed: '' @ description e))
                          | Inr _ \<Rightarrow> finish_trust_mark J S p options now clockSkew)))))"

section \<open>Properties\<close>

lemma check_delegation_claims_Inr:
  assumes "check_delegation_claims J jwt dp iss ty options now skew = Inr d"
  obtains owner st where "map_of (trustMarkOwners options) ty = Some owner"
    and "vd_issuer d = owner_sub owner" and "vd_subject d = iss" and "vd_type d = ty"
    and "vd_issuedAt d \<le> now + skew" and "\<forall>e. vd_expiresAt d = Some e \<longrightarrow> e \<ge> now - skew"
    and "verifyEntityStatement J jwt (owner_jwks owner)
           (verify_opts skew TRUST_MARK_DELEGATION_TYP (tmo_clock options)) = Inr st"
  using assms
  by (auto simp: check_delegation_claims_def not_less
      split: if_splits option.splits sum.splits)

lemma validateDelegation_Inr:
  assumes "validateDelegation J S jwt iss ty options now skew = Inr d"
  shows "\<exists>dp. check_delegation_claims J jwt dp iss ty options now skew = Inr d"
  using assms by (auto simp: validateDelegation_def Let_def split: sum.splits if_splits)

lemma finish_trust_mark_Inr:
  assumes "finish_trust_mark J S p options now skew = Inr v"
  shows "vm_type v = tp_type p" and "vm_issuer v = tp_iss p" and "vm_subject v = tp_sub p"
    and "vm_issuedAt v = tp_iat p" and "vm_issuedAt v \<le> now + skew"
    and "\<forall>e. vm_expiresAt v = Some e \<longrightarrow> e \<ge> now - skew"
    and "map_of (trustMarkOwners options) (vm_type v) \<noteq> None \<Longrightarrow> vm_delegation v \<noteq> None"
    and "vm_delegation v = Some d \<Longrightarrow>
      \<exists>jwt. validateDelegation J S jwt (vm_issuer v) (vm_type v) options now skew = Inr d"
proof -
  have "tp_iat p \<le> now + skew" "\<forall>e. tp_exp p = Some e \<longrightarrow> e \<ge> now - skew"
    and owner: "map_of (trustMarkOwners options) (tp_type p) \<noteq> None \<Longrightarrow>
      tp_delegation p \<noteq> None \<and> tp_delegation p \<noteq> Some []"
    using assms by (auto simp: finish_trust_mark_def not_less split: if_splits option.splits)
  moreover obtain del where del: "(case tp_delegation p of
                 None \<Rightarrow> Inr None
               | Some d \<Rightarrow>
                   if d = [] then Inr None
                   else (case validateDelegation J S d (tp_iss p) (tp_type p) options now skew of
                           Inl e \<Rightarrow> Inl e | Inr v \<Rightarrow> Inr (Some v))) = Inr del"
    and v: "v = \<lparr>vm_type = tp_type p, vm_issuer = tp_iss p, vm_subject = tp_sub p, vm_issuedAt = tp_iat p,
                  vm_expiresAt = tp_exp p, vm_delegation = del\<rparr>"
    using assms unfolding finish_trust_mark_def by (auto split: if_splits sum.splits)
  ultimately show "vm_type v = tp_type p" "vm_issuer v = tp_iss p" "vm_subject v = tp_sub p"
    "vm_issuedAt v = tp_iat p" "vm_issuedAt v \<le> now + skew" "\<forall>e. vm_expiresAt v = Some e \<longrightarrow> e \<ge> now - skew"
    by simp_all
  show "map_of (trustMarkOwners options) (vm_type v) \<noteq> None \<Longrightarrow> vm_delegation v \<noteq> None"
    using owner del v by (auto split: option.splits if_splits sum.splits)
  show "vm_delegation v = Some d \<Longrightarrow>
      \<exists>jwt. validateDelegation J S jwt (vm_issuer v) (vm_type v) options now skew = Inr d"
    using del v by (auto split: option.splits if_splits sum.splits)
qed

text \<open>
  C34: A trust mark that validates is authorised. Its type is listed by the trust anchor and its
  issuer is among the listed issuers (any issuer, if the list is empty); it is about the expected
  entity; the given issuer keys verify it; it was not issued in the future and has not expired, up to
  the clock skew. If the trust anchor names an owner of the type, the mark carries a delegation from
  exactly that owner to exactly that issuer for that type, signed with the owner's keys and not
  expired; and a delegation is never accepted for a type without an owner.
\<close>
theorem validateTrustMark_sound:
  assumes "validateTrustMark J S sysnow jwt issuers jwks options = Inr v"
  shows "let skew = skew_of (tmo_skew options); now = nowSeconds sysnow (tmo_clock options) in
    (\<exists>allowed. map_of issuers (vm_type v) = Some allowed \<and> (allowed = [] \<or> vm_issuer v \<in> set allowed)) \<and>
    (expectedSubject options = [] \<or> vm_subject v = expectedSubject options) \<and>
    (\<exists>st. verifyEntityStatement J jwt jwks (verify_opts skew TRUST_MARK_TYP (tmo_clock options)) = Inr st) \<and>
    vm_issuedAt v \<le> now + skew \<and> (\<forall>e. vm_expiresAt v = Some e \<longrightarrow> now - skew \<le> e) \<and>
    (map_of (trustMarkOwners options) (vm_type v) \<noteq> None \<longrightarrow> vm_delegation v \<noteq> None) \<and>
    (\<forall>d. vm_delegation v = Some d \<longrightarrow>
       (\<exists>owner djwt st. map_of (trustMarkOwners options) (vm_type v) = Some owner \<and>
          vd_issuer d = owner_sub owner \<and> vd_subject d = vm_issuer v \<and> vd_type d = vm_type v \<and>
          (\<forall>e. vd_expiresAt d = Some e \<longrightarrow> now - skew \<le> e) \<and>
          verifyEntityStatement J djwt (owner_jwks owner)
            (verify_opts skew TRUST_MARK_DELEGATION_TYP (tmo_clock options)) = Inr st))"
proof -
  let ?skew = "skew_of (tmo_skew options)" and ?now = "nowSeconds sysnow (tmo_clock options)"
  from assms obtain p allowed st where p: "expectedSubject options = [] \<or> tp_sub p = expectedSubject options"
    "map_of issuers (tp_type p) = Some allowed" "allowed = [] \<or> tp_iss p \<in> set allowed"
    and st: "verifyEntityStatement J jwt jwks (verify_opts ?skew TRUST_MARK_TYP (tmo_clock options)) = Inr st"
    and fin: "finish_trust_mark J S p options ?now ?skew = Inr v"
    by (auto simp: validateTrustMark_def Let_def split: sum.splits if_splits option.splits)
  note f = finish_trust_mark_Inr [OF fin]
  have "\<exists>owner djwt st. map_of (trustMarkOwners options) (vm_type v) = Some owner \<and>
          vd_issuer d = owner_sub owner \<and> vd_subject d = vm_issuer v \<and> vd_type d = vm_type v \<and>
          (\<forall>e. vd_expiresAt d = Some e \<longrightarrow> ?now - ?skew \<le> e) \<and>
          verifyEntityStatement J djwt (owner_jwks owner)
            (verify_opts ?skew TRUST_MARK_DELEGATION_TYP (tmo_clock options)) = Inr st"
    if del: "vm_delegation v = Some d" for d
  proof -
    obtain djwt dp where "check_delegation_claims J djwt dp (vm_issuer v) (vm_type v) options ?now ?skew = Inr d"
      using f(8) [OF del] validateDelegation_Inr by blast
    then show ?thesis by (rule check_delegation_claims_Inr) blast
  qed
  with p st f(1-7) show ?thesis unfolding Let_def by auto
qed

definition example_tm_payload :: tm_payload where
  "example_tm_payload = \<lparr>tp_iss = ''https://tmi'', tp_sub = ''https://rp'', tp_type = ''https://tm'', tp_iat = 10,
     tp_exp = Some 100, tp_delegation = None\<rparr>"

definition example_schemas :: tm_schemas where
  "example_schemas = \<lparr>trustMarkPayloadSchema = (\<lambda>_. Inr example_tm_payload),
     trustMarkDelegationPayloadSchema = (\<lambda>_. Inr example_tm_payload)\<rparr>"

definition example_tm_jose :: jose where
  "example_tm_jose = \<lparr>
     jose_header = (\<lambda>t. Inr [(''typ'', JStr TRUST_MARK_TYP), (''alg'', JStr ''ES256''), (''kid'', JStr ''k1'')]),
     jose_payload = (\<lambda>t. Inr []),
     jose_verify = (\<lambda>t k a s c. if k = example_key then Inr [] else Inl ''bad signature'')\<rparr>"

definition example_tm_options :: tm_options where
  "example_tm_options = \<lparr>tmo_skew = None, tmo_clock = Some 50, trustMarkOwners = [], expectedSubject = ''https://rp''\<rparr>"

lemma example_trust_mark:
  "validateTrustMark example_tm_jose example_schemas 0 ''t'' [(''https://tm'', [''https://tmi''])] example_jwks example_tm_options =
     Inr \<lparr>vm_type = ''https://tm'', vm_issuer = ''https://tmi'', vm_subject = ''https://rp'', vm_issuedAt = 10,
          vm_expiresAt = Some 100, vm_delegation = None\<rparr>"
  by code_simp

theorem validateTrustMark_sound_witness:
  "\<exists>allowed. map_of [(''https://tm'', [''https://tmi''])] ''https://tm'' = Some allowed \<and>
     (allowed = [] \<or> ''https://tmi'' \<in> set allowed)"
  using validateTrustMark_sound [OF example_trust_mark] by (simp add: Let_def)

lemma sign_Inr:
  assumes "signEntityStatement p signer \<lparr>so_alg = None, so_typ = Some t, so_extraHeaders = []\<rparr> = Inr jwt"
  shows "jwt = sign_jwt signer p (signing_header signer t)"
    and "signer_kid signer \<noteq> []" and "signer_alg signer \<in> set SUPPORTED_ALGORITHMS"
  using assms by (auto simp: signEntityStatement_def validateSigner_def Let_def split: if_splits sum.splits)

lemma supported_not_none: "a \<in> set SUPPORTED_ALGORITHMS \<Longrightarrow> a \<noteq> ''none'' \<and> a \<noteq> []"
  by (auto simp: SUPPORTED_ALGORITHMS_def)

lemma signing_header_sel [simp]:
  "pget (signing_header signer t) ''alg'' = JStr (signer_alg signer)"
  "pget (signing_header signer t) ''typ'' = JStr t"
  "pget (signing_header signer t) ''kid'' = JStr (signer_kid signer)"
  by (simp_all add: signing_header_def pget_def)

text \<open>What a signer signs, anyone with its public key under the same key id verifies.\<close>

lemma signed_verifies:
  assumes "signer_kid signer \<noteq> []" and "signer_alg signer \<in> set SUPPORTED_ALGORITHMS"
    and "jose_header J jwt = Inr (signing_header signer t)"
    and "jose_verify J jwt key (JStr (signer_alg signer)) skew clk = Inr p"
    and "key \<in> set (jwks_keys jwks)" and "mget key ''kid'' = JStr (signer_kid signer)"
    and "mget key ''use'' = JStr ''sig''" and "mget key ''alg'' = JStr (signer_alg signer)"
    and "distinct (map (\<lambda>k. mget k ''kid'') (filter may_sign (jwks_keys jwks)))"
  shows "verifyEntityStatement J jwt jwks (verify_opts skew t clk) = Inr \<lparr>header = signing_header signer t, payload = p\<rparr>"
proof -
  have "suits (signing_header signer t) key"
    using assms by (simp add: suits_def may_sign_def)
  then have "selectVerificationKey (signing_header signer t) jwks = Some key"
    using assms by (intro select_finds) auto
  with assms supported_not_none [OF assms(2)] show ?thesis
    by (simp add: verifyEntityStatement_def decodeProtectedHeader_def verify_opts_def isValidAlgorithm_def skew_of_def)
qed

text \<open>
  Round trip: a delegation an owner signs with \<open>signTrustMarkDelegation\<close> is accepted by
  \<open>validateDelegation\<close> for the issuer and type it names, from the moment of issue until it expires
  (both up to the skew), by anyone who has the owner's public key under the signer's key id, provided
  the jose package decodes and verifies what the signer signed and the schema accepts the payload.
\<close>
lemma signed_delegation_validates:
  assumes i: "i = nowSeconds sysnow clk" and p: "p = delegation_payload issuer subject ty i ttl"
    and signed: "signTrustMarkDelegation sysnow issuer subject ty signer (Some ttl) clk = Inr jwt"
    and jose_decodes: "jose_header J jwt = Inr (signing_header signer TRUST_MARK_DELEGATION_TYP)" "jose_payload J jwt = Inr p"
    and jose_verifies: "jose_verify J jwt key (JStr (signer_alg signer)) skew (tmo_clock options) = Inr p"
    and owner: "map_of (trustMarkOwners options) ty = Some owner" "owner_sub owner = issuer"
    and key: "key \<in> set (jwks_keys (owner_jwks owner))" "mget key ''kid'' = JStr (signer_kid signer)"
      "mget key ''use'' = JStr ''sig''" "mget key ''alg'' = JStr (signer_alg signer)"
    and kids: "distinct (map (\<lambda>k. mget k ''kid'') (filter may_sign (jwks_keys (owner_jwks owner))))"
    and schema_parses: "trustMarkDelegationPayloadSchema S p =
        Inr \<lparr>tp_iss = issuer, tp_sub = subject, tp_type = ty, tp_iat = i, tp_exp = Some (i + ttl), tp_delegation = None\<rparr>"
    and time: "i \<le> now + skew" "now - skew \<le> i + ttl"
  shows "validateDelegation J S jwt subject ty options now skew =
           Inr \<lparr>vd_issuer = issuer, vd_subject = subject, vd_type = ty, vd_issuedAt = i, vd_expiresAt = Some (i + ttl)\<rparr>"
proof -
  have run: "signEntityStatement p signer
      \<lparr>so_alg = None, so_typ = Some TRUST_MARK_DELEGATION_TYP, so_extraHeaders = []\<rparr> = Inr jwt"
    using signed by (simp add: signTrustMarkDelegation_def Let_def i p)
  note s = sign_Inr [OF run]
  have "verifyEntityStatement J jwt (owner_jwks owner) (verify_opts skew TRUST_MARK_DELEGATION_TYP (tmo_clock options)) =
      Inr \<lparr>header = signing_header signer TRUST_MARK_DELEGATION_TYP, payload = p\<rparr>"
    using s(2,3) jose_decodes(1) jose_verifies key kids by (rule signed_verifies)
  with s(2,3) supported_not_none [OF s(3)] jose_decodes schema_parses owner time show ?thesis
    by (simp add: validateDelegation_def decodeEntityStatement_def check_delegation_claims_def
        isValidAlgorithm_def not_less)
qed

definition example_signer :: jwt_signer where
  "example_signer = \<lparr>signer_kid = ''k1'', signer_alg = ''ES256'', sign_jwt = (\<lambda>_ _. ''token'')\<rparr>"

definition example_owner_key :: jsval where
  "example_owner_key = JObj [(''kid'', JStr ''k1''), (''use'', JStr ''sig''), (''alg'', JStr ''ES256'')]"

definition example_delegation_jose :: jose where
  "example_delegation_jose = \<lparr>
     jose_header = (\<lambda>_. Inr (signing_header example_signer TRUST_MARK_DELEGATION_TYP)),
     jose_payload = (\<lambda>_. Inr (delegation_payload ''https://own'' ''https://tmi'' ''https://tm'' 5 100)),
     jose_verify = (\<lambda>_ k _ _ _. if k = example_owner_key
        then Inr (delegation_payload ''https://own'' ''https://tmi'' ''https://tm'' 5 100) else Inl ''bad signature'')\<rparr>"

definition example_delegation :: tm_payload where
  "example_delegation = \<lparr>tp_iss = ''https://own'', tp_sub = ''https://tmi'', tp_type = ''https://tm'', tp_iat = 5,
     tp_exp = Some (5 + 100), tp_delegation = None\<rparr>"

definition example_owner_options :: tm_options where
  "example_owner_options = \<lparr>tmo_skew = None, tmo_clock = Some 50, trustMarkOwners = [(''https://tm'',
      \<lparr>owner_sub = ''https://own'', owner_jwks = JObj [(''keys'', JArr [example_owner_key])]\<rparr>)], expectedSubject = []\<rparr>"

lemma signed_delegation_validates_witness:
  "validateDelegation example_delegation_jose
     \<lparr>trustMarkPayloadSchema = (\<lambda>_. Inl []), trustMarkDelegationPayloadSchema = (\<lambda>_. Inr example_delegation)\<rparr>
     ''token'' ''https://tmi'' ''https://tm'' example_owner_options 50 60 =
   Inr \<lparr>vd_issuer = ''https://own'', vd_subject = ''https://tmi'', vd_type = ''https://tm'', vd_issuedAt = 5, vd_expiresAt = Some (5 + 100)\<rparr>"
proof -
  have signed: "signTrustMarkDelegation 5 ''https://own'' ''https://tmi'' ''https://tm'' example_signer (Some 100) None = Inr ''token''"
    by code_simp
  show ?thesis
    using signed_delegation_validates [OF refl refl signed, where J = example_delegation_jose and key = example_owner_key
        and skew = 60 and options = example_owner_options and now = 50
        and owner = "\<lparr>owner_sub = ''https://own'', owner_jwks = JObj [(''keys'', JArr [example_owner_key])]\<rparr>"
        and S = "\<lparr>trustMarkPayloadSchema = (\<lambda>_. Inl []), trustMarkDelegationPayloadSchema = (\<lambda>_. Inr example_delegation)\<rparr>"]
    by (simp add: example_delegation_jose_def example_owner_options_def example_owner_key_def example_signer_def
        jwks_keys_def pget_def nowSeconds_def may_sign_def example_delegation_def)
qed
end
