(* ===== verification/Constraints.thy ===== *)
theory Constraints
  imports Policy_Apply
begin

text \<open>
  packages/core/src/constraints/index.ts: the constraints a superior puts on the chain below it
  (path length, host names, allowed entity types), and packages/core/src/metadata-values.ts, the
  search for forbidden \<open>null\<close>s in metadata.

  \<open>new URL(id).hostname\<close> is the parameter \<open>hostname\<close>; the identifiers it is called on have passed
  the entity identifier schema, on which the constructor does not throw. The lemmas characterise
  when a constraint accepts a chain, show that filtering by entity type is one intersection whatever
  the order of the superiors, and that the search reports exactly the forbidden paths.
\<close>

section \<open>Data\<close>

record naming_constraints =
  permitted :: "string list option"
  excluded :: "string list option"

record trust_chain_constraints =
  max_path_length :: "number option"
  naming :: "naming_constraints option"
  allowed_entity_types :: "string list option"

fun str_of :: "jsval \<Rightarrow> string" where
  "str_of (JStr s) = s" | "str_of _ = []"

definition string_list :: "jsval \<Rightarrow> string list option" where
  "string_list v = (case v of JArr xs \<Rightarrow> Some (map str_of xs) | _ \<Rightarrow> None)"

text \<open>The cast of a claim that has passed TrustChainConstraintsSchema to its static type.\<close>

definition read_constraints :: "jsval \<Rightarrow> trust_chain_constraints" where
  "read_constraints c = \<lparr>
     max_path_length = (case mget c ''max_path_length'' of JNum n \<Rightarrow> Some n | _ \<Rightarrow> None),
     naming = (if is_obj (mget c ''naming_constraints'') then Some \<lparr>
         permitted = string_list (mget (mget c ''naming_constraints'') ''permitted''),
         excluded = string_list (mget (mget c ''naming_constraints'') ''excluded'')\<rparr> else None),
     allowed_entity_types = string_list (mget c ''allowed_entity_types'')\<rparr>"

section \<open>Constraints\<close>

definition checkMaxPathLength :: "number \<Rightarrow> nat \<Rightarrow> nat \<Rightarrow> bool" where
  "checkMaxPathLength maxPathLength constrainerPosition chainLength \<longleftrightarrow>
     of_nat constrainerPosition - 1 \<le> maxPathLength"

definition matchesDomainPattern :: "string \<Rightarrow> string \<Rightarrow> bool" where
  "matchesDomainPattern hostname pattern =
     (if starts_with pattern ''.'' then ends_with hostname pattern else hostname = pattern)"

definition checkNamingConstraints ::
  "(string \<Rightarrow> string) \<Rightarrow> naming_constraints \<Rightarrow> string \<Rightarrow> bool" where
  "checkNamingConstraints hostname nc entityId =
     (let h = hostname entityId in
      if (case excluded nc of None \<Rightarrow> False | Some ps \<Rightarrow> list_ex (matchesDomainPattern h) ps) then False
      else (case permitted nc of None \<Rightarrow> True | Some ps \<Rightarrow> list_ex (matchesDomainPattern h) ps))"

definition applyAllowedEntityTypes :: "string list \<Rightarrow> metadata \<Rightarrow> metadata" where
  "applyAllowedEntityTypes allowedEntityTypes md =
     filter (\<lambda>(key, value). key \<in> set allowedEntityTypes \<or> key = ''federation_entity'') md"

definition constraintViolation :: "string \<Rightarrow> fed_error" where
  "constraintViolation d = mk_err ''ERR_CONSTRAINT_VIOLATION'' d"

definition check_naming_at ::
  "(string \<Rightarrow> string) \<Rightarrow> naming_constraints \<Rightarrow> parsed_statement list \<Rightarrow> nat \<Rightarrow> unit \<Rightarrow> (fed_error, unit) result"
where
  "check_naming_at hostname nc chain i _ =
     (let entityId = str_of (pget (payload (chain ! i)) ''sub'') in
      if \<not> checkNamingConstraints hostname nc entityId then
        Inl (constraintViolation (''naming_constraints violated by entity '' @ quoted entityId @
               '' at position '' @ show_nat i))
      else Inr ())"

definition checkConstraints ::
  "(string \<Rightarrow> string) \<Rightarrow> trust_chain_constraints \<Rightarrow> nat \<Rightarrow> parsed_statement list \<Rightarrow> (fed_error, unit) result"
where
  "checkConstraints hostname constraints position chain =
     (case (case max_path_length constraints of
              None \<Rightarrow> Inr ()
            | Some m \<Rightarrow>
                if \<not> checkMaxPathLength m position (length chain) then
                  Inl (constraintViolation (''max_path_length constraint violated: '' @
                         join_element (JNum (of_nat position - 1)) @ '' intermediates exceed max '' @
                         join_element (JNum m)))
                else Inr ()) of
        Inl e \<Rightarrow> Inl e
      | Inr _ \<Rightarrow>
        (case naming constraints of
           None \<Rightarrow> Inr ()
         | Some nc \<Rightarrow> for_each (check_naming_at hostname nc chain) [0..<position] ()))"

section \<open>Forbidden nulls\<close>

datatype path_item = Key string | Idx nat

fun is_key :: "path_item \<Rightarrow> bool" where
  "is_key (Key _) = True" | "is_key (Idx _) = False"

definition isWalletClaimPath :: "path_item list \<Rightarrow> bool" where
  "isWalletClaimPath p \<longleftrightarrow>
     (length p = 7 \<and> p ! 0 = Key ''openid_credential_issuer'' \<and>
      p ! 1 = Key ''credential_configurations_supported'' \<and> is_key (p ! 2) \<and>
      p ! 3 = Key ''credential_metadata'' \<and> p ! 4 = Key ''claims'' \<and> \<not> is_key (p ! 5) \<and>
      p ! 6 = Key ''path'') \<or>
     (length p = 8 \<and> p ! 0 = Key ''openid_credential_verifier'' \<and> p ! 1 = Key ''dcql_queries'' \<and>
      \<not> is_key (p ! 2) \<and> p ! 3 = Key ''credentials'' \<and> \<not> is_key (p ! 4) \<and> p ! 5 = Key ''claims'' \<and>
      \<not> is_key (p ! 6) \<and> p ! 7 = Key ''path'')"

definition claim_path_component :: "jsval \<Rightarrow> bool" where
  "claim_path_component c \<longleftrightarrow>
     c = JNull \<or> is_str c \<or> (case c of JNum n \<Rightarrow> is_integer n | _ \<Rightarrow> False)"

text \<open>The inner function \<open>walk\<close>; it appends the paths it finds, in the order of the traversal.\<close>

function walk_null :: "jsval \<Rightarrow> path_item list \<Rightarrow> path_item list list" where
  "walk_null value path =
     (case value of
        JNull \<Rightarrow> [path]
      | JArr xs \<Rightarrow>
          if isWalletClaimPath path \<and> length xs > 0 \<and> list_all claim_path_component xs then []
          else concat (map (\<lambda>(i, x). walk_null x (path @ [Idx i])) (enumerate 0 xs))
      | JObj kvs \<Rightarrow> concat (map (\<lambda>(k, x). walk_null x (path @ [Key k])) kvs)
      | _ \<Rightarrow> [])"
  by pat_completeness auto
termination
  by (relation "measure (\<lambda>(v, p). size v)")
     (auto simp: in_set_enumerate_eq dest!: size_obj_elem dest: size_arr_elem [OF nth_mem])

declare walk_null.simps [simp del]

definition findInvalidMetadataNullPaths :: "jsval \<Rightarrow> path_item list list" where
  "findInvalidMetadataNullPaths md = walk_null md []"

section \<open>What the searches find\<close>

text \<open>The child of a value at one step of a path.\<close>

fun child :: "jsval \<Rightarrow> path_item \<Rightarrow> jsval option" where
  "child (JArr xs) (Idx i) = (if i < length xs then Some (xs ! i) else None)"
| "child (JObj kvs) (Key k) = map_of kvs k"
| "child _ _ = None"

text \<open>An array whose nulls are the wildcards of a wallet claim path.\<close>

definition wildcard_array :: "path_item list \<Rightarrow> jsval \<Rightarrow> bool" where
  "wildcard_array path v \<longleftrightarrow>
     isWalletClaimPath path \<and> is_arr v \<and> items v \<noteq> [] \<and> list_all claim_path_component (items v)"

text \<open>\<open>forbidden_null path v p\<close>: below \<open>v\<close>, which stands at \<open>path\<close>, the steps \<open>p\<close> lead to a null
  without entering a wildcard array.\<close>

fun forbidden_null :: "path_item list \<Rightarrow> jsval \<Rightarrow> path_item list \<Rightarrow> bool" where
  "forbidden_null path v [] \<longleftrightarrow> v = JNull"
| "forbidden_null path v (s # p) \<longleftrightarrow>
     \<not> wildcard_array path v \<and> (\<exists>c. child v s = Some c \<and> forbidden_null (path @ [s]) c p)"

lemma walk_null_simps:
  "walk_null JNull path = [path]"
  "walk_null (JArr xs) path =
     (if wildcard_array path (JArr xs) then []
      else concat (map (\<lambda>(i, x). walk_null x (path @ [Idx i])) (enumerate 0 xs)))"
  "walk_null (JObj kvs) path = concat (map (\<lambda>(k, x). walk_null x (path @ [Key k])) kvs)"
  "walk_null (JStr s) path = []" "walk_null (JNum n) path = []" "walk_null (JBool b) path = []"
  "walk_null JUndef path = []"
  by (subst walk_null.simps; simp add: wildcard_array_def)+

lemma wildcard_not_arr [simp]: "\<not> is_arr v \<Longrightarrow> \<not> wildcard_array path v"
  by (simp add: wildcard_array_def)

lemma walk_null_forbidden:
  "plain v \<Longrightarrow> set (walk_null v path) = {path @ p | p. forbidden_null path v p}"
proof (induction v arbitrary: path rule: measure_induct_rule [where f = size])
  case (less v)
  show ?case
  proof (cases v)
    case JNull
    have "forbidden_null path JNull p \<longleftrightarrow> p = []" for p by (cases p) auto
    with JNull show ?thesis by (simp add: walk_null_simps)
  next
    case (JArr xs)
    have fb: "forbidden_null path v p \<longleftrightarrow>
        \<not> wildcard_array path v \<and> (\<exists>i q. p = Idx i # q \<and> i < length xs \<and> forbidden_null (path @ [Idx i]) (xs ! i) q)" for p
      unfolding JArr by (cases p; cases "hd p") (auto split: if_splits)
    have IH: "set (walk_null (xs ! i) (path @ [Idx i])) = {(path @ [Idx i]) @ p | p. forbidden_null (path @ [Idx i]) (xs ! i) p}"
      if "i < length xs" for i
      using less.IH [of "xs ! i"] less.prems that size_arr_elem [OF nth_mem [OF that]]
      by (simp add: JArr list_all_length)
    show ?thesis
    proof (cases "wildcard_array path v")
      case True
      with fb show ?thesis by (simp add: JArr walk_null_simps)
    next
      case False
      then have "set (walk_null v path) = (\<Union>i < length xs. set (walk_null (xs ! i) (path @ [Idx i])))"
        by (force simp: JArr walk_null_simps in_set_enumerate_eq)
      also have "\<dots> = {path @ p | p. forbidden_null path v p}"
        using IH False by (auto simp: fb)
      finally show ?thesis .
    qed
  next
    case (JObj kvs)
    have dist: "distinct (map fst kvs)" using less.prems JObj by simp
    have fb: "forbidden_null path v p \<longleftrightarrow>
        (\<exists>k x q. p = Key k # q \<and> (k, x) \<in> set kvs \<and> forbidden_null (path @ [Key k]) x q)" for p
      unfolding JObj using dist by (cases p; cases "hd p") auto
    have IH: "set (walk_null x (path @ [Key k])) = {(path @ [Key k]) @ p | p. forbidden_null (path @ [Key k]) x p}"
      if "(k, x) \<in> set kvs" for k x
      using less.IH [of x] less.prems that size_obj_elem [OF that] by (auto simp: JObj list_all_iff)
    have "set (walk_null v path) = (\<Union>(k, x) \<in> set kvs. set (walk_null x (path @ [Key k])))"
      by (auto simp: JObj walk_null_simps)
    also have "\<dots> = (\<Union>(k, x) \<in> set kvs. {(path @ [Key k]) @ p | p. forbidden_null (path @ [Key k]) x p})"
      using IH by auto
    also have "\<dots> = {path @ p | p. forbidden_null path v p}"
      by (auto simp: fb)
    finally show ?thesis .
  qed (auto simp: walk_null_simps elim: forbidden_null.elims)
qed

lemma for_each_unit_iff:
  "for_each f xs () = Inr () \<longleftrightarrow> (\<forall>x \<in> set xs. f x () = Inr ())"
proof (induction xs)
  case (Cons x xs)
  then show ?case by (cases "f x ()") (auto split: sum.splits)
qed simp

section \<open>Properties\<close>

text \<open>
  A statement's constraints accept a chain exactly when at most \<open>max_path_length\<close>
  intermediates stand between the constrainer and the leaf, and the host name of every entity below
  the constrainer matches no excluded pattern and, if there is a permitted list, some pattern of it.
\<close>
lemma checkConstraints_iff:
  "checkConstraints hostname c position chain = Inr () \<longleftrightarrow>
     (\<forall>m. max_path_length c = Some m \<longrightarrow> of_nat position \<le> m + 1) \<and>
     (\<forall>nc. naming c = Some nc \<longrightarrow> (\<forall>i < position.
        let h = hostname (str_of (pget (payload (chain ! i)) ''sub'')) in
        (\<forall>ps. excluded nc = Some ps \<longrightarrow> (\<forall>p \<in> set ps. \<not> matchesDomainPattern h p)) \<and>
        (\<forall>ps. permitted nc = Some ps \<longrightarrow> (\<exists>p \<in> set ps. matchesDomainPattern h p))))"
proof -
  have naming_ok: "check_naming_at hostname nc chain i () = Inr () \<longleftrightarrow>
      (let h = hostname (str_of (pget (payload (chain ! i)) ''sub'')) in
        (\<forall>ps. excluded nc = Some ps \<longrightarrow> (\<forall>p \<in> set ps. \<not> matchesDomainPattern h p)) \<and>
        (\<forall>ps. permitted nc = Some ps \<longrightarrow> (\<exists>p \<in> set ps. matchesDomainPattern h p)))" for nc i
    by (auto simp: check_naming_at_def checkNamingConstraints_def Let_def list_ex_iff split: option.splits)
  have path_ok: "checkMaxPathLength m position n \<longleftrightarrow> of_nat position \<le> m + 1" for m n
    unfolding checkMaxPathLength_def by linarith
  show ?thesis
    unfolding checkConstraints_def path_ok
    by (cases "max_path_length c"; cases "naming c")
       (auto simp: for_each_unit_iff naming_ok)
qed

definition example_host :: "string \<Rightarrow> string" where
  "example_host u = drop 8 u"

lemma checkConstraints_iff_witness:
  "checkConstraints example_host
     \<lparr>max_path_length = Some 0, naming = Some \<lparr>permitted = Some [''.ex.org''], excluded = None\<rparr>,
      allowed_entity_types = None\<rparr> 1
     [\<lparr>header = [], payload = [(''sub'', JStr ''https://a.ex.org'')]\<rparr>] = Inr ()"
  by (subst checkConstraints_iff)
     (simp add: pget_def example_host_def matchesDomainPattern_def starts_with_def ends_with_def)

text \<open>
  A pattern that begins with a dot matches exactly the host names that have a further label
  part in front of it, so never the bare domain; any other pattern matches only itself. No pattern
  reaches into a longer label (\<open>ex.org\<close> does not match \<open>notex.org\<close>).
\<close>
lemma matchesDomainPattern_iff:
  "matchesDomainPattern h p \<longleftrightarrow>
     (if \<exists>d. p = ''.'' @ d then \<exists>l. h = l @ p else h = p)"
  by (cases p) (auto simp: matchesDomainPattern_def starts_with_def ends_with_iff)

text \<open>
  Restricting metadata to the allowed entity types of several superiors is one restriction to
  the types all of them allow: the order of the superiors does not matter, nothing is added or
  changed, and \<open>federation_entity\<close> always stays.
\<close>
lemma applyAllowedEntityTypes_intersection:
  "foldl (\<lambda>m a. applyAllowedEntityTypes a m) md as =
     filter (\<lambda>(k, v). k = ''federation_entity'' \<or> (\<forall>a \<in> set as. k \<in> set a)) md"
proof (induction "as" arbitrary: md)
  case (Cons a "as")
  have "filter (\<lambda>(k, v). k = ''federation_entity'' \<or> (\<forall>a \<in> set as. k \<in> set a)) (applyAllowedEntityTypes a md) =
        filter (\<lambda>(k, v). k = ''federation_entity'' \<or> (\<forall>x \<in> set (a # as). k \<in> set x)) md"
    unfolding applyAllowedEntityTypes_def filter_filter by (rule filter_cong) auto
  with Cons show ?case by simp
qed simp

lemma applyAllowedEntityTypes_intersection_witness:
  "foldl (\<lambda>m a. applyAllowedEntityTypes a m) [(''rp'', []), (''federation_entity'', []), (''op'', [])]
     [[''op'', ''rp''], [''op'']] = [(''federation_entity'', []), (''op'', [])]"
  by (subst applyAllowedEntityTypes_intersection) simp

text \<open>
  The search for null metadata values is exact: on a JSON value it reports exactly the paths
  that lead to a null without passing through a non-empty array of claim path components at the
  place where wallet metadata keeps claim paths.
\<close>
lemma findInvalidMetadataNullPaths_exact:
  assumes "plain md"
  shows "set (findInvalidMetadataNullPaths md) = {p. forbidden_null [] md p}"
  using walk_null_forbidden [OF assms, of "[]"] by (simp add: findInvalidMetadataNullPaths_def)

lemma findInvalidMetadataNullPaths_exact_witness:
  "set (findInvalidMetadataNullPaths (JObj [(''rp'', JObj [(''x'', JArr [JNum 1, JNull])])])) =
     {p. forbidden_null [] (JObj [(''rp'', JObj [(''x'', JArr [JNum 1, JNull])])]) p}"
  by (rule findInvalidMetadataNullPaths_exact) simp
end
