(* ===== verification/Statement_Checks.thy ===== *)
theory Statement_Checks
  imports Json_Duplicates Trust_Marks Constraints
begin

text \<open>
  packages/core/src/trust-chain/validate.ts, the checks that look at one statement: its shape (schema
  issues, metadata, metadata policy, trust mark references) and its claims and header.

  A check that pushes to the shared \<open>errors\<close> array is the list of errors it pushes. An error is its
  code, statement index, field and check number; the message text is not modelled. The zod schemas
  are parameters that give their issues.
\<close>

section \<open>Errors, schemas and options\<close>

record validation_error =
  ve_code :: string
  ve_index :: "nat option"
  ve_field :: "string option"
  ve_check :: "nat option"

definition addError :: "string \<Rightarrow> nat option \<Rightarrow> string option \<Rightarrow> nat option \<Rightarrow> validation_error list" where
  "addError c i f n = [\<lparr>ve_code = c, ve_index = i, ve_field = f, ve_check = n\<rparr>]"

text \<open>The common case, \<open>InternalErrorCode.TrustChainInvalid\<close> at a statement.\<close>

definition invalid_at :: "nat \<Rightarrow> string \<Rightarrow> nat \<Rightarrow> validation_error list" where
  "invalid_at j f n = addError ''ERR_TRUST_CHAIN_INVALID'' (Some j) (Some f) (Some n)"

lemma addError_neq_Nil [simp]: "addError c i f n \<noteq> []" "invalid_at j f' n' \<noteq> []"
  by (simp_all add: addError_def invalid_at_def)

record chain_env =
  env_jose :: jose
  env_tm :: tm_schemas
  entityConfigurationSchema :: "jsval dict \<Rightarrow> schema_issue list"
  subordinateStatementSchema :: "jsval dict \<Rightarrow> schema_issue list"
  env_hostname :: "string \<Rightarrow> string"
  env_now :: number

record chain_options =
  co_skew :: "number option"
  co_clock :: "number option"
  verboseErrors :: bool
  explicitRegistrationAudience :: "string option"
  trustMarkIssuerKeys :: "jsval dict"
  understoodCriticalClaims :: "string list"
  customPolicyOperators :: "policy_operator list option"

section \<open>Shape\<close>

definition addMetadataPolicyDuplicateMemberErrors :: "string \<Rightarrow> nat \<Rightarrow> validation_error list" where
  "addMetadataPolicyDuplicateMemberErrors jwt j =
     (case decodeJwtPayloadJson jwt of
        None \<Rightarrow> []
      | Some payloadJson \<Rightarrow>
          if payloadJson = [] then []
          else concat (map (\<lambda>_. invalid_at j ''metadata_policy'' 19)
                 (findDuplicateMetadataPolicyMembers payloadJson)))"

definition issue_field :: "schema_issue \<Rightarrow> string \<Rightarrow> string" where
  "issue_field issue defaultField =
     (case fst issue of p # _ \<Rightarrow> if p \<noteq> [] then p else defaultField | [] \<Rightarrow> defaultField)"

definition addSchemaIssues :: "schema_issue list \<Rightarrow> nat \<Rightarrow> string \<Rightarrow> validation_error list" where
  "addSchemaIssues issues j defaultField =
     concat (map (\<lambda>issue. invalid_at j (issue_field issue defaultField) 1) issues)"

definition addMetadataNullErrors :: "jsval \<Rightarrow> nat \<Rightarrow> validation_error list" where
  "addMetadataNullErrors value j =
     concat (map (\<lambda>_. invalid_at j ''metadata'' 16) (findInvalidMetadataNullPaths value))"

definition validateMetadataPolicyShape :: "jsval \<Rightarrow> nat \<Rightarrow> validation_error list" where
  "validateMetadataPolicyShape policy j =
     (if policy = JUndef then []
      else if \<not> isJsonObject policy then invalid_at j ''metadata_policy'' 19
      else concat (map (\<lambda>(entityType, parameterPolicies).
             if \<not> isJsonObject parameterPolicies then invalid_at j ''metadata_policy'' 19
             else concat (map (\<lambda>(parameter, operatorPolicy).
                    if \<not> isJsonObject operatorPolicy then invalid_at j ''metadata_policy'' 19 else [])
                    (entries parameterPolicies)))
             (entries policy)))"

definition check_trust_mark_reference :: "jose \<Rightarrow> nat \<Rightarrow> jsval \<Rightarrow> validation_error list" where
  "check_trust_mark_reference J j ref =
     (if \<not> isJsonObject ref then []
      else
        (case (mget ref ''trust_mark_type'', mget ref ''trust_mark'') of
           (JStr trustMarkType, JStr trustMarkJwt) \<Rightarrow>
             (case decodeEntityStatement J trustMarkJwt of
                Inl _ \<Rightarrow> invalid_at j ''trust_marks'' 16
              | Inr decoded \<Rightarrow>
                  if pget (payload decoded) ''trust_mark_type'' \<noteq> JStr trustMarkType
                  then invalid_at j ''trust_marks'' 16 else [])
         | _ \<Rightarrow> []))"

definition validateTrustMarkReferenceSyntax :: "jose \<Rightarrow> jsval \<Rightarrow> nat \<Rightarrow> validation_error list" where
  "validateTrustMarkReferenceSyntax J trustMarks j =
     (if \<not> is_arr trustMarks then []
      else concat (map (check_trust_mark_reference J j) (items trustMarks)))"

definition metadata_shape :: "jsval \<Rightarrow> nat \<Rightarrow> validation_error list" where
  "metadata_shape md j =
     (if md = JUndef then []
      else if \<not> isJsonObject md then invalid_at j ''metadata'' 16
      else concat (map (\<lambda>(entityType, m). if \<not> isJsonObject m then invalid_at j ''metadata'' 16 else [])
             (entries md)) @
           addMetadataNullErrors md j)"

definition validateRawStatementShape ::
  "chain_env \<Rightarrow> parsed_statement \<Rightarrow> nat \<Rightarrow> nat \<Rightarrow> validation_error list"
where
  "validateRawStatementShape E statement j lastIndex =
     (let p = payload statement;
          isSubjectEc = (j = 0);
          isTrailingTrustAnchorEc = (j = lastIndex \<and> strict_eq (pget p ''iss'') (pget p ''sub''));
          schema = (if isSubjectEc \<or> isTrailingTrustAnchorEc then entityConfigurationSchema E
                    else subordinateStatementSchema E)
      in addSchemaIssues (schema p) j ''payload'' @
         metadata_shape (pget p ''metadata'') j @
         validateMetadataPolicyShape (pget p ''metadata_policy'') j @
         validateTrustMarkReferenceSyntax (env_jose E) (pget p ''trust_marks'') j @
         (if is_arr (pget p ''metadata_policy_crit'') then
            concat (map (\<lambda>opr. if in_strings STANDARD_OPERATOR_NAMES opr
                              then invalid_at j ''metadata_policy_crit'' 19 else [])
                     (items (pget p ''metadata_policy_crit'')))
          else []))"

section \<open>Claims and header\<close>

definition check_presence :: "jsval dict \<Rightarrow> nat \<Rightarrow> validation_error list" where
  "check_presence p j =
     concat (map (\<lambda>c. if \<not> truthy (pget p c) then invalid_at j c 1 else [])
       [''iss'', ''sub'', ''iat'', ''exp''])"

definition check_times :: "number \<Rightarrow> number \<Rightarrow> jsval dict \<Rightarrow> nat \<Rightarrow> validation_error list" where
  "check_times now skew p j =
     (case pget p ''iat'' of
        JNum iat \<Rightarrow>
          if \<not> is_safe_integer iat then invalid_at j ''iat'' 4
          else if iat > now + skew then invalid_at j ''iat'' 4 else []
      | _ \<Rightarrow> []) @
     (case pget p ''exp'' of
        JNum exp' \<Rightarrow>
          if \<not> is_safe_integer exp' then invalid_at j ''exp'' 5
          else if exp' < now - skew then addError ''ERR_EXPIRED'' (Some j) (Some ''exp'') (Some 5) else []
      | _ \<Rightarrow> [])"

definition check_typ_alg :: "jsval dict \<Rightarrow> nat \<Rightarrow> validation_error list" where
  "check_typ_alg h j =
     (if \<not> strict_eq (pget h ''typ'') (JStr ENTITY_STATEMENT_TYP) then invalid_at j ''typ'' 7 else []) @
     (let alg = pget h ''alg'' in
      if \<not> truthy alg \<or> strict_eq alg (JStr ''none'') \<or> \<not> in_strings SUPPORTED_ALGORITHMS alg
      then addError ''ERR_UNSUPPORTED_ALG'' (Some j) (Some ''alg'') (Some 7) else [])"

definition objectlike :: "jsval \<Rightarrow> bool" where
  "objectlike v \<longleftrightarrow> truthy v \<and> typeof v = ''object''"

definition has_member :: "string \<Rightarrow> jsval \<Rightarrow> bool" where
  "has_member k v \<longleftrightarrow> k \<in> fst ` set (entries v)"

definition check_metadata_values :: "jsval \<Rightarrow> nat \<Rightarrow> validation_error list" where
  "check_metadata_values md j =
     (if objectlike md then
        concat (map (\<lambda>(entityType, metaObj).
          if objectlike metaObj then
            concat (map (\<lambda>(key, val). if val = JNull then invalid_at j ''metadata'' 16 else []) (entries metaObj))
          else []) (entries md))
      else [])"

definition check_issuer_member :: "jsval dict \<Rightarrow> jsval \<Rightarrow> string \<Rightarrow> nat \<Rightarrow> validation_error list" where
  "check_issuer_member p md entityType j =
     (let op' = mget md entityType in
      if objectlike op' \<and> has_member ''issuer'' op' \<and> \<not> strict_eq (mget op' ''issuer'') (pget p ''sub'')
      then invalid_at j ''metadata'' 16 else [])"

definition check_inline_jwks :: "nat \<Rightarrow> string \<times> jsval \<Rightarrow> validation_error list" where
  "check_inline_jwks j = (\<lambda>(entityType, metaObj).
     (if entityType = ''federation_entity'' then []
      else if \<not> objectlike metaObj then []
      else
        let jwks = mget metaObj ''jwks'' in
        if \<not> objectlike jwks then []
        else
          let keys = mget jwks ''keys'' in
          if \<not> is_arr keys then []
          else
            (case validateJwkSetUseRequirement (items keys) of
               Inr _ \<Rightarrow> [] | Inl _ \<Rightarrow> invalid_at j ''metadata'' 16)))"

definition check_metadata_rules :: "jsval dict \<Rightarrow> nat \<Rightarrow> validation_error list" where
  "check_metadata_rules p j =
     (let md = pget p ''metadata'' in
      if \<not> objectlike md then []
      else
        (let fedEntity = mget md ''federation_entity'' in
         if objectlike fedEntity then
           concat (map (\<lambda>forbidden. if has_member forbidden fedEntity then invalid_at j ''metadata'' 16 else [])
             [''jwks'', ''jwks_uri'', ''signed_jwks_uri''])
         else []) @
        check_issuer_member p md ''openid_provider'' j @
        check_issuer_member p md ''oauth_authorization_server'' j @
        concat (map (check_inline_jwks j) (entries md)))"

definition STANDARD_ENTITY_STATEMENT_CLAIMS :: "string list" where
  "STANDARD_ENTITY_STATEMENT_CLAIMS =
     [''iss'', ''sub'', ''iat'', ''exp'', ''jwks'', ''metadata'', ''metadata_policy'', ''constraints'',
      ''crit'', ''metadata_policy_crit'', ''authority_hints'', ''trust_anchor_hints'', ''trust_marks'',
      ''trust_mark_issuers'', ''trust_mark_owners'', ''aud'', ''source_endpoint'', ''trust_anchor'']"

fun crit_duplicates :: "nat \<Rightarrow> jsval list \<Rightarrow> jsval list \<Rightarrow> validation_error list" where
  "crit_duplicates j seen [] = []"
| "crit_duplicates j seen (claim # claims) =
     (if list_ex (strict_eq claim) seen then invalid_at j ''crit'' 13 else []) @
     crit_duplicates j (claim # seen) claims"

definition check_crit_claim :: "string list \<Rightarrow> jsval dict \<Rightarrow> nat \<Rightarrow> jsval \<Rightarrow> validation_error list" where
  "check_crit_claim understood p j claim =
     (if in_strings STANDARD_ENTITY_STATEMENT_CLAIMS claim then invalid_at j ''crit'' 13
      else if \<not> in_strings understood claim then invalid_at j ''crit'' 13 else []) @
     (if js_string claim \<notin> fst ` set p then invalid_at j ''crit'' 13 else [])"

definition check_crit :: "string list \<Rightarrow> jsval dict \<Rightarrow> nat \<Rightarrow> validation_error list" where
  "check_crit understood p j =
     (let critClaims = pget p ''crit'' in
      if is_arr critClaims
      then crit_duplicates j [] (items critClaims) @
           concat (map (check_crit_claim understood p j) (items critClaims))
      else [])"

definition is_ec :: "jsval dict \<Rightarrow> bool" where
  "is_ec p \<longleftrightarrow> strict_eq (pget p ''iss'') (pget p ''sub'')"

definition ecOnlyClaims :: "string list" where
  "ecOnlyClaims = [''authority_hints'', ''trust_anchor_hints'', ''trust_marks'', ''trust_mark_issuers'', ''trust_mark_owners'']"

definition ssOnlyClaims :: "string list" where
  "ssOnlyClaims = [''metadata_policy'', ''metadata_policy_crit'', ''constraints'', ''source_endpoint'']"

definition check_placement :: "jsval dict \<Rightarrow> nat \<Rightarrow> validation_error list" where
  "check_placement p j =
     concat (map (\<lambda>c. if pget p c \<noteq> JUndef \<and> \<not> is_ec p then invalid_at j c 14 else []) ecOnlyClaims) @
     concat (map (\<lambda>c. if pget p c \<noteq> JUndef \<and> is_ec p then invalid_at j c 17 else []) ssOnlyClaims)"

definition check_registration_claims :: "chain_options \<Rightarrow> jsval dict \<Rightarrow> nat \<Rightarrow> validation_error list" where
  "check_registration_claims options p j =
     (if is_arr (pget p ''authority_hints'') \<and> items (pget p ''authority_hints'') = []
      then invalid_at j ''authority_hints'' 14 else []) @
     (let allowedExplicitRegistrationAudience =
            (j = 0 \<and> (case explicitRegistrationAudience options of
                         None \<Rightarrow> False | Some a \<Rightarrow> strict_eq (pget p ''aud'') (JStr a)))
      in if pget p ''aud'' \<noteq> JUndef \<and> \<not> allowedExplicitRegistrationAudience then invalid_at j ''aud'' 26 else []) @
     (if pget p ''trust_anchor'' \<noteq> JUndef then invalid_at j ''trust_anchor'' 27 else [])"

definition check_headers :: "jsval dict \<Rightarrow> nat \<Rightarrow> validation_error list" where
  "check_headers h j =
     (if pget h ''trust_chain'' \<noteq> JUndef then invalid_at j ''trust_chain'' 24 else []) @
     (if pget h ''peer_trust_chain'' \<noteq> JUndef then invalid_at j ''peer_trust_chain'' 25 else []) @
     (if \<not> truthy (pget h ''kid'') \<or> \<not> is_str (pget h ''kid'') then invalid_at j ''kid'' 8 else [])"

text \<open>The body of the loop over the parsed statements.\<close>

definition check_statement ::
  "chain_env \<Rightarrow> chain_options \<Rightarrow> number \<Rightarrow> number \<Rightarrow> nat \<Rightarrow> nat \<Rightarrow> parsed_statement \<Rightarrow> validation_error list"
where
  "check_statement E options now skew lastIndex j es =
     (let p = payload es; h = header es in
      validateRawStatementShape E es j lastIndex @
      check_presence p j @
      check_times now skew p j @
      check_typ_alg h j @
      (if \<not> truthy (pget p ''jwks'') then invalid_at j ''jwks'' 9 else []) @
      check_metadata_values (pget p ''metadata'') j @
      check_metadata_rules p j @
      check_crit (understoodCriticalClaims options) p j @
      check_placement p j @
      check_registration_claims options p j @
      check_headers h j)"

section \<open>What a statement without errors has\<close>

lemma concat_map_Nil: "concat (map f xs) = [] \<longleftrightarrow> (\<forall>x \<in> set xs. f x = [])"
  by auto

lemma check_presence_Nil:
  "check_presence p j = [] \<longleftrightarrow> truthy (pget p ''iss'') \<and> truthy (pget p ''sub'') \<and> truthy (pget p ''iat'') \<and> truthy (pget p ''exp'')"
  by (simp add: check_presence_def)

lemma check_times_Nil:
  "check_times now skew p j = [] \<longleftrightarrow>
     (\<forall>t. pget p ''iat'' = JNum t \<longrightarrow> is_safe_integer t \<and> t \<le> now + skew) \<and>
     (\<forall>t. pget p ''exp'' = JNum t \<longrightarrow> is_safe_integer t \<and> now - skew \<le> t)"
  by (auto simp: check_times_def not_less split: jsval.splits)

lemma crit_duplicates_Nil:
  "crit_duplicates j seen claims = [] \<Longrightarrow> JStr c \<in> set claims \<Longrightarrow>
     JStr c \<notin> set seen \<and> count_list claims (JStr c) = 1"
proof (induction claims arbitrary: seen)
  case (Cons x xs)
  have x: "\<not> list_ex (strict_eq x) seen" and rest: "crit_duplicates j (x # seen) xs = []"
    using Cons.prems(1) by (auto split: if_splits)
  show ?case
  proof (cases "JStr c \<in> set xs")
    case True
    from Cons.IH [OF rest True] show ?thesis by auto
  next
    case False
    then have "x = JStr c" using Cons.prems(2) by auto
    moreover have "JStr c \<notin> set seen" using x calculation by (auto simp: list_ex_iff)
    ultimately show ?thesis using False by (simp add: count_list_0_iff)
  qed
qed simp

lemma check_crit_Nil:
  assumes "check_crit understood p j = []" and "is_arr (pget p ''crit'')" and "x \<in> set (items (pget p ''crit''))"
  shows "\<exists>c. x = JStr c \<and> c \<in> set understood \<and> c \<notin> set STANDARD_ENTITY_STATEMENT_CLAIMS \<and>
           c \<in> fst ` set p \<and> count_list (items (pget p ''crit'')) x = 1"
proof -
  have "check_crit_claim understood p j x = []" and dup: "crit_duplicates j [] (items (pget p ''crit'')) = []"
    using assms by (auto simp: check_crit_def Let_def)
  then obtain c where c: "x = JStr c" "c \<in> set understood" "c \<notin> set STANDARD_ENTITY_STATEMENT_CLAIMS" "c \<in> fst ` set p"
    by (auto simp: check_crit_claim_def in_strings_def split: if_splits jsval.splits)
  then show ?thesis using crit_duplicates_Nil [OF dup] assms(3) by blast
qed

lemma check_placement_Nil:
  "check_placement p j = [] \<longleftrightarrow>
     (\<forall>c \<in> set ecOnlyClaims. pget p c \<noteq> JUndef \<longrightarrow> is_ec p) \<and>
     (\<forall>c \<in> set ssOnlyClaims. pget p c \<noteq> JUndef \<longrightarrow> \<not> is_ec p)"
  unfolding check_placement_def append_is_Nil_conv concat_map_Nil by auto

lemma check_headers_Nil:
  "check_headers h j = [] \<longleftrightarrow> pget h ''trust_chain'' = JUndef \<and> pget h ''peer_trust_chain'' = JUndef \<and>
     (\<exists>k. pget h ''kid'' = JStr k \<and> k \<noteq> [])"
  by (cases "pget h ''kid''") (auto simp: check_headers_def)

lemma check_typ_alg_Nil:
  "check_typ_alg h j = [] \<Longrightarrow> pget h ''typ'' = JStr ENTITY_STATEMENT_TYP \<and>
     (\<exists>a \<in> set SUPPORTED_ALGORITHMS. pget h ''alg'' = JStr a)"
  by (auto simp: check_typ_alg_def Let_def in_strings_def split: if_splits jsval.splits)

lemma check_statement_Nil:
  assumes "check_statement E options now skew lastIndex j es = []"
  shows "validateRawStatementShape E es j lastIndex = []" and "check_presence (payload es) j = []"
    and "check_times now skew (payload es) j = []" and "check_typ_alg (header es) j = []"
    and "truthy (pget (payload es) ''jwks'')" and "check_metadata_values (pget (payload es) ''metadata'') j = []"
    and "check_metadata_rules (payload es) j = []"
    and "check_crit (understoodCriticalClaims options) (payload es) j = []"
    and "check_placement (payload es) j = []" and "check_registration_claims options (payload es) j = []"
    and "check_headers (header es) j = []"
  using assms by (auto simp: check_statement_def Let_def split: if_splits)

lemma isJsonObject_iff [simp]: "isJsonObject v \<longleftrightarrow> is_obj v"
  by (cases v) (auto simp: isJsonObject_def)

lemma metadata_shape_Nil:
  assumes "metadata_shape md j = []"
  shows "md = JUndef \<or> is_obj md \<and> (\<forall>(et, m) \<in> set (entries md). is_obj m) \<and> findInvalidMetadataNullPaths md = []"
proof -
  have "findInvalidMetadataNullPaths md = []" if "addMetadataNullErrors md j = []"
    using that unfolding addMetadataNullErrors_def concat_map_Nil by (cases "findInvalidMetadataNullPaths md") auto
  with assms show ?thesis
    unfolding metadata_shape_def by (auto split: if_splits)
qed

section \<open>Properties\<close>

text \<open>
  A statement that passes the checks is well formed: it names issuer and subject; a numeric issue
  time lies not in the future and a numeric expiry not in the past, up to the clock skew; its header
  has the entity statement type, a supported algorithm and a key id, and carries no embedded chain;
  every critical claim is understood, is not a standard claim, is present and is listed once; claims
  reserved for entity configurations or for subordinate statements occur only there; and its
  metadata is an object of objects in which the null search finds nothing.
\<close>
lemma checked_statement_sound:
  assumes "check_statement E options now skew lastIndex j es = []"
  shows "let p = payload es; h = header es in
    truthy (pget p ''iss'') \<and> truthy (pget p ''sub'') \<and> truthy (pget p ''jwks'') \<and>
    (\<forall>t. pget p ''iat'' = JNum t \<longrightarrow> is_safe_integer t \<and> t \<le> now + skew) \<and>
    (\<forall>t. pget p ''exp'' = JNum t \<longrightarrow> is_safe_integer t \<and> now - skew \<le> t) \<and>
    pget h ''typ'' = JStr ENTITY_STATEMENT_TYP \<and>
    (\<exists>a \<in> set SUPPORTED_ALGORITHMS. pget h ''alg'' = JStr a) \<and> (\<exists>k. pget h ''kid'' = JStr k \<and> k \<noteq> []) \<and>
    pget h ''trust_chain'' = JUndef \<and> pget h ''peer_trust_chain'' = JUndef \<and>
    (is_arr (pget p ''crit'') \<longrightarrow> (\<forall>x \<in> set (items (pget p ''crit'')).
       \<exists>c. x = JStr c \<and> c \<in> set (understoodCriticalClaims options) \<and>
           c \<notin> set STANDARD_ENTITY_STATEMENT_CLAIMS \<and> c \<in> fst ` set p \<and>
           count_list (items (pget p ''crit'')) x = 1)) \<and>
    (\<forall>c \<in> set ecOnlyClaims. pget p c \<noteq> JUndef \<longrightarrow> is_ec p) \<and>
    (\<forall>c \<in> set ssOnlyClaims. pget p c \<noteq> JUndef \<longrightarrow> \<not> is_ec p) \<and>
    (pget p ''metadata'' = JUndef \<or> is_obj (pget p ''metadata'') \<and>
       (\<forall>(et, m) \<in> set (entries (pget p ''metadata'')). is_obj m) \<and>
       findInvalidMetadataNullPaths (pget p ''metadata'') = [])"
proof -
  note c = check_statement_Nil [OF assms]
  have md: "metadata_shape (pget (payload es) ''metadata'') j = []"
    using c(1) by (simp add: validateRawStatementShape_def Let_def)
  show ?thesis
    unfolding Let_def
    using c(5) c(2) [unfolded check_presence_Nil] c(3) [unfolded check_times_Nil] check_typ_alg_Nil [OF c(4)]
      c(11) [unfolded check_headers_Nil] c(9) [unfolded check_placement_Nil]
      check_crit_Nil [OF c(8)] metadata_shape_Nil [OF md]
    by blast
qed

definition example_payload :: "jsval dict" where
  "example_payload = [(''iss'', JStr ''https://ta''), (''sub'', JStr ''https://ta''), (''iat'', JNum 10),
     (''exp'', JNum 1000), (''jwks'', example_jwks), (''metadata'', JObj [(''federation_entity'', JObj [])])]"

definition example_env :: chain_env where
  "example_env = \<lparr>env_jose = example_jose ''t'' example_payload, env_tm = example_schemas,
     entityConfigurationSchema = (\<lambda>_. []), subordinateStatementSchema = (\<lambda>_. []),
     env_hostname = example_host, env_now = 100\<rparr>"

definition example_options :: chain_options where
  "example_options = \<lparr>co_skew = None, co_clock = None, verboseErrors = False, explicitRegistrationAudience = None,
     trustMarkIssuerKeys = [], understoodCriticalClaims = [], customPolicyOperators = None\<rparr>"

lemma example_check_statement:
  "check_statement example_env example_options 100 60 0 0 \<lparr>header = example_header, payload = example_payload\<rparr> = []"
  by code_simp

lemma checked_statement_sound_witness:
  "is_safe_integer (1000 :: number) \<and> (100 :: number) - 60 \<le> 1000"
  using checked_statement_sound [OF example_check_statement]
  by (simp add: Let_def example_payload_def pget_def)

text \<open>
  The shape check of a metadata policy accepts exactly an absent policy or three nested levels of
  JSON objects (entity types, parameters, operators), which is what the merge iterates over.
\<close>
lemma metadata_policy_shape_iff:
  "validateMetadataPolicyShape policy j = [] \<longleftrightarrow>
     policy = JUndef \<or> is_obj policy \<and>
       (\<forall>(et, pp) \<in> set (entries policy). is_obj pp \<and> (\<forall>(pn, ops) \<in> set (entries pp). is_obj ops))"
proof -
  have inner: "concat (map (\<lambda>(parameter, operatorPolicy).
      if \<not> is_obj operatorPolicy then invalid_at j ''metadata_policy'' 19 else []) ops) = [] \<longleftrightarrow>
      (\<forall>(pn, x) \<in> set ops. is_obj x)" for ops :: "jsval dict"
    unfolding concat_map_Nil by (rule ball_cong) (auto split: if_splits)
  define f where "f = (\<lambda>(entityType :: string, parameterPolicies).
             if \<not> isJsonObject parameterPolicies then invalid_at j ''metadata_policy'' 19
             else concat (map (\<lambda>(parameter, operatorPolicy).
                    if \<not> isJsonObject operatorPolicy then invalid_at j ''metadata_policy'' 19 else [])
                    (entries parameterPolicies)))"
  have f: "f e = [] \<longleftrightarrow>
      (case e of (et, pp) \<Rightarrow> is_obj pp \<and> (\<forall>(pn, ops) \<in> set (entries pp). is_obj ops))" for e
    by (cases e) (simp add: f_def inner del: concat_eq_Nil_conv)
  have "validateMetadataPolicyShape policy j =
      (if policy = JUndef then [] else if \<not> is_obj policy then invalid_at j ''metadata_policy'' 19
       else concat (map f (entries policy)))"
    by (simp add: validateMetadataPolicyShape_def f_def)
  then show ?thesis by (simp add: concat_map_Nil f del: concat_eq_Nil_conv)
qed

lemma metadata_policy_shape_iff_witness:
  "validateMetadataPolicyShape (JObj [(''rp'', JObj [(''scope'', JObj [])])]) 1 = []"
  by (subst metadata_policy_shape_iff) simp

end
