(* ===== verification/Chain_Validate.thy ===== *)
theory Chain_Validate
  imports Policy_Chain Statement_Checks
begin

text \<open>
  packages/core/src/trust-chain/validate.ts: validating a trust chain. A chain is its compact JWTs
  from the leaf to the trust anchor. The stages of \<open>validateTrustChainImpl\<close> are one definition each
  (decode, check every statement, verify the leaf, link the statements, verify at the anchor, resolve
  the metadata, verify the trust marks), composed as the function composes them with its early
  returns; then preparing and completing a validation and choosing among validated chains.

  The result of an awaited call is its value. \<open>trustAnchors\<close> is a map from identifiers to key sets.
  A claim a cast gives a static type is read at that type: its schema has accepted it by then.
\<close>

section \<open>Data\<close>

record validated_chain =
  vc_statements :: "parsed_statement list"
  vc_entityId :: jsval
  vc_trustAnchorId :: jsval
  vc_expiresAt :: number
  vc_resolvedMetadata :: metadata
  vc_trustMarks :: "validated_trust_mark list"

datatype validation_result = Valid validated_chain | Invalid "validation_error list"

datatype publication_result = PubValid parsed_statement | PubInvalid "validation_error list"

type_synonym claim_ref = "string \<times> string" \<comment> \<open>entity type, parameter\<close>

record metadata_stage =
  st_deferred :: "claim_ref list"
  st_context :: metadata

definition no_stage :: metadata_stage where
  "no_stage = \<lparr>st_deferred = [], st_context = []\<rparr>"

fun num_of :: "jsval \<Rightarrow> number" where
  "num_of (JNum n) = n" | "num_of _ = 0"

fun calculateChainExpiration :: "parsed_statement list \<Rightarrow> number" where
  "calculateChainExpiration [] = 0"
| "calculateChainExpiration [es] = num_of (pget (payload es) ''exp'')"
| "calculateChainExpiration (es # chain) =
     min (num_of (pget (payload es) ''exp'')) (calculateChainExpiration chain)"

section \<open>Decoding\<close>

fun decode_loop ::
  "jose \<Rightarrow> nat \<Rightarrow> string list \<Rightarrow> validation_error list \<Rightarrow> parsed_statement list \<Rightarrow>
   (validation_error list, validation_error list \<times> parsed_statement list) result"
where
  "decode_loop J j [] errs parsed = Inr (errs, parsed)"
| "decode_loop J j (jwt # jwts) errs parsed =
     (case decodeEntityStatement J jwt of
        Inl _ \<Rightarrow> Inl (errs @ addError ''ERR_TRUST_CHAIN_INVALID'' (Some j) None (Some 1))
      | Inr st \<Rightarrow>
          decode_loop J (Suc j) jwts (errs @ addMetadataPolicyDuplicateMemberErrors jwt j) (parsed @ [st]))"

definition statement_errors ::
  "chain_env \<Rightarrow> chain_options \<Rightarrow> number \<Rightarrow> number \<Rightarrow> parsed_statement list \<Rightarrow> validation_error list" where
  "statement_errors E options now skew parsed =
     concat (map (\<lambda>(j, es). check_statement E options now skew (length parsed - 1) j es) (enumerate 0 parsed))"

text \<open>A failing result: the errors if they were asked for, one general error otherwise.\<close>

definition fail_with :: "chain_options \<Rightarrow> validation_error list \<Rightarrow> validation_result" where
  "fail_with options errs =
     Invalid (if verboseErrors options then errs else addError ''ERR_TRUST_CHAIN_INVALID'' None None None)"

section \<open>Signatures and linkage\<close>

abbreviation iss_of :: "parsed_statement \<Rightarrow> jsval" where "iss_of s \<equiv> pget (payload s) ''iss''"
abbreviation sub_of :: "parsed_statement \<Rightarrow> jsval" where "sub_of s \<equiv> pget (payload s) ''sub''"
abbreviation jwks_of :: "parsed_statement \<Rightarrow> jsval" where "jwks_of s \<equiv> pget (payload s) ''jwks''"

definition chain_verify_options :: "chain_options \<Rightarrow> verify_options" where
  "chain_verify_options options =
     \<lparr>clockSkewSeconds = Some (skew_of (co_skew options)), clock = co_clock options, expectedTyp = None\<rparr>"

definition leaf_errors :: "chain_env \<Rightarrow> chain_options \<Rightarrow> string \<Rightarrow> parsed_statement \<Rightarrow> validation_error list" where
  "leaf_errors E options jwt leaf =
     (if \<not> strict_eq (iss_of leaf) (sub_of leaf)
      then addError ''ERR_TRUST_CHAIN_INVALID'' (Some 0) None (Some 9) else []) @
     (if truthy (jwks_of leaf) then
        (case verifyEntityStatement (env_jose E) jwt (jwks_of leaf) (chain_verify_options options) of
           Inl _ \<Rightarrow> addError ''ERR_SIGNATURE_INVALID'' (Some 0) None (Some 10)
         | Inr _ \<Rightarrow> [])
      else addError ''ERR_TRUST_CHAIN_INVALID'' (Some 0) None (Some 10))"

definition link_error ::
  "chain_env \<Rightarrow> chain_options \<Rightarrow> string list \<Rightarrow> parsed_statement list \<Rightarrow> nat \<Rightarrow> validation_error list" where
  "link_error E options chain parsed j =
     (let current = parsed ! j; nxt = parsed ! Suc j in
      (if \<not> strict_eq (iss_of current) (sub_of nxt)
       then addError ''ERR_TRUST_CHAIN_INVALID'' (Some j) None (Some 12) else []) @
      (if truthy (jwks_of nxt) then
         (case verifyEntityStatement (env_jose E) (chain ! j) (jwks_of nxt) (chain_verify_options options) of
            Inl _ \<Rightarrow> addError ''ERR_SIGNATURE_INVALID'' (Some j) None (Some 13)
          | Inr _ \<Rightarrow> [])
       else []))"

definition link_errors ::
  "chain_env \<Rightarrow> chain_options \<Rightarrow> string list \<Rightarrow> parsed_statement list \<Rightarrow> validation_error list" where
  "link_errors E options chain parsed =
     concat (map (link_error E options chain parsed) [0..<length parsed - 1])"

definition lookup_anchor :: "jsval dict \<Rightarrow> jsval \<Rightarrow> jsval option" where
  "lookup_anchor trustAnchors v = (case v of JStr s \<Rightarrow> map_of trustAnchors s | _ \<Rightarrow> None)"

definition anchor_errors ::
  "chain_env \<Rightarrow> chain_options \<Rightarrow> jsval dict \<Rightarrow> string list \<Rightarrow> parsed_statement list \<Rightarrow> validation_error list" where
  "anchor_errors E options trustAnchors chain parsed =
     (let lastIdx = length parsed - 1; lst = parsed ! lastIdx; p = payload lst;
          taConfig = lookup_anchor trustAnchors (iss_of lst);
          hasTrailingTrustAnchorEc = strict_eq (iss_of lst) (sub_of lst)
      in (if taConfig = None then addError ''ERR_TRUST_ANCHOR_UNKNOWN'' (Some lastIdx) None (Some 14) else []) @
         (case taConfig of
            None \<Rightarrow> []
          | Some jwks \<Rightarrow>
              (case verifyEntityStatement (env_jose E) (chain ! lastIdx) jwks (chain_verify_options options) of
                 Inl _ \<Rightarrow> addError ''ERR_SIGNATURE_INVALID'' (Some lastIdx) None (Some 15)
               | Inr _ \<Rightarrow> [])) @
         (if hasTrailingTrustAnchorEc \<and> taConfig \<noteq> None then
            (if pget p ''authority_hints'' \<noteq> JUndef then invalid_at lastIdx ''authority_hints'' 14 else []) @
            (if pget p ''trust_anchor_hints'' \<noteq> JUndef then invalid_at lastIdx ''trust_anchor_hints'' 15 else [])
          else []))"

definition missing_hints_error :: "jsval dict \<Rightarrow> nat \<Rightarrow> nat \<Rightarrow> parsed_statement \<Rightarrow> validation_error list" where
  "missing_hints_error trustAnchors lastIdx j stmt =
     (let isTrustAnchor = (j = lastIdx \<and> lookup_anchor trustAnchors (iss_of stmt) \<noteq> None) in
      if is_ec (payload stmt) \<and> \<not> isTrustAnchor \<and> pget (payload stmt) ''authority_hints'' = JUndef
      then invalid_at j ''authority_hints'' 14 else [])"

definition unlisted_issuer_error :: "parsed_statement list \<Rightarrow> nat \<Rightarrow> validation_error list" where
  "unlisted_issuer_error parsed j =
     (let ss = parsed ! j; subject = parsed ! (j - 1); hints = pget (payload subject) ''authority_hints'' in
      if is_ec (payload ss) then []
      else if is_ec (payload subject) \<and> truthy hints \<and> \<not> list_ex (strict_eq (iss_of ss)) (items hints)
      then invalid_at j ''authority_hints'' 6 else [])"

definition hints_errors :: "jsval dict \<Rightarrow> parsed_statement list \<Rightarrow> validation_error list" where
  "hints_errors trustAnchors parsed =
     concat (map (\<lambda>(j, stmt). missing_hints_error trustAnchors (length parsed - 1) j stmt) (enumerate 0 parsed)) @
     concat (map (unlisted_issuer_error parsed) [1..<length parsed])"

section \<open>Metadata\<close>

text \<open>The cast of the \<open>metadata\<close> claim, an object of objects by the shape check.\<close>

definition read_metadata :: "jsval \<Rightarrow> metadata" where
  "read_metadata v = map (\<lambda>(k, m). (k, entries m)) (entries v)"

definition object_assign :: "jsval dict \<Rightarrow> jsval dict \<Rightarrow> jsval dict" where
  "object_assign target source = foldl (\<lambda>t (k, v). AList.update k v t) target source"

definition merge_superior :: "metadata \<Rightarrow> metadata \<Rightarrow> metadata" where
  "merge_superior immSupMeta md =
     foldl (\<lambda>m (entityType, params).
              case map_of m entityType of
                None \<Rightarrow> m
              | Some existing \<Rightarrow> AList.update entityType (object_assign existing params) m)
       md immSupMeta"

text \<open>One iteration of the constraints loop: the errors and the metadata so far.\<close>

definition constraint_step ::
  "chain_env \<Rightarrow> parsed_statement list \<Rightarrow> validation_error list \<times> metadata \<Rightarrow> nat \<Rightarrow> validation_error list \<times> metadata"
where
  "constraint_step E parsed = (\<lambda>(errs, md) j.
     (let c = pget (payload (parsed ! j)) ''constraints'' in
      if \<not> truthy c then (errs, md)
      else
        (errs @ (case checkConstraints (env_hostname E) (read_constraints c) j parsed of
                   Inl _ \<Rightarrow> addError ''ERR_CONSTRAINT_VIOLATION'' (Some j) None (Some 16) | Inr _ \<Rightarrow> []),
         (case allowed_entity_types (read_constraints c) of
            None \<Rightarrow> md | Some allowedTypes \<Rightarrow> applyAllowedEntityTypes allowedTypes md))))"

definition fill_parameter :: "string \<Rightarrow> metadata \<Rightarrow> string \<times> jsval \<Rightarrow> metadata" where
  "fill_parameter type md = (\<lambda>(parameter, value).
     (case map_of md type of
        None \<Rightarrow> md
      | Some em \<Rightarrow> if pget em parameter = JUndef then AList.update type (AList.update parameter value em) md else md))"

definition fill_context :: "metadata \<Rightarrow> metadata \<Rightarrow> metadata" where
  "fill_context ctx md = foldl (\<lambda>m (type, values). foldl (fill_parameter type) m values) md ctx"

text \<open>The loop over the deferred claims takes their policies out and records them as pending.\<close>

definition defer_claim :: "metadata \<Rightarrow> merged_policy \<times> claim_ref list \<Rightarrow> claim_ref \<Rightarrow> merged_policy \<times> claim_ref list"
where
  "defer_claim md = (\<lambda>(policy, pending) (entityType, parameter).
     (case (map_of md entityType, map_of policy entityType) of
        (Some em, Some policies) \<Rightarrow>
          if pget em parameter = JUndef \<and> map_of policies parameter \<noteq> None
          then (AList.update entityType (AList.delete parameter policies) policy, pending @ [(entityType, parameter)])
          else (policy, pending)
      | _ \<Rightarrow> (policy, pending)))"

text \<open>The policy stage: errors, resolved metadata, pending claims.\<close>

definition policy_stage ::
  "chain_options \<Rightarrow> metadata_stage \<Rightarrow> parsed_statement list \<Rightarrow> metadata \<Rightarrow>
   validation_error list \<times> metadata \<times> claim_ref list"
where
  "policy_stage options stage subordinateStatements md =
     (if subordinateStatements = [] then ([], md, [])
      else
        (case resolveMetadataPolicy subordinateStatements (customPolicyOperators options) of
           Inl _ \<Rightarrow> (addError ''ERR_METADATA_POLICY_ERROR'' None None (Some 19), md, [])
         | Inr policy \<Rightarrow>
             if policy = [] then ([], md, [])
             else
               (let md' = fill_context (st_context stage) md;
                    (policy', pending) = foldl (defer_claim md') (policy, []) (st_deferred stage)
                in case applyMetadataPolicy md' policy' None (customPolicyOperators options) of
                     Inl _ \<Rightarrow> (addError ''ERR_METADATA_POLICY_VIOLATION'' None None (Some 24), md', pending)
                   | Inr resolved \<Rightarrow> ([], resolved, pending))))"

definition subordinate_statements :: "parsed_statement list \<Rightarrow> parsed_statement list" where
  "subordinate_statements parsed =
     (let lst = last parsed in
      if strict_eq (iss_of lst) (sub_of lst) then butlast (tl parsed) else tl parsed)"

definition metadata_stage_result ::
  "chain_env \<Rightarrow> chain_options \<Rightarrow> metadata_stage \<Rightarrow> parsed_statement list \<Rightarrow>
   validation_error list \<times> metadata \<times> claim_ref list"
where
  "metadata_stage_result E options stage parsed =
     (let subs = subordinate_statements parsed;
          md0 = read_metadata (pget (payload (hd parsed)) ''metadata'');
          md1 = (case subs of
                   [] \<Rightarrow> md0
                 | s # _ \<Rightarrow> merge_superior (read_metadata (pget (payload s) ''metadata'')) md0);
          (errs, md2) = foldl (constraint_step E parsed) ([], md1) [1..<length parsed];
          (errs', resolved, pending) = policy_stage options stage subs md2
      in (errs @ errs', resolved, pending))"

section \<open>Trust marks\<close>

definition ta_issuers :: "parsed_statement \<Rightarrow> string list dict" where
  "ta_issuers ta =
     (if strict_eq (iss_of ta) (sub_of ta)
      then map (\<lambda>(k, v). (k, map str_of (items v))) (entries (pget (payload ta) ''trust_mark_issuers''))
      else [])"

definition ta_owners :: "parsed_statement \<Rightarrow> tm_owner dict" where
  "ta_owners ta =
     (if strict_eq (iss_of ta) (sub_of ta)
      then map (\<lambda>(k, v). (k, \<lparr>owner_sub = str_of (mget v ''sub''), owner_jwks = mget v ''jwks''\<rparr>))
             (filter (\<lambda>(k, v). truthy v) (entries (pget (payload ta) ''trust_mark_owners'')))
      else [])"

definition entity_jwks :: "jsval option \<Rightarrow> parsed_statement list \<Rightarrow> jsval dict" where
  "entity_jwks taConfig parsed =
     foldl (\<lambda>m s. if strict_eq (iss_of s) (sub_of s) \<and> truthy (jwks_of s)
                  then AList.update (str_of (iss_of s)) (jwks_of s) m else m)
       (case taConfig of None \<Rightarrow> [] | Some jwks \<Rightarrow> [(str_of (iss_of (last parsed)), jwks)]) parsed"

definition tm_invalid :: "validation_error list" where
  "tm_invalid = addError ''ERR_TRUST_MARK_INVALID'' (Some 0) (Some ''trust_marks'') (Some 16)"

definition check_trust_mark ::
  "chain_env \<Rightarrow> chain_options \<Rightarrow> parsed_statement list \<Rightarrow> jsval option \<Rightarrow> jsval \<Rightarrow>
   (validation_error list, validated_trust_mark) result"
where
  "check_trust_mark E options parsed taConfig tmRef =
     (let jwt = str_of (mget tmRef ''trust_mark'') in
      case decodeEntityStatement (env_jose E) jwt of
        Inl _ \<Rightarrow> Inl tm_invalid
      | Inr tmDecoded \<Rightarrow>
        (let tmPayload = payload tmDecoded in
         if \<not> strict_eq (mget tmRef ''trust_mark_type'') (pget tmPayload ''trust_mark_type'') then Inl tm_invalid
         else
           (case (case pget tmPayload ''iss'' of
                    JStr iss \<Rightarrow>
                      if iss = [] then None
                      else (case map_of (trustMarkIssuerKeys options) iss of
                              Some jwks \<Rightarrow> Some jwks
                            | None \<Rightarrow> map_of (entity_jwks taConfig parsed) iss)
                  | _ \<Rightarrow> None) of
              None \<Rightarrow> Inl tm_invalid
            | Some jwksForIssuer \<Rightarrow>
                (case validateTrustMark (env_jose E) (env_tm E) (env_now E) jwt (ta_issuers (last parsed)) jwksForIssuer
                        \<lparr>tmo_skew = co_skew options, tmo_clock = co_clock options,
                         trustMarkOwners = ta_owners (last parsed),
                         expectedSubject = str_of (iss_of (hd parsed))\<rparr> of
                   Inr v \<Rightarrow> Inr v
                 | Inl _ \<Rightarrow> Inl tm_invalid))))"

definition trust_mark_stage ::
  "chain_env \<Rightarrow> chain_options \<Rightarrow> bool \<Rightarrow> parsed_statement list \<Rightarrow> jsval option \<Rightarrow>
   validation_error list \<times> validated_trust_mark list"
where
  "trust_mark_stage E options verifyMarks parsed taConfig =
     (let refs = items (pget (payload (hd parsed)) ''trust_marks'') in
      if verifyMarks \<and> refs \<noteq> [] then
        (let rs = map (check_trust_mark E options parsed taConfig) refs
         in (concat (map (\<lambda>r. case r of Inl e \<Rightarrow> e | Inr _ \<Rightarrow> []) rs),
             concat (map (\<lambda>r. case r of Inl _ \<Rightarrow> [] | Inr v \<Rightarrow> [v]) rs)))
      else ([], []))"

section \<open>The whole validation\<close>

text \<open>Everything up to the publication result: the decoded statements and the errors so far, or the
  result of an early return.\<close>

definition authenticate_leaf ::
  "chain_env \<Rightarrow> chain_options \<Rightarrow> string list \<Rightarrow> (validation_result, parsed_statement list \<times> validation_error list) result"
where
  "authenticate_leaf E options chain =
     (let skew = skew_of (co_skew options); now = nowSeconds (env_now E) (co_clock options) in
      if chain = [] then Inl (Invalid (addError ''ERR_TRUST_CHAIN_INVALID'' None None (Some 1)))
      else
        (case decode_loop (env_jose E) 0 chain [] [] of
           Inl errs \<Rightarrow> Inl (Invalid errs)
         | Inr (errs0, parsed) \<Rightarrow>
             (let errs = errs0 @ statement_errors E options now skew parsed in
              if errs \<noteq> [] then Inl (fail_with options errs)
              else Inr (parsed, leaf_errors E options (hd chain) (hd parsed)))))"

definition validateTrustChainImpl ::
  "chain_env \<Rightarrow> chain_options \<Rightarrow> string list \<Rightarrow> jsval dict \<Rightarrow> bool \<Rightarrow> metadata_stage \<Rightarrow>
   validation_result \<times> claim_ref list"
where
  "validateTrustChainImpl E options chain trustAnchors verifyMarks stage =
     (case authenticate_leaf E options chain of
        Inl res \<Rightarrow> (res, [])
      | Inr (parsed, errs1) \<Rightarrow>
        (let errs2 = errs1 @ link_errors E options chain parsed @
               anchor_errors E options trustAnchors chain parsed @ hints_errors trustAnchors parsed
         in if errs2 \<noteq> [] then (fail_with options errs2, [])
            else
              (let taConfig = lookup_anchor trustAnchors (iss_of (last parsed));
                   (errs3, resolvedMetadata, pending) = metadata_stage_result E options stage parsed;
                   (errs4, trustMarks) = trust_mark_stage E options verifyMarks parsed taConfig;
                   expiresAt = calculateChainExpiration parsed
               in if errs3 @ errs4 \<noteq> [] then (fail_with options (errs3 @ errs4), pending)
                  else (Valid \<lparr>vc_statements = parsed, vc_entityId = iss_of (hd parsed),
                          vc_trustAnchorId = iss_of (last parsed), vc_expiresAt = expiresAt,
                          vc_resolvedMetadata = resolvedMetadata, vc_trustMarks = trustMarks\<rparr>, pending))))"

definition validateTrustChain ::
  "chain_env \<Rightarrow> string list \<Rightarrow> jsval dict \<Rightarrow> chain_options \<Rightarrow> validation_result" where
  "validateTrustChain E chain trustAnchors options =
     fst (validateTrustChainImpl E options chain trustAnchors True no_stage)"

definition validateTrustChainStructure ::
  "chain_env \<Rightarrow> string list \<Rightarrow> jsval dict \<Rightarrow> chain_options \<Rightarrow> validation_result" where
  "validateTrustChainStructure E chain trustAnchors options =
     fst (validateTrustChainImpl E options chain trustAnchors False no_stage)"

definition validateEntityConfigurationPublication ::
  "chain_env \<Rightarrow> string \<Rightarrow> chain_options \<Rightarrow> publication_result" where
  "validateEntityConfigurationPublication E jwt options =
     (case authenticate_leaf E options [jwt] of
        Inl (Invalid errs) \<Rightarrow> PubInvalid errs
      | Inl (Valid _) \<Rightarrow> PubInvalid []
      | Inr (parsed, errs) \<Rightarrow> if errs \<noteq> [] then PubInvalid errs else PubValid (hd parsed))"

section \<open>Taking a successful validation apart\<close>

lemma decode_loop_Inr:
  assumes "decode_loop J j jwts errs acc = Inr (errs', parsed)"
  shows "\<exists>ps e. parsed = acc @ ps \<and> length ps = length jwts \<and> errs' = errs @ e \<and>
           (\<forall>i < length jwts. decodeEntityStatement J (jwts ! i) = Inr (ps ! i))"
  using assms
proof (induction J j jwts errs acc rule: decode_loop.induct)
  case (2 J j jwt jwts errs acc)
  then obtain st where st: "decodeEntityStatement J jwt = Inr st"
    and rest: "decode_loop J (Suc j) jwts (errs @ addMetadataPolicyDuplicateMemberErrors jwt j) (acc @ [st]) = Inr (errs', parsed)"
    by (auto split: sum.splits)
  obtain ps e where ps: "parsed = (acc @ [st]) @ ps" "length ps = length jwts"
    "errs' = (errs @ addMetadataPolicyDuplicateMemberErrors jwt j) @ e"
    "\<forall>i < length jwts. decodeEntityStatement J (jwts ! i) = Inr (ps ! i)"
    using 2(1) [OF st rest] by blast
  have "decodeEntityStatement J ((jwt # jwts) ! i) = Inr ((st # ps) ! i)" if "i < length (jwt # jwts)" for i
    using that st ps(4) by (cases i) auto
  with ps show ?case by (intro exI [of _ "st # ps"] exI [of _ "addMetadataPolicyDuplicateMemberErrors jwt j @ e"]) simp
qed simp

definition chain_now :: "chain_env \<Rightarrow> chain_options \<Rightarrow> number" where
  "chain_now E options = nowSeconds (env_now E) (co_clock options)"

lemma authenticate_leaf_Inr:
  assumes "authenticate_leaf E options chain = Inr (parsed, errs)"
  shows "chain \<noteq> []" and "length parsed = length chain"
    and "\<forall>j < length chain. decodeEntityStatement (env_jose E) (chain ! j) = Inr (parsed ! j)"
    and "\<forall>j < length chain. check_statement E options (chain_now E options) (skew_of (co_skew options))
           (length parsed - 1) j (parsed ! j) = []"
    and "errs = leaf_errors E options (hd chain) (hd parsed)"
proof -
  from assms have ne: "chain \<noteq> []" by (auto simp: authenticate_leaf_def Let_def)
  with assms obtain errs0 where dec: "decode_loop (env_jose E) 0 chain [] [] = Inr (errs0, parsed)"
    and se: "errs0 @ statement_errors E options (chain_now E options) (skew_of (co_skew options)) parsed = []"
    and errs: "errs = leaf_errors E options (hd chain) (hd parsed)"
    by (auto simp: authenticate_leaf_def Let_def chain_now_def split: sum.splits if_splits)
  note d = decode_loop_Inr [OF dec]
  show "chain \<noteq> []" "errs = leaf_errors E options (hd chain) (hd parsed)" using ne errs by blast+
  show len: "length parsed = length chain"
    and "\<forall>j < length chain. decodeEntityStatement (env_jose E) (chain ! j) = Inr (parsed ! j)"
    using d by auto
  show "\<forall>j < length chain. check_statement E options (chain_now E options) (skew_of (co_skew options))
           (length parsed - 1) j (parsed ! j) = []"
  proof (intro allI impI)
    fix j assume "j < length chain"
    then have "(j, parsed ! j) \<in> set (enumerate 0 parsed)" using len by (simp add: in_set_enumerate_eq)
    then show "check_statement E options (chain_now E options) (skew_of (co_skew options)) (length parsed - 1) j (parsed ! j) = []"
      using se unfolding statement_errors_def append_is_Nil_conv concat_map_Nil by fastforce
  qed
qed

lemma leaf_errors_Nil:
  "leaf_errors E options jwt leaf = [] \<longleftrightarrow> strict_eq (iss_of leaf) (sub_of leaf) \<and> truthy (jwks_of leaf) \<and>
     (\<exists>st. verifyEntityStatement (env_jose E) jwt (jwks_of leaf) (chain_verify_options options) = Inr st)"
  by (auto simp: leaf_errors_def split: sum.splits)

lemma link_error_Nil:
  "link_error E options chain parsed j = [] \<longleftrightarrow> strict_eq (iss_of (parsed ! j)) (sub_of (parsed ! Suc j)) \<and>
     (truthy (jwks_of (parsed ! Suc j)) \<longrightarrow>
       (\<exists>st. verifyEntityStatement (env_jose E) (chain ! j) (jwks_of (parsed ! Suc j)) (chain_verify_options options) = Inr st))"
  by (auto simp: link_error_def Let_def split: sum.splits)

lemma anchor_errors_Nil:
  assumes "anchor_errors E options trustAnchors chain parsed = []"
  shows "\<exists>ta jwks st. iss_of (parsed ! (length parsed - 1)) = JStr ta \<and> map_of trustAnchors ta = Some jwks \<and>
    verifyEntityStatement (env_jose E) (chain ! (length parsed - 1)) jwks (chain_verify_options options) = Inr st"
  using assms
  by (auto simp: anchor_errors_def Let_def lookup_anchor_def split: if_splits option.splits sum.splits jsval.splits)

lemma hints_errors_Nil:
  assumes "hints_errors trustAnchors parsed = []" and "0 < j" and "j < length parsed"
  shows "unlisted_issuer_error parsed j = []"
  using assms unfolding hints_errors_def append_is_Nil_conv concat_map_Nil by auto

text \<open>The stages of a validation that accepts.\<close>

lemma validate_Valid:
  assumes "validateTrustChainImpl E options chain trustAnchors verifyMarks stage = (Valid vc, pending)"
  obtains parsed errs3 resolved errs4 marks where
    "authenticate_leaf E options chain = Inr (parsed, [])"
    and "link_errors E options chain parsed = []" and "anchor_errors E options trustAnchors chain parsed = []"
    and "hints_errors trustAnchors parsed = []"
    and "metadata_stage_result E options stage parsed = ([], resolved, pending)"
    and "trust_mark_stage E options verifyMarks parsed (lookup_anchor trustAnchors (iss_of (last parsed))) = ([], marks)"
    and "vc = \<lparr>vc_statements = parsed, vc_entityId = iss_of (hd parsed), vc_trustAnchorId = iss_of (last parsed),
          vc_expiresAt = calculateChainExpiration parsed, vc_resolvedMetadata = resolved, vc_trustMarks = marks\<rparr>"
proof -
  have fail: "fail_with options e \<noteq> Valid vc" for e by (simp add: fail_with_def)
  have noauth: "authenticate_leaf E options chain \<noteq> Inl (Valid vc)"
    by (auto simp: authenticate_leaf_def Let_def fail_with_def split: sum.splits if_splits)
  obtain parsed errs1 where auth: "authenticate_leaf E options chain = Inr (parsed, errs1)"
    using assms noauth by (cases "authenticate_leaf E options chain") (auto simp: validateTrustChainImpl_def)
  obtain errs3 resolved pend where ms: "metadata_stage_result E options stage parsed = (errs3, resolved, pend)"
    by (metis prod_cases3)
  obtain errs4 marks where tm:
    "trust_mark_stage E options verifyMarks parsed (lookup_anchor trustAnchors (iss_of (last parsed))) = (errs4, marks)"
    by (metis surj_pair)
  show ?thesis
    by (rule that [of parsed resolved marks])
       (use assms auth ms tm fail in \<open>auto simp: validateTrustChainImpl_def Let_def split: if_splits\<close>)
qed

section \<open>Metadata stays ordinary\<close>

text \<open>A statement whose metadata and metadata policy, if it has them, are ordinary values.\<close>

definition ordinary_statement :: "parsed_statement \<Rightarrow> bool" where
  "ordinary_statement s \<longleftrightarrow> opt_ordinary (pget (payload s) ''metadata'') \<and> ordinary_policy s"

definition md_ordinary :: "metadata \<Rightarrow> bool" where
  "md_ordinary md \<longleftrightarrow> (\<forall>(et, em) \<in> set md. \<forall>(k, v) \<in> set em. ordinary v)"

lemma md_ordinary_value: "md_ordinary md \<Longrightarrow> opt_ordinary (block_value md et pn)"
  by (fastforce simp: md_ordinary_def type_block_def pget_def opt_ordinary_def dest: map_of_SomeD split: option.splits)

lemma md_ordinary_read: "opt_ordinary v \<Longrightarrow> md_ordinary (read_metadata v)"
  by (auto simp: md_ordinary_def read_metadata_def opt_ordinary_def dest: ordinary_entries)

lemma md_ordinary_filter: "md_ordinary md \<Longrightarrow> md_ordinary (applyAllowedEntityTypes ts md)"
  by (auto simp: md_ordinary_def applyAllowedEntityTypes_def)

lemma set_object_assign: "set (object_assign t s) \<subseteq> set t \<union> set s"
proof (induction s arbitrary: t)
  case (Cons e s)
  obtain k v where "e = (k, v)" by (cases e)
  then show ?case
    using Cons [of "AList.update k v t"] set_AList_update [of _ _ k v t]
    by (fastforce simp: object_assign_def)
qed (simp add: object_assign_def)

lemma md_ordinary_merge: "md_ordinary sup' \<Longrightarrow> md_ordinary md \<Longrightarrow> md_ordinary (merge_superior sup' md)"
proof (induction sup' arbitrary: md)
  case (Cons e sup')
  obtain et ps where e: "e = (et, ps)" by (cases e)
  let ?m = "case map_of md et of None \<Rightarrow> md | Some ex \<Rightarrow> AList.update et (object_assign ex ps) md"
  have "md_ordinary ?m"
  proof (cases "map_of md et")
    case (Some ex)
    then have "\<forall>(k, v) \<in> set ex. ordinary v" 
      using Cons.prems(2) map_of_SomeD [OF Some] unfolding md_ordinary_def by fast
    moreover have "\<forall>(k, v) \<in> set ps. ordinary v" using Cons.prems(1) by (simp add: md_ordinary_def e)
    ultimately have "\<forall>(k, v) \<in> set (object_assign ex ps). ordinary v" using set_object_assign by fastforce
    with Cons.prems(2) Some show ?thesis by (fastforce simp: md_ordinary_def dest: set_AList_update)
  qed (use Cons.prems(2) in simp)
  then show ?case using Cons.IH [of ?m] Cons.prems(1) by (simp add: merge_superior_def e md_ordinary_def)
qed (simp add: merge_superior_def)

lemma constraint_fold_ordinary:
  assumes "foldl (constraint_step E parsed) (errs0, md) js = (errs, md')" and "md_ordinary md"
  shows "md_ordinary md'"
  using assms
proof (induction js arbitrary: errs0 md)
  case (Cons j js)
  obtain e m where em: "constraint_step E parsed (errs0, md) j = (e, m)"
    by (cases "constraint_step E parsed (errs0, md) j")
  then have "md_ordinary m" using Cons.prems(2)
    by (auto simp: constraint_step_def Let_def md_ordinary_filter split: if_splits option.splits)
  with Cons.IH [of e m] Cons.prems(1) em show ?case by simp
qed simp

lemma constraint_fold_ok:
  assumes "foldl (constraint_step E parsed) (errs0, md) js = ([], md')"
  shows "errs0 = [] \<and> (\<forall>j \<in> set js. truthy (pget (payload (parsed ! j)) ''constraints'') \<longrightarrow>
      checkConstraints (env_hostname E) (read_constraints (pget (payload (parsed ! j)) ''constraints'')) j parsed = Inr ())"
  using assms
proof (induction js arbitrary: errs0 md)
  case (Cons j js)
  obtain e m where em: "constraint_step E parsed (errs0, md) j = (e, m)"
    by (cases "constraint_step E parsed (errs0, md) j")
  with Cons.IH [of e m] Cons.prems have "e = []" and rest: "\<forall>j \<in> set js. truthy (pget (payload (parsed ! j)) ''constraints'') \<longrightarrow>
      checkConstraints (env_hostname E) (read_constraints (pget (payload (parsed ! j)) ''constraints'')) j parsed = Inr ()"
    by auto
  with em show ?case by (auto simp: constraint_step_def Let_def split: if_splits sum.splits)
qed simp

lemma metadata_stage_accepts:
  assumes "metadata_stage_result E options stage parsed = ([], resolved, pending)"
  obtains md1 md2 where
    "md1 = (case subordinate_statements parsed of [] \<Rightarrow> read_metadata (pget (payload (hd parsed)) ''metadata'')
            | s # _ \<Rightarrow> merge_superior (read_metadata (pget (payload s) ''metadata''))
                        (read_metadata (pget (payload (hd parsed)) ''metadata'')))"
    and "foldl (constraint_step E parsed) ([], md1) [1..<length parsed] = ([], md2)"
    and "policy_stage options stage (subordinate_statements parsed) md2 = ([], resolved, pending)"
  using assms by (auto simp: metadata_stage_result_def Let_def split: prod.splits)

lemma subordinate_subset: "parsed \<noteq> [] \<Longrightarrow> set (subordinate_statements parsed) \<subseteq> set parsed"
  by (auto simp: subordinate_statements_def Let_def dest: in_set_butlastD list.set_sel(2))

lemma md_ordinary_stage:
  assumes "\<forall>s \<in> set parsed. ordinary_statement s" and "parsed \<noteq> []"
    and "md1 = (case subordinate_statements parsed of [] \<Rightarrow> read_metadata (pget (payload (hd parsed)) ''metadata'')
            | s # _ \<Rightarrow> merge_superior (read_metadata (pget (payload s) ''metadata''))
                        (read_metadata (pget (payload (hd parsed)) ''metadata'')))"
  shows "md_ordinary md1"
proof -
  have opt: "opt_ordinary (pget (payload s) ''metadata'')" if "s \<in> set parsed" for s
    using assms(1) that by (simp add: ordinary_statement_def)
  have "md_ordinary (read_metadata (pget (payload s) ''metadata''))" if "s \<in> set parsed" for s
    using opt [OF that] by (rule md_ordinary_read)
  moreover have "hd parsed \<in> set parsed" using assms(2) by simp
  ultimately show ?thesis
    using subordinate_subset [OF assms(2)] assms(3)
    by (cases "subordinate_statements parsed") (auto intro: md_ordinary_merge)
qed

section \<open>Properties\<close>

lemma valid_chain_links:
  assumes "validateTrustChainImpl E options chain trustAnchors verifyMarks stage = (Valid vc, pending)"
  shows "chain \<noteq> []" and "length (vc_statements vc) = length chain"
    and "\<forall>j < length chain. decodeEntityStatement (env_jose E) (chain ! j) = Inr (vc_statements vc ! j)"
    and "\<forall>j < length chain. check_statement E options (chain_now E options) (skew_of (co_skew options))
           (length chain - 1) j (vc_statements vc ! j) = []"
    and "vc_entityId vc = iss_of (vc_statements vc ! 0)"
    and "leaf_errors E options (chain ! 0) (vc_statements vc ! 0) = []"
    and "\<forall>j. Suc j < length chain \<longrightarrow> link_error E options chain (vc_statements vc) j = []"
    and "vc_trustAnchorId vc = iss_of (vc_statements vc ! (length chain - 1))"
    and "anchor_errors E options trustAnchors chain (vc_statements vc) = []"
    and "hints_errors trustAnchors (vc_statements vc) = []"
    and "vc_expiresAt vc = calculateChainExpiration (vc_statements vc)"
    and "metadata_stage_result E options stage (vc_statements vc) = ([], vc_resolvedMetadata vc, pending)"
    and "trust_mark_stage E options verifyMarks (vc_statements vc)
           (lookup_anchor trustAnchors (iss_of (last (vc_statements vc)))) = ([], vc_trustMarks vc)"
proof -
  obtain parsed resolved marks where v: "authenticate_leaf E options chain = Inr (parsed, [])"
    "link_errors E options chain parsed = []" "anchor_errors E options trustAnchors chain parsed = []"
    "hints_errors trustAnchors parsed = []"
    "metadata_stage_result E options stage parsed = ([], resolved, pending)"
    "trust_mark_stage E options verifyMarks parsed (lookup_anchor trustAnchors (iss_of (last parsed))) = ([], marks)"
    "vc = \<lparr>vc_statements = parsed, vc_entityId = iss_of (hd parsed), vc_trustAnchorId = iss_of (last parsed),
          vc_expiresAt = calculateChainExpiration parsed, vc_resolvedMetadata = resolved, vc_trustMarks = marks\<rparr>"
    using validate_Valid [OF assms] by metis
  note a = authenticate_leaf_Inr [OF v(1)]
  have ne: "parsed \<noteq> []" using a(1,2) by auto
  show "\<forall>j. Suc j < length chain \<longrightarrow> link_error E options chain (vc_statements vc) j = []"
    using v(2) a(2) unfolding link_errors_def concat_map_Nil by (simp add: v(7) less_diff_conv)
  show "chain \<noteq> []" "length (vc_statements vc) = length chain"
    "\<forall>j < length chain. decodeEntityStatement (env_jose E) (chain ! j) = Inr (vc_statements vc ! j)"
    "\<forall>j < length chain. check_statement E options (chain_now E options) (skew_of (co_skew options))
           (length chain - 1) j (vc_statements vc ! j) = []"
    "leaf_errors E options (chain ! 0) (vc_statements vc ! 0) = []"
    using a ne by (simp_all add: v(7) hd_conv_nth)
  show "vc_entityId vc = iss_of (vc_statements vc ! 0)" "vc_trustAnchorId vc = iss_of (vc_statements vc ! (length chain - 1))"
    using a(2) ne by (simp_all add: v(7) hd_conv_nth last_conv_nth)
  show "anchor_errors E options trustAnchors chain (vc_statements vc) = []" "hints_errors trustAnchors (vc_statements vc) = []"
    "vc_expiresAt vc = calculateChainExpiration (vc_statements vc)"
    "metadata_stage_result E options stage (vc_statements vc) = ([], vc_resolvedMetadata vc, pending)"
    "trust_mark_stage E options verifyMarks (vc_statements vc)
           (lookup_anchor trustAnchors (iss_of (last (vc_statements vc)))) = ([], vc_trustMarks vc)"
    using v by simp_all
qed

lemma validateTrustChain_Impl:
  "validateTrustChain E chain trustAnchors options = Valid vc \<Longrightarrow>
   \<exists>pending. validateTrustChainImpl E options chain trustAnchors True no_stage = (Valid vc, pending)"
  by (metis validateTrustChain_def prod.collapse)

text \<open>A chain of a leaf and the trust anchor's statement about it.\<close>

definition example_leaf :: "jsval dict" where
  "example_leaf = [(''iss'', JStr ''https://rp''), (''sub'', JStr ''https://rp''), (''iat'', JNum 10), (''exp'', JNum 1000),
     (''jwks'', example_jwks), (''authority_hints'', JArr [JStr ''https://ta'']),
     (''metadata'', JObj [(''rp'', JObj [(''grants'', JArr [JStr ''a'', JStr ''z''])])])]"

definition example_ss :: "jsval dict" where
  "example_ss = [(''iss'', JStr ''https://ta''), (''sub'', JStr ''https://rp''), (''iat'', JNum 10), (''exp'', JNum 500),
     (''jwks'', example_jwks), (''constraints'', JObj [(''max_path_length'', JNum 0)]),
     (''metadata_policy'', JObj [(''rp'', JObj [(''grants'', JObj [(''subset_of'', JArr [JStr ''a'', JStr ''b''])])])])]"

definition example_chain_env :: chain_env where
  "example_chain_env = example_env\<lparr>env_jose := \<lparr>
     jose_header = (\<lambda>t. Inr example_header),
     jose_payload = (\<lambda>t. if t = ''leaf'' then Inr example_leaf else Inr example_ss),
     jose_verify = (\<lambda>t k a s c. if k = example_key then Inr (if t = ''leaf'' then example_leaf else example_ss)
        else Inl ''bad signature'')\<rparr>\<rparr>"

definition example_valid :: validated_chain where
  "example_valid = \<lparr>vc_statements = [\<lparr>header = example_header, payload = example_leaf\<rparr>,
       \<lparr>header = example_header, payload = example_ss\<rparr>],
     vc_entityId = JStr ''https://rp'', vc_trustAnchorId = JStr ''https://ta'', vc_expiresAt = 500,
     vc_resolvedMetadata = [(''rp'', [(''grants'', JArr [JStr ''a''])])], vc_trustMarks = []\<rparr>"

lemma example_chain_valid:
  "validateTrustChain example_chain_env [''leaf'', ''ss''] [(''https://ta'', example_jwks)] example_options = Valid example_valid"
  by code_simp

text \<open>
  C1: An accepted chain is authenticated end to end. The leaf's statement is self-issued and verifies
  under its own keys; every statement is issued by the subject of the next one and verifies under
  the keys the next one carries; and the last one is issued by a configured trust anchor and verifies
  under the keys configured for it, so trust flows from the configuration to the leaf without a gap.
\<close>
theorem valid_chain_authenticated:
  assumes "validateTrustChain E chain trustAnchors options = Valid vc"
  shows "chain \<noteq> [] \<and> length (vc_statements vc) = length chain \<and>
    (\<forall>j < length chain. decodeEntityStatement (env_jose E) (chain ! j) = Inr (vc_statements vc ! j)) \<and>
    (let leaf = vc_statements vc ! 0 in vc_entityId vc = iss_of leaf \<and> strict_eq (iss_of leaf) (sub_of leaf) \<and>
       (\<exists>st. verifyEntityStatement (env_jose E) (chain ! 0) (jwks_of leaf) (chain_verify_options options) = Inr st)) \<and>
    (\<forall>j. Suc j < length chain \<longrightarrow>
       (let nxt = vc_statements vc ! Suc j in
        strict_eq (iss_of (vc_statements vc ! j)) (sub_of nxt) \<and>
        (\<exists>st. verifyEntityStatement (env_jose E) (chain ! j) (jwks_of nxt) (chain_verify_options options) = Inr st))) \<and>
    (\<exists>ta jwks st. vc_trustAnchorId vc = JStr ta \<and> iss_of (vc_statements vc ! (length chain - 1)) = JStr ta \<and>
       map_of trustAnchors ta = Some jwks \<and>
       verifyEntityStatement (env_jose E) (chain ! (length chain - 1)) jwks (chain_verify_options options) = Inr st)"
proof -
  obtain pending where run: "validateTrustChainImpl E options chain trustAnchors True no_stage = (Valid vc, pending)"
    using validateTrustChain_Impl [OF assms] by blast
  note v = valid_chain_links [OF run]
  have jwks: "truthy (jwks_of (vc_statements vc ! j))" if "j < length chain" for j
    using check_statement_Nil(5) v(4) that by blast
  show ?thesis
    using v(1,2,3,5,8) v(6) [unfolded leaf_errors_Nil] v(7) [unfolded link_error_Nil] jwks
      anchor_errors_Nil [OF v(9), unfolded v(2)]
    unfolding Let_def by metis
qed

theorem valid_chain_authenticated_witness:
  "\<exists>ta jwks st. vc_trustAnchorId example_valid = JStr ta \<and> map_of [(''https://ta'', example_jwks)] ta = Some jwks \<and>
     verifyEntityStatement (env_jose example_chain_env) ''ss'' jwks (chain_verify_options example_options) = Inr st"
  using valid_chain_authenticated [OF example_chain_valid] by (auto split: if_splits)

text \<open>What the constraints of one statement allow, and what stands of a type no superior allows.\<close>

definition type_allowed :: "string \<Rightarrow> parsed_statement \<Rightarrow> bool" where
  "type_allowed et s \<longleftrightarrow>
     et = ''federation_entity'' \<or>
     (let c = pget (payload s) ''constraints'' in
      truthy c \<longrightarrow> (\<forall>ts. allowed_entity_types (read_constraints c) = Some ts \<longrightarrow> et \<in> set ts))"

lemma constraint_step_types:
  assumes "constraint_step E parsed (errs, md) j = (errs', md')"
  shows "md' = filter (\<lambda>(et, em). type_allowed et (parsed ! j)) md"
proof -
  have "filter (\<lambda>(et, em). True) md = md" by simp
  then show ?thesis using assms
    by (auto simp: constraint_step_def Let_def type_allowed_def applyAllowedEntityTypes_def
        intro!: filter_cong split: if_splits option.splits)
qed

lemma constraint_fold_types:
  assumes "foldl (constraint_step E parsed) (errs0, md) js = (errs, md')"
  shows "fst ` set md' = {et \<in> fst ` set md. \<forall>j \<in> set js. type_allowed et (parsed ! j)}"
  using assms
proof (induction js arbitrary: errs0 md)
  case (Cons j js)
  obtain e m where em: "constraint_step E parsed (errs0, md) j = (e, m)"
    by (cases "constraint_step E parsed (errs0, md) j")
  with Cons.IH [of e m] Cons.prems constraint_step_types [OF em] show ?case by force
qed simp

lemma set_tl_nth: "set (tl xs) = (!) xs ` {1..<length xs}"
proof (cases xs)
  case (Cons y ys)
  have "{1..<Suc (length ys)} = Suc ` {..<length ys}"
    by (simp add: image_Suc_lessThan atLeastLessThanSuc_atLeastAtMost)
  then show ?thesis by (auto simp: Cons set_conv_nth image_iff)
qed simp

lemma merge_superior_keys: "fst ` set (merge_superior over md) = fst ` set md"
proof (induction over arbitrary: md)
  case (Cons e over)
  obtain et ps where e: "e = (et, ps)" by (cases e)
  let ?m = "case map_of md et of None \<Rightarrow> md | Some ex \<Rightarrow> AList.update et (object_assign ex ps) md"
  have "fst ` set ?m = fst ` set md"
    by (cases "map_of md et") (auto simp: keys_update insert_absorb simp del: image_insert dest!: map_of_SomeD intro: rev_image_eqI)
  with Cons [of ?m] show ?case by (simp add: merge_superior_def e)
qed (simp add: merge_superior_def)

text \<open>The policy stage keeps every type and adds only what policies name.\<close>

lemma policy_stage_types:
  assumes "policy_stage options no_stage subs md = ([], resolved, pending)"
  shows "fst ` set md \<subseteq> fst ` set resolved"
    and "et \<in> fst ` set resolved \<Longrightarrow> et \<in> fst ` set md \<or> names_type subs et"
    and "et \<notin> fst ` set md \<Longrightarrow> pget (type_block resolved et) pn \<noteq> JUndef \<Longrightarrow> names_parameter subs et pn"
proof -
  have none: "pget (type_block md et) pn = JUndef" if "et \<notin> fst ` set md" for et pn
    using that by (simp add: type_block_def pget_def map_of_eq_None_iff [symmetric])
  consider "resolved = md"
    | policy where "resolveMetadataPolicy subs (customPolicyOperators options) = Inr policy"
        "applyMetadataPolicy md policy None (customPolicyOperators options) = Inr resolved"
    using assms by (auto simp: policy_stage_def no_stage_def fill_context_def addError_def Let_def
        split: if_splits sum.splits)
  then have "fst ` set md \<subseteq> fst ` set resolved \<and>
    (et \<in> fst ` set resolved \<longrightarrow> et \<in> fst ` set md \<or> names_type subs et) \<and>
    (et \<notin> fst ` set md \<longrightarrow> pget (type_block resolved et) pn \<noteq> JUndef \<longrightarrow> names_parameter subs et pn)" for et pn
  proof cases
    case 1
    then show ?thesis using none by simp
  next
    case 2
    have named: "named_only subs policy" using 2(1) by (rule resolve_named_only)
    then have nt: "et \<in> fst ` set policy \<Longrightarrow> names_type subs et"
      and np: "(et, ps) \<in> set policy \<Longrightarrow> k \<in> fst ` set ps \<Longrightarrow> names_parameter subs et k" for et ps k
      unfolding named_only_def by fastforce+
    have "pget (type_block resolved et) pn = pget (type_block md et) pn" if "\<not> names_parameter subs et pn"
      using apply_policy_frame [OF 2(2) resolve_keys_once [OF 2(1)], of et pn] np that by auto
    then show ?thesis using applied_keys [OF 2(2)] none nt by (cases "names_parameter subs et pn") auto
  qed
  then show "fst ` set md \<subseteq> fst ` set resolved"
    and "et \<in> fst ` set resolved \<Longrightarrow> et \<in> fst ` set md \<or> names_type subs et"
    and "et \<notin> fst ` set md \<Longrightarrow> pget (type_block resolved et) pn \<noteq> JUndef \<Longrightarrow> names_parameter subs et pn"
    by blast+
qed

text \<open>
  C3: An accepted chain respects the constraints of every superior. For every statement above the
  leaf: at most \<open>max_path_length\<close> intermediates stand between it and the leaf; the host name of every
  entity below it matches no excluded pattern and, if there is a permitted list, some pattern of it.
  Of the leaf's entity types exactly those all superiors allow are kept: a type the leaf declares
  and every \<open>allowed_entity_types\<close> lists (\<open>federation_entity\<close> always) is in the resolved metadata, and
  of any other type nothing that the leaf or its superior's \<open>metadata\<close> states is left. Such a type is
  in the resolved metadata only if a subordinate statement's \<open>metadata_policy\<close> names it, with no
  parameter that none of these policies names: the policies are applied after the filter and may
  create the type anew. And a subordinate statement about an entity is used only if the entity, when
  it has authority hints, lists the statement's issuer among them.
\<close>
theorem valid_chain_constrained:
  assumes "validateTrustChain E chain trustAnchors options = Valid vc"
  shows "(\<forall>j. 0 < j \<longrightarrow> j < length chain \<longrightarrow>
      (let c = pget (payload (vc_statements vc ! j)) ''constraints'' in truthy c \<longrightarrow>
        (\<forall>m. max_path_length (read_constraints c) = Some m \<longrightarrow> of_nat j - 1 \<le> m) \<and>
        (\<forall>nc. naming (read_constraints c) = Some nc \<longrightarrow> (\<forall>i < j.
           let h = env_hostname E (str_of (sub_of (vc_statements vc ! i))) in
           (\<forall>ps. excluded nc = Some ps \<longrightarrow> (\<forall>p \<in> set ps. \<not> matchesDomainPattern h p)) \<and>
           (\<forall>ps. permitted nc = Some ps \<longrightarrow> (\<exists>p \<in> set ps. matchesDomainPattern h p))))) \<and>
      (\<not> is_ec (payload (vc_statements vc ! j)) \<longrightarrow> is_ec (payload (vc_statements vc ! (j - 1))) \<longrightarrow>
        truthy (pget (payload (vc_statements vc ! (j - 1))) ''authority_hints'') \<longrightarrow>
        (\<exists>h \<in> set (items (pget (payload (vc_statements vc ! (j - 1))) ''authority_hints'')).
           strict_eq (iss_of (vc_statements vc ! j)) h))) \<and>
    (let declared = fst ` set (entries (pget (payload (vc_statements vc ! 0)) ''metadata''));
         allowed = (\<lambda>et. \<forall>s \<in> set (tl (vc_statements vc)). type_allowed et s);
         subs = subordinate_statements (vc_statements vc);
         resolved = vc_resolvedMetadata vc in
      (\<forall>et \<in> declared. allowed et \<longrightarrow> et \<in> fst ` set resolved) \<and>
      (\<forall>et \<in> fst ` set resolved. et \<in> declared \<and> allowed et \<or> names_type subs et) \<and>
      (\<forall>et pn. \<not> allowed et \<longrightarrow> pget (type_block resolved et) pn \<noteq> JUndef \<longrightarrow> names_parameter subs et pn))"
proof -
  obtain pending where run: "validateTrustChainImpl E options chain trustAnchors True no_stage = (Valid vc, pending)"
    using validateTrustChain_Impl [OF assms(1)] by blast
  note v = valid_chain_links [OF run]
  let ?vs = "vc_statements vc"
  obtain md1 md2 where md1: "md1 = (case subordinate_statements ?vs of [] \<Rightarrow> read_metadata (pget (payload (hd ?vs)) ''metadata'')
            | s # _ \<Rightarrow> merge_superior (read_metadata (pget (payload s) ''metadata''))
                        (read_metadata (pget (payload (hd ?vs)) ''metadata'')))"
    and fold: "foldl (constraint_step E ?vs) ([], md1) [1..<length ?vs] = ([], md2)"
    and pol: "policy_stage options no_stage (subordinate_statements ?vs) md2 = ([], vc_resolvedMetadata vc, pending)"
    using metadata_stage_accepts [OF v(12)] .
  have c: "truthy (pget (payload (?vs ! j)) ''constraints'') \<longrightarrow>
      checkConstraints (env_hostname E) (read_constraints (pget (payload (?vs ! j)) ''constraints'')) j ?vs = Inr ()"
    if "0 < j" "j < length chain" for j
    using constraint_fold_ok [OF fold] that v(2) by fastforce
  have h: "unlisted_issuer_error ?vs j = []" if "0 < j" "j < length chain" for j
    using hints_errors_Nil [OF v(10) that(1)] that(2) v(2) by simp
  have ne: "?vs \<noteq> []" using v(1,2) by auto
  have keys1: "fst ` set md1 = fst ` set (entries (pget (payload (?vs ! 0)) ''metadata''))"
    using ne by (auto simp: md1 merge_superior_keys read_metadata_def hd_conv_nth image_image case_prod_beta
        split: list.splits)
  have tl: "set (tl ?vs) = (!) ?vs ` {1..<length ?vs}" by (rule set_tl_nth)
  have keys2: "fst ` set md2 = {et \<in> fst ` set (entries (pget (payload (?vs ! 0)) ''metadata'')).
      \<forall>s \<in> set (tl ?vs). type_allowed et s}"
    using constraint_fold_types [OF fold] by (simp add: keys1 tl)
  note st = policy_stage_types [OF pol]
  let ?declared = "fst ` set (entries (pget (payload (?vs ! 0)) ''metadata''))"
  let ?allowed = "\<lambda>et. \<forall>s \<in> set (tl ?vs). type_allowed et s"
  let ?subs = "subordinate_statements ?vs" and ?r = "vc_resolvedMetadata vc"
  have types: "\<forall>et \<in> ?declared. ?allowed et \<longrightarrow> et \<in> fst ` set ?r"
    "\<forall>et \<in> fst ` set ?r. et \<in> ?declared \<and> ?allowed et \<or> names_type ?subs et"
    "\<forall>et pn. \<not> ?allowed et \<longrightarrow> pget (type_block ?r et) pn \<noteq> JUndef \<longrightarrow> names_parameter ?subs et pn"
    using st unfolding keys2 by blast+
  have limits: "let c = pget (payload (?vs ! j)) ''constraints'' in truthy c \<longrightarrow>
        (\<forall>m. max_path_length (read_constraints c) = Some m \<longrightarrow> of_nat j - 1 \<le> m) \<and>
        (\<forall>nc. naming (read_constraints c) = Some nc \<longrightarrow> (\<forall>i < j.
           let h = env_hostname E (str_of (sub_of (?vs ! i))) in
           (\<forall>ps. excluded nc = Some ps \<longrightarrow> (\<forall>p \<in> set ps. \<not> matchesDomainPattern h p)) \<and>
           (\<forall>ps. permitted nc = Some ps \<longrightarrow> (\<exists>p \<in> set ps. matchesDomainPattern h p))))"
    if "0 < j" "j < length chain" for j
    using c [OF that] unfolding checkConstraints_iff Let_def by (auto simp: diff_le_eq)
  have hints: "\<exists>h \<in> set (items (pget (payload (?vs ! (j - 1))) ''authority_hints'')). strict_eq (iss_of (?vs ! j)) h"
    if "0 < j" "j < length chain" "\<not> is_ec (payload (?vs ! j))" "is_ec (payload (?vs ! (j - 1)))"
      "truthy (pget (payload (?vs ! (j - 1))) ''authority_hints'')" for j
    using h [OF that(1,2)] that(3-5) by (auto simp: unlisted_issuer_error_def Let_def list_ex_iff split: if_splits)
  show ?thesis
    unfolding Let_def [where s = ?declared] Let_def [where s = ?allowed] Let_def [where s = ?subs] Let_def [where s = ?r]
    using limits hints types by blast
qed

theorem valid_chain_constrained_witness:
  "type_allowed ''rp'' \<lparr>header = example_header, payload = example_ss\<rparr> \<and>
   ''rp'' \<in> fst ` set (vc_resolvedMetadata example_valid)"
proof -
  have t: "type_allowed ''rp'' \<lparr>header = example_header, payload = example_ss\<rparr>"
    by (simp add: type_allowed_def example_ss_def pget_def read_constraints_def string_list_def Let_def)
  have "\<forall>et \<in> fst ` set (entries (pget (payload (vc_statements example_valid ! 0)) ''metadata'')).
      (\<forall>s \<in> set (tl (vc_statements example_valid)). type_allowed et s) \<longrightarrow> et \<in> fst ` set (vc_resolvedMetadata example_valid)"
    using valid_chain_constrained [OF example_chain_valid] unfolding Let_def by (elim conjE)
  then show ?thesis using t by (simp add: example_valid_def example_leaf_def pget_def)
qed

lemma chain_expiration:
  assumes "chain \<noteq> []"
  shows "\<exists>s \<in> set chain. calculateChainExpiration chain = num_of (pget (payload s) ''exp'')"
    and "\<forall>s \<in> set chain. calculateChainExpiration chain \<le> num_of (pget (payload s) ''exp'')"
  using assms by (induction chain rule: calculateChainExpiration.induct) (auto simp: min_def)

text \<open>
  The expiry of an accepted chain is the earliest expiry of its statements, and at validation
  time it has not passed, up to the clock skew.
\<close>
lemma valid_chain_expiry:
  assumes "validateTrustChain E chain trustAnchors options = Valid vc"
    and "\<forall>s \<in> set (vc_statements vc). is_num (pget (payload s) ''exp'')"
  shows "(\<forall>s \<in> set (vc_statements vc). vc_expiresAt vc \<le> num_of (pget (payload s) ''exp'')) \<and>
    (\<exists>s \<in> set (vc_statements vc). vc_expiresAt vc = num_of (pget (payload s) ''exp'')) \<and>
    nowSeconds (env_now E) (co_clock options) - skew_of (co_skew options) \<le> vc_expiresAt vc"
proof -
  obtain pending where run: "validateTrustChainImpl E options chain trustAnchors True no_stage = (Valid vc, pending)"
    using validateTrustChain_Impl [OF assms(1)] by blast
  note v = valid_chain_links [OF run]
  have ne: "vc_statements vc \<noteq> []" using v(1,2) by auto
  obtain s where s: "s \<in> set (vc_statements vc)" "vc_expiresAt vc = num_of (pget (payload s) ''exp'')"
    using chain_expiration(1) [OF ne] v(11) by auto
  then obtain j where j: "j < length chain" "s = vc_statements vc ! j" using v(2) by (metis in_set_conv_nth)
  obtain t where t: "pget (payload s) ''exp'' = JNum t" using assms(2) s(1) by (auto elim: is_num.elims)
  have "check_times (chain_now E options) (skew_of (co_skew options)) (payload s) j = []"
    using check_statement_Nil(3) v(4) j by blast
  then have "chain_now E options - skew_of (co_skew options) \<le> t" using t by (simp add: check_times_Nil)
  then have "nowSeconds (env_now E) (co_clock options) - skew_of (co_skew options) \<le> vc_expiresAt vc"
    using s(2) t by (simp add: chain_now_def)
  moreover have "\<exists>s \<in> set (vc_statements vc). vc_expiresAt vc = num_of (pget (payload s) ''exp'')"
    using s by blast
  ultimately show ?thesis using chain_expiration(2) [OF ne] v(11) by simp
qed

lemma valid_chain_expiry_witness: "(100 :: number) - 60 \<le> vc_expiresAt example_valid"
proof -
  have "\<forall>s \<in> set (vc_statements example_valid). is_num (pget (payload s) ''exp'')"
    by (simp add: example_valid_def example_leaf_def example_ss_def pget_def)
  from valid_chain_expiry [OF example_chain_valid this] show ?thesis
    by (simp add: nowSeconds_def example_options_def example_chain_env_def example_env_def skew_of_def DEFAULT_CLOCK_SKEW_SECONDS_def)
qed

lemma fill_parameter_value:
  "block_value (fill_parameter type md (p, v)) et pn =
     (if et = type \<and> pn = p \<and> map_of md type \<noteq> None \<and> block_value md et pn = JUndef then v else block_value md et pn)"
  by (auto simp: fill_parameter_def type_block_def split: option.splits)

lemma md_ordinary_fill_parameter: "md_ordinary md \<Longrightarrow> ordinary (snd e) \<Longrightarrow> md_ordinary (fill_parameter type md e)"
proof -
  assume md: "md_ordinary md" and v: "ordinary (snd e)"
  obtain p v where e: "e = (p, v)" by (cases e)
  show ?thesis
  proof (cases "map_of md type")
    case (Some em)
    have "\<forall>(k, x) \<in> set em. ordinary x" using md map_of_SomeD [OF Some] unfolding md_ordinary_def by fast
    then have "\<forall>(k, x) \<in> set (AList.update p v em). ordinary x" using v e by (fastforce dest: set_AList_update)
    then show ?thesis using md Some by (fastforce simp: fill_parameter_def e md_ordinary_def dest: set_AList_update)
  qed (use md in \<open>simp add: fill_parameter_def e\<close>)
qed

lemma md_ordinary_fill: "md_ordinary ctx \<Longrightarrow> md_ordinary md \<Longrightarrow> md_ordinary (fill_context ctx md)"
proof (induction ctx arbitrary: md)
  case (Cons e ctx)
  obtain ty vs where e: "e = (ty, vs)" by (cases e)
  have "md_ordinary m \<Longrightarrow> \<forall>(k, x) \<in> set ws. ordinary x \<Longrightarrow> md_ordinary (foldl (fill_parameter ty) m ws)" for m ws
    by (induction ws arbitrary: m) (auto simp: md_ordinary_fill_parameter)
  moreover have "\<forall>(k, x) \<in> set vs. ordinary x" using Cons.prems(1) by (simp add: e md_ordinary_def)
  ultimately have "md_ordinary (foldl (fill_parameter ty) md vs)" using Cons.prems(2) by blast
  with Cons show ?case by (simp add: fill_context_def e md_ordinary_def)
qed (simp add: fill_context_def)

text \<open>The policies of a chain hold of its resolved metadata, with or without contextual values.\<close>

lemma stage_policy_enforced:
  assumes run: "validateTrustChainImpl E options chain trustAnchors verifyMarks stage = (Valid vc, pending)"
    and stage: "st_deferred stage = []" "md_ordinary (st_context stage)"
    and custom: "customPolicyOperators options = None"
    and ord: "\<forall>s \<in> set (vc_statements vc). ordinary_statement s"
    and stmt: "stmt \<in> set (subordinate_statements (vc_statements vc))"
      "(et, pp) \<in> set (entries (pget (payload stmt) ''metadata_policy''))"
      "(pn, oe) \<in> set (entries pp)" "(n, v) \<in> set (entries oe)" "n \<in> set STANDARD_OPERATOR_NAMES"
  shows "\<exists>p u. block_value (vc_resolvedMetadata vc) et pn = policy_output pn p u \<and> satisfies n v u"
proof -
  note v = valid_chain_links [OF run]
  have ne: "vc_statements vc \<noteq> []" using v(1,2) by auto
  let ?subs = "subordinate_statements (vc_statements vc)"
  obtain md1 md2 where md1: "md1 = (case ?subs of [] \<Rightarrow> read_metadata (pget (payload (hd (vc_statements vc))) ''metadata'')
            | s # _ \<Rightarrow> merge_superior (read_metadata (pget (payload s) ''metadata''))
                        (read_metadata (pget (payload (hd (vc_statements vc))) ''metadata'')))"
    and fold: "foldl (constraint_step E (vc_statements vc)) ([], md1) [1..<length (vc_statements vc)] = ([], md2)"
    and pol: "policy_stage options stage ?subs md2 = ([], vc_resolvedMetadata vc, pending)"
    using metadata_stage_accepts [OF v(12)] .
  have "md_ordinary md2" using fold md_ordinary_stage [OF ord ne md1] by (rule constraint_fold_ordinary)
  then have ordinary2: "md_ordinary (fill_context (st_context stage) md2)" using stage(2) md_ordinary_fill by blast
  have sub_ordinary: "\<forall>s \<in> set ?subs. ordinary_policy s"
    using ord subordinate_subset [OF ne] by (auto simp: ordinary_statement_def)
  obtain policy where res: "resolveMetadataPolicy ?subs None = Inr policy"
    using pol custom stmt(1) by (auto simp: policy_stage_def addError_def split: if_splits sum.splits)
  have "strict_for et pn n v (ops_of policy)" using res sub_ordinary stmt by (rule resolve_strict_for)
  then have "policy \<noteq> []" by (auto simp: strict_for_def pget_def)
  then have app: "applyMetadataPolicy (fill_context (st_context stage) md2) policy None None = Inr (vc_resolvedMetadata vc)"
    using pol res custom stmt(1) stage(1)
    by (auto simp: policy_stage_def Let_def addError_def split: if_splits sum.splits)
  show ?thesis
    using policy_enforced [OF res sub_ordinary app refl _ stmt] md_ordinary_value [OF ordinary2] by auto
qed

text \<open>
  C2: The metadata of an accepted chain obeys every superior. Each standard operator a subordinate
  statement of the chain sets on a parameter in its \<open>metadata_policy\<close> holds of that parameter's value
  \<open>u\<close> in the resolved metadata, after the immediate superior's metadata, the entity type filters and
  all policies: it equals a \<open>value\<close> (and is absent for the value null), contains what is to be added,
  is present for \<open>default\<close> and a true \<open>essential\<close>, is absent or one of the \<open>one_of\<close> values, absent or
  an array within \<open>subset_of\<close>, absent or an array that contains \<open>superset_of\<close>. The metadata holds \<open>u\<close>
  itself, or, for a \<open>scope\<close> that came as a string, its words joined by spaces (\<open>policy_output\<close>). No
  custom operator is configured: one could change the value after a check. And in the metadata and
  policies of the chain no object has a member named \<open>length\<close> or \<open>__proto__\<close>, which the comparison
  takes for something else (\<open>special_names_break_merge\<close>).
\<close>
theorem valid_chain_policy:
  assumes "validateTrustChain E chain trustAnchors options = Valid vc"
    and "customPolicyOperators options = None"
    and "\<forall>s \<in> set (vc_statements vc). ordinary_statement s"
    and "stmt \<in> set (subordinate_statements (vc_statements vc))"
    and "(et, pp) \<in> set (entries (pget (payload stmt) ''metadata_policy''))"
    and "(pn, oe) \<in> set (entries pp)" and "(n, v) \<in> set (entries oe)"
    and "n \<in> set STANDARD_OPERATOR_NAMES"
  shows "\<exists>p u. pget (type_block (vc_resolvedMetadata vc) et) pn = policy_output pn p u \<and> satisfies n v u"
proof -
  obtain pending where run: "validateTrustChainImpl E options chain trustAnchors True no_stage = (Valid vc, pending)"
    using validateTrustChain_Impl [OF assms(1)] by blast
  show ?thesis
    using run _ _ assms(2-8) by (rule stage_policy_enforced) (simp_all add: no_stage_def md_ordinary_def)
qed

theorem valid_chain_policy_witness:
  "satisfies ''subset_of'' (JArr [JStr ''a'', JStr ''b'']) (JArr [JStr ''a''])"
proof -
  have "\<forall>s \<in> set (vc_statements example_valid). ordinary_statement s" by code_simp
  from valid_chain_policy [OF example_chain_valid _ this, of "\<lparr>header = example_header, payload = example_ss\<rparr>"
      "''rp''" _ "''grants''" _ "''subset_of''" "JArr [JStr ''a'', JStr ''b'']"]
  show ?thesis
    by (simp add: example_options_def example_valid_def example_ss_def subordinate_statements_def pget_def
        STANDARD_OPERATOR_NAMES_def type_block_def)
qed

text \<open>
  Asking for verbose errors changes what a failure tells and never the verdict: the same chains
  are accepted with the same result.
\<close>
lemma verbose_errors_do_not_matter:
  "validateTrustChain E chain trustAnchors (options\<lparr>verboseErrors := b\<rparr>) = Valid vc \<longleftrightarrow>
   validateTrustChain E chain trustAnchors options = Valid vc"
proof -
  let ?o = "options\<lparr>verboseErrors := b\<rparr>"
  have f: "fail_with o' e \<noteq> Valid vc" for o' e by (simp add: fail_with_def)
  have sel: "customPolicyOperators ?o = customPolicyOperators options" "co_skew ?o = co_skew options"
    "co_clock ?o = co_clock options" "trustMarkIssuerKeys ?o = trustMarkIssuerKeys options"
    "explicitRegistrationAudience ?o = explicitRegistrationAudience options"
    "understoodCriticalClaims ?o = understoodCriticalClaims options" by simp_all
  have vo: "chain_verify_options ?o = chain_verify_options options" by (simp add: chain_verify_options_def)
  have pol: "policy_stage ?o = policy_stage options" by (intro ext) (simp only: policy_stage_def sel)
  have tm: "check_trust_mark E ?o = check_trust_mark E options" by (intro ext) (simp only: check_trust_mark_def sel)
  have reg: "check_registration_claims ?o = check_registration_claims options"
    by (intro ext) (simp only: check_registration_claims_def sel)
  have link: "link_error E ?o = link_error E options" by (intro ext) (simp only: link_error_def vo)
  have same: "check_statement E ?o = check_statement E options" "leaf_errors E ?o = leaf_errors E options"
    "link_errors E ?o = link_errors E options" "anchor_errors E ?o = anchor_errors E options"
    "metadata_stage_result E ?o = metadata_stage_result E options" "trust_mark_stage E ?o = trust_mark_stage E options"
    unfolding fun_eq_iff check_statement_def leaf_errors_def link_errors_def anchor_errors_def
      metadata_stage_result_def trust_mark_stage_def vo pol tm reg link sel
    by simp_all
  have auth: "authenticate_leaf E ?o chain = Inr r \<longleftrightarrow> authenticate_leaf E options chain = Inr r" for r
    by (auto simp: authenticate_leaf_def statement_errors_def same Let_def split: sum.splits)
  have inl: "authenticate_leaf E o' chain \<noteq> Inl (Valid vc)" for o'
    by (auto simp: authenticate_leaf_def Let_def fail_with_def split: sum.splits if_splits)
  show ?thesis
  proof (cases "authenticate_leaf E options chain")
    case (Inl a)
    then obtain c where "authenticate_leaf E ?o chain = Inl c" using auth by (cases "authenticate_leaf E ?o chain") auto
    with Inl inl [of options] inl [of ?o] show ?thesis by (auto simp: validateTrustChain_def validateTrustChainImpl_def)
  next
    case (Inr r)
    with auth have "authenticate_leaf E ?o chain = Inr r" by blast
    with Inr f show ?thesis
      by (cases r) (auto simp: validateTrustChain_def validateTrustChainImpl_def same Let_def split: prod.splits if_splits)
  qed
qed

section \<open>Preparing and completing a validation\<close>

text \<open>The \<open>WeakMap\<close> from prepared chains to what was saved for them: a prepared chain is known by the
  handle it got, and only \<open>prepareTrustChainValidation\<close> makes handles. The messages of failures are
  the constructors below.\<close>

record saved_preparation =
  sp_chain :: "string list"
  sp_anchors :: "jsval dict"
  sp_options :: chain_options
  sp_pending :: "claim_ref list"

record prepared_chain =
  pr_handle :: nat
  pr_entityId :: jsval
  pr_trustAnchorId :: jsval
  pr_expiresAt :: number
  pr_resolvedMetadata :: metadata
  pr_statements :: "parsed_statement list"
  pr_pendingClaims :: "claim_ref list"

datatype validation_failure =
    Cancelled
  | ContextNotObject
  | UnknownPreparation
  | UnreservedField
  | ChainErrors "validation_error list"

type_synonym preparations = "saved_preparation list" \<comment> \<open>the handle is the position\<close>

text \<open>\<open>abortedBefore\<close> and \<open>abortedAfter\<close> are what the abort signal says at the two places it is read.\<close>

definition prepareTrustChainValidation ::
  "chain_env \<Rightarrow> string list \<Rightarrow> jsval dict \<Rightarrow> chain_options \<Rightarrow> claim_ref list \<Rightarrow> bool \<Rightarrow> bool \<Rightarrow> preparations \<Rightarrow>
   (validation_failure, prepared_chain) result \<times> preparations"
where
  "prepareTrustChainValidation E chain anchors options deferredClaims abortedBefore abortedAfter preps =
     (if abortedBefore then (Inl Cancelled, preps)
      else
        (case validateTrustChainImpl E options chain anchors True \<lparr>st_deferred = deferredClaims, st_context = []\<rparr> of
           (Invalid errs, _) \<Rightarrow> (Inl (ChainErrors errs), preps)
         | (Valid vc, pending) \<Rightarrow>
             if abortedAfter then (Inl Cancelled, preps)
             else (Inr \<lparr>pr_handle = length preps, pr_entityId = vc_entityId vc, pr_trustAnchorId = vc_trustAnchorId vc,
                      pr_expiresAt = vc_expiresAt vc, pr_resolvedMetadata = vc_resolvedMetadata vc,
                      pr_statements = vc_statements vc, pr_pendingClaims = pending\<rparr>,
                   preps @ [\<lparr>sp_chain = chain, sp_anchors = anchors, sp_options = options, sp_pending = pending\<rparr>])))"

definition lookup_preparation :: "preparations \<Rightarrow> nat \<Rightarrow> saved_preparation option" where
  "lookup_preparation preps h = (if h < length preps then Some (preps ! h) else None)"

text \<open>The environment and options at completion: \<open>tick\<close> is the time the clock then gives.\<close>

definition env_at :: "number \<Rightarrow> chain_env \<Rightarrow> chain_env" where
  "env_at tick E = E\<lparr>env_now := tick\<rparr>"

definition options_at :: "number \<Rightarrow> chain_options \<Rightarrow> chain_options" where
  "options_at tick options = options\<lparr>co_clock := map_option (\<lambda>_. tick) (co_clock options)\<rparr>"

definition reserved :: "claim_ref list \<Rightarrow> string \<times> jsval \<Rightarrow> bool" where
  "reserved pending = (\<lambda>(type, parameters).
     isJsonObject parameters \<and>
     \<not> list_ex (\<lambda>(parameter, _). \<not> list_ex (\<lambda>(t, p). t = type \<and> p = parameter) pending) (entries parameters))"

definition completeTrustChainValidation ::
  "chain_env \<Rightarrow> number \<Rightarrow> prepared_chain \<Rightarrow> jsval \<Rightarrow> bool \<Rightarrow> bool \<Rightarrow> preparations \<Rightarrow>
   (validation_failure, validated_chain) result"
where
  "completeTrustChainValidation E tick prepared context' abortedBefore abortedAfter preps =
     (if \<not> isJsonObject context' then Inl ContextNotObject
      else
        (case lookup_preparation preps (pr_handle prepared) of
           None \<Rightarrow> Inl UnknownPreparation
         | Some saved \<Rightarrow>
             if abortedBefore \<or> pr_expiresAt prepared \<le> tick then Inl UnknownPreparation
             else if list_ex (\<lambda>e. \<not> reserved (sp_pending saved) e) (entries context') then Inl UnreservedField
             else
               (case validateTrustChainImpl (env_at tick E) (options_at tick (sp_options saved)) (sp_chain saved)
                       (sp_anchors saved) True \<lparr>st_deferred = [], st_context = read_metadata context'\<rparr> of
                  (Invalid errs, _) \<Rightarrow> Inl (ChainErrors errs)
                | (Valid vc, _) \<Rightarrow> if abortedAfter then Inl Cancelled else Inr vc)))"

section \<open>Using validated chains\<close>

definition isChainExpired :: "number \<Rightarrow> validated_chain \<Rightarrow> bool" where
  "isChainExpired now vc \<longleftrightarrow> vc_expiresAt vc \<le> now"

definition chainRemainingTtl :: "number \<Rightarrow> validated_chain \<Rightarrow> number" where
  "chainRemainingTtl now vc = max 0 (vc_expiresAt vc - now)"

text \<open>\<open>chains.slice().sort(...)[0]\<close>; the sort is stable, and an empty list has no first element.\<close>

definition first_sorted :: "('a \<Rightarrow> number) \<Rightarrow> 'a list \<Rightarrow> 'a option" where
  "first_sorted key xs = (case sort_key key xs of [] \<Rightarrow> None | x # _ \<Rightarrow> Some x)"

definition shortestChain :: "validated_chain list \<Rightarrow> validated_chain option" where
  "shortestChain cs = first_sorted (\<lambda>c. of_nat (length (vc_statements c))) cs"

definition longestExpiry :: "validated_chain list \<Rightarrow> validated_chain option" where
  "longestExpiry cs = first_sorted (\<lambda>c. - vc_expiresAt c) cs"

definition preferTrustAnchor :: "string \<Rightarrow> validated_chain list \<Rightarrow> validated_chain option" where
  "preferTrustAnchor taId cs =
     (let matching = filter (\<lambda>c. vc_trustAnchorId c = JStr taId) cs in
      if length matching > 0 then shortestChain matching else shortestChain cs)"

section \<open>Properties of preparation, completion and selection\<close>

lemma fill_foldl_keeps:
  "block_value md et pn \<noteq> JUndef \<Longrightarrow> block_value (foldl (fill_parameter ty) md vs) et pn = block_value md et pn"
proof (induction vs arbitrary: md)
  case (Cons e vs)
  obtain p v where "e = (p, v)" by (cases e)
  with Cons show ?case by (auto simp: fill_parameter_value)
qed simp

lemma fill_context_keeps:
  "block_value md et pn \<noteq> JUndef \<Longrightarrow> block_value (fill_context ctx md) et pn = block_value md et pn"
proof (induction ctx arbitrary: md)
  case (Cons e ctx)
  obtain ty vs where e: "e = (ty, vs)" by (cases e)
  have "block_value (foldl (fill_parameter ty) md vs) et pn = block_value md et pn"
    using Cons.prems by (rule fill_foldl_keeps)
  with Cons.IH [of "foldl (fill_parameter ty) md vs"] Cons.prems show ?case by (simp add: fill_context_def e)
qed (simp add: fill_context_def)

lemma defer_pending:
  "set (snd (foldl (defer_claim md) (policy, pending) claims)) \<subseteq> set pending \<union> set claims"
proof (induction claims arbitrary: policy pending)
  case (Cons c claims)
  obtain p' q' where d: "defer_claim md (policy, pending) c = (p', q')" by (cases "defer_claim md (policy, pending) c")
  then have "set q' \<subseteq> insert c (set pending)"
    by (cases c) (auto simp: defer_claim_def split: option.splits if_splits)
  with Cons [of p' q'] d show ?case by auto
qed simp

lemma policy_stage_pending:
  assumes "policy_stage options stage subs md = (errs, resolved, pending)"
  shows "set pending \<subseteq> set (st_deferred stage)"
proof -
  have "set (snd (foldl (defer_claim m) (policy, []) (st_deferred stage))) \<subseteq> set (st_deferred stage)" for m policy
    using defer_pending [of m policy "[]"] by simp
  moreover have "pending = [] \<or> (\<exists>m policy. pending = snd (foldl (defer_claim m) (policy, []) (st_deferred stage)))"
    using assms
    by (auto simp: policy_stage_def Let_def split: if_splits sum.splits prod.splits) (metis snd_conv)+
  ultimately show ?thesis by auto
qed

text \<open>
  Preparation defers only what it was told to: the claims left pending are among the claims the
  caller named, and the prepared chain carries the identity, expiry and statements of a fully
  authenticated chain; nothing is saved when it fails.
\<close>
lemma preparation_defers_only_named:
  assumes "prepareTrustChainValidation E chain anchors options deferredClaims a b preps = (r, preps')"
  shows "(\<forall>f. r = Inl f \<longrightarrow> preps' = preps) \<and>
    (\<forall>prepared. r = Inr prepared \<longrightarrow>
       set (pr_pendingClaims prepared) \<subseteq> set deferredClaims \<and>
       (\<exists>vc. validateTrustChainImpl E options chain anchors True \<lparr>st_deferred = deferredClaims, st_context = []\<rparr> =
               (Valid vc, pr_pendingClaims prepared) \<and>
             pr_entityId prepared = vc_entityId vc \<and> pr_expiresAt prepared = vc_expiresAt vc \<and>
             pr_statements prepared = vc_statements vc) \<and>
       lookup_preparation preps' (pr_handle prepared) =
         Some \<lparr>sp_chain = chain, sp_anchors = anchors, sp_options = options, sp_pending = pr_pendingClaims prepared\<rparr>)"
proof (cases "validateTrustChainImpl E options chain anchors True \<lparr>st_deferred = deferredClaims, st_context = []\<rparr>")
  case (Pair res pending)
  show ?thesis
  proof (cases res)
    case (Valid vc)
    obtain md where "policy_stage options \<lparr>st_deferred = deferredClaims, st_context = []\<rparr>
        (subordinate_statements (vc_statements vc)) md = ([], vc_resolvedMetadata vc, pending)"
      using metadata_stage_accepts [OF valid_chain_links(12) [OF Pair [unfolded Valid]]] .
    from policy_stage_pending [OF this] have "set pending \<subseteq> set deferredClaims" by simp
    with assms Pair Valid show ?thesis
      by (auto simp: prepareTrustChainValidation_def lookup_preparation_def split: if_splits)
  qed (use assms Pair in \<open>auto simp: prepareTrustChainValidation_def split: if_splits\<close>)
qed

lemma example_stage:
  "validateTrustChainImpl example_chain_env example_options [''leaf'', ''ss''] [(''https://ta'', example_jwks)] True
     \<lparr>st_deferred = [(''rp'', ''grants''), (''rp'', ''name'')], st_context = []\<rparr> = (Valid example_valid, [])"
  by code_simp

lemma example_prepare:
  "prepareTrustChainValidation example_chain_env [''leaf'', ''ss''] [(''https://ta'', example_jwks)] example_options
     [(''rp'', ''grants''), (''rp'', ''name'')] False False [] =
   (Inr \<lparr>pr_handle = 0, pr_entityId = JStr ''https://rp'', pr_trustAnchorId = JStr ''https://ta'', pr_expiresAt = 500,
      pr_resolvedMetadata = [(''rp'', [(''grants'', JArr [JStr ''a''])])], pr_statements = vc_statements example_valid,
      pr_pendingClaims = []\<rparr>,
    [\<lparr>sp_chain = [''leaf'', ''ss''], sp_anchors = [(''https://ta'', example_jwks)], sp_options = example_options, sp_pending = []\<rparr>])"
  by (simp add: prepareTrustChainValidation_def example_stage) (simp add: example_valid_def)

lemma preparation_defers_only_named_witness:
  "\<exists>vc. validateTrustChainImpl example_chain_env example_options [''leaf'', ''ss''] [(''https://ta'', example_jwks)] True
     \<lparr>st_deferred = [(''rp'', ''grants''), (''rp'', ''name'')], st_context = []\<rparr> = (Valid vc, [])"
  using preparation_defers_only_named [OF example_prepare] by auto

text \<open>
  C32: Completion cannot smuggle metadata in. It succeeds only for a chain that was prepared and has
  not expired, with context values for pending claims only; the chain is validated again as a whole
  at the new time, nothing deferred; a context value never replaces a value that is there already; and
  every superior's policy holds of the metadata with the context values in it (no custom operators;
  the metadata, policies and context values ordinary, as for the chain itself).
\<close>
theorem completion_sound:
  assumes "completeTrustChainValidation E tick prepared ctx a b preps = Inr vc"
  shows "\<exists>saved pending. lookup_preparation preps (pr_handle prepared) = Some saved \<and> tick < pr_expiresAt prepared \<and>
    (\<forall>(et, ps) \<in> set (entries ctx). \<forall>(pn, v) \<in> set (entries ps). (et, pn) \<in> set (sp_pending saved)) \<and>
    validateTrustChainImpl (env_at tick E) (options_at tick (sp_options saved)) (sp_chain saved) (sp_anchors saved) True
      \<lparr>st_deferred = [], st_context = read_metadata ctx\<rparr> = (Valid vc, pending) \<and>
    (\<forall>md et pn. pget (type_block md et) pn \<noteq> JUndef \<longrightarrow>
       pget (type_block (fill_context (read_metadata ctx) md) et) pn = pget (type_block md et) pn) \<and>
    (customPolicyOperators (sp_options saved) = None \<longrightarrow> ordinary ctx \<longrightarrow>
     (\<forall>s \<in> set (vc_statements vc). ordinary_statement s) \<longrightarrow>
     (\<forall>stmt \<in> set (subordinate_statements (vc_statements vc)).
        \<forall>(et, pp) \<in> set (entries (pget (payload stmt) ''metadata_policy'')). \<forall>(pn, oe) \<in> set (entries pp).
        \<forall>(n, v) \<in> set (entries oe). n \<in> set STANDARD_OPERATOR_NAMES \<longrightarrow>
          (\<exists>p u. pget (type_block (vc_resolvedMetadata vc) et) pn = policy_output pn p u \<and> satisfies n v u)))"
proof -
  obtain saved pending where l: "lookup_preparation preps (pr_handle prepared) = Some saved" "tick < pr_expiresAt prepared"
    and res: "\<not> list_ex (\<lambda>e. \<not> reserved (sp_pending saved) e) (entries ctx)"
    and run: "validateTrustChainImpl (env_at tick E) (options_at tick (sp_options saved)) (sp_chain saved) (sp_anchors saved) True
      \<lparr>st_deferred = [], st_context = read_metadata ctx\<rparr> = (Valid vc, pending)"
    using assms
    by (auto simp: completeTrustChainValidation_def not_le split: if_splits option.splits prod.splits validation_result.splits)
  have named: "\<forall>(et, ps) \<in> set (entries ctx). \<forall>(pn, v) \<in> set (entries ps). (et, pn) \<in> set (sp_pending saved)"
    using res by (fastforce simp: list_ex_iff reserved_def)
  have pol: "\<exists>p u. pget (type_block (vc_resolvedMetadata vc) et) pn = policy_output pn p u \<and> satisfies n v u"
    if "customPolicyOperators (sp_options saved) = None" "ordinary ctx" "\<forall>s \<in> set (vc_statements vc). ordinary_statement s"
      "stmt \<in> set (subordinate_statements (vc_statements vc))"
      "(et, pp) \<in> set (entries (pget (payload stmt) ''metadata_policy''))" "(pn, oe) \<in> set (entries pp)"
      "(n, v) \<in> set (entries oe)" "n \<in> set STANDARD_OPERATOR_NAMES" for stmt et pp pn oe n v
    using run _ _ _ that(3-8)
    by (rule stage_policy_enforced) (use that(1,2) in \<open>simp_all add: options_at_def md_ordinary_read opt_ordinary_def\<close>)
  show ?thesis
    using l named run fill_context_keeps pol by (intro exI [of _ saved] exI [of _ pending]) blast
qed

lemma example_complete:
  "completeTrustChainValidation example_chain_env 200
     \<lparr>pr_handle = 0, pr_entityId = JStr ''https://rp'', pr_trustAnchorId = JStr ''https://ta'', pr_expiresAt = 500,
      pr_resolvedMetadata = [], pr_statements = [], pr_pendingClaims = []\<rparr> (JObj []) False False
     [\<lparr>sp_chain = [''leaf'', ''ss''], sp_anchors = [(''https://ta'', example_jwks)], sp_options = example_options, sp_pending = []\<rparr>] =
   Inr example_valid"
proof -
  have "validateTrustChainImpl (env_at 200 example_chain_env) (options_at 200 example_options) [''leaf'', ''ss'']
      [(''https://ta'', example_jwks)] True \<lparr>st_deferred = [], st_context = read_metadata (JObj [])\<rparr> = (Valid example_valid, [])"
    by code_simp
  then show ?thesis by (simp add: completeTrustChainValidation_def lookup_preparation_def)
qed

theorem completion_sound_witness:
  "\<exists>saved. lookup_preparation
     [\<lparr>sp_chain = [''leaf'', ''ss''], sp_anchors = [(''https://ta'', example_jwks)], sp_options = example_options, sp_pending = []\<rparr>] 0 =
     Some saved \<and> (200 :: number) < 500"
  using completion_sound [OF example_complete] by auto

lemma first_sorted_first:
  assumes "first_sorted key xs = Some x"
  shows "\<exists>us vs. xs = us @ x # vs \<and> (\<forall>y \<in> set us. key x < key y) \<and> (\<forall>y \<in> set vs. key x \<le> key y)"
proof -
  obtain zs where s: "sort_key key xs = x # zs"
    using assms by (cases "sort_key key xs") (auto simp: first_sorted_def)
  have min: "key x \<le> key y" if "y \<in> set xs" for y
  proof -
    have "y \<in> set (x # zs)" using that s by (metis set_sort)
    moreover have "sorted (map key (x # zs))" using sorted_sort_key [of key xs] s by simp
    ultimately show ?thesis by auto
  qed
  have st: "filter (\<lambda>y. key y = key x) xs = x # filter (\<lambda>y. key y = key x) zs"
    using sort_key_stable [of key "key x" xs] s by simp
  have xin: "x \<in> set xs" using s by (metis list.set_intros(1) set_sort)
  let ?P = "\<lambda>y. key y \<noteq> key x"
  let ?us = "takeWhile ?P xs"
  obtain w vs where d: "dropWhile ?P xs = w # vs"
    using xin by (cases "dropWhile ?P xs") (auto simp: dropWhile_eq_Nil_conv)
  have w: "key w = key x" using hd_dropWhile [of ?P xs] d by auto
  have split: "xs = ?us @ w # vs" using takeWhile_dropWhile_id [of ?P xs] d by simp
  have none: "filter (\<lambda>y. key y = key x) ?us = []" by (auto simp: filter_empty_conv dest: set_takeWhileD)
  have "filter (\<lambda>y. key y = key x) xs = w # filter (\<lambda>y. key y = key x) vs"
    by (subst split) (simp only: filter_append none w filter.simps append_Nil simp_thms if_True)
  then have wx: "w = x" using st by simp
  have us: "key x < key y" if "y \<in> set ?us" for y
    using min [of y] set_takeWhileD [OF that] by (auto simp: less_le)
  have vs: "key x \<le> key y" if "y \<in> set vs" for y
  proof -
    have "set vs \<subseteq> set xs" using set_dropWhileD [of _ ?P xs] by (auto simp: d)
    then show ?thesis using min that by blast
  qed
  show ?thesis using split us vs unfolding wx by blast
qed

lemma first_sorted_None: "first_sorted key xs = None \<longleftrightarrow> xs = []"
  by (simp add: first_sorted_def split: list.splits) (metis length_0_conv length_sort list.distinct(1))

lemma shortest_min:
  assumes "shortestChain cs = Some c"
  shows "c \<in> set cs" and "d \<in> set cs \<Longrightarrow> length (vc_statements c) \<le> length (vc_statements d)"
  using first_sorted_first [OF assms [unfolded shortestChain_def]] by (auto simp: less_imp_le)

text \<open>
  Chain selection does what its names say. From a non-empty list each strategy returns a member:
  \<open>shortestChain\<close> one with the fewest statements and \<open>longestExpiry\<close> one that expires last, in both
  cases the first such chain of the list; \<open>preferTrustAnchor\<close> the shortest of those that end at the
  anchor if there are any, and the shortest of all otherwise.
\<close>
lemma chain_selection:
  assumes "cs \<noteq> []"
  shows "(\<exists>c us vs. shortestChain cs = Some c \<and> cs = us @ c # vs \<and>
      (\<forall>d \<in> set us. length (vc_statements c) < length (vc_statements d)) \<and>
      (\<forall>d \<in> set vs. length (vc_statements c) \<le> length (vc_statements d))) \<and>
    (\<exists>c us vs. longestExpiry cs = Some c \<and> cs = us @ c # vs \<and>
      (\<forall>d \<in> set us. vc_expiresAt d < vc_expiresAt c) \<and> (\<forall>d \<in> set vs. vc_expiresAt d \<le> vc_expiresAt c)) \<and>
    (\<exists>c \<in> set cs. preferTrustAnchor ta cs = Some c \<and>
      ((\<exists>d \<in> set cs. vc_trustAnchorId d = JStr ta) \<longrightarrow> vc_trustAnchorId c = JStr ta) \<and>
      (\<forall>d \<in> set cs. vc_trustAnchorId d = vc_trustAnchorId c \<longrightarrow> length (vc_statements c) \<le> length (vc_statements d)))"
proof (intro conjI)
  obtain c where c: "shortestChain cs = Some c"
    using assms first_sorted_None unfolding shortestChain_def by (metis not_Some_eq)
  show "\<exists>c us vs. shortestChain cs = Some c \<and> cs = us @ c # vs \<and>
      (\<forall>d \<in> set us. length (vc_statements c) < length (vc_statements d)) \<and>
      (\<forall>d \<in> set vs. length (vc_statements c) \<le> length (vc_statements d))"
    using first_sorted_first [OF c [unfolded shortestChain_def]] c by auto
  obtain e where e: "longestExpiry cs = Some e"
    using assms first_sorted_None unfolding longestExpiry_def by (metis not_Some_eq)
  show "\<exists>c us vs. longestExpiry cs = Some c \<and> cs = us @ c # vs \<and>
      (\<forall>d \<in> set us. vc_expiresAt d < vc_expiresAt c) \<and> (\<forall>d \<in> set vs. vc_expiresAt d \<le> vc_expiresAt c)"
    using first_sorted_first [OF e [unfolded longestExpiry_def]] e by auto
  let ?m = "filter (\<lambda>c. vc_trustAnchorId c = JStr ta) cs"
  show "\<exists>c \<in> set cs. preferTrustAnchor ta cs = Some c \<and>
      ((\<exists>d \<in> set cs. vc_trustAnchorId d = JStr ta) \<longrightarrow> vc_trustAnchorId c = JStr ta) \<and>
      (\<forall>d \<in> set cs. vc_trustAnchorId d = vc_trustAnchorId c \<longrightarrow> length (vc_statements c) \<le> length (vc_statements d))"
  proof (cases "?m = []")
    case True
    then have "preferTrustAnchor ta cs = Some c" using c by (simp add: preferTrustAnchor_def)
    moreover have "\<not> (\<exists>d \<in> set cs. vc_trustAnchorId d = JStr ta)" using True by (simp add: filter_empty_conv)
    ultimately show ?thesis using shortest_min [OF c] by blast
  next
    case False
    then obtain m where m: "shortestChain ?m = Some m"
      using first_sorted_None unfolding shortestChain_def by (metis not_Some_eq)
    then have "preferTrustAnchor ta cs = Some m" using False by (simp add: preferTrustAnchor_def)
    moreover have "m \<in> set cs" "vc_trustAnchorId m = JStr ta" using shortest_min(1) [OF m] by auto
    moreover have "length (vc_statements m) \<le> length (vc_statements d)"
      if "d \<in> set cs" "vc_trustAnchorId d = vc_trustAnchorId m" for d
      using shortest_min(2) [OF m] that calculation(3) by auto
    ultimately show ?thesis by blast
  qed
qed

lemma chain_selection_witness: "\<exists>c \<in> set [example_valid]. preferTrustAnchor ''https://ta'' [example_valid] = Some c"
  using chain_selection [of "[example_valid]" "''https://ta''"] by auto

section \<open>A filtered entity type comes back\<close>

text \<open>A leaf that is also an OpenID provider, under a superior whose constraints allow relying parties
  only and whose policy has a default for providers.\<close>

definition filtered_leaf :: "jsval dict" where
  "filtered_leaf = [(''iss'', JStr ''https://rp''), (''sub'', JStr ''https://rp''), (''iat'', JNum 10), (''exp'', JNum 1000),
     (''jwks'', example_jwks), (''authority_hints'', JArr [JStr ''https://ta'']),
     (''metadata'', JObj [(''openid_relying_party'', JObj []), (''openid_provider'', JObj [])])]"

definition filtering_ss :: "jsval dict" where
  "filtering_ss = [(''iss'', JStr ''https://ta''), (''sub'', JStr ''https://rp''), (''iat'', JNum 10), (''exp'', JNum 500),
     (''jwks'', example_jwks),
     (''constraints'', JObj [(''allowed_entity_types'', JArr [JStr ''openid_relying_party''])]),
     (''metadata_policy'', JObj [(''openid_provider'', JObj [(''claims_supported'', JObj [(''default'', JStr ''x'')])])])]"

definition filtered_env :: chain_env where
  "filtered_env = example_env\<lparr>env_jose := \<lparr>
     jose_header = (\<lambda>t. Inr example_header),
     jose_payload = (\<lambda>t. if t = ''leaf'' then Inr filtered_leaf else Inr filtering_ss),
     jose_verify = (\<lambda>t k a s c. Inr [])\<rparr>\<rparr>"

text \<open>The policy stage recreates the block the \<open>allowed_entity_types\<close> filter has just removed.\<close>

theorem filtered_type_returns:
  "case validateTrustChain filtered_env [''leaf'', ''ss''] [(''https://ta'', example_jwks)] example_options of
     Valid vc \<Rightarrow> vc_resolvedMetadata vc =
       [(''openid_relying_party'', []), (''openid_provider'', [(''claims_supported'', JStr ''x'')])]
   | Invalid _ \<Rightarrow> False"
  by code_simp

end
