(* ===== verification/Chain_Resolve.thy ===== *)
theory Chain_Resolve
  imports Chain_Validate
begin

text \<open>
  packages/core/src/trust-chain/resolve.ts: finding the trust chains of an entity by walking
  \<open>authority_hints\<close> upwards. The branches of the walk run concurrently behind a limiter, so the model is a
  state machine: a branch is a record with the phase it is in, what runs between two \<open>await\<close>s is one
  step, and the order of the steps is arbitrary. An invocation of \<open>buildChains\<close> that started branches is
  a frame; its \<open>Promise.allSettled\<close> is the \<open>join\<close> of the frame.

  The two fetches are parameters (what a request is answered with, or what it throws); once the signal
  is aborted they may fail instead. Numbers of options are integers. A hint is any JSON value, as the
  entity configuration it comes from has not been checked yet.
\<close>

section \<open>Data\<close>

datatype outcome = Replied string | Failed fed_error | Threw string

record trust_chain =
  tc_statements :: "string list"
  tc_entityId :: string
  tc_trustAnchorId :: jsval
  tc_expiresAt :: "number option" \<comment> \<open>\<open>None\<close> when some \<open>exp\<close> is not a number\<close>

record resolve_config =
  rc_jose :: jose
  rc_entityId :: string
  rc_anchors :: "jsval dict"
  rc_maxDepth :: int
  rc_maxHints :: int
  rc_maxConcurrent :: int
  rc_maxTotalFetches :: int
  rc_hintFilter :: "(jsval \<Rightarrow> jsval \<Rightarrow> bool option) option" \<comment> \<open>\<open>None\<close> of the result: it or \<open>new URL\<close> threw\<close>
  rc_ec :: "jsval \<Rightarrow> outcome" \<comment> \<open>\<open>fetchEntityConfiguration\<close>\<close>
  rc_ss :: "jsval \<Rightarrow> jsval \<Rightarrow> jsval \<Rightarrow> outcome" \<comment> \<open>\<open>fetchSubordinateStatement\<close>: endpoint, subject, issuer\<close>

text \<open>What a branch asks of the limiter: the hint's configuration, or its statement about the current
  entity once the configuration (the first component) names an endpoint (the second).\<close>

datatype request = EC | SS string jsval

datatype phase =
    Waiting request \<comment> \<open>in the limiter's queue\<close>
  | Admitted request \<comment> \<open>has a slot, has not resumed yet\<close>
  | Fetching request
  | Returned request outcome \<comment> \<open>the fetch has settled and the slot is released\<close>
  | Awaiting nat \<comment> \<open>the frame of the recursive call\<close>
  | Fulfilled
  | Rejected string

record branch =
  br_frame :: nat
  br_current :: jsval
  br_hint :: jsval
  br_chain :: "string list"
  br_visited :: "jsval list"
  br_depth :: int
  br_phase :: phase

record frame =
  fr_parent :: "nat option" \<comment> \<open>the branch that awaits it\<close>
  fr_joined :: bool

record rstate =
  budget :: int
  chains_found :: "trust_chain list"
  rerrors :: "fed_error list"
  incomplete :: bool
  active :: nat
  queue :: "nat list"
  listening :: bool
  aborted :: bool
  branches :: "branch list"
  frames :: "frame list"

definition chainInvalid :: "string \<Rightarrow> fed_error" where
  "chainInvalid d = mk_err ''ERR_TRUST_CHAIN_INVALID'' d"

definition push_error :: "fed_error \<Rightarrow> rstate \<Rightarrow> rstate" where
  "push_error e st = st\<lparr>rerrors := rerrors st @ [e]\<rparr>"

definition set_phase :: "nat \<Rightarrow> phase \<Rightarrow> rstate \<Rightarrow> rstate" where
  "set_phase i p st = st\<lparr>branches := (branches st)[i := (branches st ! i)\<lparr>br_phase := p\<rparr>]\<rparr>"

definition exhausted :: "rstate \<Rightarrow> rstate" where
  "exhausted st = push_error (chainInvalid ''Fetch budget exhausted'') (st\<lparr>incomplete := True\<rparr>)"

section \<open>The concurrency limiter\<close>

definition aborted_message :: string where
  "aborted_message = ''Operation aborted''"

definition onAbort :: "rstate \<Rightarrow> rstate" where
  "onAbort st = (foldl (\<lambda>s i. set_phase i (Rejected aborted_message) s) st (queue st))\<lparr>queue := [], listening := False\<rparr>"

text \<open>\<open>acquire\<close> up to its \<open>await\<close>.\<close>

definition acquire :: "resolve_config \<Rightarrow> nat \<Rightarrow> request \<Rightarrow> rstate \<Rightarrow> rstate" where
  "acquire C i req st =
     (if aborted st then set_phase i (Rejected aborted_message) st
      else if int (active st) < rc_maxConcurrent C then
        set_phase i (Admitted req) (st\<lparr>active := active st + 1\<rparr>)
      else
        (let st1 = set_phase i (Waiting req) (st\<lparr>queue := queue st @ [i]\<rparr>);
             st2 = (if length (queue st1) = 1 then st1\<lparr>listening := True\<rparr> else st1)
         in if aborted st2 then onAbort st2 else st2))"

text \<open>The request a waiting branch asked for.\<close>

fun request_of :: "phase \<Rightarrow> request" where
  "request_of (Waiting r) = r" | "request_of (Admitted r) = r" | "request_of (Fetching r) = r"
| "request_of (Returned r _) = r" | "request_of _ = EC"

text \<open>The \<open>finally\<close> block: the slot goes to the first waiter, or is freed.\<close>

definition release :: "rstate \<Rightarrow> rstate" where
  "release st =
     (case queue st of
        [] \<Rightarrow> st\<lparr>listening := False, active := active st - 1\<rparr>
      | i # rest \<Rightarrow>
          set_phase i (Admitted (request_of (br_phase (branches st ! i))))
            (st\<lparr>queue := rest, listening := (if rest = [] then False else listening st)\<rparr>))"

section \<open>Building chains\<close>

text \<open>\<open>slice(0, n)\<close>.\<close>

definition slice0 :: "int \<Rightarrow> 'a list \<Rightarrow> 'a list" where
  "slice0 n xs = take (nat (if n < 0 then int (length xs) + n else n)) xs"

definition usable_hints :: "resolve_config \<Rightarrow> jsval \<Rightarrow> jsval list \<Rightarrow> jsval list" where
  "usable_hints C current hints =
     (let sliced = slice0 (rc_maxHints C) hints in
      case rc_hintFilter C of
        None \<Rightarrow> sliced
      | Some f \<Rightarrow> filter (\<lambda>h. f h current = Some True) sliced)"

text \<open>\<open>!hints || hints.length === 0\<close>.\<close>

definition no_hints :: "jsval \<Rightarrow> bool" where
  "no_hints hints \<longleftrightarrow> \<not> truthy hints \<or> hints = JArr [] \<or> strict_eq (mget hints ''length'') (JNum 0)"

definition new_branch :: "nat \<Rightarrow> jsval \<Rightarrow> string list \<Rightarrow> jsval list \<Rightarrow> int \<Rightarrow> jsval \<Rightarrow> branch" where
  "new_branch f current chainSoFar visited depth hint =
     \<lparr>br_frame = f, br_current = current, br_hint = hint, br_chain = chainSoFar,
      br_visited = visited, br_depth = depth, br_phase = Fulfilled\<rparr>"

text \<open>A branch up to its first \<open>await\<close>. It is entered as settled and \<open>acquire\<close> gives it its phase.\<close>

definition start_branch ::
  "resolve_config \<Rightarrow> nat \<Rightarrow> jsval \<Rightarrow> string list \<Rightarrow> jsval list \<Rightarrow> int \<Rightarrow> jsval \<Rightarrow> rstate \<Rightarrow> rstate" where
  "start_branch C f current chainSoFar visited depth hint st =
     (let i = length (branches st);
          seen = list_ex (strict_eq hint) visited;
          st0 = st\<lparr>branches := branches st @ [new_branch f current chainSoFar (visited @ [hint]) depth hint]\<rparr>
      in if seen then
           push_error (mk_err ''ERR_LOOP_DETECTED'' (''Loop detected: '' @ quoted (js_string hint) @ '' already in chain'')) st0
         else if budget st0 \<le> 0 then exhausted st0
         else acquire C i EC (st0\<lparr>budget := budget st0 - 1\<rparr>))"

datatype call_result = CallDone | CallThrew string | CallAwaits nat

text \<open>\<open>buildChains\<close> up to its \<open>await\<close>. On hints that are not an array it throws: a string is sliced but
  has no \<open>map\<close>, any other value has no \<open>slice\<close>.\<close>

definition buildChains ::
  "resolve_config \<Rightarrow> nat option \<Rightarrow> jsval \<Rightarrow> jsval \<Rightarrow> string list \<Rightarrow> jsval list \<Rightarrow> int \<Rightarrow> rstate \<Rightarrow> rstate \<times> call_result" where
  "buildChains C parent current hints chainSoFar visited depth st =
     (let too_many = (\<lambda>n s. if int n > rc_maxHints C
                             then push_error (chainInvalid (''Max authority hints ('' @ js_string (JNum (of_int (rc_maxHints C))) @ '') exceeded''))
                                    (s\<lparr>incomplete := True\<rparr>)
                             else s)
      in if depth > rc_maxDepth C then
           (push_error (chainInvalid (''Max chain depth ('' @ js_string (JNum (of_int (rc_maxDepth C))) @ '') exceeded''))
              (st\<lparr>incomplete := True\<rparr>), CallDone)
         else if aborted st then (st\<lparr>incomplete := True\<rparr>, CallDone)
         else
           (case hints of
              JArr hs \<Rightarrow>
                (let f = length (frames st);
                     st1 = too_many (length hs) st;
                     st2 = st1\<lparr>frames := frames st1 @ [\<lparr>fr_parent = parent, fr_joined = False\<rparr>]\<rparr>
                 in (foldl (\<lambda>s h. start_branch C f current chainSoFar visited depth h s) st2 (usable_hints C current hs),
                     CallAwaits f))
            | JStr s \<Rightarrow> (too_many (length s) st, CallThrew ''filteredHints.map is not a function'')
            | _ \<Rightarrow> (st, CallThrew ''currentHints.slice is not a function'')))"

fun phase_after :: "call_result \<Rightarrow> phase" where
  "phase_after CallDone = Fulfilled"
| "phase_after (CallThrew m) = Rejected m"
| "phase_after (CallAwaits f) = Awaiting f"

definition fetch_endpoint :: "parsed_statement \<Rightarrow> jsval" where
  "fetch_endpoint d = mget (mget (pget (payload d) ''metadata'') ''federation_entity'') ''federation_fetch_endpoint''"

definition settle_with :: "nat \<Rightarrow> fed_error \<Rightarrow> rstate \<Rightarrow> rstate" where
  "settle_with i e st = push_error e (set_phase i Fulfilled st)"

text \<open>A branch after its first fetch, up to the next \<open>await\<close>.\<close>

definition resume_ec :: "resolve_config \<Rightarrow> nat \<Rightarrow> outcome \<Rightarrow> rstate \<Rightarrow> rstate" where
  "resume_ec C i out st =
     (let hint = br_hint (branches st ! i) in
      case out of
        Threw m \<Rightarrow> set_phase i (Rejected m) st
      | Failed e \<Rightarrow> settle_with i e st
      | Replied ecJwt \<Rightarrow>
          (case decodeEntityStatement (rc_jose C) ecJwt of
             Inl e \<Rightarrow> settle_with i e st
           | Inr d \<Rightarrow>
               if \<not> truthy (fetch_endpoint d) then
                 settle_with i (chainInvalid (''Entity '' @ quoted (js_string hint) @ '' has no federation_fetch_endpoint in metadata'')) st
               else if budget st \<le> 0 then exhausted (set_phase i Fulfilled st)
               else acquire C i (SS ecJwt (fetch_endpoint d)) (st\<lparr>budget := budget st - 1\<rparr>)))"

definition decode_all :: "jose \<Rightarrow> string list \<Rightarrow> parsed_statement list option" where
  "decode_all J jwts =
     (let ds = map (decodeEntityStatement J) jwts in
      if list_all (\<lambda>d. case d of Inl _ \<Rightarrow> False | Inr _ \<Rightarrow> True) ds
      then Some (map (\<lambda>d. case d of Inr v \<Rightarrow> v | Inl _ \<Rightarrow> undefined) ds) else None)"

definition resolved_expiry :: "parsed_statement list \<Rightarrow> number option" where
  "resolved_expiry parsed =
     (if list_all (\<lambda>s. is_num (pget (payload s) ''exp'')) parsed then Some (calculateChainExpiration parsed) else None)"

definition finished_chain :: "resolve_config \<Rightarrow> jsval \<Rightarrow> string list \<Rightarrow> trust_chain list" where
  "finished_chain C anchor fullChain =
     (case decode_all (rc_jose C) fullChain of
        None \<Rightarrow> []
      | Some parsed \<Rightarrow> [\<lparr>tc_statements = fullChain, tc_entityId = rc_entityId C, tc_trustAnchorId = anchor,
                        tc_expiresAt = resolved_expiry parsed\<rparr>])"

text \<open>The hints of a configuration that has been decoded before.\<close>

definition hints_of :: "resolve_config \<Rightarrow> string \<Rightarrow> jsval" where
  "hints_of C jwt = (case decodeEntityStatement (rc_jose C) jwt of Inr d \<Rightarrow> pget (payload d) ''authority_hints'' | Inl _ \<Rightarrow> JUndef)"

text \<open>A branch after its second fetch.\<close>

definition resume_ss :: "resolve_config \<Rightarrow> nat \<Rightarrow> string \<Rightarrow> outcome \<Rightarrow> rstate \<Rightarrow> rstate" where
  "resume_ss C i ecJwt out st =
     (let b = branches st ! i; hint = br_hint b in
      case out of
        Threw m \<Rightarrow> set_phase i (Rejected m) st
      | Failed e \<Rightarrow> settle_with i e st
      | Replied ss \<Rightarrow>
          if lookup_anchor (rc_anchors C) hint \<noteq> None then
            (set_phase i Fulfilled st)\<lparr>chains_found := chains_found st @ finished_chain C hint (br_chain b @ [ss, ecJwt])\<rparr>
          else if no_hints (hints_of C ecJwt) then
            settle_with i (chainInvalid (''Entity '' @ quoted (js_string hint) @ '' has no authority_hints and is not a trust anchor'')) st
          else
            (case buildChains C (Some i) hint (hints_of C ecJwt) (br_chain b @ [ss]) (br_visited b) (br_depth b + 1) st of
               (st', r) \<Rightarrow> set_phase i (phase_after r) st'))"

section \<open>Steps\<close>

fun settled :: "phase \<Rightarrow> bool" where
  "settled Fulfilled = True" | "settled (Rejected _) = True" | "settled _ = False"

text \<open>After \<open>allSettled\<close>: the rejected branches of the frame are reported in order.\<close>

definition report_rejected :: "rstate \<Rightarrow> phase \<Rightarrow> rstate" where
  "report_rejected st p =
     (case p of
        Rejected m \<Rightarrow>
          push_error (mk_err (if aborted st then ''ERR_TIMEOUT'' else ''ERR_NETWORK'') m)
            (if aborted st then st\<lparr>incomplete := True\<rparr> else st)
      | _ \<Rightarrow> st)"

definition frame_phases :: "nat \<Rightarrow> rstate \<Rightarrow> phase list" where
  "frame_phases f st = map br_phase (filter (\<lambda>b. br_frame b = f) (branches st))"

definition join_frame :: "nat \<Rightarrow> rstate \<Rightarrow> rstate" where
  "join_frame f st =
     (let st1 = foldl report_rejected st (frame_phases f st);
          st2 = st1\<lparr>frames := (frames st1)[f := (frames st1 ! f)\<lparr>fr_joined := True\<rparr>]\<rparr>
      in case fr_parent (frames st ! f) of None \<Rightarrow> st2 | Some i \<Rightarrow> set_phase i Fulfilled st2)"

fun expected :: "resolve_config \<Rightarrow> branch \<Rightarrow> request \<Rightarrow> outcome" where
  "expected C b EC = rc_ec C (br_hint b)"
| "expected C b (SS ecJwt endpoint) = rc_ss C endpoint (br_current b) (br_hint b)"

definition may_return :: "resolve_config \<Rightarrow> rstate \<Rightarrow> nat \<Rightarrow> request \<Rightarrow> outcome \<Rightarrow> bool" where
  "may_return C st i req out \<longleftrightarrow>
     out = expected C (branches st ! i) req \<or> aborted st \<and> (case out of Replied _ \<Rightarrow> False | _ \<Rightarrow> True)"

datatype event = Admit nat | Settle nat outcome | Resume nat | Join nat | Abort

inductive resolve_step :: "resolve_config \<Rightarrow> rstate \<Rightarrow> event \<Rightarrow> rstate \<Rightarrow> bool" for C where
  admit_fetch: "\<lbrakk>i < length (branches st); br_phase (branches st ! i) = Admitted req; \<not> aborted st\<rbrakk>
    \<Longrightarrow> resolve_step C st (Admit i) (set_phase i (Fetching req) st)"
| admit_abort: "\<lbrakk>i < length (branches st); br_phase (branches st ! i) = Admitted req; aborted st\<rbrakk>
    \<Longrightarrow> resolve_step C st (Admit i) (release (set_phase i (Rejected aborted_message) st))"
| settle: "\<lbrakk>i < length (branches st); br_phase (branches st ! i) = Fetching req; may_return C st i req out\<rbrakk>
    \<Longrightarrow> resolve_step C st (Settle i out) (release (set_phase i (Returned req out) st))"
| resume_first: "\<lbrakk>i < length (branches st); br_phase (branches st ! i) = Returned EC out\<rbrakk>
    \<Longrightarrow> resolve_step C st (Resume i) (resume_ec C i out st)"
| resume_second: "\<lbrakk>i < length (branches st); br_phase (branches st ! i) = Returned (SS ecJwt endpoint) out\<rbrakk>
    \<Longrightarrow> resolve_step C st (Resume i) (resume_ss C i ecJwt out st)"
| join: "\<lbrakk>f < length (frames st); \<not> fr_joined (frames st ! f); list_all settled (frame_phases f st)\<rbrakk>
    \<Longrightarrow> resolve_step C st (Join f) (join_frame f st)"
| abort: "\<not> aborted st \<Longrightarrow>
    resolve_step C st Abort (if listening st then onAbort (st\<lparr>aborted := True\<rparr>) else st\<lparr>aborted := True\<rparr>)"

inductive resolve_run :: "resolve_config \<Rightarrow> rstate \<Rightarrow> event list \<Rightarrow> rstate \<Rightarrow> bool" for C st0 where
  start: "resolve_run C st0 [] st0"
| step: "\<lbrakk>resolve_run C st0 es st; resolve_step C st e st'\<rbrakk> \<Longrightarrow> resolve_run C st0 (es @ [e]) st'"

definition finished :: "rstate \<Rightarrow> bool" where
  "finished st \<longleftrightarrow> list_all fr_joined (frames st)"

section \<open>The whole resolution\<close>

record resolve_result =
  rr_chains :: "trust_chain list"
  rr_errors :: "fed_error list"
  rr_incomplete :: bool

datatype resolve_begin = Return resolve_result | Throw string | Run rstate

definition initial_state :: "resolve_config \<Rightarrow> bool \<Rightarrow> rstate" where
  "initial_state C ab =
     \<lparr>budget = rc_maxTotalFetches C - 1, chains_found = [], rerrors = [], incomplete = False, active = 0, queue = [],
      listening = False, aborted = ab, branches = [], frames = []\<rparr>"

text \<open>Up to the first call of \<open>buildChains\<close>; \<open>ab\<close> is what the signal says when the leaf's configuration
  has been fetched.\<close>

definition resolveTrustChains :: "resolve_config \<Rightarrow> bool \<Rightarrow> resolve_begin" where
  "resolveTrustChains C ab =
     (if rc_maxConcurrent C \<le> 0 then Throw ''maxConcurrent must be a positive safe integer''
      else if rc_maxTotalFetches C \<le> 0 then
        Return \<lparr>rr_chains = [], rr_errors = [chainInvalid ''Fetch budget exhausted''], rr_incomplete = True\<rparr>
      else
        (case rc_ec C (JStr (rc_entityId C)) of
           Threw m \<Rightarrow> Throw m
         | Failed e \<Rightarrow> Return \<lparr>rr_chains = [], rr_errors = [e], rr_incomplete = ab\<rparr>
         | Replied leafEcJwt \<Rightarrow>
             (case decodeEntityStatement (rc_jose C) leafEcJwt of
                Inl e \<Rightarrow> Return \<lparr>rr_chains = [], rr_errors = [e], rr_incomplete = False\<rparr>
              | Inr d \<Rightarrow>
                  (let hints = pget (payload d) ''authority_hints'' in
                   if \<not> strict_eq (iss_of d) (sub_of d) \<or> \<not> strict_eq (iss_of d) (JStr (rc_entityId C)) then
                     Return \<lparr>rr_chains = [],
                       rr_errors = [chainInvalid (''Leaf EC identity mismatch: iss='' @ js_string (iss_of d) @ '', sub='' @
                          js_string (sub_of d) @ '', expected='' @ rc_entityId C)], rr_incomplete = False\<rparr>
                   else if no_hints hints \<and> lookup_anchor (rc_anchors C) (JStr (rc_entityId C)) \<noteq> None then
                     Return \<lparr>rr_chains = [\<lparr>tc_statements = [leafEcJwt], tc_entityId = rc_entityId C,
                          tc_trustAnchorId = JStr (rc_entityId C), tc_expiresAt = resolved_expiry [d]\<rparr>],
                        rr_errors = [], rr_incomplete = False\<rparr>
                   else if no_hints hints then
                     Return \<lparr>rr_chains = [], rr_errors = [chainInvalid ''Leaf has no authority_hints and is not a trust anchor''],
                        rr_incomplete = False\<rparr>
                   else
                     (case buildChains C None (JStr (rc_entityId C)) hints [leafEcJwt] [JStr (rc_entityId C)] 1 (initial_state C ab) of
                        (st, CallThrew m) \<Rightarrow> Throw m
                      | (st, _) \<Rightarrow> Run st)))))"

definition result_of :: "rstate \<Rightarrow> resolve_result" where
  "result_of st = \<lparr>rr_chains = chains_found st, rr_errors = rerrors st, rr_incomplete = incomplete st \<or> aborted st\<rparr>"

end
