(* ===== verification/Resolve_Invariants.thy ===== *)
theory Resolve_Invariants
  imports Chain_Resolve "HOL-Library.Multiset"
begin

text \<open>
  The invariants of the resolution state machine and what each step does to them. \<open>lim_inv\<close> ties the
  limiter's counters and queue to the phases of the branches, \<open>tree_inv\<close> the frames to the branches that
  await them, \<open>joined_inv\<close> says that a joined frame has no work left. \<open>work\<close> bounds the steps to come,
  \<open>admissions_left\<close> the fetches to come, and \<open>chains_ahead\<close> is the multiset of chains found and still to be
  found, measured against a sequential reference, \<open>walk\<close>. Each kind of step has one lemma that it is a
  \<open>good_step\<close>; \<open>step_good\<close> collects them.
\<close>

section \<open>What the small operations change\<close>

abbreviation phase_at :: "rstate \<Rightarrow> nat \<Rightarrow> phase" where
  "phase_at st i \<equiv> br_phase (branches st ! i)"

lemma set_phase_sel [simp]:
  "length (branches (set_phase i p st)) = length (branches st)"
  "budget (set_phase i p st) = budget st" "chains_found (set_phase i p st) = chains_found st"
  "rerrors (set_phase i p st) = rerrors st" "incomplete (set_phase i p st) = incomplete st"
  "active (set_phase i p st) = active st" "queue (set_phase i p st) = queue st"
  "listening (set_phase i p st) = listening st" "aborted (set_phase i p st) = aborted st"
  "frames (set_phase i p st) = frames st"
  by (simp_all add: set_phase_def)

lemma set_phase_nth:
  "j < length (branches st) \<Longrightarrow>
     branches (set_phase i p st) ! j = (if j = i then (branches st ! j)\<lparr>br_phase := p\<rparr> else branches st ! j)"
  by (simp add: set_phase_def nth_list_update)

lemma push_error_sel [simp]:
  "budget (push_error e st) = budget st" "chains_found (push_error e st) = chains_found st"
  "incomplete (push_error e st) = incomplete st" "active (push_error e st) = active st"
  "queue (push_error e st) = queue st" "listening (push_error e st) = listening st"
  "aborted (push_error e st) = aborted st" "branches (push_error e st) = branches st"
  "frames (push_error e st) = frames st"
  by (simp_all add: push_error_def)

lemma exhausted_sel [simp]:
  "budget (exhausted st) = budget st" "chains_found (exhausted st) = chains_found st"
  "incomplete (exhausted st)" "active (exhausted st) = active st"
  "queue (exhausted st) = queue st" "listening (exhausted st) = listening st"
  "aborted (exhausted st) = aborted st" "branches (exhausted st) = branches st"
  "frames (exhausted st) = frames st"
  by (simp_all add: exhausted_def)

lemma set_phases_fold:
  defines "st' is p st \<equiv> foldl (\<lambda>s i. set_phase i p s) st is"
  shows "length (branches (st' is p st)) = length (branches st)"
    and "j < length (branches st) \<Longrightarrow>
      branches (st' is p st) ! j = (if j \<in> set is then (branches st ! j)\<lparr>br_phase := p\<rparr> else branches st ! j)"
    and "budget (st' is p st) = budget st" and "chains_found (st' is p st) = chains_found st"
    and "incomplete (st' is p st) = incomplete st" and "active (st' is p st) = active st"
    and "aborted (st' is p st) = aborted st" and "frames (st' is p st) = frames st"
  unfolding st'_def by (induction "is" arbitrary: st) (auto simp: set_phase_nth)

lemma onAbort_sel [simp]:
  "length (branches (onAbort st)) = length (branches st)"
  "budget (onAbort st) = budget st" "chains_found (onAbort st) = chains_found st"
  "incomplete (onAbort st) = incomplete st" "active (onAbort st) = active st" "queue (onAbort st) = []"
  "listening (onAbort st) = False" "aborted (onAbort st) = aborted st" "frames (onAbort st) = frames st"
  by (simp_all add: onAbort_def set_phases_fold)

lemma onAbort_nth:
  "j < length (branches st) \<Longrightarrow> branches (onAbort st) ! j =
     (if j \<in> set (queue st) then (branches st ! j)\<lparr>br_phase := Rejected aborted_message\<rparr> else branches st ! j)"
  by (simp add: onAbort_def set_phases_fold)

lemma acquire_eq:
  "acquire C i req st =
     (if aborted st then set_phase i (Rejected aborted_message) st
      else if int (active st) < rc_maxConcurrent C then set_phase i (Admitted req) (st\<lparr>active := active st + 1\<rparr>)
      else set_phase i (Waiting req) (st\<lparr>queue := queue st @ [i], listening := (listening st \<or> queue st = [])\<rparr>))"
  by (auto simp: acquire_def Let_def set_phase_def)

lemma release_sel [simp]:
  "length (branches (release st)) = length (branches st)"
  "budget (release st) = budget st" "chains_found (release st) = chains_found st"
  "incomplete (release st) = incomplete st" "aborted (release st) = aborted st"
  "frames (release st) = frames st"
  by (simp_all add: release_def split: list.splits)

lemma release_nth:
  "j < length (branches st) \<Longrightarrow> branches (release st) ! j =
     (if queue st \<noteq> [] \<and> j = hd (queue st)
      then (branches st ! j)\<lparr>br_phase := Admitted (request_of (phase_at st j))\<rparr> else branches st ! j)"
  by (auto simp: release_def set_phase_nth split: list.splits)

text \<open>Sums over the branches, in any commutative monoid.\<close>

definition total :: "(branch \<Rightarrow> 'a :: comm_monoid_add) \<Rightarrow> rstate \<Rightarrow> 'a" where
  "total g st = sum_list (map g (branches st))"

lemma sum_list_update_add:
  fixes g :: "'b \<Rightarrow> 'a :: comm_monoid_add"
  shows "i < length xs \<Longrightarrow> sum_list (map g (xs[i := x])) + g (xs ! i) = sum_list (map g xs) + g x"
proof (induction xs arbitrary: i)
  case (Cons y ys)
  then show ?case
  proof (cases i)
    case (Suc k)
    then have "sum_list (map g (ys[k := x])) + g (ys ! k) = sum_list (map g ys) + g x" using Cons by simp
    then show ?thesis using Suc by (simp add: add.assoc)
  qed (simp add: add_ac)
qed simp

lemma total_set_phase:
  "i < length (branches st) \<Longrightarrow>
     total g (set_phase i p st) + g (branches st ! i) = total g st + g ((branches st ! i)\<lparr>br_phase := p\<rparr>)"
  by (simp add: total_def set_phase_def sum_list_update_add)

lemma total_cong: "branches st = branches st' \<Longrightarrow> total g st = total g st'"
  by (simp add: total_def)

lemma total_append: "branches st' = branches st @ [b] \<Longrightarrow> total g st' = total g st + g b"
  by (simp add: total_def)

section \<open>The invariant of limiter and frames\<close>

fun holds :: "phase \<Rightarrow> bool" where
  "holds (Admitted _) = True" | "holds (Fetching _) = True" | "holds _ = False"

fun waits :: "phase \<Rightarrow> bool" where
  "waits (Waiting _) = True" | "waits _ = False"

fun awaits :: "phase \<Rightarrow> bool" where
  "awaits (Awaiting _) = True" | "awaits _ = False"

definition holding :: "branch \<Rightarrow> nat" where
  "holding b = (if holds (br_phase b) then 1 else 0)"

definition waiters :: "rstate \<Rightarrow> nat set" where
  "waiters st = {i. i < length (branches st) \<and> waits (phase_at st i)}"

definition lim_inv :: "resolve_config \<Rightarrow> rstate \<Rightarrow> bool" where
  "lim_inv C st \<longleftrightarrow>
     total holding st = active st \<and> int (active st) \<le> rc_maxConcurrent C \<and> distinct (queue st) \<and>
     set (queue st) = waiters st \<and> (queue st \<noteq> [] \<longrightarrow> int (active st) = rc_maxConcurrent C) \<and>
     (listening st \<longleftrightarrow> queue st \<noteq> []) \<and> (aborted st \<longrightarrow> queue st = [])"

lemma waiters_cong: "branches st' = branches st \<Longrightarrow> waiters st' = waiters st"
  by (simp add: waiters_def)

lemma waiters_set_phase:
  "i < length (branches st) \<Longrightarrow>
     waiters (set_phase i p st) = (if waits p then insert i (waiters st) else waiters st - {i})"
  by (auto simp: waiters_def set_phase_nth split: if_splits)

lemma waiters_append:
  "branches st' = branches st @ [b] \<Longrightarrow> \<not> waits (br_phase b) \<Longrightarrow> waiters st' = waiters st"
  by (auto simp: waiters_def nth_append less_Suc_eq split: if_splits)

lemma not_waiter: "\<not> waits (phase_at st i) \<Longrightarrow> i \<notin> waiters st"
  by (simp add: waiters_def)

lemma waits_holds: "waits p \<Longrightarrow> \<not> holds p"
  by (cases p) auto

definition same_limiter :: "rstate \<Rightarrow> rstate \<Rightarrow> bool" where
  "same_limiter st st' \<longleftrightarrow> active st' = active st \<and> queue st' = queue st \<and> listening st' = listening st \<and>
     aborted st' = aborted st \<and> branches st' = branches st"

lemma lim_inv_cong: "same_limiter st st' \<Longrightarrow> lim_inv C st' = lim_inv C st"
  by (simp add: same_limiter_def lim_inv_def total_def waiters_def)

lemma holding_set_phase:
  assumes "i < length (branches st)"
  shows "total holding (set_phase i p st) + (if holds (phase_at st i) then 1 else 0) =
    total holding st + (if holds p then 1 else 0)"
  using total_set_phase [OF assms, of holding p] by (simp add: holding_def)

lemma lim_inv_neutral:
  assumes "lim_inv C st" and i: "i < length (branches st)"
    and "\<not> holds (phase_at st i)" "\<not> waits (phase_at st i)" "\<not> holds p" "\<not> waits p"
  shows "lim_inv C (set_phase i p st)"
proof -
  have "total holding (set_phase i p st) = total holding st" using holding_set_phase [OF i, of p] assms by simp
  moreover have "waiters (set_phase i p st) = waiters st"
    using waiters_set_phase [OF i, of p] not_waiter [of st i] assms by simp
  ultimately show ?thesis using assms(1) by (simp add: lim_inv_def)
qed

lemma lim_inv_append:
  assumes "lim_inv C st" "branches st' = branches st @ [b]" "\<not> holds (br_phase b)" "\<not> waits (br_phase b)"
    "active st' = active st" "queue st' = queue st" "listening st' = listening st" "aborted st' = aborted st"
  shows "lim_inv C st'"
proof -
  have "total holding st' = total holding st"
    using total_append [OF assms(2), of holding] assms(3) by (simp add: holding_def)
  then show ?thesis using assms waiters_append [OF assms(2)] by (simp add: lim_inv_def)
qed

lemma lim_inv_acquire:
  assumes inv: "lim_inv C st" and i: "i < length (branches st)"
    and n: "\<not> holds (phase_at st i)" "\<not> waits (phase_at st i)"
  shows "lim_inv C (acquire C i req st)"
proof -
  have i': "i \<notin> waiters st" using n not_waiter by blast
  note hp = holding_set_phase [OF i] and wp = waiters_set_phase [OF i]
  have "lim_inv C (set_phase i (Rejected aborted_message) st)" using lim_inv_neutral assms by simp
  moreover have "lim_inv C (set_phase i (Admitted req) (st\<lparr>active := active st + 1\<rparr>))"
    if a: "int (active st) < rc_maxConcurrent C"
  proof -
    let ?s = "set_phase i (Admitted req) (st\<lparr>active := active st + 1\<rparr>)"
    have b: "branches ?s = branches (set_phase i (Admitted req) st)" by (simp add: set_phase_def)
    have "queue st = []" using inv a by (auto simp: lim_inv_def)
    moreover have "total holding ?s = active st + 1" "waiters ?s = waiters st"
      using hp [of "Admitted req"] wp [of "Admitted req"] n i' inv total_cong [OF b, of holding] waiters_cong [OF b]
      by (simp_all add: lim_inv_def)
    ultimately show ?thesis using inv a by (simp add: lim_inv_def)
  qed
  moreover have "lim_inv C (set_phase i (Waiting req) (st\<lparr>queue := queue st @ [i], listening := (listening st \<or> queue st = [])\<rparr>))"
    if a: "\<not> aborted st" "\<not> int (active st) < rc_maxConcurrent C"
  proof -
    let ?s = "set_phase i (Waiting req) (st\<lparr>queue := queue st @ [i], listening := (listening st \<or> queue st = [])\<rparr>)"
    have b: "branches ?s = branches (set_phase i (Waiting req) st)" by (simp add: set_phase_def)
    have "total holding ?s = active st" "waiters ?s = insert i (waiters st)"
      using hp [of "Waiting req"] wp [of "Waiting req"] n i' inv total_cong [OF b, of holding] waiters_cong [OF b]
      by (simp_all add: lim_inv_def)
    then show ?thesis using inv a i' by (auto simp: lim_inv_def)
  qed
  ultimately show ?thesis by (simp add: acquire_eq)
qed

lemma lim_inv_release:
  assumes inv: "lim_inv C st" and i: "i < length (branches st)"
    and h: "holds (phase_at st i)" "\<not> holds p" "\<not> waits p"
  shows "lim_inv C (release (set_phase i p st))"
proof -
  let ?st = "set_phase i p st"
  have i': "i \<notin> waiters st" using h waits_holds not_waiter by blast
  have t: "total holding ?st + 1 = active st" "waiters ?st = waiters st"
    using holding_set_phase [OF i, of p] waiters_set_phase [OF i, of p] h i' inv by (simp_all add: lim_inv_def)
  show ?thesis
  proof (cases "queue st")
    case Nil
    then have rel: "release ?st = ?st\<lparr>listening := False, active := active st - 1\<rparr>" by (simp add: release_def)
    have "waiters (release ?st) = {}" "total holding (release ?st) = active st - 1"
      using t inv Nil waiters_cong [of "release ?st" ?st] total_cong [of "release ?st" ?st holding]
      by (simp_all add: rel lim_inv_def)
    then show ?thesis using inv Nil by (auto simp: lim_inv_def rel)
  next
    case (Cons k rest)
    let ?p = "Admitted (request_of (phase_at ?st k))"
    have k: "k \<in> waiters st" using inv Cons by (auto simp: lim_inv_def)
    then have kl: "k < length (branches ?st)" and ki: "k \<noteq> i" using i' by (auto simp: waiters_def)
    have nh: "\<not> holds (phase_at ?st k)" using k ki waits_holds kl by (auto simp: waiters_def set_phase_nth)
    have rel: "release ?st = (set_phase k ?p ?st)\<lparr>queue := rest, listening := (if rest = [] then False else listening st)\<rparr>"
      by (simp add: release_def Cons set_phase_def)
    have b: "branches (release ?st) = branches (set_phase k ?p ?st)" by (simp add: rel)
    have "total holding (release ?st) = active st" "waiters (release ?st) = waiters st - {k}"
      using holding_set_phase [OF kl, of ?p] waiters_set_phase [OF kl, of ?p] nh t total_cong [OF b, of holding] waiters_cong [OF b]
      by simp_all
    moreover have "set rest = waiters st - {k}" "distinct rest" using inv Cons by (auto simp: lim_inv_def)
    ultimately show ?thesis using inv Cons by (simp add: lim_inv_def rel)
  qed
qed

lemma lim_inv_abort:
  assumes "lim_inv C st"
  shows "lim_inv C (if listening st then onAbort (st\<lparr>aborted := True\<rparr>) else st\<lparr>aborted := True\<rparr>)"
proof -
  let ?st = "st\<lparr>aborted := True\<rparr>"
  have w: "j \<in> set (queue st) \<longleftrightarrow> waits (phase_at st j)" if "j < length (branches st)" for j
    using assms that by (simp add: lim_inv_def waiters_def)
  have "map holding (branches (onAbort ?st)) = map holding (branches st)"
  proof (rule nth_equalityI)
    fix j assume "j < length (map holding (branches (onAbort ?st)))"
    then have j: "j < length (branches st)" by simp
    then show "map holding (branches (onAbort ?st)) ! j = map holding (branches st) ! j"
      using w [OF j] waits_holds by (simp add: onAbort_nth holding_def)
  qed simp
  then have "total holding (onAbort ?st) = total holding st" by (simp add: total_def)
  moreover have "waiters (onAbort ?st) = {}" using w by (auto simp: waiters_def onAbort_nth)
  moreover have "total holding ?st = total holding st" "waiters ?st = waiters st" by (simp_all add: total_def waiters_def)
  ultimately show ?thesis using assms by (cases "queue st = []") (auto simp: lim_inv_def)
qed

section \<open>A sequential reference\<close>

text \<open>The chains one branch contributes, given the walk \<open>W\<close> of the levels above it.\<close>

definition after_ss ::
  "resolve_config \<Rightarrow> (jsval \<Rightarrow> jsval \<Rightarrow> string list \<Rightarrow> jsval list \<Rightarrow> trust_chain list) \<Rightarrow>
   jsval \<Rightarrow> string list \<Rightarrow> jsval list \<Rightarrow> string \<Rightarrow> string \<Rightarrow> trust_chain list" where
  "after_ss C W hint chain visited ecJwt ss =
     (if lookup_anchor (rc_anchors C) hint \<noteq> None then finished_chain C hint (chain @ [ss, ecJwt])
      else if no_hints (hints_of C ecJwt) then []
      else W hint (hints_of C ecJwt) (chain @ [ss]) visited)"

definition after_ec ::
  "resolve_config \<Rightarrow> (jsval \<Rightarrow> jsval \<Rightarrow> string list \<Rightarrow> jsval list \<Rightarrow> trust_chain list) \<Rightarrow>
   jsval \<Rightarrow> jsval \<Rightarrow> string list \<Rightarrow> jsval list \<Rightarrow> string \<Rightarrow> trust_chain list" where
  "after_ec C W current hint chain visited ecJwt =
     (case decodeEntityStatement (rc_jose C) ecJwt of
        Inl _ \<Rightarrow> []
      | Inr d \<Rightarrow>
          if \<not> truthy (fetch_endpoint d) then []
          else (case rc_ss C (fetch_endpoint d) current hint of
                  Replied ss \<Rightarrow> after_ss C W hint chain visited ecJwt ss | _ \<Rightarrow> []))"

definition hint_walk ::
  "resolve_config \<Rightarrow> (jsval \<Rightarrow> jsval \<Rightarrow> string list \<Rightarrow> jsval list \<Rightarrow> trust_chain list) \<Rightarrow>
   jsval \<Rightarrow> string list \<Rightarrow> jsval list \<Rightarrow> jsval \<Rightarrow> trust_chain list" where
  "hint_walk C W current chain visited hint =
     (if list_ex (strict_eq hint) visited then []
      else (case rc_ec C hint of
              Replied ecJwt \<Rightarrow> after_ec C W current hint chain (visited @ [hint]) ecJwt | _ \<Rightarrow> []))"

text \<open>The walk with a number of levels left, one hint after the other.\<close>

primrec walk :: "resolve_config \<Rightarrow> nat \<Rightarrow> jsval \<Rightarrow> jsval \<Rightarrow> string list \<Rightarrow> jsval list \<Rightarrow> trust_chain list" where
  "walk C 0 = (\<lambda>current hints chain visited. [])"
| "walk C (Suc n) = (\<lambda>current hints chain visited.
     concat (map (hint_walk C (walk C n) current chain visited) (usable_hints C current (items hints))))"

text \<open>The chains an unfinished branch can still contribute.\<close>

definition contribution :: "resolve_config \<Rightarrow> branch \<Rightarrow> request \<Rightarrow> outcome \<Rightarrow> trust_chain list" where
  "contribution C b req out =
     (let W = walk C (nat (rc_maxDepth C - br_depth b)) in
      case out of
        Replied jwt \<Rightarrow>
          (case req of
             EC \<Rightarrow> after_ec C W (br_current b) (br_hint b) (br_chain b) (br_visited b) jwt
           | SS ecJwt _ \<Rightarrow> after_ss C W (br_hint b) (br_chain b) (br_visited b) ecJwt jwt)
      | _ \<Rightarrow> [])"

definition pend :: "resolve_config \<Rightarrow> branch \<Rightarrow> trust_chain multiset" where
  "pend C b = mset (case br_phase b of
       Waiting r \<Rightarrow> contribution C b r (expected C b r) | Admitted r \<Rightarrow> contribution C b r (expected C b r)
     | Fetching r \<Rightarrow> contribution C b r (expected C b r) | Returned r out \<Rightarrow> contribution C b r out | _ \<Rightarrow> [])"

lemma contribution_phase [simp]: "contribution C (b\<lparr>br_phase := p\<rparr>) r out = contribution C b r out"
  by (cases out; cases r) (simp_all add: contribution_def Let_def)

lemma expected_phase [simp]: "expected C (b\<lparr>br_phase := p\<rparr>) r = expected C b r"
  by (cases r) simp_all

lemma pend_settled [simp]:
  "pend C (b\<lparr>br_phase := Fulfilled\<rparr>) = {#}" "pend C (b\<lparr>br_phase := Rejected m\<rparr>) = {#}"
  "pend C (b\<lparr>br_phase := Awaiting f\<rparr>) = {#}"
  by (simp_all add: pend_def)

lemma pend_returned:
  "(case out of Replied _ \<Rightarrow> False | _ \<Rightarrow> True) \<Longrightarrow> pend C (b\<lparr>br_phase := Returned r out\<rparr>) = {#}"
  by (simp add: pend_def contribution_def split: outcome.splits)

section \<open>Starting branches\<close>

definition weight :: "branch \<Rightarrow> nat" where
  "weight b = (case br_phase b of
     Waiting r \<Rightarrow> (case r of EC \<Rightarrow> 4 | SS _ _ \<Rightarrow> 5) | Admitted r \<Rightarrow> (case r of EC \<Rightarrow> 3 | SS _ _ \<Rightarrow> 4)
   | Fetching r \<Rightarrow> (case r of EC \<Rightarrow> 2 | SS _ _ \<Rightarrow> 3) | Returned r _ \<Rightarrow> (case r of EC \<Rightarrow> 1 | SS _ _ \<Rightarrow> 2) | _ \<Rightarrow> 0)"

definition unadmitted :: "branch \<Rightarrow> nat" where
  "unadmitted b = (case br_phase b of Waiting _ \<Rightarrow> 1 | Admitted _ \<Rightarrow> 1 | _ \<Rightarrow> 0)"

text \<open>How a branch can start: a loop, no budget, or a request to the limiter.\<close>

definition started :: "bool \<Rightarrow> rstate \<Rightarrow> rstate \<Rightarrow> phase \<Rightarrow> bool" where
  "started seen st st' p \<longleftrightarrow>
     seen \<and> p = Fulfilled \<and> budget st' = budget st \<and> incomplete st' = incomplete st \<or>
     \<not> seen \<and> p = Fulfilled \<and> budget st' = budget st \<and> incomplete st' \<or>
     \<not> seen \<and> 0 < budget st \<and> budget st' = budget st - 1 \<and> incomplete st' = incomplete st \<and>
       ((p = Admitted EC \<or> p = Waiting EC) \<and> \<not> aborted st \<or> p = Rejected aborted_message \<and> aborted st)"

lemma acquire_sel [simp]:
  "length (branches (acquire C i req st)) = length (branches st)"
  "budget (acquire C i req st) = budget st" "chains_found (acquire C i req st) = chains_found st"
  "incomplete (acquire C i req st) = incomplete st" "aborted (acquire C i req st) = aborted st"
  "frames (acquire C i req st) = frames st"
  by (simp_all add: acquire_eq)

definition acquired_phase :: "resolve_config \<Rightarrow> request \<Rightarrow> rstate \<Rightarrow> phase" where
  "acquired_phase C req st =
     (if aborted st then Rejected aborted_message
      else if int (active st) < rc_maxConcurrent C then Admitted req else Waiting req)"

lemma acquire_branches:
  "branches (acquire C i req st) = (branches st)[i := (branches st ! i)\<lparr>br_phase := acquired_phase C req st\<rparr>]"
  by (simp add: acquire_eq acquired_phase_def set_phase_def)

lemma start_branch_shape:
  fixes C f current chain visited depth hint st
  defines "st' \<equiv> start_branch C f current chain visited depth hint st"
  shows "\<exists>p. branches st' = branches st @ [(new_branch f current chain (visited @ [hint]) depth hint)\<lparr>br_phase := p\<rparr>] \<and>
      started (list_ex (strict_eq hint) visited) st st' p"
    and "frames st' = frames st" and "chains_found st' = chains_found st" and "aborted st' = aborted st"
    and "lim_inv C st \<Longrightarrow> lim_inv C st'"
proof -
  let ?seen = "list_ex (strict_eq hint) visited"
  let ?b = "new_branch f current chain (visited @ [hint]) depth hint"
  let ?st0 = "st\<lparr>branches := branches st @ [?b]\<rparr>"
  let ?st1 = "?st0\<lparr>budget := budget st - 1\<rparr>"
  have b: "?b\<lparr>br_phase := Fulfilled\<rparr> = ?b" by (simp add: new_branch_def)
  have eq: "st' = (if ?seen then push_error (mk_err ''ERR_LOOP_DETECTED'' (''Loop detected: '' @ quoted (js_string hint) @ '' already in chain'')) ?st0
     else if budget st \<le> 0 then exhausted ?st0 else acquire C (length (branches st)) EC ?st1)"
    by (simp add: st'_def start_branch_def Let_def)
  show "frames st' = frames st" "chains_found st' = chains_found st" "aborted st' = aborted st"
    by (simp_all add: eq)
  let ?p = "if ?seen \<or> budget st \<le> 0 then Fulfilled else acquired_phase C EC st"
  have "branches st' = branches st @ [?b\<lparr>br_phase := ?p\<rparr>]"
    using b by (simp add: eq acquire_branches acquired_phase_def)
  moreover have "started ?seen st st' ?p"
    by (auto simp: started_def eq acquired_phase_def)
  ultimately show "\<exists>p. branches st' = branches st @ [?b\<lparr>br_phase := p\<rparr>] \<and> started ?seen st st' p" by blast
  assume l: "lim_inv C st"
  have n: "\<not> holds (br_phase ?b)" "\<not> waits (br_phase ?b)" by (simp_all add: new_branch_def)
  have l0: "lim_inv C s" if "branches s = branches st @ [?b]" "active s = active st" "queue s = queue st"
    "listening s = listening st" "aborted s = aborted st" for s
    using lim_inv_append [OF l, of s ?b] n that by simp
  have "lim_inv C (acquire C (length (branches st)) EC ?st1)"
    by (rule lim_inv_acquire) (use n in \<open>simp_all add: l0\<close>)
  then show "lim_inv C st'" unfolding eq by (simp add: l0)
qed

definition fuel_left :: "rstate \<Rightarrow> nat" where
  "fuel_left st = 6 * nat (budget st) + total weight st"

definition admissions_left :: "rstate \<Rightarrow> nat" where
  "admissions_left st = nat (budget st) + total unadmitted st"

definition chains_ahead :: "resolve_config \<Rightarrow> rstate \<Rightarrow> trust_chain multiset" where
  "chains_ahead C st = mset (chains_found st) + total (pend C) st"

text \<open>The branches of a frame that have just been started.\<close>

definition fresh :: "nat \<Rightarrow> branch \<Rightarrow> bool" where
  "fresh f b \<longleftrightarrow> br_frame b = f \<and> \<not> awaits (br_phase b)"

lemma start_branch_counts:
  fixes C f current chain visited depth hint st
  defines "st' \<equiv> start_branch C f current chain visited depth hint st"
  shows "fuel_left st' \<le> fuel_left st"
    and "admissions_left st' \<le> admissions_left st"
    and "incomplete st \<Longrightarrow> incomplete st'"
    and "\<exists>b. branches st' = branches st @ [b] \<and> fresh f b"
proof -
  let ?s = "start_branch C f current chain visited depth hint st"
  obtain p where b: "branches ?s = branches st @ [(new_branch f current chain (visited @ [hint]) depth hint)\<lparr>br_phase := p\<rparr>]"
    and s: "started (list_ex (strict_eq hint) visited) st ?s p"
    using start_branch_shape(1) [of C f current chain visited depth hint st] by blast
  note t = total_append [OF b]
  show "fuel_left st' \<le> fuel_left st"
    "admissions_left st' \<le> admissions_left st"
    using s t [of weight] t [of unadmitted]
    by (auto simp: st'_def fuel_left_def admissions_left_def started_def weight_def unadmitted_def)
  show "incomplete st \<Longrightarrow> incomplete st'"
    using s by (auto simp: st'_def started_def)
  show "\<exists>b. branches st' = branches st @ [b] \<and> fresh f b"
    using s b by (auto simp: st'_def fresh_def new_branch_def started_def)
qed

lemma start_branch_chains:
  fixes C f current chain visited depth hint st
  defines "st' \<equiv> start_branch C f current chain visited depth hint st"
    and "new \<equiv> mset (hint_walk C (walk C (nat (rc_maxDepth C - depth))) current chain visited hint)"
  shows "chains_ahead C st' \<subseteq># chains_ahead C st + new"
    and "\<not> incomplete st' \<Longrightarrow> \<not> aborted st' \<Longrightarrow> chains_ahead C st' = chains_ahead C st + new"
proof -
  let ?seen = "list_ex (strict_eq hint) visited"
  let ?b = "new_branch f current chain (visited @ [hint]) depth hint"
  obtain p where b: "branches st' = branches st @ [?b\<lparr>br_phase := p\<rparr>]" and s: "started ?seen st st' p"
    using start_branch_shape(1) [of C f current chain visited depth hint st] unfolding st'_def by blast
  have c: "chains_ahead C st' = chains_ahead C st + pend C (?b\<lparr>br_phase := p\<rparr>)"
    using total_append [OF b, of "pend C"] start_branch_shape(3) [of C f current chain visited depth hint st]
    by (simp add: chains_ahead_def st'_def)
  have ec: "mset (contribution C ?b EC (expected C ?b EC)) = new" if "\<not> ?seen"
    using that by (simp add: new_def contribution_def hint_walk_def new_branch_def Let_def split: outcome.splits)
  have asked: "pend C (?b\<lparr>br_phase := p\<rparr>) = new" if "\<not> ?seen" "p = Admitted EC \<or> p = Waiting EC"
    using that ec by (auto simp: pend_def)
  have seen: "new = {#}" if ?seen using that by (simp add: new_def hint_walk_def)
  have "pend C (?b\<lparr>br_phase := p\<rparr>) \<subseteq># new" using s asked by (auto simp: started_def)
  then show "chains_ahead C st' \<subseteq># chains_ahead C st + new" by (simp add: c)
  have "aborted st' = aborted st" using start_branch_shape(4) by (simp add: st'_def)
  then show "chains_ahead C st' = chains_ahead C st + new" if "\<not> incomplete st'" "\<not> aborted st'"
    using s asked seen that by (auto simp: started_def c)
qed

lemma start_branches:
  fixes C f current chain visited depth hs st
  defines "st' \<equiv> foldl (\<lambda>s h. start_branch C f current chain visited depth h s) st hs"
    and "new \<equiv> mset (concat (map (hint_walk C (walk C (nat (rc_maxDepth C - depth))) current chain visited) hs))"
  shows "frames st' = frames st \<and> chains_found st' = chains_found st \<and> aborted st' = aborted st \<and>
      (lim_inv C st \<longrightarrow> lim_inv C st') \<and> (incomplete st \<longrightarrow> incomplete st') \<and>
      fuel_left st' \<le> fuel_left st \<and> admissions_left st' \<le> admissions_left st \<and>
      (\<exists>bs. branches st' = branches st @ bs \<and> (\<forall>b \<in> set bs. fresh f b)) \<and>
      chains_ahead C st' \<subseteq># chains_ahead C st + new \<and>
      (\<not> incomplete st' \<and> \<not> aborted st' \<longrightarrow> chains_ahead C st' = chains_ahead C st + new)"
  unfolding st'_def new_def
proof (induction hs arbitrary: st)
  case (Cons h hs)
  let ?s = "start_branch C f current chain visited depth h st"
  let ?t = "foldl (\<lambda>s h. start_branch C f current chain visited depth h s) ?s hs"
  let ?w = "hint_walk C (walk C (nat (rc_maxDepth C - depth))) current chain visited"
  note IH = Cons.IH [of ?s]
  note sc = start_branch_counts [where C = C and f = f and current = current and chain = chain and visited = visited and depth = depth and hint = h and st = st]
  note ss = start_branch_shape [where C = C and f = f and current = current and chain = chain and visited = visited and depth = depth and hint = h and st = st]
  note sv = start_branch_chains [where C = C and f = f and current = current and chain = chain and visited = visited and depth = depth and hint = h and st = st]
  obtain b where b: "branches ?s = branches st @ [b]" "fresh f b" using sc(4) by blast
  obtain bs where bs: "branches ?t = branches ?s @ bs" "\<forall>b \<in> set bs. fresh f b" using IH by blast
  have "\<exists>bs. branches ?t = branches st @ bs \<and> (\<forall>b \<in> set bs. fresh f b)"
    using b bs by (intro exI [of _ "b # bs"]) auto
  moreover have "chains_ahead C ?t \<subseteq># chains_ahead C st + mset (concat (map ?w (h # hs)))"
  proof -
    have "chains_ahead C ?t \<subseteq># chains_ahead C ?s + mset (concat (map ?w hs))" using IH by blast
    also have "\<dots> \<subseteq># chains_ahead C st + mset (?w h) + mset (concat (map ?w hs))"
      using sv(1) by (simp add: subset_mset.add_right_mono)
    finally show ?thesis by (simp add: add.assoc)
  qed
  moreover have "chains_ahead C ?t = chains_ahead C st + mset (concat (map ?w (h # hs)))"
    if "\<not> incomplete ?t" "\<not> aborted ?t"
  proof -
    have "\<not> incomplete ?s" "\<not> aborted ?s" using IH that by blast+
    then have "chains_ahead C ?s = chains_ahead C st + mset (?w h)" using sv(2) by blast
    moreover have "chains_ahead C ?t = chains_ahead C ?s + mset (concat (map ?w hs))" using IH that by blast
    ultimately show ?thesis by (simp add: add.assoc)
  qed
  ultimately show ?case using IH sc ss(2-5) by (auto simp del: map_append)
qed simp

text \<open>Changes to the errors and to \<open>incomplete\<close> alone.\<close>

definition same_work :: "rstate \<Rightarrow> rstate \<Rightarrow> bool" where
  "same_work st st' \<longleftrightarrow> same_limiter st st' \<and> budget st' = budget st \<and> chains_found st' = chains_found st"

lemma same_work_counts:
  assumes "same_work st st'"
  shows "fuel_left st' = fuel_left st" "admissions_left st' = admissions_left st"
  using assms by (simp_all add: same_work_def same_limiter_def fuel_left_def admissions_left_def total_def)

lemma same_work_chains:
  assumes "same_work st st'"
  shows "chains_ahead C st' = chains_ahead C st" "lim_inv C st' = lim_inv C st"
  using assms lim_inv_cong [of st st' C] by (simp_all add: same_work_def same_limiter_def chains_ahead_def total_def)

text \<open>What every part of a step does to the counts; \<open>new\<close> are the chains of a recursive call.\<close>

definition advances :: "resolve_config \<Rightarrow> trust_chain multiset \<Rightarrow> rstate \<Rightarrow> rstate \<Rightarrow> bool" where
  "advances C new st st' \<longleftrightarrow>
     (aborted st \<longrightarrow> aborted st') \<and> (incomplete st \<longrightarrow> incomplete st') \<and> (lim_inv C st \<longrightarrow> lim_inv C st') \<and>
     chains_ahead C st' \<subseteq># chains_ahead C st + new \<and>
     (\<not> incomplete st' \<and> \<not> aborted st' \<longrightarrow> chains_ahead C st' = chains_ahead C st + new)"

lemma advances_same: "same_work st st' \<Longrightarrow> (incomplete st \<longrightarrow> incomplete st') \<Longrightarrow> advances C {#} st st'"
  using same_work_chains [of st st' C] by (simp add: advances_def same_work_def same_limiter_def)

lemma advances_lost:
  "same_work st st' \<Longrightarrow> incomplete st' \<or> aborted st' \<Longrightarrow> (incomplete st \<longrightarrow> incomplete st') \<Longrightarrow> advances C new st st'"
  using same_work_chains [of st st' C] by (auto simp add: advances_def same_work_def same_limiter_def)

lemma advances_trans:
  assumes "advances C a st st'" "advances C b st' st''"
  shows "advances C (a + b) st st''"
proof -
  have "chains_ahead C st'' \<subseteq># chains_ahead C st' + b" using assms(2) by (simp add: advances_def)
  also have "\<dots> \<subseteq># chains_ahead C st + a + b" using assms(1) by (simp add: advances_def)
  finally show ?thesis using assms by (auto simp: advances_def add.assoc)
qed

lemma buildChains_effect:
  assumes "buildChains C parent current hints chain visited depth st = (st', r)"
  shows "advances C (mset (walk C (nat (rc_maxDepth C + 1 - depth)) current hints chain visited)) st st'"
    and "chains_found st' = chains_found st" and "aborted st' = aborted st"
    and "fuel_left st' \<le> fuel_left st" and "admissions_left st' \<le> admissions_left st"
    and "case r of
           CallAwaits f \<Rightarrow> f = length (frames st) \<and> frames st' = frames st @ [\<lparr>fr_parent = parent, fr_joined = False\<rparr>] \<and>
             (\<exists>bs. branches st' = branches st @ bs \<and> (\<forall>b \<in> set bs. fresh f b))
         | _ \<Rightarrow> frames st' = frames st \<and> branches st' = branches st"
proof -
  let ?new = "mset (walk C (nat (rc_maxDepth C + 1 - depth)) current hints chain visited)"
  define too_many where "too_many n s =
     (if int n > rc_maxHints C
      then push_error (chainInvalid (''Max authority hints ('' @ js_string (JNum (of_int (rc_maxHints C))) @ '') exceeded''))
             (s\<lparr>incomplete := True\<rparr>)
      else s)" for n and s :: rstate
  have tm: "same_work s (too_many n s)" "incomplete s \<longrightarrow> incomplete (too_many n s)" "frames (too_many n s) = frames s"
    "branches (too_many n s) = branches s" "budget (too_many n s) = budget s" "chains_found (too_many n s) = chains_found s"
    "aborted (too_many n s) = aborted s" for n s
    by (simp_all add: too_many_def same_work_def same_limiter_def)
  have same: "advances C ?new st st' \<and> chains_found st' = chains_found st \<and> aborted st' = aborted st \<and>
      fuel_left st' \<le> fuel_left st \<and> admissions_left st' \<le> admissions_left st \<and> frames st' = frames st \<and> branches st' = branches st"
    if "same_work st st'" "frames st' = frames st" "incomplete st \<longrightarrow> incomplete st'" "?new = {#} \<or> incomplete st'"
    using that same_work_counts [OF that(1)] same_work_chains [OF that(1), of C] advances_same [of st st' C] advances_lost [of st st' C ?new]
    by (auto simp: same_work_def same_limiter_def)
  consider (deep) "depth > rc_maxDepth C" | (ab) "\<not> depth > rc_maxDepth C" "aborted st"
    | (arr) hs where "\<not> depth > rc_maxDepth C" "\<not> aborted st" "hints = JArr hs"
    | (other) "\<not> depth > rc_maxDepth C" "\<not> aborted st" "\<nexists>hs. hints = JArr hs" by blast
  then have "advances C ?new st st' \<and> chains_found st' = chains_found st \<and> aborted st' = aborted st \<and>
      fuel_left st' \<le> fuel_left st \<and> admissions_left st' \<le> admissions_left st \<and>
      (case r of
           CallAwaits f \<Rightarrow> f = length (frames st) \<and> frames st' = frames st @ [\<lparr>fr_parent = parent, fr_joined = False\<rparr>] \<and>
             (\<exists>bs. branches st' = branches st @ bs \<and> (\<forall>b \<in> set bs. fresh f b))
         | _ \<Rightarrow> frames st' = frames st \<and> branches st' = branches st)"
  proof cases
    case deep
    then have "same_work st st'" "frames st' = frames st" "incomplete st'" "r = CallDone"
      using assms by (auto simp: buildChains_def Let_def same_work_def same_limiter_def)
    then show ?thesis using same by simp
  next
    case ab
    then have "same_work st st'" "frames st' = frames st" "incomplete st'" "r = CallDone"
      using assms by (auto simp: buildChains_def Let_def same_work_def same_limiter_def)
    then show ?thesis using same by simp
  next
    case (arr hs)
    let ?f = "length (frames st)"
    let ?st1 = "too_many (length hs) st"
    let ?st2 = "?st1\<lparr>frames := frames ?st1 @ [\<lparr>fr_parent = parent, fr_joined = False\<rparr>]\<rparr>"
    have st': "st' = foldl (\<lambda>s h. start_branch C ?f current chain visited depth h s) ?st2 (usable_hints C current hs)"
      and r: "r = CallAwaits ?f"
      using assms arr by (simp_all add: buildChains_def Let_def too_many_def)
    have w: "same_work st ?st2" using tm by (simp add: same_work_def same_limiter_def)
    have lv: "nat (rc_maxDepth C + 1 - depth) = Suc (nat (rc_maxDepth C - depth))" using arr(1) by simp
    have new: "?new = mset (concat (map (hint_walk C (walk C (nat (rc_maxDepth C - depth))) current chain visited)
        (usable_hints C current hs)))"
      unfolding lv using arr(3) by simp
    note sb = start_branches [where C = C and f = ?f and current = current and chain = chain and visited = visited and depth = depth
        and hs = "usable_hints C current hs" and st = ?st2,
        folded st' new, unfolded same_work_counts [OF w] same_work_chains [OF w]]
    have "advances C ?new ?st2 st'" using sb same_work_chains [OF w, of C] by (simp add: advances_def)
    moreover have "advances C {#} st ?st2" using advances_same [OF w] tm(2) by simp
    ultimately have "advances C ?new st st'" using advances_trans by fastforce
    then show ?thesis using sb r tm by simp
  next
    case other
    have "walk C (nat (rc_maxDepth C + 1 - depth)) current hints chain visited = []"
      using other(3) by (cases "nat (rc_maxDepth C + 1 - depth)"; cases hints)
        (auto simp: usable_hints_def slice0_def split: option.splits)
    moreover have "same_work st st' \<and> frames st' = frames st \<and> (incomplete st \<longrightarrow> incomplete st') \<and> (\<exists>m. r = CallThrew m)"
      using assms other by (cases hints)
        (auto simp: buildChains_def Let_def same_work_def same_limiter_def split: if_splits)
    ultimately show ?thesis using same by auto
  qed
  then show "advances C ?new st st'" "chains_found st' = chains_found st" "aborted st' = aborted st"
    "fuel_left st' \<le> fuel_left st" "admissions_left st' \<le> admissions_left st"
    "case r of
       CallAwaits f \<Rightarrow> f = length (frames st) \<and> frames st' = frames st @ [\<lparr>fr_parent = parent, fr_joined = False\<rparr>] \<and>
         (\<exists>bs. branches st' = branches st @ bs \<and> (\<forall>b \<in> set bs. fresh f b))
     | _ \<Rightarrow> frames st' = frames st \<and> branches st' = branches st"
    by blast+
qed

section \<open>Handing over slots\<close>

definition head_waits :: "rstate \<Rightarrow> bool" where
  "head_waits st \<longleftrightarrow> (case queue st of [] \<Rightarrow> True | i # _ \<Rightarrow> i < length (branches st) \<and> waits (phase_at st i))"

lemma head_waits_set_phase:
  assumes "lim_inv C st" "holds (phase_at st i)"
  shows "head_waits (set_phase i p st)"
proof (cases "queue st")
  case (Cons k rest)
  then have "k \<in> waiters st" using assms by (auto simp: lim_inv_def)
  moreover then have "k \<noteq> i" using assms waits_holds by (auto simp: waiters_def)
  ultimately show ?thesis using Cons by (simp add: head_waits_def waiters_def set_phase_nth)
qed (simp add: head_waits_def)

lemma waits_request: "waits p \<Longrightarrow> p = Waiting (request_of p)"
  by (cases p) auto

lemma total_release:
  fixes g :: "branch \<Rightarrow> 'a :: cancel_comm_monoid_add"
  assumes "head_waits st" and g: "\<And>b r. br_phase b = Waiting r \<Longrightarrow> g (b\<lparr>br_phase := Admitted r\<rparr>) = g b"
  shows "total g (release st) = total g st"
proof (cases "queue st")
  case Nil
  then show ?thesis by (simp add: release_def total_def)
next
  case (Cons i rest)
  let ?r = "request_of (phase_at st i)"
  have i: "i < length (branches st)" "phase_at st i = Waiting ?r"
    using assms(1) waits_request Cons by (simp_all add: head_waits_def)
  have "total g (set_phase i (Admitted ?r) st) = total g st"
    using total_set_phase [OF i(1), of g "Admitted ?r"] g [OF i(2)] by simp
  moreover have "total g (release st) = total g (set_phase i (Admitted ?r) st)"
    by (rule total_cong) (simp add: release_def Cons set_phase_def)
  ultimately show ?thesis by simp
qed

lemma weight_release:
  assumes "head_waits st"
  shows "total weight (release st) \<le> total weight st"
proof (cases "queue st")
  case Nil
  then show ?thesis by (simp add: release_def total_def)
next
  case (Cons i rest)
  let ?r = "request_of (phase_at st i)"
  have i: "i < length (branches st)" "phase_at st i = Waiting ?r"
    using assms(1) waits_request Cons by (simp_all add: head_waits_def)
  have "weight ((branches st ! i)\<lparr>br_phase := Admitted ?r\<rparr>) \<le> weight (branches st ! i)"
    by (subst (2) weight_def, subst i(2)) (simp add: weight_def split: request.splits)
  then have "total weight (set_phase i (Admitted ?r) st) \<le> total weight st"
    using total_set_phase [OF i(1), of weight "Admitted ?r"] by simp
  moreover have "total weight (release st) = total weight (set_phase i (Admitted ?r) st)"
    by (rule total_cong) (simp add: release_def Cons set_phase_def)
  ultimately show ?thesis by simp
qed

lemma release_counts:
  assumes "head_waits st"
  shows "fuel_left (release st) \<le> fuel_left st" "admissions_left (release st) = admissions_left st"
    "chains_ahead C (release st) = chains_ahead C st"
  using weight_release [OF assms] total_release [OF assms, of unadmitted] total_release [OF assms, of "pend C"]
  by (simp_all add: fuel_left_def admissions_left_def chains_ahead_def unadmitted_def pend_def)

lemma set_phase_counts:
  assumes i: "i < length (branches st)"
  shows "fuel_left (set_phase i p st) + weight (branches st ! i) = fuel_left st + weight ((branches st ! i)\<lparr>br_phase := p\<rparr>)"
    "admissions_left (set_phase i p st) + unadmitted (branches st ! i) =
       admissions_left st + unadmitted ((branches st ! i)\<lparr>br_phase := p\<rparr>)"
    "chains_ahead C (set_phase i p st) + pend C (branches st ! i) =
       chains_ahead C st + pend C ((branches st ! i)\<lparr>br_phase := p\<rparr>)"
  using total_set_phase [OF i, of weight p] total_set_phase [OF i, of unadmitted p] total_set_phase [OF i, of "pend C" p]
  by (simp_all add: fuel_left_def admissions_left_def chains_ahead_def add.assoc)

lemma multiset_exchange:
  fixes a b c d n :: "'a multiset"
  shows "a + d = c + b \<Longrightarrow> b + n = d \<Longrightarrow> a + n = c"
  by (metis add.assoc add.commute add_right_cancel)

lemma advances_set_phase:
  assumes i: "i < length (branches st)"
    and n: "\<not> holds (phase_at st i)" "\<not> waits (phase_at st i)" "\<not> holds p" "\<not> waits p"
    and p: "pend C ((branches st ! i)\<lparr>br_phase := p\<rparr>) + mset cs = pend C (branches st ! i)"
  shows "advances C {#} st ((set_phase i p st)\<lparr>chains_found := chains_found st @ cs\<rparr>)"
proof -
  let ?s = "(set_phase i p st)\<lparr>chains_found := chains_found st @ cs\<rparr>"
  have "chains_ahead C ?s = chains_ahead C (set_phase i p st) + mset cs"
    by (simp add: chains_ahead_def total_def)
  also have "\<dots> = chains_ahead C st" by (rule multiset_exchange [OF set_phase_counts(3) [OF i] p])
  finally have "chains_ahead C ?s = chains_ahead C st" .
  moreover have "lim_inv C ?s" if "lim_inv C st"
  proof -
    have "lim_inv C (set_phase i p st)" using lim_inv_neutral [OF that i n] .
    then show ?thesis using lim_inv_cong [of "set_phase i p st" ?s C] by (simp add: same_limiter_def)
  qed
  ultimately show ?thesis by (simp add: advances_def)
qed

section \<open>Frames\<close>

definition tree_inv :: "rstate \<Rightarrow> bool" where
  "tree_inv st \<longleftrightarrow>
     (\<forall>i < length (branches st). br_frame (branches st ! i) < length (frames st)) \<and>
     (\<forall>i < length (branches st). \<forall>f. phase_at st i = Awaiting f \<longrightarrow>
        f < length (frames st) \<and> \<not> fr_joined (frames st ! f) \<and> fr_parent (frames st ! f) = Some i \<and>
        br_frame (branches st ! i) < f) \<and>
     (\<forall>f < length (frames st). \<forall>i. \<not> fr_joined (frames st ! f) \<longrightarrow> fr_parent (frames st ! f) = Some i \<longrightarrow>
        i < length (branches st) \<and> phase_at st i = Awaiting f)"

definition same_tree :: "rstate \<Rightarrow> rstate \<Rightarrow> bool" where
  "same_tree st st' \<longleftrightarrow> frames st' = frames st \<and> length (branches st') = length (branches st) \<and>
     (\<forall>j < length (branches st). br_frame (branches st' ! j) = br_frame (branches st ! j) \<and>
        (phase_at st' j = phase_at st j \<or> \<not> awaits (phase_at st j) \<and> \<not> awaits (phase_at st' j)))"

lemma tree_invD:
  assumes "tree_inv st"
  shows "i < length (branches st) \<Longrightarrow> br_frame (branches st ! i) < length (frames st)"
    and "\<lbrakk>i < length (branches st); phase_at st i = Awaiting f\<rbrakk> \<Longrightarrow>
      f < length (frames st) \<and> \<not> fr_joined (frames st ! f) \<and> fr_parent (frames st ! f) = Some i \<and> br_frame (branches st ! i) < f"
    and "\<lbrakk>f < length (frames st); \<not> fr_joined (frames st ! f); fr_parent (frames st ! f) = Some i\<rbrakk> \<Longrightarrow>
      i < length (branches st) \<and> phase_at st i = Awaiting f"
  using assms unfolding tree_inv_def by blast+

lemma tree_invI:
  assumes "\<And>i. i < length (branches st) \<Longrightarrow> br_frame (branches st ! i) < length (frames st)"
    and "\<And>i f. \<lbrakk>i < length (branches st); phase_at st i = Awaiting f\<rbrakk> \<Longrightarrow>
      f < length (frames st) \<and> \<not> fr_joined (frames st ! f) \<and> fr_parent (frames st ! f) = Some i \<and> br_frame (branches st ! i) < f"
    and "\<And>f i. \<lbrakk>f < length (frames st); \<not> fr_joined (frames st ! f); fr_parent (frames st ! f) = Some i\<rbrakk> \<Longrightarrow>
      i < length (branches st) \<and> phase_at st i = Awaiting f"
  shows "tree_inv st"
  using assms unfolding tree_inv_def by blast

lemma same_tree_iff:
  "same_tree st st' \<longleftrightarrow> frames st' = frames st \<and> length (branches st') = length (branches st) \<and>
     (\<forall>j < length (branches st). br_frame (branches st' ! j) = br_frame (branches st ! j) \<and>
        (\<forall>f. phase_at st' j = Awaiting f \<longleftrightarrow> phase_at st j = Awaiting f))"
proof -
  have "(q = p \<or> \<not> awaits p \<and> \<not> awaits q) \<longleftrightarrow> (\<forall>f. q = Awaiting f \<longleftrightarrow> p = Awaiting f)" for p q
    by (cases p; cases q) auto
  then show ?thesis by (simp add: same_tree_def)
qed

lemma same_tree_inv:
  assumes "same_tree st st'" and t: "tree_inv st"
  shows "tree_inv st'"
proof -
  have fr: "frames st' = frames st" "length (branches st') = length (branches st)"
    using assms(1) by (simp_all add: same_tree_def)
  have br: "br_frame (branches st' ! j) = br_frame (branches st ! j)"
    and aw: "phase_at st' j = Awaiting f \<longleftrightarrow> phase_at st j = Awaiting f" if "j < length (branches st)" for j f
    using assms(1) that by (simp_all add: same_tree_iff)
  show ?thesis
  proof (rule tree_invI, unfold fr)
    fix i assume i: "i < length (branches st)"
    show "br_frame (branches st' ! i) < length (frames st)" unfolding br [OF i] by (rule tree_invD(1) [OF t i])
    fix f assume "phase_at st' i = Awaiting f"
    then have "phase_at st i = Awaiting f" using aw [OF i] by blast
    then show "f < length (frames st) \<and> \<not> fr_joined (frames st ! f) \<and> fr_parent (frames st ! f) = Some i \<and>
        br_frame (branches st' ! i) < f"
      unfolding br [OF i] by (rule tree_invD(2) [OF t i])
  next
    fix f i assume "f < length (frames st)" "\<not> fr_joined (frames st ! f)" "fr_parent (frames st ! f) = Some i"
    from tree_invD(3) [OF t this] show "i < length (branches st) \<and> phase_at st' i = Awaiting f" using aw by blast
  qed
qed

lemma same_tree_trans: "same_tree a b \<Longrightarrow> same_tree b c \<Longrightarrow> same_tree a c"
  by (simp add: same_tree_iff)

lemma same_tree_set_phase:
  "i < length (branches st) \<Longrightarrow> \<not> awaits (phase_at st i) \<Longrightarrow> \<not> awaits p \<Longrightarrow> same_tree st (set_phase i p st)"
  by (auto simp: same_tree_def set_phase_nth)

lemma same_tree_cong: "frames st' = frames st \<Longrightarrow> branches st' = branches st \<Longrightarrow> same_tree st st'"
  by (simp add: same_tree_def)

lemma same_tree_release: "head_waits st \<Longrightarrow> same_tree st (release st)"
  by (auto simp: same_tree_def release_nth head_waits_def split: list.splits) (metis awaits.elims(2) waits.simps)

lemma same_tree_acquire:
  "i < length (branches st) \<Longrightarrow> \<not> awaits (phase_at st i) \<Longrightarrow> same_tree st (acquire C i req st)"
  by (auto simp: same_tree_def acquire_branches nth_list_update acquired_phase_def)

lemma same_tree_onAbort:
  assumes "lim_inv C st"
  shows "same_tree st (onAbort (st\<lparr>aborted := True\<rparr>))"
proof -
  have "\<not> awaits (phase_at st j)" if "j \<in> set (queue st)" for j
    using assms that by (cases "phase_at st j") (auto simp: lim_inv_def waiters_def)
  then show ?thesis by (auto simp: same_tree_def onAbort_nth)
qed

section \<open>The effect of a step\<close>

definition unjoined :: "rstate \<Rightarrow> nat" where
  "unjoined st = length (filter (\<lambda>f. \<not> fr_joined f) (frames st))"

text \<open>What is left to do, an upper bound of the number of steps.\<close>

definition work :: "rstate \<Rightarrow> nat" where
  "work st = fuel_left st + unjoined st + (if aborted st then 0 else 1)"

fun admits :: "event \<Rightarrow> nat" where
  "admits (Admit _) = 1" | "admits _ = 0"

definition wf_state :: "resolve_config \<Rightarrow> rstate \<Rightarrow> bool" where
  "wf_state C st \<longleftrightarrow> lim_inv C st \<and> tree_inv st"

definition good_step :: "resolve_config \<Rightarrow> rstate \<Rightarrow> nat \<Rightarrow> rstate \<Rightarrow> bool" where
  "good_step C st n st' \<longleftrightarrow> wf_state C st' \<and> advances C {#} st st' \<and> work st' < work st \<and>
     admissions_left st' + n \<le> admissions_left st"

lemma chains_drop:
  assumes "i < length (branches st)"
  shows "chains_ahead C (set_phase i (Rejected m) st) \<subseteq># chains_ahead C st"
proof -
  have "chains_ahead C st = chains_ahead C (set_phase i (Rejected m) st) + pend C (branches st ! i)"
    using set_phase_counts(3) [OF assms, of C "Rejected m"] by simp
  then show ?thesis by simp
qed

lemma admit_fetch_good:
  assumes wf: "wf_state C st" and i: "i < length (branches st)" and p: "phase_at st i = Admitted req"
  shows "good_step C st 1 (set_phase i (Fetching req) st)"
proof -
  let ?s = "set_phase i (Fetching req) st"
  note c = set_phase_counts(1,2) [OF i, of "Fetching req"]
  have "total holding ?s = total holding st" using holding_set_phase [OF i, of "Fetching req"] p by simp
  moreover have "waiters ?s = waiters st"
    using waiters_set_phase [OF i, of "Fetching req"] not_waiter [of st i] p by simp
  ultimately have "lim_inv C ?s" using wf by (auto simp: wf_state_def lim_inv_def)
  moreover have "tree_inv ?s" using wf same_tree_inv [OF same_tree_set_phase [OF i, of "Fetching req"]] p by (simp add: wf_state_def)
  moreover have "chains_ahead C ?s = chains_ahead C st"
    using set_phase_counts(3) [OF i, of C "Fetching req"] p by (simp add: pend_def)
  moreover have "fuel_left ?s < fuel_left st" "admissions_left ?s + 1 = admissions_left st"
    using c(1,2) p by (simp_all add: weight_def unadmitted_def split: request.splits)
  ultimately show ?thesis by (simp add: good_step_def wf_state_def advances_def work_def unjoined_def)
qed

lemma slot_returned_good:
  assumes wf: "wf_state C st" and i: "i < length (branches st)" and h: "holds (phase_at st i)"
    and p: "\<not> holds p" "\<not> waits p" "\<not> awaits p"
    and w: "weight ((branches st ! i)\<lparr>br_phase := p\<rparr>) < weight (branches st ! i)"
    and u: "unadmitted ((branches st ! i)\<lparr>br_phase := p\<rparr>) + n \<le> unadmitted (branches st ! i)"
    and c: "chains_ahead C (set_phase i p st) = chains_ahead C st \<or>
      aborted st \<and> chains_ahead C (set_phase i p st) \<subseteq># chains_ahead C st"
  shows "good_step C st n (release (set_phase i p st))"
proof -
  let ?s = "set_phase i p st"
  have hw: "head_waits ?s" using head_waits_set_phase wf h by (auto simp: wf_state_def)
  have aw: "\<not> awaits (phase_at st i)" using h by (cases "phase_at st i") auto
  have "same_tree st (release ?s)"
    using same_tree_trans [OF same_tree_set_phase [OF i aw p(3)] same_tree_release [OF hw]] .
  then have "tree_inv (release ?s)" using wf same_tree_inv by (auto simp: wf_state_def)
  moreover have lim: "lim_inv C (release ?s)" using lim_inv_release [OF _ i h p(1,2)] wf by (simp add: wf_state_def)
  moreover have "fuel_left (release ?s) < fuel_left st"
    using set_phase_counts(1) [OF i, of p] w release_counts(1) [OF hw] by simp
  moreover have "admissions_left (release ?s) + n \<le> admissions_left st"
    using set_phase_counts(2) [OF i, of p] u release_counts(2) [OF hw] by simp
  moreover have "advances C {#} st (release ?s)"
    using c release_counts(3) [OF hw, of C] lim by (auto simp: advances_def)
  ultimately show ?thesis by (simp add: good_step_def wf_state_def work_def unjoined_def)
qed

lemma admit_abort_good:
  assumes "wf_state C st" "i < length (branches st)" "phase_at st i = Admitted req" "aborted st"
  shows "good_step C st 1 (release (set_phase i (Rejected aborted_message) st))"
  using assms chains_drop [of i st C]
  by (intro slot_returned_good) (simp_all add: weight_def unadmitted_def split: request.splits)

lemma settle_good:
  assumes wf: "wf_state C st" and i: "i < length (branches st)" and p: "phase_at st i = Fetching req"
    and r: "may_return C st i req out"
  shows "good_step C st 0 (release (set_phase i (Returned req out) st))"
proof (rule slot_returned_good [OF wf i])
  let ?b = "branches st ! i"
  have c: "chains_ahead C (set_phase i (Returned req out) st) + pend C ?b =
      chains_ahead C st + pend C (?b\<lparr>br_phase := Returned req out\<rparr>)"
    by (rule set_phase_counts(3) [OF i])
  show "chains_ahead C (set_phase i (Returned req out) st) = chains_ahead C st \<or>
      aborted st \<and> chains_ahead C (set_phase i (Returned req out) st) \<subseteq># chains_ahead C st"
  proof (cases "out = expected C ?b req")
    case True
    then have "pend C (?b\<lparr>br_phase := Returned req out\<rparr>) = pend C ?b" using p by (simp add: pend_def)
    then show ?thesis using c by simp
  next
    case False
    then have a: "aborted st" "case out of Replied _ \<Rightarrow> False | _ \<Rightarrow> True" using r by (simp_all add: may_return_def)
    then have "chains_ahead C (set_phase i (Returned req out) st) + pend C ?b = chains_ahead C st"
      using c pend_returned [OF a(2)] by simp
    then show ?thesis using a(1) mset_subset_eq_add_left by metis
  qed
qed (use p in \<open>simp_all add: weight_def unadmitted_def split: request.splits\<close>)

lemma good_error: "good_step C st n (push_error e s) \<longleftrightarrow> good_step C st n s"
proof -
  have w: "same_work s (push_error e s)" by (simp add: same_work_def same_limiter_def)
  show ?thesis
    using same_work_counts [OF w] same_work_chains [OF w, of C] same_tree_inv [OF same_tree_cong, of "push_error e s" s]
      same_tree_inv [OF same_tree_cong, of s "push_error e s"]
    by (auto simp: good_step_def wf_state_def advances_def work_def unjoined_def)
qed

lemma settled_good:
  assumes wf: "wf_state C st" and i: "i < length (branches st)" and p: "phase_at st i = Returned req out"
    and q: "\<not> holds q" "\<not> waits q" "\<not> awaits q" and w: "weight ((branches st ! i)\<lparr>br_phase := q\<rparr>) = 0"
    and c: "pend C ((branches st ! i)\<lparr>br_phase := q\<rparr>) + mset cs = pend C (branches st ! i)"
    and u: "unadmitted ((branches st ! i)\<lparr>br_phase := q\<rparr>) = 0"
  shows "good_step C st 0 ((set_phase i q st)\<lparr>chains_found := chains_found st @ cs\<rparr>)"
proof -
  let ?s = "(set_phase i q st)\<lparr>chains_found := chains_found st @ cs\<rparr>"
  have adv: "advances C {#} st ?s" using p q c by (intro advances_set_phase [OF i]) simp_all
  have "same_tree st ?s"
    using same_tree_trans [OF same_tree_set_phase [OF i, of q] same_tree_cong] p q by simp
  then have "tree_inv ?s" using wf same_tree_inv by (auto simp: wf_state_def)
  moreover have "fuel_left ?s < fuel_left st" "admissions_left ?s \<le> admissions_left st"
    using set_phase_counts(1,2) [OF i, of q] w u p
    by (simp_all add: fuel_left_def admissions_left_def total_def weight_def split: request.splits)
  ultimately show ?thesis using adv wf by (simp add: good_step_def wf_state_def advances_def work_def unjoined_def)
qed

lemma settled_empty_good:
  assumes "wf_state C st" "i < length (branches st)" "phase_at st i = Returned req out" "contribution C (branches st ! i) req out = []"
    "q = Fulfilled \<or> (\<exists>m. q = Rejected m)"
  shows "good_step C st 0 (set_phase i q st)"
proof -
  have "good_step C st 0 ((set_phase i q st)\<lparr>chains_found := chains_found st @ []\<rparr>)"
    using assms by (intro settled_good) (auto simp: weight_def unadmitted_def pend_def)
  then show ?thesis by (simp add: set_phase_def)
qed

lemma resume_ec_good:
  assumes wf: "wf_state C st" and i: "i < length (branches st)" and p: "phase_at st i = Returned EC out"
  shows "good_step C st 0 (resume_ec C i out st)"
proof -
  let ?b = "branches st ! i"
  note empty = settled_empty_good [OF wf i p]
  show ?thesis
  proof (cases out)
    case (Replied jwt)
    show ?thesis
    proof (cases "decodeEntityStatement (rc_jose C) jwt")
      case (Inl e)
      then have "contribution C ?b EC out = []" using Replied by (simp add: contribution_def after_ec_def)
      then show ?thesis using empty Replied Inl by (simp add: resume_ec_def settle_with_def good_error)
    next
      case (Inr d)
      consider (noep) "\<not> truthy (fetch_endpoint d)" | (broke) "truthy (fetch_endpoint d)" "budget st \<le> 0"
        | (ask) "truthy (fetch_endpoint d)" "0 < budget st" by linarith
      then show ?thesis
      proof cases
        case noep
        then have "contribution C ?b EC out = []" using Replied Inr by (simp add: contribution_def after_ec_def)
        then show ?thesis using empty Replied Inr noep by (simp add: resume_ec_def settle_with_def good_error)
      next
        case broke
        let ?s = "set_phase i Fulfilled st"
        let ?t = "exhausted ?s"
        have "chains_ahead C ?s \<subseteq># chains_ahead C st"
          using set_phase_counts(3) [OF i, of C Fulfilled] by (metis pend_settled(1) add.right_neutral mset_subset_eq_add_left)
        moreover have sw: "same_work ?s ?t" by (simp add: same_work_def same_limiter_def)
        moreover have "lim_inv C ?s" using lim_inv_neutral [OF _ i] wf p by (simp add: wf_state_def)
        moreover have "tree_inv ?t"
          using wf same_tree_inv [OF same_tree_trans [OF same_tree_set_phase [OF i, of Fulfilled] same_tree_cong]] p
          by (simp add: wf_state_def)
        moreover have "fuel_left ?s < fuel_left st" "admissions_left ?s \<le> admissions_left st"
          using set_phase_counts(1,2) [OF i, of Fulfilled] p by (simp_all add: weight_def unadmitted_def)
        ultimately have "good_step C st 0 ?t"
          using same_work_counts [OF sw] same_work_chains [OF sw, of C]
          by (simp add: good_step_def wf_state_def advances_def work_def unjoined_def)
        then show ?thesis using Replied Inr broke by (simp add: resume_ec_def)
      next
        case ask
        let ?r = "SS jwt (fetch_endpoint d)"
        let ?st1 = "st\<lparr>budget := budget st - 1\<rparr>"
        let ?t = "acquire C i ?r ?st1"
        let ?q = "acquired_phase C ?r st"
        have br: "branches ?t = branches (set_phase i ?q st)"
          by (simp add: acquire_branches acquired_phase_def set_phase_def)
        have t: "total g ?t + g ?b = total g st + g (?b\<lparr>br_phase := ?q\<rparr>)" for g :: "branch \<Rightarrow> 'a :: comm_monoid_add"
          using total_set_phase [OF i, of g ?q] total_cong [OF br, of g] by simp
        have c: "chains_ahead C ?t + pend C ?b = chains_ahead C st + pend C (?b\<lparr>br_phase := ?q\<rparr>)"
          using t [of "pend C"] by (simp add: chains_ahead_def add.assoc)
        have same: "pend C (?b\<lparr>br_phase := ?q\<rparr>) = pend C ?b" if "\<not> aborted st"
          using that ask Replied Inr p
          by (simp add: acquired_phase_def pend_def contribution_def after_ec_def Let_def split: outcome.splits)
        have "aborted st \<Longrightarrow> pend C (?b\<lparr>br_phase := ?q\<rparr>) = {#}" by (simp add: acquired_phase_def)
        then have "aborted st \<Longrightarrow> chains_ahead C ?t \<subseteq># chains_ahead C st"
          using c by (metis add.right_neutral mset_subset_eq_add_left)
        moreover have "\<not> aborted st \<Longrightarrow> chains_ahead C ?t = chains_ahead C st" using c same by simp
        moreover have lim: "lim_inv C ?t"
        proof (rule lim_inv_acquire)
          show "lim_inv C ?st1" using wf lim_inv_cong [of st ?st1 C] by (simp add: wf_state_def same_limiter_def)
        qed (use i p in simp_all)
        moreover have "same_tree st ?t"
          using same_tree_trans [OF same_tree_cong same_tree_acquire, of ?st1 st i C ?r] i p by simp
        then have "tree_inv ?t" using wf same_tree_inv by (auto simp: wf_state_def)
        moreover have "fuel_left ?t < fuel_left st"
        proof -
          have "weight (?b\<lparr>br_phase := ?q\<rparr>) \<le> 5" "weight ?b = 1" using p by (simp_all add: weight_def acquired_phase_def)
          then show ?thesis using t [of weight] ask(2) by (simp add: fuel_left_def nat_diff_distrib)
        qed
        moreover have "admissions_left ?t \<le> admissions_left st"
        proof -
          have "unadmitted (?b\<lparr>br_phase := ?q\<rparr>) \<le> 1" "unadmitted ?b = 0" using p by (simp_all add: unadmitted_def acquired_phase_def)
          then show ?thesis using t [of unadmitted] ask(2) by (simp add: admissions_left_def nat_diff_distrib)
        qed
        ultimately have "good_step C st 0 ?t"
          by (cases "aborted st") (simp_all add: good_step_def wf_state_def advances_def work_def unjoined_def)
        then show ?thesis using Replied Inr ask by (simp add: resume_ec_def)
      qed
    qed
  next
    case (Failed e)
    then show ?thesis using empty by (simp add: resume_ec_def settle_with_def good_error contribution_def)
  next
    case (Threw m)
    then show ?thesis using empty by (simp add: resume_ec_def contribution_def)
  qed
qed

lemma call_tree:
  assumes t: "tree_inv st" and i: "i < length (branches st)" and p: "phase_at st i = Returned req out"
    and f: "f = length (frames st)" and fr: "frames st' = frames st @ [\<lparr>fr_parent = Some i, fr_joined = False\<rparr>]"
    and br: "branches st' = branches st @ bs" "\<forall>b \<in> set bs. fresh f b"
  shows "tree_inv (set_phase i (Awaiting f) st')"
proof (rule tree_invI)
  let ?t = "set_phase i (Awaiting f) st'"
  have old: "branches st' ! j = branches st ! j" if "j < length (branches st)" for j
    using that br(1) by (simp add: nth_append)
  have new: "fresh f (branches st' ! j)" if "j < length (branches st')" "\<not> j < length (branches st)" for j
    using that br by (simp add: nth_append)
  note nth = set_phase_nth [of _ st' i "Awaiting f"]
  fix j assume "j < length (branches ?t)"
  then have j: "j < length (branches st')" by simp
  show "br_frame (branches ?t ! j) < length (frames ?t)"
    using tree_invD(1) [OF t, of j] old [of j] new [of j] j fr f nth [OF j]
    by (cases "j < length (branches st)") (auto simp: fresh_def)
  fix g assume g: "phase_at ?t j = Awaiting g"
  show "g < length (frames ?t) \<and> \<not> fr_joined (frames ?t ! g) \<and> fr_parent (frames ?t ! g) = Some j \<and> br_frame (branches ?t ! j) < g"
  proof (cases "j = i")
    case True
    then show ?thesis using g nth [OF j] tree_invD(1) [OF t i] old [OF i] f fr by auto
  next
    case False
    then have gj: "phase_at st' j = Awaiting g" using g nth [OF j] by simp
    then have jo: "j < length (branches st)" using new [OF j] by (auto simp: fresh_def)
    have "g < length (frames st) \<and> \<not> fr_joined (frames st ! g) \<and> fr_parent (frames st ! g) = Some j \<and> br_frame (branches st ! j) < g"
      by (rule tree_invD(2) [OF t jo]) (use gj old [OF jo] in simp)
    then show ?thesis using False nth [OF j] old [OF jo] fr by (simp add: nth_append)
  qed
next
  let ?t = "set_phase i (Awaiting f) st'"
  have len: "length (branches st) \<le> length (branches st')" using br by simp
  fix g k assume g: "g < length (frames ?t)" "\<not> fr_joined (frames ?t ! g)" "fr_parent (frames ?t ! g) = Some k"
  show "k < length (branches ?t) \<and> phase_at ?t k = Awaiting g"
  proof (cases "g = f")
    case True
    then have "k = i" using g fr f by (simp add: nth_append)
    then show ?thesis using True i len by (simp add: set_phase_nth)
  next
    case False
    then have go: "g < length (frames st)" "frames ?t ! g = frames st ! g" using g(1) fr f by (simp_all add: nth_append)
    have k: "k < length (branches st) \<and> phase_at st k = Awaiting g"
      by (rule tree_invD(3) [OF t go(1)]) (use g go(2) in simp_all)
    then have "k \<noteq> i" using p by auto
    then show ?thesis using k len br(1) by (simp add: set_phase_nth nth_append)
  qed
qed

lemma recursive_call_good:
  assumes wf: "wf_state C st" and i: "i < length (branches st)" and p: "phase_at st i = Returned (SS ecJwt ep) (Replied ss)"
    and b: "buildChains C (Some i) (br_hint (branches st ! i)) (hints_of C ecJwt) (br_chain (branches st ! i) @ [ss])
      (br_visited (branches st ! i)) (br_depth (branches st ! i) + 1) st = (st', r)"
    and c: "lookup_anchor (rc_anchors C) (br_hint (branches st ! i)) = None" "\<not> no_hints (hints_of C ecJwt)"
  shows "good_step C st 0 (set_phase i (phase_after r) st')"
proof -
  let ?b = "branches st ! i" and ?t = "set_phase i (phase_after r) st'"
  note e = buildChains_effect [OF b]
  have lv: "rc_maxDepth C + 1 - (br_depth ?b + 1) = rc_maxDepth C - br_depth ?b" by simp
  have new: "mset (walk C (nat (rc_maxDepth C + 1 - (br_depth ?b + 1))) (br_hint ?b) (hints_of C ecJwt) (br_chain ?b @ [ss]) (br_visited ?b)) = pend C ?b"
    unfolding lv using p c by (simp add: pend_def contribution_def after_ss_def Let_def)
  have adv: "advances C (pend C ?b) st st'" using e(1) unfolding new .
  obtain bs where bs: "branches st' = branches st @ bs" using e(6) by (cases r) auto
  then have i': "i < length (branches st')" "branches st' ! i = ?b" using i by (simp_all add: nth_append)
  have pr: "pend C (?b\<lparr>br_phase := phase_after r\<rparr>) = {#}" "weight (?b\<lparr>br_phase := phase_after r\<rparr>) = 0"
    "unadmitted (?b\<lparr>br_phase := phase_after r\<rparr>) = 0" "\<not> holds (phase_after r)" "\<not> waits (phase_after r)"
    by (cases r; simp add: weight_def unadmitted_def)+
  have ct: "chains_ahead C ?t + pend C ?b = chains_ahead C st'"
    using set_phase_counts(3) [OF i'(1), of C "phase_after r"] pr i'(2) by simp
  then have "chains_ahead C ?t \<subseteq># chains_ahead C st"
    using adv by (metis advances_def subset_mset.add_le_cancel_right)
  moreover have "\<not> incomplete st' \<and> \<not> aborted st' \<longrightarrow> chains_ahead C ?t = chains_ahead C st"
    using adv ct by (metis add_right_cancel advances_def)
  moreover have lim: "lim_inv C ?t"
    using adv wf lim_inv_neutral [OF _ i'(1), of C "phase_after r"] pr p i'(2) by (simp add: advances_def wf_state_def)
  ultimately have adv_t: "advances C {#} st ?t" using adv by (simp add: advances_def)
  have fuel: "fuel_left ?t + 2 \<le> fuel_left st"
    using set_phase_counts(1) [OF i'(1), of "phase_after r"] pr i'(2) e(4) p by (simp add: weight_def)
  have adm: "admissions_left ?t \<le> admissions_left st"
    using set_phase_counts(2) [OF i'(1), of "phase_after r"] pr i'(2) e(5) p by (simp add: unadmitted_def)
  have tree: "tree_inv ?t \<and> unjoined ?t \<le> unjoined st + 1"
  proof (cases r)
    case (CallAwaits f)
    then show ?thesis using e(6) call_tree [OF _ i p, of f st'] wf by (auto simp: wf_state_def unjoined_def)
  next
    case CallDone
    then show ?thesis
      using e(6) same_tree_inv [OF same_tree_trans [OF same_tree_cong same_tree_set_phase [OF i'(1)]], of st] i' p wf
      by (simp add: wf_state_def unjoined_def)
  next
    case (CallThrew m)
    then show ?thesis
      using e(6) same_tree_inv [OF same_tree_trans [OF same_tree_cong same_tree_set_phase [OF i'(1)]], of st] i' p wf
      by (simp add: wf_state_def unjoined_def)
  qed
  show ?thesis using adv_t lim fuel adm tree e(3) by (simp add: good_step_def wf_state_def work_def)
qed

lemma resume_ss_good:
  assumes wf: "wf_state C st" and i: "i < length (branches st)" and p: "phase_at st i = Returned (SS ecJwt ep) out"
  shows "good_step C st 0 (resume_ss C i ecJwt out st)"
proof -
  let ?b = "branches st ! i"
  note empty = settled_empty_good [OF wf i p]
  show ?thesis
  proof (cases out)
    case (Replied ss)
    consider (anchor) "lookup_anchor (rc_anchors C) (br_hint ?b) \<noteq> None"
      | (top) "lookup_anchor (rc_anchors C) (br_hint ?b) = None" "no_hints (hints_of C ecJwt)"
      | (up) "lookup_anchor (rc_anchors C) (br_hint ?b) = None" "\<not> no_hints (hints_of C ecJwt)" by blast
    then show ?thesis
    proof cases
      case anchor
      then have "good_step C st 0 ((set_phase i Fulfilled st)\<lparr>chains_found := chains_found st @ finished_chain C (br_hint ?b) (br_chain ?b @ [ss, ecJwt])\<rparr>)"
        using p Replied by (intro settled_good [OF wf i p])
          (auto simp: weight_def unadmitted_def pend_def contribution_def after_ss_def Let_def)
      then show ?thesis using anchor Replied by (simp add: resume_ss_def Let_def)
    next
      case top
      then have "contribution C ?b (SS ecJwt ep) out = []" using Replied by (simp add: contribution_def after_ss_def Let_def)
      then show ?thesis using empty top Replied by (simp add: resume_ss_def settle_with_def good_error Let_def)
    next
      case up
      obtain st' r where r: "buildChains C (Some i) (br_hint ?b) (hints_of C ecJwt) (br_chain ?b @ [ss])
          (br_visited ?b) (br_depth ?b + 1) st = (st', r)" by fastforce
      show ?thesis
        using recursive_call_good [OF wf i p [unfolded Replied] r up] r up Replied by (simp add: resume_ss_def Let_def)
    qed
  next
    case (Failed e)
    then show ?thesis using empty by (simp add: resume_ss_def settle_with_def good_error contribution_def Let_def)
  next
    case (Threw m)
    then show ?thesis using empty by (simp add: resume_ss_def contribution_def Let_def)
  qed
qed

lemma report_fold:
  "same_work st (foldl report_rejected st ps) \<and> frames (foldl report_rejected st ps) = frames st \<and>
   (incomplete st \<longrightarrow> incomplete (foldl report_rejected st ps))"
proof (induction ps arbitrary: st)
  case (Cons p ps)
  have "same_work st (report_rejected st p) \<and> frames (report_rejected st p) = frames st \<and>
     (incomplete st \<longrightarrow> incomplete (report_rejected st p))"
    by (cases p) (simp_all add: report_rejected_def same_work_def same_limiter_def)
  then show ?case using Cons [of "report_rejected st p"] by (auto simp: same_work_def same_limiter_def)
qed (simp add: same_work_def same_limiter_def)

lemma filter_update_drop:
  "f < length xs \<Longrightarrow> P (xs ! f) \<Longrightarrow> \<not> P x \<Longrightarrow> length (filter P (xs[f := x])) + 1 = length (filter P xs)"
proof (induction xs arbitrary: f)
  case (Cons y ys)
  then show ?case by (cases f) auto
qed simp

lemma join_good:
  assumes wf: "wf_state C st" and f: "f < length (frames st)" "\<not> fr_joined (frames st ! f)"
  shows "good_step C st 0 (join_frame f st)"
proof -
  define st1 where "st1 = foldl report_rejected st (frame_phases f st)"
  define st2 where "st2 = st1\<lparr>frames := (frames st1)[f := (frames st1 ! f)\<lparr>fr_joined := True\<rparr>]\<rparr>"
  have s1: "same_work st st1" "frames st1 = frames st" "incomplete st \<longrightarrow> incomplete st1"
    using report_fold unfolding st1_def by blast+
  have s2: "same_work st st2" "incomplete st \<longrightarrow> incomplete st2" "branches st2 = branches st"
    "frames st2 = (frames st)[f := (frames st ! f)\<lparr>fr_joined := True\<rparr>]" "aborted st2 = aborted st"
    using s1 by (simp_all add: st2_def same_work_def same_limiter_def)
  have u: "unjoined st2 + 1 = unjoined st"
    using filter_update_drop [of f "frames st" "\<lambda>f. \<not> fr_joined f"] f by (simp add: unjoined_def s2(4))
  have nth: "frames st2 ! g = (if g = f then (frames st ! f)\<lparr>fr_joined := True\<rparr> else frames st ! g)" if "g < length (frames st)" for g
    using that by (simp add: s2(4) nth_list_update)
  have fl: "length (frames st2) = length (frames st)" by (simp add: s2(4))
  have t: "tree_inv st" using wf by (simp add: wf_state_def)
  have adv: "advances C {#} st st2" using advances_same s2 by blast
  show ?thesis
  proof (cases "fr_parent (frames st ! f)")
    case None
    then have j: "join_frame f st = st2" by (simp add: join_frame_def st1_def st2_def Let_def)
    have "tree_inv st2"
    proof (rule tree_invI)
      fix i assume i: "i < length (branches st2)"
      then show "br_frame (branches st2 ! i) < length (frames st2)" using tree_invD(1) [OF t] s2(3) fl by simp
      fix g assume "phase_at st2 i = Awaiting g"
      then have "g < length (frames st) \<and> \<not> fr_joined (frames st ! g) \<and> fr_parent (frames st ! g) = Some i \<and> br_frame (branches st ! i) < g"
        using tree_invD(2) [OF t] i s2(3) by simp
      then show "g < length (frames st2) \<and> \<not> fr_joined (frames st2 ! g) \<and> fr_parent (frames st2 ! g) = Some i \<and> br_frame (branches st2 ! i) < g"
        using None nth [of g] s2(3) fl by (auto split: if_splits)
    next
      fix g i assume "g < length (frames st2)" "\<not> fr_joined (frames st2 ! g)" "fr_parent (frames st2 ! g) = Some i"
      then show "i < length (branches st2) \<and> phase_at st2 i = Awaiting g"
        using tree_invD(3) [OF t, of g i] nth [of g] s2(3) fl by (auto split: if_splits)
    qed
    then show ?thesis
      using adv u same_work_counts [OF s2(1)] s2(5) wf
      by (simp add: j good_step_def wf_state_def advances_def work_def)
  next
    case (Some i)
    have i: "i < length (branches st) \<and> phase_at st i = Awaiting f" using tree_invD(3) [OF t f Some] .
    let ?t = "set_phase i Fulfilled st2"
    have j: "join_frame f st = ?t" using Some by (simp add: join_frame_def st1_def st2_def Let_def)
    have i2: "i < length (branches st2)" "branches st2 ! i = branches st ! i" using i s2 by simp_all
    have "tree_inv ?t"
    proof (rule tree_invI)
      fix k assume k: "k < length (branches ?t)"
      then show "br_frame (branches ?t ! k) < length (frames ?t)"
        using tree_invD(1) [OF t, of k] s2(3) fl by (auto simp: set_phase_nth)
      fix g assume g: "phase_at ?t k = Awaiting g"
      then have ki: "k \<noteq> i" using k by (auto simp: set_phase_nth)
      then have "phase_at st k = Awaiting g" using g k s2(3) by (simp add: set_phase_nth)
      then have g': "g < length (frames st) \<and> \<not> fr_joined (frames st ! g) \<and> fr_parent (frames st ! g) = Some k \<and> br_frame (branches st ! k) < g"
        using tree_invD(2) [OF t] k s2(3) by simp
      then have "g \<noteq> f" using Some ki by auto
      then show "g < length (frames ?t) \<and> \<not> fr_joined (frames ?t ! g) \<and> fr_parent (frames ?t ! g) = Some k \<and> br_frame (branches ?t ! k) < g"
        using g' nth [of g] ki k s2(3) fl by (simp add: set_phase_nth)
    next
      fix g k assume g: "g < length (frames ?t)" "\<not> fr_joined (frames ?t ! g)" "fr_parent (frames ?t ! g) = Some k"
      then have gf: "g < length (frames st)" "g \<noteq> f" "frames ?t ! g = frames st ! g" using nth [of g] s2(3) fl by (auto split: if_splits)
      have k: "k < length (branches st) \<and> phase_at st k = Awaiting g"
        by (rule tree_invD(3) [OF t gf(1)]) (use g gf in simp_all)
      then have "k \<noteq> i" using i gf by auto
      then show "k < length (branches ?t) \<and> phase_at ?t k = Awaiting g" using k s2(3) by (simp add: set_phase_nth)
    qed
    moreover have "advances C {#} st2 ?t"
    proof -
      have "advances C {#} st2 ((set_phase i Fulfilled st2)\<lparr>chains_found := chains_found st2 @ []\<rparr>)"
        by (rule advances_set_phase [OF i2(1)]) (use i i2 in \<open>simp_all add: pend_def\<close>)
      then show ?thesis by (simp add: set_phase_def)
    qed
    then have "advances C {#} st ?t" using advances_trans [OF adv] by force
    moreover have "fuel_left ?t = fuel_left st" "admissions_left ?t = admissions_left st"
      using set_phase_counts(1,2) [OF i2(1), of Fulfilled] same_work_counts [OF s2(1)] i i2
      by (simp_all add: weight_def unadmitted_def)
    ultimately show ?thesis
      using u s2(5) wf by (simp add: j good_step_def wf_state_def advances_def work_def unjoined_def)
  qed
qed

lemma reject_all:
  assumes "\<forall>i \<in> set is. i < length (branches st)"
  shows "chains_ahead C (foldl (\<lambda>s i. set_phase i (Rejected m) s) st is) \<subseteq># chains_ahead C st \<and>
    fuel_left (foldl (\<lambda>s i. set_phase i (Rejected m) s) st is) \<le> fuel_left st \<and>
    admissions_left (foldl (\<lambda>s i. set_phase i (Rejected m) s) st is) \<le> admissions_left st"
  using assms
proof (induction "is" arbitrary: st)
  case (Cons i "is")
  let ?s = "set_phase i (Rejected m) st"
  have i: "i < length (branches st)" using Cons.prems by simp
  have "fuel_left ?s \<le> fuel_left st" "admissions_left ?s \<le> admissions_left st"
    using set_phase_counts(1,2) [OF i, of "Rejected m"] by (simp_all add: weight_def unadmitted_def)
  moreover have "chains_ahead C ?s \<subseteq># chains_ahead C st" by (rule chains_drop [OF i])
  moreover note Cons.IH [of ?s]
  ultimately show ?case using Cons.prems by (auto intro: subset_mset.order_trans)
qed simp

lemma abort_good:
  assumes wf: "wf_state C st" and a: "\<not> aborted st"
  shows "good_step C st 0 (if listening st then onAbort (st\<lparr>aborted := True\<rparr>) else st\<lparr>aborted := True\<rparr>)"
proof -
  let ?s = "st\<lparr>aborted := True\<rparr>"
  let ?t = "if listening st then onAbort ?s else ?s"
  let ?r = "foldl (\<lambda>s i. set_phase i (Rejected aborted_message) s) ?s (queue st)"
  have s: "chains_ahead C ?s = chains_ahead C st" "fuel_left ?s = fuel_left st" "admissions_left ?s = admissions_left st"
    by (simp_all add: chains_ahead_def fuel_left_def admissions_left_def total_def)
  have "\<forall>i \<in> set (queue st). i < length (branches ?s)" using wf by (auto simp: wf_state_def lim_inv_def waiters_def)
  note r = reject_all [OF this, of C aborted_message, unfolded s]
  have "chains_ahead C (onAbort ?s) = chains_ahead C ?r" "fuel_left (onAbort ?s) = fuel_left ?r"
    "admissions_left (onAbort ?s) = admissions_left ?r"
    by (simp_all add: onAbort_def chains_ahead_def fuel_left_def admissions_left_def total_def)
  then have c: "chains_ahead C ?t \<subseteq># chains_ahead C st" "fuel_left ?t \<le> fuel_left st" "admissions_left ?t \<le> admissions_left st"
    using r s by auto
  have lim: "lim_inv C ?t" using lim_inv_abort wf by (simp add: wf_state_def)
  have "tree_inv ?s" using wf same_tree_inv [OF same_tree_cong, of ?s st] by (simp add: wf_state_def)
  then have tree: "tree_inv ?t" using same_tree_inv [OF same_tree_onAbort, of C st] wf by (simp add: wf_state_def)
  have "aborted ?t" "incomplete ?t = incomplete st" "unjoined ?t = unjoined st" by (simp_all add: unjoined_def)
  then show ?thesis using c lim tree a unfolding good_step_def wf_state_def advances_def work_def by simp
qed

lemma step_good:
  assumes "resolve_step C st e st'" "wf_state C st"
  shows "good_step C st (admits e) st'"
  using assms
proof (cases rule: resolve_step.cases)
  case (admit_fetch i req)
  then show ?thesis using admit_fetch_good assms by simp
next
  case (admit_abort i req)
  then show ?thesis using admit_abort_good assms by simp
next
  case (settle i req out)
  then show ?thesis using settle_good assms by simp
next
  case (resume_first i out)
  then show ?thesis using resume_ec_good assms by simp
next
  case (resume_second i ecJwt ep out)
  then show ?thesis using resume_ss_good assms by simp
next
  case (join f)
  then show ?thesis using join_good assms by simp
next
  case abort
  then show ?thesis using abort_good assms by simp
qed

section \<open>Joined frames are settled\<close>

definition joined_inv :: "rstate \<Rightarrow> bool" where
  "joined_inv st \<longleftrightarrow>
     (\<forall>i < length (branches st). fr_joined (frames st ! br_frame (branches st ! i)) \<longrightarrow> settled (phase_at st i))"

definition settles :: "rstate \<Rightarrow> rstate \<Rightarrow> bool" where
  "settles st st' \<longleftrightarrow> frames st' = frames st \<and> length (branches st') = length (branches st) \<and>
     (\<forall>j < length (branches st). br_frame (branches st' ! j) = br_frame (branches st ! j) \<and>
        (settled (phase_at st j) \<longrightarrow> settled (phase_at st' j)))"

lemma settles_joined: "settles st st' \<Longrightarrow> joined_inv st \<Longrightarrow> joined_inv st'"
  unfolding settles_def joined_inv_def by force

lemma settles_trans: "settles a b \<Longrightarrow> settles b c \<Longrightarrow> settles a c"
  by (simp add: settles_def)

lemma settles_cong: "frames st' = frames st \<Longrightarrow> branches st' = branches st \<Longrightarrow> settles st st'"
  by (simp add: settles_def)

lemma settles_set_phase: "\<not> settled (phase_at st i) \<or> settled p \<Longrightarrow> settles st (set_phase i p st)"
  by (auto simp: settles_def set_phase_nth)

lemma settles_release: "head_waits st \<Longrightarrow> settles st (release st)"
  by (auto simp: settles_def release_nth head_waits_def split: list.splits) (metis settled.simps(3) waits_request)

lemma settles_acquire: "\<not> settled (phase_at st i) \<Longrightarrow> settles st (acquire C i req st)"
  by (simp add: acquire_eq settles_def set_phase_nth)

lemma settles_onAbort: "settles st (onAbort st)"
  by (simp add: settles_def onAbort_nth)

lemma joined_append:
  assumes j: "joined_inv st" and t: "tree_inv st"
    and fr: "frames st' = frames st @ [\<lparr>fr_parent = q, fr_joined = False\<rparr>]"
    and br: "branches st' = branches st @ bs" "\<forall>b \<in> set bs. fresh (length (frames st)) b"
  shows "joined_inv st'"
  unfolding joined_inv_def
proof (intro allI impI)
  fix i assume i: "i < length (branches st')" and jd: "fr_joined (frames st' ! br_frame (branches st' ! i))"
  show "settled (phase_at st' i)"
  proof (cases "i < length (branches st)")
    case True
    then have "br_frame (branches st ! i) < length (frames st)" by (rule tree_invD(1) [OF t])
    then show ?thesis using jd j True fr br(1) by (simp add: joined_inv_def nth_append)
  next
    case False
    then have "branches st' ! i \<in> set bs" using i br(1) by (simp add: nth_append)
    then have "br_frame (branches st' ! i) = length (frames st)" using br(2) by (simp add: fresh_def)
    then show ?thesis using jd fr by simp
  qed
qed

lemma resume_ss_joined:
  assumes j: "joined_inv st" "tree_inv st" and i: "i < length (branches st)" and u: "\<not> settled (phase_at st i)"
  shows "joined_inv (resume_ss C i ecJwt out st)"
proof -
  have keep: "joined_inv s" if "frames s = frames (set_phase i p st)" "branches s = branches (set_phase i p st)" for s p
    using settles_joined [OF settles_trans [OF settles_set_phase settles_cong]] that u j by blast
  show ?thesis
  proof (cases "\<exists>ss. out = Replied ss \<and> lookup_anchor (rc_anchors C) (br_hint (branches st ! i)) = None \<and> \<not> no_hints (hints_of C ecJwt)")
    case False
    then show ?thesis
      by (auto simp: resume_ss_def Let_def settle_with_def keep [of _ Fulfilled] keep [OF refl refl] split: outcome.splits)
  next
    case True
    then obtain ss where ss: "out = Replied ss" "lookup_anchor (rc_anchors C) (br_hint (branches st ! i)) = None"
      "\<not> no_hints (hints_of C ecJwt)" by blast
    obtain st' r where r: "buildChains C (Some i) (br_hint (branches st ! i)) (hints_of C ecJwt) (br_chain (branches st ! i) @ [ss])
        (br_visited (branches st ! i)) (br_depth (branches st ! i) + 1) st = (st', r)" by fastforce
    have eq: "resume_ss C i ecJwt out st = set_phase i (phase_after r) st'" using ss r by (simp add: resume_ss_def Let_def)
    note e = buildChains_effect(6) [OF r]
    have "joined_inv st'" using e j joined_append [of st st' "Some i"] settles_joined [OF settles_cong, of st' st] by (cases r) auto
    moreover have "\<not> settled (phase_at st' i)" using e i u by (cases r) (auto simp: nth_append)
    ultimately show ?thesis unfolding eq using settles_joined [OF settles_set_phase] by blast
  qed
qed

lemma join_joined:
  assumes "joined_inv st" and f: "f < length (frames st)" and all: "list_all settled (frame_phases f st)"
  shows "joined_inv (join_frame f st)"
proof -
  let ?st1 = "foldl report_rejected st (frame_phases f st)"
  let ?st2 = "?st1\<lparr>frames := (frames ?st1)[f := (frames ?st1 ! f)\<lparr>fr_joined := True\<rparr>]\<rparr>"
  have s: "frames ?st1 = frames st" "branches ?st1 = branches st"
    using report_fold [of st "frame_phases f st"] by (simp_all add: same_work_def same_limiter_def)
  have "joined_inv ?st2"
    unfolding joined_inv_def
  proof (intro allI impI)
    fix i assume i: "i < length (branches ?st2)" and jd: "fr_joined (frames ?st2 ! br_frame (branches ?st2 ! i))"
    show "settled (phase_at ?st2 i)"
    proof (cases "br_frame (branches st ! i) = f")
      case True
      then show ?thesis using all i s by (simp add: frame_phases_def list_all_iff)
    next
      case False
      then show ?thesis using jd assms(1) i s by (simp add: joined_inv_def)
    qed
  qed
  then show ?thesis
    using settles_joined [OF settles_set_phase] by (auto simp: join_frame_def Let_def split: option.splits)
qed

lemma step_joined:
  assumes "resolve_step C st e st'" "wf_state C st" "joined_inv st"
  shows "joined_inv st'"
  using assms(1)
proof (cases rule: resolve_step.cases)
  case (admit_fetch i req)
  then show ?thesis using settles_joined [OF settles_set_phase, of st i] assms by simp
next
  case (admit_abort i req)
  then show ?thesis
    using settles_joined [OF settles_trans [OF settles_set_phase settles_release], of st i "Rejected aborted_message"]
      head_waits_set_phase [of C st i] assms by (simp add: wf_state_def)
next
  case (settle i req out)
  then show ?thesis
    using settles_joined [OF settles_trans [OF settles_set_phase settles_release], of st i "Returned req out"]
      head_waits_set_phase [of C st i] assms by (simp add: wf_state_def)
next
  case (resume_first i out)
  then have u: "\<not> settled (phase_at st i)" by simp
  have "settles st (acquire C i r (st\<lparr>budget := b\<rparr>))" for r b
    using settles_trans [OF settles_cong settles_acquire, of "st\<lparr>budget := b\<rparr>" st i C r] u by simp
  moreover have "settles st s" if "frames s = frames (set_phase i p st)" "branches s = branches (set_phase i p st)" for s p
    using settles_trans [OF settles_set_phase settles_cong] that u by blast
  ultimately have "settles st (resume_ec C i out st)"
    by (auto simp: resume_ec_def settle_with_def exhausted_def Let_def split: outcome.splits sum.splits)
  then show ?thesis using resume_first settles_joined assms by blast
next
  case (resume_second i ecJwt ep out)
  then show ?thesis using resume_ss_joined assms by (simp add: wf_state_def)
next
  case (join f)
  then show ?thesis using join_joined assms by simp
next
  case abort
  have "settles st (st\<lparr>aborted := True\<rparr>)" "settles st (onAbort (st\<lparr>aborted := True\<rparr>))"
    using settles_trans [OF settles_cong settles_onAbort, of "st\<lparr>aborted := True\<rparr>" st] by (simp_all add: settles_def)
  then show ?thesis using abort settles_joined assms by simp
qed

end
