(* ===== verification/Resolve_Runs.thy ===== *)
theory Resolve_Runs
  imports Resolve_Invariants
begin

text \<open>
  Whole runs of a resolution, by rule induction over the steps: they end, they keep the limits, and a
  finished run has found what the sequential walk finds, which is described by the paths from the entity to
  a trust anchor.
\<close>

section \<open>Runs\<close>

inductive_cases run_cases: "resolve_run C st0 es st"

lemma run_good:
  assumes "resolve_run C st0 es st" "wf_state C st0" "joined_inv st0"
  shows "wf_state C st \<and> joined_inv st \<and> advances C {#} st0 st \<and> length es + work st \<le> work st0 \<and>
    sum_list (map admits es) + admissions_left st \<le> admissions_left st0"
  using assms
proof (induction rule: resolve_run.induct)
  case start
  then show ?case by (simp add: advances_def)
next
  case (step es st e st')
  then have IH: "wf_state C st" "joined_inv st" "advances C {#} st0 st" "length es + work st \<le> work st0"
    "sum_list (map admits es) + admissions_left st \<le> admissions_left st0" by blast+
  have "good_step C st (admits e) st'" using step_good step.hyps(2) IH(1) .
  moreover have "joined_inv st'" using step_joined step.hyps(2) IH(1,2) .
  ultimately show ?case
    using IH advances_trans [OF IH(3), of "{#}" st'] by (simp add: good_step_def)
qed

lemma initial_good:
  assumes "0 < rc_maxConcurrent C"
  shows "wf_state C (initial_state C ab)" "joined_inv (initial_state C ab)"
  using assms by (simp_all add: wf_state_def lim_inv_def tree_inv_def joined_inv_def initial_state_def total_def waiters_def)

text \<open>The levels the walk of a resolution has, and the walk itself.\<close>

definition whole_walk :: "resolve_config \<Rightarrow> trust_chain list" where
  "whole_walk C =
     (case rc_ec C (JStr (rc_entityId C)) of
        Replied leaf \<Rightarrow> walk C (nat (rc_maxDepth C)) (JStr (rc_entityId C)) (hints_of C leaf) [leaf] [JStr (rc_entityId C)]
      | _ \<Rightarrow> [])"

lemma begin_good:
  assumes "resolveTrustChains C ab = Run st0"
  shows "wf_state C st0" "joined_inv st0" "0 < rc_maxConcurrent C" "0 < rc_maxTotalFetches C"
    "chains_ahead C st0 \<subseteq># mset (whole_walk C)"
    "\<not> incomplete st0 \<and> \<not> aborted st0 \<longrightarrow> chains_ahead C st0 = mset (whole_walk C)"
    "work st0 + 4 \<le> 6 * nat (rc_maxTotalFetches C)" "admissions_left st0 + 1 \<le> nat (rc_maxTotalFetches C)"
proof -
  obtain leaf d r where pos: "0 < rc_maxConcurrent C" "0 < rc_maxTotalFetches C"
    and leaf: "rc_ec C (JStr (rc_entityId C)) = Replied leaf" "decodeEntityStatement (rc_jose C) leaf = Inr d"
    and b: "buildChains C None (JStr (rc_entityId C)) (pget (payload d) ''authority_hints'') [leaf] [JStr (rc_entityId C)] 1
        (initial_state C ab) = (st0, r)"
    using assms
    by (auto simp: resolveTrustChains_def Let_def split: if_splits outcome.splits sum.splits prod.splits call_result.splits)
  let ?i = "initial_state C ab"
  note e = buildChains_effect [OF b] and i = initial_good [OF pos(1), of ab]
  have z: "chains_ahead C ?i = {#}" "fuel_left ?i = 6 * nat (rc_maxTotalFetches C - 1)" "admissions_left ?i = nat (rc_maxTotalFetches C - 1)"
    "unjoined ?i = 0"
    by (simp_all add: chains_ahead_def fuel_left_def admissions_left_def unjoined_def initial_state_def total_def)
  have w: "walk C (nat (rc_maxDepth C + 1 - 1)) (JStr (rc_entityId C)) (pget (payload d) ''authority_hints'') [leaf] [JStr (rc_entityId C)] =
      whole_walk C"
    using leaf by (simp add: whole_walk_def hints_of_def)
  show "0 < rc_maxConcurrent C" "0 < rc_maxTotalFetches C" by fact+
  show "chains_ahead C st0 \<subseteq># mset (whole_walk C)" "\<not> incomplete st0 \<and> \<not> aborted st0 \<longrightarrow> chains_ahead C st0 = mset (whole_walk C)"
    using e(1) unfolding w by (simp_all add: advances_def z)
  have lim: "lim_inv C st0" using e(1) i by (simp add: advances_def wf_state_def)
  have "tree_inv st0 \<and> joined_inv st0 \<and> unjoined st0 \<le> 1"
  proof (cases r)
    case (CallAwaits f)
    then have fr: "f = 0" "frames st0 = [\<lparr>fr_parent = None, fr_joined = False\<rparr>]" "\<forall>b \<in> set (branches st0). fresh 0 b"
      using e(6) by (auto simp: initial_state_def)
    then have k: "br_frame (branches st0 ! k) = 0" "\<not> awaits (phase_at st0 k)" if "k < length (branches st0)" for k
      using that by (simp_all add: fresh_def)
    have aw: "phase_at st0 k \<noteq> Awaiting g" if "k < length (branches st0)" for k g using k(2) [OF that] by auto
    have "tree_inv st0" using fr k(1) aw by (intro tree_invI) auto
    moreover have "joined_inv st0" using fr k(1) by (auto simp: joined_inv_def)
    ultimately show ?thesis using fr by (simp add: unjoined_def)
  qed (use e(6) in \<open>simp_all add: initial_state_def tree_inv_def joined_inv_def unjoined_def\<close>)
  then have t: "tree_inv st0" "joined_inv st0" "unjoined st0 \<le> 1" by simp_all
  show "wf_state C st0" "joined_inv st0" using t lim by (simp_all add: wf_state_def)
  have "nat (rc_maxTotalFetches C - 1) + 1 = nat (rc_maxTotalFetches C)" using pos(2) by simp
  moreover have "work st0 \<le> fuel_left st0 + unjoined st0 + 1" by (simp add: work_def)
  ultimately show "work st0 + 4 \<le> 6 * nat (rc_maxTotalFetches C)" "admissions_left st0 + 1 \<le> nat (rc_maxTotalFetches C)"
    using e(4,5) t(3) unfolding z by linarith+
qed

lemma progress:
  assumes wf: "wf_state C st" and c: "0 < rc_maxConcurrent C" and nf: "\<not> finished st"
  shows "\<exists>e st'. e \<noteq> Abort \<and> resolve_step C st e st'"
proof (cases "\<exists>i < length (branches st). holds (phase_at st i) \<or> (\<exists>r out. phase_at st i = Returned r out)")
  case True
  then obtain i where i: "i < length (branches st)" and "holds (phase_at st i) \<or> (\<exists>r out. phase_at st i = Returned r out)" by blast
  then consider (adm) r where "phase_at st i = Admitted r" | (fet) r where "phase_at st i = Fetching r"
    | (first) out where "phase_at st i = Returned EC out" | (second) j ep out where "phase_at st i = Returned (SS j ep) out"
    by (metis holds.elims(2) request.exhaust)
  then show ?thesis
  proof cases
    case adm
    then show ?thesis using admit_fetch [OF i] admit_abort [OF i] by (cases "aborted st") blast+
  next
    case (fet r)
    have "may_return C st i r (expected C (branches st ! i) r)" by (simp add: may_return_def)
    then show ?thesis using settle [OF i fet] by blast
  next
    case first
    then show ?thesis using resume_first [OF i] by blast
  next
    case second
    then show ?thesis using resume_second [OF i] by blast
  qed
next
  case False
  have "total holding st = 0" using False by (auto simp: total_def holding_def in_set_conv_nth)
  then have q: "waiters st = {}" using wf c by (auto simp: wf_state_def lim_inv_def)
  have ph: "settled (phase_at st i) \<or> awaits (phase_at st i)" if "i < length (branches st)" for i
    using that False q by (cases "phase_at st i") (auto simp: waiters_def)
  let ?F = "{f. f < length (frames st) \<and> \<not> fr_joined (frames st ! f)}"
  have "finite ?F" "?F \<noteq> {}" using nf by (auto simp: finished_def list_all_length)
  then have f: "Max ?F \<in> ?F" "\<And>g. g \<in> ?F \<Longrightarrow> g \<le> Max ?F" using Max_in [of ?F] Max_ge [of ?F] by blast+
  let ?f = "Max ?F"
  have "settled (phase_at st i)" if i: "i < length (branches st)" and fr: "br_frame (branches st ! i) = ?f" for i
  proof (rule ccontr)
    assume "\<not> settled (phase_at st i)"
    then obtain g where "phase_at st i = Awaiting g" using ph [OF i] by (cases "phase_at st i") auto
    then have "g \<in> ?F \<and> ?f < g" using tree_invD(2) [OF _ i] wf fr by (auto simp: wf_state_def)
    then show False using f(2) [of g] by linarith
  qed
  then have "list_all settled (frame_phases ?f st)" by (auto simp: frame_phases_def list_all_iff in_set_conv_nth)
  then show ?thesis using join [of ?f st C] f(1) by blast
qed

lemma finished_chains:
  assumes "wf_state C st" "joined_inv st" "finished st"
  shows "chains_ahead C st = mset (chains_found st)"
proof -
  have t: "tree_inv st" using assms(1) by (simp add: wf_state_def)
  have none: "pend C (branches st ! i) = {#}" if i: "i < length (branches st)" for i
  proof -
    have "fr_joined (frames st ! br_frame (branches st ! i))"
      using tree_invD(1) [OF t i] assms(3) by (simp add: finished_def list_all_length)
    then have "settled (phase_at st i)" using assms(2) i unfolding joined_inv_def by blast
    then show ?thesis by (cases "phase_at st i") (simp_all add: pend_def)
  qed
  have "pend C b = {#}" if "b \<in> set (branches st)" for b
    using that none unfolding in_set_conv_nth by blast
  then have "map (pend C) (branches st) = map (\<lambda>_. {#}) (branches st)" by simp
  then have "total (pend C) st = {#}" unfolding total_def by (simp only: sum_list_0)
  then show ?thesis by (simp add: chains_ahead_def)
qed

section \<open>Paths to a trust anchor\<close>

text \<open>\<open>h\<close> is a superior of the current entity, not met before on this path: its configuration is fetched and
  names an endpoint, and the endpoint answers with a statement about the current entity.\<close>

definition superior_of ::
  "resolve_config \<Rightarrow> jsval \<Rightarrow> jsval \<Rightarrow> jsval list \<Rightarrow> jsval \<Rightarrow> string \<Rightarrow> string \<Rightarrow> bool" where
  "superior_of C current hints visited h ecJwt ss \<longleftrightarrow>
     h \<in> set (usable_hints C current (items hints)) \<and> \<not> list_ex (strict_eq h) visited \<and> rc_ec C h = Replied ecJwt \<and>
     (case decodeEntityStatement (rc_jose C) ecJwt of
        Inl _ \<Rightarrow> False
      | Inr d \<Rightarrow> truthy (fetch_endpoint d) \<and> rc_ss C (fetch_endpoint d) current h = Replied ss)"

text \<open>The statements of a path of at most \<open>n\<close> superiors that ends at the trust anchor \<open>ta\<close>.\<close>

inductive superior_path ::
  "resolve_config \<Rightarrow> nat \<Rightarrow> jsval \<Rightarrow> jsval \<Rightarrow> jsval list \<Rightarrow> string list \<Rightarrow> jsval \<Rightarrow> bool" for C where
  path_top: "\<lbrakk>superior_of C current hints visited h ecJwt ss; lookup_anchor (rc_anchors C) h \<noteq> None\<rbrakk>
    \<Longrightarrow> superior_path C (Suc n) current hints visited [ss, ecJwt] h"
| path_up: "\<lbrakk>superior_of C current hints visited h ecJwt ss; lookup_anchor (rc_anchors C) h = None;
     \<not> no_hints (hints_of C ecJwt); superior_path C n h (hints_of C ecJwt) (visited @ [h]) ups ta\<rbrakk>
    \<Longrightarrow> superior_path C (Suc n) current hints visited (ss # ups) ta"

inductive_simps path_zero [simp]: "superior_path C 0 current hints visited ups ta"
inductive_simps path_Suc: "superior_path C (Suc n) current hints visited ups ta"

lemma hint_walk_iff:
  "h \<in> set (usable_hints C current (items hints)) \<Longrightarrow>
   tc \<in> set (hint_walk C W current chain visited h) \<longleftrightarrow>
     (\<exists>ecJwt ss. superior_of C current hints visited h ecJwt ss \<and> tc \<in> set (after_ss C W h chain (visited @ [h]) ecJwt ss))"
proof (cases "rc_ec C h")
  case (Replied j)
  assume h: "h \<in> set (usable_hints C current (items hints))"
  show ?thesis
  proof (cases "decodeEntityStatement (rc_jose C) j")
    case (Inr d)
    show ?thesis
      by (cases "rc_ss C (fetch_endpoint d) current h") (use h in \<open>simp_all add: Replied Inr hint_walk_def after_ec_def superior_of_def\<close>)
  qed (simp add: Replied hint_walk_def after_ec_def superior_of_def)
qed (simp_all add: hint_walk_def superior_of_def)

lemma superior_hint: "superior_of C current hints visited h ecJwt ss \<Longrightarrow> h \<in> set (usable_hints C current (items hints))"
  by (simp add: superior_of_def)

lemma walk_Suc_iff:
  "tc \<in> set (walk C (Suc n) current hints chain visited) \<longleftrightarrow>
     (\<exists>h ecJwt ss. superior_of C current hints visited h ecJwt ss \<and>
        tc \<in> set (after_ss C (walk C n) h chain (visited @ [h]) ecJwt ss))"
  using hint_walk_iff [of _ C current hints tc "walk C n" chain visited] superior_hint
  by (simp add: Bex_def) blast

lemma walk_paths:
  "tc \<in> set (walk C n current hints chain visited) \<longleftrightarrow>
     (\<exists>ups ta. superior_path C n current hints visited ups ta \<and> tc \<in> set (finished_chain C ta (chain @ ups)))"
proof (induction n arbitrary: current hints chain visited)
  case (Suc n)
  have "tc \<in> set (after_ss C (walk C n) h chain v ecJwt ss) \<longleftrightarrow>
      lookup_anchor (rc_anchors C) h \<noteq> None \<and> tc \<in> set (finished_chain C h (chain @ [ss, ecJwt])) \<or>
      lookup_anchor (rc_anchors C) h = None \<and> \<not> no_hints (hints_of C ecJwt) \<and>
        (\<exists>ups ta. superior_path C n h (hints_of C ecJwt) v ups ta \<and> tc \<in> set (finished_chain C ta ((chain @ [ss]) @ ups)))"
    for h v ecJwt ss
    by (auto simp: after_ss_def Suc)
  then show ?case unfolding walk_Suc_iff path_Suc by (simp del: not_None_eq) blast
qed simp

section \<open>Properties of resolution\<close>

text \<open>A schedule run by the state machine, for concrete examples.\<close>

fun exec :: "resolve_config \<Rightarrow> event \<Rightarrow> rstate \<Rightarrow> rstate option" where
  "exec C (Admit i) st =
     (if i < length (branches st) then
        (case br_phase (branches st ! i) of
           Admitted req \<Rightarrow> Some (if aborted st then release (set_phase i (Rejected aborted_message) st) else set_phase i (Fetching req) st)
         | _ \<Rightarrow> None)
      else None)"
| "exec C (Settle i out) st =
     (if i < length (branches st) then
        (case br_phase (branches st ! i) of
           Fetching req \<Rightarrow> if may_return C st i req out then Some (release (set_phase i (Returned req out) st)) else None
         | _ \<Rightarrow> None)
      else None)"
| "exec C (Resume i) st =
     (if i < length (branches st) then
        (case br_phase (branches st ! i) of
           Returned req out \<Rightarrow> Some (case req of EC \<Rightarrow> resume_ec C i out st | SS ecJwt _ \<Rightarrow> resume_ss C i ecJwt out st)
         | _ \<Rightarrow> None)
      else None)"
| "exec C (Join f) st =
     (if f < length (frames st) \<and> \<not> fr_joined (frames st ! f) \<and> list_all settled (frame_phases f st)
      then Some (join_frame f st) else None)"
| "exec C Abort st =
     (if aborted st then None else Some (if listening st then onAbort (st\<lparr>aborted := True\<rparr>) else st\<lparr>aborted := True\<rparr>))"

fun exec_all :: "resolve_config \<Rightarrow> event list \<Rightarrow> rstate \<Rightarrow> rstate option" where
  "exec_all C [] st = Some st"
| "exec_all C (e # es) st = (case exec C e st of None \<Rightarrow> None | Some st' \<Rightarrow> exec_all C es st')"

lemma exec_step: "exec C e st = Some st' \<Longrightarrow> resolve_step C st e st'"
  using resolve_step.abort [of st C]
  by (cases e) (auto split: if_splits phase.splits request.splits intro: resolve_step.intros)

lemma exec_run: "resolve_run C st0 es st \<Longrightarrow> exec_all C es' st = Some st' \<Longrightarrow> resolve_run C st0 (es @ es') st'"
proof (induction es' arbitrary: es st)
  case (Cons e es')
  then obtain s where "exec C e st = Some s" "exec_all C es' s = Some st'" by (auto split: option.splits)
  then show ?case using Cons.IH [OF resolve_run.step [OF Cons.prems(1) exec_step]] by simp
qed simp

lemmas exec_runs = exec_run [OF resolve_run.start, simplified]

text \<open>A relying party under an intermediate under a trust anchor, one fetch at a time.\<close>

definition net_statement :: "string \<Rightarrow> jsval dict" where
  "net_statement who =
     [(''iss'', JStr who), (''sub'', JStr who), (''exp'', JNum 500),
      (''metadata'', JObj [(''federation_entity'', JObj [(''federation_fetch_endpoint'', JStr (who @ ''/fetch''))])])] @
     (if who = ''rp'' then [(''authority_hints'', JArr [JStr ''im'', JStr ''ta''])]
      else if who = ''im'' then [(''authority_hints'', JArr [JStr ''ta'', JStr ''rp''])] else [])"

definition example_net :: resolve_config where
  "example_net =
     \<lparr>rc_jose = \<lparr>jose_header = (\<lambda>t. Inr []), jose_payload = (\<lambda>t. Inr (net_statement t)), jose_verify = (\<lambda>t k a s c. Inr [])\<rparr>,
      rc_entityId = ''rp'', rc_anchors = [(''ta'', JObj [])], rc_maxDepth = 8, rc_maxHints = 10, rc_maxConcurrent = 1,
      rc_maxTotalFetches = 50, rc_hintFilter = None, rc_ec = (\<lambda>h. Replied (str_of h)),
      rc_ss = (\<lambda>e s i. Replied (str_of i @ ''-'' @ str_of s))\<rparr>"

definition example_schedule :: "event list" where
  "example_schedule =
     [Admit 0, Settle 0 (Replied ''im''), Resume 0, Admit 1, Settle 1 (Replied ''ta''), Admit 0, Resume 1,
      Settle 0 (Replied ''im-rp''), Resume 0, Admit 1, Settle 1 (Replied ''ta-rp''), Resume 1, Admit 2,
      Settle 2 (Replied ''ta''), Resume 2, Admit 2, Settle 2 (Replied ''ta-im''), Resume 2, Join 1, Join 0]"

definition example_begin :: rstate where
  "example_begin = (case resolveTrustChains example_net False of Run st \<Rightarrow> st | _ \<Rightarrow> initial_state example_net False)"

definition example_end :: rstate where
  "example_end = (case exec_all example_net example_schedule example_begin of Some st \<Rightarrow> st | None \<Rightarrow> example_begin)"

lemma example_begins: "resolveTrustChains example_net False = Run example_begin"
  by code_simp

lemma example_runs: "resolve_run example_net example_begin example_schedule example_end"
proof (rule exec_runs)
  have "exec_all example_net example_schedule example_begin \<noteq> None" by code_simp
  then show "exec_all example_net example_schedule example_begin = Some example_end"
    by (auto simp: example_end_def)
qed

lemma example_ends: "finished example_end \<and> \<not> rr_incomplete (result_of example_end) \<and>
    map tc_statements (chains_found example_end) = [[''rp'', ''ta-rp'', ''ta''], [''rp'', ''im-rp'', ''ta-im'', ''ta'']]"
  by code_simp

text \<open>
  C12: Every resolution ends. However the fetches and the branches interleave, a run has fewer than six steps
  per fetch the budget allows, and as long as a call of \<open>buildChains\<close> is waiting some step is possible
  without an abort: no branch waits for a slot that is never handed over.
\<close>
theorem resolution_terminates:
  assumes "resolveTrustChains C ab = Run st0" "resolve_run C st0 es st"
  shows "length es < 6 * nat (rc_maxTotalFetches C) \<and> (finished st \<or> (\<exists>e st'. e \<noteq> Abort \<and> resolve_step C st e st'))"
proof -
  note b = begin_good [OF assms(1)] and r = run_good [OF assms(2) begin_good(1,2) [OF assms(1)]]
  have "length es + work st + 4 \<le> 6 * nat (rc_maxTotalFetches C)" using r b(7) by linarith
  then show ?thesis using progress [OF _ b(3)] r by auto
qed

theorem resolution_terminates_witness:
  "length example_schedule < 6 * nat (rc_maxTotalFetches example_net) \<and>
   (finished example_end \<or> (\<exists>e st'. e \<noteq> Abort \<and> resolve_step example_net example_end e st'))"
  by (rule resolution_terminates [OF example_begins example_runs])

lemma count_holding: "sum_list (map holding bs) = length (filter (\<lambda>b. holds (br_phase b)) bs)"
  by (induction bs) (simp_all add: holding_def)

lemma fetching_holding:
  "length (filter (\<lambda>b. \<exists>r. br_phase b = Fetching r) bs) \<le> length (filter (\<lambda>b. holds (br_phase b)) bs)"
  by (induction bs) auto

lemma count_admits: "length (filter (\<lambda>e. \<exists>i. e = Admit i) es) = sum_list (map admits es)"
proof (induction es)
  case (Cons e es)
  then show ?case by (cases e) simp_all
qed simp

text \<open>
  C13: The limits hold in every state of every run: no more than \<open>maxConcurrentFetches\<close> fetches are under way,
  no more than \<open>maxTotalFetches\<close> are ever started (the leaf's configuration is the one not counted by
  \<open>Admit\<close>), nobody waits while a slot is free, and after an abort nobody waits at all.
\<close>
theorem resolution_limits:
  assumes "resolveTrustChains C ab = Run st0" "resolve_run C st0 es st"
  shows "int (length (filter (\<lambda>b. \<exists>r. br_phase b = Fetching r) (branches st))) \<le> rc_maxConcurrent C \<and>
    int (length (filter (\<lambda>e. \<exists>i. e = Admit i) es)) + 1 \<le> rc_maxTotalFetches C \<and>
    (\<forall>i < length (branches st). \<forall>r. phase_at st i = Waiting r \<longrightarrow>
       \<not> aborted st \<and> int (length (filter (\<lambda>b. holds (br_phase b)) (branches st))) = rc_maxConcurrent C)"
proof -
  note b = begin_good [OF assms(1)] and r = run_good [OF assms(2) begin_good(1,2) [OF assms(1)]]
  have lim: "lim_inv C st" using r by (simp add: wf_state_def)
  have h: "length (filter (\<lambda>b. holds (br_phase b)) (branches st)) = active st"
    using lim by (simp add: lim_inv_def total_def count_holding)
  have "int (length (filter (\<lambda>b. \<exists>r. br_phase b = Fetching r) (branches st))) \<le> rc_maxConcurrent C"
    using fetching_holding [of "branches st"] h lim by (simp add: lim_inv_def)
  moreover have "length (filter (\<lambda>e. \<exists>i. e = Admit i) es) + 1 \<le> nat (rc_maxTotalFetches C)"
    using r b(8) unfolding count_admits by linarith
  then have "int (length (filter (\<lambda>e. \<exists>i. e = Admit i) es)) + 1 \<le> rc_maxTotalFetches C" by linarith
  moreover have "\<not> aborted st \<and> int (active st) = rc_maxConcurrent C"
    if "i < length (branches st)" "phase_at st i = Waiting q" for i q
  proof -
    have "i \<in> set (queue st)" using that lim by (simp add: lim_inv_def waiters_def)
    then show ?thesis using lim by (auto simp: lim_inv_def)
  qed
  ultimately show ?thesis unfolding h by blast
qed

theorem resolution_limits_witness:
  "int (length (filter (\<lambda>e. \<exists>i. e = Admit i) example_schedule)) + 1 \<le> rc_maxTotalFetches example_net"
  using resolution_limits [OF example_begins example_runs] by blast

lemma finished_walk:
  assumes "resolveTrustChains C ab = Run st0" "resolve_run C st0 es st" "finished st"
  shows "mset (rr_chains (result_of st)) \<subseteq># mset (whole_walk C) \<and>
    (\<not> rr_incomplete (result_of st) \<longrightarrow> mset (rr_chains (result_of st)) = mset (whole_walk C))"
proof -
  note b = begin_good [OF assms(1)] and r = run_good [OF assms(2) begin_good(1,2) [OF assms(1)]]
  have c: "mset (chains_found st) = chains_ahead C st" using finished_chains r assms(3) by force
  have adv: "advances C {#} st0 st" using r by blast
  then have "chains_ahead C st \<subseteq># mset (whole_walk C)"
    using b(5) unfolding advances_def by (auto intro: subset_mset.order_trans)
  moreover have "chains_ahead C st = mset (whole_walk C)" if "\<not> incomplete st" "\<not> aborted st"
    using that adv b(6) unfolding advances_def by auto
  ultimately show ?thesis by (simp add: result_of_def c)
qed

text \<open>
  C4: Concurrency does not change what is found. A finished resolution has found chains of the sequential
  walk only, and when its result is not marked incomplete exactly those of the walk, each as often, whatever
  the interleaving was.
\<close>
theorem resolution_is_sequential_walk:
  assumes "resolveTrustChains C ab = Run st0" "resolve_run C st0 es st" "finished st"
  shows "mset (rr_chains (result_of st)) \<subseteq># mset (whole_walk C) \<and>
    (\<not> rr_incomplete (result_of st) \<longrightarrow> mset (rr_chains (result_of st)) = mset (whole_walk C))"
  by (rule finished_walk [OF assms])

theorem resolution_is_sequential_walk_witness:
  "mset (rr_chains (result_of example_end)) = mset (whole_walk example_net)"
  using resolution_is_sequential_walk [OF example_begins example_runs] example_ends by blast

lemma whole_walk_paths:
  "set (whole_walk C) =
     {tc. \<exists>leaf ups ta. rc_ec C (JStr (rc_entityId C)) = Replied leaf \<and>
        superior_path C (nat (rc_maxDepth C)) (JStr (rc_entityId C)) (hints_of C leaf) [JStr (rc_entityId C)] ups ta \<and>
        tc \<in> set (finished_chain C ta (leaf # ups))}"
  by (cases "rc_ec C (JStr (rc_entityId C))") (simp_all add: whole_walk_def walk_paths set_eq_iff)

text \<open>
  C11: Resolution is sound and complete. Every chain a finished resolution reports is a path of superiors
  without repetition, no longer than the depth limit, from the entity to a configured trust anchor, made of
  the leaf's configuration, the superiors' statements about their subordinates and the anchor's configuration;
  and when the result is not marked incomplete, every such path that decodes is reported.
\<close>
theorem resolution_finds_paths:
  assumes "resolveTrustChains C ab = Run st0" "resolve_run C st0 es st" "finished st"
  defines "paths \<equiv> {tc. \<exists>leaf ups ta. rc_ec C (JStr (rc_entityId C)) = Replied leaf \<and>
        superior_path C (nat (rc_maxDepth C)) (JStr (rc_entityId C)) (hints_of C leaf) [JStr (rc_entityId C)] ups ta \<and>
        tc \<in> set (finished_chain C ta (leaf # ups))}"
  shows "set (rr_chains (result_of st)) \<subseteq> paths \<and>
    (\<not> rr_incomplete (result_of st) \<longrightarrow> set (rr_chains (result_of st)) = paths)"
  using finished_walk [OF assms(1-3)] unfolding paths_def whole_walk_paths [symmetric]
  by (metis mset_eq_setD set_mset_mono set_mset_mset)

theorem resolution_finds_paths_witness:
  "set (rr_chains (result_of example_end)) = {tc. \<exists>leaf ups ta. rc_ec example_net (JStr ''rp'') = Replied leaf \<and>
     superior_path example_net 8 (JStr ''rp'') (hints_of example_net leaf) [JStr ''rp''] ups ta \<and>
     tc \<in> set (finished_chain example_net ta (leaf # ups))}"
proof -
  have "rc_entityId example_net = ''rp''" "nat (rc_maxDepth example_net) = 8" by (simp_all add: example_net_def)
  then show ?thesis using resolution_finds_paths [OF example_begins example_runs] example_ends by simp
qed

end
