(* ===== verification/Chain_Discovery.thy ===== *)
theory Chain_Discovery
  imports Resolve_Runs
begin

text \<open>
  packages/core/src/trust-chain/discovery.ts, peer.ts, refresh.ts and anchor-keys.ts: what the library offers on
  top of resolution and validation. \<open>resolves C R\<close> holds when a call of \<open>resolveTrustChains\<close> can return \<open>R\<close>, at
  once or after any interleaving of its branches; the functions take such a result. Time passes between the
  validations of a loop, so the \<open>i\<close>-th one runs in its own environment \<open>E i\<close>. The text of a validation
  error is a parameter (\<open>message\<close>), as validation errors are modelled without it.
\<close>

section \<open>Results of a resolution\<close>

inductive resolves :: "resolve_config \<Rightarrow> resolve_result \<Rightarrow> bool" for C where
  at_once: "resolveTrustChains C ab = Return R \<Longrightarrow> resolves C R"
| after_run: "resolveTrustChains C ab = Run st0 \<Longrightarrow> resolve_run C st0 es st \<Longrightarrow> finished st \<Longrightarrow>
    resolves C (result_of st)"

section \<open>Discovery\<close>

record discovery_result =
  dr_entityId :: string
  dr_resolvedMetadata :: metadata
  dr_trustChain :: validated_chain
  dr_trustMarks :: "validated_trust_mark list"

text \<open>The loop over the chains: the validated ones, and the texts of the failures.\<close>

fun validate_chains ::
  "(validation_error \<Rightarrow> string) \<Rightarrow> (nat \<Rightarrow> chain_env) \<Rightarrow> jsval dict \<Rightarrow> chain_options \<Rightarrow> nat \<Rightarrow> trust_chain list \<Rightarrow>
   validated_chain list \<Rightarrow> string list \<Rightarrow> validated_chain list \<times> string list" where
  "validate_chains message E anchors options i [] validChains errs = (validChains, errs)"
| "validate_chains message E anchors options i (chain # tcs) validChains errs =
     (case validateTrustChain (E i) (tc_statements chain) anchors options of
        Valid vc \<Rightarrow> validate_chains message E anchors options (Suc i) tcs (validChains @ [vc]) errs
      | Invalid es \<Rightarrow> validate_chains message E anchors options (Suc i) tcs validChains
          (errs @ [join_with ''; '' (map message es)]))"

text \<open>\<open>shortestChain\<close> is undefined exactly for no chain at all, which is the case \<open>validChains.length === 0\<close>.\<close>

definition discoverEntity ::
  "(validation_error \<Rightarrow> string) \<Rightarrow> (nat \<Rightarrow> chain_env) \<Rightarrow> string \<Rightarrow> jsval dict \<Rightarrow> chain_options \<Rightarrow> resolve_result \<Rightarrow>
   (fed_error, discovery_result) result" where
  "discoverEntity message E eid anchors options chainResult =
     (if length (rr_chains chainResult) = 0 then
        Inl (chainInvalid (''No trust chains resolved for entity'' @
          (if rr_errors chainResult \<noteq> [] then '': '' @ join_with ''; '' (map description (rr_errors chainResult)) else [])))
      else
        (case validate_chains message E anchors options 0 (rr_chains chainResult) [] [] of
           (validChains, validationErrors) \<Rightarrow>
             (case shortestChain validChains of
                None \<Rightarrow> Inl (chainInvalid (''No valid trust chains for entity'' @
                  (if validationErrors \<noteq> [] then '': '' @ join_with '' | '' validationErrors else [])))
              | Some bestChain \<Rightarrow>
                  Inr \<lparr>dr_entityId = eid, dr_resolvedMetadata = vc_resolvedMetadata bestChain,
                       dr_trustChain = bestChain, dr_trustMarks = vc_trustMarks bestChain\<rparr>)))"

section \<open>A chain to a given anchor\<close>

text \<open>The first candidate that validates; \<open>i\<close> counts the validations.\<close>

fun first_valid ::
  "(nat \<Rightarrow> chain_env) \<Rightarrow> jsval dict \<Rightarrow> chain_options \<Rightarrow> nat \<Rightarrow> trust_chain list \<Rightarrow> (trust_chain \<times> validated_chain) option" where
  "first_valid E anchors options i [] = None"
| "first_valid E anchors options i (candidate # candidates) =
     (case validateTrustChain (E i) (tc_statements candidate) anchors options of
        Valid vc \<Rightarrow> Some (candidate, vc)
      | Invalid _ \<Rightarrow> first_valid E anchors options (Suc i) candidates)"

definition unknown_anchor :: "string \<Rightarrow> fed_error" where
  "unknown_anchor ta = mk_err ''ERR_TRUST_ANCHOR_UNKNOWN'' (''Requested Trust Anchor '' @ quoted ta @ '' is not in the pre-trusted set'')"

definition resolveTrustChainForAnchor ::
  "(nat \<Rightarrow> chain_env) \<Rightarrow> string \<Rightarrow> string \<Rightarrow> jsval dict \<Rightarrow> chain_options \<Rightarrow> resolve_result \<Rightarrow> (fed_error, string list) result" where
  "resolveTrustChainForAnchor E subject ta anchors options chainResult =
     (if ta \<notin> fst ` set anchors then Inl (unknown_anchor ta)
      else if length (rr_chains chainResult) = 0 then
        (case rr_errors chainResult of
           firstError # _ \<Rightarrow> Inl firstError
         | [] \<Rightarrow> Inl (chainInvalid (''No Trust Chain could be built for '' @ subject)))
      else
        (let candidates = filter (\<lambda>c. strict_eq (tc_trustAnchorId c) (JStr ta)) (rr_chains chainResult) in
         if length candidates = 0 then
           Inl (chainInvalid (''No Trust Chain ending at '' @ quoted ta @ '' was found for '' @ subject))
         else
           (case first_valid E anchors options 0 candidates of
              Some (candidate, _) \<Rightarrow> Inr (tc_statements candidate)
            | None \<Rightarrow> Inl (chainInvalid (''No valid Trust Chain ending at '' @ quoted ta @ '' was found for '' @ subject)))))"

section \<open>Refreshing a chain\<close>

definition refresh_failed :: "jsval \<Rightarrow> string \<Rightarrow> fed_error" where
  "refresh_failed eid why = chainInvalid (''Failed to refresh trust chain for '' @ quoted (js_string eid) @ '': '' @ why)"

definition refreshTrustChain ::
  "(nat \<Rightarrow> chain_env) \<Rightarrow> number \<Rightarrow> bool \<Rightarrow> validated_chain \<Rightarrow> jsval dict \<Rightarrow> chain_options \<Rightarrow> resolve_result \<Rightarrow>
   (fed_error, validated_chain) result" where
  "refreshTrustChain E now forceRefresh chain anchors options resolveResult =
     (if \<not> forceRefresh \<and> \<not> isChainExpired now chain then Inr chain
      else if length (rr_chains resolveResult) = 0 then
        (let errMsgs = join_with ''; '' (map description (rr_errors resolveResult)) in
         Inl (refresh_failed (vc_entityId chain) (if errMsgs \<noteq> [] then errMsgs else ''no chains resolved'')))
      else
        (case first_valid E anchors options 0 (rr_chains resolveResult) of
           Some (_, vc) \<Rightarrow> Inr vc
         | None \<Rightarrow> Inl (refresh_failed (vc_entityId chain) ''all resolved chains failed validation'')))"

section \<open>Comparing the keys of an anchor\<close>

record key_comparison =
  kc_match :: bool
  kc_entityId :: string
  missingInEntityConfiguration :: "string list"
  missingInIndependentSource :: "string list"
  mismatchedKeyMaterial :: "string list"

definition add_by_kid :: "jsval dict dict \<Rightarrow> jsval dict \<Rightarrow> jsval dict dict" where
  "add_by_kid byKid key =
     (case pget key ''kid'' of
        JStr kid \<Rightarrow> if 0 < length kid then AList.update kid key byKid else byKid
      | _ \<Rightarrow> byKid)"

definition keysByKid :: "jsval dict list \<Rightarrow> jsval dict dict" where
  "keysByKid keys = foldl add_by_kid [] keys"

text \<open>\<open>jwkThumbprint\<close> is a parameter: the SHA-256 thumbprint of the jose package. The default sort of strings is by
  code unit, which is the order of \<open>char\<close>.\<close>

definition compareTrustAnchorKeys ::
  "(jsval dict \<Rightarrow> string) \<Rightarrow> jsval dict list \<Rightarrow> jsval dict list \<Rightarrow> string \<Rightarrow> key_comparison" where
  "compareTrustAnchorKeys thumbprint ecJwks independentJwks eid =
     (let ecKeys = keysByKid ecJwks;
          independentKeys = keysByKid independentJwks;
          ecKids = sort (map fst ecKeys);
          independentKids = sort (map fst independentKeys);
          missingEc = filter (\<lambda>kid. kid \<notin> set ecKids) independentKids;
          missingInd = filter (\<lambda>kid. kid \<notin> set independentKids) ecKids;
          mismatched = filter (\<lambda>kid. case (map_of ecKeys kid, map_of independentKeys kid) of
              (Some ecKey, Some independentKey) \<Rightarrow> thumbprint ecKey \<noteq> thumbprint independentKey
            | _ \<Rightarrow> False) (filter (\<lambda>kid. kid \<in> set independentKids) ecKids)
      in \<lparr>kc_match = (missingEc = [] \<and> missingInd = [] \<and> mismatched = []), kc_entityId = eid,
          missingInEntityConfiguration = missingEc, missingInIndependentSource = missingInd,
          mismatchedKeyMaterial = mismatched\<rparr>)"

section \<open>Lemmas\<close>

text \<open>Every resolved chain starts with the configuration of the entity asked for.\<close>

definition own_configuration :: "resolve_config \<Rightarrow> string \<Rightarrow> bool" where
  "own_configuration C leaf \<longleftrightarrow>
     rc_ec C (JStr (rc_entityId C)) = Replied leaf \<and>
     (\<exists>d. decodeEntityStatement (rc_jose C) leaf = Inr d \<and> iss_of d = JStr (rc_entityId C) \<and> sub_of d = JStr (rc_entityId C))"

lemma resolveTrustChains_own:
  "resolveTrustChains C ab = Return R \<Longrightarrow> tc \<in> set (rr_chains R) \<Longrightarrow>
     \<exists>leaf. own_configuration C leaf \<and> tc_statements tc = [leaf] \<and> tc_trustAnchorId tc = JStr (rc_entityId C)"
  "resolveTrustChains C ab = Run st0 \<Longrightarrow> \<exists>leaf. own_configuration C leaf"
  by (auto simp: resolveTrustChains_def own_configuration_def strict_eq_str Let_def
      split: if_splits outcome.splits sum.splits prod.splits call_result.splits)

lemma superior_path_top:
  assumes "superior_path C n current hints visited ups ta"
  shows "\<exists>pre ecJwt. ups = pre @ [ecJwt] \<and> rc_ec C ta = Replied ecJwt \<and> lookup_anchor (rc_anchors C) ta \<noteq> None"
  using assms by (induction rule: superior_path.induct) (auto simp: superior_of_def)

lemma resolved_chain:
  assumes "resolves C R" and "tc \<in> set (rr_chains R)"
  obtains leaf ups where "own_configuration C leaf" "tc_statements tc = leaf # ups"
    "ups = [] \<and> tc_trustAnchorId tc = JStr (rc_entityId C) \<or>
     (\<exists>pre ecJwt. ups = pre @ [ecJwt] \<and> rc_ec C (tc_trustAnchorId tc) = Replied ecJwt)"
  using assms(1)
proof cases
  case (at_once ab)
  with resolveTrustChains_own(1) [OF _ assms(2)] that show thesis by blast
next
  case (after_run ab st0 es st)
  obtain leaf where own: "own_configuration C leaf" using resolveTrustChains_own(2) [OF after_run(2)] by blast
  have "tc \<in> set (whole_walk C)"
    using finished_walk [OF after_run(2,3,4)] assms(2) after_run(1) by (metis mset_subset_eqD set_mset_mset)
  then obtain ups ta where "superior_path C (nat (rc_maxDepth C)) (JStr (rc_entityId C)) (hints_of C leaf) [JStr (rc_entityId C)] ups ta"
      and tc: "tc \<in> set (finished_chain C ta (leaf # ups))"
    using own unfolding whole_walk_paths own_configuration_def by auto
  from superior_path_top [OF this(1)] tc own that show thesis
    by (auto simp: finished_chain_def split: option.splits)
qed

text \<open>A validated chain is about its first statement and ends at the issuer of its last one.\<close>

lemma validated_ends:
  assumes "validateTrustChain E stmts anchors options = Valid vc"
  shows "stmts \<noteq> []" and "length (vc_statements vc) = length stmts"
    and "decodeEntityStatement (env_jose E) (hd stmts) = Inr d \<Longrightarrow> vc_entityId vc = iss_of d"
    and "decodeEntityStatement (env_jose E) (last stmts) = Inr d \<Longrightarrow> vc_trustAnchorId vc = iss_of d"
    and "\<exists>ta jwks. vc_trustAnchorId vc = JStr ta \<and> map_of anchors ta = Some jwks"
proof -
  obtain pending where run: "validateTrustChainImpl E options stmts anchors True no_stage = (Valid vc, pending)"
    using validateTrustChain_Impl [OF assms] by blast
  note v = valid_chain_links [OF run]
  show "stmts \<noteq> []" "length (vc_statements vc) = length stmts" by fact+
  show "vc_entityId vc = iss_of d" if "decodeEntityStatement (env_jose E) (hd stmts) = Inr d"
    using v(1,3,5) that by (metis Inr_inject hd_conv_nth length_greater_0_conv)
  show "vc_trustAnchorId vc = iss_of d" if "decodeEntityStatement (env_jose E) (last stmts) = Inr d"
    using v(1,3,8) that by (metis Inr_inject diff_less last_conv_nth length_greater_0_conv zero_less_one)
  show "\<exists>ta jwks. vc_trustAnchorId vc = JStr ta \<and> map_of anchors ta = Some jwks"
    using anchor_errors_Nil [OF v(9), unfolded v(2)] v(8) by auto
qed

text \<open>A resolved chain that validates is about the entity asked for, and ends at the anchor it was found under when that
  anchor's configuration is its own.\<close>

lemma resolved_and_valid:
  assumes "resolves C R" and "tc \<in> set (rr_chains R)" and J: "env_jose E = rc_jose C"
    and v: "validateTrustChain E (tc_statements tc) (rc_anchors C) options = Valid vc"
  shows "vc_entityId vc = JStr (rc_entityId C)"
    and "tc_trustAnchorId tc = JStr ta \<Longrightarrow>
      (\<And>jwt d. rc_ec C (JStr ta) = Replied jwt \<Longrightarrow> decodeEntityStatement (rc_jose C) jwt = Inr d \<Longrightarrow> iss_of d = JStr ta) \<Longrightarrow>
      vc_trustAnchorId vc = JStr ta"
proof -
  obtain leaf ups where own: "own_configuration C leaf" and tc: "tc_statements tc = leaf # ups"
    and top: "ups = [] \<and> tc_trustAnchorId tc = JStr (rc_entityId C) \<or>
     (\<exists>pre ecJwt. ups = pre @ [ecJwt] \<and> rc_ec C (tc_trustAnchorId tc) = Replied ecJwt)"
    using resolved_chain [OF assms(1,2)] .
  obtain d where d: "decodeEntityStatement (rc_jose C) leaf = Inr d" "iss_of d = JStr (rc_entityId C)"
    using own by (auto simp: own_configuration_def)
  show "vc_entityId vc = JStr (rc_entityId C)" using validated_ends(3) [OF v] d tc J by simp
  assume ta: "tc_trustAnchorId tc = JStr ta"
    and self: "\<And>jwt d. rc_ec C (JStr ta) = Replied jwt \<Longrightarrow> decodeEntityStatement (rc_jose C) jwt = Inr d \<Longrightarrow> iss_of d = JStr ta"
  from top show "vc_trustAnchorId vc = JStr ta"
  proof
    assume "ups = [] \<and> tc_trustAnchorId tc = JStr (rc_entityId C)"
    then show ?thesis using validated_ends(4) [OF v] d tc J ta by simp
  next
    assume "\<exists>pre ecJwt. ups = pre @ [ecJwt] \<and> rc_ec C (tc_trustAnchorId tc) = Replied ecJwt"
    then obtain pre ecJwt where e: "ups = pre @ [ecJwt]" "rc_ec C (JStr ta) = Replied ecJwt" using ta by auto
    obtain pending where run: "validateTrustChainImpl E options (tc_statements tc) (rc_anchors C) True no_stage = (Valid vc, pending)"
      using validateTrustChain_Impl [OF v] by blast
    obtain d' where d': "decodeEntityStatement (env_jose E) (last (tc_statements tc)) = Inr d'"
      using valid_chain_links(1,3) [OF run] by (metis diff_less last_conv_nth length_greater_0_conv zero_less_one)
    then have "decodeEntityStatement (rc_jose C) ecJwt = Inr d'" using tc e J by simp
    with self [OF e(2)] validated_ends(4) [OF v d'] show ?thesis by simp
  qed
qed

lemma validate_chains_valid:
  "\<exists>new. fst (validate_chains message E anchors options i tcs validChains errs) = validChains @ new \<and>
     (\<forall>vc. vc \<in> set new \<longleftrightarrow>
        (\<exists>j < length tcs. validateTrustChain (E (i + j)) (tc_statements (tcs ! j)) anchors options = Valid vc))"
proof (induction tcs arbitrary: i validChains errs)
  case (Cons tc tcs)
  have ex: "(\<exists>j < length (tc # tcs). P (i + j) ((tc # tcs) ! j)) \<longleftrightarrow> P i tc \<or> (\<exists>j < length tcs. P (Suc i + j) (tcs ! j))" for P
    by (auto simp: less_Suc_eq_0_disj)
  show ?case
  proof (cases "validateTrustChain (E i) (tc_statements tc) anchors options")
    case (Valid vc)
    obtain new where "fst (validate_chains message E anchors options (Suc i) tcs (validChains @ [vc]) errs) = (validChains @ [vc]) @ new"
      "\<forall>vc. vc \<in> set new \<longleftrightarrow> (\<exists>j < length tcs. validateTrustChain (E (Suc i + j)) (tc_statements (tcs ! j)) anchors options = Valid vc)"
      using Cons.IH by blast
    then show ?thesis using Valid
      unfolding ex [where P = "\<lambda>k t. validateTrustChain (E k) (tc_statements t) anchors options = Valid _"]
      by (intro exI [of _ "vc # new"]) auto
  next
    case (Invalid es)
    then show ?thesis using Cons.IH [of "Suc i" validChains "errs @ [join_with ''; '' (map message es)]"]
      unfolding ex [where P = "\<lambda>k t. validateTrustChain (E k) (tc_statements t) anchors options = Valid _"]
      by simp
  qed
qed simp

lemma discovery_cases:
  "discoverEntity message E eid anchors options R = Inr d \<longleftrightarrow>
     (\<exists>vc. shortestChain (fst (validate_chains message E anchors options 0 (rr_chains R) [] [])) = Some vc \<and>
       d = \<lparr>dr_entityId = eid, dr_resolvedMetadata = vc_resolvedMetadata vc, dr_trustChain = vc, dr_trustMarks = vc_trustMarks vc\<rparr>)"
proof (cases "rr_chains R")
  case Nil
  then show ?thesis by (simp add: discoverEntity_def shortestChain_def first_sorted_def)
next
  case (Cons tc tcs)
  then show ?thesis
    by (auto simp: discoverEntity_def simp del: validate_chains.simps split: prod.splits option.splits)
qed

text \<open>One of the chains validates, in the environment of its turn.\<close>

definition some_valid ::
  "(nat \<Rightarrow> chain_env) \<Rightarrow> jsval dict \<Rightarrow> chain_options \<Rightarrow> trust_chain list \<Rightarrow> validated_chain \<Rightarrow> bool" where
  "some_valid E anchors options tcs vc \<longleftrightarrow>
     (\<exists>j < length tcs. validateTrustChain (E j) (tc_statements (tcs ! j)) anchors options = Valid vc)"

lemma discovery_sound_and_complete_parts:
  assumes "resolves C R" and "\<And>i. env_jose (E i) = rc_jose C"
  shows "(\<exists>d. discoverEntity message E (rc_entityId C) (rc_anchors C) options R = Inr d) \<longleftrightarrow> (\<exists>vc. some_valid E (rc_anchors C) options (rr_chains R) vc)"
    and "discoverEntity message E (rc_entityId C) (rc_anchors C) options R = Inr d \<Longrightarrow>
      (let vc = dr_trustChain d in
       some_valid E (rc_anchors C) options (rr_chains R) vc \<and> (\<forall>vc'. some_valid E (rc_anchors C) options (rr_chains R) vc' \<longrightarrow> length (vc_statements vc) \<le> length (vc_statements vc')) \<and>
       vc_entityId vc = JStr (rc_entityId C) \<and> dr_entityId d = rc_entityId C \<and>
       (\<exists>ta jwks. vc_trustAnchorId vc = JStr ta \<and> map_of (rc_anchors C) ta = Some jwks) \<and>
       dr_resolvedMetadata d = vc_resolvedMetadata vc \<and> dr_trustMarks d = vc_trustMarks vc)"
proof -
  obtain new where new: "fst (validate_chains message E (rc_anchors C) options 0 (rr_chains R) [] []) = new"
    "\<And>vc. vc \<in> set new \<longleftrightarrow> some_valid E (rc_anchors C) options (rr_chains R) vc"
    using validate_chains_valid [of message E "rc_anchors C" options 0 "rr_chains R" "[]" "[]"] by (auto simp: some_valid_def)
  have "shortestChain new = None \<longleftrightarrow> new = []" by (simp add: shortestChain_def first_sorted_None)
  then show "(\<exists>d. discoverEntity message E (rc_entityId C) (rc_anchors C) options R = Inr d) \<longleftrightarrow> (\<exists>vc. some_valid E (rc_anchors C) options (rr_chains R) vc)"
    unfolding discovery_cases new(1) using new(2) by (metis list.set_intros(1) neq_Nil_conv not_None_eq list.set(1) empty_iff)
  assume "discoverEntity message E (rc_entityId C) (rc_anchors C) options R = Inr d"
  then obtain vc where sc: "shortestChain new = Some vc" and d: "d = \<lparr>dr_entityId = rc_entityId C,
      dr_resolvedMetadata = vc_resolvedMetadata vc, dr_trustChain = vc, dr_trustMarks = vc_trustMarks vc\<rparr>"
    unfolding discovery_cases new(1) by blast
  have vc: "some_valid E (rc_anchors C) options (rr_chains R) vc" using shortest_min(1) [OF sc] new(2) by blast
  then obtain j where j: "j < length (rr_chains R)"
    "validateTrustChain (E j) (tc_statements (rr_chains R ! j)) (rc_anchors C) options = Valid vc" by (auto simp: some_valid_def)
  have "vc_entityId vc = JStr (rc_entityId C)"
    using resolved_and_valid(1) [OF assms(1) _ assms(2) j(2)] j(1) by simp
  then show "let vc = dr_trustChain d in
       some_valid E (rc_anchors C) options (rr_chains R) vc \<and> (\<forall>vc'. some_valid E (rc_anchors C) options (rr_chains R) vc' \<longrightarrow> length (vc_statements vc) \<le> length (vc_statements vc')) \<and>
       vc_entityId vc = JStr (rc_entityId C) \<and> dr_entityId d = rc_entityId C \<and>
       (\<exists>ta jwks. vc_trustAnchorId vc = JStr ta \<and> map_of (rc_anchors C) ta = Some jwks) \<and>
       dr_resolvedMetadata d = vc_resolvedMetadata vc \<and> dr_trustMarks d = vc_trustMarks vc"
    using vc shortest_min(2) [OF sc] new(2) validated_ends(5) [OF j(2)] d by simp
qed

text \<open>
  C5: Discovery is sound and complete over resolution and validation. Whatever interleaving the resolution of an
  entity took: \<open>discoverEntity\<close> succeeds if and only if one of the resolved chains validates; the chain it returns
  is one of them, about the entity asked for, ends at a configured trust anchor, and is a shortest of
  all that validate; and the metadata and trust marks it returns are those of that chain.
\<close>

theorem discovery_sound_and_complete:
  assumes "resolves C R" and "\<And>i. env_jose (E i) = rc_jose C"
  shows "((\<exists>d. discoverEntity message E (rc_entityId C) (rc_anchors C) options R = Inr d) \<longleftrightarrow>
      (\<exists>vc. some_valid E (rc_anchors C) options (rr_chains R) vc)) \<and>
    (\<forall>d. discoverEntity message E (rc_entityId C) (rc_anchors C) options R = Inr d \<longrightarrow>
      (let vc = dr_trustChain d in
       some_valid E (rc_anchors C) options (rr_chains R) vc \<and>
       (\<forall>vc'. some_valid E (rc_anchors C) options (rr_chains R) vc' \<longrightarrow> length (vc_statements vc) \<le> length (vc_statements vc')) \<and>
       vc_entityId vc = JStr (rc_entityId C) \<and> dr_entityId d = rc_entityId C \<and>
       (\<exists>ta jwks. vc_trustAnchorId vc = JStr ta \<and> map_of (rc_anchors C) ta = Some jwks) \<and>
       dr_resolvedMetadata d = vc_resolvedMetadata vc \<and> dr_trustMarks d = vc_trustMarks vc))"
  using discovery_sound_and_complete_parts [where E = E, OF assms] by blast

section \<open>An example federation\<close>

text \<open>A relying party under two anchors; the host of the first anchor serves the second one's configuration.\<close>

definition two_anchor_payload :: "string \<Rightarrow> jsval dict" where
  "two_anchor_payload t =
     (if t = ''rp'' then
        [(''iss'', JStr ''https://rp''), (''sub'', JStr ''https://rp''), (''iat'', JNum 10), (''exp'', JNum 1000), (''jwks'', example_jwks),
         (''authority_hints'', JArr [JStr ''https://a'', JStr ''https://b'']),
         (''metadata'', JObj [(''rp'', JObj [(''grants'', JArr [JStr ''x''])])])]
      else if t = ''b'' then
        [(''iss'', JStr ''https://b''), (''sub'', JStr ''https://b''), (''iat'', JNum 10), (''exp'', JNum 900), (''jwks'', example_jwks),
         (''metadata'', JObj [(''federation_entity'', JObj [(''federation_fetch_endpoint'', JStr ''https://b/fetch'')])])]
      else
        [(''iss'', JStr ''https://b''), (''sub'', JStr ''https://rp''), (''iat'', JNum 10), (''exp'', JNum 500), (''jwks'', example_jwks)])"

definition two_anchor_jose :: jose where
  "two_anchor_jose = \<lparr>jose_header = (\<lambda>t. Inr example_header), jose_payload = (\<lambda>t. Inr (two_anchor_payload t)),
     jose_verify = (\<lambda>t k a s c. Inr (two_anchor_payload t))\<rparr>"

definition two_anchor_env :: chain_env where
  "two_anchor_env = example_env\<lparr>env_jose := two_anchor_jose\<rparr>"

definition two_anchors :: "jsval dict" where
  "two_anchors = [(''https://a'', example_jwks), (''https://b'', example_jwks)]"

definition two_anchor_net :: resolve_config where
  "two_anchor_net =
     \<lparr>rc_jose = two_anchor_jose, rc_entityId = ''https://rp'', rc_anchors = two_anchors, rc_maxDepth = 8, rc_maxHints = 10,
      rc_maxConcurrent = 10, rc_maxTotalFetches = 50, rc_hintFilter = None,
      rc_ec = (\<lambda>h. Replied (if h = JStr ''https://rp'' then ''rp'' else ''b'')),
      rc_ss = (\<lambda>e s i. Replied ''b-rp'')\<rparr>"

definition two_anchor_schedule :: "event list" where
  "two_anchor_schedule =
     [Admit 0, Admit 1, Settle 0 (Replied ''b''), Resume 0, Settle 1 (Replied ''b''), Resume 1, Admit 0, Admit 1,
      Settle 1 (Replied ''b-rp''), Settle 0 (Replied ''b-rp''), Resume 0, Resume 1, Join 0]"

definition two_anchor_begin :: rstate where
  "two_anchor_begin = (case resolveTrustChains two_anchor_net False of Run st \<Rightarrow> st | _ \<Rightarrow> initial_state two_anchor_net False)"

definition two_anchor_end :: rstate where
  "two_anchor_end = (case exec_all two_anchor_net two_anchor_schedule two_anchor_begin of Some st \<Rightarrow> st | None \<Rightarrow> two_anchor_begin)"

definition two_anchor_result :: resolve_result where
  "two_anchor_result =
     \<lparr>rr_chains = [\<lparr>tc_statements = [''rp'', ''b-rp'', ''b''], tc_entityId = ''https://rp'', tc_trustAnchorId = JStr ''https://a'', tc_expiresAt = Some 500\<rparr>,
        \<lparr>tc_statements = [''rp'', ''b-rp'', ''b''], tc_entityId = ''https://rp'', tc_trustAnchorId = JStr ''https://b'', tc_expiresAt = Some 500\<rparr>],
      rr_errors = [], rr_incomplete = False\<rparr>"

definition two_anchor_chain :: validated_chain where
  "two_anchor_chain =
     \<lparr>vc_statements = map (\<lambda>t. \<lparr>header = example_header, payload = two_anchor_payload t\<rparr>) [''rp'', ''b-rp'', ''b''],
      vc_entityId = JStr ''https://rp'', vc_trustAnchorId = JStr ''https://b'', vc_expiresAt = 500,
      vc_resolvedMetadata = [(''rp'', [(''grants'', JArr [JStr ''x''])])], vc_trustMarks = []\<rparr>"

lemma two_anchor_begins: "resolveTrustChains two_anchor_net False = Run two_anchor_begin"
  by code_simp

lemma two_anchor_runs: "resolve_run two_anchor_net two_anchor_begin two_anchor_schedule two_anchor_end"
proof (rule exec_runs)
  have "exec_all two_anchor_net two_anchor_schedule two_anchor_begin \<noteq> None" by code_simp
  then show "exec_all two_anchor_net two_anchor_schedule two_anchor_begin = Some two_anchor_end"
    by (auto simp: two_anchor_end_def)
qed

lemma two_anchor_ends: "finished two_anchor_end"
  by code_simp

lemma two_anchor_outcome: "result_of two_anchor_end = two_anchor_result"
  by code_simp

lemma two_anchor_resolves: "resolves two_anchor_net two_anchor_result"
  using resolves.after_run [OF two_anchor_begins two_anchor_runs two_anchor_ends] unfolding two_anchor_outcome .

lemma two_anchor_valid:
  "validateTrustChain two_anchor_env [''rp'', ''b-rp'', ''b''] two_anchors example_options = Valid two_anchor_chain"
  by code_simp

lemma two_anchor_facts:
  "env_jose two_anchor_env = rc_jose two_anchor_net" "rc_entityId two_anchor_net = ''https://rp''"
  "rc_anchors two_anchor_net = two_anchors"
  by (simp_all add: two_anchor_env_def two_anchor_net_def)

theorem discovery_sound_and_complete_witness:
  "\<exists>d. discoverEntity (\<lambda>_. []) (\<lambda>_. two_anchor_env) ''https://rp'' two_anchors example_options two_anchor_result = Inr d \<and>
     vc_entityId (dr_trustChain d) = JStr ''https://rp''"
proof -
  have "some_valid (\<lambda>_. two_anchor_env) two_anchors example_options (rr_chains two_anchor_result) two_anchor_chain"
    unfolding some_valid_def by (rule exI [of _ 0]) (simp add: two_anchor_result_def two_anchor_valid)
  then show ?thesis
    using discovery_sound_and_complete [OF two_anchor_resolves, of "\<lambda>_. two_anchor_env" "\<lambda>_. []" example_options]
    unfolding two_anchor_facts Let_def by blast
qed

section \<open>Chains to an anchor, and refreshing\<close>

lemma first_valid_Some:
  assumes "first_valid E anchors options i tcs = Some (tc, vc)"
  shows "\<exists>us vs. tcs = us @ tc # vs \<and> validateTrustChain (E (i + length us)) (tc_statements tc) anchors options = Valid vc \<and>
    (\<forall>k < length us. \<exists>es. validateTrustChain (E (i + k)) (tc_statements (us ! k)) anchors options = Invalid es)"
  using assms
proof (induction tcs arbitrary: i)
  case (Cons c tcs)
  show ?case
  proof (cases "validateTrustChain (E i) (tc_statements c) anchors options")
    case (Valid v)
    with Cons.prems show ?thesis by (intro exI [of _ "[]"] exI [of _ tcs]) auto
  next
    case (Invalid es)
    with Cons.prems have "first_valid E anchors options (Suc i) tcs = Some (tc, vc)" by simp
    from Cons.IH [OF this] obtain us vs where u: "tcs = us @ tc # vs"
      "validateTrustChain (E (Suc i + length us)) (tc_statements tc) anchors options = Valid vc"
      "\<forall>k < length us. \<exists>es. validateTrustChain (E (Suc i + k)) (tc_statements (us ! k)) anchors options = Invalid es" by blast
    have "\<exists>es. validateTrustChain (E (i + k)) (tc_statements ((c # us) ! k)) anchors options = Invalid es"
      if "k < length (c # us)" for k
      using that u(3) Invalid by (cases k) auto
    with u show ?thesis by (intro exI [of _ "c # us"] exI [of _ vs]) auto
  qed
qed simp

lemma first_valid_None:
  "first_valid E anchors options i tcs = None \<longleftrightarrow>
     (\<forall>k < length tcs. \<exists>es. validateTrustChain (E (i + k)) (tc_statements (tcs ! k)) anchors options = Invalid es)"
  by (induction tcs arbitrary: i) (auto simp: less_Suc_eq_0_disj all_conj_distrib split: validation_result.splits)

lemma anchor_chain_parts:
  assumes "resolves C R" and "\<And>i. env_jose (E i) = rc_jose C"
    and "resolveTrustChainForAnchor E (rc_entityId C) ta (rc_anchors C) options R = Inr stmts"
  shows "\<exists>tc \<in> set (rr_chains R). tc_statements tc = stmts \<and> tc_trustAnchorId tc = JStr ta \<and>
      (\<exists>i vc. validateTrustChain (E i) stmts (rc_anchors C) options = Valid vc \<and> vc_entityId vc = JStr (rc_entityId C) \<and>
        (\<exists>ta' jwks. vc_trustAnchorId vc = JStr ta' \<and> map_of (rc_anchors C) ta' = Some jwks) \<and>
        ((\<forall>jwt d. rc_ec C (JStr ta) = Replied jwt \<longrightarrow> decodeEntityStatement (rc_jose C) jwt = Inr d \<longrightarrow> iss_of d = JStr ta) \<longrightarrow>
          vc_trustAnchorId vc = JStr ta))"
    and "resolveTrustChainForAnchor (\<lambda>_. two_anchor_env) ''https://rp'' ''https://a'' two_anchors example_options two_anchor_result
        = Inr [''rp'', ''b-rp'', ''b''] \<and>
      (\<exists>vc. validateTrustChain two_anchor_env [''rp'', ''b-rp'', ''b''] two_anchors example_options = Valid vc \<and>
        vc_trustAnchorId vc = JStr ''https://b'')"
proof -
  let ?cs = "filter (\<lambda>c. strict_eq (tc_trustAnchorId c) (JStr ta)) (rr_chains R)"
  obtain tc vc where f: "first_valid E (rc_anchors C) options 0 ?cs = Some (tc, vc)" and s: "tc_statements tc = stmts"
    using assms(3) by (auto simp: resolveTrustChainForAnchor_def Let_def split: if_splits option.splits list.splits)
  obtain us vs where u: "?cs = us @ tc # vs"
    and v: "validateTrustChain (E (length us)) (tc_statements tc) (rc_anchors C) options = Valid vc"
    using first_valid_Some [OF f] by auto
  have "tc \<in> set ?cs" unfolding u by simp
  then have tc: "tc \<in> set (rr_chains R)" "tc_trustAnchorId tc = JStr ta" by (simp_all add: strict_eq_str)
  note r = resolved_and_valid [OF assms(1) tc(1) assms(2) v]
  show "\<exists>tc \<in> set (rr_chains R). tc_statements tc = stmts \<and> tc_trustAnchorId tc = JStr ta \<and>
      (\<exists>i vc. validateTrustChain (E i) stmts (rc_anchors C) options = Valid vc \<and> vc_entityId vc = JStr (rc_entityId C) \<and>
        (\<exists>ta' jwks. vc_trustAnchorId vc = JStr ta' \<and> map_of (rc_anchors C) ta' = Some jwks) \<and>
        ((\<forall>jwt d. rc_ec C (JStr ta) = Replied jwt \<longrightarrow> decodeEntityStatement (rc_jose C) jwt = Inr d \<longrightarrow> iss_of d = JStr ta) \<longrightarrow>
          vc_trustAnchorId vc = JStr ta))"
    using tc s v r(1) r(2) [OF tc(2)] validated_ends(5) [OF v] by metis
  show "resolveTrustChainForAnchor (\<lambda>_. two_anchor_env) ''https://rp'' ''https://a'' two_anchors example_options two_anchor_result
        = Inr [''rp'', ''b-rp'', ''b''] \<and>
      (\<exists>vc. validateTrustChain two_anchor_env [''rp'', ''b-rp'', ''b''] two_anchors example_options = Valid vc \<and>
        vc_trustAnchorId vc = JStr ''https://b'')"
    by (simp add: resolveTrustChainForAnchor_def two_anchors_def [symmetric] two_anchor_result_def two_anchor_valid two_anchor_chain_def)
      (simp add: two_anchors_def)
qed

text \<open>
  A chain requested for an anchor. What \<open>resolveTrustChainForAnchor\<close> returns was resolved under that anchor,
  validates, is about the subject and ends at a configured anchor. It ends at the anchor asked for when that
  anchor's well-known location serves a configuration the anchor issued; without that it need not, because the
  anchor of the validated chain is not compared with the one asked for: the example federation, whose first anchor
  serves the second one's configuration, answers a request for the first with a chain that ends at the second.
\<close>

lemma anchor_chain:
  assumes "resolves C R" and "\<And>i. env_jose (E i) = rc_jose C"
    and "resolveTrustChainForAnchor E (rc_entityId C) ta (rc_anchors C) options R = Inr stmts"
  shows "(\<exists>tc \<in> set (rr_chains R). tc_statements tc = stmts \<and> tc_trustAnchorId tc = JStr ta \<and>
      (\<exists>i vc. validateTrustChain (E i) stmts (rc_anchors C) options = Valid vc \<and> vc_entityId vc = JStr (rc_entityId C) \<and>
        (\<exists>ta' jwks. vc_trustAnchorId vc = JStr ta' \<and> map_of (rc_anchors C) ta' = Some jwks) \<and>
        ((\<forall>jwt d. rc_ec C (JStr ta) = Replied jwt \<longrightarrow> decodeEntityStatement (rc_jose C) jwt = Inr d \<longrightarrow> iss_of d = JStr ta) \<longrightarrow>
          vc_trustAnchorId vc = JStr ta))) \<and>
      resolveTrustChainForAnchor (\<lambda>_. two_anchor_env) ''https://rp'' ''https://a'' two_anchors example_options two_anchor_result
        = Inr [''rp'', ''b-rp'', ''b''] \<and>
      (\<exists>vc. validateTrustChain two_anchor_env [''rp'', ''b-rp'', ''b''] two_anchors example_options = Valid vc \<and>
        vc_trustAnchorId vc = JStr ''https://b'')"
  using anchor_chain_parts [where E = E, OF assms] by blast

lemma anchor_chain_witness:
  "\<exists>tc \<in> set (rr_chains two_anchor_result). tc_statements tc = [''rp'', ''b-rp'', ''b''] \<and> tc_trustAnchorId tc = JStr ''https://b''"
proof -
  have "resolveTrustChainForAnchor (\<lambda>_. two_anchor_env) (rc_entityId two_anchor_net) ''https://b'' (rc_anchors two_anchor_net)
      example_options two_anchor_result = Inr [''rp'', ''b-rp'', ''b'']"
    unfolding two_anchor_facts
    by (simp add: resolveTrustChainForAnchor_def two_anchor_result_def two_anchor_valid) (simp add: two_anchors_def)
  from anchor_chain [OF two_anchor_resolves two_anchor_facts(1) this] show ?thesis by blast
qed

lemma refreshed_chain_parts:
  assumes "resolves C R" and "\<And>i. env_jose (E i) = rc_jose C" and "vc_entityId chain = JStr (rc_entityId C)"
  shows "\<not> force \<Longrightarrow> now < vc_expiresAt chain \<Longrightarrow> refreshTrustChain E now force chain (rc_anchors C) options R = Inr chain"
    and "force \<or> vc_expiresAt chain \<le> now \<Longrightarrow>
      (\<exists>vc. refreshTrustChain E now force chain (rc_anchors C) options R = Inr vc) \<longleftrightarrow>
      (\<exists>vc. some_valid E (rc_anchors C) options (rr_chains R) vc)"
    and "force \<or> vc_expiresAt chain \<le> now \<Longrightarrow> refreshTrustChain E now force chain (rc_anchors C) options R = Inr vc \<Longrightarrow>
      vc_entityId vc = vc_entityId chain \<and>
      (\<exists>j < length (rr_chains R). validateTrustChain (E j) (tc_statements (rr_chains R ! j)) (rc_anchors C) options = Valid vc \<and>
         (\<forall>k < j. \<exists>es. validateTrustChain (E k) (tc_statements (rr_chains R ! k)) (rc_anchors C) options = Invalid es))"
proof -
  show "refreshTrustChain E now force chain (rc_anchors C) options R = Inr chain" if "\<not> force" "now < vc_expiresAt chain"
    using that by (simp add: refreshTrustChain_def isChainExpired_def)
  assume due: "force \<or> vc_expiresAt chain \<le> now"
  have eq: "refreshTrustChain E now force chain (rc_anchors C) options R = Inr v \<longleftrightarrow>
      (\<exists>tc. first_valid E (rc_anchors C) options 0 (rr_chains R) = Some (tc, v))" for v
    using due by (cases "rr_chains R")
      (auto simp: refreshTrustChain_def isChainExpired_def Let_def simp del: first_valid.simps(2) split: option.splits)
  have "first_valid E (rc_anchors C) options 0 (rr_chains R) \<noteq> None \<longleftrightarrow>
      (\<exists>vc. some_valid E (rc_anchors C) options (rr_chains R) vc)"
    unfolding first_valid_None some_valid_def by (metis add_0 validation_result.distinct(1) validation_result.exhaust)
  then show "(\<exists>vc. refreshTrustChain E now force chain (rc_anchors C) options R = Inr vc) \<longleftrightarrow>
      (\<exists>vc. some_valid E (rc_anchors C) options (rr_chains R) vc)"
    unfolding eq by (metis not_None_eq prod.exhaust)
  assume "refreshTrustChain E now force chain (rc_anchors C) options R = Inr vc"
  then obtain tc where "first_valid E (rc_anchors C) options 0 (rr_chains R) = Some (tc, vc)" unfolding eq by blast
  from first_valid_Some [OF this] obtain us vs where u: "rr_chains R = us @ tc # vs"
    "validateTrustChain (E (length us)) (tc_statements tc) (rc_anchors C) options = Valid vc"
    "\<forall>k < length us. \<exists>es. validateTrustChain (E k) (tc_statements (us ! k)) (rc_anchors C) options = Invalid es" by auto
  have "vc_entityId vc = vc_entityId chain"
    using resolved_and_valid(1) [OF assms(1) _ assms(2) u(2)] u(1) assms(3) by simp
  moreover have "\<exists>j < length (rr_chains R). validateTrustChain (E j) (tc_statements (rr_chains R ! j)) (rc_anchors C) options = Valid vc \<and>
      (\<forall>k < j. \<exists>es. validateTrustChain (E k) (tc_statements (rr_chains R ! k)) (rc_anchors C) options = Invalid es)"
    using u by (intro exI [of _ "length us"]) (simp add: nth_append)
  ultimately show "vc_entityId vc = vc_entityId chain \<and>
      (\<exists>j < length (rr_chains R). validateTrustChain (E j) (tc_statements (rr_chains R ! j)) (rc_anchors C) options = Valid vc \<and>
         (\<forall>k < j. \<exists>es. validateTrustChain (E k) (tc_statements (rr_chains R ! k)) (rc_anchors C) options = Invalid es))" ..
qed

text \<open>
  Refreshing a chain. A chain that has not expired is returned as it is unless a refresh is forced. Otherwise
  the result, if there is one, is a chain about the same entity that validates now, the first such in the order
  resolution found them, and there is a result exactly when some resolved chain validates.
\<close>

lemma refreshed_chain:
  assumes "resolves C R" and "\<And>i. env_jose (E i) = rc_jose C" and "vc_entityId chain = JStr (rc_entityId C)"
  shows "(\<not> force \<and> now < vc_expiresAt chain \<longrightarrow> refreshTrustChain E now force chain (rc_anchors C) options R = Inr chain) \<and>
    (force \<or> vc_expiresAt chain \<le> now \<longrightarrow>
      ((\<exists>vc. refreshTrustChain E now force chain (rc_anchors C) options R = Inr vc) \<longleftrightarrow>
       (\<exists>vc. some_valid E (rc_anchors C) options (rr_chains R) vc)) \<and>
      (\<forall>vc. refreshTrustChain E now force chain (rc_anchors C) options R = Inr vc \<longrightarrow>
        vc_entityId vc = vc_entityId chain \<and>
        (\<exists>j < length (rr_chains R). validateTrustChain (E j) (tc_statements (rr_chains R ! j)) (rc_anchors C) options = Valid vc \<and>
           (\<forall>k < j. \<exists>es. validateTrustChain (E k) (tc_statements (rr_chains R ! k)) (rc_anchors C) options = Invalid es))))"
proof (intro conjI impI)
  note p = refreshed_chain_parts [where E = E, OF assms]
  show "refreshTrustChain E now force chain (rc_anchors C) options R = Inr chain" if "\<not> force \<and> now < vc_expiresAt chain"
    using that by (intro p(1)) simp_all
  assume due: "force \<or> vc_expiresAt chain \<le> now"
  show "(\<exists>vc. refreshTrustChain E now force chain (rc_anchors C) options R = Inr vc) \<longleftrightarrow>
      (\<exists>vc. some_valid E (rc_anchors C) options (rr_chains R) vc)"
    by (rule p(2) [OF due])
  show "\<forall>vc. refreshTrustChain E now force chain (rc_anchors C) options R = Inr vc \<longrightarrow>
      vc_entityId vc = vc_entityId chain \<and>
      (\<exists>j < length (rr_chains R). validateTrustChain (E j) (tc_statements (rr_chains R ! j)) (rc_anchors C) options = Valid vc \<and>
         (\<forall>k < j. \<exists>es. validateTrustChain (E k) (tc_statements (rr_chains R ! k)) (rc_anchors C) options = Invalid es))"
    by (intro allI impI, rule p(3) [OF due])
qed

lemma refreshed_chain_witness:
  "\<exists>vc. refreshTrustChain (\<lambda>_. two_anchor_env) 700 False two_anchor_chain two_anchors example_options two_anchor_result = Inr vc \<and>
     vc_entityId vc = JStr ''https://rp''"
proof -
  have e: "vc_entityId two_anchor_chain = JStr (rc_entityId two_anchor_net)" "vc_expiresAt two_anchor_chain \<le> 700"
    "vc_entityId two_anchor_chain = JStr ''https://rp''"
    by (simp_all add: two_anchor_chain_def two_anchor_facts)
  have "some_valid (\<lambda>_. two_anchor_env) two_anchors example_options (rr_chains two_anchor_result) two_anchor_chain"
    unfolding some_valid_def by (rule exI [of _ 0]) (simp add: two_anchor_result_def two_anchor_valid)
  then show ?thesis
    using refreshed_chain [OF two_anchor_resolves two_anchor_facts(1) e(1), of False 700 example_options] e(2,3)
    unfolding two_anchor_facts by metis
qed

section \<open>Keys of an anchor\<close>

text \<open>The last key of a set that has a given identifier.\<close>

definition last_with :: "string \<Rightarrow> jsval dict list \<Rightarrow> jsval dict option" where
  "last_with kid keys = (if kid = [] then None else List.find (\<lambda>k. pget k ''kid'' = JStr kid) (rev keys))"

lemma map_of_keysByKid: "map_of (keysByKid keys) kid = last_with kid keys"
proof (induction keys rule: rev_induct)
  case (snoc key keys)
  then show ?case
    by (cases "pget key ''kid''") (auto simp: keysByKid_def add_by_kid_def last_with_def)
qed (simp add: keysByKid_def last_with_def)

lemma in_keysByKid: "kid \<in> fst ` set (keysByKid keys) \<longleftrightarrow> last_with kid keys \<noteq> None"
  by (metis map_of_eq_None_iff map_of_keysByKid)

text \<open>
  The comparison of an anchor's published keys with an independent source is exact: it reports a match if and
  only if both sources have the same key identifiers and, for each of them, keys of the same thumbprint, where
  the last key counts when an identifier is repeated and keys without an identifier are ignored. The
  three lists name exactly the identifiers missing on either side and those with different keys.
\<close>

lemma anchor_key_comparison_exact:
  "let r = compareTrustAnchorKeys thumbprint ec ind eid in
   (kc_match r \<longleftrightarrow> (\<forall>kid. map_option thumbprint (last_with kid ec) = map_option thumbprint (last_with kid ind))) \<and>
   set (missingInEntityConfiguration r) = {kid. last_with kid ec = None \<and> last_with kid ind \<noteq> None} \<and>
   set (missingInIndependentSource r) = {kid. last_with kid ec \<noteq> None \<and> last_with kid ind = None} \<and>
   set (mismatchedKeyMaterial r) =
     {kid. \<exists>k l. last_with kid ec = Some k \<and> last_with kid ind = Some l \<and> thumbprint k \<noteq> thumbprint l}"
proof -
  let ?r = "compareTrustAnchorKeys thumbprint ec ind eid"
  have a: "set (missingInEntityConfiguration ?r) = {kid. last_with kid ec = None \<and> last_with kid ind \<noteq> None}"
    "set (missingInIndependentSource ?r) = {kid. last_with kid ec \<noteq> None \<and> last_with kid ind = None}"
    unfolding compareTrustAnchorKeys_def Let_def by (auto simp: in_keysByKid)
  have b: "set (mismatchedKeyMaterial ?r) =
     {kid. \<exists>k l. last_with kid ec = Some k \<and> last_with kid ind = Some l \<and> thumbprint k \<noteq> thumbprint l}"
    unfolding compareTrustAnchorKeys_def Let_def
    by (auto simp: in_keysByKid map_of_keysByKid split: option.splits)
  have "kc_match ?r \<longleftrightarrow> set (missingInEntityConfiguration ?r) = {} \<and> set (missingInIndependentSource ?r) = {} \<and>
      set (mismatchedKeyMaterial ?r) = {}"
    unfolding compareTrustAnchorKeys_def Let_def key_comparison.simps set_empty ..
  also have "\<dots> \<longleftrightarrow> (\<forall>kid. map_option thumbprint (last_with kid ec) = map_option thumbprint (last_with kid ind))"
  proof -
    have me: "map_option thumbprint x = map_option thumbprint y \<longleftrightarrow>
        \<not> (x = None \<and> y \<noteq> None) \<and> \<not> (x \<noteq> None \<and> y = None) \<and> \<not> (\<exists>k l. x = Some k \<and> y = Some l \<and> thumbprint k \<noteq> thumbprint l)"
      for x y by (cases x; cases y) auto
    show ?thesis unfolding a b me by blast
  qed
  finally show ?thesis using a b by (simp add: Let_def)
qed

end
