(* ===== verification/Federation_Keys.thy ===== *)
theory Federation_Keys
  imports Trust_Marks
begin

text \<open>
  packages/core/src/federation-keys.ts, with the key schemas of schemas/jwk.ts: the life of a federation's signing keys. A provider is the map of its entries and the
  activation counter; each method is a function of the provider and the time the clock gives it, and a thrown
  error is \<open>Inl\<close>. A schema that accepts a value returns it unchanged.
\<close>

section \<open>Schemas\<close>

type_synonym jwk = "jsval dict"

definition optional_member :: "(jsval \<Rightarrow> bool) \<Rightarrow> jwk \<Rightarrow> string \<Rightarrow> bool" where
  "optional_member P k n \<longleftrightarrow> pget k n = JUndef \<or> P (pget k n)"

definition KEY_OPS :: "string list" where
  "KEY_OPS = [''sign'', ''verify'', ''encrypt'', ''decrypt'', ''wrapKey'', ''unwrapKey'', ''deriveKey'', ''deriveBits'']"

definition JWKSchema :: "jwk \<Rightarrow> bool" where
  "JWKSchema k \<longleftrightarrow>
     in_strings [''RSA'', ''EC'', ''OKP''] (pget k ''kty'') \<and>
     optional_member (\<lambda>v. is_str v \<and> v \<noteq> JStr []) k ''kid'' \<and>
     optional_member (in_strings [''sig'', ''enc'']) k ''use'' \<and>
     optional_member is_str k ''alg'' \<and>
     optional_member (\<lambda>v. is_arr v \<and> list_all (in_strings KEY_OPS) (items v)) k ''key_ops'' \<and>
     list_all (optional_member is_str k) [''n'', ''e'', ''crv'', ''x'', ''y''] \<and>
     list_all (\<lambda>f. map_of k f = None) PRIVATE_KEY_FIELDS"

definition JWKSetSchema :: "jwk list \<Rightarrow> bool" where
  "JWKSetSchema ks \<longleftrightarrow>
     ks \<noteq> [] \<and> list_all JWKSchema ks \<and>
     list_all (\<lambda>k. is_str (pget k ''kid'') \<and> pget k ''kid'' \<noteq> JStr []) ks \<and>
     distinct (map (\<lambda>k. pget k ''kid'') ks)"

section \<open>Signing keys\<close>

record signing_key =
  sk_signer :: jwt_signer
  sk_publicJwk :: jwk

definition createFederationSigningKey ::
  "(jsval dict \<Rightarrow> jsval dict \<Rightarrow> jsval dict \<Rightarrow> string) \<Rightarrow> jwk \<Rightarrow> (string, signing_key) result" where
  "createFederationSigningKey sign_with k =
     (case stripPrivateFields k of
        Inl e \<Rightarrow> Inl e
      | Inr publicJwk \<Rightarrow>
          (let pub = (if pget k ''d'' \<noteq> JUndef \<and> pget k ''key_ops'' \<noteq> JUndef
                      then AList.update ''key_ops'' (JArr [JStr ''verify'']) publicJwk else publicJwk)
           in case JwkSigner sign_with k None of
                Inl e \<Rightarrow> Inl e
              | Inr s \<Rightarrow> Inr \<lparr>sk_signer = s, sk_publicJwk = pub\<rparr>))"

section \<open>Checks on published keys\<close>

definition permits_verification :: "jwk \<Rightarrow> bool" where
  "permits_verification k \<longleftrightarrow>
     \<not> (pget k ''use'' \<noteq> JUndef \<and> \<not> strict_eq (pget k ''use'') (JStr ''sig'') \<or>
        pget k ''key_ops'' \<noteq> JUndef \<and> \<not> list_ex (strict_eq (JStr ''verify'')) (items (pget k ''key_ops'')))"

definition validateVerificationUsage :: "jwk \<Rightarrow> (string, unit) result" where
  "validateVerificationUsage k =
     (if permits_verification k then Inr ()
      else Inl ''Federation public signing keys must permit signature verification'')"

definition alg_agrees :: "jwk \<Rightarrow> jwt_signer \<Rightarrow> bool" where
  "alg_agrees k s \<longleftrightarrow> \<not> truthy (pget k ''alg'') \<or> strict_eq (pget k ''alg'') (JStr (signer_alg s))"

definition validateFederationPublicJwk :: "jwk \<Rightarrow> jwt_signer \<Rightarrow> (string, jwk) result" where
  "validateFederationPublicJwk k s =
     (if \<not> JWKSetSchema [k] then Inl ''Federation public JWK MUST contain only asymmetric public key material''
      else
        (case validateVerificationUsage k of
           Inl e \<Rightarrow> Inl e
         | Inr _ \<Rightarrow>
             if \<not> strict_eq (pget k ''kid'') (JStr (signer_kid s)) then Inl ''Federation public JWK kid MUST match signer kid''
             else if \<not> alg_agrees k s then Inl ''Federation public JWK alg MUST match signer alg''
             else Inr k))"

text \<open>The loop over the published keys: the count of keys of the signer so far.\<close>

definition check_published_key :: "jwt_signer \<Rightarrow> jwk \<Rightarrow> nat \<Rightarrow> (string, nat) result" where
  "check_published_key s k n =
     (if \<not> strict_eq (pget k ''kid'') (JStr (signer_kid s)) then Inr n
      else
        (case validateVerificationUsage k of
           Inl e \<Rightarrow> Inl e
         | Inr _ \<Rightarrow>
             if \<not> alg_agrees k s then
               Inl (''Federation signer alg '' @ quoted (signer_alg s) @ '' does not match published key alg '' @
                    quoted (js_string (pget k ''alg'')))
             else Inr (n + 1)))"

definition validateFederationKeySet :: "jwt_signer \<Rightarrow> jwk list \<Rightarrow> (string, unit) result" where
  "validateFederationKeySet s ks =
     (case validateSigner s of
        Inl e \<Rightarrow> Inl e
      | Inr _ \<Rightarrow>
          if \<not> JWKSetSchema ks then Inl ''Federation JWKS MUST be a public JWK Set with unique non-empty kids''
          else
            (case for_each (check_published_key s) ks 0 of
               Inl e \<Rightarrow> Inl e
             | Inr signerKeyCount \<Rightarrow>
                 if signerKeyCount \<noteq> 1
                 then Inl ''Federation JWKS MUST publish exactly one public key for the active signer kid'' else Inr ()))"

section \<open>The memory provider\<close>

datatype key_state = Published | Active | Retiring | Revoked

record key_entry =
  ke_signer :: jwt_signer
  ke_publicJwk :: jwk
  ke_state :: key_state
  ke_createdAt :: "number option"
  ke_activatedAt :: "number option"
  ke_activationOrder :: "nat option"
  ke_expiresAt :: "number option"
  ke_scheduledRemovalAt :: "number option"
  ke_revokedAt :: "number option"
  ke_revocationReason :: "string option"

record key_provider =
  kp_keys :: "key_entry dict"
  kp_activationOrder :: nat

definition blank_entry :: "signing_key \<Rightarrow> key_state \<Rightarrow> number \<Rightarrow> key_entry" where
  "blank_entry k st now =
     \<lparr>ke_signer = sk_signer k, ke_publicJwk = sk_publicJwk k, ke_state = st, ke_createdAt = Some now, ke_activatedAt = None,
      ke_activationOrder = None, ke_expiresAt = None, ke_scheduledRemovalAt = None, ke_revokedAt = None, ke_revocationReason = None\<rparr>"

definition validateNewKey :: "key_provider \<Rightarrow> signing_key \<Rightarrow> (string, signing_key) result" where
  "validateNewKey P k =
     (case validateSigner (sk_signer k) of
        Inl e \<Rightarrow> Inl e
      | Inr _ \<Rightarrow>
          if map_of (kp_keys P) (signer_kid (sk_signer k)) \<noteq> None
          then Inl (''Federation key '' @ quoted (signer_kid (sk_signer k)) @ '' already exists'')
          else
            (case validateFederationPublicJwk (sk_publicJwk k) (sk_signer k) of
               Inl e \<Rightarrow> Inl e
             | Inr pub \<Rightarrow> Inr \<lparr>sk_signer = sk_signer k, sk_publicJwk = pub\<rparr>))"

definition add_initial_key :: "number \<Rightarrow> signing_key \<Rightarrow> key_provider \<Rightarrow> (string, key_provider) result" where
  "add_initial_key now k P =
     (case validateNewKey P k of
        Inl e \<Rightarrow> Inl e
      | Inr k' \<Rightarrow>
          Inr \<lparr>kp_keys = AList.update (signer_kid (sk_signer k'))
                 ((blank_entry k' Active now)\<lparr>ke_activatedAt := Some now, ke_activationOrder := Some (kp_activationOrder P)\<rparr>)
                 (kp_keys P),
               kp_activationOrder = kp_activationOrder P + 1\<rparr>)"

definition MemoryFederationKeyProvider :: "number \<Rightarrow> signing_key list \<Rightarrow> (string, key_provider) result" where
  "MemoryFederationKeyProvider now initial =
     (if length initial = 0 then Inl ''MemoryFederationKeyProvider requires at least one initial federation key''
      else for_each (add_initial_key now) initial \<lparr>kp_keys = [], kp_activationOrder = 0\<rparr>)"

definition is_published :: "number \<Rightarrow> key_entry \<Rightarrow> bool" where
  "is_published now e \<longleftrightarrow>
     ke_state e = Active \<or> ke_state e = Published \<or>
     ke_state e = Retiring \<and> (case ke_scheduledRemovalAt e of None \<Rightarrow> True | Some t \<Rightarrow> now < t)"

definition order_of :: "key_entry \<Rightarrow> nat" where
  "order_of e = (case ke_activationOrder e of None \<Rightarrow> 0 | Some n \<Rightarrow> n)"

definition select_newer :: "key_entry option \<Rightarrow> key_entry \<Rightarrow> key_entry option" where
  "select_newer selected e =
     (if ke_state e = Active then
        (case selected of None \<Rightarrow> Some e | Some s \<Rightarrow> if order_of e > order_of s then Some e else selected)
      else selected)"

definition currentKeySet :: "number \<Rightarrow> key_provider \<Rightarrow> (string, jwt_signer \<times> jwk list) result" where
  "currentKeySet now P =
     (let es = map snd (kp_keys P); keys = map ke_publicJwk (filter (is_published now) es) in
      case foldl select_newer None es of
        None \<Rightarrow> Inl ''No active federation signing key available''
      | Some selected \<Rightarrow>
          (case validateFederationKeySet (ke_signer selected) keys of
             Inl e \<Rightarrow> Inl e
           | Inr _ \<Rightarrow> Inr (ke_signer selected, keys)))"

definition getEntry :: "key_provider \<Rightarrow> string \<Rightarrow> (string, key_entry) result" where
  "getEntry P kid = (case map_of (kp_keys P) kid of None \<Rightarrow> Inl (''Federation key '' @ quoted kid @ '' not found'') | Some e \<Rightarrow> Inr e)"

definition publishKey :: "number \<Rightarrow> signing_key \<Rightarrow> key_provider \<Rightarrow> (string, key_provider) result" where
  "publishKey now k P =
     (case validateNewKey P k of
        Inl e \<Rightarrow> Inl e
      | Inr k' \<Rightarrow> Inr (P\<lparr>kp_keys := AList.update (signer_kid (sk_signer k')) (blank_entry k' Published now) (kp_keys P)\<rparr>))"

definition DEFAULT_KEY_RETIRE_AFTER_MS :: number where
  "DEFAULT_KEY_RETIRE_AFTER_MS = 604800000"

fun state_name :: "key_state \<Rightarrow> string" where
  "state_name Published = ''published''" | "state_name Active = ''active''"
| "state_name Retiring = ''retiring''" | "state_name Revoked = ''revoked''"

text \<open>The clock is read twice, in \<open>currentKeySet\<close> and after it.\<close>

definition switchActiveKey ::
  "number \<Rightarrow> number \<Rightarrow> string \<Rightarrow> number option \<Rightarrow> key_provider \<Rightarrow> (string, key_provider) result" where
  "switchActiveKey now1 now2 kid retirePreviousAfterMs P =
     (case getEntry P kid of
        Inl e \<Rightarrow> Inl e
      | Inr entry \<Rightarrow>
          if ke_state entry \<noteq> Published then
            Inl (''Federation key '' @ quoted kid @ '' is in state '' @ quoted (state_name (ke_state entry)) @ '', expected '' @ quoted ''published'')
          else
            (case currentKeySet now1 P of
               Inl e \<Rightarrow> Inl e
             | Inr (sg, _) \<Rightarrow>
                 (let previousKid = signer_kid sg;
                      entry' = entry\<lparr>ke_state := Active, ke_activatedAt := Some now2, ke_activationOrder := Some (kp_activationOrder P)\<rparr>;
                      P' = \<lparr>kp_keys = AList.update kid entry' (kp_keys P), kp_activationOrder = kp_activationOrder P + 1\<rparr>
                  in if previousKid \<noteq> kid then
                       (case getEntry P' previousKid of
                          Inl e \<Rightarrow> Inl e
                        | Inr previous \<Rightarrow>
                            if ke_state previous = Active then
                              Inr (P'\<lparr>kp_keys := AList.update previousKid
                                     (previous\<lparr>ke_state := Retiring, ke_scheduledRemovalAt :=
                                        Some (now2 + (case retirePreviousAfterMs of None \<Rightarrow> DEFAULT_KEY_RETIRE_AFTER_MS | Some t \<Rightarrow> t))\<rparr>)
                                     (kp_keys P')\<rparr>)
                            else Inr P')
                     else Inr P')))"

definition revokeKey :: "number \<Rightarrow> string \<Rightarrow> string \<Rightarrow> key_provider \<Rightarrow> (string, key_provider) result" where
  "revokeKey now kid reason P =
     (case getEntry P kid of
        Inl e \<Rightarrow> Inl e
      | Inr entry \<Rightarrow>
          Inr (P\<lparr>kp_keys := AList.update kid
                 (entry\<lparr>ke_state := Revoked, ke_revokedAt := Some now, ke_revocationReason := Some reason\<rparr>) (kp_keys P)\<rparr>))"

section \<open>History\<close>

definition seconds :: "number \<Rightarrow> jsval" where
  "seconds ms = JNum (of_int \<lfloor>ms / 1000\<rfloor>)"

definition mapHistoricalEntry :: "number \<Rightarrow> key_entry \<Rightarrow> jwk" where
  "mapHistoricalEntry nowSec e =
     (let h0 = AList.update ''exp''
            (case ke_expiresAt e of
               Some t \<Rightarrow> seconds t
             | None \<Rightarrow>
                 (case ke_scheduledRemovalAt e of
                    Some t \<Rightarrow> seconds t
                  | None \<Rightarrow> (case ke_revokedAt e of Some t \<Rightarrow> seconds t | None \<Rightarrow> JNum nowSec)))
            (ke_publicJwk e);
          h1 = (case ke_createdAt e of None \<Rightarrow> h0 | Some t \<Rightarrow> AList.update ''iat'' (seconds t) h0);
          h2 = (case ke_activatedAt e of None \<Rightarrow> h1 | Some t \<Rightarrow> AList.update ''nbf'' (seconds t) h1)
      in if ke_state e = Revoked then
           AList.update ''revoked''
             (JObj ((''revoked_at'', (case ke_revokedAt e of Some t \<Rightarrow> seconds t | None \<Rightarrow> JNum nowSec)) #
                (case ke_revocationReason e of Some r \<Rightarrow> if r = [] then [] else [(''reason'', JStr r)] | None \<Rightarrow> []))) h2
         else h2)"

definition getHistoricalFederationKeys :: "number \<Rightarrow> key_provider \<Rightarrow> jwk list" where
  "getHistoricalFederationKeys now P = map (\<lambda>(_, e). mapHistoricalEntry (of_int \<lfloor>now / 1000\<rfloor>) e) (kp_keys P)"

text \<open>The fixed provider: the key set it was built with.\<close>

definition StaticFederationKeyProvider :: "jwt_signer \<times> jwk list \<Rightarrow> (string, jwt_signer \<times> jwk list) result" where
  "StaticFederationKeyProvider ks =
     (case validateFederationKeySet (fst ks) (snd ks) of Inl e \<Rightarrow> Inl e | Inr _ \<Rightarrow> Inr ks)"

section \<open>The invariant of a provider\<close>

definition entry_ok :: "string \<Rightarrow> key_entry \<Rightarrow> bool" where
  "entry_ok kid e \<longleftrightarrow>
     signer_kid (ke_signer e) = kid \<and> validateSigner (ke_signer e) = Inr () \<and>
     JWKSetSchema [ke_publicJwk e] \<and> permits_verification (ke_publicJwk e) \<and> pget (ke_publicJwk e) ''kid'' = JStr kid \<and>
     alg_agrees (ke_publicJwk e) (ke_signer e)"

definition kp_inv :: "key_provider \<Rightarrow> bool" where
  "kp_inv P \<longleftrightarrow>
     distinct (map fst (kp_keys P)) \<and>
     (\<forall>kid e. map_of (kp_keys P) kid = Some e \<longrightarrow> entry_ok kid e \<and>
        (ke_state e = Active \<longrightarrow> ke_activationOrder e \<noteq> None) \<and>
        (\<forall>n. ke_activationOrder e = Some n \<longrightarrow> n < kp_activationOrder P)) \<and>
     (\<forall>kid e kid' e' n. map_of (kp_keys P) kid = Some e \<longrightarrow> map_of (kp_keys P) kid' = Some e' \<longrightarrow>
        ke_activationOrder e = Some n \<longrightarrow> ke_activationOrder e' = Some n \<longrightarrow> kid = kid')"

lemma kp_invD:
  assumes "kp_inv P"
  shows "distinct (map fst (kp_keys P))"
    and "map_of (kp_keys P) kid = Some e \<Longrightarrow> entry_ok kid e"
    and "map_of (kp_keys P) kid = Some e \<Longrightarrow> ke_state e = Active \<Longrightarrow> \<exists>n. ke_activationOrder e = Some n"
    and "map_of (kp_keys P) kid = Some e \<Longrightarrow> ke_activationOrder e = Some n \<Longrightarrow> n < kp_activationOrder P"
    and "\<lbrakk>map_of (kp_keys P) kid = Some e; map_of (kp_keys P) kid' = Some e'; ke_activationOrder e = Some n;
      ke_activationOrder e' = Some n\<rbrakk> \<Longrightarrow> kid = kid'"
  using assms unfolding kp_inv_def by blast+

text \<open>Putting an entry whose activation order is new or none, or that of the entry it replaces.\<close>

lemma kp_inv_put:
  assumes inv: "kp_inv P" and ok: "entry_ok kid e" "ke_state e = Active \<longrightarrow> ke_activationOrder e \<noteq> None"
    and keys: "kp_keys P' = AList.update kid e (kp_keys P)" and order: "kp_activationOrder P \<le> kp_activationOrder P'"
    and new: "ke_activationOrder e = None \<or> ke_activationOrder e = Some (kp_activationOrder P) \<and> kp_activationOrder P < kp_activationOrder P' \<or>
      (\<exists>e0. map_of (kp_keys P) kid = Some e0 \<and> ke_activationOrder e = ke_activationOrder e0)"
  shows "kp_inv P'"
proof -
  note d = kp_invD [OF inv]
  have m: "map_of (kp_keys P') k = (if k = kid then Some e else map_of (kp_keys P) k)" for k by (simp add: keys)
  have lt: "n < kp_activationOrder P'" if "ke_activationOrder e = Some n" for n
    using new that order d(4) by fastforce
  have uniq: "k = kid" if "map_of (kp_keys P) k = Some e'" "ke_activationOrder e' = Some n" "ke_activationOrder e = Some n" for k e' n
    using new that d(4) [of k e' n] d(5) [of k e' kid _ n] by fastforce
  show ?thesis
    unfolding kp_inv_def m
  proof (intro conjI allI impI)
    show "distinct (map fst (kp_keys P'))" using d(1) by (simp add: keys)
  next
    fix k e' assume k: "(if k = kid then Some e else map_of (kp_keys P) k) = Some e'"
    show "entry_ok k e'" using k ok(1) d(2) by (auto split: if_splits)
    show "ke_activationOrder e' \<noteq> None" if "ke_state e' = Active" using k that ok(2) d(3) by (auto split: if_splits)
    show "n < kp_activationOrder P'" if "ke_activationOrder e' = Some n" for n
      using k that lt d(4) order by (fastforce split: if_splits)
  next
    fix k1 e1 k2 e2 n
    assume "(if k1 = kid then Some e else map_of (kp_keys P) k1) = Some e1" "(if k2 = kid then Some e else map_of (kp_keys P) k2) = Some e2"
      "ke_activationOrder e1 = Some n" "ke_activationOrder e2 = Some n"
    then show "k1 = k2" using uniq d(5) by (auto split: if_splits)
  qed
qed

lemma validateNewKey_Inr:
  assumes "validateNewKey P k = Inr k'"
  shows "k' = k" "map_of (kp_keys P) (signer_kid (sk_signer k)) = None"
    "validateSigner (sk_signer k) = Inr ()" "JWKSetSchema [sk_publicJwk k]" "permits_verification (sk_publicJwk k)"
    "pget (sk_publicJwk k) ''kid'' = JStr (signer_kid (sk_signer k))" "alg_agrees (sk_publicJwk k) (sk_signer k)"
proof -
  have se: "strict_eq v (JStr s) \<longleftrightarrow> v = JStr s" for v s by (cases v) auto
  show "k' = k" "map_of (kp_keys P) (signer_kid (sk_signer k)) = None"
    "validateSigner (sk_signer k) = Inr ()" "JWKSetSchema [sk_publicJwk k]" "permits_verification (sk_publicJwk k)"
    "pget (sk_publicJwk k) ''kid'' = JStr (signer_kid (sk_signer k))" "alg_agrees (sk_publicJwk k) (sk_signer k)"
    using assms
    by (auto simp: validateNewKey_def validateFederationPublicJwk_def validateVerificationUsage_def se split: sum.splits if_splits)
qed

lemma new_entry_ok:
  assumes "validateNewKey P k = Inr k'"
  shows "entry_ok (signer_kid (sk_signer k)) (blank_entry k st now)"
  using validateNewKey_Inr [OF assms] by (simp add: entry_ok_def blank_entry_def)

lemma entry_ok_state [simp]:
  "entry_ok kid (e\<lparr>ke_state := st\<rparr>) = entry_ok kid e" "entry_ok kid (e\<lparr>ke_activatedAt := a\<rparr>) = entry_ok kid e"
  "entry_ok kid (e\<lparr>ke_activationOrder := n\<rparr>) = entry_ok kid e" "entry_ok kid (e\<lparr>ke_scheduledRemovalAt := r\<rparr>) = entry_ok kid e"
  "entry_ok kid (e\<lparr>ke_revokedAt := r\<rparr>) = entry_ok kid e" "entry_ok kid (e\<lparr>ke_revocationReason := w\<rparr>) = entry_ok kid e"
  by (simp_all add: entry_ok_def)

lemma add_initial_inv:
  assumes "kp_inv P" "add_initial_key now k P = Inr P'"
  shows "kp_inv P'"
proof -
  obtain k' where k': "validateNewKey P k = Inr k'"
    and P': "P' = \<lparr>kp_keys = AList.update (signer_kid (sk_signer k'))
        ((blank_entry k' Active now)\<lparr>ke_activatedAt := Some now, ke_activationOrder := Some (kp_activationOrder P)\<rparr>) (kp_keys P),
      kp_activationOrder = kp_activationOrder P + 1\<rparr>"
    using assms(2) by (auto simp: add_initial_key_def split: sum.splits)
  show ?thesis
    by (rule kp_inv_put [OF assms(1), where kid = "signer_kid (sk_signer k')" and
          e = "(blank_entry k' Active now)\<lparr>ke_activatedAt := Some now, ke_activationOrder := Some (kp_activationOrder P)\<rparr>"])
      (use new_entry_ok [OF k', of Active now] validateNewKey_Inr(1) [OF k'] in \<open>simp_all add: P'\<close>)
qed

lemma new_provider_inv: "MemoryFederationKeyProvider now ks = Inr P \<Longrightarrow> kp_inv P"
proof -
  have "kp_inv Q \<Longrightarrow> for_each (add_initial_key now) ks Q = Inr P \<Longrightarrow> kp_inv P" for ks Q
  proof (induction ks arbitrary: Q)
    case (Cons k ks)
    then obtain Q' where "add_initial_key now k Q = Inr Q'" "for_each (add_initial_key now) ks Q' = Inr P"
      by (auto split: sum.splits)
    then show ?case using Cons add_initial_inv by blast
  qed simp
  moreover have "kp_inv \<lparr>kp_keys = [], kp_activationOrder = 0\<rparr>" by (simp add: kp_inv_def)
  ultimately show "MemoryFederationKeyProvider now ks = Inr P \<Longrightarrow> kp_inv P"
    by (auto simp: MemoryFederationKeyProvider_def split: if_splits)
qed

lemma publish_inv:
  assumes "kp_inv P" "publishKey now k P = Inr P'"
  shows "kp_inv P'"
proof -
  obtain k' where k': "validateNewKey P k = Inr k'"
    and P': "P' = P\<lparr>kp_keys := AList.update (signer_kid (sk_signer k')) (blank_entry k' Published now) (kp_keys P)\<rparr>"
    using assms(2) by (auto simp: publishKey_def split: sum.splits)
  show ?thesis
    by (rule kp_inv_put [OF assms(1), where kid = "signer_kid (sk_signer k')" and e = "blank_entry k' Published now"])
      (use new_entry_ok [OF k', of Published now] validateNewKey_Inr(1) [OF k'] in \<open>simp_all add: P' blank_entry_def\<close>)
qed

lemma getEntry_Inr: "getEntry P kid = Inr e \<longleftrightarrow> map_of (kp_keys P) kid = Some e"
  by (simp add: getEntry_def split: option.splits)

lemma revoke_inv:
  assumes "kp_inv P" "revokeKey now kid reason P = Inr P'"
  shows "kp_inv P'"
proof -
  obtain e where e: "map_of (kp_keys P) kid = Some e"
    and P': "P' = P\<lparr>kp_keys := AList.update kid (e\<lparr>ke_state := Revoked, ke_revokedAt := Some now, ke_revocationReason := Some reason\<rparr>) (kp_keys P)\<rparr>"
    using assms(2) by (auto simp: revokeKey_def getEntry_Inr split: sum.splits)
  show ?thesis
    by (rule kp_inv_put [OF assms(1), where kid = kid and e = "e\<lparr>ke_state := Revoked, ke_revokedAt := Some now, ke_revocationReason := Some reason\<rparr>"])
      (use e kp_invD(2) [OF assms(1) e] in \<open>simp_all add: P'\<close>)
qed

section \<open>The published key set\<close>

lemma select_newest:
  "foldl select_newer acc es = r \<Longrightarrow> (\<forall>s. acc = Some s \<longrightarrow> ke_state s = Active) \<Longrightarrow>
   (case r of
      None \<Rightarrow> acc = None \<and> (\<forall>e \<in> set es. ke_state e \<noteq> Active)
    | Some s \<Rightarrow> ke_state s = Active \<and> (s \<in> set es \<or> acc = Some s) \<and>
        (\<forall>e \<in> set es. ke_state e = Active \<longrightarrow> order_of e \<le> order_of s) \<and> (\<forall>a. acc = Some a \<longrightarrow> order_of a \<le> order_of s))"
proof (induction es arbitrary: acc)
  case Nil
  then show ?case by (auto split: option.splits)
next
  case (Cons e es)
  have "\<forall>s. select_newer acc e = Some s \<longrightarrow> ke_state s = Active"
    using Cons.prems(2) by (auto simp: select_newer_def split: if_splits option.splits)
  from Cons.IH [OF _ this] Cons.prems show ?case
    by (cases "ke_state e = Active"; cases acc; cases r) (auto simp: select_newer_def split: if_splits)
qed

lemma published_count:
  assumes "\<And>k. k \<in> set ks \<Longrightarrow> pget k ''kid'' = JStr (signer_kid s) \<Longrightarrow> permits_verification k \<and> alg_agrees k s"
    and "\<And>k. k \<in> set ks \<Longrightarrow> is_str (pget k ''kid'')"
  shows "for_each (check_published_key s) ks n = Inr (n + length (filter (\<lambda>k. pget k ''kid'' = JStr (signer_kid s)) ks))"
  using assms
proof (induction ks arbitrary: n)
  case (Cons k ks)
  have "strict_eq (pget k ''kid'') (JStr (signer_kid s)) \<longleftrightarrow> pget k ''kid'' = JStr (signer_kid s)"
    by (cases "pget k ''kid''") auto
  then show ?case using Cons by (simp add: check_published_key_def validateVerificationUsage_def)
qed simp

lemma filter_one:
  "distinct (map f xs) \<Longrightarrow> x \<in> set xs \<Longrightarrow> filter (\<lambda>y. f y = f x) xs = [x]"
proof (induction xs)
  case (Cons a xs)
  then show ?case by (auto simp: filter_empty_conv image_iff)
qed simp

lemma map_of_snd: "distinct (map fst m) \<Longrightarrow> e \<in> set (map snd m) \<longleftrightarrow> (\<exists>k. map_of m k = Some e)"
  by (auto simp: image_iff) (metis map_of_SomeD snd_conv)

text \<open>The keys that are published at a time.\<close>

definition published_keys :: "number \<Rightarrow> key_provider \<Rightarrow> jwk list" where
  "published_keys now P = map ke_publicJwk (filter (is_published now) (map snd (kp_keys P)))"

lemma published_distinct:
  assumes "kp_inv P"
  shows "distinct (map (\<lambda>k. pget k ''kid'') (published_keys now P))"
proof -
  let ?f = "\<lambda>e. pget (ke_publicJwk e) ''kid''"
  have "map ?f (map snd (kp_keys P)) = map JStr (map fst (kp_keys P))"
    using kp_invD(1,2) [OF assms] by (auto simp: entry_ok_def)
  then have "distinct (map ?f (map snd (kp_keys P)))"
    using kp_invD(1) [OF assms] by (simp only: distinct_map) (simp add: inj_on_def)
  then have "distinct (map ?f (filter (is_published now) (map snd (kp_keys P))))" by (rule distinct_map_filter)
  then show ?thesis by (simp add: published_keys_def o_def)
qed

lemma published_member:
  assumes "kp_inv P"
  shows "k \<in> set (published_keys now P) \<longleftrightarrow> (\<exists>kid e. map_of (kp_keys P) kid = Some e \<and> is_published now e \<and> k = ke_publicJwk e)"
  using map_of_snd [OF kp_invD(1) [OF assms]] by (auto simp: published_keys_def)

lemma current_valid:
  assumes inv: "kp_inv P" and e: "map_of (kp_keys P) kid = Some e" "ke_state e = Active"
  shows "validateFederationKeySet (ke_signer e) (published_keys now P) = Inr ()"
proof -
  let ?ks = "published_keys now P"
  have ok: "entry_ok kid e" using kp_invD(2) [OF inv e(1)] .
  have ein: "ke_publicJwk e \<in> set ?ks" using published_member [OF inv] e by (auto simp: is_published_def)
  have each: "JWKSetSchema [k] \<and> permits_verification k \<and> (\<exists>kid e. map_of (kp_keys P) kid = Some e \<and> k = ke_publicJwk e \<and> pget k ''kid'' = JStr kid)"
    if k: "k \<in> set ?ks" for k
    using published_member [OF inv, of k now] k kp_invD(2) [OF inv] unfolding entry_ok_def by blast
  have schema: "JWKSetSchema ?ks"
    using ein each published_distinct [OF inv, of now] by (auto simp: JWKSetSchema_def list_all_iff)
  have count: "for_each (check_published_key (ke_signer e)) ?ks 0 =
      Inr (0 + length (filter (\<lambda>k. pget k ''kid'' = JStr (signer_kid (ke_signer e))) ?ks))"
  proof (rule published_count)
    fix k assume k: "k \<in> set ?ks"
    show "is_str (pget k ''kid'')" using each [OF k] by auto
    assume "pget k ''kid'' = JStr (signer_kid (ke_signer e))"
    then have "k = ke_publicJwk e" using each [OF k] ok e(1) by (auto simp: entry_ok_def)
    then show "permits_verification k \<and> alg_agrees k (ke_signer e)" using ok by (simp add: entry_ok_def)
  qed
  have "filter (\<lambda>k. pget k ''kid'' = pget (ke_publicJwk e) ''kid'') ?ks = [ke_publicJwk e]"
    by (rule filter_one [OF published_distinct [OF inv] ein])
  then have "filter (\<lambda>k. pget k ''kid'' = JStr (signer_kid (ke_signer e))) ?ks = [ke_publicJwk e]"
    using ok by (simp add: entry_ok_def)
  then show ?thesis using ok schema count by (simp add: validateFederationKeySet_def entry_ok_def)
qed

lemma currentKeySet_cases:
  assumes inv: "kp_inv P"
  shows "(\<forall>kid e. map_of (kp_keys P) kid = Some e \<longrightarrow> ke_state e \<noteq> Active) \<and>
      currentKeySet now P = Inl ''No active federation signing key available'' \<or>
    (\<exists>kid e. map_of (kp_keys P) kid = Some e \<and> ke_state e = Active \<and>
      (\<forall>kid' e'. map_of (kp_keys P) kid' = Some e' \<longrightarrow> ke_state e' = Active \<longrightarrow> order_of e' \<le> order_of e) \<and>
      currentKeySet now P = Inr (ke_signer e, published_keys now P))"
proof -
  let ?r = "foldl select_newer None (map snd (kp_keys P))"
  note s = select_newest [OF refl, of None "map snd (kp_keys P)"] and m = map_of_snd [OF kp_invD(1) [OF inv]]
  show ?thesis
  proof (cases ?r)
    case None
    then have "\<forall>e \<in> set (map snd (kp_keys P)). ke_state e \<noteq> Active" using s by simp
    then have "\<forall>kid e. map_of (kp_keys P) kid = Some e \<longrightarrow> ke_state e \<noteq> Active" using m by blast
    then show ?thesis by (simp add: currentKeySet_def None)
  next
    case (Some e)
    then have e: "ke_state e = Active" "e \<in> set (map snd (kp_keys P))"
      and mx: "\<forall>e' \<in> set (map snd (kp_keys P)). ke_state e' = Active \<longrightarrow> order_of e' \<le> order_of e" using s by auto
    then obtain kid where kid: "map_of (kp_keys P) kid = Some e" using m by blast
    have "currentKeySet now P = Inr (ke_signer e, published_keys now P)"
      using current_valid [OF inv kid e(1), of now] Some by (simp add: currentKeySet_def published_keys_def)
    then show ?thesis using kid e(1) mx m by blast
  qed
qed

section \<open>Lifecycles\<close>

datatype key_op =
    Publish_Key number signing_key
  | Switch_Key number number string "number option"
  | Revoke_Key number string string

fun apply_op :: "key_op \<Rightarrow> key_provider \<Rightarrow> (string, key_provider) result" where
  "apply_op (Publish_Key now k) P = publishKey now k P"
| "apply_op (Switch_Key now1 now2 kid retire) P = switchActiveKey now1 now2 kid retire P"
| "apply_op (Revoke_Key now kid reason) P = revokeKey now kid reason P"

inductive key_run :: "key_provider \<Rightarrow> key_provider \<Rightarrow> bool" for P0 where
  key_start: "key_run P0 P0"
| key_step: "key_run P0 P \<Longrightarrow> apply_op op P = Inr P' \<Longrightarrow> key_run P0 P'"

text \<open>What a switch does: the published key becomes the newest active one, the previous signer's retires.\<close>

definition activated :: "number \<Rightarrow> nat \<Rightarrow> key_entry \<Rightarrow> key_entry" where
  "activated now n e = e\<lparr>ke_state := Active, ke_activatedAt := Some now, ke_activationOrder := Some n\<rparr>"

definition retired :: "number \<Rightarrow> key_entry \<Rightarrow> key_entry" where
  "retired t e = e\<lparr>ke_state := Retiring, ke_scheduledRemovalAt := Some t\<rparr>"

definition retire_time :: "number \<Rightarrow> number option \<Rightarrow> number" where
  "retire_time now r = now + (case r of None \<Rightarrow> DEFAULT_KEY_RETIRE_AFTER_MS | Some t \<Rightarrow> t)"

lemma switch_shape:
  assumes inv: "kp_inv P" and sw: "switchActiveKey now1 now2 kid r P = Inr P'"
  obtains e prev pe ks where "map_of (kp_keys P) kid = Some e" "ke_state e = Published" "prev \<noteq> kid"
    "map_of (kp_keys P) prev = Some pe" "ke_state pe = Active" "currentKeySet now1 P = Inr (ke_signer pe, ks)"
    "P' = \<lparr>kp_keys = AList.update prev (retired (retire_time now2 r) pe) (AList.update kid (activated now2 (kp_activationOrder P) e) (kp_keys P)),
           kp_activationOrder = kp_activationOrder P + 1\<rparr>"
proof -
  obtain e sg ks where e: "map_of (kp_keys P) kid = Some e" "ke_state e = Published" and c: "currentKeySet now1 P = Inr (sg, ks)"
    using sw by (auto simp: switchActiveKey_def getEntry_Inr split: sum.splits if_splits prod.splits)
  obtain prev pe where pe: "map_of (kp_keys P) prev = Some pe" "ke_state pe = Active" "sg = ke_signer pe"
    using currentKeySet_cases [OF inv, of now1] c by auto
  have kid: "signer_kid sg = prev" using kp_invD(2) [OF inv pe(1)] pe(3) by (simp add: entry_ok_def)
  have ne: "prev \<noteq> kid" using e pe by auto
  have ge: "getEntry P kid = Inr e" "getEntry \<lparr>kp_keys = AList.update kid e' (kp_keys P), kp_activationOrder = n\<rparr> prev = Inr pe" for e' n
    using e(1) pe(1) ne by (simp_all add: getEntry_Inr)
  have "P' = \<lparr>kp_keys = AList.update prev (retired (retire_time now2 r) pe) (AList.update kid (activated now2 (kp_activationOrder P) e) (kp_keys P)),
      kp_activationOrder = kp_activationOrder P + 1\<rparr>"
    using sw e pe(2) c kid ne
    by (simp add: switchActiveKey_def ge Let_def activated_def retired_def retire_time_def)
  then show thesis using that e ne pe c by simp
qed

lemma switch_inv:
  assumes inv: "kp_inv P" and sw: "switchActiveKey now1 now2 kid r P = Inr P'"
  shows "kp_inv P'"
proof -
  obtain e prev pe ks where e: "map_of (kp_keys P) kid = Some e" "ke_state e = Published" "prev \<noteq> kid"
    "map_of (kp_keys P) prev = Some pe" and P': "P' = \<lparr>kp_keys = AList.update prev (retired (retire_time now2 r) pe)
      (AList.update kid (activated now2 (kp_activationOrder P) e) (kp_keys P)), kp_activationOrder = kp_activationOrder P + 1\<rparr>"
    using switch_shape [OF assms] by metis
  let ?Q = "\<lparr>kp_keys = AList.update kid (activated now2 (kp_activationOrder P) e) (kp_keys P), kp_activationOrder = kp_activationOrder P + 1\<rparr>"
  have Q: "kp_inv ?Q"
    by (rule kp_inv_put [OF inv, where kid = kid and e = "activated now2 (kp_activationOrder P) e"])
      (use kp_invD(2) [OF inv e(1)] in \<open>simp_all add: activated_def\<close>)
  show ?thesis
    by (rule kp_inv_put [OF Q, where kid = prev and e = "retired (retire_time now2 r) pe"])
      (use kp_invD(2) [OF inv e(4)] e(3,4) in \<open>simp_all add: P' retired_def\<close>)
qed

lemma op_inv:
  assumes "kp_inv P" "apply_op op P = Inr P'"
  shows "kp_inv P'"
  using assms(2) by (cases op) (simp_all add: publish_inv [OF assms(1)] switch_inv [OF assms(1)] revoke_inv [OF assms(1)])

lemma run_inv: "key_run P0 P \<Longrightarrow> kp_inv P0 \<Longrightarrow> kp_inv P"
  by (induction rule: key_run.induct) (blast intro: op_inv)+

text \<open>Every key stays known, with its public part, and a revoked one stays revoked.\<close>

lemma op_keeps:
  assumes inv: "kp_inv P" and op: "apply_op op P = Inr P'" and e: "map_of (kp_keys P) kid = Some e"
  shows "\<exists>e'. map_of (kp_keys P') kid = Some e' \<and> ke_publicJwk e' = ke_publicJwk e \<and>
    (ke_state e = Revoked \<longrightarrow> ke_state e' = Revoked)"
proof (cases op)
  case (Publish_Key now k)
  then obtain k' where "validateNewKey P k = Inr k'"
    "P' = P\<lparr>kp_keys := AList.update (signer_kid (sk_signer k')) (blank_entry k' Published now) (kp_keys P)\<rparr>"
    using op by (auto simp: publishKey_def split: sum.splits)
  then show ?thesis using validateNewKey_Inr(1,2) [of P k k'] e by auto
next
  case (Switch_Key now1 now2 kid' r)
  then have "switchActiveKey now1 now2 kid' r P = Inr P'" using op by simp
  then obtain e0 prev pe ks where s: "map_of (kp_keys P) kid' = Some e0" "ke_state e0 = Published" "prev \<noteq> kid'"
    "map_of (kp_keys P) prev = Some pe" "ke_state pe = Active"
    "P' = \<lparr>kp_keys = AList.update prev (retired (retire_time now2 r) pe)
      (AList.update kid' (activated now2 (kp_activationOrder P) e0) (kp_keys P)), kp_activationOrder = kp_activationOrder P + 1\<rparr>"
    using switch_shape [OF inv] by metis
  consider "kid = prev" | "kid = kid'" "kid \<noteq> prev" | "kid \<noteq> prev" "kid \<noteq> kid'" by blast
  then show ?thesis using e s by cases (simp_all add: activated_def retired_def)
next
  case (Revoke_Key now kid' reason)
  then show ?thesis using op e by (auto simp: revokeKey_def getEntry_Inr split: sum.splits)
qed

lemma run_keeps:
  "key_run P0 P \<Longrightarrow> kp_inv P0 \<Longrightarrow> map_of (kp_keys P0) kid = Some e \<Longrightarrow>
   \<exists>e'. map_of (kp_keys P) kid = Some e' \<and> ke_publicJwk e' = ke_publicJwk e \<and> (ke_state e = Revoked \<longrightarrow> ke_state e' = Revoked)"
proof (induction rule: key_run.induct)
  case (key_step P op P')
  then show ?case using op_keeps [OF run_inv [OF key_step(1)] key_step(2)] by fastforce
qed simp

section \<open>Properties of the key lifecycle\<close>

definition example_public_jwk :: "string \<Rightarrow> jwk" where
  "example_public_jwk kid = [(''kty'', JStr ''EC''), (''kid'', JStr kid), (''crv'', JStr ''P-256''), (''x'', JStr ''a''), (''y'', JStr ''b'')]"

definition example_signing_key :: "string \<Rightarrow> signing_key" where
  "example_signing_key kid =
     \<lparr>sk_signer = \<lparr>signer_kid = kid, signer_alg = ''ES256'', sign_jwt = (\<lambda>p h. ''jws'')\<rparr>, sk_publicJwk = example_public_jwk kid\<rparr>"

definition example_provider :: key_provider where
  "example_provider = (case MemoryFederationKeyProvider 1000 [example_signing_key ''k1''] of Inr P \<Rightarrow> P | Inl _ \<Rightarrow> \<lparr>kp_keys = [], kp_activationOrder = 0\<rparr>)"

definition example_rolled :: key_provider where
  "example_rolled = (case publishKey 2000 (example_signing_key ''k2'') example_provider of Inr P \<Rightarrow> P | Inl _ \<Rightarrow> example_provider)"

lemma example_provider_new: "MemoryFederationKeyProvider 1000 [example_signing_key ''k1''] = Inr example_provider"
proof -
  have "case MemoryFederationKeyProvider 1000 [example_signing_key ''k1''] of Inl _ \<Rightarrow> False | Inr _ \<Rightarrow> True" by code_simp
  then show ?thesis by (simp add: example_provider_def split: sum.splits)
qed

lemma example_rolled_run: "key_run example_provider example_rolled"
proof -
  have "case publishKey 2000 (example_signing_key ''k2'') example_provider of Inl _ \<Rightarrow> False | Inr _ \<Rightarrow> True" by code_simp
  then have "apply_op (Publish_Key 2000 (example_signing_key ''k2'')) example_provider = Inr example_rolled"
    by (simp add: example_rolled_def split: sum.splits)
  then show ?thesis using key_step [OF key_start] by blast
qed

text \<open>
  C27: Whatever sequence of publications, switches and revocations a provider has gone through, the key set
  it hands out is sound: the signer is the most recently activated active key, its public key is published
  exactly once, the published keys are those of the active, published and not yet removed retiring entries,
  with distinct key ids and no private member; and the only error is that no active key is left.
\<close>
theorem federation_key_set_sound:
  assumes "MemoryFederationKeyProvider t0 initial = Inr P0" "key_run P0 P"
  shows "case currentKeySet now P of
      Inl m \<Rightarrow> m = ''No active federation signing key available'' \<and>
        (\<forall>kid e. map_of (kp_keys P) kid = Some e \<longrightarrow> ke_state e \<noteq> Active)
    | Inr (s, ks) \<Rightarrow> validateFederationKeySet s ks = Inr () \<and>
        (\<exists>e. map_of (kp_keys P) (signer_kid s) = Some e \<and> ke_signer e = s \<and> ke_state e = Active \<and>
           (\<forall>kid e'. map_of (kp_keys P) kid = Some e' \<and> ke_state e' = Active \<and> kid \<noteq> signer_kid s \<longrightarrow> order_of e' < order_of e)) \<and>
        distinct (map (\<lambda>k. pget k ''kid'') ks) \<and> (\<forall>k \<in> set ks. \<forall>f \<in> set PRIVATE_KEY_FIELDS. map_of k f = None) \<and>
        (\<forall>k. k \<in> set ks \<longleftrightarrow> (\<exists>kid e. map_of (kp_keys P) kid = Some e \<and> is_published now e \<and> k = ke_publicJwk e))"
proof -
  have inv: "kp_inv P" using run_inv [OF assms(2) new_provider_inv [OF assms(1)]] .
  have priv: "map_of k f = None" if "k \<in> set (published_keys now P)" "f \<in> set PRIVATE_KEY_FIELDS" for k f
  proof -
    obtain kid e where "map_of (kp_keys P) kid = Some e" "k = ke_publicJwk e" using published_member [OF inv] \<open>k \<in> _\<close> by blast
    then have "JWKSetSchema [k]" using kp_invD(2) [OF inv] by (auto simp: entry_ok_def)
    then show ?thesis using that(2) by (simp add: JWKSetSchema_def JWKSchema_def list_all_iff)
  qed
  from currentKeySet_cases [OF inv, of now] show ?thesis
  proof (elim disjE exE conjE)
    fix kid e assume e: "map_of (kp_keys P) kid = Some e" "ke_state e = Active"
      and mx: "\<forall>kid' e'. map_of (kp_keys P) kid' = Some e' \<longrightarrow> ke_state e' = Active \<longrightarrow> order_of e' \<le> order_of e"
      and c: "currentKeySet now P = Inr (ke_signer e, published_keys now P)"
    have k: "signer_kid (ke_signer e) = kid" using kp_invD(2) [OF inv e(1)] by (simp add: entry_ok_def)
    have less: "order_of e' < order_of e" if e': "map_of (kp_keys P) kid' = Some e'" "ke_state e' = Active" "kid' \<noteq> kid" for kid' e'
    proof -
      obtain n n' where "ke_activationOrder e = Some n" "ke_activationOrder e' = Some n'"
        using kp_invD(3) [OF inv] e e' by metis
      moreover have "order_of e' \<le> order_of e" using mx e' by blast
      ultimately show ?thesis using e'(3) kp_invD(5) [OF inv e'(1) e(1)] by (auto simp: order_of_def le_less)
    qed
    show ?thesis
      using c current_valid [OF inv e, of now] e k less published_distinct [OF inv, of now] priv published_member [OF inv, of _ now]
      by auto
  qed simp
qed

theorem federation_key_set_sound_witness:
  "case currentKeySet 3000 example_rolled of
     Inl m \<Rightarrow> m = ''No active federation signing key available'' \<and> (\<forall>kid e. map_of (kp_keys example_rolled) kid = Some e \<longrightarrow> ke_state e \<noteq> Active)
   | Inr (s, ks) \<Rightarrow> validateFederationKeySet s ks = Inr ()"
  using federation_key_set_sound [OF example_provider_new example_rolled_run, of 3000] by (auto split: sum.splits)

text \<open>
  A switch of the active key is seamless. After it the new key signs, at every time; the previous signer's
  key stays published until its retirement time and not afterwards; and every other published key stays.
\<close>
lemma switch_active_key_seamless:
  assumes "MemoryFederationKeyProvider t0 initial = Inr P0" "key_run P0 P" "switchActiveKey now1 now2 kid r P = Inr P'"
  shows "\<exists>s ks e. currentKeySet now1 P = Inr (s, ks) \<and> map_of (kp_keys P) kid = Some e \<and> signer_kid s \<noteq> kid \<and>
    currentKeySet now P' = Inr (ke_signer e, published_keys now P') \<and> signer_kid (ke_signer e) = kid \<and>
    ke_publicJwk e \<in> set (published_keys now P') \<and>
    (\<forall>pe. map_of (kp_keys P) (signer_kid s) = Some pe \<longrightarrow>
       (ke_publicJwk pe \<in> set (published_keys now P') \<longleftrightarrow> now < retire_time now2 r)) \<and>
    (\<forall>kid' e'. map_of (kp_keys P) kid' = Some e' \<and> kid' \<noteq> signer_kid s \<and> is_published now e' \<longrightarrow>
       ke_publicJwk e' \<in> set (published_keys now P'))"
proof -
  have inv: "kp_inv P" using run_inv [OF assms(2) new_provider_inv [OF assms(1)]] .
  have inv': "kp_inv P'" using switch_inv [OF inv assms(3)] .
  obtain e prev pe ks where e: "map_of (kp_keys P) kid = Some e" "ke_state e = Published" "prev \<noteq> kid"
    "map_of (kp_keys P) prev = Some pe" "ke_state pe = Active" and c: "currentKeySet now1 P = Inr (ke_signer pe, ks)"
    and P': "P' = \<lparr>kp_keys = AList.update prev (retired (retire_time now2 r) pe)
      (AList.update kid (activated now2 (kp_activationOrder P) e) (kp_keys P)), kp_activationOrder = kp_activationOrder P + 1\<rparr>"
    using switch_shape [OF inv assms(3)] by metis
  have m: "map_of (kp_keys P') k = (if k = prev then Some (retired (retire_time now2 r) pe)
      else if k = kid then Some (activated now2 (kp_activationOrder P) e) else map_of (kp_keys P) k)" for k
    by (simp add: P')
  have ok: "signer_kid (ke_signer pe) = prev" "signer_kid (ke_signer e) = kid"
    using kp_invD(2) [OF inv e(4)] kp_invD(2) [OF inv e(1)] by (simp_all add: entry_ok_def)
  have new: "map_of (kp_keys P') kid = Some (activated now2 (kp_activationOrder P) e)" using m [of kid] e(3) by auto
  have "currentKeySet now P' = Inr (ke_signer e, published_keys now P')"
  proof -
    have older: "order_of e' < kp_activationOrder P" if "map_of (kp_keys P) k = Some e'" "ke_state e' = Active" for k e'
      using kp_invD(3,4) [OF inv] that unfolding order_of_def by fastforce
    have act: "ke_state (activated now2 (kp_activationOrder P) e) = Active" by (simp add: activated_def)
    obtain k' e' where k': "map_of (kp_keys P') k' = Some e'" "ke_state e' = Active"
      "\<forall>k'' e''. map_of (kp_keys P') k'' = Some e'' \<longrightarrow> ke_state e'' = Active \<longrightarrow> order_of e'' \<le> order_of e'"
      "currentKeySet now P' = Inr (ke_signer e', published_keys now P')"
      using currentKeySet_cases [OF inv', of now] new act by blast
    have "order_of (activated now2 (kp_activationOrder P) e) \<le> order_of e'" using k'(3) new act by blast
    then have "kp_activationOrder P \<le> order_of e'" by (simp add: activated_def order_of_def)
    then have "k' = kid" using k'(1,2) m [of k'] older by (fastforce simp: retired_def split: if_splits)
    then have "e' = activated now2 (kp_activationOrder P) e" using k'(1) new by simp
    then show ?thesis using k'(4) by (simp add: activated_def)
  qed
  moreover have "ke_publicJwk e \<in> set (published_keys now P')"
    using published_member [OF inv'] new by (fastforce simp: activated_def is_published_def)
  moreover have "ke_publicJwk pe \<in> set (published_keys now P') \<longleftrightarrow> now < retire_time now2 r"
  proof -
    have "ke_publicJwk pe \<in> set (published_keys now P') \<longleftrightarrow> is_published now (retired (retire_time now2 r) pe)"
    proof -
      have kid: "k = prev" if "map_of (kp_keys P') k = Some e'" "ke_publicJwk pe = ke_publicJwk e'" for k e'
        using kp_invD(2) [OF inv' that(1)] kp_invD(2) [OF inv e(4)] that(2) by (simp add: entry_ok_def)
      have prev: "map_of (kp_keys P') prev = Some (retired (retire_time now2 r) pe)" using m [of prev] by simp
      show ?thesis unfolding published_member [OF inv'] using kid prev by (force simp: retired_def)
    qed
    then show ?thesis by (simp add: is_published_def retired_def)
  qed
  moreover have "ke_publicJwk e' \<in> set (published_keys now P')"
    if "map_of (kp_keys P) k = Some e'" "k \<noteq> prev" "is_published now e'" for k e'
  proof (cases "k = kid")
    case True
    then show ?thesis using that e(1) \<open>ke_publicJwk e \<in> set (published_keys now P')\<close> by simp
  next
    case False
    then show ?thesis using published_member [OF inv'] m [of k] that by fastforce
  qed
  ultimately show ?thesis using c e ok
    by (intro exI [of _ "ke_signer pe"] exI [of _ ks] exI [of _ e]) auto
qed

lemma switch_active_key_seamless_witness:
  "\<exists>P' s ks e. switchActiveKey 3000 3000 ''k2'' None example_rolled = Inr P' \<and> currentKeySet 3000 example_rolled = Inr (s, ks) \<and>
     map_of (kp_keys example_rolled) ''k2'' = Some e \<and> currentKeySet 4000 P' = Inr (ke_signer e, published_keys 4000 P')"
proof -
  have "case switchActiveKey 3000 3000 ''k2'' None example_rolled of Inl _ \<Rightarrow> False | Inr _ \<Rightarrow> True" by code_simp
  then obtain P' where "switchActiveKey 3000 3000 ''k2'' None example_rolled = Inr P'" by (auto split: sum.splits)
  then show ?thesis using switch_active_key_seamless [OF example_provider_new example_rolled_run, of 3000 3000 "''k2''" None P' 4000] by blast
qed

text \<open>
  Nothing is forgotten. Whatever operations follow, every key of a provider stays in its history, once
  per key id, with the public part it had; and a revoked key is never published again.
\<close>
lemma key_history_kept:
  assumes "MemoryFederationKeyProvider t0 initial = Inr P0" "key_run P0 P" "key_run P P'" "map_of (kp_keys P) kid = Some e"
  shows "(\<exists>e'. map_of (kp_keys P') kid = Some e' \<and> ke_publicJwk e' = ke_publicJwk e \<and>
      mapHistoricalEntry (of_int \<lfloor>now / 1000\<rfloor>) e' \<in> set (getHistoricalFederationKeys now P')) \<and>
    length (getHistoricalFederationKeys now P') = card (dom (map_of (kp_keys P'))) \<and>
    (ke_state e = Revoked \<longrightarrow> ke_publicJwk e \<notin> set (published_keys now P'))"
proof -
  have inv: "kp_inv P" using run_inv [OF assms(2) new_provider_inv [OF assms(1)]] .
  have inv': "kp_inv P'" using run_inv [OF assms(3) inv] .
  obtain e' where e': "map_of (kp_keys P') kid = Some e'" "ke_publicJwk e' = ke_publicJwk e" "ke_state e = Revoked \<longrightarrow> ke_state e' = Revoked"
    using run_keeps [OF assms(3) inv assms(4)] by blast
  have "mapHistoricalEntry (of_int \<lfloor>now / 1000\<rfloor>) e' \<in> set (getHistoricalFederationKeys now P')"
    using map_of_SomeD [OF e'(1)] by (force simp: getHistoricalFederationKeys_def)
  moreover have "length (getHistoricalFederationKeys now P') = card (dom (map_of (kp_keys P')))"
    using distinct_card [OF kp_invD(1) [OF inv']] by (simp add: getHistoricalFederationKeys_def dom_map_of_conv_image_fst)
  moreover have "ke_publicJwk e \<notin> set (published_keys now P')" if "ke_state e = Revoked"
  proof
    assume "ke_publicJwk e \<in> set (published_keys now P')"
    then obtain k d where d: "map_of (kp_keys P') k = Some d" "is_published now d" "ke_publicJwk e = ke_publicJwk d"
      using published_member [OF inv'] by blast
    have "k = kid" using kp_invD(2) [OF inv' d(1)] kp_invD(2) [OF inv' e'(1)] d(3) e'(2) by (simp add: entry_ok_def)
    then show False using d e' that by (simp add: is_published_def)
  qed
  ultimately show ?thesis using e'(1,2) by blast
qed

lemma key_history_kept_witness:
  "\<exists>e'. map_of (kp_keys example_rolled) ''k1'' = Some e' \<and>
     mapHistoricalEntry (of_int \<lfloor>(5000 :: number) / 1000\<rfloor>) e' \<in> set (getHistoricalFederationKeys 5000 example_rolled)"
proof -
  have "map_of (kp_keys example_provider) ''k1'' \<noteq> None" by code_simp
  then obtain e where "map_of (kp_keys example_provider) ''k1'' = Some e" by auto
  then show ?thesis using key_history_kept [OF example_provider_new key_start example_rolled_run] by blast
qed

end
