(* ===== verification/Replay_Protection.thy ===== *)
theory Replay_Protection
  imports Trust_Marks
begin

text \<open>
  packages/core/src/replay-store.ts, memory-replay-store.ts and jose/client-auth.ts: one-time use of client
  assertions. \<open>replay_store\<close> is the interface of a store as a locale; the memory store interprets it, and
  the verifier of client assertions is proved against what the interface promises. A store is used at the time
  its clock gives.
\<close>

section \<open>Replay claims and stores\<close>

record replay_claim =
  cl_issuer :: jsval
  cl_audience :: string
  cl_jti :: string
  cl_expiresAt :: number

type_synonym use_result = "(string, bool) result" \<comment> \<open>\<open>Inl\<close> is a thrown error\<close>

text \<open>A sequence of uses, each at its time.\<close>

fun uses :: "(number \<Rightarrow> replay_claim \<Rightarrow> 's \<Rightarrow> use_result \<times> 's) \<Rightarrow> (number \<times> replay_claim) list \<Rightarrow> 's \<Rightarrow> 's" where
  "uses use [] s = s"
| "uses use ((now, c) # ops) s = uses use ops (snd (use now c s))"

definition same_claim :: "replay_claim \<Rightarrow> replay_claim \<Rightarrow> bool" where
  "same_claim c d \<longleftrightarrow> cl_issuer c = cl_issuer d \<and> cl_audience c = cl_audience d \<and> cl_jti c = cl_jti d"

locale replay_store =
  fixes use :: "number \<Rightarrow> replay_claim \<Rightarrow> 's \<Rightarrow> use_result \<times> 's"
    and live :: "'s \<Rightarrow> number \<Rightarrow> replay_claim \<Rightarrow> bool"
  assumes live_refused: "live s now c \<Longrightarrow> fst (use now c s) \<noteq> Inr True"
    and claimed_live: "use now c s = (Inr True, s') \<Longrightarrow> same_claim c d \<Longrightarrow> t < cl_expiresAt c \<Longrightarrow> live s' t d"
    and live_kept: "live s t d \<Longrightarrow> now \<le> t \<Longrightarrow> live (snd (use now c s)) t d"
begin

lemma live_kept_uses:
  "live s t d \<Longrightarrow> \<forall>(now, c) \<in> set ops. now \<le> t \<Longrightarrow> live (uses use ops s) t d"
proof (induction ops arbitrary: s)
  case (Cons op ops)
  then show ?case using live_kept by (cases op) auto
qed simp

lemma claimed_once:
  assumes "use now c s = (Inr True, s')" and "same_claim c d" and "later < cl_expiresAt c"
    and "\<forall>(t, _) \<in> set ops. t \<le> later"
  shows "fst (use later d (uses use ops s')) \<noteq> Inr True"
  using live_refused live_kept_uses [OF claimed_live [OF assms(1-3)]] assms(4) by blast

end

section \<open>JSON.stringify of an array of strings\<close>

definition escape_hex :: "nat \<Rightarrow> char" where
  "escape_hex n = (if n < 10 then char_of (48 + n) else char_of (87 + n))"

text \<open>The escape of one character: quote and backslash, the named controls, the other controls.\<close>

definition escape :: "char \<Rightarrow> string" where
  "escape c =
     (if c = CHR 0x22 then [CHR 0x5C, CHR 0x22]
      else if c = CHR 0x5C then [CHR 0x5C, CHR 0x5C]
      else if c = CHR 0x08 then [CHR 0x5C, CHR ''b'']
      else if c = CHR 0x0C then [CHR 0x5C, CHR ''f'']
      else if c = CHR 0x0A then [CHR 0x5C, CHR ''n'']
      else if c = CHR 0x0D then [CHR 0x5C, CHR ''r'']
      else if c = CHR 0x09 then [CHR 0x5C, CHR ''t'']
      else if (of_char c :: nat) < 32
        then [CHR 0x5C, CHR ''u'', CHR ''0'', CHR ''0'', escape_hex (of_char c div 16), escape_hex (of_char c mod 16)]
      else [c])"

definition stringify_string :: "string \<Rightarrow> string" where
  "stringify_string s = CHR 0x22 # concat (map escape s) @ [CHR 0x22]"

fun stringify :: "jsval \<Rightarrow> string" where
  "stringify (JStr s) = stringify_string s"
| "stringify v = js_string v"

definition replay_key :: "replay_claim \<Rightarrow> string" where
  "replay_key c =
     CHR 0x5B # stringify (cl_issuer c) @ CHR '','' # stringify_string (cl_audience c) @ CHR '','' #
       stringify_string (cl_jti c) @ [CHR 0x5D]"

section \<open>The memory store\<close>

type_synonym replay_entries = "number dict"

text \<open>The constructor: an empty store and its capacity, or the \<open>RangeError\<close> it throws.\<close>

definition MemoryReplayStore :: "number option \<Rightarrow> (string, replay_entries \<times> nat) result" where
  "MemoryReplayStore maxEntries =
     (let m = (case maxEntries of None \<Rightarrow> 10000 | Some n \<Rightarrow> n) in
      if \<not> is_safe_integer m \<or> m \<le> 0 then Inl ''maxEntries must be a positive safe integer''
      else Inr ([], nat \<lfloor>m\<rfloor>))"

definition removeExpired :: "number \<Rightarrow> replay_entries \<Rightarrow> replay_entries" where
  "removeExpired now store = filter (\<lambda>(key, expiresAt). \<not> expiresAt \<le> now) store"

definition validateClaim :: "replay_claim \<Rightarrow> string option" where
  "validateClaim c =
     (if \<not> truthy (cl_issuer c) \<or> cl_audience c = [] \<or> cl_jti c = []
      then Some ''issuer, audience, and jti must be non-empty strings'' else None)"

definition useJti :: "nat \<Rightarrow> number \<Rightarrow> replay_claim \<Rightarrow> replay_entries \<Rightarrow> use_result \<times> replay_entries" where
  "useJti maxEntries now c store =
     (case validateClaim c of
        Some e \<Rightarrow> (Inl e, store)
      | None \<Rightarrow>
          (let es = removeExpired now store; key = replay_key c in
           if map_of es key \<noteq> None then (Inr False, es)
           else if length es \<ge> maxEntries then
             (Inl (''Replay store capacity of '' @ show_nat maxEntries @ '' unexpired entries has been reached''), es)
           else (Inr True, AList.update key (cl_expiresAt c) es)))"

definition live_entry :: "replay_entries \<Rightarrow> number \<Rightarrow> replay_claim \<Rightarrow> bool" where
  "live_entry store t c \<longleftrightarrow> (\<exists>e. map_of store (replay_key c) = Some e \<and> t < e)"

definition replay_inv :: "nat \<Rightarrow> replay_entries \<Rightarrow> bool" where
  "replay_inv maxEntries store \<longleftrightarrow> distinct (map fst store) \<and> length store \<le> maxEntries"

lemma removeExpired_keeps: "map_of store key = Some e \<Longrightarrow> now < e \<Longrightarrow> map_of (removeExpired now store) key = Some e"
  unfolding removeExpired_def by (induction store) (auto split: if_splits)

lemma removeExpired_drops:
  "distinct (map fst store) \<Longrightarrow> map_of (removeExpired now store) key = Some e \<Longrightarrow> map_of store key = Some e \<and> now < e"
  unfolding removeExpired_def by (auto simp: map_of_filter_key split: option.splits if_splits)

lemma length_removeExpired [simp]: "length (removeExpired now store) \<le> length store"
  by (simp add: removeExpired_def)

lemma distinct_removeExpired [simp]: "distinct (map fst store) \<Longrightarrow> distinct (map fst (removeExpired now store))"
  by (simp add: removeExpired_def distinct_fst_filter)

lemma useJti_inv:
  assumes "replay_inv maxEntries s"
  shows "replay_inv maxEntries (snd (useJti maxEntries now c s))"
proof -
  have "length (removeExpired now s) \<le> maxEntries" "distinct (map fst (removeExpired now s))"
    using assms le_trans [OF length_removeExpired] by (simp_all add: replay_inv_def)
  then show ?thesis
    using assms by (auto simp: useJti_def replay_inv_def Let_def length_update split: option.splits)
qed

lemma same_claim_key: "same_claim c d \<Longrightarrow> replay_key c = replay_key d"
  by (simp add: same_claim_def replay_key_def)

interpretation memory_replay: replay_store "useJti maxEntries" live_entry for maxEntries
proof
  show "fst (useJti maxEntries now c s) \<noteq> Inr True" if "live_entry s now c" for s now c
    using that removeExpired_keeps by (fastforce simp: live_entry_def useJti_def Let_def split: option.splits)
  show "live_entry s' t d" if "useJti maxEntries now c s = (Inr True, s')" "same_claim c d" "t < cl_expiresAt c" for now c s s' d t
    using that same_claim_key [OF that(2)]
    by (auto simp: live_entry_def useJti_def Let_def split: option.splits if_splits)
  show "live_entry (snd (useJti maxEntries now c s)) t d" if l: "live_entry s t d" and n: "now \<le> t" for s t d now c
  proof -
    obtain e where e: "map_of s (replay_key d) = Some e" "t < e" using l unfolding live_entry_def by blast
    then have k: "map_of (removeExpired now s) (replay_key d) = Some e" using removeExpired_keeps n by simp
    then have "replay_key c \<noteq> replay_key d" if "map_of (removeExpired now s) (replay_key c) = None" using that by auto
    then show ?thesis using e k by (auto simp: live_entry_def useJti_def Let_def split: option.splits)
  qed
qed

section \<open>Distinct claims have distinct keys\<close>

text \<open>Reading one escaped character back.\<close>

definition hex_value :: "char \<Rightarrow> nat" where
  "hex_value c = (if (of_char c :: nat) < 58 then of_char c - 48 else of_char c - 87)"

fun unescape_one :: "string \<Rightarrow> (char \<times> string) option" where
  "unescape_one [] = None"
| "unescape_one (c # r) =
     (if c = CHR 0x22 then None
      else if c = CHR 0x5C then
        (case r of
           [] \<Rightarrow> None
         | d # r' \<Rightarrow>
             if d = CHR ''b'' then Some (CHR 0x08, r') else if d = CHR ''f'' then Some (CHR 0x0C, r')
             else if d = CHR ''n'' then Some (CHR 0x0A, r') else if d = CHR ''r'' then Some (CHR 0x0D, r')
             else if d = CHR ''t'' then Some (CHR 0x09, r')
             else if d = CHR ''u'' then Some (char_of (16 * hex_value (r' ! 2) + hex_value (r' ! 3)), drop 4 r')
             else Some (d, r'))
      else Some (c, r))"

lemma hex_round: "n < 16 \<Longrightarrow> hex_value (escape_hex n) = n"
  by (auto simp: hex_value_def escape_hex_def)

lemma unescape_escape: "unescape_one (escape c @ r) = Some (c, r)"
proof (cases "c \<in> {CHR 0x22, CHR 0x5C, CHR 0x08, CHR 0x0C, CHR 0x0A, CHR 0x0D, CHR 0x09}")
  case True
  then show ?thesis by (auto simp: escape_def)
next
  case False
  show ?thesis
  proof (cases "(of_char c :: nat) < 32")
    case True
    then have "16 * (of_char c div 16) + of_char c mod 16 = (of_char c :: nat)"
      "of_char c div 16 < (16 :: nat)" "of_char c mod 16 < (16 :: nat)" by auto
    then show ?thesis using False True by (simp add: escape_def hex_round)
  qed (use False in \<open>simp add: escape_def\<close>)
qed

lemma escaped_inject:
  "concat (map escape s) @ CHR 0x22 # r = concat (map escape s') @ CHR 0x22 # r' \<Longrightarrow> s = s' \<and> r = r'"
proof (induction s arbitrary: s')
  case Nil
  show ?case
  proof (cases s')
    case (Cons d t)
    have "unescape_one (CHR 0x22 # r) = Some (d, concat (map escape t) @ CHR 0x22 # r')"
      using unescape_escape [of d] Nil Cons by simp
    then show ?thesis by simp
  qed (use Nil in simp)
next
  case (Cons c s)
  note IH = Cons.IH and eq = Cons.prems
  let ?t = "\<lambda>x r. concat (map escape x) @ CHR 0x22 # r"
  have u: "unescape_one (?t (c # s) r) = Some (c, ?t s r)" using unescape_escape [of c] by simp
  have v: "unescape_one (?t s' r') = Some (c, ?t s r)" using u unfolding eq .
  then obtain d t where s': "s' = d # t" by (cases s') auto
  have "unescape_one (?t s' r') = Some (d, ?t t r')" using unescape_escape [of d] unfolding s' by simp
  then have "c = d" "?t s r = ?t t r'" using v by simp_all
  then show ?case using IH [of t] s' by blast
qed

lemma stringify_inject: "stringify_string s @ r = stringify_string s' @ r' \<Longrightarrow> s = s' \<and> r = r'"
  by (rule escaped_inject) (simp add: stringify_string_def)

lemma replay_key_inject:
  assumes "replay_key c = replay_key d" "is_str (cl_issuer c)" "is_str (cl_issuer d)"
  shows "same_claim c d"
proof -
  obtain i j where ij: "cl_issuer c = JStr i" "cl_issuer d = JStr j" using assms(2,3) by (cases "cl_issuer c"; cases "cl_issuer d") auto
  let ?t = "\<lambda>c. CHR '','' # stringify_string (cl_audience c) @ CHR '','' # stringify_string (cl_jti c) @ [CHR 0x5D]"
  have "stringify_string i @ ?t c = stringify_string j @ ?t d" using assms(1) ij by (simp add: replay_key_def)
  then have i: "i = j" "?t c = ?t d" using stringify_inject by blast+
  then have "stringify_string (cl_audience c) @ (CHR '','' # stringify_string (cl_jti c) @ [CHR 0x5D]) =
      stringify_string (cl_audience d) @ (CHR '','' # stringify_string (cl_jti d) @ [CHR 0x5D])" by simp
  then have a: "cl_audience c = cl_audience d"
    "stringify_string (cl_jti c) @ [CHR 0x5D] = stringify_string (cl_jti d) @ [CHR 0x5D]"
    using stringify_inject by blast+
  then have "cl_jti c = cl_jti d" using stringify_inject by blast
  then show ?thesis using i a ij by (simp add: same_claim_def)
qed

section \<open>Client assertions\<close>

record assertion_options =
  ao_skew :: "number option"
  ao_clock :: "number option"
  ao_allowedAlgorithms :: "string list option"

record verified_assertion =
  va_clientId :: jsval
  va_issuedAt :: "number option"
  va_expiresAt :: number
  va_jti :: string

definition invalid_client :: "string \<Rightarrow> fed_error" where
  "invalid_client d = mk_err ''invalid_client'' d"

text \<open>The checks on the verified payload up to the replay store.\<close>

definition check_assertion_audience :: "string \<Rightarrow> jsval \<Rightarrow> fed_error option" where
  "check_assertion_audience expectedAudience aud =
     (case aud of
        JStr a \<Rightarrow>
          if a \<noteq> expectedAudience
          then Some (invalid_client (''Invalid audience: expected '' @ quoted expectedAudience @ '', got '' @ quoted a)) else None
      | JArr as \<Rightarrow>
          if length as \<noteq> 1 \<or> \<not> strict_eq (as ! 0) (JStr expectedAudience)
          then Some (invalid_client (''Invalid audience: must contain only '' @ quoted expectedAudience @ '', got ['' @
                 join_with '', '' (map (\<lambda>a. quoted (js_string a)) as) @ '']'')) else None
      | _ \<Rightarrow> Some (invalid_client ''Missing or invalid 'aud' claim''))"

definition check_assertion_payload ::
  "jsval dict \<Rightarrow> string \<Rightarrow> number \<Rightarrow> number \<Rightarrow> (fed_error, number \<times> string) result" where
  "check_assertion_payload p expectedAudience now skew =
     (if \<not> truthy (pget p ''iss'') \<or> \<not> strict_eq (pget p ''iss'') (pget p ''sub'') then
        Inl (invalid_client (''Client assertion 'iss' must equal 'sub': iss='' @ quoted (js_string (pget p ''iss'')) @
               '', sub='' @ quoted (js_string (pget p ''sub''))))
      else
        (case check_assertion_audience expectedAudience (pget p ''aud'') of
           Some e \<Rightarrow> Inl e
         | None \<Rightarrow>
             (case (pget p ''exp'', pget p ''jti'') of
                (JNum e, JStr jti) \<Rightarrow>
                  if e + skew \<le> now \<or> jti = [] then Inl (invalid_client ''Client assertions require exp and jti'')
                  else
                    (case pget p ''iat'' of
                       JUndef \<Rightarrow> Inr (e, jti)
                     | JNum iat \<Rightarrow>
                         if iat > now + skew then Inl (invalid_client ''Invalid client assertion issuance time'') else Inr (e, jti)
                     | _ \<Rightarrow> Inl (invalid_client ''Invalid client assertion issuance time''))
              | _ \<Rightarrow> Inl (invalid_client ''Client assertions require exp and jti''))))"

definition claim_jti ::
  "(replay_claim \<Rightarrow> 's \<Rightarrow> use_result \<times> 's) \<Rightarrow> replay_claim \<Rightarrow> 's option \<Rightarrow> fed_error option \<times> 's option" where
  "claim_jti use claim store =
     (case store of
        None \<Rightarrow> (None, None)
      | Some s \<Rightarrow>
          (case use claim s of
             (Inr True, s') \<Rightarrow> (None, Some s')
           | (Inr False, s') \<Rightarrow> (Some (invalid_client ''Client assertion was already used''), Some s')
           | (Inl _, s') \<Rightarrow> (Some (mk_err ''server_error'' ''Client assertion replay storage failed''), Some s')))"

definition verifyClientAssertion ::
  "jose \<Rightarrow> number \<Rightarrow> (replay_claim \<Rightarrow> 's \<Rightarrow> use_result \<times> 's) \<Rightarrow> string \<Rightarrow> jsval \<Rightarrow> string \<Rightarrow> assertion_options \<Rightarrow> 's option \<Rightarrow>
   (fed_error, verified_assertion) result \<times> 's option"
where
  "verifyClientAssertion J sysnow use assertion jwks expectedAudience options store =
     (let skew = skew_of (ao_skew options); now = nowSeconds sysnow (ao_clock options) in
      case jose_header J assertion of
        Inl e \<Rightarrow> (Inl (signatureInvalid e), store)
      | Inr h \<Rightarrow>
        if pget h ''typ'' \<noteq> JUndef \<and> \<not> strict_eq (pget h ''typ'') (JStr ''JWT'') then
          (Inl (signatureInvalid (''Invalid typ header: expected 'JWT' or absent, got '' @ quoted (js_string (pget h ''typ'')))), store)
        else if \<not> isValidAlgorithm (pget h ''alg'') then
          (Inl (mk_err ''ERR_UNSUPPORTED_ALG'' (''Unsupported algorithm: '' @ quoted (js_string (pget h ''alg'')))), store)
        else if (case ao_allowedAlgorithms options of None \<Rightarrow> False | Some algs \<Rightarrow> \<not> in_strings algs (pget h ''alg'')) then
          (Inl (mk_err ''ERR_UNSUPPORTED_ALG''
                 (''Algorithm '' @ quoted (js_string (pget h ''alg'')) @ '' is not allowed for this endpoint'')), store)
        else
          (case selectVerificationKey h jwks of
             None \<Rightarrow> (Inl (signatureInvalid ''No matching key found in JWKS for verification''), store)
           | Some key \<Rightarrow>
               (case jose_verify J assertion key (pget h ''alg'') skew (ao_clock options) of
                  Inl e \<Rightarrow> (Inl (signatureInvalid e), store)
                | Inr p \<Rightarrow>
                    (case check_assertion_payload p expectedAudience now skew of
                       Inl e \<Rightarrow> (Inl e, store)
                     | Inr (expires, jti) \<Rightarrow>
                         (case claim_jti use \<lparr>cl_issuer = pget p ''iss'', cl_audience = expectedAudience, cl_jti = jti,
                                              cl_expiresAt = expires + skew\<rparr> store of
                            (Some e, store') \<Rightarrow> (Inl e, store')
                          | (None, store') \<Rightarrow>
                              (Inr \<lparr>va_clientId = pget p ''iss'',
                                    va_issuedAt = (case pget p ''iat'' of JNum iat \<Rightarrow> Some iat | _ \<Rightarrow> None),
                                    va_expiresAt = expires, va_jti = jti\<rparr>, store'))))))"

text \<open>What an accepted assertion has gone through.\<close>

lemma assertion_accepted:
  assumes "verifyClientAssertion J sysnow use a jwks aud options store = (Inr v, store')"
  shows "\<exists>h key p. jose_header J a = Inr h \<and> isValidAlgorithm (pget h ''alg'') \<and> selectVerificationKey h jwks = Some key \<and>
    jose_verify J a key (pget h ''alg'') (skew_of (ao_skew options)) (ao_clock options) = Inr p \<and>
    check_assertion_payload p aud (nowSeconds sysnow (ao_clock options)) (skew_of (ao_skew options)) = Inr (va_expiresAt v, va_jti v) \<and>
    va_clientId v = pget p ''iss'' \<and>
    claim_jti use \<lparr>cl_issuer = pget p ''iss'', cl_audience = aud, cl_jti = va_jti v,
      cl_expiresAt = va_expiresAt v + skew_of (ao_skew options)\<rparr> store = (None, store')"
  using assms by (auto simp: verifyClientAssertion_def Let_def split: sum.splits if_splits option.splits prod.splits)

lemma payload_fixes_claim:
  assumes "check_assertion_payload p aud now skew = Inr (e, jti)"
  shows "pget p ''exp'' = JNum e" "pget p ''jti'' = JStr jti" "now < e + skew"
    "truthy (pget p ''iss'')" "strict_eq (pget p ''iss'') (pget p ''sub'')" "check_assertion_audience aud (pget p ''aud'') = None"
  using assms by (auto simp: check_assertion_payload_def split: if_splits option.splits jsval.splits)

lemma claim_jti_None: "claim_jti use c (Some s) = (None, st') \<longleftrightarrow> (\<exists>s'. st' = Some s' \<and> use c s = (Inr True, s'))"
  by (auto simp: claim_jti_def split: prod.splits sum.splits bool.splits)

text \<open>
  C26: A client assertion is accepted at most once. After a verification with a memory replay store has
  accepted it, and after any other uses of the store up to then, no later verification for the same audience
  and with the same skew accepts it again, whatever keys, algorithms and clocks its options name. (The payload
  \<open>jwtVerify\<close> returns is the decoded payload of the token, and the store's clock is the verifier's.)
\<close>
theorem assertion_not_replayed:
  assumes payload: "\<forall>t k al s c p. jose_verify J t k al s c = Inr p \<longrightarrow> jose_payload J t = Inr p"
    and first: "verifyClientAssertion J sys1 (useJti maxEntries (nowSeconds sys1 (ao_clock o1))) a jwks1 aud o1 (Some s) = (Inr v, Some s1)"
    and skew: "skew_of (ao_skew o2) = skew_of (ao_skew o1)"
    and ops: "\<forall>(t, _) \<in> set ops. t \<le> nowSeconds sys2 (ao_clock o2)"
  shows "fst (verifyClientAssertion J sys2 (useJti maxEntries (nowSeconds sys2 (ao_clock o2))) a jwks2 aud o2
      (Some (uses (useJti maxEntries) ops s1))) \<noteq> Inr v'"
proof
  let ?now = "nowSeconds sys2 (ao_clock o2)" and ?s = "uses (useJti maxEntries) ops s1"
  assume "fst (verifyClientAssertion J sys2 (useJti maxEntries ?now) a jwks2 aud o2 (Some ?s)) = Inr v'"
  then obtain st where second: "verifyClientAssertion J sys2 (useJti maxEntries ?now) a jwks2 aud o2 (Some ?s) = (Inr v', st)"
    by (metis prod.collapse)
  obtain p where p: "jose_payload J a = Inr p" "pget p ''exp'' = JNum (va_expiresAt v)" "pget p ''jti'' = JStr (va_jti v)"
    and u1: "useJti maxEntries (nowSeconds sys1 (ao_clock o1)) \<lparr>cl_issuer = pget p ''iss'', cl_audience = aud, cl_jti = va_jti v,
      cl_expiresAt = va_expiresAt v + skew_of (ao_skew o1)\<rparr> s = (Inr True, s1)"
    using assertion_accepted [OF first] payload payload_fixes_claim(1,2) unfolding claim_jti_None by fastforce
  obtain p' where p': "jose_payload J a = Inr p'" "pget p' ''exp'' = JNum (va_expiresAt v')" "pget p' ''jti'' = JStr (va_jti v')"
    "?now < va_expiresAt v' + skew_of (ao_skew o2)"
    and u2: "fst (useJti maxEntries ?now \<lparr>cl_issuer = pget p' ''iss'', cl_audience = aud, cl_jti = va_jti v',
      cl_expiresAt = va_expiresAt v' + skew_of (ao_skew o2)\<rparr> ?s) = Inr True"
    using assertion_accepted [OF second] payload payload_fixes_claim(1-3) unfolding claim_jti_None by fastforce
  have same: "p' = p" "va_jti v' = va_jti v" "va_expiresAt v' = va_expiresAt v" using p p' by auto
  have "fst (useJti maxEntries ?now \<lparr>cl_issuer = pget p' ''iss'', cl_audience = aud, cl_jti = va_jti v',
      cl_expiresAt = va_expiresAt v' + skew_of (ao_skew o2)\<rparr> ?s) \<noteq> Inr True"
    by (rule memory_replay.claimed_once [OF u1 _ _ ops]) (use same p'(4) skew in \<open>simp_all add: same_claim_def\<close>)
  then show False using u2 by simp
qed

definition example_assertion_payload :: "jsval dict" where
  "example_assertion_payload = [(''iss'', JStr ''rp''), (''sub'', JStr ''rp''), (''aud'', JStr ''op''), (''exp'', JNum 300), (''jti'', JStr ''j'')]"

definition example_assertion_jose :: jose where
  "example_assertion_jose = (example_jose ''t'' example_assertion_payload)
     \<lparr>jose_header := (\<lambda>t. Inr [(''alg'', JStr ''ES256''), (''kid'', JStr ''k1'')])\<rparr>"

definition example_assertion_options :: assertion_options where
  "example_assertion_options = \<lparr>ao_skew = None, ao_clock = Some 100, ao_allowedAlgorithms = Some [''ES256'']\<rparr>"

definition example_assertion_store :: replay_entries where
  "example_assertion_store = [(replay_key \<lparr>cl_issuer = JStr ''rp'', cl_audience = ''op'', cl_jti = ''j'', cl_expiresAt = 360\<rparr>, 360)]"

lemma example_assertion_verified:
  "verifyClientAssertion example_assertion_jose 0 (useJti 5 (nowSeconds 0 (ao_clock example_assertion_options))) ''t'' example_jwks ''op''
     example_assertion_options (Some []) =
   (Inr \<lparr>va_clientId = JStr ''rp'', va_issuedAt = None, va_expiresAt = 300, va_jti = ''j''\<rparr>, Some example_assertion_store)"
  by code_simp

theorem assertion_not_replayed_witness:
  "fst (verifyClientAssertion example_assertion_jose 200 (useJti 5 (nowSeconds 200 None)) ''t'' example_jwks ''op''
     \<lparr>ao_skew = None, ao_clock = None, ao_allowedAlgorithms = None\<rparr> (Some (uses (useJti 5) [] example_assertion_store))) \<noteq>
   Inr \<lparr>va_clientId = JStr ''rp'', va_issuedAt = None, va_expiresAt = 300, va_jti = ''j''\<rparr>"
  using assertion_not_replayed [OF _ example_assertion_verified,
      of "\<lparr>ao_skew = None, ao_clock = None, ao_allowedAlgorithms = None\<rparr>" "[]" 200 example_jwks]
  by (simp add: example_assertion_jose_def example_jose_def example_assertion_options_def)

text \<open>
  The memory store is exact. On a store within its bounds a well-formed claim is granted exactly when no
  unexpired entry has its key and there is room among the unexpired entries; the bounds stay; and a claim with
  another issuer, audience or identifier is neither used up nor freed by it, since the keys of string claims
  are distinct.
\<close>
lemma replay_store_exact:
  assumes "replay_inv maxEntries s" "validateClaim c = None" "useJti maxEntries now c s = (r, s')"
  shows "(r = Inr True \<longleftrightarrow> \<not> live_entry s now c \<and> length (filter (\<lambda>(_, e). now < e) s) < maxEntries) \<and>
    replay_inv maxEntries s' \<and>
    (now \<le> t \<and> is_str (cl_issuer c) \<and> is_str (cl_issuer d) \<and> \<not> same_claim c d \<longrightarrow> live_entry s' t d = live_entry s t d)"
proof (intro conjI impI)
  let ?es = "removeExpired now s"
  have len: "length (filter (\<lambda>(_, e). now < e) s) = length ?es" by (simp add: removeExpired_def not_le)
  have dist: "distinct (map fst s)" using assms(1) by (simp add: replay_inv_def)
  have live: "live_entry s now c \<longleftrightarrow> map_of ?es (replay_key c) \<noteq> None" for c
    unfolding live_entry_def not_None_eq by (metis removeExpired_keeps removeExpired_drops [OF dist])
  show "r = Inr True \<longleftrightarrow> \<not> live_entry s now c \<and> length (filter (\<lambda>(_, e). now < e) s) < maxEntries"
    using assms(2,3) unfolding live len by (auto simp: useJti_def Let_def split: if_splits)
  show "replay_inv maxEntries s'" using useJti_inv [OF assms(1), of now c] assms(3) by simp
  assume d: "now \<le> t \<and> is_str (cl_issuer c) \<and> is_str (cl_issuer d) \<and> \<not> same_claim c d"
  then have "replay_key c \<noteq> replay_key d" using replay_key_inject by blast
  then have "map_of s' (replay_key d) = map_of ?es (replay_key d)"
    using assms(2,3) by (auto simp: useJti_def Let_def split: if_splits)
  moreover have "live_entry ?es t d = live_entry s t d"
    using removeExpired_keeps [of s "replay_key d" _ now] removeExpired_drops [OF dist, of now "replay_key d"] d
    unfolding live_entry_def by (meson order.strict_trans1)
  ultimately show "live_entry s' t d = live_entry s t d" by (simp add: live_entry_def)
qed

lemma replay_store_exact_witness:
  "replay_inv 5 example_assertion_store"
proof -
  have "useJti 5 100 \<lparr>cl_issuer = JStr ''rp'', cl_audience = ''op'', cl_jti = ''j'', cl_expiresAt = 360\<rparr> [] = (Inr True, example_assertion_store)"
    by code_simp
  moreover have "replay_inv 5 []" "validateClaim \<lparr>cl_issuer = JStr ''rp'', cl_audience = ''op'', cl_jti = ''j'', cl_expiresAt = 360\<rparr> = None"
    by (simp_all add: replay_inv_def validateClaim_def)
  ultimately show ?thesis using replay_store_exact by blast
qed

end
