(* ===== verification/Canonical_Json.thy ===== *)
theory Canonical_Json
  imports Replay_Protection
begin

text \<open>
  The function \<open>canonical\<close> of packages/authority/src/subordinate-lifecycle.ts, which prints a value so
  that two texts can be compared: members of an object in key order, undefined members left out.

  The text of a finite number, \<open>JSON.stringify(n)\<close>, is the argument \<open>number_text\<close>; \<open>number_text_ok\<close> says what
  is used of it: the texts are made of number characters and different numbers have different texts.
\<close>

section \<open>The printer\<close>

function canonical :: "(number \<Rightarrow> string) \<Rightarrow> jsval \<Rightarrow> string" where
  "canonical nt value =
     (case value of
        JArr xs \<Rightarrow> ''['' @ join_with '','' (map (canonical nt) xs) @ '']''
      | JObj kvs \<Rightarrow>
          ''{'' @ join_with '',''
            (map (\<lambda>(k, v). stringify_string k @ '':'' @ canonical nt v)
              (sort_key fst (filter (\<lambda>(k, v). v \<noteq> JUndef) kvs))) @ ''}''
      | JStr s \<Rightarrow> stringify_string s
      | JNum n \<Rightarrow> nt n
      | JBool b \<Rightarrow> (if b then ''true'' else ''false'')
      | JNull \<Rightarrow> ''null''
      | JUndef \<Rightarrow> ''undefined'')"
  by pat_completeness auto
termination
  by (relation "measure (\<lambda>(nt, v). size v)")
     (auto dest!: size_obj_elem dest: size_arr_elem)

declare canonical.simps [simp del]

definition number_text_ok :: "(number \<Rightarrow> string) \<Rightarrow> bool" where
  "number_text_ok nt \<longleftrightarrow> inj nt \<and> (\<forall>n. nt n \<noteq> [] \<and> set (nt n) \<subseteq> set ''0123456789+-.e'')"

section \<open>What the texts decide\<close>

text \<open>The normal form: the members of every object in key order.\<close>

function ordered :: "jsval \<Rightarrow> jsval" where
  "ordered value =
     (case value of
        JArr xs \<Rightarrow> JArr (map ordered xs)
      | JObj kvs \<Rightarrow> JObj (map (\<lambda>(k, v). (k, ordered v)) (sort_key fst kvs))
      | v \<Rightarrow> v)"
  by pat_completeness auto
termination
  by (relation "measure size") (auto dest!: size_obj_elem dest: size_arr_elem)

declare ordered.simps [simp del]

lemma canonical_simps:
  "canonical nt (JArr xs) = ''['' @ join_with '','' (map (canonical nt) xs) @ '']''"
  "canonical nt (JStr s) = stringify_string s" "canonical nt (JNum n) = nt n"
  "canonical nt (JBool b) = (if b then ''true'' else ''false'')"
  "canonical nt JNull = ''null''" "canonical nt JUndef = ''undefined''"
  by (subst canonical.simps; simp)+

lemma ordered_simps [simp]:
  "ordered (JArr xs) = JArr (map ordered xs)"
  "ordered (JObj kvs) = JObj (map (\<lambda>(k, v). (k, ordered v)) (sort_key fst kvs))"
  "ordered (JStr s) = JStr s" "ordered (JNum n) = JNum n" "ordered (JBool b) = JBool b"
  "ordered JNull = JNull" "ordered JUndef = JUndef"
  by (subst ordered.simps; simp)+

lemma plain_not_undef: "plain v \<Longrightarrow> v \<noteq> JUndef"
  by auto

lemma canonical_obj:
  assumes "plain (JObj kvs)"
  shows "canonical nt (JObj kvs) =
    ''{'' @ join_with '','' (map (\<lambda>(k, v). stringify_string k @ '':'' @ canonical nt v) (sort_key fst kvs)) @ ''}''"
proof -
  have "filter (\<lambda>(k, v). v \<noteq> JUndef) kvs = kvs"
    using assms by (auto simp: filter_id_conv list_all_iff)
  then show ?thesis by (subst canonical.simps) simp
qed

text \<open>A rest of text that no printed value continues into.\<close>

definition ends :: "string \<Rightarrow> bool" where
  "ends r \<longleftrightarrow> r = [] \<or> hd r \<in> {CHR '','', CHR '']'', CHR ''}''}"

lemma ends_simps [simp]: "ends []" "ends (CHR '','' # r)" "ends (CHR '']'' # r)" "ends (CHR ''}'' # r)"
  by (simp_all add: ends_def)

lemma number_text_split:
  assumes "number_text_ok nt" and "ends r" and "ends r'" and "nt m @ r = nt n @ r'"
  shows "m = n \<and> r = r'"
proof -
  define N where "N = set ''0123456789+-.e''"
  have nt: "set (nt k) \<subseteq> N" for k using assms(1) by (simp add: number_text_ok_def N_def)
  have close: "CHR '','' \<notin> N" "CHR '']'' \<notin> N" "CHR ''}'' \<notin> N" by (simp_all add: N_def)
  have "takeWhile (\<lambda>c. c \<in> N) (nt k @ t) = nt k" if "ends t" for k t
  proof -
    have "takeWhile (\<lambda>c. c \<in> N) t = []" using that close by (cases t) (auto simp: ends_def)
    then show ?thesis using nt [of k] by (simp add: takeWhile_append2 subset_iff)
  qed
  from this [OF assms(2), of m] this [OF assms(3), of n] assms(4) have "nt m = nt n" by simp
  with assms(1,4) show ?thesis by (auto simp: number_text_ok_def dest: injD)
qed

text \<open>The first character tells the kind of a value.\<close>

fun kind_char :: "jsval \<Rightarrow> char \<Rightarrow> bool" where
  "kind_char (JArr _) c = (c = CHR ''['')"
| "kind_char (JObj _) c = (c = CHR ''{'')"
| "kind_char (JStr _) c = (c = CHR 0x22)"
| "kind_char (JNum _) c = (c \<in> set ''0123456789+-.e'')"
| "kind_char (JBool b) c = (c = (if b then CHR ''t'' else CHR ''f''))"
| "kind_char JNull c = (c = CHR ''n'')"
| "kind_char JUndef c = (c = CHR ''u'')"

lemma canonical_first:
  assumes "number_text_ok nt"
  shows "\<exists>c t. canonical nt v = c # t \<and> kind_char v c"
proof (cases v)
  case (JNum n)
  with assms have "nt n \<noteq> []" "set (nt n) \<subseteq> set ''0123456789+-.e''" by (auto simp: number_text_ok_def)
  then obtain c t where "nt n = c # t" "c \<in> set ''0123456789+-.e''" by (cases "nt n") auto
  with JNum show ?thesis by (simp add: canonical_simps)
next
  case (JObj kvs)
  then show ?thesis by (subst canonical.simps) simp
qed (simp_all add: canonical_simps stringify_string_def)

lemma join_comma_Cons: "join_with '','' (w # ws) = w @ concat (map (\<lambda>v. CHR '','' # v) ws)"
  by (induction ws arbitrary: w) simp_all

text \<open>Printed lists: where the items can be told apart, so can the lists.\<close>

lemma tail_inject:
  assumes "\<And>x y r r'. x \<in> set xs \<Longrightarrow> y \<in> set ys \<Longrightarrow> ends r \<Longrightarrow> ends r' \<Longrightarrow> f x @ r = f y @ r' \<Longrightarrow>
      g x = g y \<and> r = r'"
    and "close \<in> {CHR '']'', CHR ''}''}"
    and "concat (map (\<lambda>x. CHR '','' # f x) xs) @ close # r = concat (map (\<lambda>x. CHR '','' # f x) ys) @ close # r'"
  shows "map g xs = map g ys \<and> r = r'"
  using assms
proof (induction xs arbitrary: ys)
  case Nil
  then show ?case by (cases ys) auto
next
  case (Cons x xs)
  then obtain y ys' where ys: "ys = y # ys'" by (cases ys) auto
  let ?rest = "\<lambda>zs r. concat (map (\<lambda>x. CHR '','' # f x) zs) @ close # r"
  have e: "ends (?rest zs r)" for zs r using Cons.prems(2) by (cases zs) auto
  have "f x @ ?rest xs r = f y @ ?rest ys' r'" using Cons.prems(3) ys by simp
  from Cons.prems(1) [OF _ _ e e this] ys have g: "g x = g y" and rest: "?rest xs r = ?rest ys' r'" by simp_all
  have "map g xs = map g ys' \<and> r = r'"
    by (rule Cons.IH [OF _ Cons.prems(2) rest]) (rule Cons.prems(1), auto simp: ys)
  with g ys show ?case by simp
qed

lemma join_inject:
  assumes inj: "\<And>x y r r'. x \<in> set xs \<Longrightarrow> y \<in> set ys \<Longrightarrow> ends r \<Longrightarrow> ends r' \<Longrightarrow> f x @ r = f y @ r' \<Longrightarrow>
      g x = g y \<and> r = r'"
    and first: "\<And>x. x \<in> set xs \<union> set ys \<Longrightarrow> f x \<noteq> [] \<and> hd (f x) \<noteq> close"
    and close: "close \<in> {CHR '']'', CHR ''}''}"
    and eq: "join_with '','' (map f xs) @ close # r = join_with '','' (map f ys) @ close # r'"
  shows "map g xs = map g ys \<and> r = r'"
proof (cases xs; cases ys)
  fix y ys' assume "xs = []" "ys = y # ys'"
  with eq first [of y] show ?thesis by (cases "f y") (auto simp: join_comma_Cons)
next
  fix x xs' assume "xs = x # xs'" "ys = []"
  with eq first [of x] show ?thesis by (cases "f x") (auto simp: join_comma_Cons)
next
  fix x xs' y ys' assume xs: "xs = x # xs'" "ys = y # ys'"
  then have "concat (map (\<lambda>x. CHR '','' # f x) xs) @ close # r = concat (map (\<lambda>x. CHR '','' # f x) ys) @ close # r'"
    using eq by (simp add: join_comma_Cons comp_def)
  from tail_inject [where f = f and g = g, OF inj close this] show ?thesis .
qed (use eq in simp)

lemma canonical_inject:
  assumes nt: "number_text_ok nt"
  shows "plain a \<Longrightarrow> plain b \<Longrightarrow> ends r \<Longrightarrow> ends r' \<Longrightarrow> canonical nt a @ r = canonical nt b @ r' \<Longrightarrow>
    ordered a = ordered b \<and> r = r'"
proof (induction a arbitrary: b r r' rule: measure_induct_rule [where f = size])
  case (less a)
  obtain c t where a: "canonical nt a = c # t" "kind_char a c" using canonical_first [OF nt] by blast
  moreover obtain d u where b: "canonical nt b = d # u" "kind_char b d" using canonical_first [OF nt] by blast
  moreover from a(1) b(1) less.prems(5) have "c = d" by simp
  ultimately have kind: "kind_char a c" "kind_char b c" by simp_all
  have first: "canonical nt v \<noteq> [] \<and> hd (canonical nt v) \<noteq> CHR '']''" if "plain v" for v
  proof -
    obtain c t where "canonical nt v = c # t" "kind_char v c" using canonical_first [OF nt] by blast
    with that show ?thesis by (cases v) auto
  qed
  show ?case
  proof (cases a)
    case (JArr xs)
    with kind obtain ys where ys: "b = JArr ys" by (cases b) (auto split: if_splits)
    have "map ordered xs = map ordered ys \<and> r = r'"
    proof (rule join_inject [where f = "canonical nt" and close = "CHR '']''"])
      fix x y s s'
      assume "x \<in> set xs" "y \<in> set ys" "ends s" "ends s'" "canonical nt x @ s = canonical nt y @ s'"
      with less.prems ys JArr size_arr_elem [of x xs] show "ordered x = ordered y \<and> s = s'"
        by (intro less.IH) (auto simp: list_all_iff)
    next
      show "canonical nt v \<noteq> [] \<and> hd (canonical nt v) \<noteq> CHR '']''" if "v \<in> set xs \<union> set ys" for v
        using that less.prems ys JArr by (intro first) (auto simp: list_all_iff)
    qed (use less.prems(5) ys JArr in \<open>simp_all add: canonical_simps\<close>)
    with ys JArr show ?thesis by simp
  next
    case (JObj kvs)
    with kind obtain lvs where lvs: "b = JObj lvs" by (cases b) (auto split: if_splits)
    let ?item = "\<lambda>(k, v). stringify_string k @ '':'' @ canonical nt v" and ?g = "\<lambda>(k, v). (k, ordered v)"
    have "map ?g (sort_key fst kvs) = map ?g (sort_key fst lvs) \<and> r = r'"
    proof (rule join_inject [where f = ?item and close = "CHR ''}''"])
      fix x y s s'
      assume x: "x \<in> set (sort_key fst kvs)" and y: "y \<in> set (sort_key fst lvs)" and e: "ends s" "ends s'"
        and eq: "?item x @ s = ?item y @ s'"
      obtain k v l w where kv: "x = (k, v)" "y = (l, w)" by (cases x; cases y)
      with eq have "stringify_string k @ ('':'' @ canonical nt v @ s) = stringify_string l @ ('':'' @ canonical nt w @ s')"
        by simp
      from stringify_inject [OF this] have kl: "k = l" and vw: "canonical nt v @ s = canonical nt w @ s'" by simp_all
      have "(k, v) \<in> set kvs" "(l, w) \<in> set lvs" using x y kv by simp_all
      with less.prems(1,2) JObj lvs size_obj_elem [of k v kvs] have "plain v" "plain w" "size v < size a"
        by (auto simp: list_all_iff)
      with e vw have "ordered v = ordered w \<and> s = s'" by (intro less.IH)
      with kl kv show "?g x = ?g y \<and> s = s'" by simp
    qed (use less.prems(1,2,5) lvs JObj in \<open>auto simp: canonical_obj stringify_string_def simp del: plain.simps\<close>)
    with lvs JObj show ?thesis by simp
  next
    case (JStr s)
    with kind obtain s' where b: "b = JStr s'" by (cases b) (auto split: if_splits)
    from less.prems(5) stringify_inject [of s r s' r'] show ?thesis unfolding JStr b canonical_simps by auto
  next
    case (JNum m)
    with kind obtain n where b: "b = JNum n" by (cases b) (auto split: if_splits)
    from less.prems(5) number_text_split [OF nt less.prems(3,4)] show ?thesis
      unfolding JNum b canonical_simps by auto
  next
    case (JBool x)
    with kind obtain y where b: "b = JBool y" by (cases b) (auto split: if_splits)
    from less.prems(5) show ?thesis unfolding JBool b canonical_simps by (auto split: if_splits)
  next
    case JNull
    with kind have b: "b = JNull" by (cases b) (auto split: if_splits)
    from less.prems(5) show ?thesis unfolding JNull b canonical_simps by auto
  next
    case JUndef
    with less.prems(1) show ?thesis by simp
  qed
qed

lemma insort_key_map: "insort_key fst (k, f k v) (map (\<lambda>(k, v). (k, f k v)) xs) =
    map (\<lambda>(k, v). (k, f k v)) (insort_key fst (k, v) xs)"
  by (induction xs) auto

lemma sort_key_map: "sort_key fst (map (\<lambda>(k, v). (k, f k v)) xs) = map (\<lambda>(k, v). (k, f k v)) (sort_key fst xs)"
  by (induction xs) (auto simp: insort_key_map)

lemma canonical_ordered:
  "plain a \<Longrightarrow> canonical nt (ordered a) = canonical nt a \<and> ordered a \<noteq> JUndef"
proof (induction a rule: measure_induct_rule [where f = size])
  case (less a)
  show ?case
  proof (cases a)
    case (JArr xs)
    have "canonical nt (ordered x) = canonical nt x" if "x \<in> set xs" for x
      using less.IH [of x] less.prems size_arr_elem [OF that] JArr that by (auto simp: list_all_iff)
    then show ?thesis unfolding JArr by (auto simp: canonical_simps intro!: arg_cong [where f = "join_with _"])
  next
    case (JObj kvs)
    let ?g = "\<lambda>(k, v). (k, ordered v)"
    have in_kvs: "canonical nt (ordered v) = canonical nt v \<and> ordered v \<noteq> JUndef \<and> v \<noteq> JUndef" if "(k, v) \<in> set kvs" for k v
      using less.IH [of v] less.prems size_obj_elem [OF that] JObj that by (auto simp: list_all_iff)
    have keep: "filter (\<lambda>(k, v). v \<noteq> JUndef) kvs = kvs" "filter (\<lambda>(k, v). v \<noteq> JUndef) (map ?g (sort_key fst kvs)) = map ?g (sort_key fst kvs)"
      using in_kvs by (auto simp: filter_id_conv)
    have sorted: "sort_key fst (map ?g (sort_key fst kvs)) = map ?g (sort_key fst kvs)"
      unfolding sort_key_map [where f = "\<lambda>_. ordered"] by (simp add: sort_key_id_if_sorted)
    have "canonical nt (ordered a) = ''{'' @ join_with '','' (map (\<lambda>(k, v). stringify_string k @ '':'' @ canonical nt v)
        (map ?g (sort_key fst kvs))) @ ''}''"
      unfolding JObj ordered_simps by (subst canonical.simps) (simp add: keep sorted)
    also have "map (\<lambda>(k, v). stringify_string k @ '':'' @ canonical nt v) (map ?g (sort_key fst kvs)) =
        map (\<lambda>(k, v). stringify_string k @ '':'' @ canonical nt v) (sort_key fst kvs)"
      using in_kvs by auto
    finally show ?thesis unfolding JObj by (subst (2) canonical.simps) (simp add: keep)
  qed (use less.prems in simp_all)
qed

text \<open>The comparison decides equality up to the order of members.\<close>

lemma canonical_decides:
  assumes "number_text_ok nt" and "plain a" and "plain b"
  shows "canonical nt a = canonical nt b \<longleftrightarrow> ordered a = ordered b"
proof
  assume "canonical nt a = canonical nt b"
  with canonical_inject [OF assms(1) assms(2,3), of "[]" "[]"] show "ordered a = ordered b" by simp
next
  assume "ordered a = ordered b"
  then show "canonical nt a = canonical nt b"
    using canonical_ordered [OF assms(2)] canonical_ordered [OF assms(3)] by metis
qed

lemma canonical_undef:
  assumes "number_text_ok nt" and "plain a"
  shows "canonical nt a \<noteq> canonical nt JUndef"
proof -
  obtain c t where "canonical nt a = c # t" "kind_char a c" using canonical_first [OF assms(1)] by blast
  with assms(2) show ?thesis by (cases a) (auto simp: canonical_simps)
qed

text \<open>Comparing two optional values: absent, or equal up to the order of members.\<close>

definition same_json :: "jsval \<Rightarrow> jsval \<Rightarrow> bool" where
  "same_json a b \<longleftrightarrow> (a = JUndef \<longleftrightarrow> b = JUndef) \<and> ordered a = ordered b"

lemma canonical_same:
  assumes "number_text_ok nt" and "a = JUndef \<or> plain a" and "b = JUndef \<or> plain b"
  shows "canonical nt a = canonical nt b \<longleftrightarrow> same_json a b"
  using assms(2,3) canonical_decides [OF assms(1), of a b] canonical_undef [OF assms(1), of a]
    canonical_undef [OF assms(1), of b] canonical_ordered [of a nt] canonical_ordered [of b nt]
  unfolding same_json_def by auto

section \<open>A text for every number\<close>

text \<open>An instance of \<open>number_text\<close> for the examples: numerator and denominator.\<close>

definition fraction_text :: "number \<Rightarrow> string" where
  "fraction_text q =
     (case quotient_of q of (n, d) \<Rightarrow>
        (if n < 0 then ''-'' else ''+'') @ show_nat (nat \<bar>n\<bar>) @ ''e'' @ show_nat (nat d))"

lemma show_nat_digit_chars: "set (show_nat n) \<subseteq> set ''0123456789''"
proof -
  define D where "D = set ''0123456789''"
  have digit: "char_of (48 + k) \<in> D" if "k < 10" for k :: nat
  proof -
    have "k \<in> {0, 1, 2, 3, 4, 5, 6, 7, 8, 9}" using that by auto
    then show ?thesis unfolding D_def by (elim insertE emptyE) (simp_all add: char_of_def bit_Suc_0_iff)
  qed
  have "set (show_nat n) \<subseteq> D"
  proof (induction n rule: show_nat.induct)
    case (1 n)
    then show ?case using digit [of n] digit [of "n mod 10"] by (subst show_nat.simps) simp
  qed
  then show ?thesis by (simp only: D_def)
qed

lemma fraction_text_inject: "fraction_text p = fraction_text q \<Longrightarrow> p = q"
proof -
  assume eq: "fraction_text p = fraction_text q"
  obtain a b c d where ab: "quotient_of p = (a, b)" and cd: "quotient_of q = (c, d)"
    by (cases "quotient_of p"; cases "quotient_of q")
  have no_e: "CHR ''e'' \<notin> set (show_nat n)" for n
    using show_nat_digit_chars [of n] by auto
  have signs: "(a < 0) = (c < 0)" and
    body: "show_nat (nat \<bar>a\<bar>) @ CHR ''e'' # show_nat (nat b) = show_nat (nat \<bar>c\<bar>) @ CHR ''e'' # show_nat (nat d)"
    using eq ab cd by (auto simp: fraction_text_def split: if_splits)
  from append_Cons_eq_iff [OF no_e no_e] body
  have "nat \<bar>a\<bar> = nat \<bar>c\<bar>" "nat b = nat d" by auto
  moreover have "0 < b" "0 < d" using quotient_of_denom_pos ab cd by auto
  ultimately have "(a, b) = (c, d)" using signs by auto
  with ab cd show "p = q" by (metis quotient_of_inject)
qed

lemma fraction_text_ok: "number_text_ok fraction_text"
  unfolding number_text_ok_def
proof (intro conjI allI)
  show "inj fraction_text" by (rule injI) (rule fraction_text_inject)
  fix n
  show "fraction_text n \<noteq> []" by (simp add: fraction_text_def split: prod.splits)
  define N where "N = set ''0123456789+-.e''"
  have "set ''0123456789'' \<subseteq> N" by (simp add: N_def)
  then have "set (show_nat k) \<subseteq> N" for k using show_nat_digit_chars [of k] by (rule subset_trans [rotated])
  moreover have "CHR ''e'' \<in> N" "CHR ''+'' \<in> N" "CHR ''-'' \<in> N" by (simp_all add: N_def)
  ultimately have "set (fraction_text n) \<subseteq> N" by (cases "quotient_of n") (simp add: fraction_text_def)
  then show "set (fraction_text n) \<subseteq> set ''0123456789+-.e''" by (simp only: N_def)
qed

end
