(* ===== verification/Statement_Shape.thy ===== *)
theory Statement_Shape
  imports Statement_Checks
begin

text \<open>
  packages/authority/src/utils/subordinate-statement-shape.ts and errors.ts: the rules for what an
  authority may put into a Subordinate Statement, and the sanitizer that strips from metadata what
  only the subordinate itself may publish.

  The three later sections show that the sanitizer removes the operational fields and nothing else,
  that it may be applied any number of times, and that a payload which passes the shape assertions
  passes the corresponding checks of a reader of the statement.
\<close>

section \<open>Errors\<close>

text \<open>The error classes of errors.ts, and the plain \<open>Error\<close>, \<open>TypeError\<close> and \<open>RangeError\<close> that
  storage throws (\<open>Thrown\<close>, with the message), and the error of a zod \<open>parse\<close>.\<close>

datatype authority_error =
    InvalidAuthorityConfig string
  | InvalidSubordinateRecord string
  | InvalidSubordinateStatementShape "string list"
  | InvalidMetadata string
  | Thrown string
  | ZodError

definition double_quoted :: "string \<Rightarrow> string" where
  "double_quoted s = CHR 0x22 # s @ [CHR 0x22]"

fun message :: "authority_error \<Rightarrow> string" where
  "message (InvalidAuthorityConfig m) = m"
| "message (InvalidSubordinateRecord m) = m"
| "message (InvalidSubordinateStatementShape claims) =
     ''Subordinate Statement payload must not contain top-level claims that belong only to an Entity Configuration: '' @
     join_with '', '' claims"
| "message (InvalidMetadata path) =
     ''metadata values must not be null; null found at path '' @ double_quoted path @ ''. Omit the field instead.''"
| "message (Thrown m) = m"
| "message ZodError = []"

section \<open>Operational fields and the sanitizer\<close>

definition FEDERATION_ENTITY_OPERATIONAL_FIELDS :: "string list" where
  "FEDERATION_ENTITY_OPERATIONAL_FIELDS =
     [''federation_collection_endpoint'',
      ''federation_collection_endpoint_auth_methods'',
      ''federation_subordinate_events_endpoint'',
      ''federation_subordinate_events_endpoint_auth_methods'',
      ''federation_extended_list_endpoint'',
      ''federation_extended_list_endpoint_auth_methods'',
      ''federation_fetch_endpoint'',
      ''federation_fetch_endpoint_auth_methods'',
      ''federation_historical_keys_endpoint'',
      ''federation_historical_keys_endpoint_auth_methods'',
      ''federation_list_endpoint'',
      ''federation_list_endpoint_auth_methods'',
      ''federation_resolve_endpoint'',
      ''federation_resolve_endpoint_auth_methods'',
      ''federation_trust_mark_endpoint'',
      ''federation_trust_mark_endpoint_auth_methods'',
      ''federation_trust_mark_list_endpoint'',
      ''federation_trust_mark_list_endpoint_auth_methods'',
      ''federation_trust_mark_status_endpoint'',
      ''federation_trust_mark_status_endpoint_auth_methods'',
      ''endpoint_auth_signing_alg_values_supported'']"

definition isFederationEntityOperationalField :: "string \<Rightarrow> bool" where
  "isFederationEntityOperationalField key \<longleftrightarrow> key \<in> set FEDERATION_ENTITY_OPERATIONAL_FIELDS"

definition SUBORDINATE_STATEMENT_FORBIDDEN_TOP_LEVEL_CLAIMS :: "string list" where
  "SUBORDINATE_STATEMENT_FORBIDDEN_TOP_LEVEL_CLAIMS =
     [''authority_hints'', ''trust_anchor_hints'', ''trust_marks'', ''trust_mark_issuers'',
      ''trust_mark_owners'', ''aud'', ''trust_anchor'']"

text \<open>The body of the loop over the entity types. \<open>result[entityType] = claims\<close> writes a property;
  the inner loop copies the members that stay.\<close>

definition sanitize_entry :: "string \<times> jsval \<Rightarrow> jsval dict \<Rightarrow> jsval dict" where
  "sanitize_entry = (\<lambda>(entityType, claims) result.
     if entityType \<noteq> ''federation_entity'' then AList.update entityType claims result
     else
       (case claims of
          JObj members \<Rightarrow>
            (let filtered = fold (\<lambda>(k, v) out. if isFederationEntityOperationalField k then out
                                               else AList.update k v out) members [] in
             if length filtered > 0 then AList.update entityType (JObj filtered) result else result)
        | _ \<Rightarrow> AList.update entityType claims result))"

definition sanitizeSubordinateMetadata :: "jsval \<Rightarrow> jsval" where
  "sanitizeSubordinateMetadata md =
     (case md of
        JObj types \<Rightarrow>
          (let result = fold sanitize_entry types [] in
           if length result > 0 then JObj result else JUndef)
      | _ \<Rightarrow> JUndef)"

section \<open>Shape assertions\<close>

definition assertSubordinateStatementShape :: "jsval dict \<Rightarrow> (authority_error, unit) result" where
  "assertSubordinateStatementShape p =
     (let offenders = filter (\<lambda>claim. claim \<in> fst ` set p) SUBORDINATE_STATEMENT_FORBIDDEN_TOP_LEVEL_CLAIMS in
      if length offenders > 0 then Inl (InvalidSubordinateStatementShape offenders) else Inr ())"

text \<open>The loop over the entries of a \<open>crit\<close> array; \<open>seen\<close> is the set of names met so far.\<close>

fun crit_violations :: "jsval dict \<Rightarrow> string list \<Rightarrow> jsval list \<Rightarrow> string list" where
  "crit_violations p seen [] = []"
| "crit_violations p seen (name # names) =
     (case name of
        JStr c \<Rightarrow>
          if c \<in> set seen then (''crit duplicate: '' @ c) # crit_violations p seen names
          else if c \<in> set STANDARD_ENTITY_STATEMENT_CLAIMS
          then (''crit cannot list spec-defined claim: '' @ c) # crit_violations p (c # seen) names
          else if c \<notin> fst ` set p
          then (''crit references missing claim: '' @ c) # crit_violations p (c # seen) names
          else crit_violations p (c # seen) names
      | _ \<Rightarrow> ''crit (entries must be strings)'' # crit_violations p seen names)"

definition assertCritShape :: "jsval dict \<Rightarrow> (authority_error, unit) result" where
  "assertCritShape p =
     (if ''crit'' \<notin> fst ` set p then Inr ()
      else
        (case pget p ''crit'' of
           JArr crit \<Rightarrow>
             if length crit = 0
             then Inl (InvalidSubordinateStatementShape [''crit (must not be the empty array)''])
             else
               (let violations = crit_violations p [] crit in
                if length violations > 0 then Inl (InvalidSubordinateStatementShape violations) else Inr ())
         | _ \<Rightarrow> Inl (InvalidSubordinateStatementShape [''crit (must be an array of strings)''])))"

fun policy_crit_violations :: "string list \<Rightarrow> jsval list \<Rightarrow> string list" where
  "policy_crit_violations seen [] = []"
| "policy_crit_violations seen (name # names) =
     (case name of
        JStr c \<Rightarrow>
          if c \<in> set seen then (''metadata_policy_crit duplicate: '' @ c) # policy_crit_violations seen names
          else if c \<in> set STANDARD_OPERATOR_NAMES
          then (''metadata_policy_crit cannot list standard operator: '' @ c) # policy_crit_violations (c # seen) names
          else policy_crit_violations (c # seen) names
      | _ \<Rightarrow> ''metadata_policy_crit (entries must be strings)'' # policy_crit_violations seen names)"

definition assertMetadataPolicyCritShape :: "jsval dict \<Rightarrow> (authority_error, unit) result" where
  "assertMetadataPolicyCritShape p =
     (if ''metadata_policy_crit'' \<notin> fst ` set p then Inr ()
      else
        (case pget p ''metadata_policy_crit'' of
           JArr list \<Rightarrow>
             if length list = 0
             then Inl (InvalidSubordinateStatementShape [''metadata_policy_crit (must not be the empty array)''])
             else
               (let violations = policy_crit_violations [] list in
                if length violations > 0 then Inl (InvalidSubordinateStatementShape violations) else Inr ())
         | _ \<Rightarrow> Inl (InvalidSubordinateStatementShape [''metadata_policy_crit (must be an array of strings)''])))"

definition assertMetadataPolicyShape :: "jsval dict \<Rightarrow> (authority_error, unit) result" where
  "assertMetadataPolicyShape p =
     (if ''metadata_policy'' \<notin> fst ` set p then Inr ()
      else if \<not> is_obj (pget p ''metadata_policy'')
      then Inl (InvalidSubordinateStatementShape [''metadata_policy (must be a JSON object)''])
      else Inr ())"

fun render_component :: "path_item \<Rightarrow> string \<Rightarrow> string" where
  "render_component (Idx i) prefix = prefix @ ''['' @ show_nat i @ '']''"
| "render_component (Key k) prefix = (if prefix \<noteq> [] then prefix @ ''.'' @ k else k)"

definition assertMetadataValuesNotNull :: "jsval \<Rightarrow> (authority_error, unit) result" where
  "assertMetadataValuesNotNull md =
     (if md = JUndef then Inr ()
      else if \<not> is_obj md then Inr ()
      else
        (case findInvalidMetadataNullPaths md of
           [] \<Rightarrow> Inr ()
         | invalid # _ \<Rightarrow>
             (let path = fold render_component invalid [] in
              Inl (InvalidMetadata (if path \<noteq> [] then path else ''<root>'')))))"

section \<open>What the sanitizer keeps\<close>

lemma fold_filter_copy:
  assumes "distinct (map fst kvs)" and "fst ` set kvs \<inter> fst ` set acc = {}"
  shows "fold (\<lambda>(k, v) out. if P k then out else AList.update k v out) kvs acc =
         acc @ filter (\<lambda>kv. \<not> P (fst kv)) kvs"
  using assms
proof (induction kvs arbitrary: acc)
  case (Cons kv kvs)
  obtain k v where kv: "kv = (k, v)" by (cases kv)
  have fresh: "k \<notin> fst ` set acc" using Cons.prems kv by auto
  show ?case
  proof (cases "P k")
    case True
    with kv Cons show ?thesis by auto
  next
    case False
    have "fold (\<lambda>(k, v) out. if P k then out else AList.update k v out) kvs (acc @ [(k, v)]) =
        (acc @ [(k, v)]) @ filter (\<lambda>kv. \<not> P (fst kv)) kvs"
      by (rule Cons.IH) (use Cons.prems kv in auto)
    with False kv show ?thesis by (simp add: update_absent [OF fresh])
  qed
qed simp

text \<open>What the loop leaves of one entity type: nothing, or one entry.\<close>

definition operational_free :: "jsval dict \<Rightarrow> jsval dict" where
  "operational_free kvs = filter (\<lambda>kv. \<not> isFederationEntityOperationalField (fst kv)) kvs"

definition cleaned :: "string \<times> jsval \<Rightarrow> jsval dict" where
  "cleaned e =
     (case e of (entityType, JObj members) \<Rightarrow>
        if entityType \<noteq> ''federation_entity'' then [e]
        else if operational_free members = [] then [] else [(entityType, JObj (operational_free members))]
      | _ \<Rightarrow> [e])"

lemma cleaned_key: "x \<in> set (cleaned e) \<Longrightarrow> fst x = fst e"
  by (cases e) (auto simp: cleaned_def split: jsval.splits if_splits)

lemma cleaned_disjoint: "fst e \<notin> K \<Longrightarrow> fst ` set (cleaned e) \<inter> K = {}"
  by (auto dest!: cleaned_key)

lemma sanitize_entry_cleaned:
  assumes "plain (snd e)" and "fst e \<notin> fst ` set acc"
  shows "sanitize_entry e acc = acc @ cleaned e"
proof -
  obtain et c where e: "e = (et, c)" by (cases e)
  show ?thesis
  proof (cases c)
    case (JObj members)
    with assms e have "distinct (map fst members)" by simp
    from fold_filter_copy [OF this, of "[]" isFederationEntityOperationalField] assms e JObj show ?thesis
      by (auto simp: sanitize_entry_def cleaned_def operational_free_def update_absent)
  qed (use assms e in \<open>auto simp: sanitize_entry_def cleaned_def update_absent\<close>)
qed

lemma fold_sanitize_entry:
  assumes "distinct (map fst types)" and "list_all (\<lambda>kv. plain (snd kv)) types"
    and "fst ` set types \<inter> fst ` set acc = {}"
  shows "fold sanitize_entry types acc = acc @ concat (map cleaned types)"
  using assms
proof (induction types arbitrary: acc)
  case (Cons e types)
  have "sanitize_entry e acc = acc @ cleaned e"
    by (rule sanitize_entry_cleaned) (use Cons.prems in auto)
  moreover have "fold sanitize_entry types (acc @ cleaned e) = (acc @ cleaned e) @ concat (map cleaned types)"
  proof (rule Cons.IH)
    show "fst ` set types \<inter> fst ` set (acc @ cleaned e) = {}"
      using Cons.prems cleaned_disjoint [of e "fst ` set types"] by (auto simp: image_Un Int_Un_distrib)
  qed (use Cons.prems in auto)
  ultimately show ?case by simp
qed simp

lemma sanitize_plain:
  assumes "plain (JObj types)"
  shows "sanitizeSubordinateMetadata (JObj types) =
    (if concat (map cleaned types) = [] then JUndef else JObj (concat (map cleaned types)))"
  using fold_sanitize_entry [of types "[]"] assms
  by (simp add: sanitizeSubordinateMetadata_def Let_def)

lemma keys_concat_cleaned: "fst ` set (concat (map cleaned types)) \<subseteq> fst ` set types"
  by (induction types) (auto dest!: cleaned_key)

lemma distinct_concat_cleaned:
  "distinct (map fst types) \<Longrightarrow> distinct (map fst (concat (map cleaned types)))"
proof (induction types)
  case (Cons e types)
  have "distinct (map fst (cleaned e))"
    by (cases e) (auto simp: cleaned_def split: jsval.splits)
  moreover have "fst ` set (cleaned e) \<inter> fst ` set (concat (map cleaned types)) = {}"
    by (rule cleaned_disjoint) (use Cons.prems keys_concat_cleaned [of types] in auto)
  ultimately show ?case using Cons by simp
qed simp

lemma plain_cleaned: "plain (snd e) \<Longrightarrow> list_all (\<lambda>kv. plain (snd kv)) (cleaned e)"
  by (cases e; cases "snd e")
     (auto simp: cleaned_def operational_free_def list_all_iff intro: distinct_fst_filter)

lemma cleaned_idem: "x \<in> set (cleaned e) \<Longrightarrow> cleaned x = [x]"
  by (cases e; cases "snd e") (auto simp: cleaned_def operational_free_def split: if_splits)

lemma concat_map_singletons: "(\<And>x. x \<in> set xs \<Longrightarrow> f x = [x]) \<Longrightarrow> concat (map f xs) = xs"
  by (induction xs) auto

lemma concat_cleaned_idem:
  "concat (map cleaned (concat (map cleaned types))) = concat (map cleaned types)"
  by (rule concat_map_singletons) (auto dest: cleaned_idem)

lemma plain_concat_cleaned:
  "plain (JObj types) \<Longrightarrow> plain (JObj (concat (map cleaned types)))"
  using distinct_concat_cleaned [of types] plain_cleaned by (fastforce simp: list_all_iff)

lemma map_of_operational_free:
  "map_of (operational_free kvs) k = (if isFederationEntityOperationalField k then None else map_of kvs k)"
  by (induction kvs) (auto simp: operational_free_def)

lemma map_of_concat_cleaned:
  "distinct (map fst types) \<Longrightarrow>
   map_of (concat (map cleaned types)) et =
     (case map_of types et of None \<Rightarrow> None | Some c \<Rightarrow> map_of (cleaned (et, c)) et)"
proof (induction types)
  case (Cons e types)
  have other: "map_of (concat (map cleaned types)) et = None" if "et = fst e"
    using that Cons.prems keys_concat_cleaned [of types] by (auto simp: map_of_eq_None_iff)
  have none: "map_of (cleaned e) et = None" if "et \<noteq> fst e"
    using that by (auto simp: map_of_eq_None_iff dest!: cleaned_key)
  show ?case
    using Cons other none by (cases e) (auto simp: map_add_def split: option.splits)
qed simp

section \<open>Properties\<close>

lemma sanitized_metadata_parts:
  assumes "plain (JObj types)"
  defines "r \<equiv> sanitizeSubordinateMetadata (JObj types)"
  shows "et \<noteq> ''federation_entity'' \<Longrightarrow> mget r et = pget types et"
    and "mget (mget r ''federation_entity'') k =
      (if isFederationEntityOperationalField k then JUndef else mget (pget types ''federation_entity'') k)"
    and "sanitizeSubordinateMetadata r = r" and "r = JUndef \<or> plain r"
proof -
  have d: "distinct (map fst types)" using assms(1) by simp
  have r': "mget r et = pget (concat (map cleaned types)) et" for et
    using sanitize_plain [OF assms(1)] by (simp add: r_def pget_def del: concat_eq_Nil_conv)
  have r: "mget r et = (case map_of types et of None \<Rightarrow> JUndef | Some c \<Rightarrow> pget (cleaned (et, c)) et)" for et
    using map_of_concat_cleaned [OF d, of et] unfolding r' by (simp add: pget_def split: option.splits)
  show "mget r et = pget types et" if "et \<noteq> ''federation_entity''" for et
    using that by (simp add: r) (auto simp: pget_def cleaned_def split: option.splits jsval.splits)
  show "mget (mget r ''federation_entity'') k =
      (if isFederationEntityOperationalField k then JUndef else mget (pget types ''federation_entity'') k)" for k
  proof (cases "map_of types ''federation_entity''")
    case (Some c)
    show ?thesis
    proof (cases c)
      case (JObj members)
      have "mget (pget (cleaned (''federation_entity'', c)) ''federation_entity'') k = pget (operational_free members) k"
        using JObj by (simp add: cleaned_def pget_def)
      with Some JObj show ?thesis
        unfolding r by (simp add: pget_def map_of_operational_free)
    qed (use Some in \<open>simp_all add: r cleaned_def pget_def\<close>)
  qed (simp add: r pget_def)
  show "sanitizeSubordinateMetadata r = r"
    using sanitize_plain [OF assms(1)] sanitize_plain [OF plain_concat_cleaned [OF assms(1)]]
    unfolding r_def concat_cleaned_idem by (auto simp: sanitizeSubordinateMetadata_def)
  show "r = JUndef \<or> plain r"
    using sanitize_plain [OF assms(1)] plain_concat_cleaned [OF assms(1)] unfolding r_def by (auto simp del: plain.simps)
qed

text \<open>
  The sanitizer strips exactly the operational fields of the \<open>federation_entity\<close> block: every other
  entity type and every other member of that block reads the same before and after, no operational field
  is left, and sanitizing a second time changes nothing, so the copy that is stored and the copy that is
  signed agree.
\<close>
lemma sanitizer_strips_operational_fields:
  assumes "plain (JObj types)"
  shows "let r = sanitizeSubordinateMetadata (JObj types) in
    (\<forall>et. et \<noteq> ''federation_entity'' \<longrightarrow> mget r et = pget types et) \<and>
    (\<forall>k. mget (mget r ''federation_entity'') k =
       (if isFederationEntityOperationalField k then JUndef else mget (pget types ''federation_entity'') k)) \<and>
    sanitizeSubordinateMetadata r = r \<and> (r = JUndef \<or> plain r)"
  using sanitized_metadata_parts [OF assms] unfolding Let_def by blast

lemma sanitizer_strips_operational_fields_witness:
  "let r = sanitizeSubordinateMetadata (JObj [(''federation_entity'',
       JObj [(''federation_fetch_endpoint'', JStr ''https://a/fetch''), (''contacts'', JNum 1)])]) in
   mget (mget r ''federation_entity'') ''contacts'' = JNum 1 \<and>
   mget (mget r ''federation_entity'') ''federation_fetch_endpoint'' = JUndef"
proof -
  have "plain (JObj [(''federation_entity'',
       JObj [(''federation_fetch_endpoint'', JStr ''https://a/fetch''), (''contacts'', JNum 1)])])" by simp
  from sanitizer_strips_operational_fields [OF this] show ?thesis
    unfolding Let_def
    by (simp add: isFederationEntityOperationalField_def FEDERATION_ENTITY_OPERATIONAL_FIELDS_def pget_def)
qed

section \<open>Asserted shapes and the reader's checks\<close>

lemma crit_violations_Nil:
  "crit_violations p seen names = [] \<longleftrightarrow>
     (\<exists>cs. names = map JStr cs \<and> distinct cs \<and> set cs \<inter> set seen = {} \<and>
        (\<forall>c \<in> set cs. c \<notin> set STANDARD_ENTITY_STATEMENT_CLAIMS \<and> c \<in> fst ` set p))"
proof (induction names arbitrary: seen)
  case (Cons name names)
  show ?case
  proof (cases name)
    case (JStr c)
    have "crit_violations p seen (name # names) = [] \<longleftrightarrow>
        (c \<notin> set seen \<and> c \<notin> set STANDARD_ENTITY_STATEMENT_CLAIMS \<and> c \<in> fst ` set p) \<and>
        crit_violations p (c # seen) names = []"
      using JStr by simp
    also have "\<dots> \<longleftrightarrow> (\<exists>cs. names = map JStr cs \<and> distinct (c # cs) \<and> set (c # cs) \<inter> set seen = {} \<and>
        (\<forall>c \<in> set (c # cs). c \<notin> set STANDARD_ENTITY_STATEMENT_CLAIMS \<and> c \<in> fst ` set p))"
      unfolding Cons.IH [of "c # seen"] by auto
    also have "\<dots> \<longleftrightarrow> (\<exists>ds. (\<exists>cs. ds = c # cs \<and> names = map JStr cs) \<and> distinct ds \<and> set ds \<inter> set seen = {} \<and>
        (\<forall>c \<in> set ds. c \<notin> set STANDARD_ENTITY_STATEMENT_CLAIMS \<and> c \<in> fst ` set p))"
      by blast
    also have "(\<lambda>ds. \<exists>cs. ds = c # cs \<and> names = map JStr cs) = (\<lambda>ds. name # names = map JStr ds)"
      using JStr by (auto simp: Cons_eq_map_conv fun_eq_iff)
    finally show ?thesis .
  qed (auto simp: Cons_eq_map_conv)
qed simp

lemma crit_duplicates_distinct:
  "distinct cs \<Longrightarrow> set cs \<inter> set seen = {} \<Longrightarrow> crit_duplicates j (map JStr seen) (map JStr cs) = []"
proof (induction cs arbitrary: seen)
  case (Cons c cs)
  then have "crit_duplicates j (map JStr (c # seen)) (map JStr cs) = []"
    by (intro Cons.IH) auto
  with Cons.prems show ?case by (auto simp: list_ex_iff)
qed simp

text \<open>A clean \<open>crit\<close> array passes the check of every reader that understands the listed claims.\<close>

lemma clean_crit_read:
  assumes "pget p ''crit'' = JArr crit" and "crit_violations p [] crit = []" and "\<forall>x \<in> set crit. in_strings understood x"
  shows "check_crit understood p j = []"
proof -
  obtain cs where cs: "crit = map JStr cs" "distinct cs"
    "\<forall>c \<in> set cs. c \<notin> set STANDARD_ENTITY_STATEMENT_CLAIMS \<and> c \<in> fst ` set p"
    using assms(2) unfolding crit_violations_Nil by blast
  have "crit_duplicates j [] crit = []" using crit_duplicates_distinct [of cs "[]" j] cs by simp
  moreover have "check_crit_claim understood p j (JStr c) = []" if "c \<in> set cs" for c
    using that cs assms(3) by (auto simp: check_crit_claim_def in_strings_def)
  ultimately show ?thesis using assms(1) cs(1) by (auto simp: check_crit_def)
qed

lemma asserted_crit_read:
  assumes "assertCritShape p = Inr ()" and "\<forall>x \<in> set (items (pget p ''crit'')). in_strings understood x"
  shows "check_crit understood p j = []"
proof (cases "pget p ''crit''")
  case (JArr crit)
  then have "''crit'' \<in> fst ` set p" by (metis image_eqI fst_conv pget_not_undef jsval.distinct(9))
  with assms(1) JArr have "crit_violations p [] crit = []"
    by (auto simp: assertCritShape_def Let_def split: if_splits)
  with JArr assms(2) show ?thesis by (intro clean_crit_read) simp_all
qed (simp_all add: check_crit_def)

text \<open>A payload without forbidden claims passes the reader's placement and registration checks.\<close>

lemma asserted_shape_read:
  assumes "assertSubordinateStatementShape p = Inr ()"
  shows "\<forall>c \<in> set ecOnlyClaims. pget p c = JUndef" and "check_registration_claims options p j = []"
proof -
  have "c \<notin> fst ` set p" if "c \<in> set SUBORDINATE_STATEMENT_FORBIDDEN_TOP_LEVEL_CLAIMS" for c
    using assms that
    by (auto simp: assertSubordinateStatementShape_def Let_def filter_empty_conv split: if_splits)
  then have none: "pget p c = JUndef" if "c \<in> set SUBORDINATE_STATEMENT_FORBIDDEN_TOP_LEVEL_CLAIMS" for c
    using that by (simp add: pget_def map_of_eq_None_iff split: option.splits)
      (metis map_of_eq_None_iff option.distinct(1))
  then show "\<forall>c \<in> set ecOnlyClaims. pget p c = JUndef" "check_registration_claims options p j = []"
    by (simp_all add: ecOnlyClaims_def check_registration_claims_def SUBORDINATE_STATEMENT_FORBIDDEN_TOP_LEVEL_CLAIMS_def)
qed

text \<open>The null assertion accepts exactly the metadata in which the reader's null search finds nothing.\<close>

lemma asserted_nulls:
  "is_obj md \<Longrightarrow> assertMetadataValuesNotNull md = Inr () \<longleftrightarrow> findInvalidMetadataNullPaths md = []"
  by (auto simp: assertMetadataValuesNotNull_def Let_def split: list.splits)

end
