(* ===== verification/Authority_Storage.thy ===== *)
theory Authority_Storage
  imports Statement_Shape
begin

text \<open>
  packages/authority/src/storage/types.ts and memory.ts: the records an authority keeps about its
  subordinates, the trust marks it issued and the events of its subordinates, and the operations of
  the in-memory adapter on them.

  An operation that mutates is a function from the state to an error or the next state: each of them
  throws before it writes. \<open>detached\<close> copies a value so that callers do not share it; values are not
  shared here, so it is the identity. The clock is an argument of the operations that read it.
\<close>

section \<open>Records\<close>

text \<open>\<open>SubordinateRecord\<close>; an absent optional member is \<open>JUndef\<close> or \<open>None\<close>.\<close>

record subordinate_record =
  sr_entityId :: string
  sr_jwks :: jsval
  sr_metadata :: jsval
  sr_metadataPolicy :: jsval
  sr_constraints :: jsval
  sr_entityTypes :: "string list option"
  sr_isIntermediate :: "bool option"
  sr_sourceEndpoint :: "string option"
  sr_crit :: "string list option"
  sr_metadataPolicyCrit :: "string list option"
  sr_createdAt :: number
  sr_updatedAt :: number

text \<open>\<open>SubordinateRecordUpdate\<close>: a partial object, where a member is there (\<open>Some\<close>, even with the
  value \<open>undefined\<close>) or not.\<close>

record subordinate_update =
  su_jwks :: "jsval option"
  su_metadata :: "jsval option"
  su_metadataPolicy :: "jsval option"
  su_constraints :: "jsval option"
  su_entityTypes :: "string list option option"
  su_isIntermediate :: "bool option option"
  su_sourceEndpoint :: "string option option"
  su_crit :: "string list option option"
  su_metadataPolicyCrit :: "string list option option"

record trust_mark_record =
  tr_type :: string
  tr_subject :: string
  tr_jwt :: string
  tr_issuedAt :: number
  tr_expiresAt :: "number option"
  tr_active :: bool
  tr_revokedAt :: "number option"

datatype mark_types = OneType string | AnyType "string list"

record list_filter =
  lf_entityTypes :: "string list option"
  lf_trustMarked :: "bool option"
  lf_trustMarkType :: "mark_types option"
  lf_intermediate :: "bool option"
  lf_validAt :: "number option"

record page_options =
  po_cursor :: "string option"
  po_limit :: "number option"
  po_updatedAfter :: "number option"
  po_updatedBefore :: "number option"

text \<open>\<open>ListPage\<close> and \<open>TrustMarkListPage\<close>.\<close>

record 'r list_page =
  lp_items :: "'r list"
  lp_nextCursor :: "string option"

record trust_mark_list_options =
  tl_subject :: "string option"
  tl_cursor :: "string option"
  tl_limit :: number

record memory_state =
  st_subordinateEvents :: "jsval list dict dict option"
  st_subordinates :: "subordinate_record dict"
  st_trustMarks :: "trust_mark_record dict option"

section \<open>Arrays\<close>

text \<open>\<open>xs.slice(0, q)\<close> truncates \<open>q\<close> towards zero and counts a negative end from the back;
  \<open>xs[q]\<close> is \<open>undefined\<close> unless \<open>q\<close> is an index.\<close>

definition js_slice_to :: "number \<Rightarrow> 'a list \<Rightarrow> 'a list" where
  "js_slice_to q xs =
     (let n = (if 0 \<le> q then \<lfloor>q\<rfloor> else - \<lfloor>- q\<rfloor>) in
      if 0 \<le> n then take (nat n) xs else take (length xs - nat (- n)) xs)"

definition js_index :: "'a list \<Rightarrow> number \<Rightarrow> 'a option" where
  "js_index xs q = (if is_integer q \<and> 0 \<le> q \<and> nat \<lfloor>q\<rfloor> < length xs then Some (xs ! nat \<lfloor>q\<rfloor>) else None)"

text \<open>\<open>xs.sort(compare)\<close>, which is stable; \<open>before a b\<close> is \<open>compare(a, b) < 0\<close>.\<close>

fun insert_by :: "('a \<Rightarrow> 'a \<Rightarrow> bool) \<Rightarrow> 'a \<Rightarrow> 'a list \<Rightarrow> 'a list" where
  "insert_by before x [] = [x]"
| "insert_by before x (y # ys) = (if before y x then y # insert_by before x ys else x # y # ys)"

definition sort_by :: "('a \<Rightarrow> 'a \<Rightarrow> bool) \<Rightarrow> 'a list \<Rightarrow> 'a list" where
  "sort_by before xs = foldr (insert_by before) xs []"

definition compareStrings :: "string \<Rightarrow> string \<Rightarrow> number" where
  "compareStrings left right = (if left < right then - 1 else if left > right then 1 else 0)"

section \<open>Subordinates\<close>

definition validateSubordinateRecord :: "subordinate_record \<Rightarrow> (authority_error, unit) result" where
  "validateSubordinateRecord r =
     (let md = sr_metadata r in
      if \<not> truthy md then Inr ()
      else
        (let fed = mget md ''federation_entity'';
             offenders = (if is_obj fed then filter isFederationEntityOperationalField (map fst (entries fed)) else [])
         in if length offenders > 0
            then Inl (InvalidSubordinateRecord
              (''SubordinateRecord.metadata.federation_entity must not carry operational fields '' @
               ''(these belong only in the subordinate'' @ [CHR 0x27] @ ''s own Entity Configuration). '' @
               ''Offending field(s): '' @ join_with '', '' offenders @
               ''. Apply TrustAnchor.sanitizeSubordinateMetadata or Intermediate.sanitizeSubordinateMetadata before calling add().''))
            else
              (case assertMetadataValuesNotNull md of
                 Inl (InvalidMetadata path) \<Rightarrow>
                   Inl (InvalidSubordinateRecord
                     (''SubordinateRecord.metadata has a null leaf value: '' @ message (InvalidMetadata path)))
               | Inl e \<Rightarrow> Inl e
               | Inr _ \<Rightarrow> Inr ())))"

definition isValidTrustMark :: "trust_mark_record \<Rightarrow> number \<Rightarrow> bool" where
  "isValidTrustMark r validAt \<longleftrightarrow>
     tr_active r \<and> (case tr_expiresAt r of None \<Rightarrow> True | Some e \<Rightarrow> e > validAt)"

definition get_subordinate :: "memory_state \<Rightarrow> string \<Rightarrow> subordinate_record option" where
  "get_subordinate st eid = map_of (st_subordinates st) eid"

definition matches_types :: "list_filter \<Rightarrow> subordinate_record \<Rightarrow> bool" where
  "matches_types f r =
     (case lf_entityTypes f of
        None \<Rightarrow> True
      | Some [] \<Rightarrow> True
      | Some ts \<Rightarrow> (case sr_entityTypes r of None \<Rightarrow> False | Some us \<Rightarrow> list_ex (\<lambda>t. t \<in> set ts) us))"

definition matches_intermediate :: "list_filter \<Rightarrow> subordinate_record \<Rightarrow> bool" where
  "matches_intermediate f r =
     (case lf_intermediate f of
        None \<Rightarrow> True
      | Some b \<Rightarrow> (case sr_isIntermediate r of None \<Rightarrow> False | Some c \<Rightarrow> c) = b)"

fun requested_types :: "mark_types option \<Rightarrow> string list option" where
  "requested_types None = None"
| "requested_types (Some (OneType t)) = Some [t]"
| "requested_types (Some (AnyType ts)) = Some ts"

definition has_mark :: "trust_mark_record dict \<Rightarrow> mark_types option \<Rightarrow> number \<Rightarrow> subordinate_record \<Rightarrow> bool" where
  "has_mark marks types validAt r =
     list_ex (\<lambda>(_, mark). tr_subject mark = sr_entityId r \<and>
       (case requested_types types of None \<Rightarrow> True | Some ts \<Rightarrow> tr_type mark \<in> set ts) \<and>
       isValidTrustMark mark validAt) marks"

text \<open>The filter on trust marks: which records stay, or the error.\<close>

definition mark_filter :: "memory_state \<Rightarrow> list_filter \<Rightarrow> (authority_error, subordinate_record \<Rightarrow> bool) result" where
  "mark_filter st f =
     (if lf_trustMarked f = Some True \<or> lf_trustMarkType f \<noteq> None then
        (case lf_validAt f of
           None \<Rightarrow> Inl (Thrown ''validAt is required for trust mark filters'')
         | Some validAt \<Rightarrow>
             (case st_trustMarks st of
                None \<Rightarrow> Inl (Thrown ''Trust mark filtering is not supported by this adapter'')
              | Some marks \<Rightarrow> Inr (has_mark marks (lf_trustMarkType f) validAt)))
      else Inr (\<lambda>_. True))"

definition within_dates :: "page_options \<Rightarrow> subordinate_record \<Rightarrow> bool" where
  "within_dates opts r \<longleftrightarrow>
     (case po_updatedAfter opts of None \<Rightarrow> True | Some t \<Rightarrow> sr_updatedAt r \<ge> t) \<and>
     (case po_updatedBefore opts of None \<Rightarrow> True | Some t \<Rightarrow> sr_updatedAt r \<le> t)"

definition from_cursor :: "('r \<Rightarrow> string) \<Rightarrow> string option \<Rightarrow> 'r list \<Rightarrow> 'r list" where
  "from_cursor key cursor rs = (case cursor of None \<Rightarrow> rs | Some c \<Rightarrow> filter (\<lambda>r. key r \<ge> c) rs)"

text \<open>The end of \<open>list\<close> and of \<open>listValid\<close>: one page of the records that are left.\<close>

definition page_of :: "('r \<Rightarrow> string) \<Rightarrow> number \<Rightarrow> 'r list \<Rightarrow> 'r list_page" where
  "page_of key limit rs =
     (if of_nat (length rs) > limit
      then (case js_index rs limit of
              Some next \<Rightarrow> \<lparr>lp_items = js_slice_to limit rs, lp_nextCursor = Some (key next)\<rparr>
            | None \<Rightarrow> \<lparr>lp_items = js_slice_to limit rs, lp_nextCursor = None\<rparr>)
      else \<lparr>lp_items = rs, lp_nextCursor = None\<rparr>)"

definition list_subordinates ::
  "memory_state \<Rightarrow> list_filter \<Rightarrow> page_options \<Rightarrow> (authority_error, subordinate_record list_page) result"
where
  "list_subordinates st f opts =
     (let results = filter (matches_intermediate f) (filter (matches_types f) (map snd (st_subordinates st))) in
      case mark_filter st f of
        Inl e \<Rightarrow> Inl e
      | Inr marked \<Rightarrow>
          (let results = filter (within_dates opts) (filter marked results);
               results = sort_by (\<lambda>a b. compareStrings (sr_entityId a) (sr_entityId b) < 0) results;
               results = from_cursor sr_entityId (po_cursor opts) results
           in Inr (case po_limit opts of
                     Some limit \<Rightarrow> page_of sr_entityId limit results
                   | None \<Rightarrow> \<lparr>lp_items = results, lp_nextCursor = None\<rparr>)))"

definition add_subordinate :: "subordinate_record \<Rightarrow> memory_state \<Rightarrow> (authority_error, memory_state) result" where
  "add_subordinate r st =
     (case validateSubordinateRecord r of
        Inl e \<Rightarrow> Inl e
      | Inr _ \<Rightarrow>
          if map_of (st_subordinates st) (sr_entityId r) \<noteq> None
          then Inl (Thrown (''Subordinate '' @ quoted (sr_entityId r) @ '' already exists''))
          else Inr (st\<lparr>st_subordinates := AList.update (sr_entityId r) r (st_subordinates st)\<rparr>))"

text \<open>The spread \<open>{...existing, ...updates}\<close>: a member of \<open>updates\<close> wins when it is there.\<close>

definition given :: "'a option \<Rightarrow> 'a \<Rightarrow> 'a" where
  "given u v = (case u of Some w \<Rightarrow> w | None \<Rightarrow> v)"

definition updated_record :: "number \<Rightarrow> subordinate_record \<Rightarrow> subordinate_update \<Rightarrow> subordinate_record" where
  "updated_record now existing u =
     \<lparr>sr_entityId = sr_entityId existing,
      sr_jwks = given (su_jwks u) (sr_jwks existing),
      sr_metadata = given (su_metadata u) (sr_metadata existing),
      sr_metadataPolicy = given (su_metadataPolicy u) (sr_metadataPolicy existing),
      sr_constraints = given (su_constraints u) (sr_constraints existing),
      sr_entityTypes = given (su_entityTypes u) (sr_entityTypes existing),
      sr_isIntermediate = given (su_isIntermediate u) (sr_isIntermediate existing),
      sr_sourceEndpoint = given (su_sourceEndpoint u) (sr_sourceEndpoint existing),
      sr_crit = given (su_crit u) (sr_crit existing),
      sr_metadataPolicyCrit = given (su_metadataPolicyCrit u) (sr_metadataPolicyCrit existing),
      sr_createdAt = sr_createdAt existing,
      sr_updatedAt = now\<rparr>"

definition subordinate_not_found :: "string \<Rightarrow> authority_error" where
  "subordinate_not_found eid = Thrown (''Subordinate '' @ quoted eid @ '' not found'')"

definition update_subordinate ::
  "number \<Rightarrow> string \<Rightarrow> subordinate_update \<Rightarrow> memory_state \<Rightarrow> (authority_error, memory_state) result"
where
  "update_subordinate now eid updates st =
     (case map_of (st_subordinates st) eid of
        None \<Rightarrow> Inl (subordinate_not_found eid)
      | Some existing \<Rightarrow>
          (let updated = updated_record now existing updates in
           case validateSubordinateRecord updated of
             Inl e \<Rightarrow> Inl e
           | Inr _ \<Rightarrow> Inr (st\<lparr>st_subordinates := AList.update eid updated (st_subordinates st)\<rparr>)))"

definition remove_subordinate :: "string \<Rightarrow> memory_state \<Rightarrow> (authority_error, memory_state) result" where
  "remove_subordinate eid st =
     (if map_of (st_subordinates st) eid = None then Inl (subordinate_not_found eid)
      else Inr (st\<lparr>st_subordinates := AList.delete eid (st_subordinates st)\<rparr>))"

section \<open>Trust marks\<close>

definition isNewerTrustMark :: "trust_mark_record \<Rightarrow> trust_mark_record \<Rightarrow> bool" where
  "isNewerTrustMark candidate current \<longleftrightarrow>
     tr_issuedAt candidate > tr_issuedAt current \<or>
     (tr_issuedAt candidate = tr_issuedAt current \<and> compareStrings (tr_jwt candidate) (tr_jwt current) > 0)"

text \<open>The loop shared by \<open>latestBySubject\<close> and \<open>listValidForSubject\<close>.\<close>

definition keep_newest :: "(trust_mark_record \<Rightarrow> string) \<Rightarrow> trust_mark_record \<Rightarrow> trust_mark_record dict \<Rightarrow> trust_mark_record dict" where
  "keep_newest key r latest =
     (case map_of latest (key r) of
        None \<Rightarrow> AList.update (key r) r latest
      | Some existing \<Rightarrow> if isNewerTrustMark r existing then AList.update (key r) r latest else latest)"

definition latestBySubject :: "trust_mark_record list \<Rightarrow> trust_mark_record list" where
  "latestBySubject rs = map snd (fold (keep_newest tr_subject) rs [])"

definition marks_disabled :: authority_error where
  "marks_disabled = Thrown ''Trust mark storage is not enabled''"

definition mark_records :: "memory_state \<Rightarrow> (authority_error, trust_mark_record dict) result" where
  "mark_records st = (case st_trustMarks st of None \<Rightarrow> Inl marks_disabled | Some ms \<Rightarrow> Inr ms)"

definition compare_marks :: "trust_mark_record \<Rightarrow> trust_mark_record \<Rightarrow> number" where
  "compare_marks a b =
     (if tr_issuedAt a = tr_issuedAt b then compareStrings (tr_jwt b) (tr_jwt a) else tr_issuedAt b - tr_issuedAt a)"

definition getValid ::
  "memory_state \<Rightarrow> string \<Rightarrow> string \<Rightarrow> number \<Rightarrow> (authority_error, trust_mark_record option) result"
where
  "getValid st trustMarkType subject validAt =
     (case mark_records st of
        Inl e \<Rightarrow> Inl e
      | Inr ms \<Rightarrow>
          (let records = sort_by (\<lambda>a b. compare_marks a b < 0)
                 (filter (\<lambda>r. tr_type r = trustMarkType \<and> tr_subject r = subject \<and> isValidTrustMark r validAt)
                   (map snd ms))
           in Inr (case records of [] \<Rightarrow> None | r # _ \<Rightarrow> Some r)))"

definition getByJwt :: "memory_state \<Rightarrow> string \<Rightarrow> (authority_error, trust_mark_record option) result" where
  "getByJwt st jwt = (case mark_records st of Inl e \<Rightarrow> Inl e | Inr ms \<Rightarrow> Inr (map_of ms jwt))"

definition listValid ::
  "memory_state \<Rightarrow> string \<Rightarrow> number \<Rightarrow> trust_mark_list_options \<Rightarrow> (authority_error, trust_mark_record list_page) result"
where
  "listValid st trustMarkType validAt opts =
     (if \<not> is_safe_integer (tl_limit opts) \<or> tl_limit opts \<le> 0
      then Inl (Thrown ''limit must be a positive safe integer'')
      else
        (case mark_records st of
           Inl e \<Rightarrow> Inl e
         | Inr ms \<Rightarrow>
             (let records = sort_by (\<lambda>a b. compareStrings (tr_subject a) (tr_subject b) < 0)
                    (latestBySubject
                      (filter (\<lambda>r. tr_type r = trustMarkType \<and>
                                   (case tl_subject opts of None \<Rightarrow> True | Some s \<Rightarrow> tr_subject r = s) \<and>
                                   isValidTrustMark r validAt)
                        (map snd ms)));
                  records = from_cursor tr_subject (tl_cursor opts) records
              in Inr (page_of tr_subject (tl_limit opts) records))))"

definition listValidForSubject ::
  "memory_state \<Rightarrow> string \<Rightarrow> number \<Rightarrow> (authority_error, trust_mark_record list) result"
where
  "listValidForSubject st subject validAt =
     (case mark_records st of
        Inl e \<Rightarrow> Inl e
      | Inr ms \<Rightarrow>
          (let records = filter (\<lambda>r. tr_subject r = subject \<and> isValidTrustMark r validAt) (map snd ms);
               latest = fold (keep_newest tr_type) records []
           in Inr (sort_by (\<lambda>a b. compareStrings (tr_type a) (tr_type b) < 0) (map snd latest))))"

definition hasAnyValid :: "memory_state \<Rightarrow> string \<Rightarrow> number \<Rightarrow> (authority_error, bool) result" where
  "hasAnyValid st subject validAt =
     (case mark_records st of
        Inl e \<Rightarrow> Inl e
      | Inr ms \<Rightarrow> Inr (list_ex (\<lambda>(_, r). tr_subject r = subject \<and> isValidTrustMark r validAt) ms))"

definition issue :: "trust_mark_record \<Rightarrow> memory_state \<Rightarrow> (authority_error, memory_state) result" where
  "issue r st =
     (case mark_records st of
        Inl e \<Rightarrow> Inl e
      | Inr ms \<Rightarrow>
          if map_of ms (tr_jwt r) = None
          then Inr (st\<lparr>st_trustMarks := Some (AList.update (tr_jwt r) r ms)\<rparr>) else Inr st)"

text \<open>The loop of \<open>revoke\<close> writes only keys that are there, so it visits every entry once.\<close>

definition to_revoke :: "string \<Rightarrow> string \<Rightarrow> trust_mark_record \<Rightarrow> bool" where
  "to_revoke trustMarkType subject r \<longleftrightarrow> tr_type r = trustMarkType \<and> tr_subject r = subject \<and> tr_active r"

definition revoke :: "string \<Rightarrow> string \<Rightarrow> number \<Rightarrow> memory_state \<Rightarrow> (authority_error, memory_state) result" where
  "revoke trustMarkType subject revokedAt st =
     (case mark_records st of
        Inl e \<Rightarrow> Inl e
      | Inr ms \<Rightarrow>
          (let ms' = map (\<lambda>(jwt, r). if to_revoke trustMarkType subject r
                           then (jwt, r\<lparr>tr_active := False, tr_revokedAt := Some revokedAt\<rparr>) else (jwt, r)) ms;
               found = list_ex (\<lambda>(_, r). to_revoke trustMarkType subject r) ms
           in if \<not> found
              then Inl (Thrown (''Trust mark '' @ quoted trustMarkType @ '' for '' @ quoted subject @ '' not found''))
              else Inr (st\<lparr>st_trustMarks := Some ms'\<rparr>)))"

section \<open>Events\<close>

text \<open>\<open>SubordinateEventSchema\<close> of schemas/subordinate-events.ts. A loose object keeps the members it
  does not name; zod writes the named ones first. \<open>url_ok\<close> is the check of \<open>z.url()\<close>.\<close>

definition event_members :: "string list" where
  "event_members = [''iat'', ''event'', ''event_description'', ''information_uri'']"

definition valid_event :: "(string \<Rightarrow> bool) \<Rightarrow> jsval dict \<Rightarrow> bool" where
  "valid_event url_ok e \<longleftrightarrow>
     is_num (pget e ''iat'') \<and> is_str (pget e ''event'') \<and>
     (pget e ''event_description'' = JUndef \<or> is_str (pget e ''event_description'')) \<and>
     (case pget e ''information_uri'' of JUndef \<Rightarrow> True | JStr u \<Rightarrow> url_ok u | _ \<Rightarrow> False)"

definition SubordinateEventSchema_parse :: "(string \<Rightarrow> bool) \<Rightarrow> jsval \<Rightarrow> (authority_error, jsval) result" where
  "SubordinateEventSchema_parse url_ok v =
     (case v of
        JObj e \<Rightarrow>
          if valid_event url_ok e
          then Inr (JObj (concat (map (\<lambda>k. case map_of e k of None \<Rightarrow> [] | Some x \<Rightarrow> [(k, x)]) event_members) @
                          filter (\<lambda>(k, _). k \<notin> set event_members) e))
          else Inl ZodError
      | _ \<Rightarrow> Inl ZodError)"

fun parse_events :: "(string \<Rightarrow> bool) \<Rightarrow> jsval list \<Rightarrow> (authority_error, jsval list) result" where
  "parse_events url_ok [] = Inr []"
| "parse_events url_ok (e # es) =
     (case SubordinateEventSchema_parse url_ok e of
        Inl x \<Rightarrow> Inl x
      | Inr v \<Rightarrow> (case parse_events url_ok es of Inl x \<Rightarrow> Inl x | Inr vs \<Rightarrow> Inr (v # vs)))"

definition or_empty :: "'a list option \<Rightarrow> 'a list" where
  "or_empty x = (case x of None \<Rightarrow> [] | Some xs \<Rightarrow> xs)"

definition append_events ::
  "(string \<Rightarrow> bool) \<Rightarrow> string \<Rightarrow> string \<Rightarrow> jsval list \<Rightarrow> memory_state \<Rightarrow> (authority_error, memory_state) result"
where
  "append_events url_ok issuer subject events st =
     (case parse_events url_ok events of
        Inl e \<Rightarrow> Inl e
      | Inr parsed \<Rightarrow>
          (case st_subordinateEvents st of
             None \<Rightarrow> Inl (Thrown ''Subordinate event storage is not enabled'')
           | Some history \<Rightarrow>
               (let subjects = or_empty (map_of history issuer) in
                Inr (st\<lparr>st_subordinateEvents := Some (AList.update issuer
                  (AList.update subject (or_empty (map_of subjects subject) @ parsed) subjects) history)\<rparr>))))"

definition list_events :: "memory_state \<Rightarrow> string \<Rightarrow> string \<Rightarrow> jsval list" where
  "list_events st issuer subject =
     (case st_subordinateEvents st of
        None \<Rightarrow> []
      | Some history \<Rightarrow>
          (case map_of history issuer of None \<Rightarrow> [] | Some subjects \<Rightarrow> or_empty (map_of subjects subject)))"

text \<open>The state a new adapter starts with.\<close>

definition MemoryStorageAdapter :: "bool \<Rightarrow> bool \<Rightarrow> memory_state" where
  "MemoryStorageAdapter subordinateEvents trustMarks =
     \<lparr>st_subordinateEvents = (if subordinateEvents then Some [] else None), st_subordinates = [],
      st_trustMarks = (if trustMarks then Some [] else None)\<rparr>"

section \<open>Sorting and paging\<close>

lemma compareStrings_less [simp]: "compareStrings a b < 0 \<longleftrightarrow> a < b" "0 < compareStrings a b \<longleftrightarrow> b < a"
  by (auto simp: compareStrings_def)

lemma insert_by_key: "insert_by (\<lambda>a b. f a < f b) x ys = insort_key (f :: 'a \<Rightarrow> string) x ys"
  by (induction ys) (auto simp: not_less)

lemma sort_by_key: "sort_by (\<lambda>a b. f a < f b) xs = sort_key (f :: 'a \<Rightarrow> string) xs"
  by (induction xs) (simp_all add: sort_by_def insert_by_key)

lemma set_insert_by: "set (insert_by before x ys) = insert x (set ys)"
  by (induction ys) auto

lemma set_sort_by [simp]: "set (sort_by before xs) = set xs"
  by (induction xs) (auto simp: sort_by_def set_insert_by)

text \<open>Under a transitive order whose negation is transitive too, nothing comes before the first element.\<close>

lemma sort_by_first:
  assumes "\<And>a b c. \<not> before b a \<Longrightarrow> \<not> before c b \<Longrightarrow> \<not> before c a" and "\<And>a b. before a b \<Longrightarrow> \<not> before b a"
  shows "sort_by before xs = r # rs \<Longrightarrow> r \<in> set xs \<and> (\<forall>x \<in> set xs. \<not> before x r)"
proof (induction xs arbitrary: r rs)
  case (Cons x xs)
  show ?case
  proof (cases "sort_by before xs")
    case Nil
    then have "xs = []" using set_sort_by [of before xs] by simp
    with Cons.prems assms(2) show ?thesis by (auto simp: sort_by_def)
  next
    case (Cons y ys)
    from Cons.IH [OF Cons] have y: "y \<in> set xs" "\<forall>z \<in> set xs. \<not> before z y" by auto
    have eq: "insert_by before x (y # ys) = r # rs" using Cons.prems Cons by (simp add: sort_by_def)
    show ?thesis
    proof (cases "before y x")
      case True
      with eq have "r = y" by simp
      with y True assms(2) show ?thesis by auto
    next
      case False
      with eq have "r = x" by simp
      with y False assms show ?thesis by (metis list.set_intros(1) set_ConsD)
    qed
  qed
qed (simp add: sort_by_def)

lemma js_slice_nat [simp]: "js_slice_to (of_nat n) xs = take n xs"
  by (simp add: js_slice_to_def)

lemma js_index_nat [simp]: "js_index xs (of_nat n) = (if n < length xs then Some (xs ! n) else None)"
  by (simp add: js_index_def is_integer_def)

lemma page_of_nat:
  "page_of key (of_nat n) rs =
     \<lparr>lp_items = take n rs, lp_nextCursor = (if n < length rs then Some (key (rs ! n)) else None)\<rparr>"
  by (simp add: page_of_def)

lemma safe_positive_nat:
  assumes "is_safe_integer q" and "0 < q"
  shows "of_nat (nat \<lfloor>q\<rfloor>) = q" and "0 < nat \<lfloor>q\<rfloor>"
proof -
  have q: "of_int \<lfloor>q\<rfloor> = q" using assms(1) unfolding is_safe_integer_def is_integer_def by blast
  with assms(2) have "(0 :: number) < of_int \<lfloor>q\<rfloor>" by argo
  then have pos: "0 < \<lfloor>q\<rfloor>" unfolding of_int_0_less_iff .
  then show "0 < nat \<lfloor>q\<rfloor>" by linarith
  have "of_nat (nat \<lfloor>q\<rfloor>) = (of_int \<lfloor>q\<rfloor> :: number)" by (rule of_nat_nat) (use pos in linarith)
  with q show "of_nat (nat \<lfloor>q\<rfloor>) = q" by argo
qed

section \<open>The invariant of the state\<close>

definition subordinates_ok :: "subordinate_record dict \<Rightarrow> bool" where
  "subordinates_ok rs \<longleftrightarrow> distinct (map fst rs) \<and>
     list_all (\<lambda>(k, r). k = sr_entityId r \<and> validateSubordinateRecord r = Inr ()) rs"

definition marks_ok :: "trust_mark_record dict \<Rightarrow> bool" where
  "marks_ok ms \<longleftrightarrow> distinct (map fst ms) \<and> list_all (\<lambda>(k, r). k = tr_jwt r) ms"

definition storage_ok :: "memory_state \<Rightarrow> bool" where
  "storage_ok st \<longleftrightarrow> subordinates_ok (st_subordinates st) \<and>
     (case st_trustMarks st of None \<Rightarrow> True | Some ms \<Rightarrow> marks_ok ms)"

lemma storage_ok_initial: "storage_ok (MemoryStorageAdapter ev tm)"
  by (simp add: storage_ok_def MemoryStorageAdapter_def subordinates_ok_def marks_ok_def)

lemma set_update_subset: "set (AList.update k v m) \<subseteq> insert (k, v) (set m)"
  by (induction m) auto

lemma list_all_update:
  "list_all P m \<Longrightarrow> P (k, v) \<Longrightarrow> list_all P (AList.update k v m)"
  using set_update_subset [of k v m] unfolding list_all_iff by blast

lemma list_all_delete: "list_all P m \<Longrightarrow> list_all P (AList.delete k m)"
  by (auto simp: list_all_iff AList.delete_eq)

lemma subordinates_ok_update:
  "subordinates_ok rs \<Longrightarrow> sr_entityId r = k \<Longrightarrow> validateSubordinateRecord r = Inr () \<Longrightarrow>
   subordinates_ok (AList.update k r rs)"
  unfolding subordinates_ok_def by (auto intro: list_all_update)

lemma subordinates_ok_delete: "subordinates_ok rs \<Longrightarrow> subordinates_ok (AList.delete k rs)"
  unfolding subordinates_ok_def by (auto intro: list_all_delete)

lemma subordinates_ok_get:
  assumes "subordinates_ok rs" and "map_of rs k = Some r"
  shows "sr_entityId r = k" and "validateSubordinateRecord r = Inr ()"
  using assms by (auto simp: subordinates_ok_def list_all_iff dest!: map_of_SomeD)

lemma add_subordinate_ok:
  "add_subordinate r st = Inr st' \<Longrightarrow> storage_ok st \<Longrightarrow> storage_ok st'"
  unfolding add_subordinate_def storage_ok_def
  by (auto intro: subordinates_ok_update split: sum.splits if_splits)

lemma update_subordinate_ok:
  "update_subordinate now k u st = Inr st' \<Longrightarrow> storage_ok st \<Longrightarrow> storage_ok st'"
  unfolding update_subordinate_def storage_ok_def Let_def
  by (auto intro!: subordinates_ok_update simp: updated_record_def subordinates_ok_get
      split: sum.splits option.splits)

lemma remove_subordinate_ok:
  "remove_subordinate k st = Inr st' \<Longrightarrow> storage_ok st \<Longrightarrow> storage_ok st'"
  unfolding remove_subordinate_def storage_ok_def by (auto intro: subordinates_ok_delete split: if_splits)

lemma issue_ok: "issue r st = Inr st' \<Longrightarrow> storage_ok st \<Longrightarrow> storage_ok st'"
  unfolding issue_def storage_ok_def mark_records_def marks_ok_def
  by (auto intro: list_all_update split: option.splits if_splits)

lemma revoke_ok: "revoke t s w st = Inr st' \<Longrightarrow> storage_ok st \<Longrightarrow> storage_ok st'"
  unfolding revoke_def storage_ok_def mark_records_def marks_ok_def Let_def
  by (fastforce simp: list_all_iff comp_def case_prod_unfold if_distrib [of fst] cong: if_cong
      split: option.splits if_splits)

lemma append_events_ok: "append_events u i s es st = Inr st' \<Longrightarrow> storage_ok st \<Longrightarrow> storage_ok st'"
  unfolding append_events_def storage_ok_def Let_def by (auto split: sum.splits option.splits)

lemmas storage_ops_ok = add_subordinate_ok update_subordinate_ok remove_subordinate_ok issue_ok revoke_ok
  append_events_ok

text \<open>What a validated record guarantees about its metadata.\<close>

lemma validated_metadata:
  assumes "validateSubordinateRecord r = Inr ()" and "truthy (sr_metadata r)"
  shows "isFederationEntityOperationalField k \<Longrightarrow> mget (mget (sr_metadata r) ''federation_entity'') k = JUndef"
    and "is_obj (sr_metadata r) \<Longrightarrow> findInvalidMetadataNullPaths (sr_metadata r) = []"
proof -
  show "mget (mget (sr_metadata r) ''federation_entity'') k = JUndef" if k: "isFederationEntityOperationalField k"
  proof (cases "mget (sr_metadata r) ''federation_entity''")
    case (JObj kvs)
    then have "filter isFederationEntityOperationalField (map fst kvs) = []"
      using assms by (auto simp: validateSubordinateRecord_def Let_def split: if_splits)
    with k have "k \<notin> fst ` set kvs" by (auto simp: filter_empty_conv)
    then show ?thesis using JObj by (simp add: pget_def map_of_eq_None_iff [THEN iffD2])
  qed simp_all
  show "findInvalidMetadataNullPaths (sr_metadata r) = []" if "is_obj (sr_metadata r)"
    using assms that
    by (auto simp: validateSubordinateRecord_def Let_def asserted_nulls [symmetric]
        split: if_splits sum.splits authority_error.splits)
qed

section \<open>Listings\<close>

text \<open>The interface of a paged listing: a page starts at the record its inclusive cursor names, and its
  next cursor names the first record it leaves out. Cursor-based clients are proved against it.\<close>

locale paged_listing =
  fixes key :: "'r \<Rightarrow> string" and ok :: "'s \<Rightarrow> bool" and listing :: "'s \<Rightarrow> 'r list"
    and page :: "'s \<Rightarrow> string option \<Rightarrow> nat \<Rightarrow> 'r list_page"
  assumes keys_sorted: "ok s \<Longrightarrow> sorted (map key (listing s))"
    and keys_distinct: "ok s \<Longrightarrow> distinct (map key (listing s))"
    and page_first: "ok s \<Longrightarrow> 0 < n \<Longrightarrow> page s None n = page_of key (of_nat n) (listing s)"
    and page_next: "ok s \<Longrightarrow> 0 < n \<Longrightarrow>
      page s (Some c) n = page_of key (of_nat n) (filter (\<lambda>r. c \<le> key r) (listing s))"
begin

lemma listing_from:
  assumes "ok s" and "i < length (listing s)"
  shows "filter (\<lambda>r. key (listing s ! i) \<le> key r) (listing s) = drop i (listing s)"
proof -
  let ?xs = "listing s"
  have le: "key (?xs ! i) \<le> key (?xs ! j)" if "i \<le> j" "j < length ?xs" for j
    using sorted_nth_mono [OF keys_sorted [OF assms(1)], of i j] that by simp
  have less: "\<not> key (?xs ! i) \<le> key (?xs ! j)" if "j < i" for j
  proof -
    have "key (?xs ! j) \<le> key (?xs ! i)" "key (?xs ! j) \<noteq> key (?xs ! i)"
      using sorted_nth_mono [OF keys_sorted [OF assms(1)], of j i] that assms(2)
        nth_eq_iff_index_eq [OF keys_distinct [OF assms(1)], of j i] by auto
    then show ?thesis by simp
  qed
  have "filter (\<lambda>r. key (?xs ! i) \<le> key r) (take i ?xs) = []"
    using less assms(2) by (auto simp: filter_empty_conv in_set_conv_nth)
  moreover have "filter (\<lambda>r. key (?xs ! i) \<le> key r) (drop i ?xs) = drop i ?xs"
    using le assms(2) by (auto simp: filter_id_conv in_set_conv_nth)
  ultimately show ?thesis by (metis append_Nil append_take_drop_id filter_append)
qed

text \<open>The cursor of the position \<open>i\<close>, and the page there.\<close>

lemma page_at:
  assumes "ok s" and "0 < n" and "i < length (listing s)" and "c = Some (key (listing s ! i)) \<or> (c = None \<and> i = 0)"
  shows "page s c n = \<lparr>lp_items = take n (drop i (listing s)),
    lp_nextCursor = (if i + n < length (listing s) then Some (key (listing s ! (i + n))) else None)\<rparr>"
proof -
  have "page s c n = page_of key (of_nat n) (drop i (listing s))"
    using assms listing_from page_next page_first by auto
  with assms(3) show ?thesis by (auto simp: page_of_nat)
qed

lemma page_empty: "ok s \<Longrightarrow> 0 < n \<Longrightarrow> listing s = [] \<Longrightarrow> page s c n = \<lparr>lp_items = [], lp_nextCursor = None\<rparr>"
  by (cases c) (simp_all add: page_first page_next page_of_nat)

end

text \<open>The records a listing of subordinates goes through, and its pages.\<close>

definition matching_subordinates :: "list_filter \<Rightarrow> page_options \<Rightarrow> memory_state \<Rightarrow> subordinate_record list" where
  "matching_subordinates f opts st =
     (case mark_filter st f of
        Inl _ \<Rightarrow> []
      | Inr marked \<Rightarrow> sort_key sr_entityId
          (filter (\<lambda>r. matches_types f r \<and> matches_intermediate f r \<and> marked r \<and> within_dates opts r)
            (map snd (st_subordinates st))))"

lemma list_subordinates_page:
  assumes "mark_filter st f = Inr marked"
  shows "list_subordinates st f (opts\<lparr>po_cursor := c, po_limit := Some limit\<rparr>) =
    Inr (page_of sr_entityId limit (from_cursor sr_entityId c (matching_subordinates f opts st)))"
  using assms
  by (simp add: list_subordinates_def matching_subordinates_def sort_by_key conj_commute conj_left_commute
      within_dates_def filter_filter [abs_def] comp_def cong: conj_cong)

lemma distinct_ids: "subordinates_ok rs \<Longrightarrow> distinct (map sr_entityId (map snd rs))"
proof -
  assume ok: "subordinates_ok rs"
  then have "map sr_entityId (map snd rs) = map fst rs"
    by (auto simp: subordinates_ok_def list_all_iff)
  with ok show ?thesis by (simp only: subordinates_ok_def)
qed

lemma matching_sorted:
  assumes "storage_ok st"
  shows "sorted (map sr_entityId (matching_subordinates f opts st))"
    and "distinct (map sr_entityId (matching_subordinates f opts st))"
proof -
  have d: "distinct (map sr_entityId (map snd (st_subordinates st)))"
    using assms distinct_ids by (simp add: storage_ok_def)
  show "sorted (map sr_entityId (matching_subordinates f opts st))"
    by (simp add: matching_subordinates_def split: sum.splits)
  show "distinct (map sr_entityId (matching_subordinates f opts st))"
    using distinct_map_filter [OF d] by (simp add: matching_subordinates_def distinct_map split: sum.splits)
qed

definition subordinate_page ::
  "list_filter \<Rightarrow> page_options \<Rightarrow> memory_state \<Rightarrow> string option \<Rightarrow> nat \<Rightarrow> subordinate_record list_page"
where
  "subordinate_page f opts st c n =
     (case list_subordinates st f (opts\<lparr>po_cursor := c, po_limit := Some (of_nat n)\<rparr>) of
        Inr p \<Rightarrow> p | Inl _ \<Rightarrow> \<lparr>lp_items = [], lp_nextCursor = None\<rparr>)"

interpretation subordinate_listing: paged_listing sr_entityId
  "\<lambda>st. storage_ok st \<and> (\<exists>m. mark_filter st f = Inr m)" "matching_subordinates f opts" "subordinate_page f opts"
  for f opts
  by unfold_locales
     (auto simp: matching_sorted subordinate_page_def list_subordinates_page from_cursor_def)

section \<open>The newest marks\<close>

lemma keep_newest_keys: "fst ` set (keep_newest key r latest) = insert (key r) (fst ` set latest)"
  by (auto simp: keep_newest_def insert_absorb map_of_eq_None_iff split: option.splits dest!: map_of_SomeD intro: rev_image_eqI)

lemma keep_newest_ok:
  assumes "distinct (map fst latest)" and "list_all (\<lambda>(k, x). k = key x) latest"
  shows "distinct (map fst (keep_newest key r latest))" and "list_all (\<lambda>(k, x). k = key x) (keep_newest key r latest)"
  using assms by (auto simp: keep_newest_def intro: list_all_update split: option.splits)

lemma newest_ok:
  assumes "distinct (map fst latest)" and "list_all (\<lambda>(k, x). k = key x) latest"
  shows "distinct (map fst (fold (keep_newest key) rs latest)) \<and>
    list_all (\<lambda>(k, x). k = key x) (fold (keep_newest key) rs latest) \<and>
    fst ` set (fold (keep_newest key) rs latest) = key ` set rs \<union> fst ` set latest"
  using assms
proof (induction rs arbitrary: latest)
  case (Cons r rs)
  from Cons.IH [OF keep_newest_ok [OF Cons.prems, of r]] show ?case by (auto simp: keep_newest_keys)
qed simp

lemma latestBySubject_keys:
  "distinct (map tr_subject (latestBySubject rs))" "set (map tr_subject (latestBySubject rs)) = tr_subject ` set rs"
proof -
  note n = newest_ok [of "[]" tr_subject rs]
  have eq: "map tr_subject (latestBySubject rs) = map fst (fold (keep_newest tr_subject) rs [])"
    using n by (auto simp: latestBySubject_def list_all_iff)
  show "distinct (map tr_subject (latestBySubject rs))" unfolding eq using n by simp
  have "set (map fst (fold (keep_newest tr_subject) rs [])) = fst ` set (fold (keep_newest tr_subject) rs [])"
    by simp
  then show "set (map tr_subject (latestBySubject rs)) = tr_subject ` set rs" unfolding eq using n by simp
qed

definition valid_marks :: "memory_state \<Rightarrow> string \<Rightarrow> string option \<Rightarrow> number \<Rightarrow> trust_mark_record list" where
  "valid_marks st trustMarkType subject validAt =
     (case st_trustMarks st of
        None \<Rightarrow> []
      | Some ms \<Rightarrow> sort_key tr_subject (latestBySubject
          (filter (\<lambda>r. tr_type r = trustMarkType \<and> (case subject of None \<Rightarrow> True | Some s \<Rightarrow> tr_subject r = s) \<and>
                       isValidTrustMark r validAt) (map snd ms))))"

definition mark_page :: "string \<Rightarrow> string option \<Rightarrow> number \<Rightarrow> memory_state \<Rightarrow> string option \<Rightarrow> nat \<Rightarrow> trust_mark_record list_page" where
  "mark_page trustMarkType subject validAt st c n =
     (case listValid st trustMarkType validAt \<lparr>tl_subject = subject, tl_cursor = c, tl_limit = of_nat n\<rparr> of
        Inr p \<Rightarrow> p | Inl _ \<Rightarrow> page_of tr_subject (of_nat n) (from_cursor tr_subject c (valid_marks st trustMarkType subject validAt)))"

lemma listValid_page:
  assumes "st_trustMarks st = Some ms" and "0 < n" and "is_safe_integer (of_nat n)"
  shows "listValid st t v \<lparr>tl_subject = s, tl_cursor = c, tl_limit = of_nat n\<rparr> =
    Inr (page_of tr_subject (of_nat n) (from_cursor tr_subject c (valid_marks st t s v)))"
  using assms by (simp add: listValid_def mark_records_def valid_marks_def sort_by_key Let_def)

interpretation mark_listing: paged_listing tr_subject "\<lambda>_. True" "\<lambda>st. valid_marks st t s v" "mark_page t s v"
  for t s v
proof unfold_locales
  fix st
  show "sorted (map tr_subject (valid_marks st t s v))" by (simp add: valid_marks_def split: option.splits)
  show "distinct (map tr_subject (valid_marks st t s v))"
    using latestBySubject_keys(1) by (simp add: valid_marks_def distinct_map split: option.splits)
  have page: "mark_page t s v st c n = page_of tr_subject (of_nat n) (from_cursor tr_subject c (valid_marks st t s v))"
    if "0 < n" for c n
    using that by (auto simp: mark_page_def listValid_def mark_records_def valid_marks_def sort_by_key Let_def
        split: sum.splits option.splits if_splits)
  show "mark_page t s v st None n = page_of tr_subject (of_nat n) (valid_marks st t s v)" if "0 < n" for n
    using page [OF that] by (simp add: from_cursor_def)
  show "mark_page t s v st (Some c) n = page_of tr_subject (of_nat n) (filter (\<lambda>r. c \<le> tr_subject r) (valid_marks st t s v))"
    if "0 < n" for c n
    using page [OF that] by (simp add: from_cursor_def)
qed

section \<open>Sequences of operations\<close>

text \<open>The mutations the adapter offers, and a sequence of them; one that throws leaves the state.\<close>

datatype storage_op =
    AddSubordinate subordinate_record
  | UpdateSubordinate number string subordinate_update
  | RemoveSubordinate string
  | IssueMark trust_mark_record
  | RevokeMark string string number
  | AppendEvents string string "jsval list"

fun perform :: "(string \<Rightarrow> bool) \<Rightarrow> storage_op \<Rightarrow> memory_state \<Rightarrow> (authority_error, memory_state) result" where
  "perform url_ok (AddSubordinate r) = add_subordinate r"
| "perform url_ok (UpdateSubordinate now eid u) = update_subordinate now eid u"
| "perform url_ok (RemoveSubordinate eid) = remove_subordinate eid"
| "perform url_ok (IssueMark r) = issue r"
| "perform url_ok (RevokeMark t s w) = revoke t s w"
| "perform url_ok (AppendEvents i s es) = append_events url_ok i s es"

definition attempt :: "('s \<Rightarrow> (authority_error, 's) result) \<Rightarrow> 's \<Rightarrow> 's" where
  "attempt f st = (case f st of Inl _ \<Rightarrow> st | Inr st' \<Rightarrow> st')"

definition perform_all :: "(string \<Rightarrow> bool) \<Rightarrow> storage_op list \<Rightarrow> memory_state \<Rightarrow> memory_state" where
  "perform_all url_ok ops st = fold (\<lambda>op. attempt (perform url_ok op)) ops st"

lemma perform_ok: "perform url_ok op st = Inr st' \<Longrightarrow> storage_ok st \<Longrightarrow> storage_ok st'"
  by (cases op) (auto dest: storage_ops_ok)

lemma attempt_invariant:
  assumes "P st" and "\<And>st'. f st = Inr st' \<Longrightarrow> P st'"
  shows "P (attempt f st)"
  using assms by (auto simp: attempt_def split: sum.splits)

lemma perform_all_invariant:
  assumes "P st" and "\<And>op st st'. P st \<Longrightarrow> perform url_ok op st = Inr st' \<Longrightarrow> P st'"
  shows "P (perform_all url_ok ops st)"
  using assms(1) unfolding perform_all_def
  by (induction ops arbitrary: st) (auto intro: attempt_invariant assms(2))

text \<open>
  C38: Every record the storage ever holds is well formed: it is filed under its own identifier, its
  metadata carries no operational field of the federation entity, and its metadata contains no null
  outside wallet claim paths, whatever sequence of operations led there.
\<close>
theorem stored_records_wellformed:
  assumes "get_subordinate (perform_all url_ok ops (MemoryStorageAdapter ev tm)) eid = Some r"
  shows "sr_entityId r = eid \<and>
    (is_obj (sr_metadata r) \<longrightarrow> findInvalidMetadataNullPaths (sr_metadata r) = []) \<and>
    (\<forall>k. isFederationEntityOperationalField k \<longrightarrow>
       mget (mget (sr_metadata r) ''federation_entity'') k = JUndef)"
proof -
  have "storage_ok (perform_all url_ok ops (MemoryStorageAdapter ev tm))"
    by (rule perform_all_invariant) (auto intro: storage_ok_initial perform_ok)
  then have r: "sr_entityId r = eid" "validateSubordinateRecord r = Inr ()"
    using assms subordinates_ok_get by (auto simp: storage_ok_def get_subordinate_def)
  show ?thesis
  proof (cases "truthy (sr_metadata r)")
    case True
    from validated_metadata [OF r(2) True] r(1) show ?thesis by blast
  next
    case False
    then have "\<not> is_obj (sr_metadata r)" by (cases "sr_metadata r") auto
    then have "mget (sr_metadata r) k = JUndef" for k by (cases "sr_metadata r") auto
    with r(1) \<open>\<not> is_obj (sr_metadata r)\<close> show ?thesis by simp
  qed
qed

definition example_record :: subordinate_record where
  "example_record = \<lparr>sr_entityId = ''https://leaf'', sr_jwks = JObj [(''keys'', JArr [])],
     sr_metadata = JObj [(''federation_entity'', JObj [(''contacts'', JNum 1)])], sr_metadataPolicy = JUndef,
     sr_constraints = JUndef, sr_entityTypes = None, sr_isIntermediate = None, sr_sourceEndpoint = None,
     sr_crit = None, sr_metadataPolicyCrit = None, sr_createdAt = 5, sr_updatedAt = 5\<rparr>"

theorem stored_records_wellformed_witness:
  "get_subordinate (perform_all (\<lambda>_. True) [AddSubordinate example_record] (MemoryStorageAdapter True True))
     ''https://leaf'' = Some example_record \<and>
   mget (mget (sr_metadata example_record) ''federation_entity'') ''federation_list_endpoint'' = JUndef"
proof -
  have get: "get_subordinate (perform_all (\<lambda>_. True) [AddSubordinate example_record] (MemoryStorageAdapter True True))
     ''https://leaf'' = Some example_record" by code_simp
  moreover have "isFederationEntityOperationalField ''federation_list_endpoint''" by code_simp
  ultimately show ?thesis using stored_records_wellformed [OF get] by blast
qed

section \<open>Valid and revoked marks\<close>

lemma compare_marks_newer: "compare_marks a b < 0 \<longleftrightarrow> isNewerTrustMark a b"
  by (auto simp: compare_marks_def isNewerTrustMark_def)

definition live_marks :: "memory_state \<Rightarrow> string \<Rightarrow> string \<Rightarrow> number \<Rightarrow> trust_mark_record set" where
  "live_marks st t s v =
     {r \<in> snd ` set (or_empty (st_trustMarks st)). tr_type r = t \<and> tr_subject r = s \<and> isValidTrustMark r v}"

text \<open>\<open>getValid\<close> gives a newest one of the live marks, and nothing only when there is none.\<close>

lemma getValid_newest:
  assumes "getValid st t s v = Inr x"
  shows "(x = None \<longleftrightarrow> live_marks st t s v = {}) \<and>
    (\<forall>r. x = Some r \<longrightarrow> r \<in> live_marks st t s v \<and> (\<forall>r' \<in> live_marks st t s v. \<not> isNewerTrustMark r' r))"
proof -
  obtain ms where ms: "st_trustMarks st = Some ms"
    using assms by (auto simp: getValid_def mark_records_def split: option.splits)
  let ?live = "filter (\<lambda>r. tr_type r = t \<and> tr_subject r = s \<and> isValidTrustMark r v) (map snd ms)"
  have set: "set ?live = live_marks st t s v" using ms by (auto simp: live_marks_def or_empty_def)
  have x: "x = (case sort_by isNewerTrustMark ?live of [] \<Rightarrow> None | r # _ \<Rightarrow> Some r)"
    using assms ms by (simp add: getValid_def mark_records_def Let_def compare_marks_newer)
  have trans: "\<not> isNewerTrustMark c a" if "\<not> isNewerTrustMark b a" "\<not> isNewerTrustMark c b" for a b c
    using that by (auto simp: isNewerTrustMark_def not_less)
  have asym: "\<not> isNewerTrustMark b a" if "isNewerTrustMark a b" for a b
    using that by (auto simp: isNewerTrustMark_def)
  show ?thesis
  proof (cases "sort_by isNewerTrustMark ?live")
    case Nil
    then have "set ?live = {}" by (metis set_sort_by list.set(1))
    with x Nil show ?thesis unfolding set by simp
  next
    case (Cons r rs)
    from sort_by_first [where before = isNewerTrustMark, OF trans asym Cons] x Cons show ?thesis
      unfolding set by auto
  qed
qed

definition never_live :: "string \<Rightarrow> memory_state \<Rightarrow> bool" where
  "never_live jwt st \<longleftrightarrow> (\<exists>ms r. st_trustMarks st = Some ms \<and> map_of ms jwt = Some r \<and> \<not> tr_active r)"

lemma map_of_map_snd:
  "map_of (map (\<lambda>(k, r). (k, f r)) ms) k = map_option f (map_of ms k)"
  by (induction ms) auto

lemma revoke_map:
  "revoke t s w st = Inr st' \<Longrightarrow> \<exists>ms. st_trustMarks st = Some ms \<and> st' = st\<lparr>st_trustMarks := Some
     (map (\<lambda>(jwt, r). (jwt, if to_revoke t s r then r\<lparr>tr_active := False, tr_revokedAt := Some w\<rparr> else r)) ms)\<rparr>"
  by (auto simp: revoke_def mark_records_def Let_def case_prod_unfold if_distrib [of "Pair _"]
      split: option.splits if_splits intro!: arg_cong [where f = "\<lambda>m. st_trustMarks_update (\<lambda>_. Some m) st"])

lemma image_fixed_Collect:
  assumes "\<And>x. P x \<or> P (g x) \<Longrightarrow> g x = x"
  shows "{y \<in> g ` A. P y} = {y \<in> A. P y}"
  using assms by (auto simp: image_iff) metis+

lemma marks_untouched:
  "perform url_ok op st = Inr st' \<Longrightarrow> (\<And>r. op \<noteq> IssueMark r) \<Longrightarrow> (\<And>t s w. op \<noteq> RevokeMark t s w) \<Longrightarrow>
   st_trustMarks st' = st_trustMarks st"
  by (cases op) (auto simp: add_subordinate_def update_subordinate_def remove_subordinate_def
      append_events_def Let_def split: sum.splits option.splits if_splits)

lemma never_live_step:
  assumes "never_live jwt st" and "perform url_ok op st = Inr st'"
  shows "never_live jwt st'"
proof (cases "(\<exists>r. op = IssueMark r) \<or> (\<exists>t s w. op = RevokeMark t s w)")
  case False
  with marks_untouched [OF assms(2)] assms(1) show ?thesis by (auto simp: never_live_def)
next
  case True
  then show ?thesis
  proof (elim disjE exE)
    fix r
    assume "op = IssueMark r"
    with assms show ?thesis
      by (auto simp: never_live_def issue_def mark_records_def split: if_splits)
  next
    fix t s w
    assume "op = RevokeMark t s w"
    with assms revoke_map [of t s w st st'] show ?thesis
      by (auto simp: never_live_def map_of_map_snd to_revoke_def)
  qed
qed

text \<open>
  C23: Revocation is final: when a revocation succeeds, no mark of that type and subject is valid or handed
  out at any time, every mark of another type or subject is as before, and a mark that was live before stays
  recorded but inactive whatever operations follow, even if the same JWT is issued again.
\<close>
theorem revocation_final:
  assumes "storage_ok st" and "revoke t s w st = Inr st'"
  shows "getValid st' t s v = Inr None \<and> live_marks st' t s v = {} \<and>
    (\<forall>t' s' v'. (t', s') \<noteq> (t, s) \<longrightarrow> live_marks st' t' s' v' = live_marks st t' s' v') \<and>
    (\<forall>r \<in> live_marks st t s v'. \<forall>ops. \<exists>r'. \<not> tr_active r' \<and>
       getByJwt (perform_all url_ok ops st') (tr_jwt r) = Inr (Some r'))"
proof -
  define g where "g r = (if to_revoke t s r then r\<lparr>tr_active := False, tr_revokedAt := Some w\<rparr> else r)" for r
  obtain ms where ms: "st_trustMarks st = Some ms"
    and st': "st_trustMarks st' = Some (map (\<lambda>(jwt, r). (jwt, g r)) ms)"
    using revoke_map [OF assms(2)] unfolding g_def by auto
  have after: "live_marks st' t' s' v' =
      {r \<in> g ` snd ` set ms. tr_type r = t' \<and> tr_subject r = s' \<and> isValidTrustMark r v'}" for t' s' v'
    by (simp add: live_marks_def st' or_empty_def image_image case_prod_unfold)
  have "\<not> (tr_type (g r) = t \<and> tr_subject (g r) = s \<and> isValidTrustMark (g r) v)" for r
    by (auto simp: g_def to_revoke_def isValidTrustMark_def)
  then have "live_marks st' t s v = {}" unfolding after by blast
  moreover from this have "getValid st' t s v = Inr None"
    using getValid_newest [of st' t s v] st' by (cases "getValid st' t s v") (auto simp: getValid_def mark_records_def)
  moreover have "live_marks st' t' s' v' = live_marks st t' s' v'" if "(t', s') \<noteq> (t, s)" for t' s' v'
  proof -
    let ?P = "\<lambda>r. tr_type r = t' \<and> tr_subject r = s' \<and> isValidTrustMark r v'"
    have keep: "g r = r" if "?P r \<or> ?P (g r)" for r
      using that \<open>(t', s') \<noteq> (t, s)\<close> by (auto simp: g_def to_revoke_def split: if_splits)
    have "live_marks st' t' s' v' = {r \<in> snd ` set ms. ?P r}" unfolding after using keep by (rule image_fixed_Collect)
    also have "\<dots> = live_marks st t' s' v'" by (simp add: live_marks_def ms or_empty_def)
    finally show ?thesis .
  qed
  moreover have "\<exists>r'. \<not> tr_active r' \<and> getByJwt (perform_all url_ok ops st') (tr_jwt r) = Inr (Some r')"
    if r: "r \<in> live_marks st t s v'" for r ops
  proof -
    from r ms obtain jwt where in_ms: "(jwt, r) \<in> set ms" by (auto simp: live_marks_def or_empty_def image_iff)
    have d: "distinct (map fst ms)" "jwt = tr_jwt r"
      using assms(1) ms in_ms by (auto simp: storage_ok_def marks_ok_def list_all_iff)
    have "map_of ms (tr_jwt r) = Some r" using in_ms d by simp
    then have "never_live (tr_jwt r) st'"
      using r by (simp add: never_live_def st' map_of_map_snd g_def to_revoke_def live_marks_def isValidTrustMark_def)
    then have "never_live (tr_jwt r) (perform_all url_ok ops st')"
      by (rule perform_all_invariant) (rule never_live_step)
    then show ?thesis by (auto simp: never_live_def getByJwt_def mark_records_def)
  qed
  ultimately show ?thesis by blast
qed

definition example_mark :: trust_mark_record where
  "example_mark = \<lparr>tr_type = ''https://tm'', tr_subject = ''https://leaf'', tr_jwt = ''j'', tr_issuedAt = 1,
     tr_expiresAt = None, tr_active = True, tr_revokedAt = None\<rparr>"

definition example_marks :: memory_state where
  "example_marks = perform_all (\<lambda>_. True) [IssueMark example_mark] (MemoryStorageAdapter False True)"

definition example_revoked :: memory_state where
  "example_revoked = perform_all (\<lambda>_. True) [RevokeMark ''https://tm'' ''https://leaf'' 3] example_marks"

theorem revocation_final_witness:
  "getValid example_revoked ''https://tm'' ''https://leaf'' 2 = Inr None"
proof -
  have "storage_ok example_marks" by code_simp
  moreover have "revoke ''https://tm'' ''https://leaf'' 3 example_marks = Inr example_revoked" by code_simp
  ultimately show ?thesis using revocation_final by blast
qed

end
