(* ===== verification/Storage_Transactions.thy ===== *)
theory Storage_Transactions
  imports Authority_Storage
begin

text \<open>
  The adapter's \<open>transaction\<close> and \<open>runExclusive\<close> (packages/authority/src/storage/memory.ts).

  A transaction is an asynchronous program on the transaction's own storages: it awaits reads and
  mutations of a draft, one after the other, and ends by returning or throwing. Between two of its
  awaits other calls may arrive and readers may read the adapter. The adapter is a state machine over
  the committed state, the jobs that wait for the promise \<open>tail\<close>, and the transaction that runs with its
  draft; every step is the code between two awaits, and the steps interleave in any order.

  The operation a caller passes works on the storages of its transaction only. One that awaits the
  adapter itself inside its transaction would wait for its own end; such programs are not expressed.
\<close>

section \<open>Transactions\<close>

datatype ('s, 'a) tx =
    Return 'a
  | Throw authority_error
  | Perform "'s \<Rightarrow> (authority_error, 's) result" "(authority_error, unit) result \<Rightarrow> ('s, 'a) tx"
  | Read "'s \<Rightarrow> ('s, 'a) tx"

text \<open>\<open>await op; ...\<close> without a handler: an error of \<open>op\<close> ends the program with that error.\<close>

definition await_op :: "('s \<Rightarrow> (authority_error, 's) result) \<Rightarrow> ('s, 'a) tx \<Rightarrow> ('s, 'a) tx" where
  "await_op f t = Perform f (\<lambda>r. case r of Inl e \<Rightarrow> Throw e | Inr _ \<Rightarrow> t)"

text \<open>One await of a program on its draft: what it does to the draft and what is left of the program.\<close>

fun advance :: "'s \<Rightarrow> ('s, 'a) tx \<Rightarrow> 's \<times> ('s, 'a) tx" where
  "advance d (Perform f k) =
     (case f d of Inl e \<Rightarrow> (d, k (Inl e)) | Inr d' \<Rightarrow> (d', k (Inr ())))"
| "advance d (Read k) = (d, k d)"
| "advance d t = (d, t)"

text \<open>A whole program run on a draft: the value and the draft it commits, or its error.\<close>

primrec run_tx :: "('s, 'a) tx \<Rightarrow> 's \<Rightarrow> (authority_error, 's \<times> 'a) result" where
  "run_tx (Return a) = (\<lambda>d. Inr (d, a))"
| "run_tx (Throw e) = (\<lambda>d. Inl e)"
| "run_tx (Perform f k) = (\<lambda>d. case f d of Inl e \<Rightarrow> run_tx (k (Inl e)) d | Inr d' \<Rightarrow> run_tx (k (Inr ())) d')"
| "run_tx (Read k) = (\<lambda>d. run_tx (k d) d)"

section \<open>The adapter\<close>

text \<open>What waits for the promise chain: a single mutation of the committed state, or a transaction.\<close>

datatype ('s, 'a) job =
    Mutation "'s \<Rightarrow> (authority_error, 's) result"
  | Transaction "('s, 'a) tx"

type_synonym 'a job_outcome = "(authority_error, 'a option) result"

record ('s, 'a) adapter =
  ad_state :: 's
  ad_waiting :: "('s, 'a) job list"
  ad_running :: "('s \<times> ('s, 'a) tx) option"
  ad_settled :: "'a job_outcome list"

definition new_adapter :: "'s \<Rightarrow> ('s, 'a) adapter" where
  "new_adapter s = \<lparr>ad_state = s, ad_waiting = [], ad_running = None, ad_settled = []\<rparr>"

text \<open>A job that runs alone: the next state and its outcome. A job that throws leaves the state.\<close>

fun run_job :: "('s, 'a) job \<Rightarrow> 's \<Rightarrow> 's \<times> 'a job_outcome" where
  "run_job (Mutation f) s = (case f s of Inl e \<Rightarrow> (s, Inl e) | Inr s' \<Rightarrow> (s', Inr None))"
| "run_job (Transaction t) s = (case run_tx t s of Inl e \<Rightarrow> (s, Inl e) | Inr (s', a) \<Rightarrow> (s', Inr (Some a)))"

text \<open>
  The steps. \<open>call\<close> is the synchronous part of \<open>runExclusive\<close>: it puts the job at the end of the
  promise chain. When the previous job has released it, \<open>mutate\<close> runs a mutation, \<open>begin\<close> makes the
  draft of a transaction, \<open>work\<close> is one await of its program, and \<open>commit\<close> and \<open>abort\<close> end it; both
  release the chain. The label says which job was called, if any.
\<close>

inductive adapter_step :: "('s, 'a) adapter \<Rightarrow> ('s, 'a) job option \<Rightarrow> ('s, 'a) adapter \<Rightarrow> bool" where
  call: "adapter_step A (Some j) (A\<lparr>ad_waiting := ad_waiting A @ [j]\<rparr>)"
| mutate: "ad_running A = None \<Longrightarrow> ad_waiting A = Mutation f # js \<Longrightarrow> run_job (Mutation f) (ad_state A) = (s, r) \<Longrightarrow>
    adapter_step A None (A\<lparr>ad_waiting := js, ad_state := s, ad_settled := ad_settled A @ [r]\<rparr>)"
| begin_tx: "ad_running A = None \<Longrightarrow> ad_waiting A = Transaction t # js \<Longrightarrow>
    adapter_step A None (A\<lparr>ad_waiting := js, ad_running := Some (ad_state A, t)\<rparr>)"
| work: "ad_running A = Some (d, t) \<Longrightarrow> (\<exists>f k. t = Perform f k) \<or> (\<exists>k. t = Read k) \<Longrightarrow>
    adapter_step A None (A\<lparr>ad_running := Some (advance d t)\<rparr>)"
| commit: "ad_running A = Some (d, Return a) \<Longrightarrow>
    adapter_step A None (A\<lparr>ad_running := None, ad_state := d, ad_settled := ad_settled A @ [Inr (Some a)]\<rparr>)"
| abort: "ad_running A = Some (d, Throw e) \<Longrightarrow>
    adapter_step A None (A\<lparr>ad_running := None, ad_settled := ad_settled A @ [Inl e]\<rparr>)"


inductive adapter_run :: "'s \<Rightarrow> ('s, 'a) job list \<Rightarrow> ('s, 'a) adapter \<Rightarrow> bool" for s where
  start: "adapter_run s [] (new_adapter s)"
| called: "adapter_run s js A \<Longrightarrow> adapter_step A (Some j) A' \<Longrightarrow> adapter_run s (js @ [j]) A'"
| internal: "adapter_run s js A \<Longrightarrow> adapter_step A None A' \<Longrightarrow> adapter_run s js A'"

section \<open>Serial execution\<close>

text \<open>The specification: jobs run one after the other, each alone.\<close>

fun run_jobs :: "('s, 'a) job list \<Rightarrow> 's \<Rightarrow> 's \<times> 'a job_outcome list" where
  "run_jobs [] s = (s, [])"
| "run_jobs (j # js) s =
     (let (s', r) = run_job j s; (s'', rs) = run_jobs js s' in (s'', r # rs))"

lemma run_jobs_append:
  "run_jobs (js @ ks) s =
     (let (s', rs) = run_jobs js s; (s'', rs') = run_jobs ks s' in (s'', rs @ rs'))"
  by (induction js arbitrary: s) (auto simp: Let_def split: prod.splits)

lemma run_jobs_snoc:
  "run_jobs (js @ [j]) s =
     (let (s', rs) = run_jobs js s; (s'', r) = run_job j s' in (s'', rs @ [r]))"
  by (simp add: run_jobs_append split: prod.splits)

lemma run_tx_advance: "advance d t = (d', t') \<Longrightarrow> run_tx t d = run_tx t' d'"
  by (cases "(d, t)" rule: advance.cases) (auto split: sum.splits)

text \<open>The simulation: the settled jobs are a prefix of the calls, the committed state and the outcomes
  are those of running this prefix serially, and the transaction that runs has the rest of its serial
  run before it.\<close>

definition serial :: "'s \<Rightarrow> ('s, 'a) job list \<Rightarrow> ('s, 'a) adapter \<Rightarrow> bool" where
  "serial s js A \<longleftrightarrow>
     (\<exists>done running. js = done @ running @ ad_waiting A \<and>
        run_jobs done s = (ad_state A, ad_settled A) \<and>
        (case ad_running A of
           None \<Rightarrow> running = []
         | Some (d, t) \<Rightarrow> \<exists>t0. running = [Transaction t0] \<and> run_tx t0 (ad_state A) = run_tx t d))"

lemma serial_step:
  assumes "adapter_step A l A'" and "serial s js A"
  shows "serial s (js @ (case l of None \<Rightarrow> [] | Some j \<Rightarrow> [j])) A'"
proof -
  from assms(2) obtain dn rn where js: "js = dn @ rn @ ad_waiting A"
    and run: "run_jobs dn s = (ad_state A, ad_settled A)"
    and cur: "case ad_running A of None \<Rightarrow> rn = []
         | Some (d, t) \<Rightarrow> \<exists>t0. rn = [Transaction t0] \<and> run_tx t0 (ad_state A) = run_tx t d"
    unfolding serial_def by blast
  from assms(1) show ?thesis
  proof (cases rule: adapter_step.cases)
    case (call j)
    then have A': "ad_state A' = ad_state A" "ad_running A' = ad_running A" "ad_settled A' = ad_settled A"
      "ad_waiting A' = ad_waiting A @ [j]" "l = Some j" by simp_all
    show ?thesis unfolding serial_def A' using js run cur by - (rule exI [of _ dn], rule exI [of _ rn], simp)
  next
    case (mutate f ks s' r)
    then have "run_jobs (dn @ [Mutation f]) s = (s', ad_settled A @ [r])"
      using run by (simp add: run_jobs_snoc)
    with mutate js cur show ?thesis unfolding serial_def by (auto intro!: exI [of _ "dn @ [Mutation f]"])
  next
    case (begin_tx t ks)
    with js run cur show ?thesis unfolding serial_def
      by - (rule exI [of _ dn], rule exI [of _ "[Transaction t]"], simp)
  next
    case (work d t)
    with cur obtain t0 where t0: "rn = [Transaction t0]" "run_tx t0 (ad_state A) = run_tx t d" by auto
    obtain d' t' where adv: "advance d t = (d', t')" by (cases "advance d t")
    from run_tx_advance [OF adv] t0 adv work js run show ?thesis unfolding serial_def by auto
  next
    case (commit d a)
    with cur obtain t0 where t0: "rn = [Transaction t0]" "run_tx t0 (ad_state A) = Inr (d, a)" by auto
    have "run_jobs (dn @ [Transaction t0]) s = (d, ad_settled A @ [Inr (Some a)])"
      using run t0 by (simp add: run_jobs_snoc)
    with commit t0 js show ?thesis unfolding serial_def by (auto intro!: exI [of _ "dn @ [Transaction t0]"])
  next
    case (abort d e)
    with cur obtain t0 where t0: "rn = [Transaction t0]" "run_tx t0 (ad_state A) = Inl e" by auto
    have "run_jobs (dn @ [Transaction t0]) s = (ad_state A, ad_settled A @ [Inl e])"
      using run t0 by (simp add: run_jobs_snoc)
    with abort t0 js show ?thesis unfolding serial_def by (auto intro!: exI [of _ "dn @ [Transaction t0]"])
  qed
qed

lemma adapter_run_serial: "adapter_run s js A \<Longrightarrow> serial s js A"
proof (induction rule: adapter_run.induct)
  case start
  show ?case by (simp add: serial_def new_adapter_def)
next
  case (called js A j A')
  from serial_step [OF called(2,3)] show ?case by simp
next
  case (internal js A A')
  from serial_step [OF internal(2,3)] show ?case by simp
qed

section \<open>Properties\<close>

text \<open>
  C14: The adapter serialises its work. At every moment of every run, whatever was called and however the
  awaits of a transaction interleave with new calls, the state that readers see and the outcomes that
  callers got are those of running a prefix of the calls one after the other in call order, each alone
  and all or nothing: a draft is never visible before its commit, and a job that throws leaves no trace.
\<close>
theorem transactions_serializable:
  assumes "adapter_run s js A"
  shows "run_jobs (take (length (ad_settled A)) js) s = (ad_state A, ad_settled A)"
proof -
  from adapter_run_serial [OF assms] obtain dn rn where
    js: "js = dn @ rn @ ad_waiting A" and run: "run_jobs dn s = (ad_state A, ad_settled A)"
    unfolding serial_def by blast
  have "length (snd (run_jobs dn s)) = length dn"
    by (induction dn arbitrary: s) (simp_all add: Let_def case_prod_unfold)
  with run js show ?thesis by simp
qed

text \<open>Two calls that race: the first is a transaction that adds a record and then fails, the second
  adds the same record alone.\<close>

definition failing_tx :: "(memory_state, unit) tx" where
  "failing_tx = await_op (add_subordinate example_record) (Throw (Thrown ''x''))"

definition racing :: "(memory_state, unit) job list" where
  "racing = [Transaction failing_tx, Mutation (add_subordinate example_record)]"

definition example_start :: memory_state where
  "example_start = MemoryStorageAdapter False False"

lemma step_to: "adapter_run s js A \<Longrightarrow> adapter_step A None B \<Longrightarrow> B = A' \<Longrightarrow> adapter_run s js A'"
  by (erule adapter_run.internal, simp)

lemma racing_run: "\<exists>A. adapter_run example_start racing A \<and> ad_settled A = [Inl (Thrown ''x''), Inr None]"
proof -
  let ?t = "Transaction failing_tx" and ?m = "Mutation (add_subordinate example_record)"
  let ?A = "\<lambda>w r o'. \<lparr>ad_state = example_start, ad_waiting = w, ad_running = r, ad_settled = o'\<rparr>"
  define d where "d = perform_all (\<lambda>_. True) [AddSubordinate example_record] example_start"
  have d: "add_subordinate example_record example_start = Inr d" unfolding d_def by code_simp
  have adv: "advance example_start failing_tx = (d, Throw (Thrown ''x''))"
    unfolding failing_tx_def await_op_def by (simp add: d)
  have shape: "\<exists>f k. failing_tx = Perform f k" unfolding failing_tx_def await_op_def by blast
  have "adapter_run example_start [] (?A [] None [])"
    using adapter_run.start [of example_start] by (simp add: new_adapter_def)
  from adapter_run.called [OF this adapter_step.call, of ?t]
  have "adapter_run example_start [?t] (?A [?t] None [])" by simp
  then have "adapter_run example_start [?t] (?A [] (Some (example_start, failing_tx)) [])"
    by (rule step_to) (rule adapter_step.begin_tx, simp_all)
  from adapter_run.called [OF this adapter_step.call, of ?m]
  have "adapter_run example_start [?t, ?m] (?A [?m] (Some (example_start, failing_tx)) [])" by simp
  then have "adapter_run example_start [?t, ?m] (?A [?m] (Some (d, Throw (Thrown ''x''))) [])"
    by (rule step_to) (rule adapter_step.work [of _ example_start failing_tx], use shape adv in simp_all)
  then have "adapter_run example_start [?t, ?m] (?A [?m] None [Inl (Thrown ''x'')])"
    by (rule step_to) (rule adapter_step.abort, simp_all)
  then have "adapter_run example_start [?t, ?m]
      \<lparr>ad_state = d, ad_waiting = [], ad_running = None, ad_settled = [Inl (Thrown ''x''), Inr None]\<rparr>"
      (is "adapter_run _ _ ?B")
    by (rule step_to) (rule adapter_step.mutate [of _ "add_subordinate example_record" "[]" d "Inr None"], use d in simp_all)
  then show ?thesis unfolding racing_def by (intro exI [of _ ?B] conjI) simp_all
qed

theorem transactions_serializable_witness:
  "\<exists>A. adapter_run example_start racing A \<and>
     run_jobs racing example_start = (ad_state A, [Inl (Thrown ''x''), Inr None])"
proof -
  obtain A where A: "adapter_run example_start racing A" "ad_settled A = [Inl (Thrown ''x''), Inr None]"
    using racing_run by blast
  from transactions_serializable [OF A(1)] A show ?thesis by (auto simp: racing_def)
qed

section \<open>Every job ends\<close>










end
