(* ===== verification/Subordinate_Lifecycle.thy ===== *)
theory Subordinate_Lifecycle
  imports Canonical_Json Storage_Transactions "HOL-Library.Multiset"
begin

text \<open>
  packages/authority/src/subordinate-lifecycle.ts: registration, update and revocation of subordinates,
  each one storage transaction that writes the record and the event that documents it.

  The code is written against the interfaces of storage/types.ts. Here \<open>storage\<close> is the record of the
  operations it calls and the locale \<open>subordinate_storage\<close> the laws it relies on; the in-memory adapter
  interprets the locale. A call that throws before its transaction is \<open>Inl\<close>; the others are the
  transaction they run. The values of the clock are arguments.
\<close>

section \<open>The storage the lifecycle uses\<close>

text \<open>\<open>StorageAdapter\<close> as far as the lifecycle uses it. \<open>so_events\<close> and \<open>so_tx_events\<close>: the adapter and
  its transactions offer \<open>subordinateEvents\<close>.\<close>

record 's storage =
  so_events :: bool
  so_tx_events :: bool
  so_get :: "'s \<Rightarrow> string \<Rightarrow> subordinate_record option"
  so_add :: "subordinate_record \<Rightarrow> 's \<Rightarrow> (authority_error, 's) result"
  so_update :: "number \<Rightarrow> string \<Rightarrow> subordinate_update \<Rightarrow> 's \<Rightarrow> (authority_error, 's) result"
  so_remove :: "string \<Rightarrow> 's \<Rightarrow> (authority_error, 's) result"
  so_append :: "string \<Rightarrow> string \<Rightarrow> jsval list \<Rightarrow> 's \<Rightarrow> (authority_error, 's) result"
  so_history :: "'s \<Rightarrow> string \<Rightarrow> string \<Rightarrow> jsval list"

definition memory_storage :: "(string \<Rightarrow> bool) \<Rightarrow> bool \<Rightarrow> memory_state storage" where
  "memory_storage url_ok events =
     \<lparr>so_events = events, so_tx_events = events, so_get = get_subordinate, so_add = add_subordinate,
      so_update = update_subordinate, so_remove = remove_subordinate, so_append = append_events url_ok,
      so_history = list_events\<rparr>"

section \<open>Normalisation and comparison\<close>

definition sanitize :: "subordinate_record \<Rightarrow> subordinate_record" where
  "sanitize r = r\<lparr>sr_metadata := sanitizeSubordinateMetadata (sr_metadata r)\<rparr>"

definition sanitize_update :: "subordinate_update \<Rightarrow> subordinate_update" where
  "sanitize_update u =
     (case su_metadata u of
        None \<Rightarrow> u
      | Some md \<Rightarrow> u\<lparr>su_metadata := Some (sanitizeSubordinateMetadata md)\<rparr>)"

fun canonical_keys :: "(number \<Rightarrow> string) \<Rightarrow> jsval list \<Rightarrow> (authority_error, string list) result" where
  "canonical_keys nt [] = Inr []"
| "canonical_keys nt (key # keys) =
     (case stripPrivateFields (entries key) of
        Inl e \<Rightarrow> Inl (Thrown e)
      | Inr pub \<Rightarrow>
          (case canonical_keys nt keys of Inl e \<Rightarrow> Inl e | Inr ts \<Rightarrow> Inr (canonical nt (JObj pub) # ts)))"

definition publicKeys :: "(number \<Rightarrow> string) \<Rightarrow> subordinate_record \<Rightarrow> (authority_error, string) result" where
  "publicKeys nt r =
     (case canonical_keys nt (items (mget (sr_jwks r) ''keys'')) of
        Inl e \<Rightarrow> Inl e
      | Inr ts \<Rightarrow> Inr (canonical nt (JArr (map JStr (sort ts)))))"

section \<open>The operations\<close>

definition requireTransactionEvents :: "'s storage \<Rightarrow> ('s, 'a) tx \<Rightarrow> ('s, 'a) tx" where
  "requireTransactionEvents S t =
     (if so_events S \<and> \<not> so_tx_events S
      then Throw (Thrown ''Event-enabled storage requires transaction-bound subordinateEvents'') else t)"

text \<open>The local function \<open>append\<close>, then \<open>t\<close>.\<close>

definition append_then :: "'s storage \<Rightarrow> string \<Rightarrow> string \<Rightarrow> jsval list \<Rightarrow> ('s, 'a) tx \<Rightarrow> ('s, 'a) tx" where
  "append_then S issuer subject events t =
     (if so_events S then
        (if \<not> so_tx_events S then Throw (Thrown ''Transaction-bound subordinateEvents is unavailable'')
         else await_op (so_append S issuer subject events) t)
      else t)"

definition event_object :: "number \<Rightarrow> string \<Rightarrow> jsval" where
  "event_object iat name = JObj [(''iat'', JNum iat), (''event'', JStr name)]"

definition registerSubordinate ::
  "'s storage \<Rightarrow> string \<Rightarrow> number \<Rightarrow> subordinate_record \<Rightarrow> (authority_error, ('s, unit) tx) result"
where
  "registerSubordinate S issuer iat record =
     (let normalized = sanitize record in
      Inr (requireTransactionEvents S
        (await_op (so_add S (normalized\<lparr>sr_createdAt := iat, sr_updatedAt := iat\<rparr>))
          (append_then S issuer (sr_entityId normalized) [event_object iat ''registration''] (Return ())))))"

definition update_events ::
  "(number \<Rightarrow> string) \<Rightarrow> subordinate_record \<Rightarrow> subordinate_record \<Rightarrow> (authority_error, string list) result"
where
  "update_events nt before after =
     (let e1 = (if canonical nt (sanitizeSubordinateMetadata (sr_metadata before)) \<noteq>
                   canonical nt (sanitizeSubordinateMetadata (sr_metadata after)) then [''metadata_update''] else []);
          e2 = (if canonical nt (sr_metadataPolicy before) \<noteq> canonical nt (sr_metadataPolicy after)
                then [''metadata_policy_update''] else [])
      in case publicKeys nt before of
           Inl e \<Rightarrow> Inl e
         | Inr kb \<Rightarrow>
             (case publicKeys nt after of
                Inl e \<Rightarrow> Inl e
              | Inr ka \<Rightarrow> Inr (e1 @ e2 @ (if kb \<noteq> ka then [''jwks_update''] else []))))"

text \<open>\<open>now\<close> is the time of the adapter's own clock, \<open>iat\<close> that of the authority's.\<close>

definition updateSubordinate ::
  "(number \<Rightarrow> string) \<Rightarrow> 's storage \<Rightarrow> string \<Rightarrow> number \<Rightarrow> number \<Rightarrow> string \<Rightarrow> subordinate_update \<Rightarrow>
   (authority_error, ('s, unit) tx) result"
where
  "updateSubordinate nt S issuer now iat subject updates =
     (let normalized = sanitize_update updates in
      Inr (requireTransactionEvents S (Read (\<lambda>d.
        (case so_get S d subject of
           None \<Rightarrow> Throw (subordinate_not_found subject)
         | Some before \<Rightarrow>
             await_op (so_update S now subject normalized) (Read (\<lambda>d'.
               (case so_get S d' subject of
                  None \<Rightarrow> Throw (Thrown (''Subordinate '' @ quoted subject @ '' disappeared during update''))
                | Some after \<Rightarrow>
                    (case update_events nt before after of
                       Inl e \<Rightarrow> Throw e
                     | Inr eventTypes \<Rightarrow>
                         if length eventTypes > 0
                         then append_then S issuer subject (map (event_object iat) eventTypes) (Return ())
                         else Return ())))))))))"

definition revokeSubordinate ::
  "'s storage \<Rightarrow> string \<Rightarrow> number \<Rightarrow> string \<Rightarrow> (authority_error, ('s, unit) tx) result"
where
  "revokeSubordinate S issuer iat subject =
     Inr (requireTransactionEvents S
       (await_op (so_remove S subject) (append_then S issuer subject [event_object iat ''revocation''] (Return ()))))"

definition recordSubordinateEvents ::
  "(string \<Rightarrow> bool) \<Rightarrow> 's storage \<Rightarrow> string \<Rightarrow> string \<Rightarrow> jsval list \<Rightarrow> (authority_error, ('s, unit) tx) result"
where
  "recordSubordinateEvents url_ok S issuer subject events =
     (if \<not> so_events S then Inl (Thrown ''Subordinate event storage is not configured'')
      else
        (case parse_events url_ok events of
           Inl e \<Rightarrow> Inl e
         | Inr parsed \<Rightarrow> Inr (requireTransactionEvents S (append_then S issuer subject parsed (Return ())))))"

section \<open>The interface and its memory implementation\<close>

text \<open>\<open>accepts\<close> and \<open>parsed\<close> are what the event schema accepts and makes of a list of events.\<close>

locale subordinate_storage =
  fixes S :: "'s storage" and ok :: "'s \<Rightarrow> bool" and accepts :: "jsval list \<Rightarrow> bool" and parsed :: "jsval list \<Rightarrow> jsval list"
  assumes get_id: "ok s \<Longrightarrow> so_get S s k = Some r \<Longrightarrow> sr_entityId r = k"
    and add: "ok s \<Longrightarrow> so_add S r s = Inr s' \<Longrightarrow>
      ok s' \<and> so_get S s (sr_entityId r) = None \<and> so_get S s' = (so_get S s)(sr_entityId r \<mapsto> r) \<and>
      so_history S s' = so_history S s"
    and update: "ok s \<Longrightarrow> so_update S now k u s = Inr s' \<Longrightarrow>
      ok s' \<and> so_history S s' = so_history S s \<and>
      (\<exists>r. so_get S s k = Some r \<and> so_get S s' = (so_get S s)(k \<mapsto> updated_record now r u))"
    and remove: "ok s \<Longrightarrow> so_remove S k s = Inr s' \<Longrightarrow>
      ok s' \<and> so_get S s k \<noteq> None \<and> so_get S s' = (so_get S s)(k := None) \<and> so_history S s' = so_history S s"
    and append: "ok s \<Longrightarrow> so_append S i k es s = Inr s' \<Longrightarrow>
      ok s' \<and> accepts es \<and> so_get S s' = so_get S s \<and>
      so_history S s' = (so_history S s)(i := (so_history S s i)(k := so_history S s i k @ parsed es))"
    and names: "accepts es \<Longrightarrow> map (\<lambda>e. mget e ''event'') (parsed es) = map (\<lambda>e. mget e ''event'') es"
begin

lemma await_opD:
  assumes "run_tx (await_op f t) s = Inr (s', a)"
  obtains s1 where "f s = Inr s1" and "run_tx t s1 = Inr (s', a)"
  using assms by (cases "f s") (auto simp: await_op_def)

lemma append_thenD:
  assumes "run_tx (append_then S i k es t) s = Inr (s', a)" and "so_events S"
  obtains s1 where "so_append S i k es s = Inr s1" and "run_tx t s1 = Inr (s', a)"
  using assms by (auto simp: append_then_def elim: await_opD split: if_splits)

lemma requireD: "run_tx (requireTransactionEvents S t) s = Inr (s', a) \<Longrightarrow> run_tx t s = Inr (s', a)"
  by (auto simp: requireTransactionEvents_def split: if_splits)

text \<open>What each operation does to the records and the history, when it succeeds.\<close>

lemma registered:
  assumes "registerSubordinate S i iat r = Inr t" and "run_tx t s = Inr (s', ())" and "ok s" and "so_events S"
  shows "ok s' \<and> so_get S s (sr_entityId r) = None \<and> accepts [event_object iat ''registration''] \<and>
    so_get S s' = (so_get S s)(sr_entityId r \<mapsto> (sanitize r)\<lparr>sr_createdAt := iat, sr_updatedAt := iat\<rparr>) \<and>
    so_history S s' = (so_history S s)(i := (so_history S s i)(sr_entityId r :=
      so_history S s i (sr_entityId r) @ parsed [event_object iat ''registration'']))"
proof -
  let ?r = "(sanitize r)\<lparr>sr_createdAt := iat, sr_updatedAt := iat\<rparr>"
  have ids: "sr_entityId (sanitize r) = sr_entityId r" "sr_entityId ?r = sr_entityId r" by (simp_all add: sanitize_def)
  from assms(1,2) have "run_tx (await_op (so_add S ?r) (append_then S i (sr_entityId r)
      [event_object iat ''registration''] (Return ()))) s = Inr (s', ())"
    by (auto simp: registerSubordinate_def Let_def ids dest: requireD)
  then obtain s1 where s1: "so_add S ?r s = Inr s1"
    and "run_tx (append_then S i (sr_entityId r) [event_object iat ''registration''] (Return ())) s1 = Inr (s', ())"
    by (rule await_opD)
  then obtain s2 where "so_append S i (sr_entityId r) [event_object iat ''registration''] s1 = Inr s2" "s' = s2"
    using assms(4) by (elim append_thenD) auto
  with append [of s1] add [OF assms(3) s1] ids show ?thesis by auto
qed

lemma revoked:
  assumes "revokeSubordinate S i iat k = Inr t" and "run_tx t s = Inr (s', ())" and "ok s" and "so_events S"
  shows "ok s' \<and> so_get S s k \<noteq> None \<and> accepts [event_object iat ''revocation''] \<and> so_get S s' = (so_get S s)(k := None) \<and>
    so_history S s' = (so_history S s)(i := (so_history S s i)(k := so_history S s i k @ parsed [event_object iat ''revocation'']))"
proof -
  from assms(1,2) have "run_tx (await_op (so_remove S k) (append_then S i k [event_object iat ''revocation''] (Return ()))) s = Inr (s', ())"
    by (auto simp: revokeSubordinate_def dest: requireD)
  then obtain s1 where s1: "so_remove S k s = Inr s1"
    and "run_tx (append_then S i k [event_object iat ''revocation''] (Return ())) s1 = Inr (s', ())"
    by (rule await_opD)
  then obtain s2 where "so_append S i k [event_object iat ''revocation''] s1 = Inr s2" "s' = s2"
    using assms(4) by (elim append_thenD) auto
  with append [of s1] remove [OF assms(3) s1] show ?thesis by auto
qed

lemma updated:
  assumes "updateSubordinate nt S i now iat k u = Inr t" and "run_tx t s = Inr (s', ())" and "ok s" and "so_events S"
  obtains r es where "so_get S s k = Some r"
    and "update_events nt r (updated_record now r (sanitize_update u)) = Inr es" and "ok s'"
    and "so_get S s' = (so_get S s)(k \<mapsto> updated_record now r (sanitize_update u))"
    and "es \<noteq> [] \<longrightarrow> accepts (map (event_object iat) es)"
    and "so_history S s' = (so_history S s)(i := (so_history S s i)(k :=
      so_history S s i k @ (if es = [] then [] else parsed (map (event_object iat) es))))"
proof -
  let ?u = "sanitize_update u"
  from assms(1,2) obtain r where r: "so_get S s k = Some r"
    and "run_tx (await_op (so_update S now k ?u) (Read (\<lambda>d'.
               (case so_get S d' k of
                  None \<Rightarrow> Throw (Thrown (''Subordinate '' @ quoted k @ '' disappeared during update''))
                | Some after \<Rightarrow>
                    (case update_events nt r after of
                       Inl e \<Rightarrow> Throw e
                     | Inr eventTypes \<Rightarrow>
                         if length eventTypes > 0
                         then append_then S i k (map (event_object iat) eventTypes) (Return ())
                         else Return ()))))) s = Inr (s', ())"
    unfolding updateSubordinate_def Let_def by (auto dest!: requireD split: option.splits)
  then obtain s1 where s1: "so_update S now k ?u s = Inr s1" and rest: "run_tx (Read (\<lambda>d'.
               (case so_get S d' k of
                  None \<Rightarrow> Throw (Thrown (''Subordinate '' @ quoted k @ '' disappeared during update''))
                | Some after \<Rightarrow>
                    (case update_events nt r after of
                       Inl e \<Rightarrow> Throw e
                     | Inr eventTypes \<Rightarrow>
                         if length eventTypes > 0
                         then append_then S i k (map (event_object iat) eventTypes) (Return ())
                         else Return ())))) s1 = Inr (s', ())"
    by (elim await_opD)
  from update [OF assms(3) s1] r have s1': "ok s1" "so_get S s1 = (so_get S s)(k \<mapsto> updated_record now r ?u)"
    "so_history S s1 = so_history S s" by auto
  with rest obtain es where es: "update_events nt r (updated_record now r ?u) = Inr es"
    and tail: "run_tx (if length es > 0 then append_then S i k (map (event_object iat) es) (Return ()) else Return ()) s1 = Inr (s', ())"
    by (auto split: sum.splits)
  show thesis
  proof (cases "es = []")
    case True
    with tail have "s' = s1" by simp
    with that [OF r es] s1' True show thesis by auto
  next
    case False
    with tail have "run_tx (append_then S i k (map (event_object iat) es) (Return ())) s1 = Inr (s', ())" by simp
    then obtain s2 where "so_append S i k (map (event_object iat) es) s1 = Inr s2" "s' = s2"
      using assms(4) by (elim append_thenD) auto
    with append [OF s1'(1)] that [OF r es] s1' False show thesis by auto
  qed
qed

lemma recorded:
  assumes "recordSubordinateEvents url_ok S i k es = Inr t" and "run_tx t s = Inr (s', ())" and "ok s"
  obtains vs where "parse_events url_ok es = Inr vs" and "accepts vs" and "ok s'" and "so_get S s' = so_get S s"
    and "so_history S s' = (so_history S s)(i := (so_history S s i)(k := so_history S s i k @ parsed vs))"
proof -
  from assms(1) obtain vs where e: "so_events S" and vs: "parse_events url_ok es = Inr vs"
    and t: "t = requireTransactionEvents S (append_then S i k vs (Return ()))"
    by (auto simp: recordSubordinateEvents_def split: if_splits sum.splits)
  from assms(2) have "run_tx (append_then S i k vs (Return ())) s = Inr (s', ())" unfolding t by (rule requireD)
  then obtain s1 where "so_append S i k vs s = Inr s1" "s' = s1" using e by (elim append_thenD) auto
  with append [OF assms(3)] that [OF vs] show thesis by blast
qed

end

lemma parse_event_name:
  assumes "SubordinateEventSchema_parse url_ok e = Inr v"
  shows "mget v ''event'' = mget e ''event''"
proof -
  from assms obtain kvs where e: "e = JObj kvs"
    and v: "v = JObj (concat (map (\<lambda>k. case map_of kvs k of None \<Rightarrow> [] | Some x \<Rightarrow> [(k, x)]) event_members) @
                          filter (\<lambda>(k, _). k \<notin> set event_members) kvs)"
    by (auto simp: SubordinateEventSchema_parse_def split: jsval.splits if_splits)
  have "is_str (pget kvs ''event'')"
    using assms e by (auto simp: SubordinateEventSchema_parse_def valid_event_def split: if_splits)
  then obtain x where "map_of kvs ''event'' = Some x" by (auto simp: pget_def split: option.splits)
  then show ?thesis
    unfolding e v event_members_def by (simp add: pget_def map_add_def split: option.splits)
qed

lemma parse_events_names:
  "parse_events url_ok es = Inr vs \<Longrightarrow> map (\<lambda>e. mget e ''event'') vs = map (\<lambda>e. mget e ''event'') es"
  by (induction es arbitrary: vs) (auto dest: parse_event_name split: sum.splits)

definition parsed_events :: "(string \<Rightarrow> bool) \<Rightarrow> jsval list \<Rightarrow> jsval list" where
  "parsed_events url_ok es = (case parse_events url_ok es of Inl _ \<Rightarrow> [] | Inr vs \<Rightarrow> vs)"

lemma list_events_append:
  assumes "append_events url_ok i k es st = Inr st'"
  shows "list_events st' = (list_events st)(i := (list_events st i)(k := list_events st i k @ parsed_events url_ok es))"
proof -
  obtain vs history where vs: "parse_events url_ok es = Inr vs" and h: "st_subordinateEvents st = Some history"
    using assms by (auto simp: append_events_def split: sum.splits option.splits)
  have at: "list_events st j = (\<lambda>l. or_empty (map_of (or_empty (map_of history j)) l))" for j
    by (auto simp: list_events_def h or_empty_def split: option.splits)
  let ?subjects = "or_empty (map_of history i)"
  have st': "st_subordinateEvents st' =
      Some (AList.update i (AList.update k (or_empty (map_of ?subjects k) @ vs) ?subjects) history)"
    using assms by (auto simp: append_events_def vs h Let_def)
  have "list_events st' j l = ((list_events st)(i := (list_events st i)(k := list_events st i k @ vs))) j l" for j l
    by (simp add: list_events_def [of st'] st' at or_empty_def split: option.splits)
  then show ?thesis by (simp add: fun_eq_iff parsed_events_def vs)
qed

interpretation memory: subordinate_storage "memory_storage url_ok ev" storage_ok
  "\<lambda>es. \<exists>vs. parse_events url_ok es = Inr vs" "parsed_events url_ok" for url_ok ev
proof unfold_locales
  fix s s' r k now u i es
  let ?S = "memory_storage url_ok ev"
  assume ok: "storage_ok s"
  show "sr_entityId r = k" if "so_get ?S s k = Some r"
    using that ok subordinates_ok_get by (auto simp: memory_storage_def get_subordinate_def storage_ok_def)
  show "storage_ok s' \<and> so_get ?S s (sr_entityId r) = None \<and> so_get ?S s' = (so_get ?S s)(sr_entityId r \<mapsto> r) \<and>
      so_history ?S s' = so_history ?S s" if "so_add ?S r s = Inr s'"
    using that ok add_subordinate_ok
    by (auto simp: memory_storage_def add_subordinate_def get_subordinate_def list_events_def fun_eq_iff
        split: sum.splits if_splits)
  show "storage_ok s' \<and> so_history ?S s' = so_history ?S s \<and>
      (\<exists>r. so_get ?S s k = Some r \<and> so_get ?S s' = (so_get ?S s)(k \<mapsto> updated_record now r u))"
    if "so_update ?S now k u s = Inr s'"
    using that ok update_subordinate_ok
    by (auto simp: memory_storage_def update_subordinate_def get_subordinate_def list_events_def fun_eq_iff Let_def
        split: sum.splits option.splits)
  show "storage_ok s' \<and> so_get ?S s k \<noteq> None \<and> so_get ?S s' = (so_get ?S s)(k := None) \<and>
      so_history ?S s' = so_history ?S s" if "so_remove ?S k s = Inr s'"
    using that ok remove_subordinate_ok
    by (auto simp: memory_storage_def remove_subordinate_def get_subordinate_def list_events_def fun_eq_iff
        split: if_splits)
  show "storage_ok s' \<and> (\<exists>vs. parse_events url_ok es = Inr vs) \<and> so_get ?S s' = so_get ?S s \<and>
      so_history ?S s' = (so_history ?S s)(i := (so_history ?S s i)(k := so_history ?S s i k @ parsed_events url_ok es))"
    if "so_append ?S i k es s = Inr s'"
  proof -
    have a: "append_events url_ok i k es s = Inr s'" using that by (simp add: memory_storage_def)
    then have "(\<exists>vs. parse_events url_ok es = Inr vs) \<and> st_subordinates s' = st_subordinates s"
      by (auto simp: append_events_def Let_def split: sum.splits option.splits)
    with append_events_ok [OF a ok] list_events_append [OF a] show ?thesis
      by (simp add: memory_storage_def get_subordinate_def fun_eq_iff)
  qed
next
  fix es
  assume "\<exists>vs. parse_events url_ok es = Inr vs"
  then show "map (\<lambda>e. mget e ''event'') (parsed_events url_ok es) = map (\<lambda>e. mget e ''event'') es"
    using parse_events_names by (auto simp: parsed_events_def)
qed

section \<open>Registration and its history\<close>

text \<open>The registrations and revocations of a history, in order.\<close>

definition status_of :: "jsval \<Rightarrow> string list" where
  "status_of name = (case name of JStr n \<Rightarrow> if n \<in> {''registration'', ''revocation''} then [n] else [] | _ \<Rightarrow> [])"

definition status_names :: "jsval list \<Rightarrow> string list" where
  "status_names h = concat (map status_of (map (\<lambda>e. mget e ''event'') h))"

fun alternates :: "bool \<Rightarrow> string list \<Rightarrow> bool" where
  "alternates reg [] = True"
| "alternates reg (n # ns) = (n = (if reg then ''registration'' else ''revocation'') \<and> alternates (\<not> reg) ns)"

lemma alternates_append:
  "alternates reg (ns @ ms) \<longleftrightarrow> alternates reg ns \<and> alternates (reg = even (length ns)) ms"
  by (induction ns arbitrary: reg) auto

lemma status_names_Nil [simp]: "status_names [] = []"
  by (simp add: status_names_def)

lemma status_names_append [simp]: "status_names (h @ h') = status_names h @ status_names h'"
  by (simp add: status_names_def)

lemma status_names_cong:
  "map (\<lambda>e. mget e ''event'') h = map (\<lambda>e. mget e ''event'') h' \<Longrightarrow> status_names h = status_names h'"
  unfolding status_names_def by (rule arg_cong)

lemma update_events_names:
  "update_events nt r r' = Inr es \<Longrightarrow> set es \<subseteq> {''metadata_update'', ''metadata_policy_update'', ''jwks_update''}"
  by (auto simp: update_events_def Let_def split: sum.splits if_splits)

lemma status_event [simp]:
  "status_names [event_object iat ''registration''] = [''registration'']"
  "status_names [event_object iat ''revocation''] = [''revocation'']"
  by (simp_all add: status_names_def status_of_def event_object_def pget_def)

lemma status_update_events:
  "set es \<subseteq> {''metadata_update'', ''metadata_policy_update'', ''jwks_update''} \<Longrightarrow> status_names (map (event_object iat) es) = []"
  unfolding status_names_def map_map concat_map_Nil by (force simp: status_of_def event_object_def pget_def)

text \<open>A record and its history agree: registrations and revocations alternate, beginning with a
  registration, and the subject is registered exactly when the last of them is a registration.\<close>

definition history_agrees :: "string list \<Rightarrow> bool \<Rightarrow> bool" where
  "history_agrees ns registered \<longleftrightarrow> alternates True ns \<and> (registered \<longleftrightarrow> odd (length ns))"

lemma history_agrees_last:
  "history_agrees ns registered \<Longrightarrow> registered \<longleftrightarrow> ns \<noteq> [] \<and> last ns = ''registration''"
  by (cases ns rule: rev_cases) (auto simp: history_agrees_def alternates_append)

lemma history_agrees_step:
  "history_agrees ns False \<Longrightarrow> history_agrees (ns @ [''registration'']) True"
  "history_agrees ns True \<Longrightarrow> history_agrees (ns @ [''revocation'']) False"
  by (auto simp: history_agrees_def alternates_append)

text \<open>The jobs an authority \<open>i\<close> gives to its storage through the lifecycle. Operators may record further
  events of any kind but registrations and revocations.\<close>

inductive lifecycle_job :: "(string \<Rightarrow> bool) \<Rightarrow> (number \<Rightarrow> string) \<Rightarrow> 's storage \<Rightarrow> string \<Rightarrow> ('s, unit) job \<Rightarrow> bool"
  for url_ok nt S i where
  "registerSubordinate S i iat r = Inr t \<Longrightarrow> lifecycle_job url_ok nt S i (Transaction t)"
| "updateSubordinate nt S i now iat k u = Inr t \<Longrightarrow> lifecycle_job url_ok nt S i (Transaction t)"
| "revokeSubordinate S i iat k = Inr t \<Longrightarrow> lifecycle_job url_ok nt S i (Transaction t)"
| "recordSubordinateEvents url_ok S i k es = Inr t \<Longrightarrow> status_names es = [] \<Longrightarrow>
     lifecycle_job url_ok nt S i (Transaction t)"

context subordinate_storage
begin

definition agrees :: "string \<Rightarrow> 's \<Rightarrow> bool" where
  "agrees i s \<longleftrightarrow> ok s \<and> (\<forall>k. history_agrees (status_names (so_history S s i k)) (so_get S s k \<noteq> None))"

lemma parsed_status: "accepts es \<Longrightarrow> status_names (parsed es) = status_names es"
  by (rule status_names_cong) (rule names)

lemma lifecycle_agrees:
  assumes job: "lifecycle_job url_ok nt S i (Transaction t)" and run: "run_tx t s = Inr (s', ())"
    and before: "agrees i s" and events: "so_events S"
  shows "agrees i s'"
proof -
  have ok: "ok s" and h: "history_agrees (status_names (so_history S s i k)) (so_get S s k \<noteq> None)" for k
    using before by (simp_all add: agrees_def)
  from job show ?thesis
  proof cases
    case (1 iat r)
    from registered [OF 1 run ok events] h [of "sr_entityId r"] h show ?thesis
      unfolding agrees_def by (auto simp: parsed_status history_agrees_step)
  next
    case (2 now iat k u)
    from updated [OF 2 run ok events] obtain r es where r: "so_get S s k = Some r"
      and es: "update_events nt r (updated_record now r (sanitize_update u)) = Inr es" and ok': "ok s'"
      and get: "so_get S s' = (so_get S s)(k \<mapsto> updated_record now r (sanitize_update u))"
      and acc: "es \<noteq> [] \<longrightarrow> accepts (map (event_object iat) es)"
      and hist: "so_history S s' = (so_history S s)(i := (so_history S s i)(k :=
        so_history S s i k @ (if es = [] then [] else parsed (map (event_object iat) es))))" by blast
    have "status_names (if es = [] then [] else parsed (map (event_object iat) es)) = []"
      using parsed_status [OF acc [rule_format]] status_update_events [OF update_events_names [OF es]]
      by simp
    with h r ok' show ?thesis unfolding agrees_def get hist by (auto simp: history_agrees_def)
  next
    case (3 iat k)
    from revoked [OF 3 run ok events] h [of k] h show ?thesis
      unfolding agrees_def by (auto simp: parsed_status history_agrees_step)
  next
    case (4 k es)
    from recorded [OF 4(1) run ok] obtain vs where vs: "parse_events url_ok es = Inr vs" "accepts vs" "ok s'"
      "so_get S s' = so_get S s"
      "so_history S s' = (so_history S s)(i := (so_history S s i)(k := so_history S s i k @ parsed vs))" by blast
    have "status_names (parsed vs) = []"
      using parsed_status [OF vs(2)] status_names_cong [OF parse_events_names [OF vs(1)]] 4(2) by simp
    with h vs show ?thesis by (auto simp: agrees_def)
  qed
qed

text \<open>So it holds in every state that readers see, however the calls interleave.\<close>

lemma run_jobs_agree:
  assumes "\<forall>j \<in> set js. lifecycle_job url_ok nt S i j" and "agrees i s" and "so_events S"
  shows "agrees i (fst (run_jobs js s))"
  using assms
proof (induction js arbitrary: s)
  case (Cons j js)
  have "lifecycle_job url_ok nt S i j" using Cons.prems(1) by simp
  moreover from this obtain t where t: "j = Transaction t" by (auto elim: lifecycle_job.cases)
  ultimately have "agrees i (fst (run_job j s))"
    using lifecycle_agrees [of url_ok nt i t s] Cons.prems(2,3) by (auto split: sum.splits)
  with Cons.IH [of "fst (run_job j s)"] Cons.prems show ?case by (simp add: Let_def case_prod_unfold)
qed simp

end

lemma serial_states: "adapter_run s js A \<Longrightarrow> \<exists>n. ad_state A = fst (run_jobs (take n js) s)"
proof -
  assume "adapter_run s js A"
  from adapter_run_serial [OF this] obtain dn rest where "js = dn @ rest"
    "run_jobs dn s = (ad_state A, ad_settled A)" unfolding serial_def by blast
  then show ?thesis by (intro exI [of _ "length dn"]) simp
qed

text \<open>Conversely, running the calls one after the other is one of the runs.\<close>

definition committed :: "'s \<Rightarrow> (authority_error, 's \<times> 'a) result \<Rightarrow> 's" where
  "committed s r = (case r of Inl _ \<Rightarrow> s | Inr (d, _) \<Rightarrow> d)"

lemma transaction_completes:
  "adapter_run s js A \<Longrightarrow> ad_running A = Some (d, t) \<Longrightarrow>
   \<exists>A'. adapter_run s js A' \<and> ad_running A' = None \<and> ad_waiting A' = ad_waiting A \<and>
     ad_state A' = committed (ad_state A) (run_tx t d)"
proof (induction t arbitrary: A d)
  case (Return a)
  show ?case
    by (rule exI, rule conjI, rule adapter_run.internal [OF Return(1) adapter_step.commit [OF Return(2)]]) (simp add: committed_def)
next
  case (Throw e)
  show ?case
    by (rule exI, rule conjI, rule adapter_run.internal [OF Throw(1) adapter_step.abort [OF Throw(2)]]) (simp add: committed_def)
next
  case (Perform f k)
  have step: "adapter_run s js (A\<lparr>ad_running := Some (advance d (Perform f k))\<rparr>)"
    by (rule adapter_run.internal [OF Perform(2) adapter_step.work [OF Perform(3)]]) simp
  show ?case
  proof (cases "f d")
    case (Inl e)
    with Perform(1) [OF rangeI step, of d "Inl e"] show ?thesis by simp
  next
    case (Inr d')
    with Perform(1) [OF rangeI step, of d' "Inr ()"] show ?thesis by simp
  qed
next
  case (Read k)
  have step: "adapter_run s js (A\<lparr>ad_running := Some (advance d (Read k))\<rparr>)"
    by (rule adapter_run.internal [OF Read(2) adapter_step.work [OF Read(3)]]) simp
  from Read(1) [OF rangeI step, of d d] show ?case by simp
qed

lemma job_completes:
  assumes "adapter_run s js A" and "ad_running A = None" and "ad_waiting A = []"
  shows "\<exists>A'. adapter_run s (js @ [j]) A' \<and> ad_running A' = None \<and> ad_waiting A' = [] \<and>
    ad_state A' = fst (run_job j (ad_state A))"
proof -
  let ?B = "A\<lparr>ad_waiting := ad_waiting A @ [j]\<rparr>"
  have B: "adapter_run s (js @ [j]) ?B" by (rule adapter_run.called [OF assms(1) adapter_step.call])
  show ?thesis
  proof (cases j)
    case (Mutation f)
    obtain s' r where r': "run_job j (ad_state A) = (s', r)" by (meson surj_pair)
    then have r: "run_job (Mutation f) (ad_state A) = (s', r)" using Mutation by simp
    have "adapter_step ?B None (?B\<lparr>ad_waiting := [], ad_state := s', ad_settled := ad_settled ?B @ [r]\<rparr>)"
      by (rule adapter_step.mutate [of _ f]) (use assms r Mutation in simp_all)
    from adapter_run.internal [OF B this] r Mutation assms show ?thesis by force
  next
    case (Transaction t)
    have "adapter_step ?B None (?B\<lparr>ad_waiting := [], ad_running := Some (ad_state ?B, t)\<rparr>)"
      by (rule adapter_step.begin_tx) (use assms Transaction in simp_all)
    from transaction_completes [OF adapter_run.internal [OF B this], of "ad_state A" t] Transaction
    show ?thesis by (auto simp: committed_def split: sum.splits)
  qed
qed

lemma serial_execution:
  "\<exists>A. adapter_run s js A \<and> ad_running A = None \<and> ad_waiting A = [] \<and> ad_state A = fst (run_jobs js s)"
proof (induction js rule: rev_induct)
  case Nil
  show ?case by (rule exI, rule conjI, rule adapter_run.start) (simp add: new_adapter_def)
next
  case (snoc j js)
  then obtain A where "adapter_run s js A" "ad_running A = None" "ad_waiting A = []" "ad_state A = fst (run_jobs js s)"
    by blast
  from job_completes [OF this(1,2,3), of j] this(4) show ?case
    by (simp add: run_jobs_snoc Let_def case_prod_unfold)
qed

section \<open>Properties\<close>

text \<open>
  C15: The event history always agrees with the registrations: in every state a reader of the memory adapter
  can see while lifecycle calls run concurrently, a subject has a record exactly when the last of its
  registration and revocation events is a registration, and these events alternate, beginning with a
  registration. A call that fails half way leaves neither a record without its event nor an event without
  its record.
\<close>
theorem history_matches_registration:
  assumes "adapter_run (MemoryStorageAdapter True marks) js A"
    and "\<forall>j \<in> set js. lifecycle_job url_ok nt (memory_storage url_ok True) issuer j"
  shows "let ns = status_names (list_events (ad_state A) issuer subject) in
    alternates True ns \<and>
    (get_subordinate (ad_state A) subject \<noteq> None \<longleftrightarrow> ns \<noteq> [] \<and> last ns = ''registration'')"
proof -
  let ?S = "memory_storage url_ok True"
  have "memory.agrees url_ok True issuer (MemoryStorageAdapter True marks)"
    unfolding memory.agrees_def
  proof (intro conjI allI)
    show "storage_ok (MemoryStorageAdapter True marks)" by (rule storage_ok_initial)
  qed (simp add: memory_storage_def MemoryStorageAdapter_def get_subordinate_def list_events_def
      history_agrees_def status_names_def)
  moreover obtain n where A: "ad_state A = fst (run_jobs (take n js) (MemoryStorageAdapter True marks))"
    using serial_states [OF assms(1)] by blast
  ultimately have "memory.agrees url_ok True issuer (ad_state A)"
    unfolding A
  proof (intro memory.run_jobs_agree)
    show "\<forall>j \<in> set (take n js). lifecycle_job url_ok nt ?S issuer j" using assms(2) by (blast dest: in_set_takeD)
    show "so_events ?S" by (simp add: memory_storage_def)
  qed
  then have "history_agrees (status_names (list_events (ad_state A) issuer subject)) (get_subordinate (ad_state A) subject \<noteq> None)"
    unfolding memory.agrees_def by (simp add: memory_storage_def)
  with history_agrees_last [OF this] show ?thesis by (auto simp: Let_def history_agrees_def)
qed

text \<open>A subject that is registered, then revoked.\<close>

definition example_calls :: "(memory_state, unit) job list" where
  "example_calls =
     map (\<lambda>c. case c of Inr t \<Rightarrow> Transaction t | Inl e \<Rightarrow> Transaction (Throw e))
       [registerSubordinate (memory_storage (\<lambda>_. True) True) ''https://ta'' 5 example_record,
        revokeSubordinate (memory_storage (\<lambda>_. True) True) ''https://ta'' 9 ''https://leaf'']"

theorem history_matches_registration_witness:
  "\<exists>A. adapter_run (MemoryStorageAdapter True False) example_calls A \<and>
     status_names (list_events (ad_state A) ''https://ta'' ''https://leaf'') = [''registration'', ''revocation''] \<and>
     get_subordinate (ad_state A) ''https://leaf'' = None"
proof -
  obtain A where A: "adapter_run (MemoryStorageAdapter True False) example_calls A"
    and state: "ad_state A = fst (run_jobs example_calls (MemoryStorageAdapter True False))"
    using serial_execution [of "MemoryStorageAdapter True False" example_calls] by (elim exE conjE)
  have ns: "status_names (list_events (ad_state A) ''https://ta'' ''https://leaf'') = [''registration'', ''revocation'']"
    unfolding state by code_simp
  have jobs: "\<forall>j \<in> set example_calls. lifecycle_job (\<lambda>_. True) fraction_text (memory_storage (\<lambda>_. True) True) ''https://ta'' j"
    by (auto simp: example_calls_def registerSubordinate_def revokeSubordinate_def Let_def intro: lifecycle_job.intros(1,3))
  from history_matches_registration [OF A jobs, of "''https://leaf''"] ns A show ?thesis
    by (auto simp: Let_def)
qed

section \<open>What an update records\<close>

definition public_keys :: "subordinate_record \<Rightarrow> (string, jsval dict) result list" where
  "public_keys r = map (\<lambda>key. stripPrivateFields (entries key)) (items (mget (sr_jwks r) ''keys''))"

lemma canonical_keys_iff:
  "canonical_keys nt keys = Inr ts \<longleftrightarrow>
     (\<exists>pubs. map (\<lambda>key. stripPrivateFields (entries key)) keys = map Inr pubs \<and> ts = map (\<lambda>p. canonical nt (JObj p)) pubs)"
proof (induction keys arbitrary: ts)
  case (Cons key keys)
  show ?case
  proof (cases "stripPrivateFields (entries key)")
    case (Inl e)
    then show ?thesis by (auto simp: Cons_eq_map_conv)
  next
    case (Inr pub)
    have "canonical_keys nt (key # keys) = Inr ts \<longleftrightarrow> (\<exists>us. canonical_keys nt keys = Inr us \<and> ts = canonical nt (JObj pub) # us)"
      using Inr by (auto split: sum.splits)
    also have "\<dots> \<longleftrightarrow> (\<exists>pubs. map (\<lambda>key. stripPrivateFields (entries key)) keys = map Inr pubs \<and>
        ts = map (\<lambda>p. canonical nt (JObj p)) (pub # pubs))"
      unfolding Cons.IH by auto
    also have "\<dots> \<longleftrightarrow> (\<exists>pubs. map (\<lambda>key. stripPrivateFields (entries key)) (key # keys) = map Inr pubs \<and>
        ts = map (\<lambda>p. canonical nt (JObj p)) pubs)" (is "?L \<longleftrightarrow> ?R")
    proof
      assume ?L
      then obtain pubs where "map (\<lambda>key. stripPrivateFields (entries key)) keys = map Inr pubs"
        "ts = map (\<lambda>p. canonical nt (JObj p)) (pub # pubs)" by (elim exE conjE)
      with Inr show ?R by (intro exI [of _ "pub # pubs"]) simp
    next
      assume ?R
      then obtain qs where qs: "map (\<lambda>key. stripPrivateFields (entries key)) (key # keys) = map Inr qs"
        "ts = map (\<lambda>p. canonical nt (JObj p)) qs" by (elim exE conjE)
      with Inr obtain pubs where "qs = pub # pubs" by (cases qs) auto
      with qs show ?L by (intro exI [of _ pubs]) simp
    qed
    finally show ?thesis .
  qed
qed auto

lemma mset_map_decides:
  assumes "\<And>x y. x \<in> set xs \<Longrightarrow> y \<in> set ys \<Longrightarrow> f x = f y \<longleftrightarrow> g x = g y"
    and "\<And>x y. x \<in> set xs \<Longrightarrow> y \<in> set xs \<Longrightarrow> f x = f y \<longleftrightarrow> g x = g y"
    and "\<And>x y. x \<in> set ys \<Longrightarrow> y \<in> set ys \<Longrightarrow> f x = f y \<longleftrightarrow> g x = g y"
  shows "mset (map f xs) = mset (map f ys) \<longleftrightarrow> mset (map g xs) = mset (map g ys)"
proof -
  have same: "f x = f y \<longleftrightarrow> g x = g y" if "x \<in> set xs \<union> set ys" "y \<in> set xs \<union> set ys" for x y
    using assms that by (metis UnE)
  have one: "mset (map p xs) = mset (map p ys) \<Longrightarrow> mset (map q xs) = mset (map q ys)"
    if "\<And>x y. x \<in> set xs \<union> set ys \<Longrightarrow> y \<in> set xs \<union> set ys \<Longrightarrow> p x = p y \<Longrightarrow> q x = q y" for p :: "'a \<Rightarrow> 'd" and q :: "'a \<Rightarrow> 'e"
  proof -
    assume eq: "mset (map p xs) = mset (map p ys)"
    define h where "h t = q (SOME x. x \<in> set xs \<union> set ys \<and> p x = t)" for t
    have h: "h (p x) = q x" if "x \<in> set xs \<union> set ys" for x
    proof -
      let ?x = "SOME y. y \<in> set xs \<union> set ys \<and> p y = p x"
      have "?x \<in> set xs \<union> set ys \<and> p ?x = p x" by (rule someI [of _ x]) (use that in simp)
      with \<open>\<And>x y. x \<in> set xs \<union> set ys \<Longrightarrow> y \<in> set xs \<union> set ys \<Longrightarrow> p x = p y \<Longrightarrow> q x = q y\<close> that
      show ?thesis unfolding h_def by blast
    qed
    have "image_mset h (mset (map p xs)) = image_mset h (mset (map p ys))" using eq by simp
    moreover have "map h (map p zs) = map q zs" if "set zs \<subseteq> set xs \<union> set ys" for zs using that h by auto
    ultimately show "mset (map q xs) = mset (map q ys)" by (metis mset_map Un_upper1 Un_upper2)
  qed
  show ?thesis using one [of f g] one [of g f] same by blast
qed

lemma sort_eq_iff_mset: "sort xs = sort ys \<longleftrightarrow> mset xs = mset (ys :: string list)"
  by (metis mset_sort sorted_list_of_multiset_mset)

text \<open>The keys of two records, as far as they are public and up to their order and that of their members.\<close>

definition same_public_keys :: "subordinate_record \<Rightarrow> subordinate_record \<Rightarrow> bool" where
  "same_public_keys r r' \<longleftrightarrow>
     (\<exists>ps qs. public_keys r = map Inr ps \<and> public_keys r' = map Inr qs \<and>
        mset (map (\<lambda>p. ordered (JObj p)) ps) = mset (map (\<lambda>p. ordered (JObj p)) qs))"

definition plain_record :: "subordinate_record \<Rightarrow> bool" where
  "plain_record r \<longleftrightarrow> (sr_metadata r = JUndef \<or> plain (sr_metadata r)) \<and>
     (sr_metadataPolicy r = JUndef \<or> plain (sr_metadataPolicy r)) \<and> plain (sr_jwks r)"

lemma plain_public_key:
  assumes "plain_record r" and "Inr p \<in> set (public_keys r)"
  shows "plain (JObj p)"
proof -
  from assms(2) obtain key where key: "key \<in> set (items (mget (sr_jwks r) ''keys''))"
    and p: "stripPrivateFields (entries key) = Inr p" by (auto simp: public_keys_def)
  from assms(1) have "plain (mget (sr_jwks r) ''keys'') \<or> mget (sr_jwks r) ''keys'' = JUndef"
    by (cases "sr_jwks r") (auto simp: plain_record_def list_all_iff pget_def dest: map_of_SomeD split: option.splits)
  with key have "plain key" by (cases "mget (sr_jwks r) ''keys''") (auto simp: list_all_iff)
  then have "plain (JObj (entries key))"
    by (cases key) (auto simp: list_all_iff comp_def map_fst_zip inj_on_def dest: set_zip_rightD
        intro!: distinct_map [THEN iffD2])
  with p show ?thesis
    by (auto simp: stripPrivateFields_def list_all_iff intro: distinct_fst_filter split: if_splits)
qed

lemma publicKeys_decides:
  assumes nt: "number_text_ok nt" and plain: "plain_record r" "plain_record r'"
    and keys: "publicKeys nt r = Inr kb" "publicKeys nt r' = Inr ka"
  shows "kb = ka \<longleftrightarrow> same_public_keys r r'"
proof -
  obtain ps where ps: "public_keys r = map Inr ps" "kb = canonical nt (JArr (map JStr (sort (map (\<lambda>p. canonical nt (JObj p)) ps))))"
    using keys(1) by (auto simp: publicKeys_def public_keys_def canonical_keys_iff split: sum.splits)
  obtain qs where qs: "public_keys r' = map Inr qs" "ka = canonical nt (JArr (map JStr (sort (map (\<lambda>p. canonical nt (JObj p)) qs))))"
    using keys(2) by (auto simp: publicKeys_def public_keys_def canonical_keys_iff split: sum.splits)
  have plain_keys: "plain (JObj p)" if "p \<in> set ps \<union> set qs" for p
    using that plain_public_key [OF plain(1), of p] plain_public_key [OF plain(2), of p] ps(1) qs(1) by auto
  have decide: "canonical nt (JObj p) = canonical nt (JObj q) \<longleftrightarrow> ordered (JObj p) = ordered (JObj q)"
    if "p \<in> set ps \<union> set qs" "q \<in> set ps \<union> set qs" for p q
    using canonical_decides [OF nt plain_keys plain_keys] that by blast
  have strs: "plain (JArr (map JStr xs))" "ordered (JArr (map JStr xs)) = JArr (map JStr xs)" for xs
    by (simp_all add: list_all_iff comp_def)
  have "kb = ka \<longleftrightarrow> sort (map (\<lambda>p. canonical nt (JObj p)) ps) = sort (map (\<lambda>p. canonical nt (JObj p)) qs)"
    unfolding ps(2) qs(2) canonical_decides [OF nt strs(1) strs(1)] strs(2) by (simp add: inj_map_eq_map inj_def)
  also have "\<dots> \<longleftrightarrow> mset (map (\<lambda>p. canonical nt (JObj p)) ps) = mset (map (\<lambda>p. canonical nt (JObj p)) qs)"
    by (rule sort_eq_iff_mset)
  also have "\<dots> \<longleftrightarrow> mset (map (\<lambda>p. ordered (JObj p)) ps) = mset (map (\<lambda>p. ordered (JObj p)) qs)"
    by (rule mset_map_decides) (rule decide; simp)+
  also have "\<dots> \<longleftrightarrow> same_public_keys r r'"
    unfolding same_public_keys_def ps(1) qs(1) by (auto simp: inj_map_eq_map inj_def dest!: map_injective)
  finally show ?thesis .
qed

lemma sanitized_plain: "v = JUndef \<or> plain v \<Longrightarrow> sanitizeSubordinateMetadata v = JUndef \<or> plain (sanitizeSubordinateMetadata v)"
  using sanitized_metadata_parts(4) by (cases v) (auto simp: sanitizeSubordinateMetadata_def)

lemma parse_event: "SubordinateEventSchema_parse url_ok (event_object iat n) = Inr (event_object iat n)"
  by (simp add: SubordinateEventSchema_parse_def event_object_def valid_event_def event_members_def pget_def)

lemma parsed_own_events: "parsed_events url_ok (map (event_object iat) es) = map (event_object iat) es"
proof -
  have "parse_events url_ok (map (event_object iat) es) = Inr (map (event_object iat) es)"
    by (induction es) (simp_all add: parse_event)
  then show ?thesis by (simp add: parsed_events_def)
qed

lemma memory_storage_sel:
  "so_get (memory_storage url_ok ev) = get_subordinate" "so_history (memory_storage url_ok ev) = list_events"
  by (simp_all add: memory_storage_def)

lemma update_events_exact:
  assumes nt: "number_text_ok nt" and plain: "plain_record r" "plain_record r'" and es: "update_events nt r r' = Inr es"
  shows "es =
    (if same_json (sanitizeSubordinateMetadata (sr_metadata r)) (sanitizeSubordinateMetadata (sr_metadata r')) then []
     else [''metadata_update'']) @
    (if same_json (sr_metadataPolicy r) (sr_metadataPolicy r') then [] else [''metadata_policy_update'']) @
    (if same_public_keys r r' then [] else [''jwks_update''])"
proof -
  from es obtain kb ka where keys: "publicKeys nt r = Inr kb" "publicKeys nt r' = Inr ka"
    by (auto simp: update_events_def Let_def split: sum.splits)
  have md: "canonical nt (sanitizeSubordinateMetadata (sr_metadata r)) = canonical nt (sanitizeSubordinateMetadata (sr_metadata r')) \<longleftrightarrow>
      same_json (sanitizeSubordinateMetadata (sr_metadata r)) (sanitizeSubordinateMetadata (sr_metadata r'))"
    by (rule canonical_same [OF nt]; rule sanitized_plain) (use plain in \<open>auto simp: plain_record_def\<close>)
  have pol: "canonical nt (sr_metadataPolicy r) = canonical nt (sr_metadataPolicy r') \<longleftrightarrow>
      same_json (sr_metadataPolicy r) (sr_metadataPolicy r')"
    by (rule canonical_same [OF nt]) (use plain in \<open>auto simp: plain_record_def\<close>)
  from es keys show ?thesis
    unfolding update_events_def Let_def by (auto simp: md pol publicKeys_decides [OF nt plain keys])
qed

text \<open>The comparison of the keys throws for a symmetric key, and with it the update.\<close>

lemma update_fails:
  assumes "updateSubordinate nt S i now iat k u = Inr t"
    and "so_get S s k = None \<or> (\<exists>r e. so_get S s k = Some r \<and> Inl e \<in> set (public_keys r))"
  shows "\<exists>e. run_tx t s = Inl e"
proof (cases "so_get S s k")
  case None
  with assms(1) show ?thesis by (auto simp: updateSubordinate_def Let_def requireTransactionEvents_def)
next
  case (Some r)
  with assms(2) obtain e where e: "Inl e \<in> set (public_keys r)" by auto
  have "\<nexists>ts. canonical_keys nt (items (mget (sr_jwks r) ''keys'')) = Inr ts"
  proof
    assume "\<exists>ts. canonical_keys nt (items (mget (sr_jwks r) ''keys'')) = Inr ts"
    then obtain pubs :: "jsval dict list" where "public_keys r = map Inr pubs"
      unfolding canonical_keys_iff public_keys_def by (elim exE conjE)
    with e show False by auto
  qed
  then have "\<exists>e. publicKeys nt r = Inl e" by (auto simp: publicKeys_def split: sum.splits)
  then obtain e' where none: "update_events nt r r' = Inl e'" for r' by (auto simp: update_events_def Let_def)
  show ?thesis
    using assms(1) Some by (auto simp: updateSubordinate_def Let_def requireTransactionEvents_def await_op_def none
        split: option.splits sum.splits)
qed

text \<open>
  C37: An update writes its changes and documents exactly them: after an update that succeeds, the record
  is the old one with the given members replaced, and the history of the subject has grown by one event
  for each of metadata, metadata policy and public keys that changed, where the order of members, the order of
  keys and private key members do not count as changes; nothing else changes. It fails, and changes nothing,
  when the subject is not registered or holds a symmetric key.
\<close>
theorem update_documents_changes:
  fixes st :: memory_state
  assumes "number_text_ok nt" and "storage_ok st"
    and "updateSubordinate nt (memory_storage url_ok True) issuer now iat subject u = Inr t"
    and "\<forall>r. get_subordinate st subject = Some r \<longrightarrow>
      plain_record r \<and> plain_record (updated_record now r (sanitize_update u))"
  shows "(case run_job (Transaction t) st of
      (st', Inr _) \<Rightarrow> \<exists>r r'. get_subordinate st subject = Some r \<and> r' = updated_record now r (sanitize_update u) \<and>
        get_subordinate st' = (get_subordinate st)(subject \<mapsto> r') \<and>
        list_events st' = (list_events st)(issuer := (list_events st issuer)(subject :=
          list_events st issuer subject @ map (event_object iat)
           ((if same_json (sanitizeSubordinateMetadata (sr_metadata r)) (sanitizeSubordinateMetadata (sr_metadata r'))
             then [] else [''metadata_update'']) @
            (if same_json (sr_metadataPolicy r) (sr_metadataPolicy r') then [] else [''metadata_policy_update'']) @
            (if same_public_keys r r' then [] else [''jwks_update'']))))
    | (st', Inl _) \<Rightarrow> st' = st) \<and>
    (get_subordinate st subject = None \<or> (\<exists>r e. get_subordinate st subject = Some r \<and> Inl e \<in> set (public_keys r)) \<longrightarrow>
       (\<exists>e. run_job (Transaction t) st = (st, Inl e)))" (is "?first \<and> ?second")
proof
  show ?second
  proof
    assume "get_subordinate st subject = None \<or> (\<exists>r e. get_subordinate st subject = Some r \<and> Inl e \<in> set (public_keys r))"
    then obtain e where "run_tx t st = Inl e" using update_fails [OF assms(3), of st] unfolding memory_storage_sel by blast
    then show "\<exists>e. run_job (Transaction t) st = (st, Inl e)" by simp
  qed
  show ?first
  proof (cases "run_tx t st")
    case (Inl e)
    then show ?thesis by simp
  next
    case (Inr res)
    then obtain st' where run: "run_tx t st = Inr (st', ())" by (cases res) auto
    have ev: "so_events (memory_storage url_ok True)" by (simp add: memory_storage_def)
    obtain r es where
      r: "get_subordinate st subject = Some r"
      and es: "update_events nt r (updated_record now r (sanitize_update u)) = Inr es" and "storage_ok st'"
      and get: "get_subordinate st' = (get_subordinate st)(subject \<mapsto> updated_record now r (sanitize_update u))"
      and "es \<noteq> [] \<longrightarrow> (\<exists>vs. parse_events url_ok (map (event_object iat) es) = Inr vs)"
      and hist: "list_events st' = (list_events st)(issuer := (list_events st issuer)(subject :=
        list_events st issuer subject @ (if es = [] then [] else parsed_events url_ok (map (event_object iat) es))))"
      by (rule memory.updated [OF assms(3) run assms(2) ev, unfolded memory_storage_sel])
    have tail: "(if es = [] then [] else parsed_events url_ok (map (event_object iat) es)) = map (event_object iat) es"
      by (simp add: parsed_own_events)
    from assms(4) r have plain: "plain_record r" "plain_record (updated_record now r (sanitize_update u))" by auto
    show ?thesis
      unfolding run_job.simps run sum.case prod.case
      by (rule exI [of _ r], rule exI [of _ "updated_record now r (sanitize_update u)"], intro conjI refl r get,
          rule hist [unfolded tail, unfolded update_events_exact [OF assms(1) plain es]])
  qed
qed

text \<open>The record of the example gets a new contact and keeps the rest.\<close>

definition example_update :: subordinate_update where
  "example_update = \<lparr>su_jwks = None, su_metadata = Some (JObj [(''federation_entity'', JObj [(''contacts'', JNum 2)])]),
     su_metadataPolicy = None, su_constraints = None, su_entityTypes = None, su_isIntermediate = None,
     su_sourceEndpoint = None, su_crit = None, su_metadataPolicyCrit = None\<rparr>"

definition example_registered :: memory_state where
  "example_registered = perform_all (\<lambda>_. True) [AddSubordinate example_record] (MemoryStorageAdapter True False)"

definition example_update_tx :: "(memory_state, unit) tx" where
  "example_update_tx =
     (case updateSubordinate fraction_text (memory_storage (\<lambda>_. True) True) ''https://ta'' 7 8 ''https://leaf'' example_update of
        Inr t \<Rightarrow> t | Inl e \<Rightarrow> Throw e)"

lemma example_update_job:
  "snd (run_job (Transaction example_update_tx) example_registered) = Inr (Some ())"
  by code_simp

theorem update_documents_changes_witness:
  "\<exists>st' r'. run_job (Transaction example_update_tx) example_registered = (st', Inr (Some ())) \<and>
     get_subordinate st' ''https://leaf'' = Some r' \<and> sr_updatedAt r' = 7 \<and>
     list_events st' ''https://ta'' ''https://leaf'' = [event_object 8 ''metadata_update'']"
proof -
  have ok: "storage_ok example_registered" by code_simp
  have t: "updateSubordinate fraction_text (memory_storage (\<lambda>_. True) True) ''https://ta'' 7 8 ''https://leaf'' example_update = Inr example_update_tx"
    by (simp add: example_update_tx_def updateSubordinate_def Let_def)
  have r: "get_subordinate example_registered ''https://leaf'' = Some example_record" by code_simp
  let ?r' = "updated_record 7 example_record (sanitize_update example_update)"
  have "plain_record example_record" "plain_record ?r'" by code_simp+
  then have plain: "\<forall>r. get_subordinate example_registered ''https://leaf'' = Some r \<longrightarrow>
      plain_record r \<and> plain_record (updated_record 7 r (sanitize_update example_update))" using r by simp
  obtain st' where run: "run_job (Transaction example_update_tx) example_registered = (st', Inr (Some ()))"
    using example_update_job by (metis prod.collapse)
  from update_documents_changes [OF fraction_text_ok ok t plain, THEN conjunct1] run r
  have get: "get_subordinate st' = (get_subordinate example_registered)(''https://leaf'' \<mapsto> ?r')"
    and hist: "list_events st' ''https://ta'' ''https://leaf'' =
      list_events example_registered ''https://ta'' ''https://leaf'' @ map (event_object 8)
           ((if same_json (sanitizeSubordinateMetadata (sr_metadata example_record)) (sanitizeSubordinateMetadata (sr_metadata ?r'))
             then [] else [''metadata_update'']) @
            (if same_json (sr_metadataPolicy example_record) (sr_metadataPolicy ?r') then [] else [''metadata_policy_update'']) @
            (if same_public_keys example_record ?r' then [] else [''jwks_update'']))"
    by auto
  have "\<not> same_json (sanitizeSubordinateMetadata (sr_metadata example_record)) (sanitizeSubordinateMetadata (sr_metadata ?r'))"
    "same_json (sr_metadataPolicy example_record) (sr_metadataPolicy ?r')"
    "list_events example_registered ''https://ta'' ''https://leaf'' = []" by code_simp+
  moreover have "same_public_keys example_record ?r'"
  proof -
    have "public_keys example_record = []" "public_keys ?r' = []" by code_simp+
    then show ?thesis by (simp add: same_public_keys_def)
  qed
  ultimately have "list_events st' ''https://ta'' ''https://leaf'' = [event_object 8 ''metadata_update'']" using hist by simp
  moreover have "sr_updatedAt ?r' = 7" by (simp add: updated_record_def)
  ultimately show ?thesis using run get by auto
qed

end
