(* ===== verification/Http_Handlers.thy ===== *)
theory Http_Handlers
  imports Http_Fetch
begin

text \<open>
  packages/core/src/http.ts, the half that serves: responses with their security headers, public errors,
  method checks, parameters and bounded request bodies.

  A request is what the handlers read of it: method, path, query parameters in order, headers by
  lower-case name, and the chunks of its body. A JSON body of a response is the value that is printed.
\<close>

section \<open>Requests and responses\<close>

type_synonym url_params = "(string \<times> string) list"

record request_body =
  rb_chunks :: "byte list list"
  rb_fails :: bool \<comment> \<open>the read after the last chunk throws\<close>

record server_request =
  sq_method :: string
  sq_path :: string
  sq_query :: url_params
  sq_headers :: "string dict"
  sq_body :: "request_body option"

datatype response_body = JwtBody string | JsonBody jsval

record server_response =
  sp_status :: nat
  sp_headers :: "string dict"
  sp_body :: response_body

text \<open>\<open>URLSearchParams\<close>.\<close>

definition param :: "url_params \<Rightarrow> string \<Rightarrow> string option" where
  "param ps k = map_of ps k"

definition all_params :: "url_params \<Rightarrow> string \<Rightarrow> string list" where
  "all_params ps k = map snd (filter (\<lambda>(j, _). j = k) ps)"

definition has_param :: "url_params \<Rightarrow> string \<Rightarrow> bool" where
  "has_param ps k \<longleftrightarrow> k \<in> fst ` set ps"

definition without_param :: "url_params \<Rightarrow> string \<Rightarrow> url_params" where
  "without_param ps k = filter (\<lambda>(j, _). j \<noteq> k) ps"

definition SECURITY_HEADERS :: "string dict" where
  "SECURITY_HEADERS =
     [(''Cache-Control'', ''no-store''),
      (''X-Content-Type-Options'', ''nosniff''),
      (''Strict-Transport-Security'', ''max-age=31536000; includeSubDomains''),
      (''X-Frame-Options'', ''DENY''),
      (''Referrer-Policy'', ''no-referrer'')]"

definition jwtResponse :: "string \<Rightarrow> string \<Rightarrow> server_response" where
  "jwtResponse jwt mediaType =
     \<lparr>sp_status = 200, sp_headers = AList.update ''Content-Type'' mediaType SECURITY_HEADERS, sp_body = JwtBody jwt\<rparr>"

definition jsonResponse :: "jsval \<Rightarrow> nat \<Rightarrow> server_response" where
  "jsonResponse body status =
     \<lparr>sp_status = status, sp_headers = AList.update ''Content-Type'' ''application/json'' SECURITY_HEADERS,
      sp_body = JsonBody body\<rparr>"

definition errorResponse :: "nat \<Rightarrow> string \<Rightarrow> string \<Rightarrow> server_response" where
  "errorResponse status c d = jsonResponse (JObj [(''error'', JStr c), (''error_description'', JStr d)]) status"

section \<open>Public errors\<close>

definition errorCodeToStatus :: "string \<Rightarrow> nat" where
  "errorCodeToStatus c =
     (if c \<in> set [''invalid_request'', ''invalid_trust_chain'', ''invalid_metadata'', ''unsupported_parameter'',
                 ''unsupported_claim''] then 400
      else if c = ''invalid_client'' then 401
      else if c \<in> set [''not_found'', ''page_not_found'', ''invalid_issuer'', ''invalid_subject'', ''invalid_trust_anchor'']
      then 404
      else if c = ''temporarily_unavailable'' then 503
      else 500)"

record public_error =
  pe_status :: nat
  pe_code :: string
  pe_description :: string

definition toPublicError :: "fed_error \<Rightarrow> public_error" where
  "toPublicError e =
     (let public = code e \<in> set FederationErrorCodes;
          c = (if public then code e else ''server_error'')
      in \<lparr>pe_status = errorCodeToStatus c, pe_code = c,
          pe_description = (if public then description e else ''An internal error occurred'')\<rparr>)"

section \<open>Methods\<close>

text \<open>\<open>toUpperCase\<close> on a method, which is an ASCII token.\<close>

definition upper_char :: "char \<Rightarrow> char" where
  "upper_char c = (let n = of_char c :: nat in if 97 \<le> n \<and> n \<le> 122 then char_of (n - 32) else c)"

definition upper :: "string \<Rightarrow> string" where
  "upper s = map upper_char s"

definition method_not_allowed :: "string \<Rightarrow> server_response" where
  "method_not_allowed allow =
     \<lparr>sp_status = 405,
      sp_headers = AList.update ''Content-Type'' ''application/json'' (AList.update ''Allow'' allow SECURITY_HEADERS),
      sp_body = JsonBody (JObj [(''error'', JStr ''method_not_allowed'')])\<rparr>"

text \<open>\<open>None\<close> is \<open>null\<close>: the method is allowed.\<close>

definition requireMethod :: "server_request \<Rightarrow> string \<Rightarrow> server_response option" where
  "requireMethod request method' =
     (if upper (sq_method request) \<noteq> upper method' then Some (method_not_allowed method') else None)"

definition requireMethods :: "server_request \<Rightarrow> string list \<Rightarrow> server_response option" where
  "requireMethods request methods =
     (if list_ex (\<lambda>m. upper m = upper (sq_method request)) methods then None
      else Some (method_not_allowed (join_with '', '' methods)))"

section \<open>Bodies\<close>

text \<open>\<open>Inl\<close>: reading throws. \<open>Inr None\<close> is \<open>{ok: false}\<close>.\<close>

fun read_chunks :: "int \<Rightarrow> byte list list \<Rightarrow> bool \<Rightarrow> int \<Rightarrow> byte list \<Rightarrow> (unit, byte list option) result" where
  "read_chunks maxBytes [] fails received acc = (if fails then Inl () else Inr (Some acc))"
| "read_chunks maxBytes (chunk # chunks) fails received acc =
     (if received + int (length chunk) > maxBytes then Inr None
      else read_chunks maxBytes chunks fails (received + int (length chunk)) (acc @ chunk))"

definition readStreamWithLimit :: "(byte list \<Rightarrow> string) \<Rightarrow> request_body \<Rightarrow> int \<Rightarrow> (unit, string option) result" where
  "readStreamWithLimit decode body maxBytes =
     (case read_chunks maxBytes (rb_chunks body) (rb_fails body) 0 [] of
        Inl e \<Rightarrow> Inl e
      | Inr None \<Rightarrow> Inr None
      | Inr (Some bytes) \<Rightarrow> Inr (Some (decode bytes)))"

definition readBodyWithLimit :: "(byte list \<Rightarrow> string) \<Rightarrow> server_request \<Rightarrow> int \<Rightarrow> (unit, string option) result" where
  "readBodyWithLimit decode request maxBytes =
     (case sq_body request of
        None \<Rightarrow> Inr None
      | Some body \<Rightarrow>
          if declared_too_large (map_of (sq_headers request) ''content-length'') maxBytes then Inr None
          else readStreamWithLimit decode body maxBytes)"

text \<open>\<open>request.text()\<close>: the whole body, an absent one is empty.\<close>

definition request_text :: "(byte list \<Rightarrow> string) \<Rightarrow> server_request \<Rightarrow> (unit, string) result" where
  "request_text decode request =
     (case sq_body request of
        None \<Rightarrow> Inr (decode [])
      | Some body \<Rightarrow> if rb_fails body then Inl () else Inr (decode (concat (rb_chunks body))))"

record extracted_params =
  ep_params :: url_params
  ep_clientAssertion :: "string option"
  ep_clientAssertionType :: "string option"

text \<open>\<open>form\<close> is \<open>new URLSearchParams(text)\<close>.\<close>

definition extractRequestParams ::
  "(byte list \<Rightarrow> string) \<Rightarrow> (string \<Rightarrow> url_params) \<Rightarrow> server_request \<Rightarrow> (unit, extracted_params) result"
where
  "extractRequestParams decode form request =
     (if upper (sq_method request) = ''POST'' then
        (case request_text decode request of
           Inl e \<Rightarrow> Inl e
         | Inr text \<Rightarrow>
             (let allParams = form text in
              Inr \<lparr>ep_params = without_param (without_param allParams ''client_assertion'') ''client_assertion_type'',
                   ep_clientAssertion = param allParams ''client_assertion'',
                   ep_clientAssertionType = param allParams ''client_assertion_type''\<rparr>))
      else Inr \<lparr>ep_params = sq_query request, ep_clientAssertion = None, ep_clientAssertionType = None\<rparr>)"

section \<open>What the helpers guarantee\<close>

lemma read_chunks_iff:
  "read_chunks maxBytes chunks fails received acc = Inr (Some bytes) \<longleftrightarrow>
     \<not> fails \<and> bytes = acc @ concat chunks \<and> (chunks = [] \<or> received + int (length (concat chunks)) \<le> maxBytes)"
proof (induction maxBytes chunks fails received acc rule: read_chunks.induct)
  case (2 maxBytes chunk chunks fails received acc)
  then show ?case by (cases "received + int (length chunk) > maxBytes"; cases chunks) (auto simp: algebra_simps)
qed auto

text \<open>A body that is read is complete and within the limit.\<close>

lemma body_read_iff:
  "readBodyWithLimit decode request maxBytes = Inr (Some text) \<longleftrightarrow>
     (\<exists>body. sq_body request = Some body \<and> \<not> rb_fails body \<and> text = decode (concat (rb_chunks body)) \<and>
        \<not> declared_too_large (map_of (sq_headers request) ''content-length'') maxBytes \<and>
        (rb_chunks body = [] \<or> int (length (concat (rb_chunks body))) \<le> maxBytes))"
proof -
  have "readStreamWithLimit decode body maxBytes = Inr (Some text) \<longleftrightarrow>
      (\<exists>bytes. read_chunks maxBytes (rb_chunks body) (rb_fails body) 0 [] = Inr (Some bytes) \<and> text = decode bytes)" for body
    by (auto simp: readStreamWithLimit_def split: sum.splits option.splits)
  then show ?thesis
    by (auto simp: readBodyWithLimit_def read_chunks_iff split: option.splits if_splits)
qed

text \<open>Internal errors never reach a client: what is not a public code becomes a server error with a fixed
  description.\<close>

lemma public_error_sound:
  "pe_code (toPublicError e) \<in> set FederationErrorCodes"
  "pe_status (toPublicError e) \<in> {400, 401, 404, 500, 503}"
  "code e \<notin> set FederationErrorCodes \<Longrightarrow> pe_description (toPublicError e) = ''An internal error occurred'' \<and>
     pe_status (toPublicError e) = 500"
  by (simp_all add: toPublicError_def Let_def errorCodeToStatus_def FederationErrorCodes_def)

lemma response_sel [simp]:
  "sp_status (jwtResponse jwt t) = 200" "sp_body (jwtResponse jwt t) = JwtBody jwt"
  "sp_status (jsonResponse b s) = s" "sp_body (jsonResponse b s) = JsonBody b"
  "sp_status (errorResponse s c d) = s"
  "sp_body (errorResponse s c d) = JsonBody (JObj [(''error'', JStr c), (''error_description'', JStr d)])"
  by (simp_all add: jwtResponse_def jsonResponse_def errorResponse_def)

lemma method_response_sel [simp]: "sp_status (method_not_allowed m) = 405"
  by (simp add: method_not_allowed_def)

end
