(* ===== verification/Statement_Builders.thy ===== *)
theory Statement_Builders
  imports Http_Fetch Statement_Shape
begin

text \<open>
  packages/core/src/statement-builders.ts: the payloads of Entity Configurations and Subordinate
  Statements, the checks they pass before they are signed, and their signing.

  A thrown error is \<open>Inl\<close> with its message. The zod schemas are the functions \<open>bs_schemas\<close> that give their
  issues; \<open>new URL\<close> is \<open>parse_url\<close>. The last sections show that the times of a built statement are sound and
  that a reader of the chain accepts what was built.
\<close>

section \<open>Times\<close>

record statement_time =
  st_now :: number
  st_issuedAt :: "number option"
  st_ttlSeconds :: "number option"

definition DEFAULT_ENTITY_STATEMENT_TTL_SECONDS :: number where
  "DEFAULT_ENTITY_STATEMENT_TTL_SECONDS = 86400"

definition resolveStatementTime :: "statement_time \<Rightarrow> (string, number \<times> number) result" where
  "resolveStatementTime t =
     (let iat = (case st_issuedAt t of Some i \<Rightarrow> i | None \<Rightarrow> st_now t);
          ttlSeconds = (case st_ttlSeconds t of Some s \<Rightarrow> s | None \<Rightarrow> DEFAULT_ENTITY_STATEMENT_TTL_SECONDS)
      in if \<not> is_safe_integer iat \<or> iat \<le> 0 then Inl ''issuedAt must be a positive safe integer NumericDate''
         else if \<not> is_safe_integer ttlSeconds \<or> ttlSeconds \<le> 0 then Inl ''ttlSeconds must be a positive safe integer''
         else
           (let exp' = iat + ttlSeconds in
            if \<not> is_safe_integer exp' \<or> exp' \<le> iat then Inl ''expiration must be after issued-at''
            else Inr (iat, exp')))"

section \<open>Claim checks\<close>

definition EC_ONLY_CLAIMS :: "string list" where
  "EC_ONLY_CLAIMS =
     [''authority_hints'', ''trust_anchor_hints'', ''trust_marks'', ''trust_mark_issuers'', ''trust_mark_owners'']"

definition SS_ONLY_CLAIMS :: "string list" where
  "SS_ONLY_CLAIMS = [''constraints'', ''metadata_policy'', ''metadata_policy_crit'', ''source_endpoint'']"

definition NORMAL_STATEMENT_FORBIDDEN_CLAIMS :: "string list" where
  "NORMAL_STATEMENT_FORBIDDEN_CLAIMS = [''aud'', ''trust_anchor'']"

definition forbidClaims :: "jsval dict \<Rightarrow> string list \<Rightarrow> string \<Rightarrow> string list" where
  "forbidClaims p claims kind =
     concat (map (\<lambda>claim. if pget p claim \<noteq> JUndef then [kind @ '' cannot contain '' @ quoted claim] else []) claims)"

fun crit_errors :: "jsval dict \<Rightarrow> string list \<Rightarrow> jsval list \<Rightarrow> string list" where
  "crit_errors p seen [] = []"
| "crit_errors p seen (claim # claims) =
     (case claim of
        JStr c \<Rightarrow>
          if c \<in> set seen then (''crit contains duplicate claim '' @ quoted c) # crit_errors p seen claims
          else if c \<in> set STANDARD_ENTITY_STATEMENT_CLAIMS
          then (''crit cannot list standard Entity Statement claim '' @ quoted c) # crit_errors p (c # seen) claims
          else if pget p c = JUndef
          then (''crit references missing claim '' @ quoted c) # crit_errors p (c # seen) claims
          else crit_errors p (c # seen) claims
      | _ \<Rightarrow> ''crit entries must be strings'' # crit_errors p seen claims)"

definition validateCrit :: "jsval dict \<Rightarrow> string list" where
  "validateCrit p =
     (case pget p ''crit'' of
        JUndef \<Rightarrow> []
      | JArr crit \<Rightarrow> if length crit = 0 then [''crit must not be empty''] else crit_errors p [] crit
      | _ \<Rightarrow> [''crit must be an array of strings''])"

fun policy_crit_errors :: "string list \<Rightarrow> jsval list \<Rightarrow> string list" where
  "policy_crit_errors seen [] = []"
| "policy_crit_errors seen (op # ops) =
     (case op of
        JStr c \<Rightarrow>
          if c \<in> set seen
          then (''metadata_policy_crit contains duplicate operator '' @ quoted c) # policy_crit_errors seen ops
          else if c \<in> set STANDARD_OPERATOR_NAMES
          then (''metadata_policy_crit cannot list standard operator '' @ quoted c) # policy_crit_errors (c # seen) ops
          else policy_crit_errors (c # seen) ops
      | _ \<Rightarrow> ''metadata_policy_crit entries must be strings'' # policy_crit_errors seen ops)"

definition validateMetadataPolicyCrit :: "jsval dict \<Rightarrow> string list" where
  "validateMetadataPolicyCrit p =
     (case pget p ''metadata_policy_crit'' of
        JUndef \<Rightarrow> []
      | JArr crit \<Rightarrow> if length crit = 0 then [''metadata_policy_crit must not be empty''] else policy_crit_errors [] crit
      | _ \<Rightarrow> [''metadata_policy_crit must be an array of strings''])"

definition policy_type_errors :: "string \<times> jsval \<Rightarrow> string list" where
  "policy_type_errors = (\<lambda>(entityType, parameterPolicies).
     if \<not> isJsonObject parameterPolicies then [''metadata_policy.'' @ entityType @ '' must be a JSON object'']
     else concat (map (\<lambda>(parameter, operatorPolicy).
            if \<not> isJsonObject operatorPolicy
            then [''metadata_policy.'' @ entityType @ ''.'' @ parameter @ '' must be a JSON object''] else [])
            (entries parameterPolicies)))"

definition policy_shape_errors :: "jsval dict \<Rightarrow> string list" where
  "policy_shape_errors p =
     (let policy = pget p ''metadata_policy'' in
      if policy = JUndef then []
      else if \<not> isJsonObject policy then [''metadata_policy must be a JSON object'']
      else concat (map policy_type_errors (entries policy)))"

fun component_text :: "path_item \<Rightarrow> string" where
  "component_text (Key k) = k"
| "component_text (Idx i) = show_nat i"

definition validateMetadataValues :: "jsval \<Rightarrow> string list" where
  "validateMetadataValues value =
     (if value = JUndef then []
      else if \<not> isJsonObject value then [''metadata must be a JSON object'']
      else concat (map (\<lambda>(key, child).
             if child \<noteq> JNull \<and> \<not> is_arr child \<and> \<not> isJsonObject child
             then [''metadata.'' @ key @ '' must be a JSON object''] else []) (entries value)) @
           map (\<lambda>path. ''metadata.'' @ join_with ''.'' (map component_text path) @ '' must not be null'')
             (findInvalidMetadataNullPaths value))"

definition validateTrustMarkIssuers :: "(string \<Rightarrow> url option) \<Rightarrow> jsval \<Rightarrow> string list" where
  "validateTrustMarkIssuers parse_url value =
     (if value = JUndef then []
      else if \<not> isJsonObject value then [''trust_mark_issuers must be a JSON object'']
      else concat (map (\<lambda>(trustMarkType, issuers).
             (let field = ''trust_mark_issuers.'' @ trustMarkType in
              if \<not> is_arr issuers then [field @ '' must be an array'']
              else concat (map (\<lambda>issuer.
                     (case issuer of
                        JStr s \<Rightarrow>
                          (case entityId parse_url s of
                             Inr _ \<Rightarrow> [] | Inl _ \<Rightarrow> [field @ '' entries must be Entity Identifiers''])
                      | _ \<Rightarrow> [field @ '' entries must be strings''])) (items issuers))))
             (entries value)))"

datatype statement_kind = EntityConfigurationKind | SubordinateStatementKind

record builder_schemas =
  bs_configuration :: "jsval dict \<Rightarrow> schema_issue list"
  bs_subordinate :: "jsval dict \<Rightarrow> schema_issue list"
  bs_parse_url :: "string \<Rightarrow> url option"

definition issue_text :: "schema_issue \<Rightarrow> string" where
  "issue_text issue =
     (if length (fst issue) > 0 then join_with ''.'' (fst issue) else ''payload'') @ '': '' @ snd issue"

definition claim_errors :: "builder_schemas \<Rightarrow> jsval dict \<Rightarrow> statement_kind \<Rightarrow> string list" where
  "claim_errors B p kind =
     map issue_text ((case kind of EntityConfigurationKind \<Rightarrow> bs_configuration B
                                 | SubordinateStatementKind \<Rightarrow> bs_subordinate B) p) @
     (case kind of
        EntityConfigurationKind \<Rightarrow> forbidClaims p SS_ONLY_CLAIMS ''Entity Configuration''
      | SubordinateStatementKind \<Rightarrow> forbidClaims p EC_ONLY_CLAIMS ''Subordinate Statement'') @
     forbidClaims p NORMAL_STATEMENT_FORBIDDEN_CLAIMS ''normal Entity Statement'' @
     validateCrit p @
     validateMetadataPolicyCrit p @
     policy_shape_errors p @
     validateMetadataValues (pget p ''metadata'') @
     validateTrustMarkIssuers (bs_parse_url B) (pget p ''trust_mark_issuers'')"

definition validateEntityStatementClaims ::
  "builder_schemas \<Rightarrow> jsval dict \<Rightarrow> statement_kind \<Rightarrow> (fed_error, unit) result"
where
  "validateEntityStatementClaims B p kind =
     (let errors = claim_errors B p kind in
      if length errors > 0
      then Inl (mk_err ''ERR_TRUST_CHAIN_INVALID'' (''Invalid Entity Statement claims: '' @ join_with ''; '' errors))
      else Inr ())"

definition assertValidEntityStatementClaims ::
  "builder_schemas \<Rightarrow> jsval dict \<Rightarrow> statement_kind \<Rightarrow> (string, unit) result"
where
  "assertValidEntityStatementClaims B p kind =
     (case validateEntityStatementClaims B p kind of Inl e \<Rightarrow> Inl (description e) | Inr _ \<Rightarrow> Inr ())"

section \<open>Builders\<close>

fun entity_ids :: "(string \<Rightarrow> url option) \<Rightarrow> string list \<Rightarrow> (string, string list) result" where
  "entity_ids parse_url [] = Inr []"
| "entity_ids parse_url (v # vs) =
     (case entityId parse_url v of
        Inl e \<Rightarrow> Inl e
      | Inr i \<Rightarrow> (case entity_ids parse_url vs of Inl e \<Rightarrow> Inl e | Inr is \<Rightarrow> Inr (i # is)))"

definition copyEntityIdArray ::
  "(string \<Rightarrow> url option) \<Rightarrow> string list option \<Rightarrow> string \<Rightarrow> (string, string list option) result"
where
  "copyEntityIdArray parse_url values field =
     (case values of
        None \<Rightarrow> Inr None
      | Some vs \<Rightarrow>
          if length vs = 0 then Inl (field @ '' must not be empty'')
          else (case entity_ids parse_url vs of Inl e \<Rightarrow> Inl e | Inr is \<Rightarrow> Inr (Some is)))"

fun copyTrustMarkIssuers :: "(string \<Rightarrow> url option) \<Rightarrow> string list dict \<Rightarrow> (string, jsval dict) result" where
  "copyTrustMarkIssuers parse_url [] = Inr []"
| "copyTrustMarkIssuers parse_url ((trustMarkType, values) # rest) =
     (case entity_ids parse_url values of
        Inl e \<Rightarrow> Inl e
      | Inr is \<Rightarrow>
          (case copyTrustMarkIssuers parse_url rest of
             Inl e \<Rightarrow> Inl e | Inr out \<Rightarrow> Inr ((trustMarkType, JArr (map JStr is)) # out)))"

record configuration_options =
  bc_entityId :: string
  bc_time :: statement_time
  bc_jwks :: jsval
  bc_metadata :: jsval
  bc_authorityHints :: "string list option"
  bc_trustAnchorHints :: "string list option"
  bc_trustMarks :: "jsval list option"
  bc_trustMarkIssuers :: "string list dict option"
  bc_trustMarkOwners :: "jsval dict option"

record subordinate_options =
  bo_issuer :: string
  bo_subject :: string
  bo_time :: statement_time
  bo_jwks :: jsval
  bo_metadata :: jsval
  bo_metadataPolicy :: jsval
  bo_constraints :: jsval
  bo_sourceEndpoint :: "string option"
  bo_crit :: "string list option"
  bo_metadataPolicyCrit :: "string list option"

definition string_array :: "string list \<Rightarrow> jsval" where
  "string_array ss = JArr (map JStr ss)"

text \<open>\<open>if (x) payload.claim = x\<close>: a claim that is set when there is a value.\<close>

definition claim_if :: "string \<Rightarrow> jsval option \<Rightarrow> jsval dict" where
  "claim_if claim v = (case v of None \<Rightarrow> [] | Some x \<Rightarrow> [(claim, x)])"

definition buildEntityConfigurationPayload ::
  "builder_schemas \<Rightarrow> configuration_options \<Rightarrow> (string, jsval dict) result"
where
  "buildEntityConfigurationPayload B options =
     (case entityId (bs_parse_url B) (bc_entityId options) of
        Inl e \<Rightarrow> Inl e
      | Inr eid \<Rightarrow>
     (case resolveStatementTime (bc_time options) of
        Inl e \<Rightarrow> Inl e
      | Inr (iat, exp') \<Rightarrow>
     (case copyEntityIdArray (bs_parse_url B) (bc_authorityHints options) ''authority_hints'' of
        Inl e \<Rightarrow> Inl e
      | Inr authorityHints \<Rightarrow>
     (case copyEntityIdArray (bs_parse_url B) (bc_trustAnchorHints options) ''trust_anchor_hints'' of
        Inl e \<Rightarrow> Inl e
      | Inr trustAnchorHints \<Rightarrow>
     (case (case bc_trustMarkIssuers options of
              None \<Rightarrow> Inr None
            | Some is \<Rightarrow> (case copyTrustMarkIssuers (bs_parse_url B) is of Inl e \<Rightarrow> Inl e | Inr out \<Rightarrow> Inr (Some (JObj out)))) of
        Inl e \<Rightarrow> Inl e
      | Inr trustMarkIssuers \<Rightarrow>
     (let p = [(''iss'', JStr eid), (''sub'', JStr eid), (''iat'', JNum iat), (''exp'', JNum exp'),
               (''jwks'', bc_jwks options), (''metadata'', bc_metadata options)] @
              claim_if ''authority_hints'' (map_option string_array authorityHints) @
              claim_if ''trust_anchor_hints'' (map_option string_array trustAnchorHints) @
              claim_if ''trust_marks'' (case bc_trustMarks options of Some (m # ms) \<Rightarrow> Some (JArr (m # ms)) | _ \<Rightarrow> None) @
              claim_if ''trust_mark_issuers'' trustMarkIssuers @
              claim_if ''trust_mark_owners'' (map_option JObj (bc_trustMarkOwners options))
      in case assertValidEntityStatementClaims B p EntityConfigurationKind of
           Inl e \<Rightarrow> Inl e | Inr _ \<Rightarrow> Inr p))))))"

definition defined :: "jsval \<Rightarrow> jsval option" where
  "defined v = (if v \<noteq> JUndef then Some v else None)"

definition non_empty :: "string list option \<Rightarrow> jsval option" where
  "non_empty xs = (case xs of Some (y # ys) \<Rightarrow> Some (string_array (y # ys)) | _ \<Rightarrow> None)"

definition buildSubordinateStatementPayload ::
  "builder_schemas \<Rightarrow> subordinate_options \<Rightarrow> (string, jsval dict) result"
where
  "buildSubordinateStatementPayload B options =
     (case entityId (bs_parse_url B) (bo_issuer options) of
        Inl e \<Rightarrow> Inl e
      | Inr issuer \<Rightarrow>
     (case entityId (bs_parse_url B) (bo_subject options) of
        Inl e \<Rightarrow> Inl e
      | Inr subject \<Rightarrow>
     (case resolveStatementTime (bo_time options) of
        Inl e \<Rightarrow> Inl e
      | Inr (iat, exp') \<Rightarrow>
     (let p = [(''iss'', JStr issuer), (''sub'', JStr subject), (''iat'', JNum iat), (''exp'', JNum exp'),
               (''jwks'', bo_jwks options)] @
              claim_if ''metadata'' (defined (bo_metadata options)) @
              claim_if ''metadata_policy'' (defined (bo_metadataPolicy options)) @
              claim_if ''constraints'' (defined (bo_constraints options)) @
              claim_if ''source_endpoint'' (map_option JStr (bo_sourceEndpoint options)) @
              claim_if ''crit'' (non_empty (bo_crit options)) @
              claim_if ''metadata_policy_crit'' (non_empty (bo_metadataPolicyCrit options))
      in case assertValidEntityStatementClaims B p SubordinateStatementKind of
           Inl e \<Rightarrow> Inl e | Inr _ \<Rightarrow> Inr p))))"

definition statement_sign_options :: "string option \<Rightarrow> sign_options" where
  "statement_sign_options alg = \<lparr>so_alg = alg, so_typ = Some ENTITY_STATEMENT_TYP, so_extraHeaders = []\<rparr>"

definition signEntityConfiguration ::
  "builder_schemas \<Rightarrow> configuration_options \<Rightarrow> jwt_signer \<Rightarrow> string option \<Rightarrow> (string, string) result"
where
  "signEntityConfiguration B options signer alg =
     (case buildEntityConfigurationPayload B options of
        Inl e \<Rightarrow> Inl e | Inr p \<Rightarrow> signEntityStatement p signer (statement_sign_options alg))"

definition signSubordinateStatement ::
  "builder_schemas \<Rightarrow> subordinate_options \<Rightarrow> jwt_signer \<Rightarrow> string option \<Rightarrow> (string, string) result"
where
  "signSubordinateStatement B options signer alg =
     (case buildSubordinateStatementPayload B options of
        Inl e \<Rightarrow> Inl e | Inr p \<Rightarrow> signEntityStatement p signer (statement_sign_options alg))"

section \<open>What the checks guarantee\<close>

lemma statement_time_sound:
  assumes "resolveStatementTime t = Inr (iat, exp')"
  shows "is_safe_integer iat" "is_safe_integer exp'" "0 < iat" "iat < exp'"
    "exp' = iat + (case st_ttlSeconds t of Some s \<Rightarrow> s | None \<Rightarrow> DEFAULT_ENTITY_STATEMENT_TTL_SECONDS)"
    "iat = (case st_issuedAt t of Some i \<Rightarrow> i | None \<Rightarrow> st_now t)"
  using assms by (auto simp: resolveStatementTime_def Let_def split: if_splits)

lemma forbidClaims_Nil: "forbidClaims p claims kind = [] \<longleftrightarrow> (\<forall>c \<in> set claims. pget p c = JUndef)"
  unfolding forbidClaims_def concat_map_Nil by auto

lemma pget_member: "pget p c \<noteq> JUndef \<Longrightarrow> c \<in> fst ` set p"
  using pget_not_undef [of p c] by force

text \<open>The builder's check of \<open>crit\<close> is stronger than the shape assertion: a listed claim also has a value.\<close>

lemma crit_errors_violations: "crit_errors p seen cs = [] \<Longrightarrow> crit_violations p seen cs = []"
proof (induction cs arbitrary: seen)
  case (Cons c cs)
  then show ?case by (cases c) (auto dest: pget_member split: if_splits)
qed simp

lemma validateCrit_read:
  assumes "validateCrit p = []" and "\<forall>x \<in> set (items (pget p ''crit'')). in_strings understood x"
  shows "check_crit understood p j = []"
proof (cases "pget p ''crit''")
  case (JArr crit)
  with assms crit_errors_violations [of p "[]" crit] show ?thesis
    by (intro clean_crit_read) (auto simp: validateCrit_def split: if_splits)
qed (simp_all add: check_crit_def)

lemma policy_crit_errors_standard:
  "policy_crit_errors seen ops = [] \<Longrightarrow> x \<in> set ops \<Longrightarrow> \<not> in_strings STANDARD_OPERATOR_NAMES x"
proof (induction ops arbitrary: seen)
  case (Cons op ops)
  then obtain c where "op = JStr c" "c \<notin> set STANDARD_OPERATOR_NAMES" "policy_crit_errors (c # seen) ops = []"
    by (cases op) (auto split: if_splits)
  with Cons show ?case by (auto simp: in_strings_def)
qed simp

text \<open>A built payload: the claims it has, and the checks it passed.\<close>

lemma built_subordinate:
  assumes "buildSubordinateStatementPayload B options = Inr p"
  obtains iat exp' where "resolveStatementTime (bo_time options) = Inr (iat, exp')"
    and "pget p ''iss'' = JStr (bo_issuer options)" and "pget p ''sub'' = JStr (bo_subject options)"
    and "isValidEntityId (bs_parse_url B) (bo_issuer options)" and "isValidEntityId (bs_parse_url B) (bo_subject options)"
    and "pget p ''iat'' = JNum iat" and "pget p ''exp'' = JNum exp'" and "pget p ''jwks'' = bo_jwks options"
    and "pget p ''metadata'' = bo_metadata options" and "claim_errors B p SubordinateStatementKind = []"
proof -
  have id: "entityId pu v = Inr i \<Longrightarrow> i = v \<and> isValidEntityId pu v" for pu v i
    by (auto simp: entityId_def isValidEntityId_def split: if_splits option.splits)
  from assms obtain iat exp' where t: "resolveStatementTime (bo_time options) = Inr (iat, exp')"
    and ids: "entityId (bs_parse_url B) (bo_issuer options) = Inr (bo_issuer options)"
      "entityId (bs_parse_url B) (bo_subject options) = Inr (bo_subject options)"
    and p: "p = [(''iss'', JStr (bo_issuer options)), (''sub'', JStr (bo_subject options)), (''iat'', JNum iat),
               (''exp'', JNum exp'), (''jwks'', bo_jwks options)] @
              claim_if ''metadata'' (defined (bo_metadata options)) @
              claim_if ''metadata_policy'' (defined (bo_metadataPolicy options)) @
              claim_if ''constraints'' (defined (bo_constraints options)) @
              claim_if ''source_endpoint'' (map_option JStr (bo_sourceEndpoint options)) @
              claim_if ''crit'' (non_empty (bo_crit options)) @
              claim_if ''metadata_policy_crit'' (non_empty (bo_metadataPolicyCrit options))"
    and "assertValidEntityStatementClaims B p SubordinateStatementKind = Inr ()"
    unfolding buildSubordinateStatementPayload_def Let_def
    by (auto dest: id split: sum.splits prod.splits)
  moreover have "claim_errors B p SubordinateStatementKind = []"
    using calculation(5)
    by (auto simp: assertValidEntityStatementClaims_def validateEntityStatementClaims_def Let_def split: sum.splits if_splits)
  moreover have "pget p ''metadata'' = bo_metadata options"
    unfolding p by (simp add: pget_def claim_if_def defined_def non_empty_def split: option.splits list.splits)
  ultimately show thesis
    using that id [OF ids(1)] id [OF ids(2)] unfolding p by (simp add: pget_def)
qed

section \<open>What is built is read\<close>

lemma concat_pairs_Nil:
  "concat (map (\<lambda>(a, b). f a b) xs) = [] \<longleftrightarrow> (\<forall>a b. (a, b) \<in> set xs \<longrightarrow> f a b = [])"
  unfolding concat_map_Nil by auto

lemma no_null_members:
  assumes "findInvalidMetadataNullPaths (JObj types) = []" and "(et, JObj kvs) \<in> set types" and "(k, v) \<in> set kvs"
  shows "v \<noteq> JNull"
proof
  assume "v = JNull"
  have "\<forall>a b. (a, b) \<in> set types \<longrightarrow> walk_null b [Key a] = []"
    using assms(1) unfolding findInvalidMetadataNullPaths_def walk_null_simps concat_pairs_Nil by simp
  with assms(2) have "walk_null (JObj kvs) [Key et] = []" by blast
  then have "\<forall>a b. (a, b) \<in> set kvs \<longrightarrow> walk_null b ([Key et] @ [Key a]) = []"
    unfolding walk_null_simps concat_pairs_Nil .
  with assms(3) have "walk_null v ([Key et] @ [Key k]) = []" by blast
  with \<open>v = JNull\<close> show False by (simp add: walk_null_simps)
qed

lemma metadata_values_read:
  assumes "validateMetadataValues md = []" and "\<forall>(et, m) \<in> set (entries md). is_obj m"
  shows "metadata_shape md j = []" and "check_metadata_values md j = []"
proof -
  have md: "md = JUndef \<or> (\<exists>types. md = JObj types \<and> findInvalidMetadataNullPaths md = [])"
    using assms(1) by (cases md) (auto simp: validateMetadataValues_def split: if_splits)
  show "metadata_shape md j = []"
    using md assms(2) unfolding metadata_shape_def addMetadataNullErrors_def concat_map_Nil append_is_Nil_conv
    by (auto split: if_splits)
  from md show "check_metadata_values md j = []"
  proof
    assume "\<exists>types. md = JObj types \<and> findInvalidMetadataNullPaths md = []"
    then obtain types where types: "md = JObj types" "findInvalidMetadataNullPaths (JObj types) = []" by auto
    have "\<forall>et m. (et, m) \<in> set types \<longrightarrow>
        (if objectlike m then concat (map (\<lambda>(key, val). if val = JNull then invalid_at j ''metadata'' 16 else []) (entries m)) else []) = []"
    proof (intro allI impI)
      fix et m
      assume in_types: "(et, m) \<in> set types"
      then have "is_obj m" using assms(2) types(1) by auto
      then obtain kvs where m: "m = JObj kvs" by (cases m) auto
      have "v \<noteq> JNull" if "(k, v) \<in> set kvs" for k v
        using no_null_members [OF types(2) _ that, of et] in_types m by simp
      then show "(if objectlike m then concat (map (\<lambda>(key, val). if val = JNull then invalid_at j ''metadata'' 16 else [])
          (entries m)) else []) = []"
        unfolding m entries.simps concat_pairs_Nil by auto
    qed
    then show ?thesis unfolding types(1) check_metadata_values_def entries.simps concat_pairs_Nil [symmetric]
      by (simp del: concat_eq_Nil_conv)
  qed (simp add: check_metadata_values_def objectlike_def)
qed

lemma policy_type_errors_Nil:
  "policy_type_errors (et, pp) = [] \<longleftrightarrow> is_obj pp \<and> (\<forall>(pn, ops) \<in> set (entries pp). is_obj ops)"
  unfolding policy_type_errors_def prod.case by (auto simp: concat_pairs_Nil simp del: concat_eq_Nil_conv)

lemma policy_shape_read: "policy_shape_errors p = [] \<Longrightarrow> validateMetadataPolicyShape (pget p ''metadata_policy'') j = []"
  unfolding metadata_policy_shape_iff policy_shape_errors_def Let_def
  by (auto simp: concat_map_Nil policy_type_errors_Nil simp del: concat_eq_Nil_conv split: if_splits
      dest!: bspec [where P = "\<lambda>x. policy_type_errors x = []"])

lemma signer_header_read:
  assumes "validateSigner signer = Inr ()"
  shows "check_typ_alg (signing_header signer ENTITY_STATEMENT_TYP) j = []"
    and "check_headers (signing_header signer ENTITY_STATEMENT_TYP) j = []"
proof -
  from assms have s: "signer_kid signer \<noteq> []" "signer_alg signer \<in> set SUPPORTED_ALGORITHMS"
    by (auto simp: validateSigner_def split: if_splits)
  with supported_not_none [OF s(2)] show "check_typ_alg (signing_header signer ENTITY_STATEMENT_TYP) j = []"
    by (simp add: check_typ_alg_def in_strings_def)
  show "check_headers (signing_header signer ENTITY_STATEMENT_TYP) j = []"
    using s(1) unfolding check_headers_Nil by (simp add: signing_header_def pget_def)
qed

text \<open>What the zod schema of Subordinate Statements promises when it has no issue: issuer and subject
  differ, the key set is an object and the metadata of every entity type is an object.\<close>

definition subordinate_schema_ok :: "(jsval dict \<Rightarrow> schema_issue list) \<Rightarrow> bool" where
  "subordinate_schema_ok schema \<longleftrightarrow>
     (\<forall>p. schema p = [] \<longrightarrow> pget p ''iss'' \<noteq> pget p ''sub'' \<and> is_obj (pget p ''jwks'') \<and>
        (\<forall>(et, m) \<in> set (entries (pget p ''metadata'')). is_obj m))"

text \<open>
  What the builder builds, a reader accepts: the payload of a Subordinate Statement that
  \<open>buildSubordinateStatementPayload\<close> returns, signed under a valid signer, passes every check that chain
  validation makes of a single statement, from its issue until its expiry (up to the skew), provided the reader
  understands its critical claims and its metadata obeys the rules for key sets and issuers, which the builder
  leaves to the caller. The zod schema is the same on both sides.
\<close>
lemma built_statement_accepted:
  assumes built: "buildSubordinateStatementPayload B options = Inr p"
    and signer: "validateSigner signer = Inr ()"
    and schema: "subordinateStatementSchema E = bs_subordinate B" "subordinate_schema_ok (bs_subordinate B)"
    and no_empty_url: "bs_parse_url B [] = None"
    and window: "resolveStatementTime (bo_time options) = Inr (iat, exp')" "iat \<le> now + skew" "now - skew \<le> exp'"
    and understood: "\<forall>x \<in> set (items (pget p ''crit'')). in_strings (understoodCriticalClaims copts) x"
    and rules: "check_metadata_rules p j = []" and position: "0 < j"
  shows "check_statement E copts now skew lastIndex j
    \<lparr>header = signing_header signer ENTITY_STATEMENT_TYP, payload = p\<rparr> = []"
proof -
  obtain i e where t: "resolveStatementTime (bo_time options) = Inr (i, e)"
    and iss: "pget p ''iss'' = JStr (bo_issuer options)" and sub: "pget p ''sub'' = JStr (bo_subject options)"
    and ids: "isValidEntityId (bs_parse_url B) (bo_issuer options)" "isValidEntityId (bs_parse_url B) (bo_subject options)"
    and times: "pget p ''iat'' = JNum i" "pget p ''exp'' = JNum e" and "pget p ''jwks'' = bo_jwks options"
    and "pget p ''metadata'' = bo_metadata options" and errs: "claim_errors B p SubordinateStatementKind = []"
    using built by (rule built_subordinate)
  have ie: "i = iat" "e = exp'" using t window(1) by simp_all
  note st = statement_time_sound [OF window(1)]
  have none: "bs_subordinate B p = []" "forbidClaims p EC_ONLY_CLAIMS ''Subordinate Statement'' = []"
    "forbidClaims p NORMAL_STATEMENT_FORBIDDEN_CLAIMS ''normal Entity Statement'' = []" "validateCrit p = []"
    "validateMetadataPolicyCrit p = []" "policy_shape_errors p = []" "validateMetadataValues (pget p ''metadata'') = []"
    using errs by (simp_all add: claim_errors_def)
  have facts: "pget p ''iss'' \<noteq> pget p ''sub''" "is_obj (pget p ''jwks'')"
    "\<forall>(et, m) \<in> set (entries (pget p ''metadata'')). is_obj m"
    using schema(2) none(1) by (auto simp: subordinate_schema_ok_def)
  have nonempty: "bo_issuer options \<noteq> []" "bo_subject options \<noteq> []"
    using ids no_empty_url by (auto simp: isValidEntityId_def split: option.splits)
  have absent: "pget p c = JUndef" if "c \<in> set EC_ONLY_CLAIMS \<union> {''aud'', ''trust_anchor''}" for c
    using that none(2,3) by (auto simp: forbidClaims_Nil NORMAL_STATEMENT_FORBIDDEN_CLAIMS_def)
  have ec: "\<not> is_ec p" using facts(1) iss sub by (simp add: is_ec_def)
  have "concat (map (\<lambda>opr. if in_strings STANDARD_OPERATOR_NAMES opr then invalid_at j ''metadata_policy_crit'' 19 else [])
      (items (pget p ''metadata_policy_crit''))) = []"
    using none(5) policy_crit_errors_standard [of "[]"] unfolding concat_map_Nil
    by (auto simp: validateMetadataPolicyCrit_def split: jsval.splits if_splits)
  then have raw: "validateRawStatementShape E \<lparr>header = signing_header signer ENTITY_STATEMENT_TYP, payload = p\<rparr> j lastIndex = []"
    using position facts(1) iss sub none(1) metadata_values_read(1) [OF none(7) facts(3)] policy_shape_read [OF none(6)]
      absent [of "''trust_marks''"]
    by (simp add: validateRawStatementShape_def Let_def schema(1) addSchemaIssues_def EC_ONLY_CLAIMS_def
        validateTrustMarkReferenceSyntax_def del: concat_eq_Nil_conv)
  have pres: "check_presence p j = []" using nonempty iss sub times ie st by (simp add: check_presence_Nil)
  have tim: "check_times now skew p j = []" using times ie st window(2,3) by (simp add: check_times_def)
  have plc: "check_placement p j = []"
    unfolding check_placement_Nil using ec absent by (auto simp: ecOnlyClaims_def EC_ONLY_CLAIMS_def)
  have reg: "check_registration_claims copts p j = []"
    using absent [of "''aud''"] absent [of "''trust_anchor''"] absent [of "''authority_hints''"]
    by (simp add: check_registration_claims_def EC_ONLY_CLAIMS_def)
  have jw: "truthy (pget p ''jwks'')" using facts(2) by (cases "pget p ''jwks''") auto
  show ?thesis
    unfolding check_statement_def Let_def
    using raw pres tim signer_header_read [OF signer, of j] jw metadata_values_read(2) [OF none(7) facts(3), of j] rules
      validateCrit_read [OF none(4) understood, of j] plc reg
    by simp
qed

definition example_schemas_of :: "(string \<Rightarrow> bool) \<Rightarrow> builder_schemas" where
  "example_schemas_of known =
     \<lparr>bs_configuration = (\<lambda>_. []),
      bs_subordinate = (\<lambda>p. if pget p ''iss'' \<noteq> pget p ''sub'' \<and> is_obj (pget p ''jwks'') \<and>
          (\<forall>(et, m) \<in> set (entries (pget p ''metadata'')). is_obj m) then [] else [([], ''invalid'')]),
      bs_parse_url = (\<lambda>u. if known u then Some (example_url u) else None)\<rparr>"

definition example_builder :: builder_schemas where
  "example_builder = example_schemas_of (\<lambda>u. u \<noteq> [])"

definition example_statement_options :: subordinate_options where
  "example_statement_options = \<lparr>bo_issuer = ''https://ta'', bo_subject = ''https://leaf'',
     bo_time = \<lparr>st_now = 50, st_issuedAt = None, st_ttlSeconds = Some 1000\<rparr>, bo_jwks = example_jwks,
     bo_metadata = JObj [(''rp'', JObj [(''name'', JStr ''n'')])], bo_metadataPolicy = JUndef, bo_constraints = JUndef,
     bo_sourceEndpoint = None, bo_crit = None, bo_metadataPolicyCrit = None\<rparr>"

definition example_built :: "jsval dict" where
  "example_built = (case buildSubordinateStatementPayload example_builder example_statement_options of Inr p \<Rightarrow> p | Inl _ \<Rightarrow> [])"

definition example_reader :: chain_env where
  "example_reader = example_env\<lparr>subordinateStatementSchema := bs_subordinate example_builder\<rparr>"

lemma built_statement_accepted_witness:
  "pget example_built ''exp'' = JNum 1050 \<and>
   check_statement example_reader example_options 100 60 2 1
     \<lparr>header = signing_header example_signer ENTITY_STATEMENT_TYP, payload = example_built\<rparr> = []"
proof
  show "pget example_built ''exp'' = JNum 1050" by code_simp
  have "buildSubordinateStatementPayload example_builder example_statement_options = Inr example_built" by code_simp
  moreover have "validateSigner example_signer = Inr ()" by code_simp
  moreover have "subordinateStatementSchema example_reader = bs_subordinate example_builder" by (simp add: example_reader_def)
  moreover have "subordinate_schema_ok (bs_subordinate example_builder)"
    by (simp add: subordinate_schema_ok_def example_builder_def example_schemas_of_def split: if_splits)
  moreover have "bs_parse_url example_builder [] = None" by code_simp
  moreover have "resolveStatementTime (bo_time example_statement_options) = Inr (50, 1050)" by code_simp
  moreover have "(50 :: number) \<le> 100 + 60" "(100 :: number) - 60 \<le> 1050" by simp_all
  moreover have "\<forall>x \<in> set (items (pget example_built ''crit'')). in_strings (understoodCriticalClaims example_options) x" by code_simp
  moreover have "check_metadata_rules example_built 1 = []" by code_simp
  ultimately show "check_statement example_reader example_options 100 60 2 1
     \<lparr>header = signing_header example_signer ENTITY_STATEMENT_TYP, payload = example_built\<rparr> = []"
    by (rule built_statement_accepted) simp
qed

end
