(* ===== verification/Authority_Endpoints.thy ===== *)
theory Authority_Endpoints
  imports Http_Handlers Statement_Builders Subordinate_Lifecycle Federation_Keys
begin

text \<open>
  packages/authority/src/endpoints: the context the endpoints of an authority share, and the endpoints
  entity-configuration.ts, fetch.ts, list.ts, historical-keys.ts and subordinate-events.ts, with
  packages/core/src/roles.ts.

  A handler is a function of the context, the committed state of the storage and the request. What a request
  sees of the clock and of the key provider is one value each. Thrown errors are \<open>Inl\<close>; what a handler only
  logs is left out. Dictionaries have no inherited members.
\<close>

section \<open>The context\<close>

text \<open>\<open>TrustMarkStorage\<close> and \<open>StorageAdapter\<close> of storage/types.ts. \<open>as_tx_marks\<close>: the adapter's transactions
  offer \<open>trustMarks\<close>.\<close>

record 's mark_store =
  ms_getValid :: "'s \<Rightarrow> string \<Rightarrow> string \<Rightarrow> number \<Rightarrow> (authority_error, trust_mark_record option) result"
  ms_getByJwt :: "'s \<Rightarrow> string \<Rightarrow> (authority_error, trust_mark_record option) result"
  ms_listValid :: "'s \<Rightarrow> string \<Rightarrow> number \<Rightarrow> trust_mark_list_options \<Rightarrow> (authority_error, trust_mark_record list_page) result"
  ms_listValidForSubject :: "'s \<Rightarrow> string \<Rightarrow> number \<Rightarrow> (authority_error, trust_mark_record list) result"
  ms_hasAnyValid :: "'s \<Rightarrow> string \<Rightarrow> number \<Rightarrow> (authority_error, bool) result"
  ms_issue :: "trust_mark_record \<Rightarrow> 's \<Rightarrow> (authority_error, 's) result"
  ms_revoke :: "string \<Rightarrow> string \<Rightarrow> number \<Rightarrow> 's \<Rightarrow> (authority_error, 's) result"

record 's authority_storage =
  as_records :: "'s storage"
  as_list :: "'s \<Rightarrow> list_filter \<Rightarrow> page_options \<Rightarrow> (authority_error, subordinate_record list_page) result"
  as_marks :: "'s mark_store option"
  as_tx_marks :: bool

definition memory_marks :: "memory_state mark_store" where
  "memory_marks =
     \<lparr>ms_getValid = getValid, ms_getByJwt = getByJwt, ms_listValid = listValid,
      ms_listValidForSubject = listValidForSubject, ms_hasAnyValid = hasAnyValid, ms_issue = issue, ms_revoke = revoke\<rparr>"

definition memory_adapter :: "(string \<Rightarrow> bool) \<Rightarrow> bool \<Rightarrow> bool \<Rightarrow> memory_state authority_storage" where
  "memory_adapter url_ok events marks =
     \<lparr>as_records = memory_storage url_ok events, as_list = list_subordinates,
      as_marks = (if marks then Some memory_marks else None), as_tx_marks = marks\<rparr>"

text \<open>\<open>EntityRole\<close> as far as \<open>validateRoleMetadata\<close> reads it.\<close>

record entity_role =
  er_type :: string
  er_validateMetadata :: "(jsval dict \<Rightarrow> (string, unit) result) option"

text \<open>\<open>HandlerContext\<close>, and what the platform gives: \<open>cx_text\<close> decodes bytes, \<open>cx_form\<close> parses a form.\<close>

record 's handler_context =
  cx_roles :: "entity_role list option"
  cx_entityId :: string
  cx_authorityHints :: "string list option"
  cx_trustAnchorHints :: "string list option"
  cx_keySet :: "(string, jwt_signer \<times> jwk list) result"
  cx_historicalKeys :: "(string, jwk list) result"
  cx_storage :: "'s authority_storage"
  cx_metadata :: jsval
  cx_trustMarks :: "jsval list option"
  cx_trustMarkIssuers :: "string list dict option"
  cx_trustMarkOwners :: "jsval dict option"
  cx_trustMarkDelegations :: "string dict option"
  cx_now :: number
  cx_clock :: "number option"
  cx_clockSkewSeconds :: "number option"
  cx_entityConfigurationTtlSeconds :: "number option"
  cx_subordinateStatementTtlSeconds :: "number option"
  cx_trustMarkTtlSeconds :: "number option"
  cx_schemas :: builder_schemas
  cx_url_ok :: "string \<Rightarrow> bool"
  cx_jose :: jose
  cx_text :: "byte list \<Rightarrow> string"
  cx_form :: "string \<Rightarrow> url_params"

abbreviation valid_entity :: "'s handler_context \<Rightarrow> string \<Rightarrow> bool" where
  "valid_entity cx \<equiv> isValidEntityId (bs_parse_url (cx_schemas cx))"

section \<open>Throwing and signing\<close>

definition rethrow :: "(string, 'a) result \<Rightarrow> (authority_error, 'a) result" where
  "rethrow r = (case r of Inl e \<Rightarrow> Inl (Thrown e) | Inr a \<Rightarrow> Inr a)"

text \<open>The \<open>catch\<close> of a handler.\<close>

definition or_server_error :: "string \<Rightarrow> (authority_error, server_response) result \<Rightarrow> server_response" where
  "or_server_error d r = (case r of Inl _ \<Rightarrow> errorResponse 500 ''server_error'' d | Inr response \<Rightarrow> response)"

definition sign_typ :: "jsval dict \<Rightarrow> jwt_signer \<Rightarrow> string \<Rightarrow> (authority_error, string) result" where
  "sign_typ p signer typ =
     rethrow (signEntityStatement p signer \<lparr>so_alg = None, so_typ = Some typ, so_extraHeaders = []\<rparr>)"

definition MEDIA_ENTITY_STATEMENT :: string where "MEDIA_ENTITY_STATEMENT = ''application/entity-statement+jwt''"
definition MEDIA_TRUST_MARK :: string where "MEDIA_TRUST_MARK = ''application/trust-mark+jwt''"
definition MEDIA_JWK_SET :: string where "MEDIA_JWK_SET = ''application/jwk-set+jwt''"
definition MEDIA_TRUST_MARK_STATUS :: string where
  "MEDIA_TRUST_MARK_STATUS = ''application/trust-mark-status-response+jwt''"
definition MEDIA_ENTITY_EVENTS :: string where "MEDIA_ENTITY_EVENTS = ''application/entity-events-statement+jwt''"

definition JWK_SET_TYP :: string where "JWK_SET_TYP = ''jwk-set+jwt''"
definition TRUST_MARK_STATUS_TYP :: string where "TRUST_MARK_STATUS_TYP = ''trust-mark-status-response+jwt''"
definition ENTITY_EVENTS_TYP :: string where "ENTITY_EVENTS_TYP = ''entity-events-statement+jwt''"

text \<open>\<open>isValidEntityId\<close> of a claim that need not be a string: the platform makes a text of it; the text of an
  object is no URL.\<close>

definition valid_entity_claim :: "(string \<Rightarrow> url option) \<Rightarrow> jsval \<Rightarrow> bool" where
  "valid_entity_claim parse_url v =
     (case v of
        JStr s \<Rightarrow> isValidEntityId parse_url s
      | JObj _ \<Rightarrow> False
      | JArr xs \<Rightarrow> length xs \<le> 2048 \<and>
          (case parse_url (js_string v) of None \<Rightarrow> False
           | Some u \<Rightarrow> url_protocol u = ''https:'' \<and> url_username u = [] \<and> url_password u = [] \<and>
                       url_search u = [] \<and> url_hash u = [])
      | _ \<Rightarrow> isValidEntityId parse_url (js_string v))"

definition DEFAULT_MAX_REQUEST_BODY_BYTES :: int where "DEFAULT_MAX_REQUEST_BODY_BYTES = 65536"

text \<open>The parsed parameter \<open>sub\<close>, when it is there and valid.\<close>

definition sub_param :: "'s handler_context \<Rightarrow> url_params \<Rightarrow> string option" where
  "sub_param cx ps =
     (case param ps ''sub'' of
        None \<Rightarrow> None
      | Some sub \<Rightarrow> if sub = [] \<or> \<not> valid_entity cx sub then None else Some sub)"

definition invalid_sub :: server_response where
  "invalid_sub = errorResponse 400 ''invalid_request'' (''Missing or invalid '' @ quoted ''sub'' @ '' parameter'')"

section \<open>Entity Configuration\<close>

fun validateRoleMetadata :: "entity_role list \<Rightarrow> jsval \<Rightarrow> (string, unit) result" where
  "validateRoleMetadata [] md = Inr ()"
| "validateRoleMetadata (role # roles) md =
     (case er_validateMetadata role of
        None \<Rightarrow> validateRoleMetadata roles md
      | Some check \<Rightarrow>
          (case mget md (er_type role) of
             JObj block \<Rightarrow>
               (case check block of Inl e \<Rightarrow> Inl e | Inr _ \<Rightarrow> validateRoleMetadata roles md)
           | _ \<Rightarrow> Inl (''Metadata for role '' @ quoted (er_type role) @ '' must be an object'')))"

definition key_set_json :: "jwk list \<Rightarrow> jsval" where
  "key_set_json ks = JObj [(''keys'', JArr (map JObj ks))]"

definition some_nonempty :: "'a list option \<Rightarrow> 'a list option" where
  "some_nonempty xs = (case xs of Some (y # ys) \<Rightarrow> Some (y # ys) | _ \<Rightarrow> None)"

definition default_ttl :: "number option \<Rightarrow> number" where
  "default_ttl ttl = (case ttl of Some t \<Rightarrow> t | None \<Rightarrow> DEFAULT_ENTITY_STATEMENT_TTL_SECONDS)"

definition configuration_payload_options :: "'s handler_context \<Rightarrow> jwk list \<Rightarrow> configuration_options" where
  "configuration_payload_options cx ks =
     (let isTrustAnchor = (some_nonempty (cx_authorityHints cx) = None) in
      \<lparr>bc_entityId = cx_entityId cx,
       bc_time = \<lparr>st_now = cx_now cx, st_issuedAt = Some (cx_now cx),
                  st_ttlSeconds = Some (default_ttl (cx_entityConfigurationTtlSeconds cx))\<rparr>,
       bc_jwks = key_set_json ks, bc_metadata = cx_metadata cx,
       bc_authorityHints = some_nonempty (cx_authorityHints cx),
       bc_trustAnchorHints = some_nonempty (cx_trustAnchorHints cx),
       bc_trustMarks = some_nonempty (cx_trustMarks cx),
       bc_trustMarkIssuers = (if isTrustAnchor then cx_trustMarkIssuers cx else None),
       bc_trustMarkOwners = (if isTrustAnchor then cx_trustMarkOwners cx else None)\<rparr>)"

definition buildEntityConfiguration :: "'s handler_context \<Rightarrow> (authority_error, string) result" where
  "buildEntityConfiguration cx =
     (case validateRoleMetadata (or_empty (cx_roles cx)) (cx_metadata cx) of
        Inl e \<Rightarrow> Inl (Thrown e)
      | Inr _ \<Rightarrow>
          (case cx_keySet cx of
             Inl e \<Rightarrow> Inl (Thrown e)
           | Inr (signer, ks) \<Rightarrow>
               (case buildEntityConfigurationPayload (cx_schemas cx) (configuration_payload_options cx ks) of
                  Inl e \<Rightarrow> Inl (Thrown e)
                | Inr p \<Rightarrow> sign_typ p signer ENTITY_STATEMENT_TYP)))"

definition createEntityConfigurationHandler :: "'s handler_context \<Rightarrow> server_request \<Rightarrow> server_response" where
  "createEntityConfigurationHandler cx request =
     (case requireMethod request ''GET'' of
        Some methodError \<Rightarrow> methodError
      | None \<Rightarrow>
          or_server_error ''Failed to build entity configuration''
            (case buildEntityConfiguration cx of
               Inl e \<Rightarrow> Inl e | Inr jwt \<Rightarrow> Inr (jwtResponse jwt MEDIA_ENTITY_STATEMENT)))"

section \<open>Subordinate Statements\<close>

definition statement_payload_options :: "'s handler_context \<Rightarrow> subordinate_record \<Rightarrow> number \<Rightarrow> subordinate_options" where
  "statement_payload_options cx r iat =
     \<lparr>bo_issuer = cx_entityId cx, bo_subject = sr_entityId r,
      bo_time = \<lparr>st_now = cx_now cx, st_issuedAt = Some iat,
                 st_ttlSeconds = Some (default_ttl (cx_subordinateStatementTtlSeconds cx))\<rparr>,
      bo_jwks = sr_jwks r, bo_metadata = sanitizeSubordinateMetadata (sr_metadata r),
      bo_metadataPolicy = (if truthy (sr_metadataPolicy r) then sr_metadataPolicy r else JUndef),
      bo_constraints = (if truthy (sr_constraints r) then sr_constraints r else JUndef),
      bo_sourceEndpoint = some_nonempty (sr_sourceEndpoint r),
      bo_crit = some_nonempty (sr_crit r),
      bo_metadataPolicyCrit = some_nonempty (sr_metadataPolicyCrit r)\<rparr>"

definition buildSubordinateStatement ::
  "'s handler_context \<Rightarrow> subordinate_record \<Rightarrow> number option \<Rightarrow> (authority_error, string) result"
where
  "buildSubordinateStatement cx r now =
     (case cx_keySet cx of
        Inl e \<Rightarrow> Inl (Thrown e)
      | Inr (signer, _) \<Rightarrow>
          (let iat = (case now of Some n \<Rightarrow> n | None \<Rightarrow> cx_now cx) in
           case buildSubordinateStatementPayload (cx_schemas cx) (statement_payload_options cx r iat) of
             Inl e \<Rightarrow> Inl (Thrown e)
           | Inr p \<Rightarrow> sign_typ p signer ENTITY_STATEMENT_TYP))"

definition createFetchHandler :: "'s handler_context \<Rightarrow> 's \<Rightarrow> server_request \<Rightarrow> server_response" where
  "createFetchHandler cx st request =
     (case requireMethod request ''GET'' of
        Some methodError \<Rightarrow> methodError
      | None \<Rightarrow>
     (case sub_param cx (sq_query request) of
        None \<Rightarrow> invalid_sub
      | Some sub \<Rightarrow>
          or_server_error ''Failed to build statement''
            (if sub = cx_entityId cx
             then Inr (errorResponse 400 ''invalid_request''
               (''Use the Entity Configuration endpoint to fetch the issuer'' @ [CHR 0x27] @ ''s own configuration''))
             else
               (case so_get (as_records (cx_storage cx)) st sub of
                  None \<Rightarrow> Inr (errorResponse 404 ''not_found'' ''Entity not found'')
                | Some record \<Rightarrow>
                    (case buildSubordinateStatement cx record None of
                       Inl e \<Rightarrow> Inl e | Inr jwt \<Rightarrow> Inr (jwtResponse jwt MEDIA_ENTITY_STATEMENT))))))"

section \<open>Subordinate listing\<close>

text \<open>\<open>None\<close> is \<open>null\<close>, \<open>Some None\<close> is \<open>undefined\<close>.\<close>

definition parseBooleanQuery :: "string option \<Rightarrow> bool option option" where
  "parseBooleanQuery value =
     (case value of
        None \<Rightarrow> None
      | Some v \<Rightarrow> Some (if v = ''true'' then Some True else if v = ''false'' then Some False else None))"

definition EntityTypes :: "string list" where
  "EntityTypes =
     [''federation_entity'', ''openid_relying_party'', ''openid_provider'', ''oauth_authorization_server'',
      ''oauth_client'', ''oauth_resource'', ''openid_wallet_provider'', ''openid_credential_issuer'',
      ''openid_credential_verifier'']"

definition no_page_options :: page_options where
  "no_page_options = \<lparr>po_cursor = None, po_limit = None, po_updatedAfter = None, po_updatedBefore = None\<rparr>"

definition requested_filter :: "number \<Rightarrow> string list \<Rightarrow> bool option \<Rightarrow> string option \<Rightarrow> bool option \<Rightarrow> list_filter" where
  "requested_filter now entityTypes trustMarked trustMarkType intermediate =
     \<lparr>lf_entityTypes = some_nonempty (Some entityTypes),
      lf_trustMarked = (if trustMarked = Some True then Some True else None),
      lf_trustMarkType = map_option OneType trustMarkType,
      lf_intermediate = intermediate,
      lf_validAt = (if trustMarked = Some True \<or> trustMarkType \<noteq> None then Some now else None)\<rparr>"

definition createListHandler :: "'s handler_context \<Rightarrow> 's \<Rightarrow> server_request \<Rightarrow> server_response" where
  "createListHandler cx st request =
     (case requireMethod request ''GET'' of
        Some methodError \<Rightarrow> methodError
      | None \<Rightarrow>
     (let params = sq_query request;
          entityTypes = all_params params ''entity_type'';
          trustMarked = parseBooleanQuery (param params ''trust_marked'');
          trustMarkType = param params ''trust_mark_type'';
          intermediate = parseBooleanQuery (param params ''intermediate'')
      in if list_ex (\<lambda>et. et \<notin> set EntityTypes) entityTypes
         then errorResponse 400 ''invalid_request'' ''Unknown entity_type value''
         else if trustMarked = Some None
         then errorResponse 400 ''invalid_request''
           (''trust_marked must be '' @ quoted ''true'' @ '' or '' @ quoted ''false'')
         else if intermediate = Some None
         then errorResponse 400 ''invalid_request''
           (''intermediate must be '' @ quoted ''true'' @ '' or '' @ quoted ''false'')
         else if (trustMarked \<noteq> None \<or> trustMarkType \<noteq> None) \<and> as_marks (cx_storage cx) = None
         then errorResponse 400 ''unsupported_parameter'' ''Trust mark filtering not supported''
         else
           or_server_error ''Failed to list subordinates''
             (case as_list (cx_storage cx) st
                     (requested_filter (cx_now cx) entityTypes (Option.bind trustMarked id) trustMarkType
                        (Option.bind intermediate id)) no_page_options of
                Inl e \<Rightarrow> Inl e
              | Inr page \<Rightarrow> Inr (jsonResponse (string_array (map sr_entityId (lp_items page))) 200))))"

section \<open>Historical keys\<close>

definition buildHistoricalKeys :: "'s handler_context \<Rightarrow> (authority_error, string) result" where
  "buildHistoricalKeys cx =
     (case cx_keySet cx of
        Inl e \<Rightarrow> Inl (Thrown e)
      | Inr (signer, _) \<Rightarrow>
          (case cx_historicalKeys cx of
             Inl e \<Rightarrow> Inl (Thrown e)
           | Inr historicalKeys \<Rightarrow>
               sign_typ [(''iss'', JStr (cx_entityId cx)), (''iat'', JNum (cx_now cx)),
                         (''keys'', JArr (map JObj historicalKeys))] signer JWK_SET_TYP))"

definition createHistoricalKeysHandler :: "'s handler_context \<Rightarrow> server_request \<Rightarrow> server_response" where
  "createHistoricalKeysHandler cx request =
     (case requireMethod request ''GET'' of
        Some methodError \<Rightarrow> methodError
      | None \<Rightarrow>
          or_server_error ''Failed to build historical keys''
            (case buildHistoricalKeys cx of Inl e \<Rightarrow> Inl e | Inr jwt \<Rightarrow> Inr (jwtResponse jwt MEDIA_JWK_SET)))"

section \<open>Subordinate events\<close>

definition withSubordinateEventsMethodErrors :: "server_response \<Rightarrow> server_response" where
  "withSubordinateEventsMethodErrors response =
     (if sp_status response \<noteq> 405 then response
      else
        (let error = errorResponse 405 ''invalid_request'' ''HTTP method is not allowed for this endpoint'' in
         case map_of (sp_headers response) ''Allow'' of
           None \<Rightarrow> error
         | Some allow \<Rightarrow> error\<lparr>sp_headers := AList.update ''Allow'' allow (sp_headers error)\<rparr>))"

text \<open>The transaction that reads the history and, when it is empty, whether there is a record.\<close>

definition events_tx :: "'s storage \<Rightarrow> string \<Rightarrow> string \<Rightarrow> ('s, jsval list option) tx" where
  "events_tx S issuer subject =
     (if \<not> so_tx_events S then Throw (Thrown ''Transaction-bound subordinateEvents is unavailable'')
      else Read (\<lambda>d. let history = so_history S d issuer subject in
        if length history = 0
        then Read (\<lambda>d'. if so_get S d' subject = None then Return None else Return (Some history))
        else Return (Some history)))"

text \<open>\<open>SubordinateEventsResponseSchema.parse\<close> of the payload the endpoint builds.\<close>

definition parse_events_response ::
  "'s handler_context \<Rightarrow> string \<Rightarrow> jsval list \<Rightarrow> (authority_error, jsval dict) result"
where
  "parse_events_response cx subject events =
     (if \<not> cx_url_ok cx (cx_entityId cx) \<or> \<not> valid_entity cx (cx_entityId cx) \<or>
         \<not> cx_url_ok cx subject \<or> \<not> valid_entity cx subject then Inl ZodError
      else
        (case parse_events (cx_url_ok cx) events of
           Inl e \<Rightarrow> Inl e
         | Inr parsed \<Rightarrow>
             Inr [(''iss'', JStr (cx_entityId cx)), (''sub'', JStr subject), (''iat'', JNum (cx_now cx)),
                  (''federation_registration_events'', JArr parsed)]))"

definition buildSubordinateEvents ::
  "'s handler_context \<Rightarrow> 's \<Rightarrow> string \<Rightarrow> (authority_error, string option) result"
where
  "buildSubordinateEvents cx st subject =
     (if \<not> so_events (as_records (cx_storage cx)) then Inl (Thrown ''Subordinate event storage is not configured'')
      else
        (case run_tx (events_tx (as_records (cx_storage cx)) (cx_entityId cx) subject) st of
           Inl e \<Rightarrow> Inl e
         | Inr (_, None) \<Rightarrow> Inr None
         | Inr (_, Some events) \<Rightarrow>
             (case parse_events_response cx subject events of
                Inl e \<Rightarrow> Inl e
              | Inr p \<Rightarrow>
                  (case cx_keySet cx of
                     Inl e \<Rightarrow> Inl (Thrown e)
                   | Inr (signer, _) \<Rightarrow>
                       (case sign_typ p signer ENTITY_EVENTS_TYP of Inl e \<Rightarrow> Inl e | Inr jwt \<Rightarrow> Inr (Some jwt))))))"

definition createSubordinateEventsHandler :: "'s handler_context \<Rightarrow> 's \<Rightarrow> server_request \<Rightarrow> server_response" where
  "createSubordinateEventsHandler cx st request =
     (case requireMethod request ''GET'' of
        Some methodError \<Rightarrow> methodError
      | None \<Rightarrow>
     (case (if length (all_params (sq_query request) ''sub'') \<noteq> 1 then None else sub_param cx (sq_query request)) of
        None \<Rightarrow> invalid_sub
      | Some subject \<Rightarrow>
          or_server_error ''Failed to build subordinate events response''
            (case buildSubordinateEvents cx st subject of
               Inl e \<Rightarrow> Inl e
             | Inr None \<Rightarrow> Inr (errorResponse 404 ''not_found'' ''Entity history not found'')
             | Inr (Some jwt) \<Rightarrow> Inr (jwtResponse jwt MEDIA_ENTITY_EVENTS))))"

section \<open>What the fetch endpoint serves\<close>

lemma or_server_error_status [simp]: "sp_status (or_server_error d r) = 200 \<longleftrightarrow> (\<exists>response. r = Inr response \<and> sp_status response = 200)"
  by (cases r) (simp_all add: or_server_error_def)

lemma requireMethod_None: "requireMethod request m = None \<longleftrightarrow> upper (sq_method request) = upper m"
  by (simp add: requireMethod_def)

lemma get_method [simp]: "upper ''GET'' = ''GET''"
  by code_simp

lemma requireMethod_status: "requireMethod request m = Some r \<Longrightarrow> sp_status r = 405"
  by (auto simp: requireMethod_def split: if_splits)

lemma sign_typ_Inr:
  assumes "sign_typ p signer typ = Inr jwt"
  shows "jwt = sign_jwt signer p (signing_header signer typ)" "validateSigner signer = Inr ()"
proof -
  have "signEntityStatement p signer \<lparr>so_alg = None, so_typ = Some typ, so_extraHeaders = []\<rparr> = Inr jwt"
    using assms by (auto simp: sign_typ_def rethrow_def split: sum.splits)
  from sign_Inr [OF this] show "jwt = sign_jwt signer p (signing_header signer typ)" "validateSigner signer = Inr ()"
    by (simp_all add: validateSigner_def)
qed

lemma sign_typ_total: "validateSigner signer = Inr () \<Longrightarrow> sign_typ p signer typ = Inr (sign_jwt signer p (signing_header signer typ))"
  by (auto simp: sign_typ_def rethrow_def signEntityStatement_def validateSigner_def Let_def split: if_splits)

lemma invalid_sub_status [simp]: "sp_status invalid_sub = 400"
  by (simp add: invalid_sub_def)

lemma fetch_served:
  assumes "sp_status (createFetchHandler cx st request) = 200"
  obtains sub r signer ks p jwt where "upper (sq_method request) = ''GET''" and "sub_param cx (sq_query request) = Some sub"
    and "sub \<noteq> cx_entityId cx" and "so_get (as_records (cx_storage cx)) st sub = Some r"
    and "cx_keySet cx = Inr (signer, ks)"
    and "buildSubordinateStatementPayload (cx_schemas cx) (statement_payload_options cx r (cx_now cx)) = Inr p"
    and "validateSigner signer = Inr ()" and "jwt = sign_jwt signer p (signing_header signer ENTITY_STATEMENT_TYP)"
    and "createFetchHandler cx st request = jwtResponse jwt MEDIA_ENTITY_STATEMENT"
proof -
  have get: "requireMethod request ''GET'' = None"
    using assms requireMethod_status by (cases "requireMethod request ''GET''") (auto simp: createFetchHandler_def)
  from assms get obtain sub where sub: "sub_param cx (sq_query request) = Some sub"
    by (cases "sub_param cx (sq_query request)") (auto simp: createFetchHandler_def)
  from assms get sub obtain r jwt where rest: "sub \<noteq> cx_entityId cx" "so_get (as_records (cx_storage cx)) st sub = Some r"
    "buildSubordinateStatement cx r None = Inr jwt"
    by (auto simp: createFetchHandler_def split: if_splits option.splits sum.splits)
  then obtain signer ks p where built: "cx_keySet cx = Inr (signer, ks)"
    "buildSubordinateStatementPayload (cx_schemas cx) (statement_payload_options cx r (cx_now cx)) = Inr p"
    and signed: "sign_typ p signer ENTITY_STATEMENT_TYP = Inr jwt"
    by (auto simp: buildSubordinateStatement_def split: sum.splits prod.splits)
  have "createFetchHandler cx st request = jwtResponse jwt MEDIA_ENTITY_STATEMENT"
    using get sub rest by (simp add: createFetchHandler_def or_server_error_def)
  with that [OF _ sub rest(1,2) built sign_typ_Inr(2) [OF signed] sign_typ_Inr(1) [OF signed]] get show thesis
    by (simp add: requireMethod_None get_method)
qed

text \<open>The published key set lets anyone verify what the signer signs.\<close>

lemma published_key_count:
  "for_each (check_published_key s) ks n = Inr m \<Longrightarrow>
   m = n + length (filter (\<lambda>k. pget k ''kid'' = JStr (signer_kid s)) ks) \<and>
   (\<forall>k \<in> set ks. pget k ''kid'' = JStr (signer_kid s) \<longrightarrow> permits_verification k \<and> alg_agrees k s)"
proof (induction ks arbitrary: n)
  case (Cons k ks)
  from Cons.prems obtain n' where n': "check_published_key s k n = Inr n'" "for_each (check_published_key s) ks n' = Inr m"
    by (auto split: sum.splits)
  from n'(1) Cons.IH [OF n'(2)] show ?case
    by (auto simp: check_published_key_def validateVerificationUsage_def split: if_splits sum.splits)
qed simp

lemma validated_key_set:
  assumes "validateFederationKeySet s ks = Inr ()"
  obtains k where "k \<in> set ks" and "pget k ''kid'' = JStr (signer_kid s)" and "permits_verification k" and "alg_agrees k s"
    and "distinct (map (\<lambda>k. pget k ''kid'') ks)" and "validateSigner s = Inr ()"
proof -
  from assms have s: "validateSigner s = Inr ()" "JWKSetSchema ks" "for_each (check_published_key s) ks 0 = Inr 1"
    by (auto simp: validateFederationKeySet_def split: sum.splits if_splits)
  from published_key_count [OF s(3)] have one: "length (filter (\<lambda>k. pget k ''kid'' = JStr (signer_kid s)) ks) = 1"
    and ok: "\<forall>k \<in> set ks. pget k ''kid'' = JStr (signer_kid s) \<longrightarrow> permits_verification k \<and> alg_agrees k s" by auto
  from one have "filter (\<lambda>k. pget k ''kid'' = JStr (signer_kid s)) ks \<noteq> []" by auto
  then obtain k where "k \<in> set ks" "pget k ''kid'' = JStr (signer_kid s)" by (auto simp: filter_empty_conv)
  with that ok s show thesis by (auto simp: JWKSetSchema_def)
qed

lemma published_key_selected:
  assumes "validateFederationKeySet s ks = Inr ()"
  obtains k where "k \<in> set ks" and "pget k ''kid'' = JStr (signer_kid s)"
    and "selectVerificationKey (signing_header s typ) (key_set_json ks) = Some (JObj k)"
proof -
  obtain k where k: "k \<in> set ks" "pget k ''kid'' = JStr (signer_kid s)" "permits_verification k" "alg_agrees k s"
    and d: "distinct (map (\<lambda>k. pget k ''kid'') ks)" and s: "validateSigner s = Inr ()"
    using assms by (rule validated_key_set)
  have keys: "jwks_keys (key_set_json ks) = map JObj ks" by (simp add: jwks_keys_def key_set_json_def pget_def)
  have "suits (signing_header s typ) (JObj k)"
    using k s by (auto simp: suits_def may_sign_def permits_verification_def alg_agrees_def validateSigner_def split: if_splits)
  moreover have "distinct (map (\<lambda>k. mget k ''kid'') (filter may_sign (jwks_keys (key_set_json ks))))"
    unfolding keys using d by (intro distinct_map_filter) (simp add: comp_def)
  moreover have "truthy (pget (signing_header s typ) ''kid'')" using s by (auto simp: validateSigner_def split: if_splits)
  ultimately have "selectVerificationKey (signing_header s typ) (key_set_json ks) = Some (JObj k)"
    using k(1) by (intro select_finds) (auto simp: keys)
  with that k show thesis by blast
qed

text \<open>What the code relies on of the package jose, for one payload: it decodes the JWT the signer makes of it,
  and verifies it under the public key of the signer's key id until the payload's expiry, up to the tolerance.\<close>

definition unexpired :: "jsval dict \<Rightarrow> number \<Rightarrow> bool" where
  "unexpired p t \<longleftrightarrow> (case pget p ''exp'' of JUndef \<Rightarrow> True | JNum e \<Rightarrow> t < e | _ \<Rightarrow> False)"

definition jose_reads :: "jose \<Rightarrow> jwt_signer \<Rightarrow> jwk list \<Rightarrow> string \<Rightarrow> jsval dict \<Rightarrow> bool" where
  "jose_reads J signer ks typ p \<longleftrightarrow>
     (let h = signing_header signer typ; jwt = sign_jwt signer p h in
      jose_header J jwt = Inr h \<and> jose_payload J jwt = Inr p \<and>
      (\<forall>k \<in> set ks. pget k ''kid'' = JStr (signer_kid signer) \<longrightarrow>
         (\<forall>skew now. unexpired p (now - skew) \<longrightarrow>
            jose_verify J jwt (JObj k) (JStr (signer_alg signer)) skew (Some now) = Inr p)))"

lemma own_jwt_verifies:
  assumes keys: "validateFederationKeySet signer ks = Inr ()" and jose: "jose_reads J signer ks typ p"
    and time: "unexpired p (now - skew_of skew)"
  shows "verifyEntityStatement J (sign_jwt signer p (signing_header signer typ)) (key_set_json ks)
    \<lparr>clockSkewSeconds = skew, clock = Some now, expectedTyp = Some typ\<rparr> = Inr \<lparr>header = signing_header signer typ, payload = p\<rparr>"
proof -
  obtain k where k: "k \<in> set ks" "pget k ''kid'' = JStr (signer_kid signer)"
    and sel: "selectVerificationKey (signing_header signer typ) (key_set_json ks) = Some (JObj k)"
    using keys by (rule published_key_selected)
  have s: "signer_kid signer \<noteq> []" "signer_alg signer \<in> set SUPPORTED_ALGORITHMS"
    using keys by (auto simp: validateFederationKeySet_def validateSigner_def split: sum.splits if_splits)
  from jose k time have "jose_header J (sign_jwt signer p (signing_header signer typ)) = Inr (signing_header signer typ)"
    "jose_verify J (sign_jwt signer p (signing_header signer typ)) (JObj k) (JStr (signer_alg signer)) (skew_of skew) (Some now) = Inr p"
    by (simp_all add: jose_reads_def Let_def)
  with sel s supported_not_none [OF s(2)] show ?thesis
    by (simp add: verifyEntityStatement_def decodeProtectedHeader_def isValidAlgorithm_def)
qed

lemma fetch_answers:
  assumes "upper (sq_method request) = ''GET''" and "sub_param cx (sq_query request) = Some sub" and "sub \<noteq> cx_entityId cx"
    and "so_get (as_records (cx_storage cx)) st sub = Some r" and "cx_keySet cx = Inr (signer, ks)"
    and "buildSubordinateStatementPayload (cx_schemas cx) (statement_payload_options cx r (cx_now cx)) = Inr p"
    and "validateSigner signer = Inr ()"
  shows "createFetchHandler cx st request =
    jwtResponse (sign_jwt signer p (signing_header signer ENTITY_STATEMENT_TYP)) MEDIA_ENTITY_STATEMENT"
  using assms
  by (simp add: createFetchHandler_def requireMethod_def or_server_error_def buildSubordinateStatement_def sign_typ_total)

lemma memory_adapter_sel [simp]:
  "so_get (as_records (memory_adapter u ev tm)) = get_subordinate"
  "so_history (as_records (memory_adapter u ev tm)) = list_events"
  "so_events (as_records (memory_adapter u ev tm)) = ev" "so_tx_events (as_records (memory_adapter u ev tm)) = ev"
  "as_list (memory_adapter u ev tm) = list_subordinates"
  "as_marks (memory_adapter u ev tm) = (if tm then Some memory_marks else None)" "as_tx_marks (memory_adapter u ev tm) = tm"
  "ms_getValid memory_marks = getValid" "ms_getByJwt memory_marks = getByJwt" "ms_listValid memory_marks = listValid"
  "ms_issue memory_marks = issue" "ms_revoke memory_marks = revoke"
  "ms_listValidForSubject memory_marks = listValidForSubject" "ms_hasAnyValid memory_marks = hasAnyValid"
  by (simp_all add: memory_adapter_def memory_storage_def memory_marks_def)

lemma registered_under_id: "storage_ok st \<Longrightarrow> get_subordinate st k = Some r \<Longrightarrow> sr_entityId r = k"
  using subordinates_ok_get by (auto simp: storage_ok_def get_subordinate_def)

lemma statement_time_given:
  "resolveStatementTime \<lparr>st_now = n, st_issuedAt = Some iat, st_ttlSeconds = Some ttl\<rparr> = Inr (i, e) \<Longrightarrow> i = iat \<and> e = iat + ttl"
  by (auto simp: resolveStatementTime_def Let_def split: if_splits)

text \<open>The claims of a statement the endpoint builds.\<close>

lemma built_statement_claims:
  assumes "buildSubordinateStatementPayload (cx_schemas cx) (statement_payload_options cx r iat) = Inr p"
  shows "pget p ''iss'' = JStr (cx_entityId cx)" "pget p ''sub'' = JStr (sr_entityId r)" "pget p ''jwks'' = sr_jwks r"
    "pget p ''iat'' = JNum iat" "pget p ''exp'' = JNum (iat + default_ttl (cx_subordinateStatementTtlSeconds cx))"
    "pget p ''metadata'' = sanitizeSubordinateMetadata (sr_metadata r)"
    "c \<in> set EC_ONLY_CLAIMS \<Longrightarrow> pget p c = JUndef" "iat < iat + default_ttl (cx_subordinateStatementTtlSeconds cx)"
    "resolveStatementTime (bo_time (statement_payload_options cx r iat)) =
       Inr (iat, iat + default_ttl (cx_subordinateStatementTtlSeconds cx))"
proof -
  let ?e = "iat + default_ttl (cx_subordinateStatementTtlSeconds cx)"
  obtain i e where t: "resolveStatementTime (bo_time (statement_payload_options cx r iat)) = Inr (i, e)"
    and c: "pget p ''iss'' = JStr (bo_issuer (statement_payload_options cx r iat))"
      "pget p ''sub'' = JStr (bo_subject (statement_payload_options cx r iat))"
      "pget p ''iat'' = JNum i" "pget p ''exp'' = JNum e" "pget p ''jwks'' = bo_jwks (statement_payload_options cx r iat)"
      "pget p ''metadata'' = bo_metadata (statement_payload_options cx r iat)"
    and errs: "claim_errors (cx_schemas cx) p SubordinateStatementKind = []"
    using assms by (rule built_subordinate)
  have ie: "i = iat" "e = ?e"
    using t statement_time_given by (auto simp: statement_payload_options_def)
  show "pget p ''iss'' = JStr (cx_entityId cx)" "pget p ''sub'' = JStr (sr_entityId r)" "pget p ''jwks'' = sr_jwks r"
    "pget p ''iat'' = JNum iat" "pget p ''exp'' = JNum ?e"
    "pget p ''metadata'' = sanitizeSubordinateMetadata (sr_metadata r)"
    "resolveStatementTime (bo_time (statement_payload_options cx r iat)) = Inr (iat, ?e)"
    using t c ie by (simp_all add: statement_payload_options_def)
  show "iat < ?e" using statement_time_sound(4) [OF t] ie by simp
  show "pget p c = JUndef" if "c \<in> set EC_ONLY_CLAIMS"
    using errs that by (auto simp: claim_errors_def forbidClaims_Nil)
qed

text \<open>
  C19: The fetch endpoint speaks only for registered subordinates: a successful answer to a request for \<open>sub\<close>
  is the statement of this authority about the record stored under \<open>sub\<close>, signed with the current signer, with the
  keys of that record, its metadata without operational fields, the current time as issue time and the configured
  lifetime, and none of the claims that belong to Entity Configurations.
\<close>
theorem fetch_serves_registered:
  assumes "cx_storage cx = memory_adapter url_ok ev tm" and "storage_ok st" and "cx_keySet cx = Inr (signer, ks)"
    and "sp_status (createFetchHandler cx st request) = 200"
  shows "\<exists>sub r p. param (sq_query request) ''sub'' = Some sub \<and> valid_entity cx sub \<and> sub \<noteq> cx_entityId cx \<and>
    get_subordinate st sub = Some r \<and>
    createFetchHandler cx st request =
      jwtResponse (sign_jwt signer p (signing_header signer ENTITY_STATEMENT_TYP)) MEDIA_ENTITY_STATEMENT \<and>
    pget p ''iss'' = JStr (cx_entityId cx) \<and> pget p ''sub'' = JStr sub \<and> pget p ''jwks'' = sr_jwks r \<and>
    pget p ''metadata'' = sanitizeSubordinateMetadata (sr_metadata r) \<and> pget p ''iat'' = JNum (cx_now cx) \<and>
    pget p ''exp'' = JNum (cx_now cx + default_ttl (cx_subordinateStatementTtlSeconds cx)) \<and>
    (\<forall>c \<in> set EC_ONLY_CLAIMS. pget p c = JUndef)"
proof -
  from assms(4) obtain sub r s ks' p jwt where sub: "sub_param cx (sq_query request) = Some sub" "sub \<noteq> cx_entityId cx"
    and r: "so_get (as_records (cx_storage cx)) st sub = Some r" and key: "cx_keySet cx = Inr (s, ks')"
    and p: "buildSubordinateStatementPayload (cx_schemas cx) (statement_payload_options cx r (cx_now cx)) = Inr p"
    and jwt: "jwt = sign_jwt s p (signing_header s ENTITY_STATEMENT_TYP)"
      "createFetchHandler cx st request = jwtResponse jwt MEDIA_ENTITY_STATEMENT"
    by (rule fetch_served)
  have get: "get_subordinate st sub = Some r" using r assms(1) by simp
  show ?thesis
    by (rule exI [of _ sub], rule exI [of _ r], rule exI [of _ p])
       (use sub get jwt key assms(3) registered_under_id [OF assms(2) get] built_statement_claims [OF p] in
         \<open>auto simp: sub_param_def split: option.splits if_splits\<close>)
qed

text \<open>
  C8: What the fetch endpoint serves, a reader of the chain accepts. For a registered subordinate whose statement
  can be built, the endpoint answers with a JWT that verifies under the key set the authority publishes, until it
  expires up to the skew, and the verified statement passes every check that chain validation makes of a single
  statement, provided the reader understands its critical claims and its metadata obeys the rules for key sets
  and issuers, which the authority leaves to whoever registers it. The zod schema is the same on both sides.
\<close>
theorem fetched_statement_accepted:
  assumes store: "cx_storage cx = memory_adapter url_ok ev tm" "storage_ok st" "get_subordinate st sub = Some r"
    and request: "upper (sq_method request) = ''GET''" "sub_param cx (sq_query request) = Some sub" "sub \<noteq> cx_entityId cx"
    and keys: "cx_keySet cx = Inr (signer, ks)" "validateFederationKeySet signer ks = Inr ()"
    and built: "buildSubordinateStatementPayload (cx_schemas cx) (statement_payload_options cx r (cx_now cx)) = Inr p"
    and jose: "jose_reads J signer ks ENTITY_STATEMENT_TYP p"
    and schema: "subordinateStatementSchema E = bs_subordinate (cx_schemas cx)"
      "subordinate_schema_ok (bs_subordinate (cx_schemas cx))" "bs_parse_url (cx_schemas cx) [] = None"
    and window: "cx_now cx \<le> now + skew_of skew" "now - skew_of skew < cx_now cx + default_ttl (cx_subordinateStatementTtlSeconds cx)"
    and understood: "\<forall>x \<in> set (items (pget p ''crit'')). in_strings (understoodCriticalClaims copts) x"
    and rules: "check_metadata_rules p j = []" and position: "0 < j"
  shows "\<exists>jwt statement. createFetchHandler cx st request = jwtResponse jwt MEDIA_ENTITY_STATEMENT \<and>
    verifyEntityStatement J jwt (key_set_json ks)
      \<lparr>clockSkewSeconds = skew, clock = Some now, expectedTyp = Some ENTITY_STATEMENT_TYP\<rparr> = Inr statement \<and>
    payload statement = p \<and> pget p ''iss'' = JStr (cx_entityId cx) \<and> pget p ''sub'' = JStr sub \<and> pget p ''jwks'' = sr_jwks r \<and>
    check_statement E copts now (skew_of skew) lastIndex j statement = []"
proof -
  let ?h = "signing_header signer ENTITY_STATEMENT_TYP"
  have signer: "validateSigner signer = Inr ()" using keys(2) by (rule validated_key_set)
  have answer: "createFetchHandler cx st request = jwtResponse (sign_jwt signer p ?h) MEDIA_ENTITY_STATEMENT"
    using request store keys(1) built signer by (intro fetch_answers) simp_all
  note claims = built_statement_claims [OF built]
  have "unexpired p (now - skew_of skew)" using claims(5) window(2) by (simp add: unexpired_def)
  note verified = own_jwt_verifies [OF keys(2) jose this]
  have "check_statement E copts now (skew_of skew) lastIndex j \<lparr>header = ?h, payload = p\<rparr> = []"
    using built signer schema claims(9) window(1) less_imp_le [OF window(2)] understood rules position
    by (rule built_statement_accepted)
  with answer verified claims(1-3) registered_under_id [OF store(2,3)] show ?thesis by auto
qed

definition example_ta_signer :: jwt_signer where
  "example_ta_signer = sk_signer (example_signing_key ''k1'')"

definition example_ta_keys :: "jwk list" where
  "example_ta_keys = [example_public_jwk ''k1'', example_public_jwk ''k2'']"

definition example_context :: "memory_state handler_context" where
  "example_context =
     \<lparr>cx_roles = None, cx_entityId = ''https://ta'', cx_authorityHints = None, cx_trustAnchorHints = None,
      cx_keySet = Inr (example_ta_signer, example_ta_keys), cx_historicalKeys = Inr [],
      cx_storage = memory_adapter (\<lambda>_. True) True True, cx_metadata = JObj [(''federation_entity'', JObj [])],
      cx_trustMarks = None, cx_trustMarkIssuers = None, cx_trustMarkOwners = None, cx_trustMarkDelegations = None,
      cx_now = 50, cx_clock = Some 50, cx_clockSkewSeconds = None, cx_entityConfigurationTtlSeconds = None,
      cx_subordinateStatementTtlSeconds = Some 1000, cx_trustMarkTtlSeconds = Some 100, cx_schemas = example_builder,
      cx_url_ok = (\<lambda>_. True), cx_jose = \<lparr>jose_header = \<lambda>_. Inl [], jose_payload = \<lambda>_. Inl [], jose_verify = \<lambda>_ _ _ _ _. Inl []\<rparr>,
      cx_text = map (\<lambda>b. char_of (unat b)), cx_form = (\<lambda>s. [(''trust_mark'', s)])\<rparr>"

definition get_request :: "url_params \<Rightarrow> server_request" where
  "get_request ps = \<lparr>sq_method = ''GET'', sq_path = [], sq_query = ps, sq_headers = [], sq_body = None\<rparr>"

definition example_members :: memory_state where
  "example_members = perform_all (\<lambda>_. True) [AddSubordinate example_record] (MemoryStorageAdapter True True)"

definition example_statement :: "jsval dict" where
  "example_statement =
     (case buildSubordinateStatementPayload example_builder (statement_payload_options example_context example_record 50) of
        Inr p \<Rightarrow> p | Inl _ \<Rightarrow> [])"

definition example_fetch_request :: server_request where
  "example_fetch_request = get_request [(''sub'', ''https://leaf'')]"

lemma example_keys: "validateFederationKeySet example_ta_signer example_ta_keys = Inr ()"
  by code_simp

lemma example_storage: "storage_ok example_members" "get_subordinate example_members ''https://leaf'' = Some example_record"
  by code_simp+

theorem fetch_serves_registered_witness:
  "\<exists>p. createFetchHandler example_context example_members example_fetch_request =
      jwtResponse (sign_jwt example_ta_signer p (signing_header example_ta_signer ENTITY_STATEMENT_TYP)) MEDIA_ENTITY_STATEMENT \<and>
    pget p ''sub'' = JStr ''https://leaf'' \<and> pget p ''iss'' = JStr ''https://ta''"
proof -
  have c: "cx_storage example_context = memory_adapter (\<lambda>_. True) True True"
    "cx_keySet example_context = Inr (example_ta_signer, example_ta_keys)"
    by (simp_all add: example_context_def)
  have s: "sp_status (createFetchHandler example_context example_members example_fetch_request) = 200" by code_simp
  from fetch_serves_registered [OF c(1) example_storage(1) c(2) s] show ?thesis
    by (auto simp: example_fetch_request_def get_request_def param_def example_context_def)
qed

definition example_statement_jose :: jose where
  "example_statement_jose =
     \<lparr>jose_header = (\<lambda>_. Inr (signing_header example_ta_signer ENTITY_STATEMENT_TYP)),
      jose_payload = (\<lambda>_. Inr example_statement), jose_verify = (\<lambda>_ _ _ _ _. Inr example_statement)\<rparr>"

theorem fetched_statement_accepted_witness:
  "\<exists>jwt statement. createFetchHandler example_context example_members example_fetch_request = jwtResponse jwt MEDIA_ENTITY_STATEMENT \<and>
     verifyEntityStatement example_statement_jose jwt (key_set_json example_ta_keys)
       \<lparr>clockSkewSeconds = None, clock = Some 100, expectedTyp = Some ENTITY_STATEMENT_TYP\<rparr> = Inr statement \<and>
     check_statement example_reader example_options 100 (skew_of None) 2 1 statement = []"
proof -
  have c: "cx_storage example_context = memory_adapter (\<lambda>_. True) True True"
    "cx_keySet example_context = Inr (example_ta_signer, example_ta_keys)" "cx_schemas example_context = example_builder"
    by (simp_all add: example_context_def)
  have request: "upper (sq_method example_fetch_request) = ''GET''"
    "sub_param example_context (sq_query example_fetch_request) = Some ''https://leaf''" "''https://leaf'' \<noteq> cx_entityId example_context"
    by code_simp+
  have built: "buildSubordinateStatementPayload (cx_schemas example_context)
      (statement_payload_options example_context example_record (cx_now example_context)) = Inr example_statement" by code_simp
  have schema: "subordinateStatementSchema example_reader = bs_subordinate (cx_schemas example_context)"
    "subordinate_schema_ok (bs_subordinate (cx_schemas example_context))" "bs_parse_url (cx_schemas example_context) [] = None"
    by (simp_all add: c example_reader_def subordinate_schema_ok_def example_builder_def example_schemas_of_def split: if_splits)
  have window: "cx_now example_context \<le> 100 + skew_of None"
    "100 - skew_of None < cx_now example_context + default_ttl (cx_subordinateStatementTtlSeconds example_context)" by code_simp+
  have jose: "jose_reads example_statement_jose example_ta_signer example_ta_keys ENTITY_STATEMENT_TYP example_statement"
    by (simp add: jose_reads_def example_statement_jose_def)
  have crit: "\<forall>x \<in> set (items (pget example_statement ''crit'')). in_strings (understoodCriticalClaims example_options) x" by code_simp
  have rules: "check_metadata_rules example_statement 1 = []" by code_simp
  show ?thesis
    using fetched_statement_accepted [OF c(1) example_storage request c(2) example_keys built jose schema window crit rules,
        of 2] by auto
qed

end
