(* ===== verification/Mark_Endpoints.thy ===== *)
theory Mark_Endpoints
  imports Authority_Endpoints
begin

text \<open>
  packages/authority/src/endpoints/trust-mark.ts, trust-mark-status.ts and trust-mark-list.ts: the endpoints that
  hand out, issue, list and report on trust marks.

  The issuance handler gives the storage transaction that selects its mark; the state machine of
  \<open>Storage_Transactions\<close> orders the transactions. The locale \<open>mark_issuing\<close> has the laws the issuance relies on.
\<close>

section \<open>Trust marks: retrieval and issuance\<close>

definition marks_not_configured :: server_response where
  "marks_not_configured = errorResponse 501 ''server_error'' ''Trust mark store not configured''"

definition missing_type :: server_response where
  "missing_type = errorResponse 400 ''invalid_request'' (''Missing '' @ quoted ''trust_mark_type'' @ '' parameter'')"

text \<open>The checks the two handlers share: the response that ends the request, or the store, the type and the
  subject.\<close>

definition mark_request ::
  "'s handler_context \<Rightarrow> server_request \<Rightarrow> (server_response, 's mark_store \<times> string \<times> string) result"
where
  "mark_request cx request =
     (case requireMethod request ''GET'' of
        Some methodError \<Rightarrow> Inl methodError
      | None \<Rightarrow>
     (case as_marks (cx_storage cx) of
        None \<Rightarrow> Inl marks_not_configured
      | Some M \<Rightarrow>
     (case some_nonempty (param (sq_query request) ''trust_mark_type'') of
        None \<Rightarrow> Inl missing_type
      | Some trustMarkType \<Rightarrow>
     (case sub_param cx (sq_query request) of
        None \<Rightarrow> Inl invalid_sub
      | Some sub \<Rightarrow> Inr (M, trustMarkType, sub)))))"

definition mark_response :: "trust_mark_record \<Rightarrow> server_response" where
  "mark_response r = jwtResponse (tr_jwt r) MEDIA_TRUST_MARK"

definition createTrustMarkHandler :: "'s handler_context \<Rightarrow> 's \<Rightarrow> server_request \<Rightarrow> server_response" where
  "createTrustMarkHandler cx st request =
     (case mark_request cx request of
        Inl response \<Rightarrow> response
      | Inr (M, trustMarkType, sub) \<Rightarrow>
          or_server_error ''Failed to retrieve trust mark''
            (case ms_getValid M st trustMarkType sub (cx_now cx) of
               Inl e \<Rightarrow> Inl e
             | Inr (Some existing) \<Rightarrow> Inr (mark_response existing)
             | Inr None \<Rightarrow> Inr (errorResponse 404 ''not_found'' ''Trust mark not found'')))"

definition trust_mark_claims :: "'s handler_context \<Rightarrow> string \<Rightarrow> string \<Rightarrow> number \<Rightarrow> number \<Rightarrow> jsval dict" where
  "trust_mark_claims cx trustMarkType sub now ttl =
     [(''iss'', JStr (cx_entityId cx)), (''sub'', JStr sub), (''trust_mark_type'', JStr trustMarkType),
      (''iat'', JNum now), (''exp'', JNum (now + ttl))] @
     claim_if ''delegation''
       (case some_nonempty (Option.bind (cx_trustMarkDelegations cx) (\<lambda>ds. map_of ds trustMarkType)) of
          None \<Rightarrow> None | Some d \<Rightarrow> Some (JStr d))"

definition buildTrustMark ::
  "'s handler_context \<Rightarrow> string \<Rightarrow> string \<Rightarrow> number \<Rightarrow> number \<Rightarrow> (authority_error, string) result"
where
  "buildTrustMark cx trustMarkType sub now ttl =
     (case cx_keySet cx of
        Inl e \<Rightarrow> Inl (Thrown e)
      | Inr (signer, _) \<Rightarrow> sign_typ (trust_mark_claims cx trustMarkType sub now ttl) signer TRUST_MARK_TYP)"

definition may_issue :: "'s handler_context \<Rightarrow> string \<Rightarrow> bool" where
  "may_issue cx trustMarkType \<longleftrightarrow>
     (case Option.bind (cx_trustMarkIssuers cx) (\<lambda>is. map_of is trustMarkType) of
        None \<Rightarrow> True | Some authorizedIssuers \<Rightarrow> cx_entityId cx \<in> set authorizedIssuers)"

definition mark_candidate :: "string \<Rightarrow> string \<Rightarrow> string \<Rightarrow> number \<Rightarrow> number \<Rightarrow> trust_mark_record" where
  "mark_candidate trustMarkType sub jwt now ttl =
     \<lparr>tr_type = trustMarkType, tr_subject = sub, tr_jwt = jwt, tr_issuedAt = now, tr_expiresAt = Some (now + ttl),
      tr_active = True, tr_revokedAt = None\<rparr>"

definition issuance_tx :: "'s authority_storage \<Rightarrow> number \<Rightarrow> trust_mark_record \<Rightarrow> ('s, trust_mark_record) tx" where
  "issuance_tx S now candidate =
     (case (if as_tx_marks S then as_marks S else None) of
        None \<Rightarrow> Throw (Thrown ''Trust mark storage is not configured'')
      | Some M \<Rightarrow>
          Read (\<lambda>d. case ms_getValid M d (tr_type candidate) (tr_subject candidate) now of
                      Inl e \<Rightarrow> Throw e
                    | Inr (Some winner) \<Rightarrow> Return winner
                    | Inr None \<Rightarrow> await_op (ms_issue M candidate) (Return candidate)))"

definition issuance_failed :: server_response where
  "issuance_failed = errorResponse 500 ''server_error'' ''Failed to issue trust mark''"

text \<open>\<open>createTrustMarkIssuanceHandler\<close> up to its transaction: the response, or the transaction that selects
  the mark. \<open>st\<close> is the state the first read sees.\<close>

definition issuance_start ::
  "'s handler_context \<Rightarrow> 's \<Rightarrow> server_request \<Rightarrow> (server_response, ('s, trust_mark_record) tx) result"
where
  "issuance_start cx st request =
     (case mark_request cx request of
        Inl response \<Rightarrow> Inl response
      | Inr (M, trustMarkType, sub) \<Rightarrow>
          if \<not> may_issue cx trustMarkType
          then Inl (errorResponse 403 ''unauthorized_issuer'' (''Not authorized to issue trust mark '' @ quoted trustMarkType))
          else
            (case ms_getValid M st trustMarkType sub (cx_now cx) of
               Inl e \<Rightarrow> Inl issuance_failed
             | Inr (Some existing) \<Rightarrow> Inl (mark_response existing)
             | Inr None \<Rightarrow>
                 (let ttl = (case cx_trustMarkTtlSeconds cx of Some t \<Rightarrow> t | None \<Rightarrow> DEFAULT_DELEGATION_TTL_SECONDS) in
                  case buildTrustMark cx trustMarkType sub (cx_now cx) ttl of
                    Inl e \<Rightarrow> Inl issuance_failed
                  | Inr jwt \<Rightarrow> Inr (issuance_tx (cx_storage cx) (cx_now cx)
                                 (mark_candidate trustMarkType sub jwt (cx_now cx) ttl)))))"

text \<open>The whole handler; \<open>st'\<close> is the committed state when its transaction runs.\<close>

definition createTrustMarkIssuanceHandler ::
  "'s handler_context \<Rightarrow> 's \<Rightarrow> 's \<Rightarrow> server_request \<Rightarrow> 's \<times> server_response"
where
  "createTrustMarkIssuanceHandler cx st st' request =
     (case issuance_start cx st request of
        Inl response \<Rightarrow> (st', response)
      | Inr t \<Rightarrow>
          (case run_tx t st' of
             Inl e \<Rightarrow> (st', issuance_failed)
           | Inr (st'', selected) \<Rightarrow> (st'', mark_response selected)))"

section \<open>Trust mark status\<close>

text \<open>\<open>v <= n\<close> in JavaScript, for a number \<open>n\<close>.\<close>

definition text_at_most :: "string \<Rightarrow> number \<Rightarrow> bool" where
  "text_at_most s n \<longleftrightarrow> trim s = ''-Infinity'' \<or> (case Number s of None \<Rightarrow> False | Some q \<Rightarrow> q \<le> n)"

fun at_most :: "jsval \<Rightarrow> number \<Rightarrow> bool" where
  "at_most (JNum q) n \<longleftrightarrow> q \<le> n"
| "at_most JNull n \<longleftrightarrow> 0 \<le> n"
| "at_most (JBool b) n \<longleftrightarrow> (if b then 1 else 0) \<le> n"
| "at_most (JStr s) n \<longleftrightarrow> text_at_most s n"
| "at_most (JArr xs) n \<longleftrightarrow> text_at_most (js_string (JArr xs)) n"
| "at_most _ n \<longleftrightarrow> False"

datatype mark_status = ActiveMark | ExpiredMark | RevokedMark | InvalidMark

fun status_name :: "mark_status \<Rightarrow> string" where
  "status_name ActiveMark = ''active''" | "status_name ExpiredMark = ''expired''"
| "status_name RevokedMark = ''revoked''" | "status_name InvalidMark = ''invalid''"

definition status_claims :: "'s handler_context \<Rightarrow> string \<Rightarrow> mark_status \<Rightarrow> jsval dict" where
  "status_claims cx trustMarkJwt status =
     [(''iss'', JStr (cx_entityId cx)), (''iat'', JNum (cx_now cx)), (''trust_mark'', JStr trustMarkJwt),
      (''status'', JStr (status_name status))]"

definition buildStatusResponse ::
  "'s handler_context \<Rightarrow> string \<Rightarrow> mark_status \<Rightarrow> (authority_error, server_response) result"
where
  "buildStatusResponse cx trustMarkJwt status =
     (case cx_keySet cx of
        Inl e \<Rightarrow> Inl (Thrown e)
      | Inr (signer, _) \<Rightarrow>
          (case sign_typ (status_claims cx trustMarkJwt status) signer TRUST_MARK_STATUS_TYP of
             Inl e \<Rightarrow> Inl e | Inr jwt \<Rightarrow> Inr (jwtResponse jwt MEDIA_TRUST_MARK_STATUS)))"

text \<open>The body after the JWT is read from the form.\<close>

definition status_of_mark ::
  "'s handler_context \<Rightarrow> 's mark_store \<Rightarrow> 's \<Rightarrow> string \<Rightarrow> (authority_error, server_response) result"
where
  "status_of_mark cx M st trustMarkJwt =
     (case decodeEntityStatement (cx_jose cx) trustMarkJwt of
        Inl _ \<Rightarrow> buildStatusResponse cx trustMarkJwt InvalidMark
      | Inr decoded \<Rightarrow>
     (let p = payload decoded; trustMarkType = pget p ''trust_mark_type'' in
      if \<not> truthy trustMarkType \<or> \<not> valid_entity_claim (bs_parse_url (cx_schemas cx)) trustMarkType \<or>
         \<not> truthy (pget p ''sub'')
      then buildStatusResponse cx trustMarkJwt InvalidMark
      else if \<not> strict_eq (pget p ''iss'') (JStr (cx_entityId cx))
      then Inr (errorResponse 404 ''not_found'' ''Trust mark not issued by this entity'')
      else
     (case ms_getByJwt M st trustMarkJwt of
        Inl e \<Rightarrow> Inl e
      | Inr None \<Rightarrow> Inr (errorResponse 404 ''not_found'' ''Trust mark not found'')
      | Inr (Some record) \<Rightarrow>
          if pget p ''exp'' \<noteq> JUndef \<and> at_most (pget p ''exp'') (cx_now cx)
          then buildStatusResponse cx trustMarkJwt ExpiredMark
          else
     (case cx_keySet cx of
        Inl e \<Rightarrow> Inl (Thrown e)
      | Inr (_, ks) \<Rightarrow>
     (case verifyEntityStatement (cx_jose cx) trustMarkJwt (key_set_json ks)
             \<lparr>clockSkewSeconds = cx_clockSkewSeconds cx, clock = cx_clock cx, expectedTyp = Some TRUST_MARK_TYP\<rparr> of
        Inl _ \<Rightarrow> buildStatusResponse cx trustMarkJwt InvalidMark
      | Inr _ \<Rightarrow> buildStatusResponse cx trustMarkJwt (if tr_active record then ActiveMark else RevokedMark))))))"

text \<open>\<open>Object.fromEntries\<close>: the last value of a repeated name counts.\<close>

definition createTrustMarkStatusHandler ::
  "'s handler_context \<Rightarrow> 's \<Rightarrow> server_request \<Rightarrow> (authority_error, server_response) result"
where
  "createTrustMarkStatusHandler cx st request =
     (case requireMethod request ''POST'' of
        Some methodError \<Rightarrow> Inr methodError
      | None \<Rightarrow>
     (case as_marks (cx_storage cx) of
        None \<Rightarrow> Inr marks_not_configured
      | Some M \<Rightarrow>
     (case readBodyWithLimit (cx_text cx) request DEFAULT_MAX_REQUEST_BODY_BYTES of
        Inl _ \<Rightarrow> Inl (Thrown ''body'')
      | Inr None \<Rightarrow> Inr (errorResponse 413 ''invalid_request'' ''Request body too large'')
      | Inr (Some text) \<Rightarrow>
     (case some_nonempty (map_of (rev (cx_form cx text)) ''trust_mark'') of
        None \<Rightarrow> Inr (errorResponse 400 ''invalid_request'' (''Missing '' @ quoted ''trust_mark'' @ '' parameter''))
      | Some trustMarkJwt \<Rightarrow> status_of_mark cx M st trustMarkJwt))))"

section \<open>Trust mark listing\<close>

text \<open>The loop over the pages; \<open>page\<close> reads the storage, \<open>None\<close> is a loop that does not end.\<close>

partial_function (option) collect_pages ::
  "(string option \<Rightarrow> (authority_error, trust_mark_record list_page) result) \<Rightarrow> string list \<Rightarrow> string list \<Rightarrow>
   string option \<Rightarrow> (authority_error, string list) result option"
where
  "collect_pages page entityIds seenCursors cursor =
     (case page cursor of
        Inl e \<Rightarrow> Some (Inl e)
      | Inr result \<Rightarrow>
          (let entityIds' = entityIds @ map tr_subject (lp_items result) in
           case some_nonempty (lp_nextCursor result) of
             None \<Rightarrow> Some (Inr entityIds')
           | Some c \<Rightarrow>
               if c \<in> set seenCursors then Some (Inl (Thrown ''Trust mark storage returned a repeated cursor''))
               else collect_pages page entityIds' (c # seenCursors) (Some c)))"

declare collect_pages.simps [code]

definition createTrustMarkListHandler :: "'s handler_context \<Rightarrow> 's \<Rightarrow> server_request \<Rightarrow> server_response option" where
  "createTrustMarkListHandler cx st request =
     (case requireMethod request ''GET'' of
        Some methodError \<Rightarrow> Some methodError
      | None \<Rightarrow>
     (case as_marks (cx_storage cx) of
        None \<Rightarrow> Some marks_not_configured
      | Some M \<Rightarrow>
     (case some_nonempty (param (sq_query request) ''trust_mark_type'') of
        None \<Rightarrow> Some missing_type
      | Some trustMarkType \<Rightarrow>
     (let sub = some_nonempty (param (sq_query request) ''sub'') in
      if (case sub of None \<Rightarrow> False | Some s \<Rightarrow> \<not> valid_entity cx s)
      then Some (errorResponse 400 ''invalid_request'' (''Invalid '' @ quoted ''sub'' @ '' parameter''))
      else
        (case collect_pages (\<lambda>cursor. ms_listValid M st trustMarkType (cx_now cx)
                  \<lparr>tl_subject = sub, tl_cursor = cursor, tl_limit = 500\<rparr>) [] [] None of
           None \<Rightarrow> None
         | Some r \<Rightarrow> Some (or_server_error ''Failed to list trust marks''
             (case r of Inl e \<Rightarrow> Inl e | Inr entityIds \<Rightarrow> Inr (jsonResponse (string_array entityIds) 200))))))))"

section \<open>Issuance\<close>

text \<open>At most one mark of every type and subject is valid at the time \<open>v\<close>.\<close>

definition one_live :: "('s \<Rightarrow> string \<Rightarrow> string \<Rightarrow> number \<Rightarrow> trust_mark_record set) \<Rightarrow> number \<Rightarrow> 's \<Rightarrow> bool" where
  "one_live live v s \<longleftrightarrow> (\<forall>t u. \<forall>r \<in> live s t u v. \<forall>r' \<in> live s t u v. r = r')"

lemma one_live_subset: "one_live live v s \<Longrightarrow> (\<And>t u. live s' t u v \<subseteq> live s t u v) \<Longrightarrow> one_live live v s'"
  unfolding one_live_def by blast

text \<open>What a storage of trust marks promises to those who issue: \<open>live\<close> are the valid marks of a type and a
  subject at a time.\<close>

locale mark_issuing =
  fixes M :: "'s mark_store" and ok :: "'s \<Rightarrow> bool" and live :: "'s \<Rightarrow> string \<Rightarrow> string \<Rightarrow> number \<Rightarrow> trust_mark_record set"
  assumes live_of: "r \<in> live s t u v \<Longrightarrow> tr_type r = t \<and> tr_subject r = u \<and> isValidTrustMark r v"
    and live_earlier: "v \<le> v' \<Longrightarrow> live s t u v' \<subseteq> live s t u v"
    and valid_found: "ok s \<Longrightarrow> ms_getValid M s t u v = Inr (Some r) \<Longrightarrow> r \<in> live s t u v"
    and none_found: "ok s \<Longrightarrow> ms_getValid M s t u v = Inr None \<Longrightarrow> live s t u v = {}"
    and issued: "ok s \<Longrightarrow> ms_issue M r s = Inr s' \<Longrightarrow> ok s' \<and> live s' t u v \<subseteq> insert r (live s t u v)"
begin

lemma issuance_cases:
  assumes "run_tx (issuance_tx S now c) s = Inr (s', m)" and "as_marks S = Some M"
  obtains (winner) "ms_getValid M s (tr_type c) (tr_subject c) now = Inr (Some m)" "s' = s"
    | (fresh) "ms_getValid M s (tr_type c) (tr_subject c) now = Inr None" "ms_issue M c s = Inr s'" "m = c"
  using assms by (auto simp: issuance_tx_def await_op_def split: if_splits sum.splits option.splits)

lemma issuance_keeps:
  assumes "ok s" and "one_live live v s" and "now \<le> v" and "as_marks S = Some M"
    and run: "run_tx (issuance_tx S now c) s = Inr (s', m)"
  shows "ok s' \<and> one_live live v s'"
proof -
  from run assms(4) show ?thesis
  proof (cases rule: issuance_cases)
    case winner
    with assms(1,2) show ?thesis by simp
  next
    case fresh
    have none: "live s (tr_type c) (tr_subject c) v = {}"
      using none_found [OF assms(1) fresh(1)] live_earlier [OF assms(3)] by blast
    have "one_live live v s'"
      unfolding one_live_def
    proof (intro allI ballI)
      fix t u r r'
      assume r: "r \<in> live s' t u v" and r': "r' \<in> live s' t u v"
      note sub = issued [OF assms(1) fresh(2), THEN conjunct2, of t u v]
      show "r = r'"
      proof (cases "t = tr_type c \<and> u = tr_subject c")
        case True
        with r r' sub none show ?thesis by blast
      next
        case False
        then have "r \<noteq> c" "r' \<noteq> c" using live_of [OF r] live_of [OF r'] by auto
        with r r' sub have "r \<in> live s t u v" "r' \<in> live s t u v" by blast+
        with assms(2) show ?thesis unfolding one_live_def by blast
      qed
    qed
    with issued [OF assms(1) fresh(2)] show ?thesis by blast
  qed
qed

end

lemma live_marks_issue:
  assumes "issue r s = Inr s'"
  shows "live_marks s' t u v \<subseteq> insert r (live_marks s t u v)"
proof
  fix x
  assume x: "x \<in> live_marks s' t u v"
  from assms obtain ms where ms: "st_trustMarks s = Some ms"
    "s' = s \<or> s' = s\<lparr>st_trustMarks := Some (AList.update (tr_jwt r) r ms)\<rparr>"
    by (auto simp: issue_def mark_records_def split: option.splits if_splits)
  with x set_update_subset [of "tr_jwt r" r ms] show "x \<in> insert r (live_marks s t u v)"
    by (fastforce simp: live_marks_def or_empty_def)
qed

interpretation memory_marks: mark_issuing memory_marks storage_ok live_marks
proof unfold_locales
  show "tr_type r = t \<and> tr_subject r = u \<and> isValidTrustMark r v" if "r \<in> live_marks s t u v" for r s t u v
    using that by (simp add: live_marks_def)
  show "live_marks s t u v' \<subseteq> live_marks s t u v" if "v \<le> v'" for s t u v v'
    using that by (auto simp: live_marks_def isValidTrustMark_def split: option.splits)
  show "r \<in> live_marks s t u v" if "ms_getValid memory_marks s t u v = Inr (Some r)" for s t u v r
    using that getValid_newest [of s t u v "Some r"] by simp
  show "live_marks s t u v = {}" if "ms_getValid memory_marks s t u v = Inr None" for s t u v
    using that getValid_newest [of s t u v None] by simp
  show "storage_ok s' \<and> live_marks s' t u v \<subseteq> insert r (live_marks s t u v)"
    if "storage_ok s" "ms_issue memory_marks r s = Inr s'" for s s' r t u v
    using that issue_ok live_marks_issue by simp
qed

text \<open>An invariant of the jobs holds in every state readers see, and every settled call has an outcome that
  its job gives in the state that the jobs before it leave.\<close>

lemma run_jobs_invariant:
  assumes "P s" and "\<And>j s. j \<in> set js \<Longrightarrow> P s \<Longrightarrow> P (fst (run_job j s)) \<and> Q s j (snd (run_job j s)) (fst (run_job j s))"
  shows "P (fst (run_jobs js s)) \<and> length (snd (run_jobs js s)) = length js \<and>
    (\<forall>i < length js. Q (fst (run_jobs (take i js) s)) (js ! i) (snd (run_jobs js s) ! i) (fst (run_jobs (take (Suc i) js) s)))"
  using assms
proof (induction js arbitrary: s)
  case (Cons j js)
  let ?s = "fst (run_job j s)"
  have step: "P ?s \<and> Q s j (snd (run_job j s)) ?s" using Cons.prems by simp
  have cons: "fst (run_jobs (j # ks) s) = fst (run_jobs ks ?s)" "snd (run_jobs (j # ks) s) = snd (run_job j s) # snd (run_jobs ks ?s)" for ks
    by (simp_all add: Let_def case_prod_unfold)
  have IH: "P (fst (run_jobs js ?s)) \<and> length (snd (run_jobs js ?s)) = length js \<and>
    (\<forall>i < length js. Q (fst (run_jobs (take i js) ?s)) (js ! i) (snd (run_jobs js ?s) ! i) (fst (run_jobs (take (Suc i) js) ?s)))"
    using step Cons.prems(2) by (intro Cons.IH) auto
  show ?case unfolding cons
  proof (intro conjI allI impI)
    fix i
    assume "i < length (j # js)"
    then show "Q (fst (run_jobs (take i (j # js)) s)) ((j # js) ! i) ((snd (run_job j s) # snd (run_jobs js ?s)) ! i)
        (fst (run_jobs (take (Suc i) (j # js)) s))"
      using step IH by (cases i) (simp_all add: cons del: run_jobs.simps(2))
  qed (use IH in simp_all)
qed simp

lemma adapter_invariant:
  assumes "adapter_run s js A" and "P s"
    and "\<And>j s. j \<in> set js \<Longrightarrow> P s \<Longrightarrow> P (fst (run_job j s)) \<and> Q s j (snd (run_job j s)) (fst (run_job j s))"
  shows "P (ad_state A) \<and> (\<forall>i < length (ad_settled A).
    Q (fst (run_jobs (take i js) s)) (js ! i) (ad_settled A ! i) (fst (run_jobs (take (Suc i) js) s)))"
proof -
  from adapter_run_serial [OF assms(1)] obtain dn rest where js: "js = dn @ rest"
    and run: "run_jobs dn s = (ad_state A, ad_settled A)" unfolding serial_def by blast
  have "P (fst (run_jobs dn s)) \<and> length (snd (run_jobs dn s)) = length dn \<and>
    (\<forall>i < length dn. Q (fst (run_jobs (take i dn) s)) (dn ! i) (snd (run_jobs dn s) ! i) (fst (run_jobs (take (Suc i) dn) s)))"
    by (rule run_jobs_invariant) (use assms(2,3) js in auto)
  then show ?thesis by (simp add: run js nth_append)
qed

lemma live_marks_others:
  assumes "perform u op s = Inr s'" and "\<And>r. op \<noteq> IssueMark r"
  shows "live_marks s' t x v \<subseteq> live_marks s t x v"
proof (cases "\<exists>t' s'' w. op = RevokeMark t' s'' w")
  case True
  then obtain t' s'' w where "revoke t' s'' w s = Inr s'" using assms(1) by auto
  from revoke_map [OF this] show ?thesis
    by (fastforce simp: live_marks_def or_empty_def isValidTrustMark_def split: if_splits)
next
  case False
  with marks_untouched [OF assms(1)] assms(2) show ?thesis by (auto simp: live_marks_def)
qed

lemma issuance_start_Inr:
  assumes "issuance_start cx st request = Inr t"
  obtains M trustMarkType sub jwt ttl where "mark_request cx request = Inr (M, trustMarkType, sub)"
    and "may_issue cx trustMarkType"
    and "ttl = (case cx_trustMarkTtlSeconds cx of Some t \<Rightarrow> t | None \<Rightarrow> DEFAULT_DELEGATION_TTL_SECONDS)"
    and "buildTrustMark cx trustMarkType sub (cx_now cx) ttl = Inr jwt"
    and "t = issuance_tx (cx_storage cx) (cx_now cx) (mark_candidate trustMarkType sub jwt (cx_now cx) ttl)"
  using assms
  by (auto simp: issuance_start_def Let_def split: sum.splits prod.splits option.splits if_splits)

text \<open>The jobs of a storage where trust marks are only issued through the handler.\<close>

definition issuing_job :: "(string \<Rightarrow> bool) \<Rightarrow> bool \<Rightarrow> number \<Rightarrow> (memory_state, trust_mark_record) job \<Rightarrow> bool" where
  "issuing_job u ev v j \<longleftrightarrow>
     (\<exists>cx st request t. j = Transaction t \<and> issuance_start cx st request = Inr t \<and>
        cx_storage cx = memory_adapter u ev True \<and> cx_now cx \<le> v) \<or>
     (\<exists>op. j = Mutation (perform u op) \<and> (\<forall>r. op \<noteq> IssueMark r))"

text \<open>A mark that the authority signs for a type and a subject at its clock.\<close>

definition newly_signed :: "'s handler_context \<Rightarrow> string \<Rightarrow> string \<Rightarrow> trust_mark_record \<Rightarrow> bool" where
  "newly_signed cx ty sub m \<longleftrightarrow>
     (\<exists>jwt ttl. ttl = (case cx_trustMarkTtlSeconds cx of Some t \<Rightarrow> t | None \<Rightarrow> DEFAULT_DELEGATION_TTL_SECONDS) \<and>
        buildTrustMark cx ty sub (cx_now cx) ttl = Inr jwt \<and> m = mark_candidate ty sub jwt (cx_now cx) ttl)"

text \<open>
  What an issuance answered with \<open>r\<close> gets that ran in the state \<open>s\<close> and left \<open>s'\<close>: a mark that is valid, or,
  when there is none, a newly signed one that is now recorded. A JWT that was recorded already (with a record
  that is not valid then) keeps its record.
\<close>

definition serves_request ::
  "(string \<Rightarrow> bool) \<Rightarrow> bool \<Rightarrow> memory_state \<Rightarrow> (memory_state, trust_mark_record) job \<Rightarrow> trust_mark_record job_outcome \<Rightarrow>
   memory_state \<Rightarrow> bool"
where
  "serves_request u ev s j r s' \<longleftrightarrow>
     (\<forall>cx st request t m. j = Transaction t \<and> issuance_start cx st request = Inr t \<and> cx_storage cx = memory_adapter u ev True \<and>
        r = Inr (Some m) \<longrightarrow>
        (\<exists>M ty sub. mark_request cx request = Inr (M, ty, sub) \<and> may_issue cx ty \<and>
           (m \<in> live_marks s ty sub (cx_now cx) \<and> s' = s \<or>
            live_marks s ty sub (cx_now cx) = {} \<and> newly_signed cx ty sub m \<and>
              (getByJwt s (tr_jwt m) = Inr None \<and> getByJwt s' (tr_jwt m) = Inr (Some m) \<and>
                 (isValidTrustMark m (cx_now cx) \<longrightarrow> m \<in> live_marks s' ty sub (cx_now cx)) \<or>
               (\<exists>old. getByJwt s (tr_jwt m) = Inr (Some old) \<and> old \<notin> live_marks s ty sub (cx_now cx) \<and> s' = s)))))"

lemma issuing_job_keeps:
  assumes "issuing_job u ev v j" and "storage_ok s \<and> one_live live_marks v s"
  shows "storage_ok (fst (run_job j s)) \<and> one_live live_marks v (fst (run_job j s))"
  using assms(1) unfolding issuing_job_def
proof (elim disjE exE conjE)
  fix cx st request t
  assume j: "j = Transaction t" and start: "issuance_start cx st request = Inr t"
    and cx: "cx_storage cx = memory_adapter u ev True" "cx_now cx \<le> v"
  from start obtain c where t: "t = issuance_tx (cx_storage cx) (cx_now cx) c" by (rule issuance_start_Inr)
  have M: "as_marks (cx_storage cx) = Some memory_marks" by (simp add: cx)
  show ?thesis
    using assms(2) memory_marks.issuance_keeps [OF _ _ cx(2) M] by (auto simp: j t split: sum.splits)
next
  fix op
  assume j: "j = Mutation (perform u op)" and op: "\<forall>r. op \<noteq> IssueMark r"
  show ?thesis
  proof (cases "perform u op s")
    case (Inr s')
    have "one_live live_marks v s'"
      using assms(2) live_marks_others [OF Inr] op by (intro one_live_subset [of live_marks v s s']) simp_all
    with Inr assms(2) perform_ok [OF Inr] show ?thesis by (simp add: j)
  qed (use assms(2) in \<open>simp add: j\<close>)
qed

lemma issue_records:
  assumes "issue r s = Inr s'"
  shows "getByJwt s (tr_jwt r) = Inr None \<and> getByJwt s' (tr_jwt r) = Inr (Some r) \<or>
    (\<exists>old. getByJwt s (tr_jwt r) = Inr (Some old) \<and> s' = s)"
proof -
  from assms obtain ms where ms: "st_trustMarks s = Some ms" by (auto simp: issue_def mark_records_def split: option.splits)
  with assms show ?thesis
    by (cases "map_of ms (tr_jwt r)") (auto simp: issue_def mark_records_def getByJwt_def update_conv')
qed

lemma recorded_live:
  "getByJwt s jwt = Inr (Some m) \<Longrightarrow> tr_type m = ty \<Longrightarrow> tr_subject m = sub \<Longrightarrow> isValidTrustMark m v \<Longrightarrow> m \<in> live_marks s ty sub v"
  by (force simp: getByJwt_def mark_records_def live_marks_def or_empty_def split: option.splits dest: map_of_SomeD)

lemma issuing_job_serves:
  assumes "storage_ok s"
  shows "serves_request u ev s j (snd (run_job j s)) (fst (run_job j s))"
  unfolding serves_request_def
proof (intro allI impI, elim conjE)
  fix cx st request t m
  assume j: "j = Transaction t" and start: "issuance_start cx st request = Inr t"
    and cx: "cx_storage cx = memory_adapter u ev True" and m: "snd (run_job j s) = Inr (Some m)"
  from start obtain M ty sub jwt ttl where req: "mark_request cx request = Inr (M, ty, sub)" "may_issue cx ty"
    and jwt: "ttl = (case cx_trustMarkTtlSeconds cx of Some t \<Rightarrow> t | None \<Rightarrow> DEFAULT_DELEGATION_TTL_SECONDS)"
      "buildTrustMark cx ty sub (cx_now cx) ttl = Inr jwt"
    and t: "t = issuance_tx (cx_storage cx) (cx_now cx) (mark_candidate ty sub jwt (cx_now cx) ttl)"
    by (rule issuance_start_Inr)
  let ?c = "mark_candidate ty sub jwt (cx_now cx) ttl" and ?s = "fst (run_job j s)"
  from m j have run: "run_tx t s = Inr (?s, m)" by (auto split: sum.splits)
  have c: "tr_type ?c = ty" "tr_subject ?c = sub" by (simp_all add: mark_candidate_def)
  have M: "as_marks (cx_storage cx) = Some memory_marks" by (simp add: cx)
  have "m \<in> live_marks s ty sub (cx_now cx) \<and> ?s = s \<or>
      live_marks s ty sub (cx_now cx) = {} \<and> m = ?c \<and> issue m s = Inr ?s"
    using run [unfolded t] M
  proof (cases rule: memory_marks.issuance_cases)
    case winner
    with memory_marks.valid_found [OF assms, of ty sub "cx_now cx" m] c show ?thesis by simp
  next
    case fresh
    with memory_marks.none_found [OF assms, of ty sub "cx_now cx"] c show ?thesis by simp
  qed
  moreover have "newly_signed cx ty sub ?c" using jwt unfolding newly_signed_def by blast
  moreover note issue_records [of m s ?s] recorded_live [of ?s "tr_jwt m" m ty sub "cx_now cx"]
  ultimately show "\<exists>M ty sub. mark_request cx request = Inr (M, ty, sub) \<and> may_issue cx ty \<and>
     (m \<in> live_marks s ty sub (cx_now cx) \<and> ?s = s \<or>
      live_marks s ty sub (cx_now cx) = {} \<and> newly_signed cx ty sub m \<and>
        (getByJwt s (tr_jwt m) = Inr None \<and> getByJwt ?s (tr_jwt m) = Inr (Some m) \<and>
           (isValidTrustMark m (cx_now cx) \<longrightarrow> m \<in> live_marks ?s ty sub (cx_now cx)) \<or>
         (\<exists>old. getByJwt s (tr_jwt m) = Inr (Some old) \<and> old \<notin> live_marks s ty sub (cx_now cx) \<and> ?s = s)))"
    using req c by (intro exI [of _ M] exI [of _ ty] exI [of _ sub]) auto
qed

text \<open>A request that needs no transaction: the first read finds the mark.\<close>

lemma first_read_serves:
  assumes "issuance_start cx s request = Inl response" and "sp_status response = 200" and "cx_storage cx = memory_adapter u ev True"
  shows "\<exists>M ty sub m. mark_request cx request = Inr (M, ty, sub) \<and> may_issue cx ty \<and>
    m \<in> live_marks s ty sub (cx_now cx) \<and> response = mark_response m"
proof -
  have refused: "sp_status r \<noteq> 200" if "mark_request cx request = Inl r" for r
    using that by (auto simp: mark_request_def requireMethod_def marks_not_configured_def missing_type_def invalid_sub_def
        errorResponse_def jsonResponse_def split: option.splits if_splits)
  have failed: "sp_status issuance_failed \<noteq> 200" "sp_status (errorResponse 403 c d) \<noteq> 200" for c d
    by (simp_all add: issuance_failed_def errorResponse_def jsonResponse_def)
  obtain M ty sub where req: "mark_request cx request = Inr (M, ty, sub)"
    using assms(1,2) refused by (auto simp: issuance_start_def split: sum.splits)
  then have M: "M = memory_marks" using assms(3) by (auto simp: mark_request_def split: option.splits)
  show ?thesis
    using assms(1,2) failed getValid_newest [of s ty sub "cx_now cx"]
    by (auto simp: issuance_start_def req M Let_def split: if_splits sum.splits option.splits)
qed

text \<open>
  C16: Concurrent issuance never leaves two valid trust marks, and serves the valid one. Let any number of
  issuance requests and other mutations of the storage arrive and interleave, the requests with clocks that are not ahead
  of \<open>v\<close>: in every state a reader of the memory adapter can see, at most one mark of any type and subject is valid at
  \<open>v\<close>. A request is answered with a mark of the type and for the subject it asked for: the valid one of the state in
  which it runs, and when there is none a newly signed one, which is recorded with it and is valid if its lifetime is
  positive. The exception: when the JWT that was signed is one the storage has already (revoked or expired), the record
  stays as it is and the request gets that JWT. A request whose first read finds a valid mark gets that one.
\<close>
theorem issuance_unique:
  assumes "adapter_run st js A" and "storage_ok st" and "one_live live_marks v st"
    and "\<forall>j \<in> set js. issuing_job u ev v j"
  shows "one_live live_marks v (ad_state A) \<and>
    (\<forall>i < length (ad_settled A).
       serves_request u ev (fst (run_jobs (take i js) st)) (js ! i) (ad_settled A ! i) (fst (run_jobs (take (Suc i) js) st))) \<and>
    (\<forall>cx s request response. cx_storage cx = memory_adapter u ev True \<and> issuance_start cx s request = Inl response \<and>
       sp_status response = 200 \<longrightarrow>
       (\<exists>M ty sub m. mark_request cx request = Inr (M, ty, sub) \<and> may_issue cx ty \<and>
          m \<in> live_marks s ty sub (cx_now cx) \<and> response = mark_response m))"
proof -
  have "(storage_ok (ad_state A) \<and> one_live live_marks v (ad_state A)) \<and>
    (\<forall>i < length (ad_settled A).
       serves_request u ev (fst (run_jobs (take i js) st)) (js ! i) (ad_settled A ! i) (fst (run_jobs (take (Suc i) js) st)))"
    using assms(1) by (rule adapter_invariant) (use assms issuing_job_keeps issuing_job_serves in auto)
  then show ?thesis using first_read_serves by blast
qed

definition example_mark_request :: server_request where
  "example_mark_request = get_request [(''trust_mark_type'', ''https://tm''), (''sub'', ''https://leaf'')]"

definition example_issuance :: "(memory_state, trust_mark_record) job" where
  "example_issuance = (case issuance_start example_context example_members example_mark_request of
     Inr t \<Rightarrow> Transaction t | Inl _ \<Rightarrow> Mutation Inr)"

theorem issuance_unique_witness:
  "\<exists>A. adapter_run example_members [example_issuance, example_issuance] A \<and> ad_waiting A = [] \<and>
     live_marks (ad_state A) ''https://tm'' ''https://leaf'' 60 \<noteq> {} \<and> one_live live_marks 60 (ad_state A)"
proof -
  obtain A where A: "adapter_run example_members [example_issuance, example_issuance] A" "ad_waiting A = []"
    "ad_state A = fst (run_jobs [example_issuance, example_issuance] example_members)"
    using serial_execution [of example_members "[example_issuance, example_issuance]"] by (elim exE conjE)
  have "st_trustMarks example_members = Some []" by code_simp
  then have none: "one_live live_marks 60 example_members" by (simp add: one_live_def live_marks_def or_empty_def)
  have start: "case issuance_start example_context example_members example_mark_request of Inr t \<Rightarrow> True | Inl _ \<Rightarrow> False"
    by code_simp
  have "issuing_job (\<lambda>_. True) True 60 example_issuance"
    unfolding issuing_job_def
    by (rule disjI1, rule exI [of _ example_context], rule exI [of _ example_members], rule exI [of _ example_mark_request])
       (use start in \<open>auto simp: example_issuance_def example_context_def split: sum.splits\<close>)
  then have "one_live live_marks 60 (ad_state A)"
    using issuance_unique [OF A(1) example_storage(1) none, of "\<lambda>_. True" True] by simp
  moreover have "(case getValid (ad_state A) ''https://tm'' ''https://leaf'' 60 of Inr (Some _) \<Rightarrow> True | _ \<Rightarrow> False)"
    unfolding A(3) by code_simp
  then have "live_marks (ad_state A) ''https://tm'' ''https://leaf'' 60 \<noteq> {}"
    using getValid_newest [of "ad_state A" "''https://tm''" "''https://leaf''" 60] by (auto split: sum.splits option.splits)
  ultimately show ?thesis using A by blast
qed

section \<open>Listing and status\<close>

lemma valid_marks_subjects:
  assumes "st_trustMarks st = Some ms"
  shows "set (map tr_subject (valid_marks st t s v)) = {u. live_marks st t u v \<noteq> {} \<and> (case s of None \<Rightarrow> True | Some x \<Rightarrow> u = x)}"
  using latestBySubject_keys(2)
  by (fastforce simp: assms valid_marks_def live_marks_def or_empty_def image_iff split: option.splits)

lemma valid_marks_ordered: "sorted (map tr_subject (valid_marks st t s v))" "distinct (map tr_subject (valid_marks st t s v))"
  by (rule mark_listing.keys_sorted mark_listing.keys_distinct, rule TrueI)+

lemma list_page_at:
  assumes "st_trustMarks st = Some ms" and "i < length (valid_marks st t s v)"
    and "c = Some (tr_subject (valid_marks st t s v ! i)) \<or> (c = None \<and> i = 0)"
  shows "listValid st t v \<lparr>tl_subject = s, tl_cursor = c, tl_limit = 500\<rparr> =
    Inr \<lparr>lp_items = take 500 (drop i (valid_marks st t s v)),
      lp_nextCursor = (if i + 500 < length (valid_marks st t s v) then Some (tr_subject (valid_marks st t s v ! (i + 500))) else None)\<rparr>"
proof -
  have "is_safe_integer (of_nat 500)" by code_simp
  from listValid_page [OF assms(1) _ this, of t v s c]
  have page: "listValid st t v \<lparr>tl_subject = s, tl_cursor = c, tl_limit = of_nat 500\<rparr> = Inr (mark_page t s v st c 500)"
    by (simp add: mark_page_def)
  then show ?thesis using mark_listing.page_at [OF TrueI _ assms(2,3), of 500] by simp
qed

lemma later_subject_nonempty:
  assumes "i < length (valid_marks st t s v)" and "0 < i"
  shows "tr_subject (valid_marks st t s v ! i) \<noteq> []"
proof -
  let ?ks = "map tr_subject (valid_marks st t s v)"
  have i: "i < length ?ks" "0 < length ?ks" using assms by auto
  have "?ks ! 0 \<le> ?ks ! i" using sorted_nth_mono [OF valid_marks_ordered(1) _ i(1), of 0] by simp
  moreover have "?ks ! 0 \<noteq> ?ks ! i"
    using nth_eq_iff_index_eq [OF valid_marks_ordered(2) i(2,1)] assms(2) by simp
  ultimately have "?ks ! i \<noteq> []" by auto
  then show ?thesis using assms(1) by simp
qed

lemma collect_from:
  assumes marks: "st_trustMarks st = Some ms" and "i < length (valid_marks st t s v)"
    and "c = Some (tr_subject (valid_marks st t s v ! i)) \<or> (c = None \<and> i = 0)"
    and "\<forall>x \<in> set seen. \<exists>j \<le> i. x = tr_subject (valid_marks st t s v ! j)"
  shows "collect_pages (\<lambda>c. listValid st t v \<lparr>tl_subject = s, tl_cursor = c, tl_limit = 500\<rparr>) ids seen c =
    Some (Inr (ids @ map tr_subject (drop i (valid_marks st t s v))))"
  using assms(2-4)
proof (induction "length (valid_marks st t s v) - i" arbitrary: i ids seen c rule: less_induct)
  case less
  let ?xs = "valid_marks st t s v"
  note page = list_page_at [OF marks less.prems(1,2)]
  show ?case
  proof (cases "i + 500 < length ?xs")
    case False
    then show ?thesis by (subst collect_pages.simps) (simp add: page some_nonempty_def)
  next
    case True
    let ?c = "tr_subject (?xs ! (i + 500))"
    have ne: "some_nonempty (Some ?c) = Some ?c"
      using later_subject_nonempty [OF True] by (cases ?c) (simp_all add: some_nonempty_def)
    have fresh: "?c \<notin> set seen"
    proof
      assume "?c \<in> set seen"
      then obtain j where "j \<le> i" "?c = tr_subject (?xs ! j)" using less.prems(3) by blast
      then show False
        using nth_eq_iff_index_eq [OF valid_marks_ordered(2) [of st t s v], of j "i + 500"] True by auto
    qed
    have "\<forall>x \<in> set (?c # seen). \<exists>j \<le> i + 500. x = tr_subject (?xs ! j)"
      using less.prems(3) by (auto intro: order.trans [OF _ le_add1])
    then have "collect_pages (\<lambda>c. listValid st t v \<lparr>tl_subject = s, tl_cursor = c, tl_limit = 500\<rparr>)
        (ids @ map tr_subject (take 500 (drop i ?xs))) (?c # seen) (Some ?c) =
      Some (Inr ((ids @ map tr_subject (take 500 (drop i ?xs))) @ map tr_subject (drop (i + 500) ?xs)))"
      using True less.prems(1) by (intro less.hyps) auto
    also have "(ids @ map tr_subject (take 500 (drop i ?xs))) @ map tr_subject (drop (i + 500) ?xs) = ids @ map tr_subject (drop i ?xs)"
      by (subst append_take_drop_id [of 500 "drop i ?xs", symmetric]) (simp only: map_append append.assoc drop_drop add.commute)
    finally show ?thesis using True fresh by (subst collect_pages.simps) (simp add: page ne Let_def)
  qed
qed

lemma collect_all:
  assumes "st_trustMarks st = Some ms"
  shows "collect_pages (\<lambda>c. listValid st t v \<lparr>tl_subject = s, tl_cursor = c, tl_limit = 500\<rparr>) [] [] None =
    Some (Inr (map tr_subject (valid_marks st t s v)))"
proof (cases "valid_marks st t s v = []")
  case True
  have "is_safe_integer (of_nat 500)" by code_simp
  with listValid_page [OF assms _ this, of t v s None] True show ?thesis
    by (subst collect_pages.simps) (simp add: page_of_def from_cursor_def some_nonempty_def)
next
  case False
  then show ?thesis using collect_from [OF assms, of 0 t s v None "[]" "[]"] by simp
qed

text \<open>
  C24: The trust mark listing ends and is exact: for a type, and a subject when one is given, the answer lists the
  subjects that have a valid mark of the type at the current time, each once and in order, however many pages of
  500 marks the loop has to follow.
\<close>
theorem trust_mark_list_exact:
  assumes "cx_storage cx = memory_adapter u ev True" and "st_trustMarks st = Some ms" and "upper (sq_method request) = ''GET''"
    and "param (sq_query request) ''trust_mark_type'' = Some t" "t \<noteq> []"
    and "some_nonempty (param (sq_query request) ''sub'') = s" "\<forall>x. s = Some x \<longrightarrow> valid_entity cx x"
  shows "\<exists>ids. createTrustMarkListHandler cx st request = Some (jsonResponse (string_array ids) 200) \<and> sorted ids \<and> distinct ids \<and>
    set ids = {x. live_marks st t x (cx_now cx) \<noteq> {} \<and> (case s of None \<Rightarrow> True | Some y \<Rightarrow> x = y)}"
proof -
  let ?ids = "map tr_subject (valid_marks st t s (cx_now cx))"
  have t: "some_nonempty (Some t) = Some t" using assms(5) by (cases t) (simp_all add: some_nonempty_def)
  have ok: "\<not> (case s of None \<Rightarrow> False | Some x \<Rightarrow> \<not> valid_entity cx x)" using assms(7) by (simp split: option.splits)
  have "createTrustMarkListHandler cx st request = Some (jsonResponse (string_array ?ids) 200)"
    unfolding createTrustMarkListHandler_def requireMethod_def
    by (simp add: assms(1,3,4,6) t ok collect_all [OF assms(2)] or_server_error_def Let_def)
  moreover have "sorted ?ids" "distinct ?ids" by (rule valid_marks_ordered)+
  ultimately show ?thesis using valid_marks_subjects [OF assms(2), of t s "cx_now cx"] by blast
qed

theorem trust_mark_list_exact_witness:
  "\<exists>ids. createTrustMarkListHandler example_context example_marks (get_request [(''trust_mark_type'', ''https://tm'')]) =
      Some (jsonResponse (string_array ids) 200) \<and> ''https://leaf'' \<in> set ids"
proof -
  have c: "cx_storage example_context = memory_adapter (\<lambda>_. True) True True" by (simp add: example_context_def)
  have m: "st_trustMarks example_marks = Some [(''j'', example_mark)]" by code_simp
  have r: "upper (sq_method (get_request [(''trust_mark_type'', ''https://tm'')])) = ''GET''"
    "param (sq_query (get_request [(''trust_mark_type'', ''https://tm'')])) ''trust_mark_type'' = Some ''https://tm''" "''https://tm'' \<noteq> []"
    "some_nonempty (param (sq_query (get_request [(''trust_mark_type'', ''https://tm'')])) ''sub'') = None"
    by code_simp+
  have live: "example_mark \<in> live_marks example_marks ''https://tm'' ''https://leaf'' (cx_now example_context)"
    by (simp add: live_marks_def m or_empty_def) (simp add: example_mark_def isValidTrustMark_def)
  from trust_mark_list_exact [OF c m r] obtain ids where
    "createTrustMarkListHandler example_context example_marks (get_request [(''trust_mark_type'', ''https://tm'')]) = Some (jsonResponse (string_array ids) 200)"
    and "set ids = {x. live_marks example_marks ''https://tm'' x (cx_now example_context) \<noteq> {}}" by auto
  with live show ?thesis by blast
qed

lemma trust_mark_claims_sel:
  "pget (trust_mark_claims cx t sub iat ttl) ''iss'' = JStr (cx_entityId cx)"
  "pget (trust_mark_claims cx t sub iat ttl) ''sub'' = JStr sub"
  "pget (trust_mark_claims cx t sub iat ttl) ''trust_mark_type'' = JStr t"
  "pget (trust_mark_claims cx t sub iat ttl) ''exp'' = JNum (iat + ttl)"
  by (simp_all add: trust_mark_claims_def pget_def)

lemma status_signed:
  assumes "cx_keySet cx = Inr (signer, ks)" and "validateSigner signer = Inr ()"
  shows "buildStatusResponse cx jwt status = Inr (jwtResponse
    (sign_jwt signer (status_claims cx jwt status) (signing_header signer TRUST_MARK_STATUS_TYP)) MEDIA_TRUST_MARK_STATUS)"
  by (simp add: buildStatusResponse_def assms sign_typ_total)

text \<open>
  The status endpoint reports the storage's record of a mark that the authority issued with its current key:
  expired from its expiry on, before that active or revoked as the record says, in a JWT signed by the authority
  that names the mark. The trust mark type has to be an entity identifier, which the issuance does not check.
\<close>
lemma issued_mark_status:
  assumes keys: "cx_keySet cx = Inr (signer, ks)" "validateFederationKeySet signer ks = Inr ()"
    and store: "cx_storage cx = memory_adapter u ev True" "getByJwt st jwt = Inr (Some r)"
    and issued: "cx_entityId cx0 = cx_entityId cx" "cx_keySet cx0 = cx_keySet cx" "buildTrustMark cx0 t sub iat ttl = Inr jwt"
    and jose: "jose_reads (cx_jose cx) signer ks TRUST_MARK_TYP (trust_mark_claims cx0 t sub iat ttl)"
    and claims: "t \<noteq> []" "valid_entity cx t" "sub \<noteq> []"
    and clock: "cx_clock cx = Some (cx_now cx)" "0 \<le> skew_of (cx_clockSkewSeconds cx)"
    and request: "upper (sq_method request) = ''POST''" "jwt \<noteq> []"
      "readBodyWithLimit (cx_text cx) request DEFAULT_MAX_REQUEST_BODY_BYTES = Inr (Some text)"
      "map_of (rev (cx_form cx text)) ''trust_mark'' = Some jwt"
  shows "createTrustMarkStatusHandler cx st request = Inr (jwtResponse
    (sign_jwt signer (status_claims cx jwt (if iat + ttl \<le> cx_now cx then ExpiredMark else if tr_active r then ActiveMark else RevokedMark))
      (signing_header signer TRUST_MARK_STATUS_TYP)) MEDIA_TRUST_MARK_STATUS)"
proof -
  let ?p = "trust_mark_claims cx0 t sub iat ttl" and ?h = "signing_header signer TRUST_MARK_TYP"
  have signer: "validateSigner signer = Inr ()" using keys(2) by (rule validated_key_set)
  have jwt: "jwt = sign_jwt signer ?p ?h"
    using issued(2,3) keys(1) sign_typ_Inr(1) by (auto simp: buildTrustMark_def)
  have decoded: "decodeEntityStatement (cx_jose cx) jwt = Inr \<lparr>header = ?h, payload = ?p\<rparr>"
    using jose by (simp add: jwt decodeEntityStatement_def jose_reads_def Let_def)
  have live: "verifyEntityStatement (cx_jose cx) jwt (key_set_json ks)
      \<lparr>clockSkewSeconds = cx_clockSkewSeconds cx, clock = cx_clock cx, expectedTyp = Some TRUST_MARK_TYP\<rparr> =
      Inr \<lparr>header = ?h, payload = ?p\<rparr>" if "cx_now cx < iat + ttl"
    unfolding jwt clock(1) using keys(2) jose
    by (rule own_jwt_verifies) (use that clock(2) in \<open>simp add: unexpired_def trust_mark_claims_sel\<close>)
  have "status_of_mark cx memory_marks st jwt = buildStatusResponse cx jwt
      (if iat + ttl \<le> cx_now cx then ExpiredMark else if tr_active r then ActiveMark else RevokedMark)"
    using live claims
    by (simp add: status_of_mark_def decoded trust_mark_claims_sel valid_entity_claim_def issued(1) store keys(1) Let_def not_le)
  moreover have "some_nonempty (Some jwt) = Some jwt" using request(2) by (cases jwt) (simp_all add: some_nonempty_def)
  moreover have "requireMethod request ''POST'' = None" by (simp add: requireMethod_def request(1)) code_simp
  ultimately show ?thesis
    by (simp add: createTrustMarkStatusHandler_def store(1) request(3,4) status_signed [OF keys(1) signer])
qed

definition example_status_context :: "memory_state handler_context" where
  "example_status_context = example_context\<lparr>cx_form := (\<lambda>_. [(''trust_mark'', ''jws'')]), cx_jose :=
     \<lparr>jose_header = \<lambda>_. Inr (signing_header example_ta_signer TRUST_MARK_TYP),
      jose_payload = \<lambda>_. Inr (trust_mark_claims example_context ''https://tm'' ''https://leaf'' 10 100),
      jose_verify = \<lambda>_ _ _ _ _. Inr (trust_mark_claims example_context ''https://tm'' ''https://leaf'' 10 100)\<rparr>\<rparr>"

definition example_status_request :: server_request where
  "example_status_request =
     \<lparr>sq_method = ''POST'', sq_path = [], sq_query = [], sq_headers = [], sq_body = Some \<lparr>rb_chunks = [], rb_fails = False\<rparr>\<rparr>"

definition example_issued :: memory_state where
  "example_issued = perform_all (\<lambda>_. True) [IssueMark (mark_candidate ''https://tm'' ''https://leaf'' ''jws'' 10 100),
     RevokeMark ''https://tm'' ''https://leaf'' 20] (MemoryStorageAdapter True True)"

lemma issued_mark_status_witness:
  "createTrustMarkStatusHandler example_status_context example_issued example_status_request = Inr (jwtResponse
     (sign_jwt example_ta_signer (status_claims example_status_context ''jws'' RevokedMark)
       (signing_header example_ta_signer TRUST_MARK_STATUS_TYP)) MEDIA_TRUST_MARK_STATUS)"
proof -
  let ?r = "(mark_candidate ''https://tm'' ''https://leaf'' ''jws'' 10 100)\<lparr>tr_active := False, tr_revokedAt := Some 20\<rparr>"
  have c: "cx_keySet example_status_context = Inr (example_ta_signer, example_ta_keys)"
    "cx_storage example_status_context = memory_adapter (\<lambda>_. True) True True"
    "cx_entityId example_context = cx_entityId example_status_context" "cx_keySet example_context = cx_keySet example_status_context"
    "cx_clock example_status_context = Some (cx_now example_status_context)"
    by (simp_all add: example_status_context_def example_context_def)
  have r: "getByJwt example_issued ''jws'' = Inr (Some ?r)" by code_simp
  have b: "buildTrustMark example_context ''https://tm'' ''https://leaf'' 10 100 = Inr ''jws''" by code_simp
  have j: "jose_reads (cx_jose example_status_context) example_ta_signer example_ta_keys TRUST_MARK_TYP
      (trust_mark_claims example_context ''https://tm'' ''https://leaf'' 10 100)"
    by (simp add: jose_reads_def example_status_context_def)
  have rest: "''https://tm'' \<noteq> []" "valid_entity example_status_context ''https://tm''" "''https://leaf'' \<noteq> []"
    "0 \<le> skew_of (cx_clockSkewSeconds example_status_context)" "upper (sq_method example_status_request) = ''POST''" "''jws'' \<noteq> []"
    "readBodyWithLimit (cx_text example_status_context) example_status_request DEFAULT_MAX_REQUEST_BODY_BYTES = Inr (Some [])"
    "map_of (rev (cx_form example_status_context [])) ''trust_mark'' = Some ''jws''" by code_simp+
  have now: "\<not> 10 + 100 \<le> cx_now example_status_context" "\<not> tr_active ?r" by code_simp+
  show ?thesis
    using issued_mark_status [OF c(1) example_keys c(2) r c(3,4) b j rest(1-3) c(5) rest(4-8)] unfolding if_not_P [OF now(1)] if_not_P [OF now(2)] .
qed

text \<open>The issuance skips a JWT that is recorded already. With a signer that is deterministic, a mark that is
  revoked and issued again within the same second is the same JWT: the handler answers with it although it stays
  recorded as revoked.\<close>

lemma reissued_within_a_second:
  assumes "mark_request cx request = Inr (memory_marks, t, sub)" and "may_issue cx t"
    and "cx_storage cx = memory_adapter u ev True" and "st_trustMarks st = Some ms"
    and "buildTrustMark cx t sub (cx_now cx) (case cx_trustMarkTtlSeconds cx of Some x \<Rightarrow> x | None \<Rightarrow> DEFAULT_DELEGATION_TTL_SECONDS) = Inr jwt"
    and "getValid st t sub (cx_now cx) = Inr None" and "map_of ms jwt = Some r" and "\<not> tr_active r"
  shows "createTrustMarkIssuanceHandler cx st st request = (st, jwtResponse jwt MEDIA_TRUST_MARK)"
  using assms
  by (simp add: createTrustMarkIssuanceHandler_def issuance_start_def Let_def issuance_tx_def await_op_def mark_candidate_def
      issue_def mark_records_def mark_response_def)

end
