(* ===== verification/Federation_Clients.thy ===== *)
theory Federation_Clients
  imports Authority_Endpoints
begin

text \<open>
  packages/core/src/federation-api, trust-marks/fetch.ts, trust-marks/logo.ts and jwks: the clients of the
  federation endpoints and the resolution of an entity's keys.

  A client returns the requests it sent beside its result. The edits of a URL's query are a parameter, as is
  the printing of a form; so are the zod schemas of the responses, \<open>None\<close> when the payload does not match. Keys and
  clocks of a verification are its own parameters; \<open>op_fetch\<close> is what \<open>performFetch\<close> reads of the options.
\<close>

section \<open>The platform and the options\<close>

datatype query_edit = SetParam string string | AppendParam string string | DeleteParam string

record client_env =
  ce_http :: http_env
  ce_jose :: jose
  ce_query :: "string \<Rightarrow> query_edit list \<Rightarrow> string" \<comment> \<open>\<open>new URL(u)\<close> after the edits, as a text\<close>
  ce_form :: "url_params \<Rightarrow> string"
  ce_mark :: "string \<Rightarrow> bool" \<comment> \<open>\<open>new URL(u).href\<close> contains a hash mark\<close>
  ce_issues :: "jsval \<Rightarrow> string" \<comment> \<open>the message of a failed parse\<close>
  ce_abort_text :: string \<comment> \<open>the message of an abort\<close>
  ce_resolve :: "jsval dict \<Rightarrow> jsval dict option"
  ce_status :: "jsval dict \<Rightarrow> jsval dict option"
  ce_historical :: "jsval dict \<Rightarrow> jsval dict option"
  ce_signedSet :: "jsval dict \<Rightarrow> jsval dict option"
  ce_events :: "jsval dict \<Rightarrow> jsval dict option"
  ce_extended :: "jsval \<Rightarrow> jsval option"
  ce_collectionRequest :: "jsval dict \<Rightarrow> jsval dict option"
  ce_collectionResponse :: "jsval \<Rightarrow> jsval option"

record client_options =
  op_fetch :: fetch_options
  op_skew :: "number option"
  op_clock :: "number option"

definition expecting :: "client_options \<Rightarrow> string \<Rightarrow> fetch_options" where
  "expecting op media = (op_fetch op)\<lparr>fo_accept := Some media, fo_expectedContentType := Some (Some media)\<rparr>"

definition apiError :: "string \<Rightarrow> fed_error" where
  "apiError d = mk_err ''ERR_SIGNATURE_INVALID'' d"

definition buildVerifyOpts :: "string \<Rightarrow> client_options \<Rightarrow> verify_options" where
  "buildVerifyOpts typ op = \<lparr>clockSkewSeconds = op_skew op, clock = op_clock op, expectedTyp = Some typ\<rparr>"

text \<open>The checks of an endpoint URL, with the code and the words of the client.\<close>

definition check_endpoint :: "(string \<Rightarrow> url option) \<Rightarrow> string \<Rightarrow> string \<Rightarrow> string \<Rightarrow> string \<Rightarrow> fed_error option" where
  "check_endpoint parse_url c invalid kind endpoint =
     (case parse_url endpoint of
        None \<Rightarrow> Some (mk_err c (invalid @ '': '' @ endpoint))
      | Some parsed \<Rightarrow>
          if url_protocol parsed \<noteq> ''https:'' then Some (mk_err c (kind @ '' must use https scheme: '' @ endpoint))
          else if url_hash parsed \<noteq> [] then Some (mk_err c (kind @ '' must not contain a fragment: '' @ endpoint))
          else None)"

section \<open>Verification of responses\<close>

text \<open>A verified response whose payload has the shape of its schema.\<close>

definition verify_shaped ::
  "client_env \<Rightarrow> (jsval dict \<Rightarrow> jsval dict option) \<Rightarrow> string \<Rightarrow> string \<Rightarrow> string \<Rightarrow> jsval \<Rightarrow> client_options \<Rightarrow>
   (fed_error, jsval dict) result"
where
  "verify_shaped X schema typ what jwt jwks op =
     (case verifyEntityStatement (ce_jose X) jwt jwks (buildVerifyOpts typ op) of
        Inl e \<Rightarrow> Inl e
      | Inr result \<Rightarrow>
          (case schema (payload result) of
             None \<Rightarrow> Inl (apiError (''Invalid '' @ what @ '': '' @ ce_issues X (JObj (payload result))))
           | Some parsed \<Rightarrow> Inr parsed))"

definition RESOLVE_RESPONSE_TYP :: string where "RESOLVE_RESPONSE_TYP = ''resolve-response+jwt''"

definition verifyResolveResponse :: "client_env \<Rightarrow> string \<Rightarrow> jsval \<Rightarrow> client_options \<Rightarrow> (fed_error, jsval dict) result" where
  "verifyResolveResponse X jwt issuerJwks op =
     verify_shaped X (ce_resolve X) RESOLVE_RESPONSE_TYP ''resolve response payload'' jwt issuerJwks op"

definition verifyTrustMarkStatusResponse ::
  "client_env \<Rightarrow> string \<Rightarrow> jsval \<Rightarrow> client_options \<Rightarrow> (fed_error, jsval dict) result" where
  "verifyTrustMarkStatusResponse X jwt issuerJwks op =
     verify_shaped X (ce_status X) TRUST_MARK_STATUS_TYP ''trust mark status response payload'' jwt issuerJwks op"

definition verifyHistoricalKeysResponse ::
  "client_env \<Rightarrow> string \<Rightarrow> jsval \<Rightarrow> client_options \<Rightarrow> (fed_error, jsval dict) result" where
  "verifyHistoricalKeysResponse X jwt issuerJwks op =
     verify_shaped X (ce_historical X) JWK_SET_TYP ''historical keys response payload'' jwt issuerJwks op"

definition verifySignedJwkSet :: "client_env \<Rightarrow> string \<Rightarrow> jsval \<Rightarrow> client_options \<Rightarrow> (fed_error, jsval dict) result" where
  "verifySignedJwkSet X jwt signerJwks op =
     (case verify_shaped X (ce_signedSet X) JWK_SET_TYP ''signed JWK Set payload'' jwt signerJwks op of
        Inl e \<Rightarrow> Inl e
      | Inr data \<Rightarrow>
          (case validateJwkSetUseRequirement (items (pget data ''keys'')) of Inl e \<Rightarrow> Inl e | Inr _ \<Rightarrow> Inr data))"

definition verifySubordinateEventsResponse ::
  "client_env \<Rightarrow> string \<Rightarrow> jsval \<Rightarrow> string \<Rightarrow> string \<Rightarrow> client_options \<Rightarrow> (fed_error, jsval dict) result" where
  "verifySubordinateEventsResponse X jwt issuerJwks issuer subject op =
     (case verify_shaped X (ce_events X) ENTITY_EVENTS_TYP ''subordinate events response'' jwt issuerJwks op of
        Inl e \<Rightarrow> Inl e
      | Inr data \<Rightarrow>
          if \<not> strict_eq (pget data ''iss'') (JStr issuer) \<or> \<not> strict_eq (pget data ''sub'') (JStr subject)
          then Inl (apiError ''Subordinate events issuer or subject does not match the request'')
          else Inr data)"

section \<open>Historical keys\<close>

definition SECURITY_REVOCATION_REASONS :: "string list" where
  "SECURITY_REVOCATION_REASONS = [''compromised'', ''keyCompromise'', ''key_compromise'']"

text \<open>The times of an entry are numbers by its schema.\<close>

definition reached :: "number \<Rightarrow> jsval \<Rightarrow> bool" where
  "reached t v \<longleftrightarrow> (case v of JNum n \<Rightarrow> n \<le> t | _ \<Rightarrow> False)"

definition usable_at :: "number \<Rightarrow> jsval dict \<Rightarrow> bool" where
  "usable_at validAt key =
     (let revoked = pget key ''revoked'' in
      if truthy (mget revoked ''reason'') \<and> in_strings SECURITY_REVOCATION_REASONS (mget revoked ''reason'') then False
      else if mget revoked ''revoked_at'' \<noteq> JUndef \<and> reached validAt (mget revoked ''revoked_at'') then False
      else if pget key ''nbf'' \<noteq> JUndef \<and> \<not> reached validAt (pget key ''nbf'') then False
      else if reached validAt (pget key ''exp'') then False
      else True)"

definition selectHistoricalVerificationKey ::
  "jsval dict list \<Rightarrow> string \<Rightarrow> number \<Rightarrow> (fed_error, jsval dict) result"
where
  "selectHistoricalVerificationKey keys kid validAt =
     (let matchingKeys = filter (\<lambda>key. strict_eq (pget key ''kid'') (JStr kid)) keys in
      if length matchingKeys = 0 then Inl (apiError (''No historical key found for kid '' @ quoted kid))
      else
        (case find (usable_at validAt) matchingKeys of
           Some key \<Rightarrow> Inr key
         | None \<Rightarrow> Inl (apiError (''Historical key '' @ quoted kid @ '' is not valid at '' @ js_string (JNum validAt)))))"

section \<open>Requests\<close>

type_synonym 'a sent = "http_request list \<times> (fed_error, 'a) result"

definition fail :: "fed_error \<Rightarrow> 'a sent" where
  "fail e = ([], Inl e)"

text \<open>What becomes of a fetched body.\<close>

definition and_then :: "string sent \<Rightarrow> (string \<Rightarrow> (fed_error, 'a) result) \<Rightarrow> 'a sent" where
  "and_then s f = (case s of (requests, Inl e) \<Rightarrow> (requests, Inl e) | (requests, Inr body) \<Rightarrow> (requests, f body))"

definition fetchTrustMark :: "client_env \<Rightarrow> string \<Rightarrow> string \<Rightarrow> string \<Rightarrow> client_options \<Rightarrow> string sent" where
  "fetchTrustMark X endpoint trustMarkType sub op =
     (if trustMarkType = [] then fail (mk_err ''invalid_request'' ''Missing trust_mark_type parameter'')
      else if sub = [] then fail (mk_err ''invalid_request'' ''Missing sub parameter'')
      else
        (case check_endpoint (he_parse_url (ce_http X)) ''invalid_request'' ''Invalid endpoint URL'' ''Endpoint URL'' endpoint of
           Some e \<Rightarrow> fail e
         | None \<Rightarrow>
             performFetch (ce_http X)
               (ce_query X endpoint [SetParam ''trust_mark_type'' trustMarkType, SetParam ''sub'' sub])
               (expecting op MEDIA_TRUST_MARK)))"

definition fetchHistoricalKeys :: "client_env \<Rightarrow> string \<Rightarrow> jsval \<Rightarrow> client_options \<Rightarrow> jsval dict sent" where
  "fetchHistoricalKeys X endpoint signerJwks op =
     (case check_endpoint (he_parse_url (ce_http X)) ''invalid_request'' ''Invalid URL'' ''URL'' endpoint of
        Some e \<Rightarrow> fail e
      | None \<Rightarrow>
          and_then (performFetch (ce_http X) endpoint (expecting op MEDIA_JWK_SET))
            (\<lambda>jwt. verifyHistoricalKeysResponse X jwt signerJwks op))"

text \<open>A JSON array of strings.\<close>

definition string_items :: "jsval \<Rightarrow> string list option" where
  "string_items v = (case v of JArr xs \<Rightarrow> (if list_all is_str xs then Some (map str_of xs) else None) | _ \<Rightarrow> None)"

definition parse_trust_mark_list :: "client_env \<Rightarrow> string \<Rightarrow> string \<Rightarrow> (fed_error, string list) result" where
  "parse_trust_mark_list X endpoint body =
     (case he_parse_json (ce_http X) body of
        None \<Rightarrow> Inl (network_error (''Trust mark list response is not valid JSON: '' @ endpoint))
      | Some raw \<Rightarrow>
          (case string_items raw of
             None \<Rightarrow> Inl (network_error (''Trust mark list response is not a JSON array of strings: '' @ endpoint))
           | Some ids \<Rightarrow>
               (case find (\<lambda>v. \<not> isValidEntityId (he_parse_url (ce_http X)) v) ids of
                  Some v \<Rightarrow> Inl (network_error (''Trust mark list response contains invalid Entity Identifier: '' @ v))
                | None \<Rightarrow> Inr ids)))"

definition fetchTrustMarkList ::
  "client_env \<Rightarrow> string \<Rightarrow> string \<Rightarrow> string option \<Rightarrow> client_options \<Rightarrow> string list sent" where
  "fetchTrustMarkList X endpoint trustMarkType sub op =
     (if trustMarkType = [] then fail (mk_err ''invalid_request'' ''Missing trust_mark_type parameter'')
      else
        (case check_endpoint (he_parse_url (ce_http X)) ''invalid_request'' ''Invalid URL'' ''URL'' endpoint of
           Some e \<Rightarrow> fail e
         | None \<Rightarrow>
             and_then
               (performFetch (ce_http X)
                  (ce_query X endpoint (SetParam ''trust_mark_type'' trustMarkType #
                     (case some_nonempty sub of None \<Rightarrow> [] | Some s \<Rightarrow> [SetParam ''sub'' s])))
                  (expecting op ''application/json''))
               (parse_trust_mark_list X endpoint)))"

text \<open>An option that is one value or several; \<open>None\<close> is \<open>undefined\<close>.\<close>

definition appended :: "string \<Rightarrow> string list option \<Rightarrow> query_edit list" where
  "appended name vs = (case vs of None \<Rightarrow> [] | Some values \<Rightarrow> map (AppendParam name) values)"

definition flag :: "string \<Rightarrow> bool option \<Rightarrow> query_edit list" where
  "flag name b = (case b of None \<Rightarrow> [] | Some v \<Rightarrow> [SetParam name (if v then ''true'' else ''false'')])"

definition once :: "string \<Rightarrow> string option \<Rightarrow> query_edit list" where
  "once name v = (case v of None \<Rightarrow> [] | Some s \<Rightarrow> [SetParam name s])"

record subordinates_filter =
  sf_entityType :: "string list option"
  sf_trustMarked :: "bool option"
  sf_trustMarkType :: "string option"
  sf_intermediate :: "bool option"

definition parse_subordinates :: "client_env \<Rightarrow> string \<Rightarrow> string \<Rightarrow> (fed_error, string list) result" where
  "parse_subordinates X listEndpoint body =
     (case he_parse_json (ce_http X) body of
        None \<Rightarrow> Inl (network_error (''List endpoint returned non-JSON body: '' @ listEndpoint))
      | Some parsed \<Rightarrow>
          (case string_items parsed of
             None \<Rightarrow> Inl (network_error (''List endpoint did not return a JSON array of strings: '' @ listEndpoint))
           | Some ids \<Rightarrow> Inr ids))"

definition fetchListSubordinates ::
  "client_env \<Rightarrow> string \<Rightarrow> subordinates_filter \<Rightarrow> client_options \<Rightarrow> string list sent" where
  "fetchListSubordinates X listEndpoint filt op =
     (case he_parse_url (ce_http X) listEndpoint of
        None \<Rightarrow> fail (network_error (''Invalid list endpoint URL: '' @ listEndpoint))
      | Some _ \<Rightarrow>
          and_then
            (performFetch (ce_http X)
               (ce_query X listEndpoint
                  (appended ''entity_type'' (sf_entityType filt) @ flag ''trust_marked'' (sf_trustMarked filt) @
                   once ''trust_mark_type'' (sf_trustMarkType filt) @ flag ''intermediate'' (sf_intermediate filt)))
               ((op_fetch op)\<lparr>fo_accept := Some ''application/json''\<rparr>))
            (parse_subordinates X listEndpoint))"

definition MEDIA_RESOLVE_RESPONSE :: string where "MEDIA_RESOLVE_RESPONSE = ''application/resolve-response+jwt''"

definition fetchResolveResponse ::
  "client_env \<Rightarrow> string \<Rightarrow> string \<Rightarrow> string list \<Rightarrow> string list option \<Rightarrow> client_options \<Rightarrow> string sent" where
  "fetchResolveResponse X resolveEndpoint sub trustAnchors entityTypes op =
     (case he_parse_url (ce_http X) resolveEndpoint of
        None \<Rightarrow> fail (network_error (''Invalid resolve endpoint URL: '' @ resolveEndpoint))
      | Some _ \<Rightarrow>
          if length trustAnchors = 0 then fail (network_error ''fetchResolveResponse requires at least one trustAnchor'')
          else
            performFetch (ce_http X)
              (ce_query X resolveEndpoint
                 (SetParam ''sub'' sub # map (AppendParam ''trust_anchor'') trustAnchors @ appended ''entity_type'' entityTypes))
              (expecting op MEDIA_RESOLVE_RESPONSE))"

section \<open>Subordinate events\<close>

definition JWT_BEARER_CLIENT_ASSERTION_TYPE :: string where
  "JWT_BEARER_CLIENT_ASSERTION_TYPE = ''urn:ietf:params:oauth:client-assertion-type:jwt-bearer''"

definition fetchSubordinateEvents ::
  "client_env \<Rightarrow> string \<Rightarrow> string \<Rightarrow> jsval \<Rightarrow> string \<Rightarrow> string option \<Rightarrow> client_options \<Rightarrow> jsval dict sent"
where
  "fetchSubordinateEvents X endpoint subject issuerJwks issuer clientAssertion op =
     (case validateFetchUrl (he_parse_url (ce_http X)) endpoint (op_fetch op) of
        Inl e \<Rightarrow> fail e
      | Inr _ \<Rightarrow>
          if ce_mark X endpoint \<or> \<not> isValidEntityId (he_parse_url (ce_http X)) subject \<or>
             \<not> isValidEntityId (he_parse_url (ce_http X)) issuer
          then fail (network_error ''Invalid subordinate events endpoint, issuer, or subject'')
          else
            (let options = (op_fetch op)\<lparr>fo_accept := Some MEDIA_ENTITY_EVENTS, fo_expectedStatus := Some 200,
                   fo_federationErrors := True, fo_redirect := Some ''manual''\<rparr> in
             and_then
               (case clientAssertion of
                  Some assertion \<Rightarrow>
                    performFetch (ce_http X) (ce_query X endpoint [])
                      (options\<lparr>fo_method := Some ''POST'',
                         fo_body := Some (ce_form X [(''sub'', subject), (''client_assertion'', assertion),
                           (''client_assertion_type'', JWT_BEARER_CLIENT_ASSERTION_TYPE)])\<rparr>)
                | None \<Rightarrow> performFetch (ce_http X) (ce_query X endpoint [SetParam ''sub'' subject]) options)
               (\<lambda>jwt. verifySubordinateEventsResponse X jwt issuerJwks issuer subject op)))"

section \<open>Entity collections\<close>

definition COLLECTION_PARAMETERS :: "(string \<times> string) list" where
  "COLLECTION_PARAMETERS =
     [(''from'', ''from''), (''limit'', ''limit''), (''trust_anchor'', ''trustAnchor''), (''entity_type'', ''entityType''),
      (''trust_mark_type'', ''trustMarkType''), (''query'', ''query''), (''entity_claims'', ''entityClaims''),
      (''info_claims'', ''infoClaims''), (''locale'', ''locale'')]"

definition serializeCollectionParams :: "jsval dict \<Rightarrow> url_params" where
  "serializeCollectionParams params =
     concat (map (\<lambda>(wire, key).
       (case pget params key of
          JUndef \<Rightarrow> []
        | JArr xs \<Rightarrow> map (\<lambda>x. (wire, js_string x)) xs
        | v \<Rightarrow> [(wire, js_string v)])) COLLECTION_PARAMETERS)"

text \<open>The form has no parameter of the assertion yet, so setting one appends it.\<close>

definition collection_form :: "jsval dict \<Rightarrow> string option \<Rightarrow> url_params" where
  "collection_form params clientAssertion =
     serializeCollectionParams params @
     (case clientAssertion of
        None \<Rightarrow> []
      | Some assertion \<Rightarrow>
          [(''client_assertion'', assertion), (''client_assertion_type'', JWT_BEARER_CLIENT_ASSERTION_TYPE)])"

text \<open>The query of a GET request: the parameters of the form replace the ones of the endpoint.\<close>

definition collection_edits :: "url_params \<Rightarrow> query_edit list" where
  "collection_edits form =
     map DeleteParam (filter (\<lambda>name. name \<in> fst ` set form) (map fst COLLECTION_PARAMETERS)) @
     map (\<lambda>(name, v). AppendParam name v) form"

definition read_collection :: "client_env \<Rightarrow> string \<Rightarrow> (fed_error, jsval) result" where
  "read_collection X body =
     (case Option.bind (he_parse_json (ce_http X) body) (ce_collectionResponse X) of
        Some data \<Rightarrow> Inr data
      | None \<Rightarrow> Inl (network_error ''Invalid entity collection response''))"

text \<open>A method of the options is \<open>GET\<close> or \<open>POST\<close>; an assertion is always posted.\<close>

definition fetchEntityCollection ::
  "client_env \<Rightarrow> string \<Rightarrow> jsval dict \<Rightarrow> string option \<Rightarrow> string option \<Rightarrow> client_options \<Rightarrow> jsval sent"
where
  "fetchEntityCollection X endpoint params chosen clientAssertion op =
     (case validateFetchUrl (he_parse_url (ce_http X)) endpoint (op_fetch op) of
        Inl e \<Rightarrow> fail e
      | Inr _ \<Rightarrow>
          if ce_mark X endpoint
          then fail (mk_err ''invalid_request'' ''Collection endpoint must not contain a fragment'')
          else
            (case ce_collectionRequest X params of
               None \<Rightarrow> fail (mk_err ''invalid_request'' ''Invalid collection request parameters'')
             | Some parsed \<Rightarrow>
                 if pget parsed ''entityClaims'' = JArr [] \<or> pget parsed ''infoClaims'' = JArr []
                 then fail (mk_err ''invalid_request'' ''Empty claim selectors cannot be represented in a collection request'')
                 else
                   (let form = collection_form parsed clientAssertion;
                        method = (if clientAssertion \<noteq> None then ''POST''
                          else (case chosen of Some m \<Rightarrow> m | None \<Rightarrow> ''GET''));
                        url = ce_query X endpoint (if method = ''GET'' then collection_edits form else []);
                        options = (op_fetch op)\<lparr>fo_method := Some method, fo_accept := Some ''application/json'',
                          fo_expectedStatus := Some 200, fo_federationErrors := True, fo_mediaTypePolicy := True,
                          fo_redirect := Some ''manual''\<rparr> in
                    and_then
                      (performFetch (ce_http X) url
                         (if method = ''POST'' then options\<lparr>fo_body := Some (ce_form X form)\<rparr> else options))
                      (read_collection X))))"

section \<open>Trust mark status\<close>

text \<open>\<open>response.text()\<close>: the whole body, whatever its size. \<open>Inl\<close>: the stream fails.\<close>

definition response_text :: "(byte list \<Rightarrow> string) \<Rightarrow> response \<Rightarrow> (exn, string) result" where
  "response_text decode r =
     (case resp_body r of
        None \<Rightarrow> Inr (decode [])
      | Some body \<Rightarrow>
          (case fst (snd (bs_end body)) of
             Some e \<Rightarrow> Inl e
           | None \<Rightarrow> Inr (decode (concat (map (\<lambda>(_, bytes, _). bytes) (bs_chunks body))))))"

record trust_mark_status =
  ts_status :: jsval
  ts_issuer :: jsval
  ts_issuedAt :: jsval

definition status_request :: "client_env \<Rightarrow> string \<Rightarrow> string \<Rightarrow> http_request" where
  "status_request X endpoint trustMarkJwt =
     \<lparr>rq_url = endpoint, rq_method = ''POST'', rq_redirect = None, rq_body = Some (ce_form X [(''trust_mark'', trustMarkJwt)]),
      rq_headers = [(''Content-Type'', ''application/x-www-form-urlencoded''), (''Accept'', MEDIA_TRUST_MARK_STATUS)]\<rparr>"

definition read_status ::
  "client_env \<Rightarrow> jsval \<Rightarrow> client_options \<Rightarrow> response \<Rightarrow> (exn, (fed_error, trust_mark_status) result) result"
where
  "read_status X signerJwks op r =
     (if \<not> resp_ok r
      then Inr (Inl (mk_err ''invalid_request'' (''HTTP '' @ show_nat (resp_status r) @ '' from trust mark status endpoint'')))
      else if \<not> isExactContentType (resp_contentType r) MEDIA_TRUST_MARK_STATUS
      then Inr (Inl (mk_err ''invalid_request''
        (''Unexpected Content-Type '' @
         quoted (case map_option trim (resp_contentType r) of
                   None \<Rightarrow> ''<missing>'' | Some t \<Rightarrow> if t = [] then ''<missing>'' else t) @
         '', expected '' @ quoted MEDIA_TRUST_MARK_STATUS)))
      else
        (case response_text (he_decode (ce_http X)) r of
           Inl e \<Rightarrow> Inl e
         | Inr jwt \<Rightarrow>
             Inr (case verifyEntityStatement (ce_jose X) jwt signerJwks (buildVerifyOpts TRUST_MARK_STATUS_TYP op) of
                    Inl e \<Rightarrow> Inl e
                  | Inr verified \<Rightarrow>
                      (let p = payload verified in
                       if \<not> truthy (pget p ''status'') \<or> \<not> truthy (pget p ''iss'') \<or> pget p ''iat'' = JUndef
                       then Inl (mk_err ''invalid_request'' ''Trust mark status response missing required claims'')
                       else Inr \<lparr>ts_status = pget p ''status'', ts_issuer = pget p ''iss'', ts_issuedAt = pget p ''iat''\<rparr>))))"

text \<open>A client that throws makes it throw.\<close>

definition fetchTrustMarkStatus ::
  "client_env \<Rightarrow> string \<Rightarrow> string \<Rightarrow> jsval \<Rightarrow> client_options \<Rightarrow>
   http_request list \<times> (exn, (fed_error, trust_mark_status) result) result"
where
  "fetchTrustMarkStatus X endpoint trustMarkJwt signerJwks op =
     (case check_endpoint (he_parse_url (ce_http X)) ''invalid_request'' ''Invalid endpoint URL'' ''Endpoint URL'' endpoint of
        Some e \<Rightarrow> ([], Inr (Inl e))
      | None \<Rightarrow>
          (let request = status_request X endpoint trustMarkJwt in
           ([request],
            case he_client (ce_http X) request of
              FetchThrows e \<Rightarrow> Inl e
            | FetchReplies r \<Rightarrow> read_status X signerJwks op r)))"

section \<open>Logos\<close>

definition logo_error :: "string \<Rightarrow> fed_error" where
  "logo_error d = mk_err ''invalid_metadata'' d"

definition logo_response :: "string \<Rightarrow> response \<Rightarrow> (fed_error, string) result" where
  "logo_response url r =
     (if \<not> resp_ok r then Inl (logo_error (''HTTP '' @ show_nat (resp_status r) @ '' fetching logo_uri: '' @ url))
      else
        (let contentType = (case parseContentTypeHeader (resp_contentType r) of None \<Rightarrow> [] | Some p \<Rightarrow> ct_mediaType p) in
         if \<not> starts_with (toLowerCase contentType) ''image/''
         then Inl (logo_error (''logo_uri response Content-Type is not an image: '' @ quoted contentType))
         else Inr contentType))"

definition validateTrustMarkLogo :: "client_env \<Rightarrow> string \<Rightarrow> client_options \<Rightarrow> string sent" where
  "validateTrustMarkLogo X url op =
     (if CHR 0x23 \<in> set url then fail (logo_error (''Helper does not fetch URLs with fragments: '' @ url))
      else
        (case validateFetchUrl (he_parse_url (ce_http X)) url (op_fetch op) of
           Inl e \<Rightarrow> fail (logo_error (description e))
         | Inr _ \<Rightarrow>
             (let request = \<lparr>rq_url = url, rq_method = ''GET'', rq_redirect = None, rq_body = None,
                             rq_headers = [(''Accept'', ''image/*'')]\<rparr> in
              ([request],
               case he_client (ce_http X) request of
                 FetchThrows e \<Rightarrow>
                   Inl (logo_error (case e of RangeError m \<Rightarrow> m | OtherError m \<Rightarrow> m | AbortError \<Rightarrow> ce_abort_text X
                     | NotAnError \<Rightarrow> ''Network error fetching logo_uri: '' @ url))
               | FetchReplies r \<Rightarrow> logo_response url r))))"

section \<open>Extended listing\<close>

record extended_request =
  xr_from :: "string option"
  xr_limit :: "number option"
  xr_updatedAfter :: "number option"
  xr_updatedBefore :: "number option"
  xr_auditTimestamps :: "bool option"
  xr_claims :: "string list option"
  xr_entityType :: "string list option"
  xr_trustMarked :: "bool option"
  xr_trustMarkType :: "string list option"
  xr_intermediate :: "bool option"

definition printed :: "number option \<Rightarrow> string option" where
  "printed n = map_option (\<lambda>q. js_string (JNum q)) n"

definition extended_edits :: "extended_request \<Rightarrow> query_edit list" where
  "extended_edits ps =
     once ''from'' (xr_from ps) @ once ''limit'' (printed (xr_limit ps)) @
     once ''updated_after'' (printed (xr_updatedAfter ps)) @ once ''updated_before'' (printed (xr_updatedBefore ps)) @
     flag ''audit_timestamps'' (xr_auditTimestamps ps) @
     once ''claims'' (map_option (\<lambda>cs. join_with '','' (filter (\<lambda>c. c \<noteq> []) cs)) (xr_claims ps)) @
     appended ''entity_type'' (xr_entityType ps) @ flag ''trust_marked'' (xr_trustMarked ps) @
     appended ''trust_mark_type'' (xr_trustMarkType ps) @ flag ''intermediate'' (xr_intermediate ps)"

definition buildUrl :: "client_env \<Rightarrow> string \<Rightarrow> extended_request option \<Rightarrow> (fed_error, string) result" where
  "buildUrl X endpoint params =
     (case he_parse_url (ce_http X) endpoint of
        None \<Rightarrow> Inl (mk_err ''invalid_request'' (''Invalid URL: '' @ endpoint))
      | Some url \<Rightarrow>
          if url_protocol url \<noteq> ''https:'' then Inl (mk_err ''invalid_request'' (''URL must use https scheme: '' @ endpoint))
          else if ce_mark X endpoint then Inl (mk_err ''invalid_request'' (''URL must not contain a fragment: '' @ endpoint))
          else
            (case params of
               None \<Rightarrow> Inr (ce_query X endpoint [])
             | Some ps \<Rightarrow>
                 if (case xr_limit ps of None \<Rightarrow> False | Some n \<Rightarrow> \<not> is_integer n \<or> n \<le> 0)
                 then Inl (mk_err ''invalid_request'' ''limit must be a positive integer'')
                 else Inr (ce_query X endpoint (extended_edits ps))))"

definition http_status_error :: "response \<Rightarrow> string \<Rightarrow> fed_error" where
  "http_status_error r endpoint = network_error (''HTTP '' @ show_nat (resp_status r) @ '' from '' @ endpoint)"

text \<open>The error of a response with status 400 or 404; \<open>body\<close> when it was JSON by its media type.\<close>

definition extended_error :: "client_env \<Rightarrow> string \<Rightarrow> response \<Rightarrow> string option \<Rightarrow> fed_error" where
  "extended_error X endpoint r body =
     (let parsed = (case Option.bind body (he_parse_json (ce_http X)) of None \<Rightarrow> JUndef | Some v \<Rightarrow> v);
          c = (case mget parsed ''error'' of JStr s \<Rightarrow> Some s | _ \<Rightarrow> None);
          d = (case mget parsed ''error_description'' of JStr s \<Rightarrow> Some s | _ \<Rightarrow> None)
      in if resp_status r = 404 \<and> c \<noteq> Some ''page_not_found'' then http_status_error r endpoint
         else mk_err (case c of Some s \<Rightarrow> if s \<in> set FederationErrorCodes then s else ''invalid_request'' | None \<Rightarrow> ''invalid_request'')
           (case d of Some s \<Rightarrow> s
            | None \<Rightarrow> ''HTTP '' @ show_nat (resp_status r) @ '' from '' @ endpoint @
                (case some_nonempty c of Some s \<Rightarrow> '' ('' @ s @ '')'' | None \<Rightarrow> [])))"

definition extended_body :: "client_env \<Rightarrow> string \<Rightarrow> string \<Rightarrow> (fed_error, jsval) result" where
  "extended_body X endpoint body =
     (case he_parse_json (ce_http X) body of
        None \<Rightarrow> Inl (network_error (''Extended list response is not valid JSON: '' @ endpoint))
      | Some raw \<Rightarrow>
          (case ce_extended X raw of
             None \<Rightarrow> Inl (network_error (''Extended list response failed schema validation: '' @ ce_issues X raw))
           | Some data \<Rightarrow> Inr data))"

text \<open>\<open>Inl\<close>: reading the body throws.\<close>

definition extended_response ::
  "client_env \<Rightarrow> string \<Rightarrow> client_options \<Rightarrow> response \<Rightarrow> (exn, (fed_error, jsval) result) result"
where
  "extended_response X endpoint op r =
     (let json = isExactContentType (resp_contentType r) ''application/json'';
          read = readResponseBody (he_decode (ce_http X)) r (max_bytes (op_fetch op)) in
      if resp_status r = 400 \<or> resp_status r = 404 then
        (if json then (case read of Inl e \<Rightarrow> Inl e | Inr body \<Rightarrow> Inr (Inl (extended_error X endpoint r (Some body))))
         else Inr (Inl (extended_error X endpoint r None)))
      else if \<not> resp_ok r then Inr (Inl (http_status_error r endpoint))
      else if \<not> json then
        Inr (Inl (network_error
          (''Unexpected Content-Type '' @
           quoted (case map_option trim (resp_contentType r) of
                     None \<Rightarrow> ''<missing>'' | Some t \<Rightarrow> if t = [] then ''<missing>'' else t) @
           '' from '' @ endpoint @ '', expected '' @ quoted ''application/json'')))
      else (case read of Inl e \<Rightarrow> Inl e | Inr body \<Rightarrow> Inr (extended_body X endpoint body)))"

definition extended_caught :: "client_env \<Rightarrow> string \<Rightarrow> exn \<Rightarrow> fed_error" where
  "extended_caught X endpoint cause =
     (if he_aborted_later (ce_http X) \<or> cause = AbortError
      then mk_err ''ERR_TIMEOUT'' (''Request aborted or timed out: '' @ endpoint)
      else network_error (case cause of RangeError m \<Rightarrow> m | OtherError m \<Rightarrow> m | _ \<Rightarrow> ''Network error fetching '' @ endpoint))"

definition fetchExtendedSubordinatesList ::
  "client_env \<Rightarrow> string \<Rightarrow> extended_request option \<Rightarrow> client_options \<Rightarrow> jsval sent"
where
  "fetchExtendedSubordinatesList X endpoint params op =
     (case buildUrl X endpoint params of
        Inl e \<Rightarrow> fail e
      | Inr url \<Rightarrow>
          (case validateFetchUrl (he_parse_url (ce_http X)) url (op_fetch op) of
             Inl e \<Rightarrow> fail e
           | Inr _ \<Rightarrow>
               if he_aborted (ce_http X) then fail (extended_caught X endpoint AbortError)
               else
                 (let request = \<lparr>rq_url = url, rq_method = ''GET'', rq_redirect = None, rq_body = None,
                                 rq_headers = [(''Accept'', ''application/json'')]\<rparr> in
                  ([request],
                   case he_client (ce_http X) request of
                     FetchThrows e \<Rightarrow> Inl (extended_caught X endpoint e)
                   | FetchReplies r \<Rightarrow>
                       (case extended_response X endpoint op r of
                          Inl e \<Rightarrow> Inl (extended_caught X endpoint e)
                        | Inr result \<Rightarrow> result)))))"

section \<open>The keys of an entity\<close>

text \<open>\<open>JWKSetSchema.safeParse\<close>: the keys of the set.\<close>

definition parse_jwk_set :: "jsval \<Rightarrow> jwk list option" where
  "parse_jwk_set raw =
     (case mget raw ''keys'' of
        JArr xs \<Rightarrow>
          (if list_all is_obj xs \<and> JWKSetSchema (map entries xs) then Some (map entries xs) else None)
      | _ \<Rightarrow> None)"

definition used_keys :: "jwk list \<Rightarrow> (fed_error, jwk list) result" where
  "used_keys ks = (case validateJwkSetUseRequirement (map JObj ks) of Inl e \<Rightarrow> Inl e | Inr _ \<Rightarrow> Inr ks)"

definition parse_jwks_body :: "client_env \<Rightarrow> string \<Rightarrow> string \<Rightarrow> (fed_error, jwk list) result" where
  "parse_jwks_body X url body =
     (case he_parse_json (ce_http X) body of
        None \<Rightarrow> Inl (mk_err ''invalid_metadata'' (''jwks_uri response is not valid JSON: '' @ url))
      | Some raw \<Rightarrow>
          (case parse_jwk_set raw of
             None \<Rightarrow> Inl (mk_err ''invalid_metadata'' (''jwks_uri response is not a valid JWK Set: '' @ ce_issues X raw))
           | Some ks \<Rightarrow> used_keys ks))"

definition fetchJwkSet :: "client_env \<Rightarrow> string \<Rightarrow> client_options \<Rightarrow> jwk list sent" where
  "fetchJwkSet X url op =
     (case check_endpoint (he_parse_url (ce_http X)) ''invalid_metadata'' ''Invalid URL'' ''URL'' url of
        Some e \<Rightarrow> fail e
      | None \<Rightarrow>
          and_then
            (performFetch (ce_http X) url
               ((op_fetch op)\<lparr>fo_accept := Some ''application/json'', fo_expectedContentType := Some None\<rparr>))
            (parse_jwks_body X url))"

definition fetchSignedJwkSet :: "client_env \<Rightarrow> string \<Rightarrow> jsval \<Rightarrow> client_options \<Rightarrow> jsval dict sent" where
  "fetchSignedJwkSet X url signerJwks op =
     (case check_endpoint (he_parse_url (ce_http X)) ''invalid_metadata'' ''Invalid URL'' ''URL'' url of
        Some e \<Rightarrow> fail e
      | None \<Rightarrow>
          and_then (performFetch (ce_http X) url (expecting op MEDIA_JWK_SET))
            (\<lambda>jwt. verifySignedJwkSet X jwt signerJwks op))"

datatype keys_source = FromSignedUri | FromJwks | FromUri

fun source_name :: "keys_source \<Rightarrow> string" where
  "source_name FromSignedUri = ''signed_jwks_uri''" | "source_name FromJwks = ''jwks''" | "source_name FromUri = ''jwks_uri''"

text \<open>The sources that the metadata names, the preferred ones first.\<close>

definition present_sources :: "jsval dict \<Rightarrow> keys_source list" where
  "present_sources md =
     (if is_str (pget md ''signed_jwks_uri'') \<and> truthy (pget md ''signed_jwks_uri'') then [FromSignedUri] else []) @
     (if truthy (pget md ''jwks'') then [FromJwks] else []) @
     (if is_str (pget md ''jwks_uri'') \<and> truthy (pget md ''jwks_uri'') then [FromUri] else [])"

definition tryResolveSource ::
  "client_env \<Rightarrow> jsval dict \<Rightarrow> jsval \<Rightarrow> client_options \<Rightarrow> keys_source \<Rightarrow> jsval list sent"
where
  "tryResolveSource X md federationEntityKeys op source =
     (case source of
        FromSignedUri \<Rightarrow>
          (case fetchSignedJwkSet X (str_of (pget md ''signed_jwks_uri'')) federationEntityKeys op of
             (requests, Inl e) \<Rightarrow> (requests, Inl e)
           | (requests, Inr p) \<Rightarrow>
               (requests,
                case validateJwkSetUseRequirement (items (pget p ''keys'')) of
                  Inl e \<Rightarrow> Inl e | Inr _ \<Rightarrow> Inr (items (pget p ''keys''))))
      | FromJwks \<Rightarrow>
          (case parse_jwk_set (pget md ''jwks'') of
             None \<Rightarrow> fail (mk_err ''invalid_metadata''
               (''Inline '' @ quoted ''jwks'' @ '' is not a valid JWK Set: '' @ ce_issues X (pget md ''jwks'')))
           | Some ks \<Rightarrow> ([], case used_keys ks of Inl e \<Rightarrow> Inl e | Inr _ \<Rightarrow> Inr (map JObj ks)))
      | FromUri \<Rightarrow>
          (case fetchJwkSet X (str_of (pget md ''jwks_uri'')) op of
             (requests, Inl e) \<Rightarrow> (requests, Inl e) | (requests, Inr ks) \<Rightarrow> (requests, Inr (map JObj ks))))"

fun try_sources ::
  "(keys_source \<Rightarrow> jsval list sent) \<Rightarrow> bool \<Rightarrow> keys_source list \<Rightarrow> (keys_source \<times> fed_error) list \<Rightarrow> (jsval list \<times> keys_source) sent"
where
  "try_sources try allowFallback [] errors =
     ([], Inl (mk_err ''invalid_metadata''
       (''All JWK Set representations failed to resolve: '' @
        join_with ''; '' (map (\<lambda>(s, e). ''['' @ source_name s @ ''] '' @ description e) errors))))"
| "try_sources try allowFallback (source # sources) errors =
     (case try source of
        (requests, Inr keys) \<Rightarrow> (requests, Inr (keys, source))
      | (requests, Inl e) \<Rightarrow>
          if \<not> allowFallback then (requests, Inl e)
          else (case try_sources try allowFallback sources (errors @ [(source, e)]) of
                  (requests', r) \<Rightarrow> (requests @ requests', r)))"

definition resolveEntityKeys ::
  "client_env \<Rightarrow> jsval dict \<Rightarrow> jsval \<Rightarrow> bool \<Rightarrow> client_options \<Rightarrow> (jsval list \<times> keys_source) sent"
where
  "resolveEntityKeys X md federationEntityKeys allowFallback op =
     (let present = present_sources md in
      if length present = 0
      then fail (mk_err ''invalid_metadata''
        ''Entity metadata contains no JWK Set representation (signed_jwks_uri, jwks, or jwks_uri)'')
      else try_sources (tryResolveSource X md federationEntityKeys op) allowFallback present [])"

section \<open>Where the clients send requests\<close>

definition safe_request :: "client_env \<Rightarrow> client_options \<Rightarrow> http_request \<Rightarrow> bool" where
  "safe_request X op q \<longleftrightarrow> safe_target (he_parse_url (ce_http X)) (op_fetch op) (rq_url q)"

definition guarded :: "client_env \<Rightarrow> client_options \<Rightarrow> http_request list \<Rightarrow> bool" where
  "guarded X op requests \<longleftrightarrow> (\<forall>q \<in> set requests. safe_request X op q)"

named_theorems guards

lemma guarded_simps [simp]:
  "guarded X op []" "guarded X op (fst (fail e))"
  "guarded X op (as @ bs) \<longleftrightarrow> guarded X op as \<and> guarded X op bs"
  by (auto simp: guarded_def fail_def)

lemma fst_and_then [simp]: "fst (and_then s f) = fst s"
  by (auto simp: and_then_def split: prod.splits sum.splits)

lemma guarded_fetch:
  assumes "fo_allowedHosts opts = fo_allowedHosts (op_fetch op)" "fo_blockedCIDRs opts = fo_blockedCIDRs (op_fetch op)"
  shows "guarded X op (fst (performFetch (ce_http X) url opts))"
proof -
  obtain requests r where p: "performFetch (ce_http X) url opts = (requests, r)" by fastforce
  have "safe_request X op q" if "q \<in> set requests" for q
    using performFetch_requests(2) [OF p that] assms
    by (auto simp: safe_request_def safe_target_def request_for_def)
  then show ?thesis by (simp add: guarded_def p)
qed

lemma guarded_one:
  "validateFetchUrl (he_parse_url (ce_http X)) url (op_fetch op) = Inr u \<Longrightarrow> rq_url q = url \<Longrightarrow> guarded X op [q]"
  using validated_is_safe by (fastforce simp: guarded_def safe_request_def)

lemma simple_clients_guarded [guards]:
  "guarded X op (fst (fetchTrustMark X endpoint t sub op))"
  "guarded X op (fst (fetchHistoricalKeys X endpoint jwks op))"
  "guarded X op (fst (fetchTrustMarkList X endpoint t s op))"
  "guarded X op (fst (fetchListSubordinates X endpoint filt op))"
  "guarded X op (fst (fetchResolveResponse X endpoint sub tas types op))"
  "guarded X op (fst (fetchJwkSet X endpoint op))"
  "guarded X op (fst (fetchSignedJwkSet X endpoint jwks op))"
  by (auto simp: fetchTrustMark_def fetchHistoricalKeys_def fetchTrustMarkList_def fetchListSubordinates_def
      fetchResolveResponse_def fetchJwkSet_def fetchSignedJwkSet_def expecting_def
      intro!: guarded_fetch split: option.splits)

lemma events_guarded [guards]: "guarded X op (fst (fetchSubordinateEvents X endpoint subject jwks issuer ca op))"
  by (auto simp: fetchSubordinateEvents_def Let_def intro!: guarded_fetch split: option.splits sum.splits)

lemma logo_guarded [guards]: "guarded X op (fst (validateTrustMarkLogo X url op))"
  by (auto simp: validateTrustMarkLogo_def Let_def intro: guarded_one split: sum.splits)

lemma extended_guarded [guards]: "guarded X op (fst (fetchExtendedSubordinatesList X endpoint ps op))"
  by (auto simp: fetchExtendedSubordinatesList_def Let_def intro: guarded_one split: sum.splits)

lemma source_guarded: "guarded X op (fst (tryResolveSource X md jwks op source))"
  using simple_clients_guarded(7) [of X op "str_of (pget md ''signed_jwks_uri'')" jwks]
    simple_clients_guarded(6) [of X op "str_of (pget md ''jwks_uri'')"]
  by (cases source) (auto simp: tryResolveSource_def split: option.splits sum.splits prod.splits)

lemma collection_guarded [guards]: "guarded X op (fst (fetchEntityCollection X endpoint params chosen ca op))"
  by (auto simp: fetchEntityCollection_def Let_def intro!: guarded_fetch split: option.splits sum.splits)

text \<open>The two clients that choose a redirect policy.\<close>

definition no_redirect :: "http_request list \<Rightarrow> bool" where
  "no_redirect requests \<longleftrightarrow> (\<forall>q \<in> set requests. rq_redirect q = Some ''manual'')"

lemma no_redirect_fetch:
  assumes "fo_redirect opts = Some ''manual''"
  shows "no_redirect (fst (performFetch E url opts))"
proof -
  obtain requests r where p: "performFetch E url opts = (requests, r)" by fastforce
  have "rq_redirect q = Some ''manual''" if "q \<in> set requests" for q
    using performFetch_requests(2) [OF p that] assms by (simp add: request_for_def)
  then show ?thesis by (simp add: p no_redirect_def)
qed

lemma manual_clients [guards]:
  "no_redirect (fst (fetchSubordinateEvents X endpoint subject jwks issuer ca op))"
  "no_redirect (fst (fetchEntityCollection X endpoint params chosen ca op))"
proof -
  have none: "no_redirect (fst (fail e :: 'a sent))" for e by (simp add: no_redirect_def fail_def)
  show "no_redirect (fst (fetchSubordinateEvents X endpoint subject jwks issuer ca op))"
    by (auto simp: fetchSubordinateEvents_def Let_def none intro!: no_redirect_fetch split: option.splits sum.splits)
  show "no_redirect (fst (fetchEntityCollection X endpoint params chosen ca op))"
    by (auto simp: fetchEntityCollection_def Let_def none intro!: no_redirect_fetch split: option.splits sum.splits)
qed

section \<open>Keys from a list of sources\<close>

text \<open>The interface of the resolver: sources whose requests are safe, and what each of them gives.\<close>

locale key_sources =
  fixes resolve_from :: "keys_source \<Rightarrow> jsval list sent"
    and safe :: "http_request \<Rightarrow> bool"
    and gives :: "keys_source \<Rightarrow> jsval list \<Rightarrow> bool"
  assumes requests_safe: "q \<in> set (fst (resolve_from s)) \<Longrightarrow> safe q"
    and keys_given: "snd (resolve_from s) = Inr ks \<longleftrightarrow> gives s ks"
begin

lemma sources_safe: "try_sources resolve_from fb ss errs = (requests, r) \<Longrightarrow> q \<in> set requests \<Longrightarrow> safe q"
proof (induction ss arbitrary: errs requests)
  case (Cons s ss)
  obtain rs x where step: "resolve_from s = (rs, x)" by fastforce
  show ?case
  proof (cases "x")
    case (Inl e)
    show ?thesis
    proof (cases fb)
      case True
      obtain rs' r' where "try_sources resolve_from True ss (errs @ [(s, e)]) = (rs', r')" by fastforce
      with Cons Inl step True requests_safe [of q s] show ?thesis by auto
    qed (use Cons.prems Inl step requests_safe [of q s] in auto)
  qed (use Cons.prems step requests_safe [of q s] in auto)
qed simp

text \<open>The first source that gives keys; a later one than the first only with fallback.\<close>

lemma sources_result:
  "snd (try_sources resolve_from fb ss errs) = Inr (ks, s) \<longleftrightarrow>
   (\<exists>us vs. ss = us @ s # vs \<and> (us \<noteq> [] \<longrightarrow> fb) \<and> (\<forall>u \<in> set us. \<forall>ks'. \<not> gives u ks') \<and> gives s ks)"
proof (induction ss arbitrary: errs)
  case (Cons s' ss)
  show ?case
  proof (cases "snd (resolve_from s')")
    case (Inl e)
    then have none: "\<not> gives s' ks'" for ks' using keys_given [of s' ks'] by simp
    have head: "(\<exists>us vs. s' # ss = us @ s # vs \<and> (us \<noteq> [] \<longrightarrow> fb) \<and> (\<forall>u \<in> set us. \<forall>ks'. \<not> gives u ks') \<and> gives s ks) \<longleftrightarrow>
        fb \<and> (\<exists>us vs. ss = us @ s # vs \<and> (us \<noteq> [] \<longrightarrow> fb) \<and> (\<forall>u \<in> set us. \<forall>ks'. \<not> gives u ks') \<and> gives s ks)"
    proof (intro iffI; elim exE conjE)
      fix us vs
      assume "s' # ss = us @ s # vs" "us \<noteq> [] \<longrightarrow> fb" "\<forall>u \<in> set us. \<forall>ks'. \<not> gives u ks'" "gives s ks"
      then show "fb \<and> (\<exists>us vs. ss = us @ s # vs \<and> (us \<noteq> [] \<longrightarrow> fb) \<and> (\<forall>u \<in> set us. \<forall>ks'. \<not> gives u ks') \<and> gives s ks)"
        using none by (cases us) auto
    next
      fix us vs
      assume "fb" "ss = us @ s # vs" "\<forall>u \<in> set us. \<forall>ks'. \<not> gives u ks'" "gives s ks"
      then show "\<exists>us vs. s' # ss = us @ s # vs \<and> (us \<noteq> [] \<longrightarrow> fb) \<and> (\<forall>u \<in> set us. \<forall>ks'. \<not> gives u ks') \<and> gives s ks"
        using none by (intro exI [of _ "s' # us"] exI [of _ vs]) auto
    qed
    obtain rs where "resolve_from s' = (rs, Inl e)" using Inl by (cases "resolve_from s'") auto
    then have "snd (try_sources resolve_from fb (s' # ss) errs) = Inr (ks, s) \<longleftrightarrow>
        fb \<and> snd (try_sources resolve_from fb ss (errs @ [(s', e)])) = Inr (ks, s)"
      by (auto split: prod.splits)
    then show ?thesis unfolding head Cons.IH .
  next
    case (Inr y)
    then have given: "gives s' ks' \<longleftrightarrow> ks' = y" for ks' using keys_given [of s' ks'] by auto
    have head: "(\<exists>us vs. s' # ss = us @ s # vs \<and> (us \<noteq> [] \<longrightarrow> fb) \<and> (\<forall>u \<in> set us. \<forall>ks'. \<not> gives u ks') \<and> gives s ks) \<longleftrightarrow>
        s' = s \<and> gives s ks"
    proof (intro iffI; elim exE conjE)
      fix us vs
      assume us: "s' # ss = us @ s # vs" "\<forall>u \<in> set us. \<forall>ks'. \<not> gives u ks'" "gives s ks"
      then have "us = []" using given by (cases us) auto
      with us show "s' = s \<and> gives s ks" by simp
    next
      assume "s' = s" "gives s ks"
      then show "\<exists>us vs. s' # ss = us @ s # vs \<and> (us \<noteq> [] \<longrightarrow> fb) \<and> (\<forall>u \<in> set us. \<forall>ks'. \<not> gives u ks') \<and> gives s ks"
        by (intro exI [of _ "[]"] exI [of _ ss]) simp
    qed
    obtain rs where "resolve_from s' = (rs, Inr y)" using Inr by (cases "resolve_from s'") auto
    then have "snd (try_sources resolve_from fb (s' # ss) errs) = Inr (ks, s) \<longleftrightarrow> y = ks \<and> s' = s" by simp
    then show ?thesis unfolding head using given [of ks] by metis
  qed
qed simp

end

text \<open>
  What a source gives: where the set is fetched from and how it is read. A set named by a URL is what a GET of
  that URL delivers, the URL being https without a fragment; the signed one is a JWT that verifies under the keys of
  the federation entity. The keys of every set satisfy the rule for \<open>use\<close>.
\<close>

definition delivers :: "client_env \<Rightarrow> string \<Rightarrow> fetch_options \<Rightarrow> string \<Rightarrow> bool" where
  "delivers X url opts body \<longleftrightarrow>
     (\<exists>u. he_parse_url (ce_http X) url = Some u \<and> url_protocol u = ''https:'' \<and> url_hash u = []) \<and>
     snd (performFetch (ce_http X) url opts) = Inr body"

definition trusted_keys :: "client_env \<Rightarrow> jsval dict \<Rightarrow> jsval \<Rightarrow> client_options \<Rightarrow> keys_source \<Rightarrow> jsval list \<Rightarrow> bool" where
  "trusted_keys X md jwks op source ks \<longleftrightarrow>
     validateJwkSetUseRequirement ks = Inr () \<and>
     (case source of
        FromSignedUri \<Rightarrow>
          (\<exists>jwt v p. delivers X (str_of (pget md ''signed_jwks_uri'')) (expecting op MEDIA_JWK_SET) jwt \<and>
             verifyEntityStatement (ce_jose X) jwt jwks (buildVerifyOpts JWK_SET_TYP op) = Inr v \<and>
             ce_signedSet X (payload v) = Some p \<and> ks = items (pget p ''keys''))
      | FromJwks \<Rightarrow> (\<exists>keys. parse_jwk_set (pget md ''jwks'') = Some keys \<and> ks = map JObj keys)
      | FromUri \<Rightarrow>
          (\<exists>body raw keys. delivers X (str_of (pget md ''jwks_uri''))
               ((op_fetch op)\<lparr>fo_accept := Some ''application/json'', fo_expectedContentType := Some None\<rparr>) body \<and>
             he_parse_json (ce_http X) body = Some raw \<and> parse_jwk_set raw = Some keys \<and> ks = map JObj keys))"

lemma endpoint_accepted:
  "check_endpoint parse_url c i k url = None \<longleftrightarrow>
   (\<exists>u. parse_url url = Some u \<and> url_protocol u = ''https:'' \<and> url_hash u = [])"
  by (auto simp: check_endpoint_def split: option.splits)

lemma snd_and_then: "snd (and_then s f) = Inr x \<longleftrightarrow> (\<exists>body. snd s = Inr body \<and> f body = Inr x)"
  by (auto simp: and_then_def split: prod.splits sum.splits)

lemma signed_set_fetched:
  "snd (fetchSignedJwkSet X url jwks op) = Inr p \<longleftrightarrow>
   (\<exists>jwt. delivers X url (expecting op MEDIA_JWK_SET) jwt \<and> verifySignedJwkSet X jwt jwks op = Inr p)"
  unfolding delivers_def endpoint_accepted [symmetric, where c = "''invalid_metadata''" and i = "''Invalid URL''" and k = "''URL''"]
  by (auto simp: fetchSignedJwkSet_def snd_and_then fail_def split: option.splits)

lemma signed_set_verified:
  "verifySignedJwkSet X jwt jwks op = Inr p \<longleftrightarrow>
   validateJwkSetUseRequirement (items (pget p ''keys'')) = Inr () \<and>
   (\<exists>v. verifyEntityStatement (ce_jose X) jwt jwks (buildVerifyOpts JWK_SET_TYP op) = Inr v \<and> ce_signedSet X (payload v) = Some p)"
  by (auto simp: verifySignedJwkSet_def verify_shaped_def split: sum.splits option.splits)

lemma set_fetched:
  "snd (fetchJwkSet X url op) = Inr ks \<longleftrightarrow>
   (\<exists>body. delivers X url ((op_fetch op)\<lparr>fo_accept := Some ''application/json'', fo_expectedContentType := Some None\<rparr>) body \<and>
      parse_jwks_body X url body = Inr ks)"
  unfolding delivers_def endpoint_accepted [symmetric, where c = "''invalid_metadata''" and i = "''Invalid URL''" and k = "''URL''"]
  by (auto simp: fetchJwkSet_def snd_and_then fail_def split: option.splits)

lemma set_read:
  "parse_jwks_body X url body = Inr ks \<longleftrightarrow>
   validateJwkSetUseRequirement (map JObj ks) = Inr () \<and>
   (\<exists>raw. he_parse_json (ce_http X) body = Some raw \<and> parse_jwk_set raw = Some ks)"
  by (auto simp: parse_jwks_body_def used_keys_def split: sum.splits option.splits)

lemma source_trusted: "snd (tryResolveSource X md jwks op source) = Inr ks \<longleftrightarrow> trusted_keys X md jwks op source ks"
proof (cases source)
  case FromSignedUri
  have "snd (tryResolveSource X md jwks op source) = Inr ks \<longleftrightarrow>
    (\<exists>p. snd (fetchSignedJwkSet X (str_of (pget md ''signed_jwks_uri'')) jwks op) = Inr p \<and>
       validateJwkSetUseRequirement (items (pget p ''keys'')) = Inr () \<and> ks = items (pget p ''keys''))"
    by (auto simp: FromSignedUri tryResolveSource_def split: sum.splits prod.splits)
  then show ?thesis
    by (auto simp: FromSignedUri trusted_keys_def signed_set_fetched signed_set_verified)
next
  case FromJwks
  then show ?thesis
    by (auto simp: tryResolveSource_def trusted_keys_def used_keys_def fail_def split: option.splits sum.splits)
next
  case FromUri
  have "snd (tryResolveSource X md jwks op source) = Inr ks \<longleftrightarrow>
    (\<exists>keys. snd (fetchJwkSet X (str_of (pget md ''jwks_uri'')) op) = Inr keys \<and> ks = map JObj keys)"
    by (auto simp: FromUri tryResolveSource_def split: sum.splits prod.splits)
  then show ?thesis by (auto simp: FromUri trusted_keys_def set_fetched set_read)
qed

interpretation entity_keys: key_sources "tryResolveSource X md jwks op" "safe_request X op" "trusted_keys X md jwks op"
  for X md jwks op
  using source_guarded source_trusted by unfold_locales (auto simp: guarded_def)

text \<open>The order of preference, and what it is for the metadata to name a source.\<close>

fun preference :: "keys_source \<Rightarrow> nat" where
  "preference FromSignedUri = 0" | "preference FromJwks = 1" | "preference FromUri = 2"

fun names_source :: "jsval dict \<Rightarrow> keys_source \<Rightarrow> bool" where
  "names_source md FromJwks \<longleftrightarrow> truthy (pget md ''jwks'')"
| "names_source md s \<longleftrightarrow> (\<exists>url. pget md (source_name s) = JStr url \<and> url \<noteq> [])"

lemma sources_named: "present_sources md = filter (names_source md) [FromSignedUri, FromJwks, FromUri]"
  by (cases "pget md ''signed_jwks_uri''"; cases "pget md ''jwks_uri''") (auto simp: present_sources_def)

lemma sources_ranked:
  "(\<exists>us vs. present_sources md = us @ s # vs \<and> P (set us)) \<longleftrightarrow>
   names_source md s \<and> P {s'. names_source md s' \<and> preference s' < preference s}"
proof -
  have ranked: "sorted_wrt (\<lambda>a b. preference a < preference b) (present_sources md)"
    by (simp add: sources_named)
  have named: "s' \<in> set (present_sources md) \<longleftrightarrow> names_source md s'" for s'
    by (cases s') (auto simp: sources_named)
  have before: "set us = {s'. names_source md s' \<and> preference s' < preference s}"
    if "present_sources md = us @ s # vs" for us vs
  proof -
    have "a \<in> set us \<Longrightarrow> preference a < preference s" "a \<in> set vs \<Longrightarrow> preference s < preference a" for a
      using ranked that by (auto simp: sorted_wrt_append)
    then show ?thesis using that by (fastforce simp flip: named)
  qed
  show ?thesis using before named split_list [of s "present_sources md"] by (metis in_set_conv_decomp)
qed

text \<open>
  C21: \<open>resolveEntityKeys\<close> returns keys exactly when a source that the metadata names gives them, and the
  source returned is the one preferred among those that do (\<open>signed_jwks_uri\<close>, then \<open>jwks\<close>, then \<open>jwks_uri\<close>);
  without fallback it is the most preferred of the named ones. What a source gives is fetched from the
  URL the metadata has for it: the signed set is a JWT from \<open>signed_jwks_uri\<close> that verifies under the federation keys
  of the entity, the unsigned one is the JWK Set that \<open>jwks_uri\<close> delivers, and inline keys are the ones of the metadata;
  all satisfy the rule for \<open>use\<close>. Requests go only to safe targets.
\<close>
theorem resolved_keys_trusted:
  assumes "resolveEntityKeys X md jwks fb op = (requests, r)"
  shows "guarded X op requests \<and>
    (\<forall>ks s. r = Inr (ks, s) \<longleftrightarrow>
       names_source md s \<and> trusted_keys X md jwks op s ks \<and>
       (\<forall>s'. names_source md s' \<and> preference s' < preference s \<longrightarrow> fb \<and> (\<forall>ks'. \<not> trusted_keys X md jwks op s' ks')))"
proof -
  have result: "r = Inr (ks, s) \<longleftrightarrow>
      (\<exists>us vs. present_sources md = us @ s # vs \<and> (set us \<noteq> {} \<longrightarrow> fb) \<and>
         (\<forall>u \<in> set us. \<forall>ks'. \<not> trusted_keys X md jwks op u ks') \<and> trusted_keys X md jwks op s ks)" for ks s
    using assms entity_keys.sources_result [of X md jwks op fb "present_sources md" "[]" ks s]
    by (cases "present_sources md = []") (auto simp: resolveEntityKeys_def fail_def)
  have "guarded X op requests"
  proof (cases "present_sources md = []")
    case False
    then have run: "try_sources (tryResolveSource X md jwks op) fb (present_sources md) [] = (requests, r)"
      using assms by (simp add: resolveEntityKeys_def)
    show ?thesis unfolding guarded_def using entity_keys.sources_safe [OF run] by blast
  qed (use assms in \<open>auto simp: resolveEntityKeys_def fail_def\<close>)
  then show ?thesis
    unfolding result sources_ranked [where P = "\<lambda>us. (us \<noteq> {} \<longrightarrow> fb) \<and>
         (\<forall>u \<in> us. \<forall>ks'. \<not> trusted_keys X md jwks op u ks') \<and> trusted_keys X md jwks op s ks" for s ks]
    by blast
qed

definition example_client_jwks :: jsval where
  "example_client_jwks = JObj [(''keys'', JArr [JObj (example_public_jwk ''k1'')])]"

definition example_clients :: client_env where
  "example_clients =
     \<lparr>ce_http = example_http\<lparr>he_parse_url := (\<lambda>_. None)\<rparr>,
      ce_jose = \<lparr>jose_header = \<lambda>_. Inl [], jose_payload = \<lambda>_. Inl [], jose_verify = \<lambda>_ _ _ _ _. Inl []\<rparr>,
      ce_query = (\<lambda>u _. u), ce_form = (\<lambda>ps. concat (map snd ps)), ce_mark = (\<lambda>_. False), ce_issues = (\<lambda>_. []), ce_abort_text = [],
      ce_resolve = Some, ce_status = Some, ce_historical = Some, ce_signedSet = Some, ce_events = Some, ce_extended = Some,
      ce_collectionRequest = Some, ce_collectionResponse = Some\<rparr>"

definition example_client_options :: client_options where
  "example_client_options = \<lparr>op_fetch = no_fetch_options, op_skew = None, op_clock = Some 100\<rparr>"

text \<open>The signed set cannot be fetched; the inline keys are used.\<close>

theorem resolved_keys_trusted_witness:
  "trusted_keys example_clients [(''signed_jwks_uri'', JStr ''u''), (''jwks'', example_client_jwks)] JUndef
     example_client_options FromJwks [JObj (example_public_jwk ''k1'')] \<and>
   (\<forall>ks. \<not> trusted_keys example_clients [(''signed_jwks_uri'', JStr ''u''), (''jwks'', example_client_jwks)] JUndef
     example_client_options FromSignedUri ks)"
proof -
  let ?md = "[(''signed_jwks_uri'', JStr ''u''), (''jwks'', example_client_jwks)]"
  have run: "resolveEntityKeys example_clients ?md JUndef True example_client_options =
      ([], Inr ([JObj (example_public_jwk ''k1'')], FromJwks))"
    by code_simp
  have "names_source ?md FromSignedUri" by (simp add: pget_def)
  with resolved_keys_trusted [OF run] show ?thesis by (metis preference.simps(1,2) zero_less_one)
qed

section \<open>Verifying with a key of the past\<close>

text \<open>The seconds at which an entry of the history ends.\<close>

definition history_end :: "number \<Rightarrow> key_entry \<Rightarrow> number" where
  "history_end now e =
     of_int \<lfloor>(case ke_expiresAt e of Some t \<Rightarrow> t | None \<Rightarrow> (case ke_scheduledRemovalAt e of Some t \<Rightarrow> t | None \<Rightarrow>
        (case ke_revokedAt e of Some t \<Rightarrow> t | None \<Rightarrow> now))) / 1000\<rfloor>"

lemma pget_Cons: "pget ((k, v) # m) j = (if j = k then v else pget m j)"
  by (simp add: pget_def)

lemma pget_Nil [simp]: "pget [] j = JUndef"
  by (simp add: pget_def)

lemma historical_claims:
  assumes "pget (ke_publicJwk e) ''revoked'' = JUndef"
  shows "pget (mapHistoricalEntry (of_int \<lfloor>now / 1000\<rfloor>) e) ''exp'' = JNum (history_end now e)"
    and "ke_activatedAt e = Some a \<Longrightarrow> pget (mapHistoricalEntry n e) ''nbf'' = JNum (of_int \<lfloor>a / 1000\<rfloor>)"
    and "ke_activatedAt e = None \<Longrightarrow> pget (mapHistoricalEntry n e) ''nbf'' = pget (ke_publicJwk e) ''nbf''"
    and "c \<notin> {''exp'', ''iat'', ''nbf'', ''revoked''} \<Longrightarrow> pget (mapHistoricalEntry n e) c = pget (ke_publicJwk e) c"
    and "ke_state e \<noteq> Revoked \<Longrightarrow> pget (mapHistoricalEntry n e) ''revoked'' = JUndef"
    and "ke_state e = Revoked \<Longrightarrow> ke_revokedAt e = Some t \<Longrightarrow>
      mget (pget (mapHistoricalEntry n e) ''revoked'') ''revoked_at'' = JNum (of_int \<lfloor>t / 1000\<rfloor>)"
    and "ke_state e = Revoked \<Longrightarrow> mget (pget (mapHistoricalEntry n e) ''revoked'') ''reason'' =
      (case some_nonempty (ke_revocationReason e) of None \<Rightarrow> JUndef | Some r \<Rightarrow> JStr r)"
  using assms
  by (auto simp: mapHistoricalEntry_def Let_def seconds_def history_end_def some_nonempty_def pget_Cons split: option.splits list.splits)

lemma history_matching:
  assumes inv: "kp_inv P" and e: "map_of (kp_keys P) kid = Some e"
  shows "filter (\<lambda>key. strict_eq (pget key ''kid'') (JStr kid)) (getHistoricalFederationKeys now P) =
    [mapHistoricalEntry (of_int \<lfloor>now / 1000\<rfloor>) e]"
proof -
  have kid: "pget (mapHistoricalEntry n d) ''kid'' = JStr k" if "(k, d) \<in> set (kp_keys P)" for k d n
  proof -
    have "map_of (kp_keys P) k = Some d" using that kp_invD(1) [OF inv] by simp
    from kp_invD(2) [OF inv this] show ?thesis
      by (auto simp: entry_ok_def mapHistoricalEntry_def Let_def split: option.splits)
  qed
  have "filter (\<lambda>key. strict_eq (pget key ''kid'') (JStr kid)) (getHistoricalFederationKeys now P) =
    map (\<lambda>(_, d). mapHistoricalEntry (of_int \<lfloor>now / 1000\<rfloor>) d) (filter (\<lambda>x. fst x = kid) (kp_keys P))"
    unfolding getHistoricalFederationKeys_def filter_map comp_def
    by (rule arg_cong [where f = "map _"], rule filter_cong) (auto simp: kid)
  also have "filter (\<lambda>x. fst x = kid) (kp_keys P) = [(kid, e)]"
    using filter_one [OF kp_invD(1) [OF inv], of "(kid, e)"] map_of_SomeD [OF e] by simp
  finally show ?thesis by simp
qed

text \<open>When a key of the past serves: not before its activation if it ever was activated, before its end, and unless
  it was revoked by then or revoked as compromised at any time.\<close>

definition serves_at :: "number \<Rightarrow> number \<Rightarrow> key_entry \<Rightarrow> bool" where
  "serves_at now t e \<longleftrightarrow>
     (\<forall>a. ke_activatedAt e = Some a \<longrightarrow> of_int \<lfloor>a / 1000\<rfloor> \<le> t) \<and> t < history_end now e \<and>
     (ke_state e = Revoked \<longrightarrow>
        (\<forall>r. ke_revocationReason e = Some r \<longrightarrow> r \<notin> set SECURITY_REVOCATION_REASONS) \<and>
        (\<forall>d. ke_revokedAt e = Some d \<longrightarrow> t < of_int \<lfloor>d / 1000\<rfloor>))"

lemma in_reasons: "in_strings SECURITY_REVOCATION_REASONS (JStr r) \<longleftrightarrow> r \<in> set SECURITY_REVOCATION_REASONS"
  by (auto simp: in_strings_def SECURITY_REVOCATION_REASONS_def)

lemma no_empty_reason [simp]: "[] \<notin> set SECURITY_REVOCATION_REASONS"
  by (simp add: SECURITY_REVOCATION_REASONS_def)

lemma usable_historical:
  assumes plain: "pget (ke_publicJwk e) ''revoked'' = JUndef" "pget (ke_publicJwk e) ''nbf'' = JUndef"
    and rev: "ke_state e = Revoked \<Longrightarrow> ke_revokedAt e \<noteq> None"
  shows "usable_at t (mapHistoricalEntry (of_int \<lfloor>now / 1000\<rfloor>) e) \<longleftrightarrow> serves_at now t e"
proof -
  note c = historical_claims [OF plain(1)]
  have nbf: "pget (mapHistoricalEntry n e) ''nbf'' =
      (case ke_activatedAt e of None \<Rightarrow> JUndef | Some a \<Rightarrow> JNum (of_int \<lfloor>a / 1000\<rfloor>))" for n
    using c(2,3) plain(2) by (cases "ke_activatedAt e") simp_all
  show ?thesis
  proof (cases "ke_state e = Revoked")
    case False
    show ?thesis
      using c(1) nbf c(5) [OF False] False
      by (auto simp: usable_at_def Let_def reached_def serves_at_def split: option.splits)
  next
    case True
    obtain d where d: "ke_revokedAt e = Some d" using rev True by blast
    show ?thesis
      using c(1) nbf c(6) [OF True d] c(7) [OF True] d True
      by (cases "ke_revocationReason e")
         (auto simp: usable_at_def Let_def reached_def serves_at_def some_nonempty_def in_reasons
            split: list.splits option.splits)
  qed
qed

lemma revoked_dated:
  assumes "key_run P0 P" and "kp_inv P0" and "\<forall>kid e. map_of (kp_keys P0) kid = Some e \<and> ke_state e = Revoked \<longrightarrow> ke_revokedAt e \<noteq> None"
  shows "\<forall>kid e. map_of (kp_keys P) kid = Some e \<and> ke_state e = Revoked \<longrightarrow> ke_revokedAt e \<noteq> None"
  using assms
proof (induction rule: key_run.induct)
  case (key_step P op P')
  then have inv: "kp_inv P" and IH: "\<forall>kid e. map_of (kp_keys P) kid = Some e \<and> ke_state e = Revoked \<longrightarrow> ke_revokedAt e \<noteq> None"
    using run_inv by blast+
  show ?case
  proof (cases op)
    case (Publish_Key now k)
    with key_step(2) obtain k' where "P' = P\<lparr>kp_keys := AList.update (signer_kid (sk_signer k')) (blank_entry k' Published now) (kp_keys P)\<rparr>"
      by (auto simp: publishKey_def split: sum.splits)
    then show ?thesis using IH by (auto simp: AList.update_conv blank_entry_def split: if_splits)
  next
    case (Switch_Key now1 now2 kid r)
    then have "switchActiveKey now1 now2 kid r P = Inr P'" using key_step(2) by simp
    with inv obtain e prev pe ks where "P' = \<lparr>kp_keys = AList.update prev (retired (retire_time now2 r) pe)
        (AList.update kid (activated now2 (kp_activationOrder P) e) (kp_keys P)), kp_activationOrder = kp_activationOrder P + 1\<rparr>"
      by (rule switch_shape)
    then show ?thesis using IH by (auto simp: AList.update_conv retired_def activated_def split: if_splits)
  next
    case (Revoke_Key now kid reason)
    then show ?thesis using key_step(2) IH
      by (auto simp: revokeKey_def AList.update_conv split: sum.splits if_splits)
  qed
qed

lemma initial_active:
  assumes "for_each (add_initial_key now) ks P = Inr P'" and "\<forall>kid e. map_of (kp_keys P) kid = Some e \<longrightarrow> ke_state e = Active"
  shows "\<forall>kid e. map_of (kp_keys P') kid = Some e \<longrightarrow> ke_state e = Active"
  using assms
proof (induction ks arbitrary: P)
  case (Cons k ks)
  from Cons.prems(1) obtain Q where Q: "add_initial_key now k P = Inr Q" "for_each (add_initial_key now) ks Q = Inr P'"
    by (auto split: sum.splits)
  from Q(1) Cons.prems(2) have "\<forall>kid e. map_of (kp_keys Q) kid = Some e \<longrightarrow> ke_state e = Active"
    by (auto simp: add_initial_key_def blank_entry_def AList.update_conv split: sum.splits if_splits)
  from Cons.IH [OF Q(2) this] show ?case .
qed simp

text \<open>
  C22: A key of the past verifies exactly what its record allows. From the history a provider publishes, the
  client selects for a key id and a time the entry of that key, with the public key unchanged, exactly when the time
  is before the key's end, the key was not revoked by then and never as compromised, and the time is not before the
  key's activation, if the key was ever activated. No other key is ever selected. (The public key has no members
  \<open>revoked\<close> and \<open>nbf\<close> of its own.) The entry of a key that was published and never activated carries no start and, unless an
  end is recorded, ends when the history is published: it is selected for every earlier time.
\<close>
theorem historical_key_selected:
  assumes "MemoryFederationKeyProvider t0 initial = Inr P0" and "key_run P0 P" and "map_of (kp_keys P) kid = Some e"
    and "pget (ke_publicJwk e) ''revoked'' = JUndef" and "pget (ke_publicJwk e) ''nbf'' = JUndef"
  shows "(selectHistoricalVerificationKey (getHistoricalFederationKeys now P) kid t = Inr k \<longleftrightarrow>
      serves_at now t e \<and> k = mapHistoricalEntry (of_int \<lfloor>now / 1000\<rfloor>) e) \<and>
    (c \<notin> {''exp'', ''iat'', ''nbf'', ''revoked''} \<longrightarrow>
      pget (mapHistoricalEntry (of_int \<lfloor>now / 1000\<rfloor>) e) c = pget (ke_publicJwk e) c)"
proof -
  have inv0: "kp_inv P0" using new_provider_inv [OF assms(1)] .
  have inv: "kp_inv P" using run_inv [OF assms(2) inv0] .
  have "\<forall>kid e. map_of (kp_keys P0) kid = Some e \<longrightarrow> ke_state e = Active"
    using assms(1) initial_active [of t0 initial "\<lparr>kp_keys = [], kp_activationOrder = 0\<rparr>" P0]
    by (auto simp: MemoryFederationKeyProvider_def split: if_splits)
  then have rev: "ke_state e = Revoked \<Longrightarrow> ke_revokedAt e \<noteq> None"
    using revoked_dated [OF assms(2) inv0] assms(3) by fastforce
  have "selectHistoricalVerificationKey (getHistoricalFederationKeys now P) kid t = Inr k \<longleftrightarrow>
      serves_at now t e \<and> k = mapHistoricalEntry (of_int \<lfloor>now / 1000\<rfloor>) e"
    unfolding selectHistoricalVerificationKey_def history_matching [OF inv assms(3)] Let_def
    by (auto simp: usable_historical [OF assms(4,5) rev])
  then show ?thesis using historical_claims(4) [OF assms(4)] by blast
qed

theorem historical_key_selected_witness:
  "\<exists>k. selectHistoricalVerificationKey (getHistoricalFederationKeys 5000 example_rolled) ''k1'' 2 = Inr k \<and>
     pget k ''kty'' = pget (example_public_jwk ''k1'') ''kty''"
proof -
  have "map_of (kp_keys example_rolled) ''k1'' \<noteq> None" by code_simp
  then obtain e where e: "map_of (kp_keys example_rolled) ''k1'' = Some e" by blast
  have "pget (ke_publicJwk (the (map_of (kp_keys example_rolled) ''k1''))) ''revoked'' = JUndef"
    "pget (ke_publicJwk (the (map_of (kp_keys example_rolled) ''k1''))) ''nbf'' = JUndef"
    "ke_publicJwk (the (map_of (kp_keys example_rolled) ''k1'')) = example_public_jwk ''k1''"
    "ke_activatedAt (the (map_of (kp_keys example_rolled) ''k1'')) = Some 1000"
    "ke_state (the (map_of (kp_keys example_rolled) ''k1'')) \<noteq> Revoked"
    "2 < history_end 5000 (the (map_of (kp_keys example_rolled) ''k1''))" by code_simp+
  then have k1: "pget (ke_publicJwk e) ''revoked'' = JUndef" "pget (ke_publicJwk e) ''nbf'' = JUndef"
    "ke_publicJwk e = example_public_jwk ''k1''" "serves_at 5000 2 e"
    using e by (auto simp: serves_at_def)
  show ?thesis
    using historical_key_selected [OF example_provider_new example_rolled_run e k1(1,2), of 5000 2
        "mapHistoricalEntry (of_int \<lfloor>5000 / 1000\<rfloor>) e" "''kty''"] k1(3,4) by auto
qed

text \<open>The next key of the example was published at second 2 and never activated, and serves for second 0.\<close>

lemma unactivated_key_selected:
  "map_option ke_activatedAt (map_of (kp_keys example_rolled) ''k2'') = Some None"
  "case selectHistoricalVerificationKey (getHistoricalFederationKeys 5000 example_rolled) ''k2'' 0 of Inr _ \<Rightarrow> True | Inl _ \<Rightarrow> False"
  by code_simp+

section \<open>The guard of the clients\<close>

text \<open>
  C36: Whatever the endpoint and the parameters, each of these clients sends requests only to safe targets:
  https without credentials, a host that is allowed, is no special-use address and is in none of the blocked ranges. They are the
  clients for trust marks, trust mark lists, historical keys, subordinate lists, extended lists, resolve responses,
  subordinate events, entity collections, logos, JWK Sets and signed JWK Sets. (The client for trust mark status is not among them:
  it does not use the guard.) The guard is on the URL that a client asks for. What the transport does with it is
  outside: the addresses its names resolve to, and redirects, which the transport follows for nine of the clients; the
  clients for subordinate events and entity collections ask for redirects not to be followed.
\<close>
theorem clients_guarded:
  "guarded X op (fst (fetchTrustMark X endpoint t sub op)) \<and>
   guarded X op (fst (fetchTrustMarkList X endpoint t s op)) \<and>
   guarded X op (fst (fetchHistoricalKeys X endpoint jwks op)) \<and>
   guarded X op (fst (fetchListSubordinates X endpoint filt op)) \<and>
   guarded X op (fst (fetchExtendedSubordinatesList X endpoint ps op)) \<and>
   guarded X op (fst (fetchResolveResponse X endpoint sub tas types op)) \<and>
   guarded X op (fst (fetchSubordinateEvents X endpoint subject jwks issuer ca op)) \<and>
   guarded X op (fst (fetchEntityCollection X endpoint params chosen ca op)) \<and>
   guarded X op (fst (validateTrustMarkLogo X endpoint op)) \<and>
   guarded X op (fst (fetchJwkSet X endpoint op)) \<and> guarded X op (fst (fetchSignedJwkSet X endpoint jwks op)) \<and>
   no_redirect (fst (fetchSubordinateEvents X endpoint subject jwks issuer ca op)) \<and>
   no_redirect (fst (fetchEntityCollection X endpoint params chosen ca op))"
  by (intro conjI guards)

text \<open>A request that is sent, with parameters that replace the ones of the endpoint.\<close>

theorem clients_guarded_witness:
  "\<exists>q. fst (fetchEntityCollection (example_clients\<lparr>ce_http := example_http\<rparr>) ''https://a'' [(''entityType'', JArr [JStr ''x''])]
       None None example_client_options) = [q] \<and>
     rq_redirect q = Some ''manual'' \<and> safe_request (example_clients\<lparr>ce_http := example_http\<rparr>) example_client_options q"
proof -
  let ?X = "example_clients\<lparr>ce_http := example_http\<rparr>" and ?ps = "[(''entityType'', JArr [JStr ''x''])]"
  let ?sent = "fst (fetchEntityCollection ?X ''https://a'' ?ps None None example_client_options)"
  have "length ?sent = 1" by code_simp
  then obtain q where "?sent = [q]" by (auto simp: length_Suc_conv)
  moreover have "guarded ?X example_client_options ?sent \<and> no_redirect ?sent"
    using clients_guarded [where X = ?X and op = example_client_options and endpoint = "''https://a''" and params = ?ps
        and chosen = None and ca = None] by blast
  ultimately show ?thesis by (simp add: guarded_def no_redirect_def)
qed

text \<open>The status client asks a loopback address that the guard refuses.\<close>

lemma status_request_unguarded:
  "fst (fetchTrustMarkStatus (example_clients\<lparr>ce_http := example_http\<rparr>) ''https://b'' ''m'' JUndef example_client_options) \<noteq> [] \<and>
   (case validateFetchUrl (he_parse_url example_http) ''https://b'' no_fetch_options of Inl _ \<Rightarrow> True | Inr _ \<Rightarrow> False)"
  by code_simp

text \<open>What it makes of a reply does not depend on the mark it asked about.\<close>

lemma status_not_bound_to_mark:
  assumes "he_client (ce_http X) (status_request X endpoint m) = he_client (ce_http X) (status_request X endpoint m')"
  shows "snd (fetchTrustMarkStatus X endpoint m jwks op) = snd (fetchTrustMarkStatus X endpoint m' jwks op)"
  using assms by (simp add: fetchTrustMarkStatus_def Let_def split: option.splits)

end
