(* ===== verification/Client_Auth.thy ===== *)
theory Client_Auth
  imports Federation_Clients Replay_Protection
begin

text \<open>
  packages/authority/src/endpoints/client-auth.ts: authentication of the clients of an endpoint with
  \<open>private_key_jwt\<close>, in front of the handler of the endpoint.

  A handler reads and changes one state, of which the replay store is a part; the handler behind the wrapper is any
  function that reads the state when the request reaches it. The
  names of headers are in lower case. What the wrapper does with a request is \<open>authenticate\<close>: it answers
  itself, or it forwards a request to the handler behind.
\<close>

section \<open>Outcomes\<close>

text \<open>What a handler does: it does not end, rejects, or responds.\<close>

type_synonym handled = "(authority_error, server_response) result option"

definition respond :: "server_response \<Rightarrow> handled" where
  "respond response = Some (Inr response)"

type_synonym 'r route_handler = "'r \<Rightarrow> server_request \<Rightarrow> handled \<times> 'r"

datatype native_method = NativeGet | NativePost

text \<open>What the wrapper uses besides the context: \<open>storage.replay\<close>, the keys of clients, and of the platform the
  printing of form parameters and the encoding of texts. \<open>au_now\<close> is the time without a configured clock.\<close>

record 'r auth_env =
  au_replay :: "(replay_claim \<Rightarrow> 'r \<Rightarrow> use_result \<times> 'r) option"
  au_clientKeys :: "'r \<Rightarrow> jsval \<Rightarrow> (string, jsval option) result"
  au_printForm :: "url_params \<Rightarrow> string"
  au_encode :: "string \<Rightarrow> byte list"
  au_now :: number

definition AUTHENTICATED_ENTITY :: string where
  "AUTHENTICATED_ENTITY = ''x-authenticated-entity''"

text \<open>What \<open>Headers.set\<close> stores: the value without the white space around it; some values it refuses with a
  \<open>TypeError\<close>.\<close>

definition http_space :: "char \<Rightarrow> bool" where
  "http_space c \<longleftrightarrow> c \<in> set [CHR 0x09, CHR 0x0A, CHR 0x0D, CHR 0x20]"

definition header_value :: "string \<Rightarrow> string option" where
  "header_value v =
     (let t = rev (dropWhile http_space (rev (dropWhile http_space v)))
      in if list_ex (\<lambda>c. c \<in> set [CHR 0x00, CHR 0x0A, CHR 0x0D]) t then None else Some t)"

section \<open>The wrapper\<close>

definition invalid_client_response :: "string \<Rightarrow> server_response" where
  "invalid_client_response d = errorResponse 401 ''invalid_client'' d"

definition forwarded_headers :: "string dict \<Rightarrow> string option \<Rightarrow> (authority_error, string dict) result" where
  "forwarded_headers headers authenticatedEntity =
     (let headers = AList.delete ''content-length'' (AList.delete AUTHENTICATED_ENTITY headers) in
      case some_nonempty authenticatedEntity of
        None \<Rightarrow> Inr headers
      | Some e \<Rightarrow>
          (case header_value e of
             None \<Rightarrow> Inl (Thrown ''Invalid header value'')
           | Some v \<Rightarrow> Inr (AList.update AUTHENTICATED_ENTITY v headers)))"

definition forward ::
  "'r auth_env \<Rightarrow> native_method \<Rightarrow> server_request \<Rightarrow> url_params \<Rightarrow> string \<Rightarrow> string option \<Rightarrow>
   (authority_error, server_request) result"
where
  "forward A nativeMethod request params text authenticatedEntity =
     (case forwarded_headers (sq_headers request) authenticatedEntity of
        Inl e \<Rightarrow> Inl e
      | Inr headers \<Rightarrow>
          Inr (case nativeMethod of
                 NativePost \<Rightarrow>
                   request\<lparr>sq_method := ''POST'',
                     sq_headers := AList.update ''content-type'' ''application/x-www-form-urlencoded'' headers,
                     sq_body := Some \<lparr>rb_chunks = [au_encode A (if some_nonempty authenticatedEntity \<noteq> None
                                                                 then au_printForm A params else text)],
                                      rb_fails = False\<rparr>\<rparr>
               | NativeGet \<Rightarrow>
                   request\<lparr>sq_method := ''GET'', sq_query := params, sq_headers := AList.delete ''content-type'' headers,
                     sq_body := None\<rparr>))"

text \<open>The body of the request: the response that ends it, or its text.\<close>

definition auth_body :: "'s handler_context \<Rightarrow> server_request \<Rightarrow> (server_response, string) result" where
  "auth_body cx request =
     (if sq_body request = None then Inr []
      else
        (case readBodyWithLimit (cx_text cx) request DEFAULT_MAX_REQUEST_BODY_BYTES of
           Inl _ \<Rightarrow> Inl (errorResponse 400 ''invalid_request'' ''Failed to read request body'')
         | Inr None \<Rightarrow> Inl (errorResponse 413 ''invalid_request'' ''Request body too large'')
         | Inr (Some text) \<Rightarrow> Inr text))"

text \<open>The issuer the assertion names, which has to be an entity identifier, and its keys.\<close>

definition assertion_issuer ::
  "'s handler_context \<Rightarrow> 'r auth_env \<Rightarrow> 'r \<Rightarrow> string option \<Rightarrow> string option \<Rightarrow> (server_response, string \<times> jsval \<times> jsval) result"
where
  "assertion_issuer cx A s clientAssertion clientAssertionType =
     (case some_nonempty clientAssertion of
        None \<Rightarrow> Inl (invalid_client_response ''Missing client_assertion parameter'')
      | Some assertion \<Rightarrow>
          if clientAssertionType \<noteq> Some JWT_BEARER_CLIENT_ASSERTION_TYPE
          then Inl (invalid_client_response (''Invalid client_assertion_type: expected '' @ quoted JWT_BEARER_CLIENT_ASSERTION_TYPE))
          else
            (case decodeEntityStatement (cx_jose cx) assertion of
               Inl _ \<Rightarrow> Inl (invalid_client_response ''Failed to decode client assertion'')
             | Inr decoded \<Rightarrow>
                 (let iss = pget (payload decoded) ''iss'' in
                  if \<not> valid_entity_claim (bs_parse_url (cx_schemas cx)) iss
                  then Inl (invalid_client_response (''Client assertion '' @ quoted ''iss'' @ '' is not a valid Entity Identifier''))
                  else
                    (case au_clientKeys A s iss of
                       Inl _ \<Rightarrow> Inl (errorResponse 500 ''server_error'' ''Client key lookup failed'')
                     | Inr None \<Rightarrow> Inl (invalid_client_response ''No federation keys found for client'')
                     | Inr (Some jwks) \<Rightarrow> Inr (assertion, iss, jwks)))))"

definition assertion_failure :: "fed_error \<Rightarrow> server_response" where
  "assertion_failure e =
     (if code e = ''server_error'' then errorResponse 500 ''server_error'' (description e)
      else errorResponse 401 ''invalid_client'' (description e))"

definition assertion_options_of :: "'s handler_context \<Rightarrow> string list option \<Rightarrow> assertion_options" where
  "assertion_options_of cx algs =
     \<lparr>ao_skew = cx_clockSkewSeconds cx, ao_clock = cx_clock cx, ao_allowedAlgorithms = algs\<rparr>"

text \<open>What becomes of a request: the wrapper answers it, throws, or forwards a request.\<close>

datatype decision = Answer server_response | Fail authority_error | Forward server_request

definition decided :: "(authority_error, server_request) result \<Rightarrow> decision" where
  "decided r = (case r of Inl e \<Rightarrow> Fail e | Inr request \<Rightarrow> Forward request)"

text \<open>From the form parameters on. A store that fails keeps its state.\<close>

definition authenticate_form ::
  "'s handler_context \<Rightarrow> 'r auth_env \<Rightarrow> (replay_claim \<Rightarrow> 'r \<Rightarrow> use_result \<times> 'r) \<Rightarrow> bool \<Rightarrow> native_method \<Rightarrow> string list option \<Rightarrow>
   'r \<Rightarrow> server_request \<Rightarrow> string \<Rightarrow> decision \<times> 'r"
where
  "authenticate_form cx A replayStore allowsNone nativeMethod algs s request text =
     (let form = cx_form cx text;
          params = without_param (without_param form ''client_assertion'') ''client_assertion_type'';
          supplied = has_param form ''client_assertion'' \<or> has_param form ''client_assertion_type'' in
      if length (all_params form ''client_assertion'') > 1 \<or> length (all_params form ''client_assertion_type'') > 1
      then (Answer (invalid_client_response ''Duplicate client assertion parameters''), s)
      else if \<not> supplied \<and> allowsNone \<and> nativeMethod = NativePost
      then (decided (forward A nativeMethod request params text None), s)
      else
        (case assertion_issuer cx A s (param form ''client_assertion'') (param form ''client_assertion_type'') of
           Inl response \<Rightarrow> (Answer response, s)
         | Inr (assertion, iss, jwks) \<Rightarrow>
             (case verifyClientAssertion (cx_jose cx) (au_now A) replayStore assertion jwks (cx_entityId cx)
                     (assertion_options_of cx algs) (Some s) of
                (r, s') \<Rightarrow>
                  (case r of Inl e \<Rightarrow> Answer (assertion_failure e)
                   | Inr _ \<Rightarrow> decided (forward A nativeMethod request params text (Some (js_string iss))),
                   case s' of Some t \<Rightarrow> t | None \<Rightarrow> s))))"

definition authenticate ::
  "'s handler_context \<Rightarrow> 'r auth_env \<Rightarrow> (replay_claim \<Rightarrow> 'r \<Rightarrow> use_result \<times> 'r) \<Rightarrow> bool \<Rightarrow> native_method \<Rightarrow> string list option \<Rightarrow>
   'r \<Rightarrow> server_request \<Rightarrow> decision \<times> 'r"
where
  "authenticate cx A replayStore allowsNone nativeMethod algs s request =
     (case requireMethods request (if allowsNone \<and> nativeMethod = NativeGet then [''GET'', ''POST''] else [''POST'']) of
        Some methodError \<Rightarrow> (Answer methodError, s)
      | None \<Rightarrow>
          if upper (sq_method request) = ''GET'' \<and> allowsNone then
            (if has_param (sq_query request) ''client_assertion'' \<or> has_param (sq_query request) ''client_assertion_type''
             then (Answer (invalid_client_response ''Client assertions require POST''), s) else (Forward request, s))
          else
            (case auth_body cx request of
               Inl response \<Rightarrow> (Answer response, s)
             | Inr text \<Rightarrow> authenticate_form cx A replayStore allowsNone nativeMethod algs s request text))"

definition run_decision :: "('r \<Rightarrow> server_request \<Rightarrow> handled) \<Rightarrow> decision \<times> 'r \<Rightarrow> handled \<times> 'r" where
  "run_decision inner d =
     (case d of
        (Answer response, s) \<Rightarrow> (respond response, s)
      | (Fail e, s) \<Rightarrow> (Some (Inl e), s)
      | (Forward request, s) \<Rightarrow> (inner s request, s))"

definition createAuthenticatedHandler ::
  "'s handler_context \<Rightarrow> 'r auth_env \<Rightarrow> ('r \<Rightarrow> server_request \<Rightarrow> handled) \<Rightarrow> string list option \<Rightarrow> native_method \<Rightarrow> string list option \<Rightarrow>
   (authority_error, 'r route_handler) result"
where
  "createAuthenticatedHandler cx A innerHandler authMethods nativeMethod algs =
     (let methods = (case authMethods of None \<Rightarrow> [''none''] | Some ms \<Rightarrow> ms) in
      if length methods = 0 then Inl (InvalidAuthorityConfig ''Endpoint auth methods must not be empty'')
      else
        (case find (\<lambda>m. m \<noteq> ''none'' \<and> m \<noteq> ''private_key_jwt'') methods of
           Some m \<Rightarrow> Inl (InvalidAuthorityConfig (''Unsupported endpoint auth method: '' @ quoted m))
         | None \<Rightarrow>
             if ''private_key_jwt'' \<notin> set methods then Inr (\<lambda>s request. (innerHandler s request, s))
             else
               (case au_replay A of
                  None \<Rightarrow> Inl (InvalidAuthorityConfig ''private_key_jwt authentication requires storage.replay'')
                | Some replayStore \<Rightarrow>
                    Inr (\<lambda>s request. run_decision innerHandler
                      (authenticate cx A replayStore (''none'' \<in> set methods) nativeMethod algs s request)))))"

section \<open>What a forwarded request has gone through\<close>

text \<open>A verified assertion: the only one the form names, of the issuer whose keys the provider gave, which is
  now used up in the replay store.\<close>

definition verified_client ::
  "'s handler_context \<Rightarrow> 'r auth_env \<Rightarrow> (replay_claim \<Rightarrow> 'r \<Rightarrow> use_result \<times> 'r) \<Rightarrow> string list option \<Rightarrow>
   'r \<Rightarrow> 'r \<Rightarrow> server_request \<Rightarrow> jsval \<Rightarrow> bool"
where
  "verified_client cx A replayStore algs s s' request iss \<longleftrightarrow>
     (\<exists>text assertion jwks v. auth_body cx request = Inr text \<and> all_params (cx_form cx text) ''client_assertion'' = [assertion] \<and>
        valid_entity_claim (bs_parse_url (cx_schemas cx)) iss \<and> au_clientKeys A s iss = Inr (Some jwks) \<and>
        verifyClientAssertion (cx_jose cx) (au_now A) replayStore assertion jwks (cx_entityId cx)
          (assertion_options_of cx algs) (Some s) = (Inr v, Some s') \<and> va_clientId v = iss)"

lemma single_param:
  "param ps k = Some v \<Longrightarrow> \<not> 1 < length (all_params ps k) \<Longrightarrow> all_params ps k = [v]"
proof (induction ps)
  case (Cons p ps)
  obtain j w where p: "p = (j, w)" by (cases p)
  show ?case
  proof (cases "j = k")
    case True
    then show ?thesis using Cons.prems p by (auto simp: param_def all_params_def)
  next
    case False
    then show ?thesis using Cons p by (simp add: param_def all_params_def)
  qed
qed (simp add: param_def)

lemma assertion_issuer_Inr:
  assumes "assertion_issuer cx A s ca ct = Inr (assertion, iss, jwks)"
  shows "ca = Some assertion" "valid_entity_claim (bs_parse_url (cx_schemas cx)) iss" "au_clientKeys A s iss = Inr (Some jwks)"
    "\<exists>d. decodeEntityStatement (cx_jose cx) assertion = Inr d \<and> pget (payload d) ''iss'' = iss"
  using assms
  by (auto simp: assertion_issuer_def some_nonempty_def Let_def split: option.splits list.splits if_splits sum.splits)

lemma forwarded_headers_entity:
  assumes "forwarded_headers headers e = Inr headers'"
  shows "map_of headers' AUTHENTICATED_ENTITY = Option.bind (some_nonempty e) header_value"
    and "some_nonempty e \<noteq> None \<Longrightarrow> map_of headers' AUTHENTICATED_ENTITY \<noteq> None"
  using assms
  by (auto simp: forwarded_headers_def Let_def AList.update_conv AList.delete_conv split: option.splits)

lemma forward_header:
  assumes "forward A m request ps text e = Inr request'"
  shows "map_of (sq_headers request') AUTHENTICATED_ENTITY = Option.bind (some_nonempty e) header_value"
    and "some_nonempty e \<noteq> None \<Longrightarrow> map_of (sq_headers request') AUTHENTICATED_ENTITY \<noteq> None"
proof -
  from assms obtain headers where h: "forwarded_headers (sq_headers request) e = Inr headers"
    and m: "map_of (sq_headers request') AUTHENTICATED_ENTITY = map_of headers AUTHENTICATED_ENTITY"
    by (cases "forwarded_headers (sq_headers request) e"; cases m)
       (auto simp: forward_def AUTHENTICATED_ENTITY_def AList.update_conv AList.delete_conv)
  show "map_of (sq_headers request') AUTHENTICATED_ENTITY = Option.bind (some_nonempty e) header_value"
    "some_nonempty e \<noteq> None \<Longrightarrow> map_of (sq_headers request') AUTHENTICATED_ENTITY \<noteq> None"
    using forwarded_headers_entity [OF h] by (simp_all add: m)
qed

lemma valid_issuer_text:
  assumes "valid_entity_claim f iss" and "f [] = None"
  shows "js_string iss \<noteq> []"
proof
  assume "js_string iss = []"
  with assms show False
    by (cases iss) (auto simp: valid_entity_claim_def isValidEntityId_def split: if_splits option.splits)
qed

lemma decided_Forward: "decided r = Forward request \<longleftrightarrow> r = Inr request"
  by (cases r) (simp_all add: decided_def)

lemma form_cases:
  assumes "authenticate_form cx A replayStore allowsNone m algs s request text = (Forward request', s')"
  shows "(allowsNone \<and> s' = s \<and>
      forward A m request (without_param (without_param (cx_form cx text) ''client_assertion'') ''client_assertion_type'') text None = Inr request') \<or>
    (\<exists>assertion iss jwks v st.
      assertion_issuer cx A s (param (cx_form cx text) ''client_assertion'') (param (cx_form cx text) ''client_assertion_type'') =
        Inr (assertion, iss, jwks) \<and>
      verifyClientAssertion (cx_jose cx) (au_now A) replayStore assertion jwks (cx_entityId cx)
        (assertion_options_of cx algs) (Some s) = (Inr v, st) \<and> s' = (case st of Some t \<Rightarrow> t | None \<Rightarrow> s) \<and>
      forward A m request (without_param (without_param (cx_form cx text) ''client_assertion'') ''client_assertion_type'') text
        (Some (js_string iss)) = Inr request')"
proof (cases "assertion_issuer cx A s (param (cx_form cx text) ''client_assertion'') (param (cx_form cx text) ''client_assertion_type'')")
  case (Inl response)
  then show ?thesis using assms by (simp add: authenticate_form_def Let_def decided_Forward split: if_splits)
next
  case (Inr t)
  obtain assertion iss jwks where t: "t = (assertion, iss, jwks)" by (cases t)
  obtain r st where v: "verifyClientAssertion (cx_jose cx) (au_now A) replayStore assertion jwks (cx_entityId cx)
      (assertion_options_of cx algs) (Some s) = (r, st)" by fastforce
  show ?thesis
  proof (cases r)
    case (Inl e)
    then show ?thesis using assms \<open>_ = Inr t\<close> v t by (simp add: authenticate_form_def Let_def decided_Forward split: if_splits)
  next
    case (Inr x)
    then show ?thesis using assms \<open>_ = Inr t\<close> v t by (simp add: authenticate_form_def Let_def decided_Forward split: if_splits)
  qed
qed

lemma form_forwarded:
  assumes run: "authenticate_form cx A replayStore allowsNone m algs s request text = (Forward request', s')"
    and body: "auth_body cx request = Inr text"
    and payload: "\<forall>t k al sk c p. jose_verify (cx_jose cx) t k al sk c = Inr p \<longrightarrow> jose_payload (cx_jose cx) t = Inr p"
    and url: "bs_parse_url (cx_schemas cx) [] = None"
  shows "allowsNone \<and> s' = s \<and> map_of (sq_headers request') AUTHENTICATED_ENTITY = None \<or>
    (\<exists>iss e. verified_client cx A replayStore algs s s' request iss \<and> header_value (js_string iss) = Some e \<and>
       map_of (sq_headers request') AUTHENTICATED_ENTITY = Some e)"
proof -
  let ?form = "cx_form cx text"
  let ?ps = "without_param (without_param ?form ''client_assertion'') ''client_assertion_type''"
  have single: "\<not> 1 < length (all_params ?form ''client_assertion'')"
    using run by (auto simp: authenticate_form_def Let_def)
  consider (none) "allowsNone" "s' = s" "forward A m request ?ps text None = Inr request'"
    | (verified) assertion iss jwks v st where
        "assertion_issuer cx A s (param ?form ''client_assertion'') (param ?form ''client_assertion_type'') = Inr (assertion, iss, jwks)"
        "verifyClientAssertion (cx_jose cx) (au_now A) replayStore assertion jwks (cx_entityId cx)
          (assertion_options_of cx algs) (Some s) = (Inr v, st)"
        "s' = (case st of Some t \<Rightarrow> t | None \<Rightarrow> s)"
        "forward A m request ?ps text (Some (js_string iss)) = Inr request'"
    using form_cases [OF run] by blast
  then show ?thesis
  proof cases
    case none
    then show ?thesis using forward_header(1) by (fastforce simp: some_nonempty_def)
  next
    case verified
    note issuer = assertion_issuer_Inr [OF verified(1)]
    obtain h key p where p: "jose_header (cx_jose cx) assertion = Inr h" "jose_payload (cx_jose cx) assertion = Inr p" "va_clientId v = pget p ''iss''"
      and used: "claim_jti replayStore \<lparr>cl_issuer = pget p ''iss'', cl_audience = cx_entityId cx, cl_jti = va_jti v,
        cl_expiresAt = va_expiresAt v + skew_of (ao_skew (assertion_options_of cx algs))\<rparr> (Some s) = (None, st)"
      using assertion_accepted [OF verified(2)] payload by blast
    have iss: "iss = pget p ''iss''" using issuer(4) p by (auto simp: decodeEntityStatement_def)
    obtain t where t: "st = Some t" using iffD1 [OF claim_jti_None, OF used] by blast
    have "all_params ?form ''client_assertion'' = [assertion]" using single_param [OF issuer(1) single] .
    then have "verified_client cx A replayStore algs s s' request iss"
      unfolding verified_client_def using body issuer(2,3) verified(2,3) p(3) iss t by auto
    moreover have "js_string iss \<noteq> []" using valid_issuer_text [OF issuer(2) url] .
    then have "some_nonempty (Some (js_string iss)) = Some (js_string iss)" by (auto simp: some_nonempty_def split: list.splits)
    ultimately show ?thesis using forward_header [OF verified(4)] by (auto simp: not_None_eq)
  qed
qed

lemma authenticate_forwards:
  assumes run: "authenticate cx A replayStore allowsNone m algs s request = (Forward request', s')"
    and payload: "\<forall>t k al sk c p. jose_verify (cx_jose cx) t k al sk c = Inr p \<longrightarrow> jose_payload (cx_jose cx) t = Inr p"
    and url: "bs_parse_url (cx_schemas cx) [] = None"
  shows "allowsNone \<and> s' = s \<and> map_of (sq_headers request') AUTHENTICATED_ENTITY \<in> {None, map_of (sq_headers request) AUTHENTICATED_ENTITY} \<or>
    (\<exists>iss e. verified_client cx A replayStore algs s s' request iss \<and> header_value (js_string iss) = Some e \<and>
       map_of (sq_headers request') AUTHENTICATED_ENTITY = Some e)"
proof -
  consider "allowsNone" "s' = s" "request' = request"
    | txt' where "auth_body cx request = Inr txt'"
        "authenticate_form cx A replayStore allowsNone m algs s request txt' = (Forward request', s')"
    using run by (auto simp: authenticate_def split: option.splits if_splits sum.splits)
  then show ?thesis
  proof cases
    case 2
    from form_forwarded [OF 2(2,1) payload url] show ?thesis by blast
  qed simp
qed

text \<open>An answer of the wrapper itself is never a success.\<close>

lemma requireMethods_status: "requireMethods request ms = Some r \<Longrightarrow> sp_status r = 405"
  by (auto simp: requireMethods_def split: if_splits)

lemma auth_body_status: "auth_body cx request = Inl response \<Longrightarrow> sp_status response \<noteq> 200"
  by (auto simp: auth_body_def split: if_splits sum.splits option.splits)

lemma issuer_status: "assertion_issuer cx A s ca ct = Inl response \<Longrightarrow> sp_status response \<noteq> 200"
  by (auto simp: assertion_issuer_def invalid_client_response_def Let_def split: option.splits if_splits sum.splits)

lemma form_answers: "authenticate_form cx A rs an m algs s request txt' = (Answer response, s') \<Longrightarrow> sp_status response \<noteq> 200"
proof (cases "assertion_issuer cx A s (param (cx_form cx txt') ''client_assertion'') (param (cx_form cx txt') ''client_assertion_type'')")
  case (Inl r)
  assume "authenticate_form cx A rs an m algs s request txt' = (Answer response, s')"
  with Inl show ?thesis
    by (auto simp: authenticate_form_def Let_def decided_def invalid_client_response_def dest: issuer_status split: if_splits sum.splits)
next
  case (Inr t)
  assume run: "authenticate_form cx A rs an m algs s request txt' = (Answer response, s')"
  obtain assertion iss jwks where t: "t = (assertion, iss, jwks)" by (cases t)
  obtain r st where v: "verifyClientAssertion (cx_jose cx) (au_now A) rs assertion jwks (cx_entityId cx)
      (assertion_options_of cx algs) (Some s) = (r, st)" by fastforce
  show ?thesis
    using run Inr v t
    by (cases r) (simp_all add: authenticate_form_def Let_def decided_def invalid_client_response_def assertion_failure_def
        split: if_splits sum.splits, auto)
qed

lemma authenticate_answers: "authenticate cx A rs an m algs s request = (Answer response, s') \<Longrightarrow> sp_status response \<noteq> 200"
  by (auto simp: authenticate_def invalid_client_response_def dest: requireMethods_status auth_body_status form_answers
      split: option.splits if_splits sum.splits)

text \<open>A handler that requires the assertion: what it answers with success, the handler behind it answered to a request
  whose client was verified and that names the client.\<close>

lemma run_decision_success:
  assumes "run_decision inner (authenticate cx A rs an m algs s request) = (Some (Inr response), s')" and "sp_status response = 200"
  obtains request' where "authenticate cx A rs an m algs s request = (Forward request', s')" and "inner s' request' = Some (Inr response)"
proof -
  obtain d t where d: "authenticate cx A rs an m algs s request = (d, t)" by fastforce
  show thesis
  proof (cases d)
    case (Answer r)
    with assms d authenticate_answers [of cx A rs an m algs s request r t] show thesis by (auto simp: run_decision_def respond_def)
  next
    case (Fail e)
    with assms d show thesis by (auto simp: run_decision_def)
  next
    case (Forward q)
    with assms d that show thesis by (auto simp: run_decision_def)
  qed
qed

lemma required_authentication:
  assumes created: "createAuthenticatedHandler cx A inner (Some methods) m algs = Inr h" and methods: "''none'' \<notin> set methods"
    and run: "h s request = (Some (Inr response), s')" and ok: "sp_status response = 200"
    and payload: "\<forall>t k al sk c p. jose_verify (cx_jose cx) t k al sk c = Inr p \<longrightarrow> jose_payload (cx_jose cx) t = Inr p"
    and url: "bs_parse_url (cx_schemas cx) [] = None"
  obtains rs iss e request' where "au_replay A = Some rs" and "verified_client cx A rs algs s s' request iss"
    and "header_value (js_string iss) = Some e" and "map_of (sq_headers request') AUTHENTICATED_ENTITY = Some e"
    and "inner s' request' = Some (Inr response)"
proof -
  from created have none: "find (\<lambda>m. m \<noteq> ''none'' \<and> m \<noteq> ''private_key_jwt'') methods = None" "methods \<noteq> []"
    by (auto simp: createAuthenticatedHandler_def split: if_splits option.splits)
  from none(1) have "\<forall>x \<in> set methods. x = ''none'' \<or> x = ''private_key_jwt''" unfolding find_None_iff by blast
  with hd_in_set [OF none(2)] methods have "''private_key_jwt'' \<in> set methods" by metis
  then obtain rs where rs: "au_replay A = Some rs" and h: "h = (\<lambda>s request. run_decision inner (authenticate cx A rs False m algs s request))"
    using created none methods by (auto simp: createAuthenticatedHandler_def split: option.splits)
  from run [unfolded h] ok obtain request' where f: "authenticate cx A rs False m algs s request = (Forward request', s')"
    and inner: "inner s' request' = Some (Inr response)" by (rule run_decision_success)
  from authenticate_forwards [OF f payload url] that [OF rs _ _ _ inner] show thesis by blast
qed

end
