(* ===== verification/Resolve_Endpoint.thy ===== *)
theory Resolve_Endpoint
  imports Mark_Endpoints Client_Auth Chain_Discovery
begin

text \<open>
  packages/authority/src/endpoints/resolve.ts: the resolve endpoint, which resolves and validates a chain for a
  client and signs what it found.

  A call of \<open>resolveTrustChains\<close> is a parameter (\<open>rv_resolve\<close>); the theorems take its results to be those of the
  state machine of \<open>Resolve_Runs\<close>. Trust mark status requests go through the client of \<open>Federation_Clients\<close>.
\<close>

section \<open>Trust marks in a response\<close>

record resolve_env =
  rv_trustAnchors :: "jsval dict option"
  rv_cached :: "(string \<Rightarrow> string list \<Rightarrow> string list \<Rightarrow> (string, string option) result) option"
  rv_requireAuth :: bool
  rv_resolve :: "string \<Rightarrow> jsval dict \<Rightarrow> (string, resolve_result) result"
  rv_chain_env :: chain_env
  rv_options :: chain_options
  rv_clients :: client_env
  rv_client_options :: client_options

definition issuer_statement :: "parsed_statement list \<Rightarrow> string \<Rightarrow> parsed_statement option" where
  "issuer_statement statements issuer =
     find (\<lambda>s. strict_eq (iss_of s) (JStr issuer) \<and> strict_eq (sub_of s) (JStr issuer)) statements"

definition local_mark_active :: "'s mark_store \<Rightarrow> 's \<Rightarrow> jsval \<Rightarrow> validated_trust_mark \<Rightarrow> number \<Rightarrow> bool" where
  "local_mark_active M st ref mark now =
     (case ms_getByJwt M st (str_of (mget ref ''trust_mark'')) of
        Inl _ \<Rightarrow> False
      | Inr None \<Rightarrow> False
      | Inr (Some record) \<Rightarrow>
          tr_active record \<and> strict_eq (mget ref ''trust_mark_type'') (JStr (tr_type record)) \<and>
          tr_subject record = vm_subject mark \<and> (case tr_expiresAt record of None \<Rightarrow> True | Some e \<Rightarrow> now < e))"

definition remote_mark_active :: "resolve_env \<Rightarrow> parsed_statement list \<Rightarrow> jsval \<Rightarrow> validated_trust_mark \<Rightarrow> bool" where
  "remote_mark_active V statements ref mark =
     (let issuerPayload = (case issuer_statement statements (vm_issuer mark) of None \<Rightarrow> [] | Some s \<Rightarrow> payload s);
          statusEndpoint = mget (mget (pget issuerPayload ''metadata'') ''federation_entity'') ''federation_trust_mark_status_endpoint'' in
      case statusEndpoint of
        JStr endpoint \<Rightarrow>
          if \<not> truthy (pget issuerPayload ''jwks'') then False
          else
            (case snd (fetchTrustMarkStatus (rv_clients V) endpoint (str_of (mget ref ''trust_mark'')) (pget issuerPayload ''jwks'')
                         (rv_client_options V)) of
               Inr (Inr status) \<Rightarrow> ts_status status = JStr ''active'' \<and> strict_eq (ts_issuer status) (JStr (vm_issuer mark))
             | _ \<Rightarrow> False)
      | _ \<Rightarrow> False)"

definition isTrustMarkActiveForResolve ::
  "'s handler_context \<Rightarrow> resolve_env \<Rightarrow> 's \<Rightarrow> parsed_statement list \<Rightarrow> number \<Rightarrow> jsval \<Rightarrow> validated_trust_mark \<Rightarrow> bool"
where
  "isTrustMarkActiveForResolve cx V st statements now ref mark =
     (case (if vm_issuer mark = cx_entityId cx then as_marks (cx_storage cx) else None) of
        Some M \<Rightarrow> local_mark_active M st ref mark now
      | None \<Rightarrow> remote_mark_active V statements ref mark)"

text \<open>The loop over the references of the leaf; \<open>used\<close> is \<open>usedValidatedIndexes\<close>.\<close>

fun active_marks ::
  "(jsval \<Rightarrow> validated_trust_mark \<Rightarrow> bool) \<Rightarrow> validated_trust_mark list \<Rightarrow> nat list \<Rightarrow> jsval list \<Rightarrow> (jsval \<times> validated_trust_mark) list"
where
  "active_marks active' marks used [] = []"
| "active_marks active' marks used (ref # refs) =
     (case find (\<lambda>i. i \<notin> set used \<and> strict_eq (mget ref ''trust_mark_type'') (JStr (vm_type (marks ! i)))) [0..<length marks] of
        None \<Rightarrow> active_marks active' marks used refs
      | Some i \<Rightarrow>
          (if active' ref (marks ! i) then [(ref, marks ! i)] else []) @ active_marks active' marks (i # used) refs)"

definition resolveActiveTrustMarks ::
  "'s handler_context \<Rightarrow> resolve_env \<Rightarrow> 's \<Rightarrow> parsed_statement list \<Rightarrow> validated_trust_mark list \<Rightarrow> number \<Rightarrow>
   (jsval \<times> validated_trust_mark) list"
where
  "resolveActiveTrustMarks cx V st statements marks now =
     (if length marks = 0 then []
      else
        (let leafTrustMarks = (case statements of [] \<Rightarrow> JUndef | s # _ \<Rightarrow> pget (payload s) ''trust_marks'') in
         active_marks (isTrustMarkActiveForResolve cx V st statements now) marks [] (items leafTrustMarks)))"

section \<open>The handler\<close>

text \<open>The anchors of the request that are configured; \<open>None\<close> when one of them is no entity identifier.\<close>

definition usable_anchors :: "'s handler_context \<Rightarrow> jsval dict \<Rightarrow> string list \<Rightarrow> string list option" where
  "usable_anchors cx anchors tas =
     (if list_ex (\<lambda>ta. \<not> valid_entity cx ta) tas then None else Some (filter (\<lambda>ta. map_of anchors ta \<noteq> None) tas))"

definition requested_anchors :: "jsval dict \<Rightarrow> string list \<Rightarrow> jsval dict" where
  "requested_anchors anchors usable =
     foldl (\<lambda>m ta. case map_of anchors ta of None \<Rightarrow> m | Some d \<Rightarrow> AList.update ta d m) [] usable"

text \<open>\<open>et in resolvedMetadata\<close> also finds what an object inherits. The inherited functions are not printed, and
  assigning \<open>__proto__\<close> adds no member.\<close>

definition inherited_functions :: "string list" where
  "inherited_functions =
     [''constructor'', ''toString'', ''toLocaleString'', ''valueOf'', ''hasOwnProperty'', ''isPrototypeOf'',
      ''propertyIsEnumerable'', ''__defineGetter__'', ''__defineSetter__'', ''__lookupGetter__'', ''__lookupSetter__'']"

definition filter_types :: "metadata \<Rightarrow> string list \<Rightarrow> metadata option" where
  "filter_types md types =
     (if length types = 0 then Some md
      else
        (let own = foldl (\<lambda>m et. case map_of md et of None \<Rightarrow> m | Some v \<Rightarrow> if et = ''__proto__'' then m else AList.update et v m) [] types
         in if own = [] \<and> \<not> list_ex (\<lambda>et. et \<in> set inherited_functions) types then None else Some own))"

definition metadata_json :: "metadata \<Rightarrow> jsval" where
  "metadata_json md = JObj (map (\<lambda>(t, m). (t, JObj m)) md)"

text \<open>The earliest expiry; \<open>None\<close> is \<open>NaN\<close>, which is below nothing and prints as \<open>null\<close>.\<close>

definition resolve_exp :: "number option \<Rightarrow> (jsval \<times> validated_trust_mark) list \<Rightarrow> number option" where
  "resolve_exp expiresAt active' =
     foldl (\<lambda>e (_, mark). case (e, vm_expiresAt mark) of (Some n, Some m) \<Rightarrow> Some (if m < n then m else n) | _ \<Rightarrow> e) expiresAt active'"

definition resolve_payload ::
  "'s handler_context \<Rightarrow> string \<Rightarrow> trust_chain \<Rightarrow> metadata \<Rightarrow> (jsval \<times> validated_trust_mark) list \<Rightarrow> string option \<Rightarrow> jsval dict"
where
  "resolve_payload cx sub chain md active' rawEntity =
     [(''iss'', JStr (cx_entityId cx)), (''sub'', JStr sub), (''iat'', JNum (cx_now cx)),
      (''exp'', case resolve_exp (tc_expiresAt chain) active' of Some n \<Rightarrow> JNum n | None \<Rightarrow> JNull),
      (''metadata'', metadata_json md), (''trust_chain'', string_array (tc_statements chain))] @
     (case rawEntity of None \<Rightarrow> [] | Some e \<Rightarrow> [(''aud'', JStr e)]) @
     (if active' = [] then [] else [(''trust_marks'', JArr (map fst active'))])"

definition issuer_chain_header :: "'s handler_context \<Rightarrow> resolve_env \<Rightarrow> jsval dict \<Rightarrow> jsval dict" where
  "issuer_chain_header cx V anchors =
     (if map_of anchors (cx_entityId cx) \<noteq> None then []
      else
        (case rv_resolve V (cx_entityId cx) anchors of
           Inl _ \<Rightarrow> []
         | Inr res \<Rightarrow> (case rr_chains res of [] \<Rightarrow> [] | c # _ \<Rightarrow> [(''trust_chain'', string_array (tc_statements c))])))"

definition no_valid_chain :: server_response where
  "no_valid_chain = errorResponse 404 ''not_found'' ''No valid trust chain found''"

text \<open>The body of the \<open>try\<close>.\<close>

definition fresh_resolution ::
  "'s handler_context \<Rightarrow> resolve_env \<Rightarrow> 's \<Rightarrow> string \<Rightarrow> jsval dict \<Rightarrow> string list \<Rightarrow> string option \<Rightarrow> (authority_error, server_response) result"
where
  "fresh_resolution cx V st sub anchors types rawEntity =
     (case rethrow (rv_resolve V sub anchors) of
        Inl e \<Rightarrow> Inl e
      | Inr res \<Rightarrow>
     (case rr_chains res of
        [] \<Rightarrow> Inr no_valid_chain
      | chain # _ \<Rightarrow>
     (case validateTrustChain (rv_chain_env V) (tc_statements chain) anchors (rv_options V) of
        Invalid _ \<Rightarrow> Inr no_valid_chain
      | Valid vc \<Rightarrow>
     (case filter_types (vc_resolvedMetadata vc) types of
        None \<Rightarrow> Inr (errorResponse 404 ''not_found'' ''No matching entity types found'')
      | Some md \<Rightarrow>
     (case cx_keySet cx of
        Inl e \<Rightarrow> Inl (Thrown e)
      | Inr (signer, _) \<Rightarrow>
          (let active' = resolveActiveTrustMarks cx V st (vc_statements vc) (vc_trustMarks vc) (cx_now cx) in
           case rethrow (signEntityStatement (resolve_payload cx sub chain md active' rawEntity) signer
                  \<lparr>so_alg = None, so_typ = Some RESOLVE_RESPONSE_TYP, so_extraHeaders = issuer_chain_header cx V anchors\<rparr>) of
             Inl e \<Rightarrow> Inl e
           | Inr jwt \<Rightarrow> Inr (jwtResponse jwt MEDIA_RESOLVE_RESPONSE)))))))"

definition unknown_anchor_response :: server_response where
  "unknown_anchor_response = errorResponse 404 ''invalid_trust_anchor'' ''Unknown trust anchor''"

text \<open>The cached answer, or why there is no fresh resolution; \<open>Inr None\<close> goes on.\<close>

definition cached_resolution ::
  "resolve_env \<Rightarrow> string \<Rightarrow> string list \<Rightarrow> string list \<Rightarrow> bool \<Rightarrow> (authority_error, server_response option) result"
where
  "cached_resolution V sub usable types isAuthenticated =
     (case rv_cached V of
        None \<Rightarrow>
          Inr (if \<not> isAuthenticated \<and> rv_requireAuth V
               then Some (errorResponse 404 ''not_found'' ''Fresh resolution requires authentication'') else None)
      | Some lookup \<Rightarrow>
          (case rethrow (lookup sub usable types) of
             Inl e \<Rightarrow> Inl e
           | Inr (Some jwt) \<Rightarrow> Inr (Some (jwtResponse jwt MEDIA_RESOLVE_RESPONSE))
           | Inr None \<Rightarrow>
               Inr (if \<not> isAuthenticated \<and> rv_requireAuth V
                    then Some (errorResponse 404 ''not_found'' ''No cached resolution available; fresh resolution requires authentication'')
                    else None)))"

definition createResolveHandler ::
  "'s handler_context \<Rightarrow> resolve_env \<Rightarrow> 's \<Rightarrow> server_request \<Rightarrow> (authority_error, server_response) result"
where
  "createResolveHandler cx V st request =
     (case requireMethod request ''GET'' of
        Some methodError \<Rightarrow> Inr methodError
      | None \<Rightarrow>
     (let tas = all_params (sq_query request) ''trust_anchor''; types = all_params (sq_query request) ''entity_type'' in
      case sub_param cx (sq_query request) of
        None \<Rightarrow> Inr invalid_sub
      | Some sub \<Rightarrow>
     if length tas = 0 then Inr (errorResponse 400 ''invalid_request'' (''Missing '' @ quoted ''trust_anchor'' @ '' parameter''))
     else
     (let rawEntity = some_nonempty (map_of (sq_headers request) AUTHENTICATED_ENTITY) in
      if (case rawEntity of None \<Rightarrow> False | Some e \<Rightarrow> \<not> valid_entity cx e)
      then Inr (errorResponse 400 ''invalid_request'' ''Invalid X-Authenticated-Entity header value'')
      else
     (case rv_trustAnchors V of
        None \<Rightarrow> Inr (errorResponse 404 ''invalid_trust_anchor'' ''No trust anchors configured'')
      | Some anchors \<Rightarrow>
     (case usable_anchors cx anchors tas of
        None \<Rightarrow> Inr unknown_anchor_response
      | Some usable \<Rightarrow>
     if length usable = 0 then Inr unknown_anchor_response
     else
     (case cached_resolution V sub usable types (rawEntity \<noteq> None) of
        Inl e \<Rightarrow> Inl e
      | Inr (Some response) \<Rightarrow> Inr response
      | Inr None \<Rightarrow>
          Inr (or_server_error ''Failed to resolve entity''
            (fresh_resolution cx V st sub (requested_anchors anchors usable) types rawEntity))))))))"

section \<open>What a response says\<close>

lemma find_index: "find P [0..<n] = Some i \<Longrightarrow> P i \<and> i < n"
  by (auto simp: find_Some_iff)

text \<open>Each reported reference is one of the leaf's, active, and paired with a validated mark of its type; a validated mark
  accounts for one reference at most.\<close>

lemma active_marks_sound:
  "(ref, mark) \<in> set (active_marks act marks used refs) \<Longrightarrow>
   ref \<in> set refs \<and> mark \<in> set marks \<and> mget ref ''trust_mark_type'' = JStr (vm_type mark) \<and> act ref mark"
proof (induction act marks used refs rule: active_marks.induct)
  case (2 act marks used r refs)
  show ?case
  proof (cases "find (\<lambda>i. i \<notin> set used \<and> strict_eq (mget r ''trust_mark_type'') (JStr (vm_type (marks ! i)))) [0..<length marks]")
    case None
    with 2 show ?thesis by simp
  next
    case (Some i)
    with 2 find_index [OF Some] show ?thesis by (auto split: if_splits)
  qed
qed simp

lemma active_marks_distinct:
  "\<exists>is. distinct is \<and> set is \<subseteq> {..<length marks} - set used \<and> map snd (active_marks act marks used refs) = map ((!) marks) is"
proof (induction act marks used refs rule: active_marks.induct)
  case (1 act marks used)
  show ?case by (rule exI [of _ "[]"]) simp
next
  case (2 act marks used r refs)
  show ?case
  proof (cases "find (\<lambda>i. i \<notin> set used \<and> strict_eq (mget r ''trust_mark_type'') (JStr (vm_type (marks ! i)))) [0..<length marks]")
    case None
    with 2 show ?thesis by simp
  next
    case (Some i)
    obtain is' where "distinct is'" "set is' \<subseteq> {..<length marks} - set (i # used)"
      "map snd (active_marks act marks (i # used) refs) = map ((!) marks) is'" using 2(2) [OF Some] by blast
    with Some find_index [OF Some] show ?thesis
      by (cases "act r (marks ! i)") (fastforce intro: exI [of _ "i # is'"], fastforce intro: exI [of _ is'])
  qed
qed

lemma resolve_exp_le:
  "resolve_exp e active' = Some m \<Longrightarrow>
   (\<exists>n. e = Some n \<and> m \<le> n) \<and> (\<forall>(ref, mark) \<in> set active'. \<forall>x. vm_expiresAt mark = Some x \<longrightarrow> m \<le> x)"
proof (induction active' arbitrary: e)
  case (Cons a active')
  obtain ref mark where a: "a = (ref, mark)" by (cases a)
  let ?e = "case (e, vm_expiresAt mark) of (Some n, Some m) \<Rightarrow> Some (if m < n then m else n) | _ \<Rightarrow> e"
  have "resolve_exp ?e active' = Some m" using Cons.prems by (simp add: resolve_exp_def a)
  from Cons.IH [OF this] show ?case by (auto simp: a split: option.splits if_splits)
qed (simp add: resolve_exp_def)

lemma decode_all_Some:
  assumes "length ds = length jwts" and "\<forall>j < length jwts. decodeEntityStatement J (jwts ! j) = Inr (ds ! j)"
  shows "decode_all J jwts = Some ds"
proof -
  have "map (decodeEntityStatement J) jwts = map Inr ds" using assms by (intro nth_equalityI) auto
  then show ?thesis by (simp add: decode_all_def list_all_iff comp_def)
qed

lemma resolved_expires:
  assumes "resolves C R" and "tc \<in> set (rr_chains R)"
  obtains ds where "decode_all (rc_jose C) (tc_statements tc) = Some ds" and "tc_expiresAt tc = resolved_expiry ds"
  using assms(1)
proof cases
  case (at_once ab)
  from at_once assms(2) obtain leaf d where "decodeEntityStatement (rc_jose C) leaf = Inr d"
    "tc_statements tc = [leaf]" "tc_expiresAt tc = resolved_expiry [d]"
    by (auto simp: resolveTrustChains_def Let_def split: if_splits outcome.splits sum.splits prod.splits call_result.splits)
  with that [of "[d]"] show thesis by (simp add: decode_all_def)
next
  case (after_run ab st0 es st)
  have "tc \<in> set (whole_walk C)"
    using finished_walk [OF after_run(2,3,4)] assms(2) after_run(1) by (metis mset_subset_eqD set_mset_mset)
  then obtain leaf ups ta where "tc \<in> set (finished_chain C ta (leaf # ups))" unfolding whole_walk_paths by blast
  with that show thesis by (auto simp: finished_chain_def split: option.splits dest: sym)
qed

lemma chain_expiry_agrees:
  assumes "resolves C R" and "tc \<in> set (rr_chains R)" and "env_jose E = rc_jose C"
    and "validateTrustChain E (tc_statements tc) anchors options = Valid vc" and "tc_expiresAt tc = Some n"
  shows "n = vc_expiresAt vc"
proof -
  obtain pending where run: "validateTrustChainImpl E options (tc_statements tc) anchors True no_stage = (Valid vc, pending)"
    using validateTrustChain_Impl [OF assms(4)] by blast
  note v = valid_chain_links [OF run]
  obtain ds where ds: "decode_all (rc_jose C) (tc_statements tc) = Some ds" "tc_expiresAt tc = resolved_expiry ds"
    using assms(1,2) by (rule resolved_expires)
  have "ds = vc_statements vc" using decode_all_Some [OF v(2,3)] ds(1) assms(3) by simp
  then show ?thesis using ds(2) assms(5) v(11) by (simp add: resolved_expiry_def split: if_splits)
qed

lemma requested_anchors_sub:
  "map_of (requested_anchors anchors usable) ta = Some d \<Longrightarrow> ta \<in> set usable \<and> map_of anchors ta = Some d"
proof -
  have "map_of (foldl (\<lambda>m ta. case map_of anchors ta of None \<Rightarrow> m | Some d \<Rightarrow> AList.update ta d m) m usable) ta = Some d \<Longrightarrow>
    map_of m ta = Some d \<or> ta \<in> set usable \<and> map_of anchors ta = Some d" for m
  proof (induction usable arbitrary: m)
    case (Cons u us)
    let ?m = "case map_of anchors u of None \<Rightarrow> m | Some d \<Rightarrow> AList.update u d m"
    have "map_of ?m ta = Some d \<or> ta \<in> set us \<and> map_of anchors ta = Some d" using Cons.IH [of ?m] Cons.prems by simp
    then show ?case by (auto simp: AList.update_conv split: option.splits if_splits)
  qed simp
  then show "map_of (requested_anchors anchors usable) ta = Some d \<Longrightarrow> ta \<in> set usable \<and> map_of anchors ta = Some d"
    unfolding requested_anchors_def by fastforce
qed

lemma filter_types_sub:
  assumes "filter_types md types = Some md'" and "map_of md' t = Some m"
  shows "map_of md t = Some m \<and> (types = [] \<or> t \<in> set types)"
proof (cases "types = []")
  case False
  have "map_of (foldl (\<lambda>m et. case map_of md et of None \<Rightarrow> m | Some v \<Rightarrow> if et = ''__proto__'' then m else AList.update et v m) acc types) t = Some m \<Longrightarrow>
    map_of acc t = Some m \<or> map_of md t = Some m \<and> t \<in> set types" for acc
  proof (induction types arbitrary: acc)
    case (Cons u us)
    let ?m = "case map_of md u of None \<Rightarrow> acc | Some v \<Rightarrow> if u = ''__proto__'' then acc else AList.update u v acc"
    have "map_of ?m t = Some m \<or> map_of md t = Some m \<and> t \<in> set us" using Cons.IH [of ?m] Cons.prems by simp
    then show ?case by (auto simp: AList.update_conv split: option.splits if_splits)
  qed simp
  from this [of "[]"] assms False show ?thesis by (auto simp: filter_types_def Let_def split: if_splits)
qed (use assms in \<open>simp add: filter_types_def\<close>)

lemma fresh_success:
  assumes "fresh_resolution cx V st sub anchors types rawEntity = Inr response" and "sp_status response = 200"
  obtains res chain rest vc md signer ks jwt where "rv_resolve V sub anchors = Inr res" and "rr_chains res = chain # rest"
    and "validateTrustChain (rv_chain_env V) (tc_statements chain) anchors (rv_options V) = Valid vc"
    and "filter_types (vc_resolvedMetadata vc) types = Some md" and "cx_keySet cx = Inr (signer, ks)"
    and "signEntityStatement (resolve_payload cx sub chain md
        (resolveActiveTrustMarks cx V st (vc_statements vc) (vc_trustMarks vc) (cx_now cx)) rawEntity) signer
        \<lparr>so_alg = None, so_typ = Some RESOLVE_RESPONSE_TYP, so_extraHeaders = issuer_chain_header cx V anchors\<rparr> = Inr jwt"
    and "response = jwtResponse jwt MEDIA_RESOLVE_RESPONSE"
proof -
  from assms obtain res where res: "rv_resolve V sub anchors = Inr res"
    by (cases "rv_resolve V sub anchors") (auto simp: fresh_resolution_def rethrow_def)
  from assms res obtain chain rest where chain: "rr_chains res = chain # rest"
    by (cases "rr_chains res") (auto simp: fresh_resolution_def rethrow_def no_valid_chain_def)
  from assms res chain obtain vc where vc: "validateTrustChain (rv_chain_env V) (tc_statements chain) anchors (rv_options V) = Valid vc"
    by (cases "validateTrustChain (rv_chain_env V) (tc_statements chain) anchors (rv_options V)")
       (auto simp: fresh_resolution_def rethrow_def no_valid_chain_def)
  from assms res chain vc obtain md where md: "filter_types (vc_resolvedMetadata vc) types = Some md"
    by (cases "filter_types (vc_resolvedMetadata vc) types") (auto simp: fresh_resolution_def rethrow_def)
  from assms res chain vc md obtain signer ks where key: "cx_keySet cx = Inr (signer, ks)"
    by (cases "cx_keySet cx") (auto simp: fresh_resolution_def rethrow_def)
  show thesis
    using assms res chain vc md key that
    by (cases "signEntityStatement (resolve_payload cx sub chain md
        (resolveActiveTrustMarks cx V st (vc_statements vc) (vc_trustMarks vc) (cx_now cx)) rawEntity) signer
        \<lparr>so_alg = None, so_typ = Some RESOLVE_RESPONSE_TYP, so_extraHeaders = issuer_chain_header cx V anchors\<rparr>")
       (auto simp: fresh_resolution_def rethrow_def Let_def)
qed

lemma resolve_success:
  assumes run: "createResolveHandler cx V st request = Inr response" and ok: "sp_status response = 200" and cached: "rv_cached V = None"
  obtains sub all usable where "sub_param cx (sq_query request) = Some sub" and "rv_trustAnchors V = Some all"
    and "usable_anchors cx all (all_params (sq_query request) ''trust_anchor'') = Some usable"
    and "rv_requireAuth V \<longrightarrow> some_nonempty (map_of (sq_headers request) AUTHENTICATED_ENTITY) \<noteq> None"
    and "fresh_resolution cx V st sub (requested_anchors all usable) (all_params (sq_query request) ''entity_type'')
      (some_nonempty (map_of (sq_headers request) AUTHENTICATED_ENTITY)) = Inr response"
proof -
  let ?raw = "some_nonempty (map_of (sq_headers request) AUTHENTICATED_ENTITY)"
  let ?tas = "all_params (sq_query request) ''trust_anchor''" and ?types = "all_params (sq_query request) ''entity_type''"
  have get: "requireMethod request ''GET'' = None"
    using run ok requireMethod_status by (cases "requireMethod request ''GET''") (auto simp: createResolveHandler_def)
  from run ok get obtain sub where sub: "sub_param cx (sq_query request) = Some sub"
    by (cases "sub_param cx (sq_query request)") (auto simp: createResolveHandler_def)
  have tas: "length ?tas \<noteq> 0" and raw: "\<not> (case ?raw of None \<Rightarrow> False | Some e \<Rightarrow> \<not> valid_entity cx e)"
    using run ok get sub by (auto simp: createResolveHandler_def Let_def split: if_splits)
  from run ok get sub tas raw obtain all where all: "rv_trustAnchors V = Some all"
    by (cases "rv_trustAnchors V") (auto simp: createResolveHandler_def Let_def)
  from run ok get sub tas raw all obtain usable where usable: "usable_anchors cx all ?tas = Some usable" "length usable \<noteq> 0"
    by (cases "usable_anchors cx all ?tas") (auto simp: createResolveHandler_def Let_def unknown_anchor_response_def split: if_splits)
  have auth: "rv_requireAuth V \<longrightarrow> ?raw \<noteq> None"
    using run ok get sub tas raw all usable
    by (auto simp: createResolveHandler_def Let_def cached_resolution_def cached split: if_splits)
  have "response = or_server_error ''Failed to resolve entity''
      (fresh_resolution cx V st sub (requested_anchors all usable) ?types ?raw)"
    using run get sub tas raw all usable auth by (auto simp: createResolveHandler_def Let_def cached_resolution_def cached)
  then have "fresh_resolution cx V st sub (requested_anchors all usable) ?types ?raw = Inr response"
    using ok by (cases "fresh_resolution cx V st sub (requested_anchors all usable) ?types ?raw")
       (auto simp: or_server_error_def)
  with that [OF sub all usable(1) auth] show thesis .
qed

lemma resolve_payload_sel:
  "pget (resolve_payload cx sub chain md active' e) ''iss'' = JStr (cx_entityId cx)"
  "pget (resolve_payload cx sub chain md active' e) ''sub'' = JStr sub"
  "pget (resolve_payload cx sub chain md active' e) ''exp'' = (case resolve_exp (tc_expiresAt chain) active' of Some n \<Rightarrow> JNum n | None \<Rightarrow> JNull)"
  "pget (resolve_payload cx sub chain md active' e) ''metadata'' = metadata_json md"
  "pget (resolve_payload cx sub chain md active' e) ''trust_chain'' = string_array (tc_statements chain)"
  "pget (resolve_payload cx sub chain md active' e) ''aud'' = (case e of None \<Rightarrow> JUndef | Some x \<Rightarrow> JStr x)"
  "pget (resolve_payload cx sub chain md active' e) ''trust_marks'' = (if active' = [] then JUndef else JArr (map fst active'))"
  by (auto simp: resolve_payload_def pget_def split: option.splits)

text \<open>A trust mark the response may report: a reference of the leaf, paired with a validated mark of its type that is
  not expired before the response, and found active.\<close>

definition reported_mark ::
  "'s handler_context \<Rightarrow> resolve_env \<Rightarrow> 's \<Rightarrow> validated_chain \<Rightarrow> jsval \<Rightarrow> jsval \<Rightarrow> bool"
where
  "reported_mark cx V st vc expiry ref \<longleftrightarrow>
     ref \<in> set (items (pget (payload (hd (vc_statements vc))) ''trust_marks'')) \<and>
     (\<exists>mark \<in> set (vc_trustMarks vc). mget ref ''trust_mark_type'' = JStr (vm_type mark) \<and>
        isTrustMarkActiveForResolve cx V st (vc_statements vc) (cx_now cx) ref mark \<and>
        (\<forall>e x. expiry = JNum e \<and> vm_expiresAt mark = Some x \<longrightarrow> e \<le> x))"

lemma reported_marks_sound:
  assumes act: "active' = resolveActiveTrustMarks cx V st (vc_statements vc) (vc_trustMarks vc) (cx_now cx)"
    and "ref \<in> set (map fst active')" and "resolve_exp e active' = x"
  shows "reported_mark cx V st vc (case x of Some n \<Rightarrow> JNum n | None \<Rightarrow> JNull) ref"
proof -
  from assms(2) obtain mark where m: "(ref, mark) \<in> set active'" by auto
  with act have "(ref, mark) \<in> set (active_marks (isTrustMarkActiveForResolve cx V st (vc_statements vc) (cx_now cx)) (vc_trustMarks vc) []
      (items (case vc_statements vc of [] \<Rightarrow> JUndef | s # _ \<Rightarrow> pget (payload s) ''trust_marks'')))"
    by (auto simp: resolveActiveTrustMarks_def Let_def split: if_splits)
  from active_marks_sound [OF this] have s: "ref \<in> set (items (pget (payload (hd (vc_statements vc))) ''trust_marks''))"
    "mark \<in> set (vc_trustMarks vc)" "mget ref ''trust_mark_type'' = JStr (vm_type mark)"
    "isTrustMarkActiveForResolve cx V st (vc_statements vc) (cx_now cx) ref mark"
    by (auto split: list.splits)
  have "\<forall>n y. x = Some n \<and> vm_expiresAt mark = Some y \<longrightarrow> n \<le> y" using resolve_exp_le assms(3) m by fastforce
  with s show ?thesis unfolding reported_mark_def by (auto split: option.splits)
qed

text \<open>
  C7: A resolve response speaks for a chain that validates. A fresh successful answer to a request for \<open>sub\<close> is signed
  by the authority and names a resolved chain whose validation, against only those anchors that the request names and the
  authority trusts, succeeds and is about \<open>sub\<close>; its metadata are resolved metadata of that chain, of the
  requested entity types if any are requested; it expires no later than the chain; its trust marks are marks of the
  leaf that were found active, and it expires no later than they do; its audience is the authenticated client; and where fresh
  resolution is restricted, there is one.
\<close>
theorem resolve_response_sound:
  assumes resolved: "\<forall>e as res. rv_resolve V e as = Inr res \<longrightarrow> resolves (conf\<lparr>rc_entityId := e, rc_anchors := as\<rparr>) res"
    and jose: "env_jose (rv_chain_env V) = rc_jose conf"
    and run: "createResolveHandler cx V st request = Inr response" "sp_status response = 200" and cached: "rv_cached V = None"
  shows "\<exists>sub anchors stmts vc md p signer ks h. param (sq_query request) ''sub'' = Some sub \<and>
    (\<forall>ta d. map_of anchors ta = Some d \<longrightarrow> ta \<in> set (all_params (sq_query request) ''trust_anchor'') \<and>
       (\<exists>all. rv_trustAnchors V = Some all \<and> map_of all ta = Some d)) \<and>
    validateTrustChain (rv_chain_env V) stmts anchors (rv_options V) = Valid vc \<and> vc_entityId vc = JStr sub \<and>
    cx_keySet cx = Inr (signer, ks) \<and> response = jwtResponse (sign_jwt signer p h) MEDIA_RESOLVE_RESPONSE \<and>
    pget p ''iss'' = JStr (cx_entityId cx) \<and> pget p ''sub'' = JStr sub \<and> pget p ''trust_chain'' = string_array stmts \<and>
    pget p ''metadata'' = metadata_json md \<and>
    (\<forall>t m. map_of md t = Some m \<longrightarrow> map_of (vc_resolvedMetadata vc) t = Some m \<and>
       (all_params (sq_query request) ''entity_type'' = [] \<or> t \<in> set (all_params (sq_query request) ''entity_type''))) \<and>
    (\<forall>e. pget p ''exp'' = JNum e \<longrightarrow> e \<le> vc_expiresAt vc) \<and>
    (\<forall>ref \<in> set (items (pget p ''trust_marks'')). reported_mark cx V st vc (pget p ''exp'') ref) \<and>
    pget p ''aud'' = (case some_nonempty (map_of (sq_headers request) AUTHENTICATED_ENTITY) of None \<Rightarrow> JUndef | Some e \<Rightarrow> JStr e) \<and>
    (rv_requireAuth V \<longrightarrow> pget p ''aud'' \<noteq> JUndef)"
proof -
  obtain sub all usable where r: "sub_param cx (sq_query request) = Some sub" "rv_trustAnchors V = Some all"
      "usable_anchors cx all (all_params (sq_query request) ''trust_anchor'') = Some usable"
      "rv_requireAuth V \<longrightarrow> some_nonempty (map_of (sq_headers request) AUTHENTICATED_ENTITY) \<noteq> None"
    and fresh: "fresh_resolution cx V st sub (requested_anchors all usable) (all_params (sq_query request) ''entity_type'')
      (some_nonempty (map_of (sq_headers request) AUTHENTICATED_ENTITY)) = Inr response"
    using resolve_success [OF run cached] .
  let ?as = "requested_anchors all usable" and ?raw = "some_nonempty (map_of (sq_headers request) AUTHENTICATED_ENTITY)"
  obtain res chain rest vc md signer ks jwt where f: "rv_resolve V sub ?as = Inr res" "rr_chains res = chain # rest"
      "validateTrustChain (rv_chain_env V) (tc_statements chain) ?as (rv_options V) = Valid vc"
      "filter_types (vc_resolvedMetadata vc) (all_params (sq_query request) ''entity_type'') = Some md" "cx_keySet cx = Inr (signer, ks)"
    and sign: "signEntityStatement (resolve_payload cx sub chain md
        (resolveActiveTrustMarks cx V st (vc_statements vc) (vc_trustMarks vc) (cx_now cx)) ?raw) signer
        \<lparr>so_alg = None, so_typ = Some RESOLVE_RESPONSE_TYP, so_extraHeaders = issuer_chain_header cx V ?as\<rparr> = Inr jwt"
    and resp: "response = jwtResponse jwt MEDIA_RESOLVE_RESPONSE"
    using fresh_success [OF fresh run(2)] .
  let ?act = "resolveActiveTrustMarks cx V st (vc_statements vc) (vc_trustMarks vc) (cx_now cx)"
  let ?p = "resolve_payload cx sub chain md ?act ?raw" and ?C = "conf\<lparr>rc_entityId := sub, rc_anchors := ?as\<rparr>"
  have R: "resolves ?C res" using resolved f(1) by blast
  have tc: "chain \<in> set (rr_chains res)" using f(2) by simp
  obtain h where h: "jwt = sign_jwt signer ?p h"
    using sign by (auto simp: signEntityStatement_def Let_def split: sum.splits if_splits)
  have about: "vc_entityId vc = JStr sub" using resolved_and_valid(1) [OF R tc, of "rv_chain_env V" "rv_options V" vc] jose f(3) by simp
  have anchors: "\<forall>ta d. map_of ?as ta = Some d \<longrightarrow> ta \<in> set (all_params (sq_query request) ''trust_anchor'') \<and>
       (\<exists>all. rv_trustAnchors V = Some all \<and> map_of all ta = Some d)"
  proof (intro allI impI)
    fix ta d assume "map_of ?as ta = Some d"
    from requested_anchors_sub [OF this] have ta: "ta \<in> set usable" "map_of all ta = Some d" by blast+
    have "set usable \<subseteq> set (all_params (sq_query request) ''trust_anchor'')"
      using r(3) by (auto simp: usable_anchors_def split: if_splits)
    with ta r(2) show "ta \<in> set (all_params (sq_query request) ''trust_anchor'') \<and>
       (\<exists>all. rv_trustAnchors V = Some all \<and> map_of all ta = Some d)" by auto
  qed
  have exp: "e \<le> vc_expiresAt vc" if "pget ?p ''exp'' = JNum e" for e
  proof -
    from that obtain n where n: "resolve_exp (tc_expiresAt chain) ?act = Some e" "tc_expiresAt chain = Some n" "e \<le> n"
      using resolve_exp_le [of "tc_expiresAt chain" ?act e] by (auto simp: resolve_payload_sel split: option.splits)
    then show ?thesis using chain_expiry_agrees [OF R tc _ f(3) n(2)] jose by simp
  qed
  have marks: "\<forall>ref \<in> set (items (pget ?p ''trust_marks'')). reported_mark cx V st vc (pget ?p ''exp'') ref"
    using reported_marks_sound [OF refl _ refl, of _ cx V st vc] by (auto simp: resolve_payload_sel)
  have aud: "pget ?p ''aud'' = (case ?raw of None \<Rightarrow> JUndef | Some e \<Rightarrow> JStr e)" by (rule resolve_payload_sel)
  have types: "\<forall>t m. map_of md t = Some m \<longrightarrow> map_of (vc_resolvedMetadata vc) t = Some m \<and>
       (all_params (sq_query request) ''entity_type'' = [] \<or> t \<in> set (all_params (sq_query request) ''entity_type''))"
    using filter_types_sub [OF f(4)] by blast
  have sub: "param (sq_query request) ''sub'' = Some sub" using r(1) by (auto simp: sub_param_def split: option.splits if_splits)
  have req: "rv_requireAuth V \<longrightarrow> pget ?p ''aud'' \<noteq> JUndef" using r(4) aud by (auto split: option.splits)
  show ?thesis
    by (rule exI [of _ sub], rule exI [of _ ?as], rule exI [of _ "tc_statements chain"], rule exI [of _ vc], rule exI [of _ md],
        rule exI [of _ ?p], rule exI [of _ signer], rule exI [of _ ks], rule exI [of _ h], intro conjI)
       (fact sub anchors f(3,5) about types marks aud req resolve_payload_sel | simp add: exp resp h)+
qed

definition example_resolver :: resolve_env where
  "example_resolver =
     \<lparr>rv_trustAnchors = Some two_anchors, rv_cached = None, rv_requireAuth = True,
      rv_resolve = (\<lambda>e as. if e = ''https://rp'' \<and> as = two_anchors then Inr two_anchor_result else Inl ''offline''),
      rv_chain_env = two_anchor_env, rv_options = example_options,
      rv_clients = example_clients, rv_client_options = example_client_options\<rparr>"

definition example_resolve_request :: server_request where
  "example_resolve_request =
     (get_request ((''sub'', ''https://rp'') # map (\<lambda>a. (''trust_anchor'', fst a)) two_anchors))
       \<lparr>sq_headers := [(AUTHENTICATED_ENTITY, ''https://client'')]\<rparr>"

theorem resolve_response_sound_witness:
  "\<exists>response p h. createResolveHandler example_context example_resolver example_members example_resolve_request = Inr response \<and>
     response = jwtResponse (sign_jwt example_ta_signer p h) MEDIA_RESOLVE_RESPONSE \<and>
     pget p ''sub'' = JStr ''https://rp'' \<and> pget p ''aud'' = JStr ''https://client'' \<and>
     (\<exists>vc stmts anchors. validateTrustChain two_anchor_env stmts anchors example_options = Valid vc \<and> pget p ''trust_chain'' = string_array stmts)"
proof -
  have ok: "case createResolveHandler example_context example_resolver example_members example_resolve_request of
      Inl _ \<Rightarrow> False | Inr r \<Rightarrow> sp_status r = 200" by code_simp
  then obtain response where r: "createResolveHandler example_context example_resolver example_members example_resolve_request = Inr response"
    "sp_status response = 200" by (auto split: sum.splits)
  have V: "\<forall>e as res. rv_resolve example_resolver e as = Inr res \<longrightarrow> resolves (two_anchor_net\<lparr>rc_entityId := e, rc_anchors := as\<rparr>) res"
  proof (intro allI impI)
    fix e as res assume "rv_resolve example_resolver e as = Inr res"
    then have "e = ''https://rp''" "as = two_anchors" "res = two_anchor_result" by (auto simp: example_resolver_def split: if_splits)
    moreover have "two_anchor_net\<lparr>rc_entityId := ''https://rp'', rc_anchors := two_anchors\<rparr> = two_anchor_net" by (simp add: two_anchor_net_def)
    ultimately show "resolves (two_anchor_net\<lparr>rc_entityId := e, rc_anchors := as\<rparr>) res" using two_anchor_resolves by simp
  qed
  have c: "env_jose (rv_chain_env example_resolver) = rc_jose two_anchor_net" "rv_cached example_resolver = None"
    by (simp_all add: example_resolver_def two_anchor_facts)
  have q: "param (sq_query example_resolve_request) ''sub'' = Some ''https://rp''"
    "some_nonempty (map_of (sq_headers example_resolve_request) AUTHENTICATED_ENTITY) = Some ''https://client''"
    "cx_keySet example_context = Inr (example_ta_signer, example_ta_keys)"
    "rv_chain_env example_resolver = two_anchor_env" "rv_options example_resolver = example_options"
    by (simp_all add: example_resolve_request_def get_request_def param_def some_nonempty_def example_context_def example_resolver_def)
  show ?thesis using resolve_response_sound [OF V c(1) r c(2), unfolded q] r(1) by auto
qed

text \<open>Only the first resolved chain is tried: when it does not validate, the answer is that there is none.\<close>

lemma first_chain_decides:
  assumes "rv_resolve V sub anchors = Inr res" and "rr_chains res = c # cs"
    and "validateTrustChain (rv_chain_env V) (tc_statements c) anchors (rv_options V) = Invalid es"
  shows "fresh_resolution cx V st sub anchors types e = Inr no_valid_chain"
  using assms by (simp add: fresh_resolution_def rethrow_def)

text \<open>A name that every object inherits counts as a requested entity type that was found.\<close>

lemma inherited_type_found: "filter_types md [''constructor''] \<noteq> None"
  by (simp add: filter_types_def inherited_functions_def Let_def)

section \<open>Status from endpoint to client\<close>

text \<open>A response of a server as its client gets it.\<close>

definition delivered :: "(byte list \<Rightarrow> string) \<Rightarrow> server_response \<Rightarrow> response \<Rightarrow> bool" where
  "delivered decode sent r \<longleftrightarrow>
     resp_status r = sp_status sent \<and> resp_contentType r = map_of (sp_headers sent) ''Content-Type'' \<and>
     (\<forall>t. sp_body sent = JwtBody t \<longrightarrow> response_text decode r = Inr t)"

lemma status_media: "isExactContentType (Some MEDIA_TRUST_MARK_STATUS) MEDIA_TRUST_MARK_STATUS"
  by code_simp

lemma jwt_content_type: "map_of (sp_headers (jwtResponse jwt m)) ''Content-Type'' = Some m"
  by (simp add: jwtResponse_def AList.update_conv)

lemma status_claims_sel:
  "pget (status_claims cx jwt s) ''iss'' = JStr (cx_entityId cx)" "pget (status_claims cx jwt s) ''iat'' = JNum (cx_now cx)"
  "pget (status_claims cx jwt s) ''status'' = JStr (status_name s)" "pget (status_claims cx jwt s) ''exp'' = JUndef"
  by (simp_all add: status_claims_def pget_def)

lemma status_name_nonempty [simp]: "status_name s \<noteq> []"
  by (cases s) simp_all

lemma status_read:
  assumes keys: "cx_keySet cx = Inr (signer, ks)" "validateFederationKeySet signer ks = Inr ()"
    and built: "buildStatusResponse cx jwt s = Inr response" and delivery: "delivered (he_decode (ce_http X)) response r"
    and jose: "jose_reads (ce_jose X) signer ks TRUST_MARK_STATUS_TYP (status_claims cx jwt s)" and clock: "op_clock op = Some t"
    and issuer: "cx_entityId cx \<noteq> []"
  shows "read_status X (key_set_json ks) op r =
    Inr (Inr \<lparr>ts_status = JStr (status_name s), ts_issuer = JStr (cx_entityId cx), ts_issuedAt = JNum (cx_now cx)\<rparr>)"
proof -
  let ?h = "signing_header signer TRUST_MARK_STATUS_TYP" and ?p = "status_claims cx jwt s"
  have signer: "validateSigner signer = Inr ()" using keys(2) by (rule validated_key_set)
  from status_signed [OF keys(1) signer] built have response: "response = jwtResponse (sign_jwt signer ?p ?h) MEDIA_TRUST_MARK_STATUS" by simp
  have v: "verifyEntityStatement (ce_jose X) (sign_jwt signer ?p ?h) (key_set_json ks) (buildVerifyOpts TRUST_MARK_STATUS_TYP op) =
      Inr \<lparr>header = ?h, payload = ?p\<rparr>"
    unfolding buildVerifyOpts_def clock using keys(2) jose by (rule own_jwt_verifies) (simp add: unexpired_def status_claims_sel)
  have r: "resp_ok r" "resp_contentType r = Some MEDIA_TRUST_MARK_STATUS"
    "response_text (he_decode (ce_http X)) r = Inr (sign_jwt signer ?p ?h)"
    using delivery by (simp_all add: delivered_def response resp_ok_def jwt_content_type)
  show ?thesis
    unfolding read_status_def r(2) using r(1) status_media issuer
    by (simp add: r(3) v status_claims_sel Let_def)
qed

text \<open>
  The status of a mark, as the record of its issuer has it. A text that is no JWT, or whose claims do not name a type
  that is an entity identifier and a subject, is \<open>invalid\<close>, whatever is stored; so is a recorded mark that is not expired and
  whose signature does not verify under the current keys of the issuer. Another recorded mark is \<open>expired\<close> when its \<open>exp\<close> is
  not after the issuer's clock, and otherwise \<open>active\<close> or \<open>revoked\<close> as its record is.
\<close>

definition mark_expired :: "'s handler_context \<Rightarrow> jsval dict \<Rightarrow> bool" where
  "mark_expired cx p \<longleftrightarrow> pget p ''exp'' \<noteq> JUndef \<and> at_most (pget p ''exp'') (cx_now cx)"

definition mark_verifies :: "'s handler_context \<Rightarrow> jwk list \<Rightarrow> string \<Rightarrow> bool" where
  "mark_verifies cx ks jwt \<longleftrightarrow>
     (case verifyEntityStatement (cx_jose cx) jwt (key_set_json ks)
             \<lparr>clockSkewSeconds = cx_clockSkewSeconds cx, clock = cx_clock cx, expectedTyp = Some TRUST_MARK_TYP\<rparr> of
        Inl _ \<Rightarrow> False | Inr _ \<Rightarrow> True)"

definition names_mark :: "'s handler_context \<Rightarrow> jsval dict \<Rightarrow> bool" where
  "names_mark cx p \<longleftrightarrow> valid_entity_claim (bs_parse_url (cx_schemas cx)) (pget p ''trust_mark_type'') \<and>
     truthy (pget p ''trust_mark_type'') \<and> truthy (pget p ''sub'')"

definition recorded_status :: "'s handler_context \<Rightarrow> jwk list \<Rightarrow> string \<Rightarrow> jsval dict \<Rightarrow> trust_mark_record \<Rightarrow> mark_status" where
  "recorded_status cx ks jwt p r =
     (if mark_expired cx p then ExpiredMark
      else if \<not> mark_verifies cx ks jwt then InvalidMark
      else if tr_active r then ActiveMark else RevokedMark)"

definition has_status :: "'s handler_context \<Rightarrow> jwk list \<Rightarrow> memory_state \<Rightarrow> string \<Rightarrow> mark_status \<Rightarrow> bool" where
  "has_status cx ks st jwt s \<longleftrightarrow>
     (case decodeEntityStatement (cx_jose cx) jwt of
        Inl _ \<Rightarrow> s = InvalidMark
      | Inr d \<Rightarrow>
          if \<not> names_mark cx (payload d) then s = InvalidMark
          else iss_of d = JStr (cx_entityId cx) \<and>
            (\<exists>record. getByJwt st jwt = Inr (Some record) \<and> s = recorded_status cx ks jwt (payload d) record))"

lemma status_answer:
  assumes "status_of_mark cx memory_marks st jwt = Inr response" and "sp_status response = 200"
    and keys: "cx_keySet cx = Inr (signer, ks)"
  obtains s where "buildStatusResponse cx jwt s = Inr response" and "has_status cx ks st jwt s"
proof (cases "decodeEntityStatement (cx_jose cx) jwt")
  case (Inl e)
  with assms that [of InvalidMark] show thesis by (simp add: status_of_mark_def has_status_def)
next
  case (Inr d)
  let ?p = "payload d"
  show thesis
  proof (cases "names_mark cx ?p")
    case False
    with assms(1) Inr that [of InvalidMark] show thesis
      by (auto simp: status_of_mark_def has_status_def names_mark_def Let_def)
  next
    case True
    with assms(1,2) Inr have iss: "strict_eq (pget ?p ''iss'') (JStr (cx_entityId cx))"
      by (auto simp: status_of_mark_def names_mark_def Let_def split: if_splits)
    with assms(1,2) Inr True obtain r where rec: "getByJwt st jwt = Inr (Some r)"
      by (auto simp: status_of_mark_def names_mark_def Let_def split: sum.splits option.splits)
    have "buildStatusResponse cx jwt (recorded_status cx ks jwt ?p r) = Inr response"
      using assms(1) Inr True iss rec keys
      by (auto simp: status_of_mark_def names_mark_def recorded_status_def mark_expired_def mark_verifies_def Let_def split: sum.splits)
    moreover have "has_status cx ks st jwt (recorded_status cx ks jwt ?p r)"
      using Inr True iss rec by (cases "pget ?p ''iss''") (auto simp: has_status_def)
    ultimately show thesis by (rule that)
  qed
qed

text \<open>
  C20: What a client learns from the status endpoint is what the issuer has recorded. When the endpoint answers a request
  for a mark with success and the answer is delivered, the client accepts it under the key set the authority publishes,
  gets the authority as issuer and the time of the answer, and reads the status of the mark: \<open>active\<close> or \<open>revoked\<close> as the
  record of its JWT is, \<open>expired\<close> when its \<open>exp\<close> has come, and \<open>invalid\<close> when it does not verify or is no trust mark. (A mark
  whose type is no entity identifier counts as no trust mark, although the authority may have issued and recorded it.)
  A status is given only for a mark the authority itself issued and has a record of, except \<open>invalid\<close>.
\<close>
theorem status_learned_is_recorded:
  assumes keys: "cx_keySet cx = Inr (signer, ks)" "validateFederationKeySet signer ks = Inr ()" and issuer: "cx_entityId cx \<noteq> []"
    and store: "cx_storage cx = memory_adapter u ev True"
    and request: "upper (sq_method request) = ''POST''"
      "readBodyWithLimit (cx_text cx) request DEFAULT_MAX_REQUEST_BODY_BYTES = Inr (Some form)"
      "map_of (rev (cx_form cx form)) ''trust_mark'' = Some jwt" "jwt \<noteq> []"
    and answer: "createTrustMarkStatusHandler cx st request = Inr response" "sp_status response = 200"
    and delivery: "he_client (ce_http X) (status_request X endpoint jwt) = FetchReplies r" "delivered (he_decode (ce_http X)) response r"
      "check_endpoint (he_parse_url (ce_http X)) ''invalid_request'' ''Invalid endpoint URL'' ''Endpoint URL'' endpoint = None"
    and jose: "\<forall>s. jose_reads (ce_jose X) signer ks TRUST_MARK_STATUS_TYP (status_claims cx jwt s)" and clock: "op_clock op = Some t"
  shows "\<exists>s. fetchTrustMarkStatus X endpoint jwt (key_set_json ks) op = ([status_request X endpoint jwt],
      Inr (Inr \<lparr>ts_status = JStr (status_name s), ts_issuer = JStr (cx_entityId cx), ts_issuedAt = JNum (cx_now cx)\<rparr>)) \<and>
    has_status cx ks st jwt s"
proof -
  have post: "upper ''POST'' = ''POST''" by code_simp
  have nonempty: "some_nonempty (Some jwt) = Some jwt" using request(4) by (cases jwt) (simp_all add: some_nonempty_def)
  have "status_of_mark cx memory_marks st jwt = Inr response"
    using answer(1) request store nonempty by (simp add: createTrustMarkStatusHandler_def requireMethod_def post)
  then obtain s where s: "buildStatusResponse cx jwt s = Inr response" and status: "has_status cx ks st jwt s"
    using answer(2) keys(1) by (rule status_answer)
  have "fetchTrustMarkStatus X endpoint jwt (key_set_json ks) op = ([status_request X endpoint jwt],
      Inr (Inr \<lparr>ts_status = JStr (status_name s), ts_issuer = JStr (cx_entityId cx), ts_issuedAt = JNum (cx_now cx)\<rparr>))"
    using status_read [OF keys s delivery(2) jose [rule_format] clock issuer] delivery(1,3)
    by (simp add: fetchTrustMarkStatus_def Let_def)
  with status show ?thesis by blast
qed

fun status_named :: "string \<Rightarrow> mark_status" where
  "status_named n = (if n = ''active'' then ActiveMark else if n = ''expired'' then ExpiredMark
     else if n = ''revoked'' then RevokedMark else InvalidMark)"

definition example_status_signer :: jwt_signer where
  "example_status_signer = example_ta_signer\<lparr>sign_jwt := (\<lambda>p h. js_string (pget p ''status''))\<rparr>"

definition example_status_server :: "memory_state handler_context" where
  "example_status_server = example_status_context\<lparr>cx_keySet := Inr (example_status_signer, example_ta_keys)\<rparr>"

definition example_status_reply :: response where
  "example_status_reply =
     \<lparr>resp_status = 200, resp_contentType = Some MEDIA_TRUST_MARK_STATUS, resp_contentLength = None,
      resp_body = Some \<lparr>bs_chunks = [], bs_end = (False, None, False)\<rparr>\<rparr>"

definition example_status_clients :: client_env where
  "example_status_clients =
     example_clients\<lparr>ce_http := example_http\<lparr>he_client := (\<lambda>_. FetchReplies example_status_reply), he_decode := (\<lambda>_. ''revoked'')\<rparr>,
       ce_jose := \<lparr>jose_header = \<lambda>_. Inr (signing_header example_status_signer TRUST_MARK_STATUS_TYP),
         jose_payload = \<lambda>t. Inr (status_claims example_status_server ''jws'' (status_named t)),
         jose_verify = \<lambda>t _ _ _ _. Inr (status_claims example_status_server ''jws'' (status_named t))\<rparr>\<rparr>"

theorem status_learned_is_recorded_witness:
  "\<exists>s. snd (fetchTrustMarkStatus example_status_clients ''https://a'' ''jws'' (key_set_json example_ta_keys) example_client_options) =
     Inr (Inr \<lparr>ts_status = JStr (status_name s), ts_issuer = JStr ''https://ta'', ts_issuedAt = JNum 50\<rparr>)"
proof -
  let ?cx = example_status_server and ?X = example_status_clients
  have keys: "cx_keySet ?cx = Inr (example_status_signer, example_ta_keys)"
    by (simp add: example_status_server_def)
  have signer: "validateFederationKeySet example_status_signer example_ta_keys = Inr ()" "cx_entityId ?cx \<noteq> []" by code_simp+
  have store: "cx_storage ?cx = memory_adapter (\<lambda>_. True) True True"
    by (simp add: example_status_server_def example_status_context_def example_context_def)
  have request: "upper (sq_method example_status_request) = ''POST''"
    "readBodyWithLimit (cx_text ?cx) example_status_request DEFAULT_MAX_REQUEST_BODY_BYTES = Inr (Some [])"
    "map_of (rev (cx_form ?cx [])) ''trust_mark'' = Some ''jws''" "''jws'' \<noteq> []" by code_simp+
  have answer: "createTrustMarkStatusHandler ?cx example_issued example_status_request =
      Inr (jwtResponse ''revoked'' MEDIA_TRUST_MARK_STATUS)" by code_simp
  have delivery: "he_client (ce_http ?X) (status_request ?X ''https://a'' ''jws'') = FetchReplies example_status_reply"
    "delivered (he_decode (ce_http ?X)) (jwtResponse ''revoked'' MEDIA_TRUST_MARK_STATUS) example_status_reply"
    "check_endpoint (he_parse_url (ce_http ?X)) ''invalid_request'' ''Invalid endpoint URL'' ''Endpoint URL'' ''https://a'' = None"
    by (simp_all add: example_status_clients_def example_clients_def example_http_def example_url_def check_endpoint_def delivered_def
        example_status_reply_def response_text_def jwt_content_type)
  have "status_named (status_name s) = s" for s by (cases s) simp_all
  then have jose: "\<forall>s. jose_reads (ce_jose ?X) example_status_signer example_ta_keys TRUST_MARK_STATUS_TYP (status_claims ?cx ''jws'' s)"
    by (auto simp: jose_reads_def example_status_clients_def example_status_signer_def status_claims_sel Let_def signing_header_def
        simp del: status_named.simps)
  have c: "op_clock example_client_options = Some 100" by (simp add: example_client_options_def)
  have names: "cx_entityId ?cx = ''https://ta''" "cx_now ?cx = 50" by code_simp+
  show ?thesis
    using status_learned_is_recorded [OF keys signer store request answer _ delivery jose c] unfolding names by auto
qed

end
