(* ===== verification/Extended_Listing.thy ===== *)
theory Extended_Listing
  imports Authority_Endpoints
begin

text \<open>
  packages/authority/src/endpoints/extended-list.ts and extended-list-claims.ts: the paginated listing of
  subordinates with per-entity claims, and the query values of packages/core/src/schemas/extended-list.ts.

  The loop that fills a page from pages of the storage is a function with a termination proof: it stops after
  \<open>maxStorePagesPerRequest\<close> pages. \<open>None\<close> is \<open>null\<close> where a parameter is parsed, \<open>Some None\<close> is \<open>NaN\<close> or
  \<open>undefined\<close>. Numbers are exact, so parsed dates are not rounded to doubles.
\<close>

section \<open>Configuration and query values\<close>

record extended_config =
  ec_enabled :: "bool option"
  ec_maxPageSize :: "number option"
  ec_defaultPageSize :: "number option"
  ec_supportTimeFilters :: "bool option"
  ec_supportAuditTimestamps :: "bool option"
  ec_defaultClaims :: "string list option"
  ec_maxStorePages :: "number option"
  ec_storeBatchSize :: "number option"

definition DEFAULT_MAX_PAGE_SIZE :: number where "DEFAULT_MAX_PAGE_SIZE = 500"
definition DEFAULT_PAGE_SIZE :: number where "DEFAULT_PAGE_SIZE = 100"
definition DEFAULT_MAX_STORE_PAGES :: number where "DEFAULT_MAX_STORE_PAGES = 16"
definition DEFAULT_CLAIMS :: "string list" where "DEFAULT_CLAIMS = [''subordinate_statement'']"

definition digits :: "string \<Rightarrow> bool" where
  "digits s \<longleftrightarrow> s \<noteq> [] \<and> all_digits 10 s"

definition parsePositiveInt :: "string option \<Rightarrow> number option option" where
  "parsePositiveInt value =
     (case value of
        None \<Rightarrow> None
      | Some v \<Rightarrow> Some (if digits v \<and> hd v \<noteq> CHR ''0'' then Some (of_nat (numeral_value 10 v)) else None))"

text \<open>The pattern of a NumericDate: an integer, a fraction and an exponent.\<close>

definition numeric_date_text :: "string \<Rightarrow> bool" where
  "numeric_date_text v =
     (let s = (if v \<noteq> [] \<and> hd v = CHR ''-'' then tl v else v);
          mantissa = takeWhile (\<lambda>c. c \<noteq> CHR ''e'' \<and> c \<noteq> CHR ''E'') s;
          exponent = drop (length mantissa) s;
          whole = takeWhile (\<lambda>c. c \<noteq> CHR ''.'') mantissa;
          fraction = drop (length whole) mantissa
      in digits whole \<and> (fraction = [] \<or> digits (tl fraction)) \<and>
         (exponent = [] \<or>
          (let e = tl exponent in digits (if e \<noteq> [] \<and> (hd e = CHR ''+'' \<or> hd e = CHR ''-'') then tl e else e))))"

text \<open>A number whose double is finite.\<close>

definition finite_number :: "number \<Rightarrow> bool" where
  "finite_number q \<longleftrightarrow> \<bar>q\<bar> < 2 ^ 1024 - 2 ^ 970"

definition parseNumericDate :: "string option \<Rightarrow> number option option" where
  "parseNumericDate value =
     (case value of
        None \<Rightarrow> None
      | Some v \<Rightarrow>
          Some (if numeric_date_text v
                then (case Number v of Some q \<Rightarrow> if finite_number q then Some q else None | None \<Rightarrow> None)
                else None))"

definition parseClaimsParam :: "url_params \<Rightarrow> string list" where
  "parseClaimsParam params =
     concat (map (\<lambda>value. filter (\<lambda>t. t \<noteq> []) (map trim (split_on (CHR '','') value))) (all_params params ''claims''))"

section \<open>Claims of an entry\<close>

text \<open>The record as a JSON object, absent members left out.\<close>

definition record_json :: "subordinate_record \<Rightarrow> jsval" where
  "record_json r =
     JObj (filter (\<lambda>(_, v). v \<noteq> JUndef)
       [(''entityId'', JStr (sr_entityId r)), (''jwks'', sr_jwks r), (''metadata'', sr_metadata r),
        (''metadataPolicy'', sr_metadataPolicy r), (''constraints'', sr_constraints r),
        (''entityTypes'', case sr_entityTypes r of None \<Rightarrow> JUndef | Some ts \<Rightarrow> string_array ts),
        (''isIntermediate'', case sr_isIntermediate r of None \<Rightarrow> JUndef | Some b \<Rightarrow> JBool b),
        (''sourceEndpoint'', case sr_sourceEndpoint r of None \<Rightarrow> JUndef | Some s \<Rightarrow> JStr s),
        (''crit'', case sr_crit r of None \<Rightarrow> JUndef | Some cs \<Rightarrow> string_array cs),
        (''metadataPolicyCrit'', case sr_metadataPolicyCrit r of None \<Rightarrow> JUndef | Some cs \<Rightarrow> string_array cs),
        (''createdAt'', JNum (sr_createdAt r)), (''updatedAt'', JNum (sr_updatedAt r))])"

definition statementExp :: "'s handler_context \<Rightarrow> number \<Rightarrow> number" where
  "statementExp cx now = now + default_ttl (cx_subordinateStatementTtlSeconds cx)"

definition extended_claims :: "string list" where
  "extended_claims =
     [''subordinate_statement'', ''iss'', ''sub'', ''iat'', ''exp'', ''jwks'', ''metadata'', ''metadata_policy'', ''constraints'',
      ''crit'', ''metadata_policy_crit'', ''source_endpoint'', ''trust_marks'']"

definition marks_claim :: "'s handler_context \<Rightarrow> 's \<Rightarrow> subordinate_record \<Rightarrow> number \<Rightarrow> (authority_error, jsval) result" where
  "marks_claim cx st r now =
     (case as_marks (cx_storage cx) of
        None \<Rightarrow> Inr (JArr [])
      | Some M \<Rightarrow>
          (case ms_listValidForSubject M st (sr_entityId r) now of
             Inl e \<Rightarrow> Inl e
           | Inr marks \<Rightarrow>
               Inr (JArr (map (\<lambda>m. JObj [(''id'', JStr (tr_type m)), (''trust_mark'', JStr (tr_jwt m))]) marks))))"

definition own_extractor ::
  "'s handler_context \<Rightarrow> 's \<Rightarrow> subordinate_record \<Rightarrow> number \<Rightarrow> string \<Rightarrow> (authority_error, jsval) result"
where
  "own_extractor cx st r now claim =
     (if claim = ''subordinate_statement''
      then (case buildSubordinateStatement cx r (Some now) of Inl e \<Rightarrow> Inl e | Inr jwt \<Rightarrow> Inr (JStr jwt))
      else if claim = ''iss'' then Inr (JStr (cx_entityId cx))
      else if claim = ''sub'' then Inr (JStr (sr_entityId r))
      else if claim = ''iat'' then Inr (JNum now)
      else if claim = ''exp'' then Inr (JNum (statementExp cx now))
      else if claim = ''jwks'' then Inr (sr_jwks r)
      else if claim = ''metadata'' then Inr (sr_metadata r)
      else if claim = ''metadata_policy'' then Inr (sr_metadataPolicy r)
      else if claim = ''constraints'' then Inr (sr_constraints r)
      else if claim = ''crit'' then Inr (case some_nonempty (sr_crit r) of None \<Rightarrow> JUndef | Some cs \<Rightarrow> string_array cs)
      else if claim = ''metadata_policy_crit''
      then Inr (case some_nonempty (sr_metadataPolicyCrit r) of None \<Rightarrow> JUndef | Some cs \<Rightarrow> string_array cs)
      else if claim = ''source_endpoint''
      then Inr (case sr_sourceEndpoint r of None \<Rightarrow> JUndef | Some s \<Rightarrow> JStr s)
      else marks_claim cx st r now)"

text \<open>\<open>EXTENDED_LIST_CLAIM_EXTRACTORS[claim]\<close>, called. The table is an object literal, so a name that it does
  not have itself is looked up in \<open>Object.prototype\<close>: \<open>constructor\<close> is the function \<open>Object\<close>, which gives back its
  argument, \<open>toString\<close> describes the missing \<open>this\<close>, the other functions throw on it, and \<open>__proto__\<close> is no
  function.\<close>

definition throwing_members :: "string list" where
  "throwing_members =
     [''toLocaleString'', ''valueOf'', ''hasOwnProperty'', ''isPrototypeOf'', ''propertyIsEnumerable'',
      ''__defineGetter__'', ''__defineSetter__'', ''__lookupGetter__'', ''__lookupSetter__'', ''__proto__'']"

definition extract_claim ::
  "'s handler_context \<Rightarrow> 's \<Rightarrow> subordinate_record \<Rightarrow> number \<Rightarrow> string \<Rightarrow> (authority_error, jsval) result"
where
  "extract_claim cx st r now claim =
     (if claim \<in> set extended_claims then own_extractor cx st r now claim
      else if claim = ''constructor'' then Inr (record_json r)
      else if claim = ''toString'' then Inr (JStr ''[object Undefined]'')
      else if claim \<in> set throwing_members then Inl (Thrown ''TypeError'')
      else Inr JUndef)"

fun extractClaims_from ::
  "'s handler_context \<Rightarrow> 's \<Rightarrow> subordinate_record \<Rightarrow> number \<Rightarrow> string list \<Rightarrow> jsval dict \<Rightarrow> (authority_error, jsval dict) result"
where
  "extractClaims_from cx st r now [] out = Inr out"
| "extractClaims_from cx st r now (claim # claims) out =
     (case extract_claim cx st r now claim of
        Inl e \<Rightarrow> Inl e
      | Inr value \<Rightarrow>
          extractClaims_from cx st r now claims (if value \<noteq> JUndef then AList.update claim value out else out))"

definition extractClaims ::
  "'s handler_context \<Rightarrow> 's \<Rightarrow> subordinate_record \<Rightarrow> number \<Rightarrow> string list \<Rightarrow> (authority_error, jsval dict) result"
where
  "extractClaims cx st r now claims = extractClaims_from cx st r now claims []"

section \<open>Filling a page\<close>

fun push_until :: "number \<Rightarrow> 'r list \<Rightarrow> 'r list \<Rightarrow> 'r list" where
  "push_until limit acc [] = acc"
| "push_until limit acc (r # rs) = (if of_nat (length acc) \<ge> limit then acc else push_until limit (acc @ [r]) rs)"

record page_fill =
  pf_accumulated :: "subordinate_record list"
  pf_storeCursor :: "string option"
  pf_nextEntityId :: "string option"
  pf_pagesFetched :: nat
  pf_storeExhausted :: bool

definition page_filled :: "subordinate_record list \<Rightarrow> subordinate_record list_page \<Rightarrow> page_fill \<Rightarrow> page_fill" where
  "page_filled accumulated page f =
     f\<lparr>pf_accumulated := accumulated, pf_nextEntityId :=
         (case find (\<lambda>r. sr_entityId r > sr_entityId (last accumulated)) (lp_items page) of
            Some r \<Rightarrow> Some (sr_entityId r) | None \<Rightarrow> lp_nextCursor page)\<rparr>"

text \<open>The \<open>while\<close> loop; \<open>store\<close> is \<open>list\<close> with the filter and the other options.\<close>

function fill_page ::
  "(string option \<Rightarrow> (authority_error, subordinate_record list_page) result) \<Rightarrow> number \<Rightarrow> number \<Rightarrow> page_fill \<Rightarrow>
   (authority_error, page_fill) result"
where
  "fill_page store effectiveLimit maxStorePages f =
     (if of_nat (length (pf_accumulated f)) < effectiveLimit \<and> of_nat (pf_pagesFetched f) < maxStorePages then
        (case store (pf_storeCursor f) of
           Inl e \<Rightarrow> Inl e
         | Inr page \<Rightarrow>
             (let f = f\<lparr>pf_pagesFetched := pf_pagesFetched f + 1\<rparr> in
              if length (lp_items page) = 0 then Inr (f\<lparr>pf_storeExhausted := True\<rparr>)
              else
                (let accumulated = push_until effectiveLimit (pf_accumulated f) (lp_items page) in
                 if of_nat (length accumulated) \<ge> effectiveLimit then Inr (page_filled accumulated page f)
                 else
                   (case lp_nextCursor page of
                      None \<Rightarrow> Inr (f\<lparr>pf_accumulated := accumulated, pf_storeExhausted := True\<rparr>)
                    | Some c \<Rightarrow>
                        fill_page store effectiveLimit maxStorePages
                          (f\<lparr>pf_accumulated := accumulated, pf_storeCursor := Some c\<rparr>)))))
      else Inr f)"
  by pat_completeness auto

termination fill_page
  by (relation "measure (\<lambda>(_, _, maxStorePages, f). nat \<lceil>maxStorePages - of_nat (pf_pagesFetched f)\<rceil>)", simp, auto, linarith)

declare fill_page.simps [simp del]

definition next_of :: "number \<Rightarrow> number \<Rightarrow> page_fill \<Rightarrow> string option" where
  "next_of effectiveLimit maxStorePages f =
     (if of_nat (length (pf_accumulated f)) < effectiveLimit \<and> of_nat (pf_pagesFetched f) \<ge> maxStorePages \<and>
         \<not> pf_storeExhausted f
      then pf_storeCursor f else pf_nextEntityId f)"

section \<open>The handler\<close>

text \<open>What the page is built from, and the parameters as they are parsed.\<close>

record extended_query =
  eq_filter :: list_filter
  eq_options :: page_options
  eq_from :: "string option"
  eq_limit :: number
  eq_claims :: "string list"
  eq_audit :: bool

record extended_params =
  xp_entityTypes :: "string list"
  xp_trustMarked :: "bool option option"
  xp_trustMarkTypes :: "string list"
  xp_intermediate :: "bool option option"
  xp_from :: "string option"
  xp_limit :: "number option option"
  xp_updatedAfter :: "number option option"
  xp_updatedBefore :: "number option option"
  xp_auditTimestamps :: "bool option option"
  xp_claims :: "string list"

text \<open>The default claims stand in only when the client sent no \<open>claims\<close> at all.\<close>

definition parse_extended :: "extended_config \<Rightarrow> url_params \<Rightarrow> extended_params" where
  "parse_extended config params =
     \<lparr>xp_entityTypes = all_params params ''entity_type'',
      xp_trustMarked = parseBooleanQuery (param params ''trust_marked''),
      xp_trustMarkTypes = all_params params ''trust_mark_type'',
      xp_intermediate = parseBooleanQuery (param params ''intermediate''),
      xp_from = param params ''from'',
      xp_limit = parsePositiveInt (param params ''limit''),
      xp_updatedAfter = parseNumericDate (param params ''updated_after''),
      xp_updatedBefore = parseNumericDate (param params ''updated_before''),
      xp_auditTimestamps = parseBooleanQuery (param params ''audit_timestamps''),
      xp_claims = (if has_param params ''claims'' then parseClaimsParam params
                   else (case ec_defaultClaims config of Some cs \<Rightarrow> cs | None \<Rightarrow> DEFAULT_CLAIMS))\<rparr>"

definition bad_request :: "string \<Rightarrow> server_response option" where
  "bad_request d = Some (errorResponse 400 ''invalid_request'' d)"

definition unsupported_parameter :: "string \<Rightarrow> server_response option" where
  "unsupported_parameter d = Some (errorResponse 400 ''unsupported_parameter'' d)"

definition boolean_expected :: "string \<Rightarrow> string" where
  "boolean_expected name = name @ '' must be '' @ quoted ''true'' @ '' or '' @ quoted ''false''"

text \<open>The checks of the parameters, in their order.\<close>

definition reject_extended :: "'s handler_context \<Rightarrow> extended_config \<Rightarrow> extended_params \<Rightarrow> server_response option" where
  "reject_extended cx config p =
     (if list_ex (\<lambda>et. et \<notin> set EntityTypes) (xp_entityTypes p) then bad_request ''Unknown entity_type value''
      else if xp_trustMarked p = Some None then bad_request (boolean_expected ''trust_marked'')
      else if (xp_trustMarked p \<noteq> None \<or> length (xp_trustMarkTypes p) > 0) \<and> as_marks (cx_storage cx) = None
      then unsupported_parameter ''Trust mark filtering not supported''
      else if xp_intermediate p = Some None then bad_request (boolean_expected ''intermediate'')
      else if xp_limit p = Some None then bad_request ''limit must be a positive integer''
      else if xp_updatedAfter p = Some None then bad_request ''updated_after must be a finite NumericDate''
      else if xp_updatedBefore p = Some None then bad_request ''updated_before must be a finite NumericDate''
      else if ec_supportTimeFilters config = Some False \<and> (xp_updatedAfter p \<noteq> None \<or> xp_updatedBefore p \<noteq> None)
      then unsupported_parameter ''updated_after / updated_before are not supported by this endpoint''
      else if xp_auditTimestamps p = Some None then bad_request (boolean_expected ''audit_timestamps'')
      else if ec_supportAuditTimestamps config = Some False \<and> xp_auditTimestamps p = Some (Some True)
      then unsupported_parameter ''audit_timestamps is not supported by this endpoint''
      else if ''trust_marks'' \<in> set (xp_claims p) \<and> as_marks (cx_storage cx) = None
      then unsupported_parameter ''claims=trust_marks is not supported by this deployment''
      else None)"

definition default_page_size :: "extended_config \<Rightarrow> number" where
  "default_page_size config = (case ec_defaultPageSize config of Some n \<Rightarrow> n | None \<Rightarrow> DEFAULT_PAGE_SIZE)"

definition extended_filter :: "number \<Rightarrow> extended_params \<Rightarrow> list_filter" where
  "extended_filter now p =
     \<lparr>lf_entityTypes = some_nonempty (Some (xp_entityTypes p)),
      lf_trustMarked = (if xp_trustMarked p = Some (Some True) then Some True else None),
      lf_trustMarkType = (if length (xp_trustMarkTypes p) > 0 then Some (AnyType (xp_trustMarkTypes p)) else None),
      lf_intermediate = Option.bind (xp_intermediate p) id,
      lf_validAt = (if xp_trustMarked p = Some (Some True) \<or> length (xp_trustMarkTypes p) > 0 then Some now else None)\<rparr>"

definition query_for :: "'s handler_context \<Rightarrow> extended_config \<Rightarrow> extended_params \<Rightarrow> extended_query" where
  "query_for cx config p =
     \<lparr>eq_filter = extended_filter (cx_now cx) p,
      eq_options =
        \<lparr>po_cursor = None,
         po_limit = Some (case ec_storeBatchSize config of Some n \<Rightarrow> n | None \<Rightarrow> default_page_size config),
         po_updatedAfter = Option.bind (xp_updatedAfter p) id, po_updatedBefore = Option.bind (xp_updatedBefore p) id\<rparr>,
      eq_from = xp_from p,
      eq_limit = min (case Option.bind (xp_limit p) id of Some n \<Rightarrow> n | None \<Rightarrow> default_page_size config)
                     (case ec_maxPageSize config of Some n \<Rightarrow> n | None \<Rightarrow> DEFAULT_MAX_PAGE_SIZE),
      eq_claims = xp_claims p,
      eq_audit = (xp_auditTimestamps p = Some (Some True) \<or>
        (xp_auditTimestamps p = None \<and> (xp_updatedAfter p \<noteq> None \<or> xp_updatedBefore p \<noteq> None)))\<rparr>"

definition extended_query_of ::
  "'s handler_context \<Rightarrow> extended_config \<Rightarrow> 's \<Rightarrow> url_params \<Rightarrow> (server_response, extended_query) result"
where
  "extended_query_of cx config st params =
     (let p = parse_extended config params in
      case reject_extended cx config p of
        Some response \<Rightarrow> Inl response
      | None \<Rightarrow>
          if (case xp_from p of None \<Rightarrow> False | Some c \<Rightarrow> so_get (as_records (cx_storage cx)) st c = None)
          then Inl (errorResponse 404 ''page_not_found'' ''Unknown continuation cursor'')
          else Inr (query_for cx config p))"

definition extended_entry ::
  "'s handler_context \<Rightarrow> 's \<Rightarrow> extended_query \<Rightarrow> subordinate_record \<Rightarrow> (authority_error, jsval) result"
where
  "extended_entry cx st q r =
     (let entry = [(''id'', JStr (sr_entityId r))] @
            (if eq_audit q then [(''registered'', JNum (sr_createdAt r)), (''updated'', JNum (sr_updatedAt r))] else [])
      in if length (eq_claims q) > 0
         then (case extractClaims cx st r (cx_now cx) (eq_claims q) of
                 Inl e \<Rightarrow> Inl e
               | Inr extracted \<Rightarrow> Inr (JObj (foldl (\<lambda>e (k, v). AList.update k v e) entry extracted)))
         else Inr (JObj entry))"

fun extended_entries ::
  "'s handler_context \<Rightarrow> 's \<Rightarrow> extended_query \<Rightarrow> subordinate_record list \<Rightarrow> (authority_error, jsval list) result"
where
  "extended_entries cx st q [] = Inr []"
| "extended_entries cx st q (r # rs) =
     (case extended_entry cx st q r of
        Inl e \<Rightarrow> Inl e
      | Inr v \<Rightarrow> (case extended_entries cx st q rs of Inl e \<Rightarrow> Inl e | Inr vs \<Rightarrow> Inr (v # vs)))"

definition max_store_pages :: "extended_config \<Rightarrow> number" where
  "max_store_pages config = (case ec_maxStorePages config of Some n \<Rightarrow> n | None \<Rightarrow> DEFAULT_MAX_STORE_PAGES)"

text \<open>The body of the \<open>try\<close>.\<close>

definition extended_page ::
  "'s handler_context \<Rightarrow> extended_config \<Rightarrow> 's \<Rightarrow> extended_query \<Rightarrow> (authority_error, server_response) result"
where
  "extended_page cx config st q =
     (case fill_page (\<lambda>cursor. as_list (cx_storage cx) st (eq_filter q) ((eq_options q)\<lparr>po_cursor := cursor\<rparr>))
             (eq_limit q) (max_store_pages config)
             \<lparr>pf_accumulated = [], pf_storeCursor = eq_from q, pf_nextEntityId = None, pf_pagesFetched = 0,
              pf_storeExhausted = False\<rparr> of
        Inl e \<Rightarrow> Inl e
      | Inr f \<Rightarrow>
          (case extended_entries cx st q (pf_accumulated f) of
             Inl e \<Rightarrow> Inl e
           | Inr es \<Rightarrow>
               Inr (jsonResponse (JObj ([(''immediate_subordinate_entities'', JArr es)] @
                      claim_if ''next'' (map_option JStr (next_of (eq_limit q) (max_store_pages config) f)))) 200)))"

definition createExtendedListHandler ::
  "'s handler_context \<Rightarrow> extended_config \<Rightarrow> 's \<Rightarrow> server_request \<Rightarrow> server_response"
where
  "createExtendedListHandler cx config st request =
     (if ec_enabled config = Some False then errorResponse 404 ''not_found'' ''Endpoint not enabled''
      else
     (case requireMethod request ''GET'' of
        Some methodError \<Rightarrow> methodError
      | None \<Rightarrow>
     (case extended_query_of cx config st (sq_query request) of
        Inl response \<Rightarrow> response
      | Inr q \<Rightarrow> or_server_error ''Failed to build extended subordinate listing'' (extended_page cx config st q))))"

section \<open>What one page holds\<close>

lemma push_until_nat: "push_until (of_nat L) acc rs = acc @ take (L - length acc) rs"
proof (induction rs arbitrary: acc)
  case (Cons r rs)
  show ?case
  proof (cases "L \<le> length acc")
    case False
    then obtain m where m: "L - length acc = Suc m" by (cases "L - length acc") auto
    then have "L - Suc (length acc) = m" by simp
    with False m Cons show ?thesis by simp
  qed simp
qed simp

lemma find_after:
  assumes "sorted (map key rs)" and "distinct (map key rs)" and "0 < k" and "k \<le> length rs"
  shows "find (\<lambda>r. (key r :: string) > key (rs ! (k - 1))) rs = (if k < length rs then Some (rs ! k) else None)"
proof -
  have le: "key (rs ! i) \<le> key (rs ! j)" if "i \<le> j" "j < length rs" for i j
    using sorted_nth_mono [OF assms(1) that(1)] that by simp
  have ne: "key (rs ! i) \<noteq> key (rs ! j)" if "i < j" "j < length rs" for i j
    using nth_eq_iff_index_eq [OF assms(2), of i j] that by simp
  have before: "\<not> key (rs ! i) > key (rs ! (k - 1))" if "i < k" for i
    using le [of i "k - 1"] that assms(3,4) by (simp add: not_less)
  show ?thesis
  proof (cases "k < length rs")
    case True
    have "key (rs ! k) > key (rs ! (k - 1))"
      using le [of "k - 1" k] ne [of "k - 1" k] True assms(3) by simp
    with True before show ?thesis by (auto simp: find_Some_iff intro!: exI [of _ k])
  next
    case False
    with before assms(4) show ?thesis by (auto simp: find_None_iff in_set_conv_nth)
  qed
qed

text \<open>The listing a page is cut from, and its storage.\<close>

definition listing_store ::
  "subordinate_record list \<Rightarrow> nat \<Rightarrow> (string option \<Rightarrow> (authority_error, subordinate_record list_page) result) \<Rightarrow> bool"
where
  "listing_store xs n store \<longleftrightarrow> 0 < n \<and> sorted (map sr_entityId xs) \<and> distinct (map sr_entityId xs) \<and>
     (\<forall>c j. j < length xs \<longrightarrow> c = Some (sr_entityId (xs ! j)) \<or> (c = None \<and> j = 0) \<longrightarrow>
        store c = Inr \<lparr>lp_items = take n (drop j xs),
          lp_nextCursor = (if j + n < length xs then Some (sr_entityId (xs ! (j + n))) else None)\<rparr>) \<and>
     (xs = [] \<longrightarrow> (\<forall>c. store c = Inr \<lparr>lp_items = [], lp_nextCursor = None\<rparr>))"

definition page_size :: "nat \<Rightarrow> nat \<Rightarrow> nat \<Rightarrow> nat \<Rightarrow> nat" where
  "page_size L P n rest = min L (min (P * n) rest)"

lemma page_size_step: "n \<le> L \<Longrightarrow> n \<le> R \<Longrightarrow> page_size L (Suc p) n R = n + page_size (L - n) p n (R - n)"
  unfolding page_size_def mult_Suc by linarith

lemma filled_next:
  assumes "sorted (map sr_entityId xs)" and "distinct (map sr_entityId xs)" and "j < length xs" and "0 < n"
    and "0 < k" and "k \<le> length (take n (drop j xs))"
  shows "(case find (\<lambda>r. sr_entityId r > sr_entityId (last (acc @ take k (drop j xs)))) (take n (drop j xs)) of
      Some r \<Rightarrow> Some (sr_entityId r) | None \<Rightarrow> (if j + n < length xs then Some (sr_entityId (xs ! (j + n))) else None)) =
    (if j + k < length xs then Some (sr_entityId (xs ! (j + k))) else None)"
proof -
  let ?rs = "take n (drop j xs)"
  have k: "k \<le> n" "k \<le> length xs - j" using assms(6) by simp_all
  have "take k (drop j xs) \<noteq> []" using assms(3,5) by simp
  then have "last (acc @ take k (drop j xs)) = take k (drop j xs) ! (length (take k (drop j xs)) - 1)"
    by (metis last_appendR last_conv_nth)
  also have "\<dots> = ?rs ! (k - 1)" using assms(5) k by simp
  finally have "last (acc @ take k (drop j xs)) = ?rs ! (k - 1)" .
  moreover have "sorted (map sr_entityId ?rs)" "distinct (map sr_entityId ?rs)"
    using assms(1,2) by (simp_all add: drop_map [symmetric] take_map [symmetric] sorted_wrt_drop sorted_wrt_take)
  ultimately have "find (\<lambda>r. sr_entityId r > sr_entityId (last (acc @ take k (drop j xs)))) ?rs =
      (if k < length ?rs then Some (?rs ! k) else None)"
    using find_after [of sr_entityId ?rs k] assms(5,6) by simp
  moreover have "?rs ! k = xs ! (j + k)" if "k < length ?rs" using that assms(3) by (simp add: nth_drop)
  moreover have "j + k = j + n \<or> \<not> j + n < length xs \<and> \<not> j + k < length xs" if "\<not> k < length ?rs"
    using that k assms(6) by (auto simp: min_def split: if_splits)
  ultimately show ?thesis using k assms(3) by (auto simp: min_def)
qed

lemma fill_step:
  assumes "store (pf_storeCursor f) = Inr page" and "lp_items page \<noteq> []"
    and "length (pf_accumulated f) < L" and "pf_pagesFetched f < P"
  shows "fill_page store (of_nat L) (of_nat P) f =
    (let acc = pf_accumulated f @ take (L - length (pf_accumulated f)) (lp_items page);
         g = f\<lparr>pf_pagesFetched := pf_pagesFetched f + 1\<rparr>
     in if L \<le> length acc then Inr (page_filled acc page g)
        else (case lp_nextCursor page of
                None \<Rightarrow> Inr (g\<lparr>pf_accumulated := acc, pf_storeExhausted := True\<rparr>)
              | Some c \<Rightarrow> fill_page store (of_nat L) (of_nat P) (g\<lparr>pf_accumulated := acc, pf_storeCursor := Some c\<rparr>)))"
  by (subst fill_page.simps) (simp add: assms push_until_nat Let_def del: length_append length_take split: option.split)

lemma fill_exact:
  assumes store: "listing_store xs n store" and "j < length xs" and "pf_pagesFetched f \<le> P"
    and "pf_storeCursor f = Some (sr_entityId (xs ! j)) \<or> (pf_storeCursor f = None \<and> j = 0 \<and> pf_pagesFetched f < P)"
    and "length (pf_accumulated f) < L" and "pf_nextEntityId f = None" "\<not> pf_storeExhausted f"
  shows "\<exists>f'. fill_page store (of_nat L) (of_nat P) f = Inr f' \<and>
    (let k = page_size (L - length (pf_accumulated f)) (P - pf_pagesFetched f) n (length xs - j) in
     pf_accumulated f' = pf_accumulated f @ take k (drop j xs) \<and>
     next_of (of_nat L) (of_nat P) f' = (if j + k < length xs then Some (sr_entityId (xs ! (j + k))) else None))"
  using assms(2-7)
proof (induction "P - pf_pagesFetched f" arbitrary: f j)
  case 0
  then have P: "pf_pagesFetched f = P" "pf_storeCursor f = Some (sr_entityId (xs ! j))" by auto
  have "fill_page store (of_nat L) (of_nat P) f = Inr f" by (subst fill_page.simps) (simp add: P)
  with 0 P show ?case by (simp add: page_size_def next_of_def)
next
  case (Suc d)
  let ?a = "length (pf_accumulated f)" and ?rs = "take n (drop j xs)"
  let ?k = "page_size (L - ?a) (P - pf_pagesFetched f) n (length xs - j)"
  let ?acc = "pf_accumulated f @ take (L - ?a) ?rs"
  have n: "0 < n" and ord: "sorted (map sr_entityId xs)" "distinct (map sr_entityId xs)"
    using store by (simp_all add: listing_store_def)
  have page: "store (pf_storeCursor f) = Inr \<lparr>lp_items = ?rs,
      lp_nextCursor = (if j + n < length xs then Some (sr_entityId (xs ! (j + n))) else None)\<rparr>"
    using store Suc.prems(1,3) unfolding listing_store_def by blast
  have less: "pf_pagesFetched f < P" using Suc.hyps(2) by simp
  have Pn: "n \<le> (P - pf_pagesFetched f) * n" using less by (cases "P - pf_pagesFetched f") simp_all
  have rs: "?rs \<noteq> []" "length ?rs = min n (length xs - j)" using Suc.prems(1) n by simp_all
  note step = fill_step [of store f, OF page, unfolded list_page.select_convs, OF rs(1) Suc.prems(4) less]
  have len: "length ?acc = ?a + min (L - ?a) (min n (length xs - j))" by simp
  consider (filled) "L \<le> ?a + min n (length xs - j)" | (last) "\<not> L \<le> ?a + min n (length xs - j)" "\<not> j + n < length xs"
    | (more) "\<not> L \<le> ?a + min n (length xs - j)" "j + n < length xs" by blast
  then show ?case
  proof cases
    case filled
    then have k: "?k = L - ?a" using Pn unfolding page_size_def by linarith
    have take: "take (L - ?a) ?rs = take (L - ?a) (drop j xs)" 
    proof -
      have "min (L - ?a) n = L - ?a" using filled by linarith
      then show ?thesis by simp
    qed
    have L: "length ?acc = L" using filled Suc.prems(4) len by linarith
    let ?f' = "page_filled ?acc \<lparr>lp_items = ?rs,
      lp_nextCursor = (if j + n < length xs then Some (sr_entityId (xs ! (j + n))) else None)\<rparr>
      (f\<lparr>pf_pagesFetched := pf_pagesFetched f + 1\<rparr>)"
    have run: "fill_page store (of_nat L) (of_nat P) f = Inr ?f'"
      unfolding step Let_def using L by (simp only: order.refl if_True)
    have acc: "pf_accumulated ?f' = ?acc" unfolding page_filled_def by simp
    have "next_of (of_nat L) (of_nat P) ?f' = pf_nextEntityId ?f'" unfolding next_of_def acc L by simp
    also have "\<dots> = (case find (\<lambda>r. sr_entityId r > sr_entityId (last ?acc)) ?rs of
      Some r \<Rightarrow> Some (sr_entityId r) | None \<Rightarrow> (if j + n < length xs then Some (sr_entityId (xs ! (j + n))) else None))"
      unfolding page_filled_def by (simp split: option.split)
    also have "\<dots> = (if j + ?k < length xs then Some (sr_entityId (xs ! (j + ?k))) else None)"
      unfolding take k by (rule filled_next [OF ord Suc.prems(1) n]) (use filled Suc.prems(4) rs(2) in auto)
    finally show ?thesis using run acc unfolding k Let_def take by blast
  next
    case last
    then have "?k = length xs - j" using Pn unfolding page_size_def by linarith
    moreover have "?rs = drop j xs" "length xs \<le> j + n" using last by simp_all
    ultimately have "?k = length xs - j" "?rs = drop j xs" by blast+
    with last step Suc.prems show ?thesis by (simp add: next_of_def Let_def)
  next
    case more
    let ?g = "f\<lparr>pf_pagesFetched := pf_pagesFetched f + 1, pf_accumulated := pf_accumulated f @ ?rs,
      pf_storeCursor := Some (sr_entityId (xs ! (j + n)))\<rparr>"
    define k where "k = page_size (L - length (pf_accumulated ?g)) (P - pf_pagesFetched ?g) n (length xs - (j + n))"
    have "\<exists>f'. fill_page store (of_nat L) (of_nat P) ?g = Inr f' \<and>
      (let k = page_size (L - length (pf_accumulated ?g)) (P - pf_pagesFetched ?g) n (length xs - (j + n)) in
       pf_accumulated f' = pf_accumulated ?g @ take k (drop (j + n) xs) \<and>
       next_of (of_nat L) (of_nat P) f' = (if j + n + k < length xs then Some (sr_entityId (xs ! (j + n + k))) else None))"
      by (rule Suc.hyps(1)) (use Suc.hyps(2) Suc.prems more less in auto)
    then obtain f' where f': "fill_page store (of_nat L) (of_nat P) ?g = Inr f'"
      "pf_accumulated f' = pf_accumulated ?g @ take k (drop (j + n) xs)"
      "next_of (of_nat L) (of_nat P) f' = (if j + n + k < length xs then Some (sr_entityId (xs ! (j + n + k))) else None)"
      unfolding Let_def k_def [symmetric] by blast
    have rs_len: "length ?rs = n" and all: "take (L - ?a) ?rs = ?rs" using more by simp_all
    have "fill_page store (of_nat L) (of_nat P) f = fill_page store (of_nat L) (of_nat P) ?g"
      using step more rs_len unfolding all Let_def by simp
    moreover have "?k = n + k"
      using page_size_step [of n "L - ?a" "length xs - j" "P - Suc (pf_pagesFetched f)"] more rs_len less
      by (simp add: Suc_diff_Suc k_def)
    moreover have "take (n + k) (drop j xs) = ?rs @ take k (drop (j + n) xs)" by (simp only: take_add drop_drop add.commute [of n j])
    ultimately show ?thesis using f' by (simp add: Let_def add.assoc)
  qed
qed

lemma memory_listing_store:
  assumes "storage_ok st" and "mark_filter st f = Inr m" and "0 < n" and "po_limit opts = Some (of_nat n)"
  shows "listing_store (matching_subordinates f opts st) n (\<lambda>c. list_subordinates st f (opts\<lparr>po_cursor := c\<rparr>))"
proof -
  let ?xs = "matching_subordinates f opts st"
  have opts: "opts\<lparr>po_cursor := c\<rparr> = opts\<lparr>po_cursor := c, po_limit := Some (of_nat n)\<rparr>" for c using assms(4) by (cases opts) simp
  have page: "list_subordinates st f (opts\<lparr>po_cursor := c\<rparr>) = Inr (subordinate_page f opts st c n)" for c
    using list_subordinates_page [OF assms(2), where opts = opts and c = c and limit = "of_nat n"] by (subst opts) (simp add: subordinate_page_def)
  have ok: "storage_ok st \<and> (\<exists>m. mark_filter st f = Inr m)" using assms by blast
  have "subordinate_page f opts st c n = \<lparr>lp_items = take n (drop j ?xs),
      lp_nextCursor = (if j + n < length ?xs then Some (sr_entityId (?xs ! (j + n))) else None)\<rparr>"
    if "j < length ?xs" "c = Some (sr_entityId (?xs ! j)) \<or> (c = None \<and> j = 0)" for c j
    using subordinate_listing.page_at [OF ok assms(3) that] .
  moreover have "subordinate_page f opts st c n = \<lparr>lp_items = [], lp_nextCursor = None\<rparr>" if "?xs = []" for c
    using subordinate_listing.page_empty [OF ok assms(3) that] .
  ultimately show ?thesis
    using assms(3) matching_sorted [OF assms(1)] unfolding listing_store_def page by blast
qed

lemma extracted_keys:
  assumes "extractClaims_from cx st r now claims out = Inr out'" and "''id'' \<notin> fst ` set out"
  shows "''id'' \<notin> fst ` set out'"
  using assms
proof (induction claims arbitrary: out)
  case (Cons claim claims)
  from Cons.prems(1) obtain v where v: "extract_claim cx st r now claim = Inr v"
    "extractClaims_from cx st r now claims (if v \<noteq> JUndef then AList.update claim v out else out) = Inr out'"
    by (auto split: sum.splits)
  have "v = JUndef" if "claim = ''id''" using v(1) that
    by (simp add: extract_claim_def extended_claims_def throwing_members_def)
  then have "''id'' \<notin> fst ` set (if v \<noteq> JUndef then AList.update claim v out else out)"
    using Cons.prems(2) by (auto simp: dom_update)
  with Cons.IH [OF v(2)] show ?case .
qed simp

lemma pget_update_other: "k \<noteq> k' \<Longrightarrow> pget (AList.update k' v e) k = pget e k"
  by (simp add: pget_def update_conv')

lemma pget_foldl_update:
  "k \<notin> fst ` set kvs \<Longrightarrow> pget (foldl (\<lambda>e (k, v). AList.update k v e) e kvs) k = pget e k"
  by (induction kvs arbitrary: e) (auto simp: pget_update_other)

lemma entry_id:
  assumes "extended_entry cx st q r = Inr v"
  shows "mget v ''id'' = JStr (sr_entityId r)"
proof (cases "length (eq_claims q) > 0")
  case True
  with assms obtain out where out: "extractClaims cx st r (cx_now cx) (eq_claims q) = Inr out"
    and v: "v = JObj (foldl (\<lambda>e (k, v). AList.update k v e) ([(''id'', JStr (sr_entityId r))] @
            (if eq_audit q then [(''registered'', JNum (sr_createdAt r)), (''updated'', JNum (sr_updatedAt r))] else [])) out)"
    by (auto simp: extended_entry_def Let_def split: sum.splits)
  have "''id'' \<notin> fst ` set out" using extracted_keys [OF out [unfolded extractClaims_def]] by simp
  from pget_foldl_update [OF this] show ?thesis unfolding v mget.simps by (simp add: pget_def)
next
  case False
  then show ?thesis using assms by (auto simp: extended_entry_def pget_def)
qed

lemma entries_ids:
  "extended_entries cx st q rs = Inr es \<Longrightarrow> map (\<lambda>e. mget e ''id'') es = map (\<lambda>r. JStr (sr_entityId r)) rs"
  by (induction rs arbitrary: es) (auto simp: entry_id split: sum.splits)

section \<open>Following the pages\<close>

text \<open>What a client reads of a page: the identifiers it lists and the cursor of the next page.\<close>

definition listed :: "server_response \<Rightarrow> (jsval list \<times> string option) option" where
  "listed response =
     (case sp_body response of
        JsonBody body \<Rightarrow>
          if sp_status response = 200
          then Some (map (\<lambda>e. mget e ''id'') (items (mget body ''immediate_subordinate_entities'')),
                     case mget body ''next'' of JStr c \<Rightarrow> Some c | _ \<Rightarrow> None)
          else None
      | JwtBody _ \<Rightarrow> None)"

text \<open>The client's requests: the same parameters with the cursor of the page before. \<open>None\<close>: a request failed or
  \<open>fuel\<close> requests were not enough.\<close>

fun follow_pages :: "nat \<Rightarrow> (string option \<Rightarrow> (jsval list \<times> string option) option) \<Rightarrow> string option \<Rightarrow> jsval list option" where
  "follow_pages 0 get cursor = None"
| "follow_pages (Suc fuel) get cursor =
     (case get cursor of
        None \<Rightarrow> None
      | Some (ids, None) \<Rightarrow> Some ids
      | Some (ids, Some c) \<Rightarrow> map_option (append ids) (follow_pages fuel get (Some c)))"

definition page_request :: "url_params \<Rightarrow> string option \<Rightarrow> server_request" where
  "page_request params cursor =
     get_request (params @ (case cursor of None \<Rightarrow> [] | Some c \<Rightarrow> [(''from'', c)]))"

lemma other_param:
  "k \<noteq> ''from'' \<Longrightarrow> all_params (ps @ [(''from'', c)]) k = all_params ps k"
  "k \<noteq> ''from'' \<Longrightarrow> param (ps @ [(''from'', c)]) k = param ps k"
  "k \<noteq> ''from'' \<Longrightarrow> has_param (ps @ [(''from'', c)]) k = has_param ps k"
  by (auto simp: all_params_def param_def has_param_def map_add_def split: option.splits)

lemma query_with_cursor:
  assumes "extended_query_of cx config st ps = Inr q" and "\<not> has_param ps ''from''"
    and "so_get (as_records (cx_storage cx)) st c \<noteq> None"
  shows "extended_query_of cx config st (ps @ [(''from'', c)]) = Inr (q\<lparr>eq_from := Some c\<rparr>)"
proof -
  have none: "map_of ps ''from'' = None" using assms(2) by (simp add: has_param_def map_of_eq_None_iff)
  then have cursor: "param ps ''from'' = None" "param (ps @ [(''from'', c)]) ''from'' = Some c"
    by (simp_all add: param_def map_add_def)
  have "parseClaimsParam (ps @ [(''from'', c)]) = parseClaimsParam ps" by (simp add: parseClaimsParam_def other_param)
  then have parsed: "parse_extended config (ps @ [(''from'', c)]) = (parse_extended config ps)\<lparr>xp_from := Some c\<rparr>"
    by (simp add: parse_extended_def other_param cursor)
  have sel: "xp_entityTypes (p\<lparr>xp_from := x\<rparr>) = xp_entityTypes p" "xp_trustMarked (p\<lparr>xp_from := x\<rparr>) = xp_trustMarked p"
    "xp_trustMarkTypes (p\<lparr>xp_from := x\<rparr>) = xp_trustMarkTypes p" "xp_intermediate (p\<lparr>xp_from := x\<rparr>) = xp_intermediate p"
    "xp_limit (p\<lparr>xp_from := x\<rparr>) = xp_limit p" "xp_updatedAfter (p\<lparr>xp_from := x\<rparr>) = xp_updatedAfter p"
    "xp_updatedBefore (p\<lparr>xp_from := x\<rparr>) = xp_updatedBefore p" "xp_claims (p\<lparr>xp_from := x\<rparr>) = xp_claims p"
    "xp_auditTimestamps (p\<lparr>xp_from := x\<rparr>) = xp_auditTimestamps p" "xp_from (p\<lparr>xp_from := x\<rparr>) = x" for p x by simp_all
  have "reject_extended cx config (p\<lparr>xp_from := x\<rparr>) = reject_extended cx config p" for p x
    unfolding reject_extended_def sel ..
  moreover have "query_for cx config (p\<lparr>xp_from := x\<rparr>) = (query_for cx config p)\<lparr>eq_from := x\<rparr>" for p x
    unfolding query_for_def extended_filter_def sel by simp
  ultimately show ?thesis using assms(1,3)
    by (auto simp: extended_query_of_def parsed Let_def split: option.splits if_splits)
qed

lemma filter_supported:
  assumes "extended_query_of cx config st ps = Inr q" and "cx_storage cx = memory_adapter u ev (st_trustMarks st \<noteq> None)"
  shows "\<exists>m. mark_filter st (eq_filter q) = Inr m"
proof -
  let ?p = "parse_extended config ps"
  have r: "reject_extended cx config ?p = None" and q: "eq_filter q = extended_filter (cx_now cx) ?p"
    using assms(1) by (auto simp: extended_query_of_def Let_def query_for_def split: option.splits if_splits)
  from r have "\<not> ((xp_trustMarked ?p \<noteq> None \<or> length (xp_trustMarkTypes ?p) > 0) \<and> as_marks (cx_storage cx) = None)"
    unfolding reject_extended_def bad_request_def unsupported_parameter_def by (simp only: option.distinct split: if_splits) simp_all
  then show ?thesis using assms(2) unfolding q
    by (cases "st_trustMarks st") (auto simp: mark_filter_def extended_filter_def)
qed

text \<open>One response: the identifiers from the cursor's position on, and the cursor behind the last one.\<close>

lemma page_response:
  assumes fill: "\<exists>f'. fill_page (\<lambda>c. as_list (cx_storage cx) st (eq_filter q) ((eq_options q)\<lparr>po_cursor := c\<rparr>)) (eq_limit q) (max_store_pages config)
      \<lparr>pf_accumulated = [], pf_storeCursor = eq_from q, pf_nextEntityId = None, pf_pagesFetched = 0, pf_storeExhausted = False\<rparr> = Inr f' \<and>
      pf_accumulated f' = rs \<and> next_of (eq_limit q) (max_store_pages config) f' = nxt"
    and entries_ok: "\<forall>r \<in> set rs. \<exists>v. extended_entry cx st q r = Inr v"
  shows "\<exists>response. extended_page cx config st q = Inr response \<and> listed response = Some (map (\<lambda>r. JStr (sr_entityId r)) rs, nxt)"
proof -
  have "\<exists>es. extended_entries cx st q rs = Inr es" using entries_ok by (induction rs) force+
  then obtain es where es: "extended_entries cx st q rs = Inr es" by blast
  from fill obtain f' where f': "fill_page (\<lambda>c. as_list (cx_storage cx) st (eq_filter q) ((eq_options q)\<lparr>po_cursor := c\<rparr>)) (eq_limit q) (max_store_pages config)
      \<lparr>pf_accumulated = [], pf_storeCursor = eq_from q, pf_nextEntityId = None, pf_pagesFetched = 0, pf_storeExhausted = False\<rparr> = Inr f'"
    "pf_accumulated f' = rs" "next_of (eq_limit q) (max_store_pages config) f' = nxt" by blast
  then show ?thesis
    by (simp add: extended_page_def es listed_def entries_ids [OF es] pget_def claim_if_def split: option.splits)
qed

lemma entry_ignores_cursor: "extended_entry cx st (q\<lparr>eq_from := x\<rparr>) r = extended_entry cx st q r"
proof -
  have "eq_claims (q\<lparr>eq_from := x\<rparr>) = eq_claims q" "eq_audit (q\<lparr>eq_from := x\<rparr>) = eq_audit q" by simp_all
  then show ?thesis unfolding extended_entry_def by (simp only:)
qed

lemma handler_page:
  assumes "ec_enabled config \<noteq> Some False" and "extended_query_of cx config st ps = Inr q"
    and "extended_page cx config st q = Inr response"
  shows "createExtendedListHandler cx config st (get_request ps) = response"
  using assms by (simp add: createExtendedListHandler_def requireMethod_def get_request_def or_server_error_def)

lemma query_at:
  assumes "extended_query_of cx config st ps = Inr q" and "\<not> has_param ps ''from''"
    and "\<And>x. c = Some x \<Longrightarrow> so_get (as_records (cx_storage cx)) st x \<noteq> None"
  shows "extended_query_of cx config st (sq_query (page_request ps c)) = Inr (q\<lparr>eq_from := c\<rparr>)"
proof (cases c)
  case None
  have "param ps ''from'' = None" using assms(2) by (simp add: param_def has_param_def map_of_eq_None_iff)
  then have "eq_from (query_for cx config (parse_extended config ps)) = None" by (simp add: query_for_def parse_extended_def)
  moreover have "q = query_for cx config (parse_extended config ps)"
    using assms(1) by (auto simp: extended_query_of_def Let_def split: option.splits if_splits)
  ultimately have "q\<lparr>eq_from := None\<rparr> = q" by (cases q) simp
  with None assms(1) show ?thesis by (simp add: page_request_def get_request_def)
next
  case (Some x)
  with query_with_cursor [OF assms(1,2) assms(3)] show ?thesis by (simp add: page_request_def get_request_def)
qed

lemma matching_registered:
  assumes "storage_ok st" and "r \<in> set (matching_subordinates f opts st)"
  shows "get_subordinate st (sr_entityId r) \<noteq> None"
proof -
  have "r \<in> snd ` set (st_subordinates st)"
    using assms(2) by (auto simp: matching_subordinates_def split: sum.splits)
  then obtain k where "(k, r) \<in> set (st_subordinates st)" by force
  moreover from this assms(1) have "k = sr_entityId r" by (auto simp: storage_ok_def subordinates_ok_def list_all_iff)
  ultimately show ?thesis unfolding get_subordinate_def map_of_eq_None_iff by force
qed

lemma fill_from_cursor:
  assumes ls: "listing_store xs n store" and "0 < P" and "0 < L"
    and c: "xs = [] \<and> c = None \<or> j < length xs \<and> (c = Some (sr_entityId (xs ! j)) \<or> (c = None \<and> j = 0))"
  shows "\<exists>f'. fill_page store (of_nat L) (of_nat P)
      \<lparr>pf_accumulated = [], pf_storeCursor = c, pf_nextEntityId = None, pf_pagesFetched = 0, pf_storeExhausted = False\<rparr> = Inr f' \<and>
    (let k = page_size L P n (length xs - j) in
     pf_accumulated f' = take k (drop j xs) \<and>
     next_of (of_nat L) (of_nat P) f' = (if j + k < length xs then Some (sr_entityId (xs ! (j + k))) else None))"
proof (cases "xs = []")
  case True
  with ls have "store c = Inr \<lparr>lp_items = [], lp_nextCursor = None\<rparr>" by (simp add: listing_store_def)
  with True assms(2,3) show ?thesis by (subst fill_page.simps) (simp add: next_of_def)
next
  case False
  with c fill_exact [OF ls, of j "\<lparr>pf_accumulated = [], pf_storeCursor = c, pf_nextEntityId = None, pf_pagesFetched = 0,
      pf_storeExhausted = False\<rparr>" P L] assms(2,3)
  show ?thesis by auto
qed

lemma follow_from:
  assumes "0 < L" "0 < P" "0 < n"
    and page: "\<And>c j. xs = [] \<and> c = None \<and> j = 0 \<or> j < length xs \<and> (c = Some (key (xs ! j)) \<or> (c = None \<and> j = 0)) \<Longrightarrow>
      get c = (let k = page_size L P n (length xs - j) in
        Some (map f (take k (drop j xs)), if j + k < length xs then Some (key (xs ! (j + k))) else None))"
  shows "xs = [] \<and> c = None \<and> j = 0 \<or> j < length xs \<and> (c = Some (key (xs ! j)) \<or> (c = None \<and> j = 0)) \<Longrightarrow>
    length xs - j < fuel \<Longrightarrow> follow_pages fuel get c = Some (map f (drop j xs))"
proof (induction fuel arbitrary: c j)
  case (Suc fuel)
  define k where "k = page_size L P n (length xs - j)"
  have get: "get c = Some (map f (take k (drop j xs)), if j + k < length xs then Some (key (xs ! (j + k))) else None)"
    using page [OF Suc.prems(1)] by (simp add: Let_def k_def)
  show ?case
  proof (cases "j + k < length xs")
    case True
    then have "0 < k" using assms(1-3) Suc.prems(1) by (auto simp: k_def page_size_def)
    with True Suc.prems(2) have "follow_pages fuel get (Some (key (xs ! (j + k)))) = Some (map f (drop (j + k) xs))"
      by (intro Suc.IH) auto
    moreover have "drop j xs = take k (drop j xs) @ drop (j + k) xs" by (metis append_take_drop_id drop_drop add.commute)
    ultimately show ?thesis using get True by (simp add: map_append [symmetric] del: map_append)
  next
    case False
    then have "take k (drop j xs) = drop j xs" by simp
    with get False show ?thesis by simp
  qed
qed simp

text \<open>
  C17: Following the pages of the extended listing enumerates the subordinates that match the query, each exactly
  once and in the order of their identifiers, and then ends: whatever page size the client asks for and whatever
  limits the configuration sets on pages and on reads of the storage, as long as they are positive integers. Every
  page but the last is continued exactly behind its last entry.
\<close>
theorem extended_listing_complete:
  assumes store: "cx_storage cx = memory_adapter u ev (st_trustMarks st \<noteq> None)" "storage_ok st"
    and config: "ec_enabled config \<noteq> Some False" "max_store_pages config = of_nat P" "0 < P"
    and query: "extended_query_of cx config st ps = Inr q" "\<not> has_param ps ''from''"
      "po_limit (eq_options q) = Some (of_nat n)" "0 < n" "eq_limit q = of_nat L" "0 < L"
    and entries_ok: "\<forall>r \<in> set (matching_subordinates (eq_filter q) (eq_options q) st). \<exists>v. extended_entry cx st q r = Inr v"
  shows "let xs = matching_subordinates (eq_filter q) (eq_options q) st in
    follow_pages (Suc (length xs)) (\<lambda>c. listed (createExtendedListHandler cx config st (page_request ps c))) None =
      Some (map (\<lambda>r. JStr (sr_entityId r)) xs)"
proof -
  define xs where "xs = matching_subordinates (eq_filter q) (eq_options q) st"
  let ?store = "\<lambda>c. as_list (cx_storage cx) st (eq_filter q) ((eq_options q)\<lparr>po_cursor := c\<rparr>)"
  obtain m where "mark_filter st (eq_filter q) = Inr m" using filter_supported [OF query(1) store(1)] by blast
  from memory_listing_store [OF store(2) this query(4,3)] have ls: "listing_store xs n ?store" by (simp add: xs_def store(1))
  have page: "listed (createExtendedListHandler cx config st (page_request ps c)) =
      (let k = page_size L P n (length xs - j) in
        Some (map (\<lambda>r. JStr (sr_entityId r)) (take k (drop j xs)), if j + k < length xs then Some (sr_entityId (xs ! (j + k))) else None))"
    if c: "xs = [] \<and> c = None \<and> j = 0 \<or> j < length xs \<and> (c = Some (sr_entityId (xs ! j)) \<or> (c = None \<and> j = 0))" for c j
  proof -
    let ?k = "page_size L P n (length xs - j)"
    have reg: "so_get (as_records (cx_storage cx)) st x \<noteq> None" if "c = Some x" for x
      using that c matching_registered [OF store(2), of "xs ! j" "eq_filter q" "eq_options q"] by (auto simp: store(1) xs_def)
    note q' = query_at [OF query(1,2) reg]
    have "\<exists>response. extended_page cx config st (q\<lparr>eq_from := c\<rparr>) = Inr response \<and> listed response =
        Some (map (\<lambda>r. JStr (sr_entityId r)) (take ?k (drop j xs)), if j + ?k < length xs then Some (sr_entityId (xs ! (j + ?k))) else None)"
    proof (rule page_response)
      show "\<forall>r \<in> set (take ?k (drop j xs)). \<exists>v. extended_entry cx st (q\<lparr>eq_from := c\<rparr>) r = Inr v"
        using entries_ok by (auto simp: entry_ignores_cursor xs_def dest!: in_set_takeD in_set_dropD)
    qed (use fill_from_cursor [OF ls config(3) query(6), of c j] c in \<open>auto simp: query(5) config(2) Let_def\<close>)
    then show ?thesis using handler_page [OF config(1) q'] by (auto simp: Let_def page_request_def get_request_def)
  qed
  have "follow_pages (Suc (length xs)) (\<lambda>c. listed (createExtendedListHandler cx config st (page_request ps c))) None =
      Some (map (\<lambda>r. JStr (sr_entityId r)) (drop 0 xs))"
    by (rule follow_from [OF query(6) config(3) query(4) page]) auto
  then show ?thesis by (simp only: Let_def xs_def drop_0)
qed

definition default_config :: extended_config where
  "default_config = \<lparr>ec_enabled = None, ec_maxPageSize = None, ec_defaultPageSize = None, ec_supportTimeFilters = None,
     ec_supportAuditTimestamps = None, ec_defaultClaims = None, ec_maxStorePages = Some 2, ec_storeBatchSize = Some 1\<rparr>"

definition example_listing_params :: url_params where
  "example_listing_params = [(''limit'', ''1''), (''claims'', ''sub,iss'')]"

definition example_query :: extended_query where
  "example_query = query_for example_context default_config (parse_extended default_config example_listing_params)"

definition example_pair :: memory_state where
  "example_pair = perform_all (\<lambda>_. True) [AddSubordinate (example_record\<lparr>sr_entityId := ''https://op''\<rparr>), AddSubordinate example_record]
     (MemoryStorageAdapter True True)"

theorem extended_listing_complete_witness:
  "follow_pages 3 (\<lambda>c. listed (createExtendedListHandler example_context default_config example_pair (page_request example_listing_params c))) None =
     Some [JStr ''https://leaf'', JStr ''https://op'']"
proof -
  have m: "matching_subordinates (eq_filter example_query) (eq_options example_query) example_pair =
      [example_record, example_record\<lparr>sr_entityId := ''https://op''\<rparr>]" by code_simp
  have c: "cx_storage example_context = memory_adapter (\<lambda>_. True) True (st_trustMarks example_pair \<noteq> None)"
  proof -
    have "st_trustMarks example_pair = Some []" by code_simp
    then show ?thesis by (simp add: example_context_def)
  qed
  have ok: "storage_ok example_pair" by code_simp
  have config: "ec_enabled default_config \<noteq> Some False" "max_store_pages default_config = of_nat 2" "0 < (2 :: nat)" by code_simp+
  have query: "extended_query_of example_context default_config example_pair example_listing_params = Inr example_query"
    "\<not> has_param example_listing_params ''from''" "po_limit (eq_options example_query) = Some (of_nat 1)" "0 < (1 :: nat)"
    "eq_limit example_query = of_nat 1" by code_simp+
  have "list_all (\<lambda>r. case extended_entry example_context example_pair example_query r of Inl _ \<Rightarrow> False | Inr _ \<Rightarrow> True)
      [example_record, example_record\<lparr>sr_entityId := ''https://op''\<rparr>]" by code_simp
  then have es: "\<forall>r \<in> set (matching_subordinates (eq_filter example_query) (eq_options example_query) example_pair).
      \<exists>v. extended_entry example_context example_pair example_query r = Inr v"
    unfolding m by (auto split: sum.splits)
  from extended_listing_complete [OF c ok config query(1-5) query(4) es] show ?thesis
    unfolding m Let_def by (simp add: example_record_def numeral_3_eq_3)
qed

section \<open>Two consequences\<close>

text \<open>A storage batch size of zero is accepted and makes every listing empty, since an empty page counts as the
  end of the storage.\<close>

lemma zero_batch_lists_nothing:
  assumes "cx_storage cx = memory_adapter u ev tm" and "mark_filter st (eq_filter q) = Inr m"
    and "po_limit (eq_options q) = Some 0" and "0 < eq_limit q" and "0 < max_store_pages config"
  shows "\<exists>response. extended_page cx config st q = Inr response \<and> listed response = Some ([], None)"
proof (rule page_response [where rs = "[]", simplified])
  let ?xs = "from_cursor sr_entityId (eq_from q) (matching_subordinates (eq_filter q) (eq_options q) st)"
  have opts: "(eq_options q)\<lparr>po_cursor := eq_from q\<rparr> = (eq_options q)\<lparr>po_cursor := eq_from q, po_limit := Some 0\<rparr>"
    using assms(3) by (cases "eq_options q") simp
  have "list_subordinates st (eq_filter q) ((eq_options q)\<lparr>po_cursor := eq_from q\<rparr>) = Inr (page_of sr_entityId (of_nat 0) ?xs)"
    using list_subordinates_page [OF assms(2), where opts = "eq_options q" and c = "eq_from q" and limit = 0] by (subst opts) simp
  then have empty: "\<exists>nxt. list_subordinates st (eq_filter q) ((eq_options q)\<lparr>po_cursor := eq_from q\<rparr>) = Inr \<lparr>lp_items = [], lp_nextCursor = nxt\<rparr>"
    unfolding page_of_nat by simp
  then show "\<exists>f'. fill_page (\<lambda>c. as_list (cx_storage cx) st (eq_filter q) ((eq_options q)\<lparr>po_cursor := c\<rparr>)) (eq_limit q) (max_store_pages config)
      \<lparr>pf_accumulated = [], pf_storeCursor = eq_from q, pf_nextEntityId = None, pf_pagesFetched = 0, pf_storeExhausted = False\<rparr> = Inr f' \<and>
      pf_accumulated f' = [] \<and> next_of (eq_limit q) (max_store_pages config) f' = None"
    using assms(1,4,5) by (subst fill_page.simps) (auto simp: next_of_def)
qed

text \<open>A claim name that the table inherits is not ignored: \<open>constructor\<close> gives the whole stored record.\<close>

lemma inherited_claim_discloses_record:
  "extractClaims cx st r now [''constructor''] = Inr [(''constructor'', record_json r)]"
  by (simp add: extractClaims_def extract_claim_def extended_claims_def record_json_def)

end
