(* ===== verification/Authority_Server.thy ===== *)
theory Authority_Server
  imports Resolve_Endpoint Extended_Listing
begin

text \<open>
  packages/authority/src/server.ts: the checks of a configuration, the routes of an authority, its router, its
  direct methods, and the classes \<open>TrustAnchor\<close> and \<open>Intermediate\<close>.

  A handler works on the committed state of the storage paired with the replay store. The collection service is
  an argument (its authentication methods and its handler). Metadata claims that list methods or algorithms are
  lists of strings, as their types say. The platform record holds what the authority uses of
  URL, TextDecoder, TextEncoder, URLSearchParams, JSON.stringify, zod and jose.
\<close>

section \<open>Configuration\<close>

record platform =
  pf_schemas :: builder_schemas
  pf_url_ok :: "string \<Rightarrow> bool"
  pf_path :: "string \<Rightarrow> string" \<comment> \<open>\<open>new URL(u).pathname\<close>\<close>
  pf_mark :: "string \<Rightarrow> bool" \<comment> \<open>\<open>new URL(u).href\<close> contains a hash mark\<close>
  pf_jose :: jose
  pf_text :: "byte list \<Rightarrow> string"
  pf_encode :: "string \<Rightarrow> byte list"
  pf_form :: "string \<Rightarrow> url_params"
  pf_printForm :: "url_params \<Rightarrow> string"
  pf_printJson :: "jsval \<Rightarrow> string"
  pf_encodeComponent :: "string \<Rightarrow> string"
  pf_now :: number \<comment> \<open>the system's time\<close>

record collection_service =
  cl_methods :: "string list option"
  cl_handle :: "server_request \<Rightarrow> handled"

type_synonym ('s, 'r) served = "'s \<times> 'r"

record ('s, 'r) authority_config =
  ac_collection :: "collection_service option"
  ac_entityId :: string
  ac_metadata :: jsval
  ac_storage :: "'s authority_storage"
  ac_replay :: "(replay_claim \<Rightarrow> 'r \<Rightarrow> use_result \<times> 'r) option"
  ac_keySet :: "(string, jwt_signer \<times> jwk list) result"
  ac_historicalKeys :: "(string, jwk list) result"
  ac_clientKeyProvider :: "(jsval \<Rightarrow> (string, jsval option) result) option"
  ac_roles :: "entity_role list option"
  ac_trustMarks :: "jsval list option"
  ac_trustMarkIssuers :: "string list dict option"
  ac_trustMarkOwners :: "jsval dict option"
  ac_trustMarkDelegations :: "string dict option"
  ac_authorityHints :: "string list option"
  ac_trustAnchorHints :: "string list option"
  ac_entityConfigurationTtlSeconds :: "number option"
  ac_subordinateStatementTtlSeconds :: "number option"
  ac_trustMarkTtlSeconds :: "number option"
  ac_clock :: "number option"
  ac_clockSkewSeconds :: "number option"
  ac_extendedListing :: extended_config
  ac_resolver :: resolve_env \<comment> \<open>trust anchors and options of the resolver\<close>

definition refuse :: "string \<Rightarrow> (authority_error, 'a) result" where
  "refuse m = Inl (InvalidAuthorityConfig m)"

definition normalizeAuthorityEntityId :: "platform \<Rightarrow> string \<Rightarrow> (authority_error, string) result" where
  "normalizeAuthorityEntityId P value =
     (let normalized = (if value \<noteq> [] \<and> last value = CHR ''/'' then butlast value else value) in
      if \<not> isValidEntityId (bs_parse_url (pf_schemas P)) normalized
      then Inl (Thrown ''entityId MUST be a valid HTTPS URL without query or fragment'') else Inr normalized)"

definition WELL_KNOWN_OPENID_FEDERATION :: string where
  "WELL_KNOWN_OPENID_FEDERATION = ''/.well-known/openid-federation''"

definition wellKnownPathForEntityId :: "platform \<Rightarrow> string \<Rightarrow> string" where
  "wellKnownPathForEntityId P value =
     (let path = pf_path P value;
          basePath = (if path \<noteq> [] \<and> last path = CHR ''/'' then butlast path else path)
      in basePath @ WELL_KNOWN_OPENID_FEDERATION)"

definition check_ttl :: "string \<times> number option \<Rightarrow> unit \<Rightarrow> (authority_error, unit) result" where
  "check_ttl f u = (case f of (name, value) \<Rightarrow>
     (case value of Some v \<Rightarrow> if v \<le> 0 then Inl (Thrown (name @ '' must be positive'')) else Inr () | None \<Rightarrow> Inr ()))"

definition check_ttls :: "('s, 'r) authority_config \<Rightarrow> (authority_error, unit) result" where
  "check_ttls cf =
     for_each check_ttl
       [(''entityConfigurationTtlSeconds'', ac_entityConfigurationTtlSeconds cf),
        (''subordinateStatementTtlSeconds'', ac_subordinateStatementTtlSeconds cf),
        (''trustMarkTtlSeconds'', ac_trustMarkTtlSeconds cf)] ()"

definition check_hint :: "platform \<Rightarrow> string \<Rightarrow> unit \<Rightarrow> (authority_error, unit) result" where
  "check_hint P hint u =
     (if \<not> isValidEntityId (bs_parse_url (pf_schemas P)) hint
      then refuse (''trustAnchorHint '' @ quoted hint @
        '' is not a valid Entity Identifier; it must be an HTTPS URL without query or fragment.'')
      else Inr ())"

definition assertTrustAnchorHintsConfig ::
  "platform \<Rightarrow> string list option \<Rightarrow> bool \<Rightarrow> (authority_error, unit) result" where
  "assertTrustAnchorHintsConfig P hints isTrustAnchor =
     (if hints = Some [] then refuse ''trustAnchorHints must be a non-empty array when provided.''
      else
        (case for_each (check_hint P) (or_empty hints) () of
           Inl e \<Rightarrow> Inl e
         | Inr _ \<Rightarrow>
             if isTrustAnchor \<and> hints \<noteq> None
             then refuse ''trustAnchorHints is only meaningful for an Intermediate Authority; Trust Anchor Entity Configurations must not contain trust_anchor_hints.''
             else Inr ()))"

definition check_anchor_claims :: "('s, 'r) authority_config \<Rightarrow> bool \<Rightarrow> (authority_error, unit) result" where
  "check_anchor_claims cf isTrustAnchor =
     (if isTrustAnchor then Inr ()
      else if ac_trustMarkIssuers cf \<noteq> None
      then refuse (''trustMarkIssuers is only meaningful for a Trust Anchor (an authority with no authorityHints). Remove it from the Intermediate'' @ [CHR 0x27] @ ''s config.'')
      else if ac_trustMarkOwners cf \<noteq> None
      then refuse (''trustMarkOwners is only meaningful for a Trust Anchor (an authority with no authorityHints). Remove it from the Intermediate'' @ [CHR 0x27] @ ''s config.'')
      else Inr ())"

section \<open>Endpoint paths and routes\<close>

definition advertisedEndpointPath :: "platform \<Rightarrow> string \<Rightarrow> jsval \<Rightarrow> (authority_error, string option) result" where
  "advertisedEndpointPath P endpointName endpoint =
     (let invalid = refuse (''metadata.federation_entity.'' @ endpointName @ '' must be an HTTPS URL without fragment.'') in
      case endpoint of
        JUndef \<Rightarrow> Inr None
      | JStr u \<Rightarrow>
          (case bs_parse_url (pf_schemas P) u of
             None \<Rightarrow> invalid
           | Some url \<Rightarrow> if url_protocol url \<noteq> ''https:'' \<or> pf_mark P u then invalid else Inr (Some (pf_path P u)))
      | _ \<Rightarrow> invalid)"

definition requireAdvertisedEndpointPath :: "platform \<Rightarrow> string \<Rightarrow> jsval \<Rightarrow> (authority_error, string) result" where
  "requireAdvertisedEndpointPath P endpointName endpoint =
     (let missing = refuse (''metadata.federation_entity.'' @ endpointName @ '' is required for an Authority.'') in
      if \<not> is_str endpoint then missing
      else
        (case advertisedEndpointPath P endpointName endpoint of
           Inl e \<Rightarrow> Inl e | Inr None \<Rightarrow> missing | Inr (Some path) \<Rightarrow> Inr path))"

text \<open>\<open>routeMap\<close> and \<open>routeNames\<close>, which have the same paths.\<close>

type_synonym 'x routes = "(string \<times> string \<times> 'x route_handler) list"

definition addAuthorityRoute :: "string \<Rightarrow> string \<Rightarrow> 'x route_handler \<Rightarrow> 'x routes \<Rightarrow> (authority_error, 'x routes) result" where
  "addAuthorityRoute endpointName path handler routes =
     (case map_of routes path of
        Some (existingEndpoint, _) \<Rightarrow>
          refuse (''Authority endpoint route path '' @ quoted path @ '' is used by both '' @ existingEndpoint @ '' and '' @
            endpointName @ ''. Advertise distinct endpoint URLs.'')
      | None \<Rightarrow> Inr (routes @ [(path, endpointName, handler)]))"

definition addOptionalAuthorityRoute ::
  "platform \<Rightarrow> string \<Rightarrow> jsval \<Rightarrow> 'x route_handler \<Rightarrow> 'x routes \<Rightarrow> (authority_error, 'x routes) result"
where
  "addOptionalAuthorityRoute P endpointName endpoint handler routes =
     (case advertisedEndpointPath P endpointName endpoint of
        Inl e \<Rightarrow> Inl e
      | Inr None \<Rightarrow> Inr routes
      | Inr (Some path) \<Rightarrow> addAuthorityRoute endpointName path handler routes)"

section \<open>The context of the handlers\<close>

definition authority_context :: "platform \<Rightarrow> ('s, 'r) authority_config \<Rightarrow> string \<Rightarrow> 's handler_context" where
  "authority_context P cf entityId' =
     \<lparr>cx_roles = ac_roles cf, cx_entityId = entityId', cx_authorityHints = ac_authorityHints cf,
      cx_trustAnchorHints = ac_trustAnchorHints cf, cx_keySet = ac_keySet cf, cx_historicalKeys = ac_historicalKeys cf,
      cx_storage = ac_storage cf, cx_metadata = ac_metadata cf, cx_trustMarks = ac_trustMarks cf,
      cx_trustMarkIssuers = ac_trustMarkIssuers cf, cx_trustMarkOwners = ac_trustMarkOwners cf,
      cx_trustMarkDelegations = ac_trustMarkDelegations cf, cx_now = nowSeconds (pf_now P) (ac_clock cf), cx_clock = ac_clock cf,
      cx_clockSkewSeconds = ac_clockSkewSeconds cf, cx_entityConfigurationTtlSeconds = ac_entityConfigurationTtlSeconds cf,
      cx_subordinateStatementTtlSeconds = ac_subordinateStatementTtlSeconds cf, cx_trustMarkTtlSeconds = ac_trustMarkTtlSeconds cf,
      cx_schemas = pf_schemas P, cx_url_ok = pf_url_ok P, cx_jose = pf_jose P, cx_text = pf_text P, cx_form = pf_form P\<rparr>"

definition createStorageBackedClientKeyProvider :: "'s storage \<Rightarrow> 's \<Rightarrow> jsval \<Rightarrow> (string, jsval option) result" where
  "createStorageBackedClientKeyProvider S st entityId' =
     Inr (case entityId' of
            JStr k \<Rightarrow> (case so_get S st k of None \<Rightarrow> None | Some r \<Rightarrow> if truthy (sr_jwks r) then Some (sr_jwks r) else None)
          | _ \<Rightarrow> None)"

text \<open>The replay store as a part of the served state.\<close>

definition on_replay :: "(replay_claim \<Rightarrow> 'r \<Rightarrow> use_result \<times> 'r) \<Rightarrow> replay_claim \<Rightarrow> ('s, 'r) served \<Rightarrow> use_result \<times> ('s, 'r) served" where
  "on_replay use c x = (case use c (snd x) of (u, r) \<Rightarrow> (u, (fst x, r)))"

definition authority_auth :: "platform \<Rightarrow> ('s, 'r) authority_config \<Rightarrow> ('s, 'r) served auth_env" where
  "authority_auth P cf =
     \<lparr>au_replay = map_option on_replay (ac_replay cf),
      au_clientKeys = (\<lambda>x iss. case ac_clientKeyProvider cf of
         Some provider \<Rightarrow> provider iss
       | None \<Rightarrow> createStorageBackedClientKeyProvider (as_records (ac_storage cf)) (fst x) iss),
      au_printForm = pf_printForm P, au_encode = pf_encode P, au_now = pf_now P\<rparr>"

text \<open>The method claims of the metadata.\<close>

definition auth_methods :: "jsval \<Rightarrow> (authority_error, string list option) result" where
  "auth_methods v =
     (case v of
        JUndef \<Rightarrow> Inr None
      | JNull \<Rightarrow> Inr None
      | JArr xs \<Rightarrow> Inr (Some (map str_of xs))
      | _ \<Rightarrow> Inl (Thrown ''TypeError''))"

definition signing_algs :: "jsval \<Rightarrow> string list option" where
  "signing_algs meta = string_list (mget meta ''endpoint_auth_signing_alg_values_supported'')"

definition withAuth ::
  "'s handler_context \<Rightarrow> 'x auth_env \<Rightarrow> jsval \<Rightarrow> ('x \<Rightarrow> server_request \<Rightarrow> handled) \<Rightarrow> jsval \<Rightarrow> native_method \<Rightarrow>
   (authority_error, 'x route_handler) result"
where
  "withAuth cx A meta handler authMethods nativeMethod =
     (case auth_methods authMethods of
        Inl e \<Rightarrow> Inl e
      | Inr ms \<Rightarrow> createAuthenticatedHandler cx A handler ms nativeMethod (signing_algs meta))"

section \<open>The endpoints\<close>

text \<open>An endpoint: the name of its metadata claim, its native method, its handler, and what becomes of the
  wrapped handler.\<close>

record 'x endpoint =
  ep_name :: string
  ep_native :: native_method
  ep_handler :: "'x \<Rightarrow> server_request \<Rightarrow> handled"
  ep_finish :: "'x route_handler \<Rightarrow> 'x route_handler"

definition methods_claim :: "'x endpoint \<Rightarrow> string" where
  "methods_claim ep = ep_name ep @ ''_auth_methods''"

definition event_errors :: "'x route_handler \<Rightarrow> 'x route_handler" where
  "event_errors h x request =
     (case h x request of (r, x') \<Rightarrow>
        (map_option (\<lambda>o'. case o' of Inl e \<Rightarrow> Inl e | Inr response \<Rightarrow> Inr (withSubordinateEventsMethodErrors response)) r, x'))"

definition plain_endpoint :: "string \<Rightarrow> ('x \<Rightarrow> server_request \<Rightarrow> handled) \<Rightarrow> 'x endpoint" where
  "plain_endpoint name handler = \<lparr>ep_name = name, ep_native = NativeGet, ep_handler = handler, ep_finish = id\<rparr>"

definition fetch_route :: "'s handler_context \<Rightarrow> ('s, 'r) served endpoint" where
  "fetch_route cx = plain_endpoint ''federation_fetch_endpoint'' (\<lambda>x request. respond (createFetchHandler cx (fst x) request))"

definition list_route :: "'s handler_context \<Rightarrow> ('s, 'r) served endpoint" where
  "list_route cx = plain_endpoint ''federation_list_endpoint'' (\<lambda>x request. respond (createListHandler cx (fst x) request))"

definition optional_endpoints ::
  "'s handler_context \<Rightarrow> extended_config \<Rightarrow> resolve_env \<Rightarrow> ('s, 'r) served endpoint list"
where
  "optional_endpoints cx ext V =
     [plain_endpoint ''federation_extended_list_endpoint'' (\<lambda>x request. respond (createExtendedListHandler cx ext (fst x) request)),
      plain_endpoint ''federation_historical_keys_endpoint'' (\<lambda>x request. respond (createHistoricalKeysHandler cx request)),
      (plain_endpoint ''federation_trust_mark_status_endpoint'' (\<lambda>x request. Some (createTrustMarkStatusHandler cx (fst x) request)))
        \<lparr>ep_native := NativePost\<rparr>,
      plain_endpoint ''federation_trust_mark_list_endpoint''
        (\<lambda>x request. map_option Inr (createTrustMarkListHandler cx (fst x) request)),
      plain_endpoint ''federation_trust_mark_endpoint'' (\<lambda>x request. respond (createTrustMarkHandler cx (fst x) request)),
      plain_endpoint ''federation_resolve_endpoint'' (\<lambda>x request. Some (createResolveHandler cx V (fst x) request)),
      (plain_endpoint ''federation_subordinate_events_endpoint''
        (\<lambda>x request. respond (createSubordinateEventsHandler cx (fst x) request)))\<lparr>ep_finish := event_errors\<rparr>]"

definition route_of ::
  "'s handler_context \<Rightarrow> 'x auth_env \<Rightarrow> jsval \<Rightarrow> 'x endpoint \<Rightarrow> (authority_error, 'x route_handler) result"
where
  "route_of cx A meta ep =
     (case withAuth cx A meta (ep_handler ep) (mget meta (methods_claim ep)) (ep_native ep) of
        Inl e \<Rightarrow> Inl e | Inr h \<Rightarrow> Inr (ep_finish ep h))"

definition add_required ::
  "'s handler_context \<Rightarrow> 'x auth_env \<Rightarrow> jsval \<Rightarrow> 'x endpoint \<times> string \<Rightarrow> 'x routes \<Rightarrow> (authority_error, 'x routes) result"
where
  "add_required cx A meta e routes =
     (case e of (ep, path) \<Rightarrow>
        (case route_of cx A meta ep of Inl err \<Rightarrow> Inl err | Inr h \<Rightarrow> addAuthorityRoute (ep_name ep) path h routes))"

definition add_optional ::
  "platform \<Rightarrow> 's handler_context \<Rightarrow> 'x auth_env \<Rightarrow> jsval \<Rightarrow> 'x endpoint \<Rightarrow> 'x routes \<Rightarrow> (authority_error, 'x routes) result"
where
  "add_optional P cx A meta ep routes =
     (case route_of cx A meta ep of
        Inl e \<Rightarrow> Inl e | Inr h \<Rightarrow> addOptionalAuthorityRoute P (ep_name ep) (mget meta (ep_name ep)) h routes)"

section \<open>The server\<close>

record ('s, 'r) server =
  sv_context :: "'s handler_context"
  sv_config :: "('s, 'r) authority_config"
  sv_routes :: "('s, 'r) served routes"

text \<open>The checks before the context is built; the paths of the two required endpoints.\<close>

definition check_storage :: "('s, 'r) authority_config \<Rightarrow> jsval \<Rightarrow> (authority_error, unit) result" where
  "check_storage cf fedEntity =
     (if list_ex (\<lambda>c. is_str (mget fedEntity c))
           [''federation_trust_mark_endpoint'', ''federation_trust_mark_status_endpoint'', ''federation_trust_mark_list_endpoint''] \<and>
         as_marks (ac_storage cf) = None
      then refuse ''Trust mark endpoints require storage.trustMarks to be configured.''
      else if mget fedEntity ''federation_subordinate_events_endpoint'' \<noteq> JUndef \<and> \<not> so_events (as_records (ac_storage cf))
      then refuse ''The subordinate events endpoint requires storage.subordinateEvents''
      else Inr ())"

definition is_trust_anchor :: "('s, 'r) authority_config \<Rightarrow> bool" where
  "is_trust_anchor cf \<longleftrightarrow> length (or_empty (ac_authorityHints cf)) = 0"

definition check_roles_of_hints :: "platform \<Rightarrow> ('s, 'r) authority_config \<Rightarrow> (authority_error, unit) result" where
  "check_roles_of_hints P cf =
     (if ac_authorityHints cf = Some []
      then refuse ''authorityHints must be undefined (Trust Anchor) or a non-empty array of superior Entity Identifiers (Intermediate); an empty array is not allowed.''
      else
        (case assertTrustAnchorHintsConfig P (ac_trustAnchorHints cf) (is_trust_anchor cf) of
           Inl e \<Rightarrow> Inl e | Inr _ \<Rightarrow> check_anchor_claims cf (is_trust_anchor cf)))"

definition required_paths :: "platform \<Rightarrow> jsval \<Rightarrow> (authority_error, string \<times> string) result" where
  "required_paths P fedEntity =
     (if \<not> truthy fedEntity
      then refuse ''metadata.federation_entity.federation_fetch_endpoint is required for an Authority. Set it to the URL where this server serves the fetch endpoint.''
      else
        (case requireAdvertisedEndpointPath P ''federation_fetch_endpoint'' (mget fedEntity ''federation_fetch_endpoint'') of
           Inl e \<Rightarrow> Inl e
         | Inr fetchPath \<Rightarrow>
             (case requireAdvertisedEndpointPath P ''federation_list_endpoint'' (mget fedEntity ''federation_list_endpoint'') of
                Inl e \<Rightarrow> Inl e | Inr listPath \<Rightarrow> Inr (fetchPath, listPath))))"

definition check_metadata :: "('s, 'r) authority_config \<Rightarrow> (authority_error, unit) result" where
  "check_metadata cf =
     (case assertMetadataValuesNotNull (ac_metadata cf) of
        Inl e \<Rightarrow> Inl e
      | Inr _ \<Rightarrow> rethrow (validateRoleMetadata (or_empty (ac_roles cf)) (ac_metadata cf)))"

text \<open>\<open>JSON.stringify\<close> of the sorted sets of methods is equal exactly for equal sets.\<close>

definition check_collection :: "('s, 'r) authority_config \<Rightarrow> jsval \<Rightarrow> (authority_error, unit) result" where
  "check_collection cf meta =
     (let advertised = (case string_list (mget meta ''federation_collection_endpoint_auth_methods'') of Some ms \<Rightarrow> ms | None \<Rightarrow> [''none'']) in
      if (case ac_collection cf of None \<Rightarrow> False
          | Some c \<Rightarrow> (case cl_methods c of None \<Rightarrow> False | Some ms \<Rightarrow> set ms \<noteq> set advertised))
      then refuse ''Collection authentication methods must match federation_collection_endpoint_auth_methods (default: none)''
      else if truthy (mget meta ''federation_collection_endpoint'') \<and> ac_collection cf = None
      then refuse ''The collection endpoint requires collection configuration''
      else Inr ())"

text \<open>The order of the routes is the order in which they are added.\<close>

definition add_collection ::
  "platform \<Rightarrow> ('s, 'r) authority_config \<Rightarrow> jsval \<Rightarrow> ('s, 'r) served routes \<Rightarrow> (authority_error, ('s, 'r) served routes) result"
where
  "add_collection P cf meta routes =
     (case ac_collection cf of
        None \<Rightarrow> Inr routes
      | Some c \<Rightarrow>
          addOptionalAuthorityRoute P ''federation_collection_endpoint'' (mget meta ''federation_collection_endpoint'')
            (\<lambda>x request. (cl_handle c request, x)) routes)"

definition build_routes ::
  "platform \<Rightarrow> ('s, 'r) authority_config \<Rightarrow> 's handler_context \<Rightarrow> jsval \<Rightarrow> string \<times> string \<Rightarrow>
   (authority_error, ('s, 'r) served routes) result"
where
  "build_routes P cf cx meta paths =
     (let A = authority_auth P cf in
      case addAuthorityRoute ''entity configuration'' (wellKnownPathForEntityId P (cx_entityId cx))
             (\<lambda>x request. (respond (createEntityConfigurationHandler cx request), x)) [] of
        Inl e \<Rightarrow> Inl e
      | Inr routes1 \<Rightarrow>
          (case for_each (add_required cx A meta) [(fetch_route cx, fst paths), (list_route cx, snd paths)] routes1 of
             Inl e \<Rightarrow> Inl e
           | Inr routes2 \<Rightarrow>
               (case for_each (add_optional P cx A meta) (optional_endpoints cx (ac_extendedListing cf) (ac_resolver cf)) routes2 of
                  Inl e \<Rightarrow> Inl e
                | Inr routes3 \<Rightarrow> add_collection P cf meta routes3)))"

definition check_config :: "platform \<Rightarrow> ('s, 'r) authority_config \<Rightarrow> (authority_error, string \<times> string \<times> string) result" where
  "check_config P cf =
     (case normalizeAuthorityEntityId P (ac_entityId cf) of
        Inl e \<Rightarrow> Inl e
      | Inr normalizedEntityId \<Rightarrow>
     (case check_ttls cf of
        Inl e \<Rightarrow> Inl e
      | Inr _ \<Rightarrow>
     (case check_roles_of_hints P cf of
        Inl e \<Rightarrow> Inl e
      | Inr _ \<Rightarrow>
     (let fedEntity = mget (ac_metadata cf) ''federation_entity'' in
      case required_paths P fedEntity of
        Inl e \<Rightarrow> Inl e
      | Inr paths \<Rightarrow>
     (case check_storage cf fedEntity of
        Inl e \<Rightarrow> Inl e
      | Inr _ \<Rightarrow>
     (case check_metadata cf of
        Inl e \<Rightarrow> Inl e
      | Inr _ \<Rightarrow>
     (case check_collection cf fedEntity of
        Inl e \<Rightarrow> Inl e
      | Inr _ \<Rightarrow> Inr (normalizedEntityId, paths))))))))"

definition createAuthorityServer :: "platform \<Rightarrow> ('s, 'r) authority_config \<Rightarrow> (authority_error, ('s, 'r) server) result" where
  "createAuthorityServer P cf =
     (case check_config P cf of
        Inl e \<Rightarrow> Inl e
      | Inr (normalizedEntityId, paths) \<Rightarrow>
          (let cx = authority_context P cf normalizedEntityId in
           case build_routes P cf cx (mget (ac_metadata cf) ''federation_entity'') paths of
             Inl e \<Rightarrow> Inl e
           | Inr routes \<Rightarrow> Inr \<lparr>sv_context = cx, sv_config = cf, sv_routes = routes\<rparr>))"

definition unknown_endpoint :: server_response where
  "unknown_endpoint = jsonResponse (JObj [(''error'', JStr ''not_found''), (''error_description'', JStr ''Unknown endpoint'')]) 404"

definition sanitized :: "server_request \<Rightarrow> server_request" where
  "sanitized request = request\<lparr>sq_headers := AList.delete AUTHENTICATED_ENTITY (sq_headers request)\<rparr>"

definition router :: "('s, 'r) server \<Rightarrow> ('s, 'r) served route_handler" where
  "router sv x request =
     (case map_of (sv_routes sv) (sq_path request) of
        Some (_, handler) \<Rightarrow> handler x (sanitized request)
      | None \<Rightarrow> (respond unknown_endpoint, x))"

section \<open>Direct methods\<close>

text \<open>A method that calls a handler builds its request; an error response becomes a thrown error.\<close>

definition direct_request :: "string \<Rightarrow> url_params \<Rightarrow> server_request" where
  "direct_request path ps = \<lparr>sq_method = ''GET'', sq_path = path, sq_query = ps, sq_headers = [], sq_body = None\<rparr>"

definition body_json :: "server_response \<Rightarrow> jsval" where
  "body_json response = (case sp_body response of JsonBody v \<Rightarrow> v | JwtBody _ \<Rightarrow> JUndef)"

definition body_text :: "platform \<Rightarrow> server_response \<Rightarrow> string" where
  "body_text P response = (case sp_body response of JwtBody t \<Rightarrow> t | JsonBody v \<Rightarrow> pf_printJson P v)"

definition response_error :: "server_response \<Rightarrow> authority_error" where
  "response_error response =
     (let body = body_json response; d = mget body ''error_description'' in
      Thrown (js_string (if d = JUndef \<or> d = JNull then mget body ''error'' else d)))"

definition text_or_throw :: "platform \<Rightarrow> server_response \<Rightarrow> (authority_error, string) result" where
  "text_or_throw P response = (if sp_status response \<noteq> 200 then Inl (response_error response) else Inr (body_text P response))"

definition getSubordinateStatement :: "('s, 'r) server \<Rightarrow> 's \<Rightarrow> string \<Rightarrow> (authority_error, string) result" where
  "getSubordinateStatement sv st sub =
     (case so_get (as_records (ac_storage (sv_config sv))) st sub of
        None \<Rightarrow> Inl (Thrown (''Subordinate '' @ quoted sub @ '' not found''))
      | Some record \<Rightarrow> buildSubordinateStatement (sv_context sv) record None)"

definition getSubordinateEvents :: "('s, 'r) server \<Rightarrow> 's \<Rightarrow> string \<Rightarrow> (authority_error, string) result" where
  "getSubordinateEvents sv st subject =
     (case buildSubordinateEvents (sv_context sv) st subject of
        Inl e \<Rightarrow> Inl e
      | Inr None \<Rightarrow> Inl (Thrown (''Subordinate history '' @ quoted subject @ '' not found''))
      | Inr (Some jwt) \<Rightarrow> Inr jwt)"

definition listSubordinates :: "('s, 'r) server \<Rightarrow> 's \<Rightarrow> list_filter \<Rightarrow> (authority_error, string list) result" where
  "listSubordinates sv st filt =
     (case as_list (ac_storage (sv_config sv)) st filt no_page_options of
        Inl e \<Rightarrow> Inl e | Inr page \<Rightarrow> Inr (map sr_entityId (lp_items page)))"

definition set_param :: "string \<Rightarrow> string option \<Rightarrow> url_params" where
  "set_param name v = (case v of None \<Rightarrow> [] | Some s \<Rightarrow> [(name, s)])"

definition flag_param :: "string \<Rightarrow> bool option \<Rightarrow> url_params" where
  "flag_param name b = set_param name (map_option (\<lambda>v. if v then ''true'' else ''false'') b)"

definition extended_query_params :: "extended_request \<Rightarrow> url_params" where
  "extended_query_params ps =
     set_param ''from'' (xr_from ps) @ set_param ''limit'' (printed (xr_limit ps)) @
     set_param ''updated_after'' (printed (xr_updatedAfter ps)) @ set_param ''updated_before'' (printed (xr_updatedBefore ps)) @
     flag_param ''audit_timestamps'' (xr_auditTimestamps ps) @
     set_param ''claims'' (map_option (\<lambda>cs. join_with '','' (filter (\<lambda>c. c \<noteq> []) cs)) (xr_claims ps)) @
     map (Pair ''entity_type'') (or_empty (xr_entityType ps)) @ flag_param ''trust_marked'' (xr_trustMarked ps) @
     map (Pair ''trust_mark_type'') (or_empty (xr_trustMarkType ps)) @ flag_param ''intermediate'' (xr_intermediate ps)"

definition listSubordinatesExtended :: "('s, 'r) server \<Rightarrow> 's \<Rightarrow> extended_request \<Rightarrow> (fed_error, jsval) result" where
  "listSubordinatesExtended sv st ps =
     (let res = createExtendedListHandler (sv_context sv) (ac_extendedListing (sv_config sv)) st
                  (direct_request ''/federation_extended_list'' (extended_query_params ps));
          body = body_json res in
      if sp_status res \<noteq> 200 then
        (let c = (if in_strings FederationErrorCodes (mget body ''error'') then str_of (mget body ''error'') else ''server_error'');
             d = mget body ''error_description''
         in Inl (mk_err c (if d = JUndef \<or> d = JNull then c else js_string d)))
      else Inr body)"

definition resolveEntity ::
  "platform \<Rightarrow> ('s, 'r) server \<Rightarrow> 's \<Rightarrow> string \<Rightarrow> string option \<Rightarrow> (authority_error, string) result"
where
  "resolveEntity P sv st sub ta =
     (case createResolveHandler (sv_context sv) (ac_resolver (sv_config sv)) st
             (direct_request ''/federation_resolve'' ((''sub'', sub) # set_param ''trust_anchor'' (some_nonempty ta))) of
        Inl e \<Rightarrow> Inl e
      | Inr res \<Rightarrow> text_or_throw P res)"

definition status_post :: "platform \<Rightarrow> string \<Rightarrow> server_request" where
  "status_post P trustMark =
     \<lparr>sq_method = ''POST'', sq_path = ''/federation_trust_mark_status'', sq_query = [],
      sq_headers = [(''content-type'', ''application/x-www-form-urlencoded'')],
      sq_body = Some \<lparr>rb_chunks = [pf_encode P (''trust_mark='' @ pf_encodeComponent P trustMark)], rb_fails = False\<rparr>\<rparr>"

definition getTrustMarkStatus :: "platform \<Rightarrow> ('s, 'r) server \<Rightarrow> 's \<Rightarrow> string \<Rightarrow> (authority_error, jsval dict) result" where
  "getTrustMarkStatus P sv st trustMark =
     (case createTrustMarkStatusHandler (sv_context sv) st (status_post P trustMark) of
        Inl e \<Rightarrow> Inl e
      | Inr res \<Rightarrow>
          (case text_or_throw P res of
             Inl e \<Rightarrow> Inl e
           | Inr jwt \<Rightarrow>
               (case decodeEntityStatement (pf_jose P) jwt of
                  Inl _ \<Rightarrow> Inl (Thrown ''Failed to decode trust mark status response'')
                | Inr decoded \<Rightarrow> Inr (payload decoded))))"

text \<open>The status of the response is not looked at.\<close>

definition listTrustMarkedEntities :: "('s, 'r) server \<Rightarrow> 's \<Rightarrow> string \<Rightarrow> jsval option" where
  "listTrustMarkedEntities sv st trustMarkType =
     map_option body_json (createTrustMarkListHandler (sv_context sv) st
       (direct_request ''/federation_trust_mark_list'' [(''trust_mark_type'', trustMarkType)]))"

definition issueTrustMark ::
  "platform \<Rightarrow> ('s, 'r) server \<Rightarrow> 's \<Rightarrow> 's \<Rightarrow> string \<Rightarrow> string \<Rightarrow> 's \<times> (authority_error, string) result"
where
  "issueTrustMark P sv st st' sub trustMarkType =
     (case createTrustMarkIssuanceHandler (sv_context sv) st st'
             (direct_request ''/federation_trust_mark'' [(''trust_mark_type'', trustMarkType), (''sub'', sub)]) of
        (st'', res) \<Rightarrow> (st'', text_or_throw P res))"

definition issueTrustMarkDelegation :: "platform \<Rightarrow> ('s, 'r) server \<Rightarrow> string \<Rightarrow> string \<Rightarrow> (authority_error, string) result" where
  "issueTrustMarkDelegation P sv subject trustMarkType =
     (case cx_keySet (sv_context sv) of
        Inl e \<Rightarrow> Inl (Thrown e)
      | Inr (signer, _) \<Rightarrow>
          rethrow (signTrustMarkDelegation (pf_now P) (cx_entityId (sv_context sv)) subject trustMarkType signer
            (ac_trustMarkTtlSeconds (sv_config sv)) (ac_clock (sv_config sv))))"

section \<open>Trust anchors and intermediates\<close>

text \<open>A role as the classes read it; \<open>hr_initialize\<close> is what its initialization does, after which its metadata and
  routes are read.\<close>

record 'x hosted_role = entity_role +
  hr_initialize :: "(string, unit) result"
  hr_metadata :: "jsval dict"
  hr_routes :: "(string \<times> 'x route_handler) list option"

definition spread :: "jsval dict \<Rightarrow> jsval dict \<Rightarrow> jsval dict" where
  "spread a b = foldl (\<lambda>m (k, v). AList.update k v m) a b"

definition resolved_path :: "platform \<Rightarrow> string \<Rightarrow> (authority_error, string) result" where
  "resolved_path P path =
     (if starts_with path ''http'' then
        (case bs_parse_url (pf_schemas P) path of None \<Rightarrow> Inl (Thrown ''Invalid URL'') | Some _ \<Rightarrow> Inr (pf_path P path))
      else Inr path)"

definition add_role_route ::
  "platform \<Rightarrow> string \<times> 'x route_handler \<Rightarrow> 'x route_handler dict \<Rightarrow> (authority_error, 'x route_handler dict) result"
where
  "add_role_route P r routes =
     (case r of (path, handler) \<Rightarrow>
        (case resolved_path P path of Inl e \<Rightarrow> Inl e | Inr resolvedPath \<Rightarrow> Inr (AList.update resolvedPath handler routes)))"

definition host_role ::
  "platform \<Rightarrow> 'x hosted_role \<Rightarrow> jsval dict \<times> 'x route_handler dict \<Rightarrow>
   (authority_error, jsval dict \<times> 'x route_handler dict) result"
where
  "host_role P role s =
     (case s of (metadataRecord, routes) \<Rightarrow>
        (case rethrow (hr_initialize role) of
           Inl e \<Rightarrow> Inl e
         | Inr _ \<Rightarrow>
             (let metadataRecord' = AList.update (er_type role)
                    (JObj (spread (entries (pget metadataRecord (er_type role))) (hr_metadata role))) metadataRecord in
              case for_each (add_role_route P) (or_empty (hr_routes role)) routes of
                Inl e \<Rightarrow> Inl e | Inr routes' \<Rightarrow> Inr (metadataRecord', routes'))))"

record ('s, 'r) hosted =
  ho_entityId :: string
  ho_routes :: "('s, 'r) served route_handler dict"
  ho_server :: "('s, 'r) server"

definition host_authority ::
  "platform \<Rightarrow> bool \<Rightarrow> ('s, 'r) served hosted_role list option \<Rightarrow> ('s, 'r) authority_config \<Rightarrow> (authority_error, ('s, 'r) hosted) result"
where
  "host_authority P isTrustAnchor roles cf =
     (case assertTrustAnchorHintsConfig P (ac_trustAnchorHints cf) isTrustAnchor of
        Inl e \<Rightarrow> Inl e
      | Inr _ \<Rightarrow>
     (case normalizeAuthorityEntityId P (ac_entityId cf) of
        Inl e \<Rightarrow> Inl e
      | Inr eid \<Rightarrow>
     (case for_each (host_role P) (or_empty roles) (entries (ac_metadata cf), []) of
        Inl e \<Rightarrow> Inl e
      | Inr (metadataRecord, routes) \<Rightarrow>
     (case createAuthorityServer P (cf\<lparr>ac_entityId := eid, ac_metadata := JObj metadataRecord,
             ac_roles := map_option (map entity_role.truncate) roles\<rparr>) of
        Inl e \<Rightarrow> Inl e
      | Inr sv \<Rightarrow> Inr \<lparr>ho_entityId = eid, ho_routes = routes, ho_server = sv\<rparr>))))"

definition TrustAnchor ::
  "platform \<Rightarrow> ('s, 'r) served hosted_role list option \<Rightarrow> ('s, 'r) authority_config \<Rightarrow> (authority_error, ('s, 'r) hosted) result"
where
  "TrustAnchor P roles cf =
     (if \<not> is_trust_anchor cf then Inl (Thrown ''Trust Anchor MUST NOT have authorityHints'')
      else host_authority P True roles cf)"

definition Intermediate ::
  "platform \<Rightarrow> ('s, 'r) served hosted_role list option \<Rightarrow> ('s, 'r) authority_config \<Rightarrow> (authority_error, ('s, 'r) hosted) result"
where
  "Intermediate P roles cf =
     (if is_trust_anchor cf then Inl (Thrown ''Intermediate MUST have at least one authorityHint'')
      else host_authority P False roles cf)"

definition handleRequest :: "('s, 'r) hosted \<Rightarrow> ('s, 'r) served route_handler" where
  "handleRequest ho x request =
     (case map_of (ho_routes ho) (sq_path request) of
        Some roleHandler \<Rightarrow> roleHandler x request
      | None \<Rightarrow> router (ho_server ho) x request)"

section \<open>The routes of a server\<close>

definition all_endpoints :: "('s, 'r) server \<Rightarrow> ('s, 'r) served endpoint list" where
  "all_endpoints sv =
     fetch_route (sv_context sv) # list_route (sv_context sv) #
     optional_endpoints (sv_context sv) (ac_extendedListing (sv_config sv)) (ac_resolver (sv_config sv))"

definition server_meta :: "('s, 'r) server \<Rightarrow> jsval" where
  "server_meta sv = mget (ac_metadata (sv_config sv)) ''federation_entity''"

definition advertised :: "platform \<Rightarrow> ('s, 'r) server \<Rightarrow> 'x endpoint \<Rightarrow> string \<Rightarrow> bool" where
  "advertised P sv ep path \<longleftrightarrow> advertisedEndpointPath P (ep_name ep) (mget (server_meta sv) (ep_name ep)) = Inr (Some path)"

lemma addAuthorityRoute_Inr:
  "addAuthorityRoute n p h rs = Inr rs' \<longleftrightarrow> p \<notin> fst ` set rs \<and> rs' = rs @ [(p, n, h)]"
proof (cases "map_of rs p")
  case None
  then have "p \<notin> fst ` set rs" by (simp add: map_of_eq_None_iff)
  with None show ?thesis by (auto simp: addAuthorityRoute_def)
next
  case (Some a)
  then have "p \<in> fst ` set rs" by (metis map_of_eq_None_iff option.distinct(1))
  with Some show ?thesis by (simp add: addAuthorityRoute_def refuse_def split: prod.split)
qed

lemma requireAdvertisedEndpointPath_Inr:
  "requireAdvertisedEndpointPath P n e = Inr path \<longleftrightarrow> is_str e \<and> advertisedEndpointPath P n e = Inr (Some path)"
  by (auto simp: requireAdvertisedEndpointPath_def refuse_def Let_def split: sum.splits option.splits)

text \<open>What adding endpoints to routes does.\<close>

definition extends_routes ::
  "('x endpoint \<Rightarrow> string \<Rightarrow> bool) \<Rightarrow> ('x endpoint \<Rightarrow> (authority_error, 'x route_handler) result) \<Rightarrow> 'x endpoint list \<Rightarrow>
   'x routes \<Rightarrow> 'x routes \<Rightarrow> bool"
where
  "extends_routes serves route eps rs rs' \<longleftrightarrow>
     (distinct (map fst rs) \<longrightarrow> distinct (map fst rs')) \<and> set rs \<subseteq> set rs' \<and>
     (\<forall>ep \<in> set eps. (\<exists>h. route ep = Inr h) \<and> (\<forall>path. serves ep path \<longrightarrow> (\<exists>h. route ep = Inr h \<and> (path, ep_name ep, h) \<in> set rs'))) \<and>
     (\<forall>r \<in> set rs'. r \<in> set rs \<or> (\<exists>ep \<in> set eps. serves ep (fst r) \<and> fst (snd r) = ep_name ep))"

lemma extends_routes_Nil: "extends_routes serves route [] rs rs"
  by (simp add: extends_routes_def)

lemma extends_routes_Cons:
  assumes "extends_routes serves route [ep] rs rs1" and "extends_routes serves route eps rs1 rs2"
  shows "extends_routes serves route (ep # eps) rs rs2"
  using assms unfolding extends_routes_def by (auto 0 4)

lemma add_optional_extends:
  assumes "add_optional P cx A meta ep rs = Inr rs'"
  shows "extends_routes (\<lambda>ep path. advertisedEndpointPath P (ep_name ep) (mget meta (ep_name ep)) = Inr (Some path)) (route_of cx A meta) [ep] rs rs'"
proof -
  from assms obtain h where h: "route_of cx A meta ep = Inr h"
    and rs': "addOptionalAuthorityRoute P (ep_name ep) (mget meta (ep_name ep)) h rs = Inr rs'"
    by (auto simp: add_optional_def split: sum.splits)
  show ?thesis
  proof (cases "advertisedEndpointPath P (ep_name ep) (mget meta (ep_name ep))")
    case (Inr p)
    then show ?thesis using rs' h
      by (cases p) (auto simp: addOptionalAuthorityRoute_def addAuthorityRoute_Inr extends_routes_def)
  qed (use rs' in \<open>simp add: addOptionalAuthorityRoute_def\<close>)
qed

lemma optional_routes:
  "for_each (add_optional P cx A meta) eps rs = Inr rs' \<Longrightarrow>
   extends_routes (\<lambda>ep path. advertisedEndpointPath P (ep_name ep) (mget meta (ep_name ep)) = Inr (Some path)) (route_of cx A meta) eps rs rs'"
proof (induction eps arbitrary: rs)
  case Nil
  then show ?case by (simp add: extends_routes_Nil)
next
  case (Cons ep eps)
  then obtain rs1 where "add_optional P cx A meta ep rs = Inr rs1" "for_each (add_optional P cx A meta) eps rs1 = Inr rs'"
    by (auto split: sum.splits)
  with Cons.IH show ?case by (blast intro: extends_routes_Cons add_optional_extends)
qed

lemma add_required_extends:
  assumes "add_required cx A meta (ep, path) rs = Inr rs'"
    and "advertisedEndpointPath P (ep_name ep) (mget meta (ep_name ep)) = Inr (Some path)"
  shows "extends_routes (\<lambda>ep path. advertisedEndpointPath P (ep_name ep) (mget meta (ep_name ep)) = Inr (Some path)) (route_of cx A meta) [ep] rs rs'"
  using assms by (auto simp: add_required_def addAuthorityRoute_Inr extends_routes_def split: sum.splits)

lemma endpoint_names [simp]:
  "ep_name (fetch_route cx) = ''federation_fetch_endpoint''" "ep_name (list_route cx) = ''federation_list_endpoint''"
  by (simp_all add: fetch_route_def list_route_def plain_endpoint_def)

lemma check_config_paths:
  assumes "check_config P cf = Inr (eid, paths)"
  shows "normalizeAuthorityEntityId P (ac_entityId cf) = Inr eid"
    and "advertisedEndpointPath P ''federation_fetch_endpoint'' (mget (mget (ac_metadata cf) ''federation_entity'') ''federation_fetch_endpoint'') = Inr (Some (fst paths))"
    and "advertisedEndpointPath P ''federation_list_endpoint'' (mget (mget (ac_metadata cf) ''federation_entity'') ''federation_list_endpoint'') = Inr (Some (snd paths))"
    and "check_roles_of_hints P cf = Inr ()" and "check_metadata cf = Inr ()"
    and "check_storage cf (mget (ac_metadata cf) ''federation_entity'') = Inr ()"
    and "check_ttls cf = Inr ()"
proof -
  from assms have a: "normalizeAuthorityEntityId P (ac_entityId cf) = Inr eid" "check_ttls cf = Inr ()" "check_roles_of_hints P cf = Inr ()"
    "required_paths P (mget (ac_metadata cf) ''federation_entity'') = Inr paths" "check_metadata cf = Inr ()"
    "check_storage cf (mget (ac_metadata cf) ''federation_entity'') = Inr ()"
    by (auto simp: check_config_def Let_def split: sum.splits)
  show "normalizeAuthorityEntityId P (ac_entityId cf) = Inr eid" "check_roles_of_hints P cf = Inr ()" "check_metadata cf = Inr ()"
    "check_storage cf (mget (ac_metadata cf) ''federation_entity'') = Inr ()" "check_ttls cf = Inr ()" by fact+
  from a(4) show "advertisedEndpointPath P ''federation_fetch_endpoint'' (mget (mget (ac_metadata cf) ''federation_entity'') ''federation_fetch_endpoint'') = Inr (Some (fst paths))"
    "advertisedEndpointPath P ''federation_list_endpoint'' (mget (mget (ac_metadata cf) ''federation_entity'') ''federation_list_endpoint'') = Inr (Some (snd paths))"
    by (auto simp: required_paths_def refuse_def requireAdvertisedEndpointPath_Inr split: if_splits sum.splits)
qed

text \<open>The paths a server serves besides those of the endpoints.\<close>

definition other_path :: "platform \<Rightarrow> ('s, 'r) server \<Rightarrow> string \<Rightarrow> bool" where
  "other_path P sv path \<longleftrightarrow> path = wellKnownPathForEntityId P (cx_entityId (sv_context sv)) \<or>
     ac_collection (sv_config sv) \<noteq> None \<and>
     advertisedEndpointPath P ''federation_collection_endpoint'' (mget (server_meta sv) ''federation_collection_endpoint'') = Inr (Some path)"

lemma server_built:
  assumes "createAuthorityServer P cf = Inr sv"
  obtains paths where "sv_config sv = cf" and "check_config P cf = Inr (cx_entityId (sv_context sv), paths)"
    and "sv_context sv = authority_context P cf (cx_entityId (sv_context sv))"
    and "build_routes P cf (sv_context sv) (server_meta sv) paths = Inr (sv_routes sv)"
  using assms that
  by (auto simp: createAuthorityServer_def Let_def server_meta_def authority_context_def split: sum.splits prod.splits)

lemma server_routes:
  assumes sv: "createAuthorityServer P cf = Inr sv"
  shows "distinct (map fst (sv_routes sv))"
    and "ep \<in> set (all_endpoints sv) \<Longrightarrow> advertised P sv ep path \<Longrightarrow>
      \<exists>h. route_of (sv_context sv) (authority_auth P cf) (server_meta sv) ep = Inr h \<and> (path, ep_name ep, h) \<in> set (sv_routes sv)"
    and "r \<in> set (sv_routes sv) \<Longrightarrow> other_path P sv (fst r) \<or> (\<exists>ep \<in> set (all_endpoints sv). advertised P sv ep (fst r))"
    and "(wellKnownPathForEntityId P (cx_entityId (sv_context sv)), ''entity configuration'',
      \<lambda>x request. (respond (createEntityConfigurationHandler (sv_context sv) request), x)) \<in> set (sv_routes sv)"
proof -
  let ?cx = "sv_context sv" and ?meta = "server_meta sv" and ?A = "authority_auth P cf"
  let ?at = "\<lambda>ep path. advertisedEndpointPath P (ep_name ep) (mget ?meta (ep_name ep)) = Inr (Some path)"
  obtain paths where cf: "sv_config sv = cf" and check: "check_config P cf = Inr (cx_entityId ?cx, paths)"
    and build: "build_routes P cf ?cx ?meta paths = Inr (sv_routes sv)" using sv by (rule server_built)
  let ?ec = "(wellKnownPathForEntityId P (cx_entityId ?cx), ''entity configuration'',
      \<lambda>x request. (respond (createEntityConfigurationHandler ?cx request), x))"
  from build obtain rs2 rs3 where
    "for_each (add_required ?cx ?A ?meta) [(fetch_route ?cx, fst paths), (list_route ?cx, snd paths)] [?ec] = Inr rs2"
    and opt: "for_each (add_optional P ?cx ?A ?meta) (optional_endpoints ?cx (ac_extendedListing cf) (ac_resolver cf)) rs2 = Inr rs3"
    and col: "add_collection P cf ?meta rs3 = Inr (sv_routes sv)"
    by (auto simp: build_routes_def Let_def addAuthorityRoute_Inr split: sum.splits)
  then obtain rs1 where req: "add_required ?cx ?A ?meta (fetch_route ?cx, fst paths) [?ec] = Inr rs1"
    "add_required ?cx ?A ?meta (list_route ?cx, snd paths) rs1 = Inr rs2"
    by (auto split: sum.splits)
  have at: "?at (fetch_route ?cx) (fst paths)" "?at (list_route ?cx) (snd paths)"
    using check_config_paths(2,3) [OF check] by (simp_all add: server_meta_def cf)
  have "extends_routes ?at (route_of ?cx ?A ?meta) (all_endpoints sv) [?ec] rs3"
    unfolding all_endpoints_def cf
    by (rule extends_routes_Cons [OF add_required_extends [OF req(1) at(1)]],
        rule extends_routes_Cons [OF add_required_extends [OF req(2) at(2)]], rule optional_routes [OF opt])
  then have e: "distinct (map fst rs3)" "?ec \<in> set rs3"
    "\<forall>ep \<in> set (all_endpoints sv). \<forall>path. ?at ep path \<longrightarrow> (\<exists>h. route_of ?cx ?A ?meta ep = Inr h \<and> (path, ep_name ep, h) \<in> set rs3)"
    "\<forall>r \<in> set rs3. r = ?ec \<or> (\<exists>ep \<in> set (all_endpoints sv). ?at ep (fst r))"
    unfolding extends_routes_def by auto
  have c: "set rs3 \<subseteq> set (sv_routes sv)" "distinct (map fst (sv_routes sv))"
    "\<forall>r \<in> set (sv_routes sv). r \<in> set rs3 \<or> other_path P sv (fst r)"
    using col e(1)
    by (cases "ac_collection cf"; auto simp: add_collection_def addOptionalAuthorityRoute_def addAuthorityRoute_Inr other_path_def cf
        split: option.splits sum.splits)+
  show "distinct (map fst (sv_routes sv))" by fact
  show "?ec \<in> set (sv_routes sv)" using e(2) c(1) by blast
  show "\<exists>h. route_of ?cx ?A ?meta ep = Inr h \<and> (path, ep_name ep, h) \<in> set (sv_routes sv)"
    if "ep \<in> set (all_endpoints sv)" "advertised P sv ep path"
    using e(3) c(1) that unfolding advertised_def by blast
  show "other_path P sv (fst r) \<or> (\<exists>ep \<in> set (all_endpoints sv). advertised P sv ep (fst r))" if "r \<in> set (sv_routes sv)"
  proof -
    from c(3) that consider "r \<in> set rs3" | "other_path P sv (fst r)" by blast
    then show ?thesis
    proof cases
      case 1
      with e(4) have "r = ?ec \<or> (\<exists>ep \<in> set (all_endpoints sv). ?at ep (fst r))" by blast
      then show ?thesis unfolding advertised_def other_path_def by auto
    qed simp
  qed
qed

lemma sanitized_path [simp]: "sq_path (sanitized request) = sq_path request"
  by (simp add: sanitized_def)

text \<open>
  C18: A server serves each endpoint where its metadata says. A created server answers a request for the
  advertised path of an endpoint with that endpoint's handler behind the authentication its metadata names, for the
  well-known path of its entity identifier with the entity configuration, and anything else with an unknown-endpoint error, unless
  it is the path of the collection; and it answers two requests alike that differ only in the header by
  which it tells its handlers who is authenticated.
\<close>
theorem server_serves_advertised:
  assumes "createAuthorityServer P cf = Inr sv"
  shows "(\<forall>ep \<in> set (all_endpoints sv). \<forall>path. advertised P sv ep path \<longrightarrow>
      (\<exists>h. route_of (sv_context sv) (authority_auth P cf) (server_meta sv) ep = Inr h \<and>
        (\<forall>x request. sq_path request = path \<longrightarrow> router sv x request = h x (sanitized request)))) \<and>
    (\<forall>x request. sq_path request = wellKnownPathForEntityId P (cx_entityId (sv_context sv)) \<longrightarrow>
      router sv x request = (respond (createEntityConfigurationHandler (sv_context sv) (sanitized request)), x)) \<and>
    (\<forall>x request. \<not> other_path P sv (sq_path request) \<and> (\<forall>ep \<in> set (all_endpoints sv). \<not> advertised P sv ep (sq_path request)) \<longrightarrow>
      router sv x request = (respond unknown_endpoint, x)) \<and>
    (\<forall>x request request'. sanitized request = sanitized request' \<longrightarrow> router sv x request = router sv x request')"
proof (intro conjI)
  note r = server_routes [OF assms]
  have lookup: "map_of (sv_routes sv) p = Some (n, h)" if "(p, n, h) \<in> set (sv_routes sv)" for p n h
    using that r(1) by simp
  show "\<forall>ep \<in> set (all_endpoints sv). \<forall>path. advertised P sv ep path \<longrightarrow>
      (\<exists>h. route_of (sv_context sv) (authority_auth P cf) (server_meta sv) ep = Inr h \<and>
        (\<forall>x request. sq_path request = path \<longrightarrow> router sv x request = h x (sanitized request)))"
    using r(2) lookup by (fastforce simp: router_def)
  show "\<forall>x request. sq_path request = wellKnownPathForEntityId P (cx_entityId (sv_context sv)) \<longrightarrow>
      router sv x request = (respond (createEntityConfigurationHandler (sv_context sv) (sanitized request)), x)"
    using lookup [OF r(4)] by (simp add: router_def)
  show "\<forall>x request. \<not> other_path P sv (sq_path request) \<and> (\<forall>ep \<in> set (all_endpoints sv). \<not> advertised P sv ep (sq_path request)) \<longrightarrow>
      router sv x request = (respond unknown_endpoint, x)"
  proof (intro allI impI)
    fix x and request :: server_request
    assume no: "\<not> other_path P sv (sq_path request) \<and> (\<forall>ep \<in> set (all_endpoints sv). \<not> advertised P sv ep (sq_path request))"
    have "sq_path request \<notin> fst ` set (sv_routes sv)" using r(3) no by fastforce
    then show "router sv x request = (respond unknown_endpoint, x)"
      by (simp add: router_def map_of_eq_None_iff [THEN iffD2])
  qed
  show "\<forall>x request request'. sanitized request = sanitized request' \<longrightarrow> router sv x request = router sv x request'"
    unfolding router_def by (metis sanitized_path)
qed

section \<open>Endpoints behind authentication\<close>

lemma finish_success:
  assumes "ep \<in> set (all_endpoints sv)" and "ep_finish ep h x request = (Some (Inr response), x')" and "sp_status response = 200"
  shows "h x request = (Some (Inr response), x')"
proof -
  have "ep_finish ep = id \<or> ep_finish ep = event_errors"
    using assms(1) by (auto simp: all_endpoints_def optional_endpoints_def fetch_route_def list_route_def plain_endpoint_def)
  then show ?thesis
  proof
    assume "ep_finish ep = event_errors"
    with assms(2) obtain r0 where h: "h x request = (Some (Inr r0), x')" and r: "response = withSubordinateEventsMethodErrors r0"
      by (cases "h x request"; cases "fst (h x request)") (auto simp: event_errors_def split: sum.splits)
    have "sp_status r0 \<noteq> 405" using r assms(3) by (auto simp: withSubordinateEventsMethodErrors_def Let_def split: option.splits)
    then show ?thesis using h r by (simp add: withSubordinateEventsMethodErrors_def)
  qed (use assms(2) in simp)
qed

lemma stored_client_keys:
  assumes "au_clientKeys (authority_auth P cf) x iss = Inr (Some jwks)" and "ac_clientKeyProvider cf = None"
    and "ac_storage cf = memory_adapter u ev tm"
  obtains k r where "iss = JStr k" and "get_subordinate (fst x) k = Some r" and "jwks = sr_jwks r"
  using assms that
  by (auto simp: authority_auth_def createStorageBackedClientKeyProvider_def split: jsval.splits option.splits if_splits)

text \<open>
  C6: An endpoint that requires client authentication answers only authenticated clients. When the metadata of an authority
  with memory storage give an endpoint the method \<open>private_key_jwt\<close> alone, the router answers a request for its
  path with success only if the body carries exactly one client assertion, which verifies for this authority under the keys
  stored for a registered subordinate that is its issuer, and which the replay store has now used up; and
  the answer is the handler's to a request that names this subordinate as the authenticated entity.
\<close>
theorem protected_endpoint_authenticates:
  assumes sv: "createAuthorityServer P cf = Inr sv" and ep: "ep \<in> set (all_endpoints sv)" "advertised P sv ep (sq_path request)"
    and methods: "auth_methods (mget (server_meta sv) (methods_claim ep)) = Inr (Some ms)" "''none'' \<notin> set ms"
    and store: "ac_storage cf = memory_adapter u ev tm" "ac_clientKeyProvider cf = None" "ac_replay cf = Some use"
    and payload: "\<forall>t k al sk c p. jose_verify (pf_jose P) t k al sk c = Inr p \<longrightarrow> jose_payload (pf_jose P) t = Inr p"
    and url: "bs_parse_url (pf_schemas P) [] = None"
    and run: "router sv x request = (Some (Inr response), x')" "sp_status response = 200"
  shows "\<exists>form assertion k r v e request'. auth_body (sv_context sv) (sanitized request) = Inr form \<and>
    all_params (pf_form P form) ''client_assertion'' = [assertion] \<and> get_subordinate (fst x) k = Some r \<and>
    verifyClientAssertion (pf_jose P) (pf_now P) (on_replay use) assertion (sr_jwks r) (cx_entityId (sv_context sv))
      (assertion_options_of (sv_context sv) (signing_algs (server_meta sv))) (Some x) = (Inr v, Some x') \<and> va_clientId v = JStr k \<and>
    header_value k = Some e \<and> map_of (sq_headers request') AUTHENTICATED_ENTITY = Some e \<and>
    ep_handler ep x' request' = Some (Inr response)"
proof -
  let ?cx = "sv_context sv" and ?A = "authority_auth P cf" and ?algs = "signing_algs (server_meta sv)"
  obtain paths where "?cx = authority_context P cf (cx_entityId ?cx)" using sv by (rule server_built)
  then have cx: "cx_jose ?cx = pf_jose P" "cx_schemas ?cx = pf_schemas P" "cx_form ?cx = pf_form P"
    by (metis authority_context_def handler_context.select_convs)+
  obtain h where h: "route_of ?cx ?A (server_meta sv) ep = Inr h" and member: "(sq_path request, ep_name ep, h) \<in> set (sv_routes sv)"
    using server_routes(2) [OF sv ep] by blast
  then have "map_of (sv_routes sv) (sq_path request) = Some (ep_name ep, h)" using server_routes(1) [OF sv] by simp
  with run have hrun: "h x (sanitized request) = (Some (Inr response), x')" by (simp add: router_def)
  from h methods obtain g where g: "createAuthenticatedHandler ?cx ?A (ep_handler ep) (Some ms) (ep_native ep) ?algs = Inr g"
    and hg: "h = ep_finish ep g"
    by (auto simp: route_of_def withAuth_def split: sum.splits)
  have grun: "g x (sanitized request) = (Some (Inr response), x')"
    using finish_success [OF ep(1) _ run(2), of g x "sanitized request" x'] hrun hg by simp
  obtain rs iss e request' where rs: "au_replay ?A = Some rs" and v: "verified_client ?cx ?A rs ?algs x x' (sanitized request) iss"
    and e: "header_value (js_string iss) = Some e" "map_of (sq_headers request') AUTHENTICATED_ENTITY = Some e"
    and inner: "ep_handler ep x' request' = Some (Inr response)"
    using required_authentication [OF g methods(2) grun run(2)] payload url unfolding cx by blast
  from rs store(3) have rs': "rs = on_replay use" by (simp add: authority_auth_def)
  obtain form assertion jwks w where c: "auth_body ?cx (sanitized request) = Inr form"
    "all_params (cx_form ?cx form) ''client_assertion'' = [assertion]" "au_clientKeys ?A x iss = Inr (Some jwks)"
    "verifyClientAssertion (cx_jose ?cx) (au_now ?A) rs assertion jwks (cx_entityId ?cx) (assertion_options_of ?cx ?algs) (Some x) = (Inr w, Some x')"
    "va_clientId w = iss"
    using v unfolding verified_client_def by blast
  obtain k r where k: "iss = JStr k" "get_subordinate (fst x) k = Some r" "jwks = sr_jwks r"
    using c(3) store(2,1) by (rule stored_client_keys)
  have now: "au_now ?A = pf_now P" by (simp add: authority_auth_def)
  show ?thesis
    by (rule exI [of _ form], rule exI [of _ assertion], rule exI [of _ k], rule exI [of _ r], rule exI [of _ w], rule exI [of _ e],
        rule exI [of _ request'])
       (use c k e inner rs' in \<open>simp add: cx now\<close>)
qed

section \<open>An authority at work\<close>

definition example_client_payload :: "jsval dict" where
  "example_client_payload = [(''iss'', JStr ''https://leaf''), (''sub'', JStr ''https://leaf''), (''aud'', JStr ''https://ta''),
     (''exp'', JNum 300), (''jti'', JStr ''j'')]"

definition example_platform :: platform where
  "example_platform =
     \<lparr>pf_schemas = example_builder, pf_url_ok = (\<lambda>_. True), pf_path = id, pf_mark = (\<lambda>_. False),
      pf_jose = (example_jose ''t'' example_client_payload)\<lparr>jose_header := (\<lambda>t. Inr [(''alg'', JStr ''ES256''), (''kid'', JStr ''k1'')])\<rparr>,
      pf_text = (\<lambda>_. []), pf_encode = (\<lambda>_. []),
      pf_form = (\<lambda>_. [(''client_assertion'', ''t''), (''client_assertion_type'', JWT_BEARER_CLIENT_ASSERTION_TYPE)]),
      pf_printForm = (\<lambda>_. []), pf_printJson = (\<lambda>_. []), pf_encodeComponent = id, pf_now = 50\<rparr>"

definition example_config :: "(memory_state, replay_entries) authority_config" where
  "example_config =
     \<lparr>ac_collection = None, ac_entityId = ''https://ta/'',
      ac_metadata = JObj [(''federation_entity'', JObj
        [(''federation_fetch_endpoint'', JStr ''https://ta/fetch''), (''federation_list_endpoint'', JStr ''https://ta/list''),
         (''federation_list_endpoint_auth_methods'', JArr [JStr ''private_key_jwt''])])],
      ac_storage = memory_adapter (\<lambda>_. True) True True, ac_replay = Some (useJti 5 50),
      ac_keySet = Inr (example_ta_signer, example_ta_keys), ac_historicalKeys = Inr [], ac_clientKeyProvider = None,
      ac_roles = None, ac_trustMarks = None, ac_trustMarkIssuers = None, ac_trustMarkOwners = None, ac_trustMarkDelegations = None,
      ac_authorityHints = None, ac_trustAnchorHints = None, ac_entityConfigurationTtlSeconds = None,
      ac_subordinateStatementTtlSeconds = Some 1000, ac_trustMarkTtlSeconds = None, ac_clock = Some 50, ac_clockSkewSeconds = None,
      ac_extendedListing = default_config, ac_resolver = example_resolver\<rparr>"

definition example_server :: "(memory_state, replay_entries) server" where
  "example_server = (case createAuthorityServer example_platform example_config of Inr sv \<Rightarrow> sv
     | Inl _ \<Rightarrow> \<lparr>sv_context = example_context, sv_config = example_config, sv_routes = []\<rparr>)"

definition example_client_state :: "(memory_state, replay_entries) served" where
  "example_client_state =
     (perform_all (\<lambda>_. True) [AddSubordinate (example_record\<lparr>sr_jwks := example_jwks\<rparr>)] (MemoryStorageAdapter True True), [])"

definition example_list_post :: server_request where
  "example_list_post =
     \<lparr>sq_method = ''POST'', sq_path = ''https://ta/list'', sq_query = [], sq_headers = [(AUTHENTICATED_ENTITY, ''https://evil'')],
      sq_body = Some \<lparr>rb_chunks = [], rb_fails = False\<rparr>\<rparr>"

lemma example_server_created: "createAuthorityServer example_platform example_config = Inr example_server"
proof -
  have "case createAuthorityServer example_platform example_config of Inl _ \<Rightarrow> False | Inr _ \<Rightarrow> True" by code_simp
  then show ?thesis by (auto simp: example_server_def split: sum.splits)
qed

lemma example_list_advertised: "advertised example_platform example_server (list_route (sv_context example_server)) ''https://ta/list''"
  by code_simp

theorem server_serves_advertised_witness:
  "router example_server example_client_state (example_list_post\<lparr>sq_headers := []\<rparr>) = router example_server example_client_state example_list_post"
proof -
  have "sanitized (example_list_post\<lparr>sq_headers := []\<rparr>) = sanitized example_list_post"
    by (simp add: sanitized_def example_list_post_def)
  then show ?thesis using server_serves_advertised [OF example_server_created] by blast
qed

theorem protected_endpoint_authenticates_witness:
  "\<exists>k r e (request' :: server_request). get_subordinate (fst example_client_state) k = Some r \<and> header_value k = Some e \<and>
     map_of (sq_headers request') AUTHENTICATED_ENTITY = Some e"
proof -
  let ?ep = "list_route (sv_context example_server)"
  obtain response x' where run: "router example_server example_client_state example_list_post = (Some (Inr response), x')"
    "sp_status response = 200"
  proof -
    have "case router example_server example_client_state example_list_post of (Some (Inr r), _) \<Rightarrow> sp_status r = 200 | _ \<Rightarrow> False"
      by code_simp
    with that show thesis by (auto split: prod.splits option.splits sum.splits)
  qed
  have ep: "?ep \<in> set (all_endpoints example_server)" "advertised example_platform example_server ?ep (sq_path example_list_post)"
    using example_list_advertised by (simp_all add: all_endpoints_def example_list_post_def)
  have m: "auth_methods (mget (server_meta example_server) (methods_claim ?ep)) = Inr (Some [''private_key_jwt''])"
    "''none'' \<notin> set [''private_key_jwt'']" by code_simp+
  have c: "ac_storage example_config = memory_adapter (\<lambda>_. True) True True" "ac_clientKeyProvider example_config = None"
    "ac_replay example_config = Some (useJti 5 50)" by (simp_all add: example_config_def)
  have j: "\<forall>t k al sk c p. jose_verify (pf_jose example_platform) t k al sk c = Inr p \<longrightarrow> jose_payload (pf_jose example_platform) t = Inr p"
    by (auto simp: example_platform_def example_jose_def split: if_splits)
  have u: "bs_parse_url (pf_schemas example_platform) [] = None" by (simp add: example_platform_def example_builder_def example_schemas_of_def)
  obtain form assertion k r v e and request' :: server_request where
    f: "get_subordinate (fst example_client_state) k = Some r" "header_value k = Some e" "map_of (sq_headers request') AUTHENTICATED_ENTITY = Some e"
    using protected_endpoint_authenticates [OF example_server_created ep m c j u run] by (elim exE conjE) (rule that, assumption+)
  then show ?thesis by (intro exI conjI)
qed

section \<open>Direct methods and role handlers\<close>

text \<open>\<open>listTrustMarkedEntities\<close> returns the body of an error response as its list.\<close>

lemma marked_entities_of_an_error:
  assumes "as_marks (cx_storage (sv_context sv)) = None"
  shows "listTrustMarkedEntities sv st t = Some (body_json marks_not_configured)" and "sp_status marks_not_configured \<noteq> 200"
  using assms by (simp_all add: listTrustMarkedEntities_def createTrustMarkListHandler_def requireMethod_def direct_request_def
      marks_not_configured_def)

text \<open>A handler of a role gets the header as the client sent it.\<close>

lemma role_handler_unsanitized:
  "map_of (ho_routes ho) (sq_path request) = Some h \<Longrightarrow> handleRequest ho x request = h x request"
  by (simp add: handleRequest_def)

text \<open>A configuration makes a trust anchor or an intermediate, not both, and only a trust anchor may publish issuers and owners of trust marks.\<close>

lemma anchor_or_intermediate:
  assumes "host_authority P ta roles cf = Inr ho"
  shows "is_trust_anchor (sv_config (ho_server ho)) = is_trust_anchor cf"
    and "\<not> is_trust_anchor cf \<Longrightarrow> ac_trustMarkIssuers cf = None \<and> ac_trustMarkOwners cf = None"
proof -
  from assms obtain eid md where sv: "createAuthorityServer P (cf\<lparr>ac_entityId := eid, ac_metadata := JObj md, ac_roles := map_option (map entity_role.truncate) roles\<rparr>) =
      Inr (ho_server ho)"
    by (auto simp: host_authority_def split: sum.splits prod.splits)
  obtain paths where s: "sv_config (ho_server ho) =
      cf\<lparr>ac_entityId := eid, ac_metadata := JObj md, ac_roles := map_option (map entity_role.truncate) roles\<rparr>"
    and check: "check_config P (cf\<lparr>ac_entityId := eid, ac_metadata := JObj md, ac_roles := map_option (map entity_role.truncate) roles\<rparr>) =
      Inr (cx_entityId (sv_context (ho_server ho)), paths)" using sv by (rule server_built)
  show "is_trust_anchor (sv_config (ho_server ho)) = is_trust_anchor cf" by (simp add: s is_trust_anchor_def)
  have "ac_trustMarkIssuers cf = None \<and> ac_trustMarkOwners cf = None" if "\<not> is_trust_anchor cf"
    using check_config_paths(4) [OF check] that
    by (auto simp: check_roles_of_hints_def check_anchor_claims_def is_trust_anchor_def refuse_def split: if_splits sum.splits)
  then show "\<not> is_trust_anchor cf \<Longrightarrow> ac_trustMarkIssuers cf = None \<and> ac_trustMarkOwners cf = None" .
qed

end
