(* ===== verification/Spec2Isabelle.thy ===== *)
theory Spec2Isabelle
  imports Cached_Fetch Chain_Discovery Federation_Keys Subordinate_Lifecycle Authority_Server
begin

text \<open>
  A verification library for the OpenID Federation implementation of this repository. The program lets parties of a
  federation decide whom to trust: an entity publishes a signed Entity Configuration, its superiors sign statements
  about it, and a chain of such statements from the entity to a configured Trust Anchor, checked link by link and with
  the metadata policies of the superiors applied, is what trust rests on.

  \<^bold>\<open>The program's parts and how they interact.\<close> \<open>packages/core/src\<close> holds the protocol. \<open>trust-chain/fetch.ts\<close> fetches
  statements over HTTPS behind an address check and a cache (\<open>cache/index.ts\<close>); \<open>trust-chain/resolve.ts\<close> walks
  \<open>authority_hints\<close> upwards with these fetches and collects candidate chains; \<open>trust-chain/validate.ts\<close> validates one
  chain, calling \<open>jose/verify.ts\<close> for signatures, \<open>constraints/\<close>, \<open>metadata-policy/\<close> and \<open>trust-marks/\<close>;
  \<open>trust-chain/discovery.ts\<close>, \<open>peer.ts\<close> and \<open>refresh.ts\<close> combine resolution and validation. \<open>federation-keys.ts\<close>
  manages an entity's signing keys, \<open>jose/client-auth.ts\<close> and \<open>memory-replay-store.ts\<close> authenticate clients, and
  \<open>federation-api/\<close>, \<open>jwks/\<close> and \<open>trust-marks/fetch.ts\<close> ask the endpoints of others. \<open>packages/authority/src\<close> is the other
  side: \<open>storage/\<close> keeps registered subordinates, trust marks and their history behind transactions,
  \<open>subordinate-lifecycle.ts\<close> changes them, \<open>endpoints/\<close> answers requests from them with statements that
  \<open>statement-builders.ts\<close> of the core builds, and \<open>server.ts\<close> checks a configuration, puts authentication
  in front of the endpoints and routes requests to them.

  \<^bold>\<open>Theories\<close>, in the order of their imports, and the code each models (paths below \<open>packages/core/src\<close>):
  \<^item> \<open>Prelude\<close>: JavaScript values, results, loops, strings and maps, with the lemmas all theories share.
  \<^item> \<open>Policy_Operators\<close>, \<open>Policy_Merge\<close>, \<open>Policy_Apply\<close>, \<open>Policy_Chain\<close>: \<open>metadata-policy/operators.ts\<close>,
    \<open>merge.ts\<close>, \<open>custom-operators.ts\<close>, \<open>apply.ts\<close>. Merging two policies and applying the result is applying one after
    the other; a resolved policy tightens every statement's; an applied policy is satisfied by its result and by nothing
    outside what every superior allows; policies of a chain are enforced on the metadata it resolves to.
  \<^item> \<open>Constraints\<close>: \<open>constraints/index.ts\<close>, \<open>metadata-values.ts\<close>. Exact characterisations of the constraint check and
    of the search for null values.
  \<^item> \<open>Jose_Keys\<close>: \<open>jose/verify.ts\<close>, \<open>keys.ts\<close>, \<open>sign.ts\<close>, \<open>signer.ts\<close>, \<open>jwks/\<close>. What a verified statement guarantees;
    no private member survives \<open>stripPrivateFields\<close>.
  \<^item> \<open>Trust_Marks\<close>: \<open>trust-marks/index.ts\<close>. Soundness of validation; signed delegations validate.
  \<^item> \<open>Json_Duplicates\<close>: the duplicate member scan of \<open>trust-chain/validate.ts\<close>, exact and total.
  \<^item> \<open>Statement_Checks\<close>, \<open>Chain_Validate\<close>: \<open>trust-chain/validate.ts\<close>. An accepted chain is authenticated from
    the anchor's configured keys to the leaf, constrained, its metadata is the policies' result and its expiry
    the earliest one; preparation and completion of a validation defer exactly what they name.
  \<^item> \<open>Chain_Resolve\<close>, \<open>Resolve_Invariants\<close>, \<open>Resolve_Runs\<close>: \<open>trust-chain/resolve.ts\<close> as a state machine whose steps
    are the code between two \<open>await\<close>s, in any order. Every run ends, keeps the limits on fetches and on concurrency, and
    refines a sequential walk: what it finds are the paths of superiors to an anchor, all of them unless it says so.
  \<^item> \<open>Chain_Discovery\<close>: \<open>trust-chain/discovery.ts\<close>, \<open>peer.ts\<close>, \<open>refresh.ts\<close>, \<open>anchor-keys.ts\<close> on top of both.
  \<^item> \<open>Fetch_Addresses\<close>, \<open>Http_Fetch\<close>: \<open>trust-chain/fetch.ts\<close>, \<open>http-response.ts\<close>, part of \<open>http.ts\<close> and \<open>types.ts\<close>. The
    address checks, on 32-bit words and on texts, are equivalent to membership in the special-use blocks; no request
    leaves for anything else than an admissible target; bodies are complete and within the limit.
  \<^item> \<open>Memory_Cache\<close>, \<open>Cached_Fetch\<close>: \<open>cache/index.ts\<close> and the fetches through it. The locale \<open>cache_provider\<close> is the
    interface \<open>CacheProvider\<close>, interpreted by the in-memory cache; \<open>cached_client\<close> proves the fetches against it.
  \<^item> \<open>Replay_Protection\<close>: \<open>replay-store.ts\<close>, \<open>memory-replay-store.ts\<close>, \<open>jose/client-auth.ts\<close>. The locale \<open>replay_store\<close> is the
    interface, interpreted by the memory store; an accepted assertion is never accepted again.
  \<^item> \<open>Federation_Keys\<close>: \<open>federation-keys.ts\<close>, \<open>schemas/jwk.ts\<close>. The published key set stays sound through publication, switches
    and revocations.
  \<^item> \<open>Statement_Shape\<close>, \<open>Statement_Builders\<close>: \<open>utils/subordinate-statement-shape.ts\<close> and \<open>errors.ts\<close> of the authority,
    \<open>statement-builders.ts\<close>. What a builder returns passes the checks of \<open>Statement_Checks\<close>.
  \<^item> \<open>Authority_Storage\<close>, \<open>Storage_Transactions\<close>: \<open>storage/types.ts\<close>, \<open>storage/memory.ts\<close> of the authority. Records stay well
    formed, a revocation is final, and the interleaved steps of the transactions refine a sequence of atomic operations.
  \<^item> \<open>Canonical_Json\<close>, \<open>Subordinate_Lifecycle\<close>: \<open>subordinate-lifecycle.ts\<close>. The history of a subject matches its registration.
  \<^item> \<open>Http_Handlers\<close>, \<open>Authority_Endpoints\<close>, \<open>Mark_Endpoints\<close>, \<open>Extended_Listing\<close>, \<open>Resolve_Endpoint\<close>: the rest of \<open>http.ts\<close> and
    the handlers in \<open>endpoints/\<close> of the authority, as functions of the storage's state and a request. What they serve is what is registered
    or recorded, readers accept it, concurrent issuance leaves one valid mark, the pages of the listings are complete.
  \<^item> \<open>Federation_Clients\<close>: \<open>federation-api/\<close>, \<open>jwks/\<close>, \<open>trust-marks/fetch.ts\<close>, \<open>logo.ts\<close>. A client returns its requests with its result,
    so that the guard of the requests is a statement about both. The locale \<open>key_sources\<close> is a prioritised choice of
    sources, interpreted by the key sets of an entity.
  \<^item> \<open>Client_Auth\<close>, \<open>Authority_Server\<close>: \<open>endpoints/client-auth.ts\<close> and \<open>server.ts\<close>. Routes are where the metadata say, and an endpoint
    that requires authentication answers authenticated clients only.

  \<^bold>\<open>How code becomes definitions.\<close> A function is a definition of the same name; a class's state is a record passed
  explicitly; a thrown error or an \<open>err\<close> is the left side of a sum; \<open>undefined\<close> is \<open>None\<close> or \<open>JUndef\<close>. Loops are
  recursive functions with termination proofs. Two numbers bound recursions: the duplicate scan runs on fuel, which
  \<open>Json_Duplicates\<close> shows to be enough for every text (\<open>duplicate_scan_total\<close>); the sequential walk of
  \<open>Resolve_Runs\<close> goes as many levels as the depth limit, and a run of the state machine has fewer than six steps per
  fetch of its budget (\<open>resolution_terminates\<close>).

  \<^bold>\<open>Parameters.\<close> Code outside the repository is an argument: the jose package (decoding, verification, thumbprints), the
  zod schemas of statements and responses, \<open>new URL\<close> and edits of its query, \<open>TextDecoder\<close>, \<open>URLSearchParams\<close> of a text,
  \<open>JSON.parse\<close>, the text of a number, SHA-256, the HTTP client, the network and the clock. \<open>jose_reads\<close> states that the package verifies
  what it signed. The authority endpoints take a resolver as an argument; \<open>resolve_response_sound\<close> assumes that its results are those of
  the resolution modelled in \<open>Chain_Resolve\<close> (\<open>resolves\<close>). Numbers are rationals, so rounding of doubles is not modelled; strings are lists of one-byte characters; the
  names an object inherits from \<open>Object.prototype\<close> are left out but where an endpoint looks up a name the client sends. Logging and the texts of validation errors are left out.

  \<^bold>\<open>Not modelled.\<close> Entity collections (\<open>entity-collection/\<close> and its client; the authority's server takes the service as an
  argument), language tags, the zod schemas beyond those of keys and events, and the packages \<open>leaf\<close>, \<open>oidc\<close> and \<open>wallet\<close>, which build on the
  modelled parts. The user interfaces, sites, command line and scripts (\<open>apps/\<close>, \<open>tools/\<close>,
  \<open>internal/\<close>, \<open>scripts/\<close>) are presentation and I/O around the packages.
\<close>

end
